(* ===== verification/Signal_Prelude.thy ===== *)
theory Signal_Prelude
  imports Main "HOL-Library.Word"
begin

text \<open>
  Shared vocabulary of the development: the machine types the Rust code uses, Rust's
  \<open>Result\<close> and \<open>?\<close> as a sum type with a bind, panics as a second kind of failure, and the
  few operations on slices, \<open>Vec\<close> and \<open>Iterator\<close> the components share,
  with the lemmas that carry the component proofs.
\<close>

section \<open>Machine types\<close>

type_synonym byte = "8 word"
type_synonym bytes = "8 word list"
type_synonym u32 = "32 word"
type_synonym u64 = "64 word"

text \<open>Rust's \<open>usize::MAX\<close> on a 64-bit target; \<open>usize\<close> values are natural numbers.\<close>

definition usize_MAX :: nat where
  "usize_MAX = 2 ^ 64 - 1"

section \<open>Results\<close>

text \<open>
  A Rust function that returns \<open>Result<T, E>\<close> ends in one of three ways: \<open>Ok\<close> (\<open>Inr\<close>), an
  error value (\<open>Inl (Err e)\<close>) or a panic (\<open>Inl (Panic msg)\<close>: a failed \<open>expect\<close> or \<open>assert\<close>,
  an index or range outside a slice, or an arithmetic overflow, which the release profile of the workspace checks).
\<close>

datatype 'e failure = Err 'e | Panic string

type_synonym ('e, 'a) rresult = "'e failure + 'a"

text \<open>The \<open>?\<close> operator.\<close>

definition try_bind :: "'f + 'a \<Rightarrow> ('a \<Rightarrow> 'f + 'b) \<Rightarrow> 'f + 'b" where
  "try_bind r k = (case r of Inl f \<Rightarrow> Inl f | Inr a \<Rightarrow> k a)"

text \<open>\<open>Result::map_err\<close> and the \<open>From\<close> conversions of \<open>?\<close>: a panic is not an error value.\<close>

definition map_err :: "('e \<Rightarrow> 'g) \<Rightarrow> ('e, 'a) rresult \<Rightarrow> ('g, 'a) rresult" where
  "map_err h r = (case r of Inl (Err e) \<Rightarrow> Inl (Err (h e)) | Inl (Panic m) \<Rightarrow> Inl (Panic m)
     | Inr a \<Rightarrow> Inr a)"

definition ok_or :: "'e \<Rightarrow> 'a option \<Rightarrow> ('e, 'a) rresult" where
  "ok_or e x = (case x of None \<Rightarrow> Inl (Err e) | Some a \<Rightarrow> Inr a)"

definition expect :: "string \<Rightarrow> 'a option \<Rightarrow> ('e, 'a) rresult" where
  "expect m x = (case x of None \<Rightarrow> Inl (Panic m) | Some a \<Rightarrow> Inr a)"

definition is_panic :: "('e, 'a) rresult \<Rightarrow> bool" where
  "is_panic r = (case r of Inl (Panic _) \<Rightarrow> True | _ \<Rightarrow> False)"

named_theorems res_simps

lemma try_bind_simps [simp, res_simps]:
  "try_bind (Inl f) k = Inl f"
  "try_bind (Inr a) k = k a"
  by (simp_all add: try_bind_def)

lemma try_bind_Inr_iff [res_simps]:
  "try_bind r k = Inr b \<longleftrightarrow> (\<exists>a. r = Inr a \<and> k a = Inr b)"
  by (cases r) simp_all

lemma try_bind_Inl_iff [res_simps]:
  "try_bind r k = Inl f \<longleftrightarrow> r = Inl f \<or> (\<exists>a. r = Inr a \<and> k a = Inl f)"
  by (cases r) auto

lemma map_err_simps [simp, res_simps]:
  "map_err h (Inl (Err e)) = Inl (Err (h e))"
  "map_err h (Inl (Panic m)) = Inl (Panic m)"
  "map_err h (Inr a) = Inr a"
  by (simp_all add: map_err_def)

lemma map_err_Inr_iff [simp, res_simps]: "map_err h r = Inr a \<longleftrightarrow> r = Inr a"
  by (auto simp: map_err_def split: sum.splits failure.splits)

lemma ok_or_simps [simp, res_simps]:
  "ok_or e None = Inl (Err e)" "ok_or e (Some a) = Inr a"
  by (simp_all add: ok_or_def)

lemma ok_or_Inr_iff [simp, res_simps]: "ok_or e x = Inr a \<longleftrightarrow> x = Some a"
  by (cases x) simp_all

lemma expect_simps [simp, res_simps]:
  "expect m None = Inl (Panic m)" "expect m (Some a) = Inr a"
  by (simp_all add: expect_def)

lemma expect_Inr_iff [simp, res_simps]: "expect m x = Inr a \<longleftrightarrow> x = Some a"
  by (cases x) simp_all

lemma is_panic_simps [simp, res_simps]:
  "is_panic (Inr a) = False" "is_panic (Inl (Err e)) = False" "is_panic (Inl (Panic m)) = True"
  by (simp_all add: is_panic_def)

lemma is_panic_map_err [simp]: "is_panic (map_err h r) = is_panic r"
  by (auto simp: map_err_def is_panic_def split: sum.splits failure.splits)

lemma is_panic_ok_or [simp]: "\<not> is_panic (ok_or e x)"
  by (cases x) simp_all

lemma is_panic_try_bind:
  "is_panic (try_bind r k) \<longleftrightarrow> is_panic r \<or> (\<exists>a. r = Inr a \<and> is_panic (k a))"
  by (cases r) (auto simp: is_panic_def split: failure.splits)

section \<open>Checked arithmetic on \<open>u32\<close>\<close>

text \<open>\<open>i + 1\<close> on \<open>u32\<close> with overflow checks on.\<close>

definition add_one_u32 :: "u32 \<Rightarrow> ('e, u32) rresult" where
  "add_one_u32 i = (if i = - 1 then Inl (Panic ''attempt to add with overflow'') else Inr (i + 1))"

text \<open>\<open>u32::checked_add(1)\<close> and \<open>u32::saturating_sub\<close>.\<close>

definition checked_add_one_u32 :: "u32 \<Rightarrow> u32 option" where
  "checked_add_one_u32 i = (if i = - 1 then None else Some (i + 1))"

text \<open>\<open>u32::try_into::<u8>\<close>.\<close>

definition u32_to_u8 :: "u32 \<Rightarrow> byte option" where
  "u32_to_u8 v = (if v \<le> 255 then Some (ucast v) else None)"

definition saturating_sub_u32 :: "u32 \<Rightarrow> u32 \<Rightarrow> u32" where
  "saturating_sub_u32 a b = (if a < b then 0 else a - b)"

lemma unat_u32_bound [simp]: "unat (i :: u32) < 4294967296"
proof -
  have "unat i < 2 ^ LENGTH(32)" by (rule unsigned_less)
  then show ?thesis by simp
qed

lemma unat_minus_one_u32 [simp]: "unat (- 1 :: u32) = 4294967295"
  by (simp add: unsigned_minus_1_eq_mask mask_eq_exp_minus_1)

lemma unat_succ_u32: "(i :: u32) \<noteq> - 1 \<Longrightarrow> unat (i + 1) = Suc (unat i)"
  by (metis add.commute add_eq_0_iff unatSuc)

lemma u32_eq_minus_one_iff: "(i :: u32) = - 1 \<longleftrightarrow> unat i = 4294967295"
  by (metis unat_minus_one_u32 word_unat_eq_iff)

section \<open>Slices\<close>

text \<open>\<open>xs[i]\<close>, \<open>&xs[a..b]\<close>, \<open>&xs[a..]\<close> and \<open>a - b\<close> on \<open>usize\<close>, which panic out of range.\<close>

definition index_at :: "'a list \<Rightarrow> nat \<Rightarrow> ('e, 'a) rresult" where
  "index_at xs i = (if i < length xs then Inr (xs ! i) else Inl (Panic ''index out of bounds''))"

definition slice_range :: "'a list \<Rightarrow> nat \<Rightarrow> nat \<Rightarrow> ('e, 'a list) rresult" where
  "slice_range xs a b =
     (if b < a then Inl (Panic ''slice index starts after its end'')
      else if length xs < b then Inl (Panic ''range end index out of range'')
      else Inr (drop a (take b xs)))"

definition slice_from :: "'a list \<Rightarrow> nat \<Rightarrow> ('e, 'a list) rresult" where
  "slice_from xs a = (if length xs < a then Inl (Panic ''range start index out of range'') else Inr (drop a xs))"

definition usize_sub :: "nat \<Rightarrow> nat \<Rightarrow> ('e, nat) rresult" where
  "usize_sub a b = (if a < b then Inl (Panic ''attempt to subtract with overflow'') else Inr (a - b))"

lemma slices_in_range [simp]:
  "i < length xs \<Longrightarrow> index_at xs i = Inr (xs ! i)"
  "a \<le> b \<Longrightarrow> b \<le> length xs \<Longrightarrow> slice_range xs a b = Inr (drop a (take b xs))"
  "a \<le> length xs \<Longrightarrow> slice_from xs a = Inr (drop a xs)"
  "n \<le> m \<Longrightarrow> usize_sub m n = Inr (m - n)"
  by (simp_all add: index_at_def slice_range_def slice_from_def usize_sub_def)

lemma slices_Inr_iff [res_simps]:
  "index_at xs i = Inr x \<longleftrightarrow> i < length xs \<and> x = xs ! i"
  "slice_range xs a b = Inr ys \<longleftrightarrow> a \<le> b \<and> b \<le> length xs \<and> ys = drop a (take b xs)"
  "slice_from xs a = Inr ys \<longleftrightarrow> a \<le> length xs \<and> ys = drop a xs"
  "usize_sub m n = Inr k \<longleftrightarrow> n \<le> m \<and> k = m - n"
  by (auto simp: index_at_def slice_range_def slice_from_def usize_sub_def)

lemma is_panic_slices:
  "is_panic (index_at xs i) \<longleftrightarrow> length xs \<le> i"
  "is_panic (slice_range xs a b) \<longleftrightarrow> b < a \<or> length xs < b"
  "is_panic (slice_from xs a) \<longleftrightarrow> length xs < a"
  "is_panic (usize_sub m n) \<longleftrightarrow> m < n"
  by (auto simp: index_at_def slice_range_def slice_from_def usize_sub_def)

section \<open>Vectors\<close>

text \<open>\<open>Iterator::position\<close> and \<open>Vec::remove\<close> (callers pass an index in range).\<close>

fun position :: "('a \<Rightarrow> bool) \<Rightarrow> 'a list \<Rightarrow> nat option" where
  "position P [] = None"
| "position P (x # xs) = (if P x then Some 0 else map_option Suc (position P xs))"

definition remove_at :: "nat \<Rightarrow> 'a list \<Rightarrow> 'a list" where
  "remove_at i xs = take i xs @ drop (Suc i) xs"

lemma position_None_iff: "position P xs = None \<longleftrightarrow> (\<forall>x \<in> set xs. \<not> P x)"
  by (induction xs) auto

lemma position_SomeD:
  "position P xs = Some i \<Longrightarrow> i < length xs \<and> P (xs ! i) \<and> (\<forall>j < i. \<not> P (xs ! j))"
proof (induction xs arbitrary: i)
  case Nil
  then show ?case by simp
next
  case (Cons x xs)
  show ?case
  proof (cases "P x")
    case True
    with Cons.prems show ?thesis by simp
  next
    case False
    with Cons.prems obtain k where k: "position P xs = Some k" and i: "i = Suc k"
      by auto
    from Cons.IH [OF k] False show ?thesis
      unfolding i by (auto simp: nth_Cons split: nat.splits)
  qed
qed

lemma position_Some_lt: "position P xs = Some i \<Longrightarrow> i < length xs"
  by (drule position_SomeD) simp

lemma position_Some_P: "position P xs = Some i \<Longrightarrow> P (xs ! i)"
  by (drule position_SomeD) simp

lemma position_list_update_same:
  "\<lbrakk>i < length xs; P y \<longleftrightarrow> P (xs ! i)\<rbrakk> \<Longrightarrow> position P (xs[i := y]) = position P xs"
proof (induction xs arbitrary: i)
  case Nil
  then show ?case by simp
next
  case (Cons x xs)
  then show ?case by (cases i) auto
qed

lemma position_list_update:
  assumes "position P xs = Some i" and "P y"
  shows "position P (xs[i := y]) = Some i"
  using assms
proof (induction xs arbitrary: i)
  case Nil
  then show ?case by simp
next
  case (Cons x xs)
  then show ?case by (cases "P x") auto
qed

lemma position_append_Some: "position P xs = Some i \<Longrightarrow> position P (xs @ ys) = Some i"
  by (induction xs arbitrary: i) (auto split: if_splits)

lemma position_append_None:
  "position P xs = None \<Longrightarrow> position P (xs @ ys) = map_option (\<lambda>i. length xs + i) (position P ys)"
proof (induction xs)
  case Nil
  then show ?case by (cases "position P ys") simp_all
next
  case (Cons x xs)
  then show ?case by (cases "position P ys") (auto split: if_splits)
qed

lemma length_remove_at: "i < length xs \<Longrightarrow> length (remove_at i xs) = length xs - 1"
  by (simp add: remove_at_def)

lemma remove_at_eq: "i < length xs \<Longrightarrow> xs = take i xs @ xs ! i # drop (Suc i) xs"
  by (rule id_take_nth_drop)

lemma set_remove_at_subset: "set (remove_at i xs) \<subseteq> set xs"
  by (auto simp: remove_at_def dest: in_set_takeD in_set_dropD)

lemma distinct_map_remove_at: "distinct (map f xs) \<Longrightarrow> distinct (map f (remove_at i xs))"
proof (cases "i < length xs")
  case True
  assume d: "distinct (map f xs)"
  have "map f xs = map f (take i xs) @ f (xs ! i) # map f (drop (Suc i) xs)"
    using True by (metis id_take_nth_drop list.simps(9) map_append)
  with d show ?thesis by (simp add: remove_at_def)
next
  case False
  assume "distinct (map f xs)"
  with False show ?thesis by (simp add: remove_at_def)
qed

lemma set_remove_at_distinct:
  assumes d: "distinct (map f xs)" and i: "i < length xs"
  shows "set (remove_at i xs) = {x \<in> set xs. f x \<noteq> f (xs ! i)}"
proof -
  define as bs y where "as = take i xs" and "bs = drop (Suc i) xs" and "y = xs ! i"
  have xs: "xs = as @ y # bs"
    unfolding as_def bs_def y_def using i by (rule id_take_nth_drop)
  then have "distinct (map f (as @ y # bs))" using d by simp
  then have ne: "f y \<notin> f ` set as" "f y \<notin> f ` set bs" by auto
  have "f x \<noteq> f y" if "x \<in> set as \<union> set bs" for x
    using ne that by (metis Un_iff image_eqI)
  then have eq: "set (as @ bs) = {x \<in> set (as @ y # bs). f x \<noteq> f y}" by auto
  have "remove_at i xs = as @ bs" by (simp add: remove_at_def as_def bs_def)
  moreover have "set xs = set (as @ y # bs)" by (subst xs) (rule refl)
  ultimately show ?thesis using eq unfolding y_def [symmetric] by (simp only:)
qed

text \<open>\<open>slice::chunks\<close>.\<close>

fun chunks_of :: "nat \<Rightarrow> 'a list \<Rightarrow> 'a list list" where
  "chunks_of n xs = (if n = 0 \<or> xs = [] then [] else take n xs # chunks_of n (drop n xs))"

declare chunks_of.simps [simp del]

lemma chunks_of_Nil [simp]: "chunks_of n [] = []"
  by (subst chunks_of.simps) simp

lemma concat_chunks_of: "0 < n \<Longrightarrow> concat (chunks_of n xs) = xs"
  by (induction n xs rule: chunks_of.induct) (subst chunks_of.simps, simp)

section \<open>Decimal numbers\<close>

fun nat_to_string :: "nat \<Rightarrow> string" where
  "nat_to_string n = (if n < 10 then [char_of (48 + n)] else nat_to_string (n div 10) @ [char_of (48 + n mod 10)])"

declare nat_to_string.simps [simp del]

lemma nat_to_string_digits: "set (nat_to_string n) \<subseteq> set ''0123456789''"
proof (induction n rule: nat_to_string.induct)
  case (1 n)
  have d: "char_of (48 + k) \<in> set ''0123456789''" if "k < 10" for k :: nat
  proof -
    have "k = 0 \<or> k = 1 \<or> k = 2 \<or> k = 3 \<or> k = 4 \<or> k = 5 \<or> k = 6 \<or> k = 7 \<or> k = 8 \<or> k = 9"
      using that by presburger
    then show ?thesis by (elim disjE) (simp_all add: char_of_def bit_0)
  qed
  then have "char_of (48 + n mod 10) \<in> set ''0123456789''" by simp
  with 1 d show ?case by (subst nat_to_string.simps) auto
qed

lemma length_nat_to_string: "n < 10 ^ Suc k \<Longrightarrow> length (nat_to_string n) \<le> Suc k"
proof (induction k arbitrary: n)
  case 0
  then show ?case by (subst nat_to_string.simps) simp
next
  case (Suc k)
  then have "n div 10 < 10 ^ Suc k" by (simp add: less_mult_imp_div_less mult.commute)
  from Suc.IH [OF this] show ?case by (subst nat_to_string.simps) simp
qed

end
