(* ===== verification/Protobuf.thy ===== *)
theory Protobuf
  imports Signal_Prelude
begin

text \<open>
  The protocol-buffer messages of \<open>storage.proto\<close>, \<open>wire.proto\<close> and \<open>service.proto\<close> as
  records, one field per field of the message. In \<open>proto3\<close> scalar fields are always present;
  message fields, \<open>proto2\<close> fields and fields marked \<open>optional\<close> are options. Encoding and
  decoding them is the work of the \<open>prost\<close> crate (theory \<open>Externals\<close>).
\<close>

section \<open>Storage: sessions\<close>

record MessageKey =
  mk_index :: u32
  mk_cipher_key :: bytes
  mk_mac_key :: bytes
  mk_iv :: bytes
  mk_seed :: bytes

record ChainKeyPb =
  ckp_index :: u32
  ckp_key :: bytes

record Chain =
  ch_sender_ratchet_key :: bytes
  ch_sender_ratchet_key_private :: bytes
  ch_chain_key :: "ChainKeyPb option"
  ch_message_keys :: "MessageKey list"

text \<open>The \<open>int32\<close> field \<open>signed_pre_key_id\<close> only ever holds a \<open>u32\<close> cast with \<open>as\<close>; the word is
  its bit pattern.\<close>

record PendingPreKey =
  ppk_pre_key_id :: "u32 option"
  ppk_signed_pre_key_id :: u32
  ppk_base_key :: bytes
  ppk_timestamp :: u64

record PendingKyberPreKey =
  pkk_pre_key_id :: u32
  pkk_ciphertext :: bytes

record SessionStructure =
  ss_session_version :: u32
  ss_local_identity_public :: bytes
  ss_remote_identity_public :: bytes
  ss_root_key :: bytes
  ss_previous_counter :: u32
  ss_sender_chain :: "Chain option"
  ss_receiver_chains :: "Chain list"
  ss_pending_pre_key :: "PendingPreKey option"
  ss_pending_kyber_pre_key :: "PendingKyberPreKey option"
  ss_remote_registration_id :: u32
  ss_local_registration_id :: u32
  ss_alice_base_key :: bytes
  ss_pq_ratchet_state :: bytes

record RecordStructure =
  rec_current_session :: "SessionStructure option"
  rec_previous_sessions :: "bytes list"

section \<open>Storage: pre-keys and identities\<close>

record PreKeyRecordStructure =
  pkr_id :: u32
  pkr_public_key :: bytes
  pkr_private_key :: bytes

record SignedPreKeyRecordStructure =
  spk_id :: u32
  spk_public_key :: bytes
  spk_private_key :: bytes
  spk_signature :: bytes
  spk_timestamp :: u64

record IdentityKeyPairStructure =
  ikp_public_key :: bytes
  ikp_private_key :: bytes

section \<open>Storage: sender keys\<close>

record SenderChainKeyPb =
  sck_iteration :: u32
  sck_seed :: bytes

record SenderMessageKeyPb =
  smk_iteration :: u32
  smk_seed :: bytes

record SenderSigningKey =
  ssk_public :: bytes
  ssk_private :: bytes

record SenderKeyStateStructure =
  sks_message_version :: u32
  sks_chain_id :: u32
  sks_sender_chain_key :: "SenderChainKeyPb option"
  sks_sender_signing_key :: "SenderSigningKey option"
  sks_sender_message_keys :: "SenderMessageKeyPb list"

record SenderKeyRecordStructure =
  skr_sender_key_states :: "SenderKeyStateStructure list"

section \<open>Wire messages\<close>

record SignalMessagePb =
  wsm_ratchet_key :: "bytes option"
  wsm_counter :: "u32 option"
  wsm_previous_counter :: "u32 option"
  wsm_ciphertext :: "bytes option"
  wsm_pq_ratchet :: "bytes option"
  wsm_addresses :: "bytes option"

record PreKeySignalMessagePb =
  wpk_registration_id :: "u32 option"
  wpk_pre_key_id :: "u32 option"
  wpk_signed_pre_key_id :: "u32 option"
  wpk_kyber_pre_key_id :: "u32 option"
  wpk_kyber_ciphertext :: "bytes option"
  wpk_base_key :: "bytes option"
  wpk_identity_key :: "bytes option"
  wpk_message :: "bytes option"

record SenderKeyMessagePb =
  wsk_distribution_uuid :: "bytes option"
  wsk_chain_id :: "u32 option"
  wsk_iteration :: "u32 option"
  wsk_ciphertext :: "bytes option"

record SenderKeyDistributionMessagePb =
  wsd_distribution_uuid :: "bytes option"
  wsd_chain_id :: "u32 option"
  wsd_iteration :: "u32 option"
  wsd_chain_key :: "bytes option"
  wsd_signing_key :: "bytes option"

text \<open>\<open>service.proto\<close>: only the field of \<open>Content\<close> that the code sets or reads.\<close>

record DecryptionErrorMessagePb =
  dem_ratchet_key :: "bytes option"
  dem_timestamp :: "u64 option"
  dem_device_id :: "u32 option"

end
