(* ===== verification/Externals.thy ===== *)
theory Externals
  imports Protobuf
begin

text \<open>
  The code the repository calls but does not contain: the RustCrypto hashes and ciphers, the
  dalek curve arithmetic, \<open>libcrux\<close>'s KEM, the \<open>spqr\<close> post-quantum ratchet, \<open>prost\<close>, \<open>uuid\<close> and
  the random number generator (whose state has type \<open>'r\<close>). They are the fields of one record,
  which every definition that needs one of them takes as an argument. What a theorem relies on
  is a named hypothesis about the record; none of them is assumed globally.
\<close>

datatype spqr_error = StateDecode | OtherSpqrError string

datatype spqr_direction = A2B | B2A

record spqr_params =
  spqr_auth_key :: bytes
  spqr_version :: nat
  spqr_direction :: spqr_direction
  spqr_min_version :: nat
  spqr_max_jump :: u32
  spqr_max_ooo_keys :: u32

record 'r Ext =
  \<comment> \<open>\<open>hmac\<close>/\<open>sha2\<close>: key and message; \<open>hkdf\<close>: salt, input key material, info, output length\<close>
  x_hmac_sha256 :: "bytes \<Rightarrow> bytes \<Rightarrow> bytes"
  x_hkdf_sha256 :: "bytes option \<Rightarrow> bytes \<Rightarrow> bytes \<Rightarrow> nat \<Rightarrow> bytes"
  x_sha512 :: "bytes \<Rightarrow> bytes"
  \<comment> \<open>\<open>rand\<close>\<close>
  x_fill_bytes :: "nat \<Rightarrow> 'r \<Rightarrow> bytes \<times> 'r"
  x_random_bytes :: "nat \<Rightarrow> 'r \<Rightarrow> bytes \<times> 'r"
  x_random_u32 :: "'r \<Rightarrow> u32 \<times> 'r"
  \<comment> \<open>\<open>x25519-dalek\<close>, \<open>curve25519-dalek\<close>; scalars and compressed points as their 32 bytes\<close>
  x_clamp_integer :: "bytes \<Rightarrow> bytes"
  x_x25519 :: "bytes \<Rightarrow> bytes \<Rightarrow> bytes"
  x_x25519_base :: "bytes \<Rightarrow> bytes"
  x_mont_torsion_free :: "bytes \<Rightarrow> bool"
  x_scalar_mod_order :: "bytes \<Rightarrow> bytes"
  x_scalar_from_hash :: "bytes \<Rightarrow> bytes"
  x_scalar_mul_add :: "bytes \<Rightarrow> bytes \<Rightarrow> bytes \<Rightarrow> bytes"
  x_ed_mul_base :: "bytes \<Rightarrow> bytes"
  x_mont_to_edwards :: "bytes \<Rightarrow> byte \<Rightarrow> bytes option"
  x_ed_neg :: "bytes \<Rightarrow> bytes"
  x_ed_double_mul_base :: "bytes \<Rightarrow> bytes \<Rightarrow> bytes \<Rightarrow> bytes"
  \<comment> \<open>\<open>aes\<close>/\<open>cbc\<close> with PKCS7 padding: key, iv, data; \<open>None\<close> is bad padding\<close>
  x_cbc_encrypt :: "bytes \<Rightarrow> bytes \<Rightarrow> bytes \<Rightarrow> bytes"
  x_cbc_decrypt :: "bytes \<Rightarrow> bytes \<Rightarrow> bytes \<Rightarrow> bytes option"
  \<comment> \<open>\<open>ctr\<close>: key, nonce, data\<close>
  x_ctr_apply :: "bytes \<Rightarrow> bytes \<Rightarrow> bytes \<Rightarrow> bytes"
  \<comment> \<open>\<open>libcrux_ml_kem\<close>: key lengths, encapsulation (ciphertext, secret), decapsulation\<close>
  x_kem_public_key_len :: nat
  x_kem_secret_key_len :: nat
  x_kem_ciphertext_len :: nat
  x_kem_generate :: "bytes \<Rightarrow> bytes \<times> bytes"
  x_kem_encapsulate :: "bytes \<Rightarrow> bytes \<Rightarrow> bytes \<times> bytes"
  x_kem_decapsulate :: "bytes \<Rightarrow> bytes \<Rightarrow> bytes"
  \<comment> \<open>\<open>spqr\<close>: state and message are serialized; send yields state, key, message\<close>
  x_spqr_initial_state :: "spqr_params \<Rightarrow> spqr_error + bytes"
  x_spqr_send :: "bytes \<Rightarrow> 'r \<Rightarrow> (spqr_error + bytes \<times> bytes option \<times> bytes) \<times> 'r"
  x_spqr_recv :: "bytes \<Rightarrow> bytes \<Rightarrow> spqr_error + bytes \<times> bytes option"
  x_spqr_show :: "spqr_error \<Rightarrow> string"
  \<comment> \<open>\<open>uuid\<close>: a UUID is its 16 bytes\<close>
  x_uuid_from_slice :: "bytes \<Rightarrow> bytes option"
  x_uuid_try_parse :: "string \<Rightarrow> bytes option"
  x_uuid_to_string :: "bytes \<Rightarrow> string"
  \<comment> \<open>\<open>prost\<close>\<close>
  x_encode_session :: "SessionStructure \<Rightarrow> bytes"
  x_decode_session :: "bytes \<Rightarrow> SessionStructure option"
  x_encode_record :: "RecordStructure \<Rightarrow> bytes"
  x_decode_record :: "bytes \<Rightarrow> RecordStructure option"
  x_encode_sender_key_record :: "SenderKeyRecordStructure \<Rightarrow> bytes"
  x_decode_sender_key_record :: "bytes \<Rightarrow> SenderKeyRecordStructure option"
  x_encode_pre_key_record :: "PreKeyRecordStructure \<Rightarrow> bytes"
  x_decode_pre_key_record :: "bytes \<Rightarrow> PreKeyRecordStructure option"
  x_encode_signed_pre_key_record :: "SignedPreKeyRecordStructure \<Rightarrow> bytes"
  x_decode_signed_pre_key_record :: "bytes \<Rightarrow> SignedPreKeyRecordStructure option"
  x_encode_identity_key_pair :: "IdentityKeyPairStructure \<Rightarrow> bytes"
  x_decode_identity_key_pair :: "bytes \<Rightarrow> IdentityKeyPairStructure option"
  x_encode_signal_message :: "SignalMessagePb \<Rightarrow> bytes"
  x_decode_signal_message :: "bytes \<Rightarrow> SignalMessagePb option"
  x_encode_pre_key_signal_message :: "PreKeySignalMessagePb \<Rightarrow> bytes"
  x_decode_pre_key_signal_message :: "bytes \<Rightarrow> PreKeySignalMessagePb option"
  x_encode_sender_key_message :: "SenderKeyMessagePb \<Rightarrow> bytes"
  x_decode_sender_key_message :: "bytes \<Rightarrow> SenderKeyMessagePb option"
  x_encode_skdm :: "SenderKeyDistributionMessagePb \<Rightarrow> bytes"
  x_decode_skdm :: "bytes \<Rightarrow> SenderKeyDistributionMessagePb option"
  x_encode_content :: "bytes \<Rightarrow> bytes"
  x_decode_content :: "bytes \<Rightarrow> bytes option option"
  x_encode_decryption_error :: "DecryptionErrorMessagePb \<Rightarrow> bytes"
  x_decode_decryption_error :: "bytes \<Rightarrow> DecryptionErrorMessagePb option"

section \<open>Documented behaviour the theorems refer to\<close>

text \<open>Output lengths of the hash functions.\<close>

definition hash_lengths :: "'r Ext \<Rightarrow> bool" where
  "hash_lengths E \<longleftrightarrow> (\<forall>k m. length (x_hmac_sha256 E k m) = 32) \<and>
     (\<forall>s k i n. length (x_hkdf_sha256 E s k i n) = n)"

lemma hash_lengthsD [simp]:
  "hash_lengths E \<Longrightarrow> length (x_hmac_sha256 E k m) = 32"
  "hash_lengths E \<Longrightarrow> length (x_hkdf_sha256 E s k i n) = n"
  by (simp_all add: hash_lengths_def)

text \<open>CBC with PKCS7 padding: decryption inverts encryption, ciphertexts are whole blocks.\<close>

definition cbc_laws :: "'r Ext \<Rightarrow> bool" where
  "cbc_laws E \<longleftrightarrow> (\<forall>k iv d. length k = 32 \<longrightarrow> length iv = 16 \<longrightarrow>
     x_cbc_decrypt E k iv (x_cbc_encrypt E k iv d) = Some d \<and>
     x_cbc_encrypt E k iv d \<noteq> [] \<and> length (x_cbc_encrypt E k iv d) mod 16 = 0)"

text \<open>The KEM: sizes, and decapsulation inverts encapsulation for a generated pair.\<close>

definition kem_laws :: "'r Ext \<Rightarrow> bool" where
  "kem_laws E \<longleftrightarrow> (\<forall>seed. case x_kem_generate E seed of (pk, sk) \<Rightarrow>
     length pk = x_kem_public_key_len E \<and> length sk = x_kem_secret_key_len E \<and>
     (\<forall>r. case x_kem_encapsulate E pk r of (ct, ss) \<Rightarrow>
        length ct = x_kem_ciphertext_len E \<and> x_kem_decapsulate E sk ct = ss))"

text \<open>\<open>prost\<close> decodes what it encoded.\<close>

definition prost_laws :: "'r Ext \<Rightarrow> bool" where
  "prost_laws E \<longleftrightarrow>
     (\<forall>m. x_decode_session E (x_encode_session E m) = Some m) \<and>
     (\<forall>m. x_decode_record E (x_encode_record E m) = Some m) \<and>
     (\<forall>m. x_decode_sender_key_record E (x_encode_sender_key_record E m) = Some m) \<and>
     (\<forall>m. x_decode_pre_key_record E (x_encode_pre_key_record E m) = Some m) \<and>
     (\<forall>m. x_decode_signed_pre_key_record E (x_encode_signed_pre_key_record E m) = Some m) \<and>
     (\<forall>m. x_decode_identity_key_pair E (x_encode_identity_key_pair E m) = Some m) \<and>
     (\<forall>m. x_decode_signal_message E (x_encode_signal_message E m) = Some m) \<and>
     (\<forall>m. x_decode_pre_key_signal_message E (x_encode_pre_key_signal_message E m) = Some m) \<and>
     (\<forall>m. x_decode_sender_key_message E (x_encode_sender_key_message E m) = Some m) \<and>
     (\<forall>m. x_decode_skdm E (x_encode_skdm E m) = Some m) \<and>
     (\<forall>m. x_decode_content E (x_encode_content E m) = Some (Some m)) \<and>
     (\<forall>m. x_decode_decryption_error E (x_encode_decryption_error E m) = Some m)"

lemma prost_lawsD [simp]:
  assumes "prost_laws E"
  shows "x_decode_session E (x_encode_session E m1) = Some m1"
    and "x_decode_record E (x_encode_record E m2) = Some m2"
    and "x_decode_sender_key_record E (x_encode_sender_key_record E m3) = Some m3"
    and "x_decode_pre_key_record E (x_encode_pre_key_record E m4) = Some m4"
    and "x_decode_signed_pre_key_record E (x_encode_signed_pre_key_record E m5) = Some m5"
    and "x_decode_identity_key_pair E (x_encode_identity_key_pair E m6) = Some m6"
    and "x_decode_signal_message E (x_encode_signal_message E m7) = Some m7"
    and "x_decode_pre_key_signal_message E (x_encode_pre_key_signal_message E m8) = Some m8"
    and "x_decode_sender_key_message E (x_encode_sender_key_message E m9) = Some m9"
    and "x_decode_skdm E (x_encode_skdm E m10) = Some m10"
    and "x_decode_content E (x_encode_content E m11) = Some (Some m11)"
    and "x_decode_decryption_error E (x_encode_decryption_error E m12) = Some m12"
  using assms by (simp_all add: prost_laws_def)

end
