(* ===== verification/Concrete_Externals.thy ===== *)
theory Concrete_Externals
  imports Externals
begin

text \<open>
  One concrete, executable instance of the external operations. It is not cryptography: it is a
  model in which the documented laws of \<open>Externals\<close> hold, so that every theorem which has such
  a law as a hypothesis can be applied to a concrete run.
\<close>

section \<open>Codecs\<close>

text \<open>Self-delimiting codecs, built from combinators; \<open>codec_ok\<close> is their round trip.\<close>

type_synonym 'a codec = "('a \<Rightarrow> bytes) \<times> (bytes \<Rightarrow> ('a \<times> bytes) option)"

definition codec_ok :: "'a codec \<Rightarrow> bool" where
  "codec_ok c \<longleftrightarrow> (\<forall>x r. snd c (fst c x @ r) = Some (x, r))"

fun count_ones :: "bytes \<Rightarrow> (nat \<times> bytes) option" where
  "count_ones [] = None"
| "count_ones (b # bs) = (if b = 0 then Some (0, bs)
     else map_option (\<lambda>(n, r). (Suc n, r)) (count_ones bs))"

definition nat_codec :: "nat codec" where
  "nat_codec = (\<lambda>n. replicate n 1 @ [0], count_ones)"

definition iso_codec :: "('a \<Rightarrow> 'b) \<Rightarrow> ('b \<Rightarrow> 'a) \<Rightarrow> 'a codec \<Rightarrow> 'b codec" where
  "iso_codec f g c = (\<lambda>y. fst c (g y), \<lambda>bs. map_option (\<lambda>(x, r). (f x, r)) (snd c bs))"

definition pair_codec :: "'a codec \<Rightarrow> 'b codec \<Rightarrow> ('a \<times> 'b) codec" where
  "pair_codec a b = (\<lambda>(x, y). fst a x @ fst b y,
     \<lambda>bs. case snd a bs of None \<Rightarrow> None
        | Some (x, r) \<Rightarrow> map_option (\<lambda>(y, r'). ((x, y), r')) (snd b r))"

definition option_codec :: "'a codec \<Rightarrow> 'a option codec" where
  "option_codec a = (\<lambda>x. case x of None \<Rightarrow> [0] | Some y \<Rightarrow> 1 # fst a y,
     \<lambda>bs. case bs of [] \<Rightarrow> None
        | b # r \<Rightarrow> if b = 0 then Some (None, r)
                    else map_option (\<lambda>(y, r'). (Some y, r')) (snd a r))"

definition byte_codec :: "byte codec" where
  "byte_codec = (\<lambda>b. [b], \<lambda>bs. case bs of [] \<Rightarrow> None | b # r \<Rightarrow> Some (b, r))"

primrec decode_times :: "nat \<Rightarrow> (bytes \<Rightarrow> ('a \<times> bytes) option) \<Rightarrow> bytes \<Rightarrow> ('a list \<times> bytes) option" where
  "decode_times 0 d bs = Some ([], bs)"
| "decode_times (Suc n) d bs = (case d bs of None \<Rightarrow> None
     | Some (x, r) \<Rightarrow> map_option (\<lambda>(xs, r'). (x # xs, r')) (decode_times n d r))"

definition list_codec :: "'a codec \<Rightarrow> 'a list codec" where
  "list_codec a = (\<lambda>xs. fst nat_codec (length xs) @ concat (map (fst a) xs),
     \<lambda>bs. case snd nat_codec bs of None \<Rightarrow> None | Some (n, r) \<Rightarrow> decode_times n (snd a) r)"

definition word_codec :: "('w :: len) word codec" where
  "word_codec = iso_codec of_nat unat nat_codec"

definition bytes_codec :: "bytes codec" where
  "bytes_codec = list_codec byte_codec"

lemma codec_okD: "codec_ok c \<Longrightarrow> snd c (fst c x @ r) = Some (x, r)"
  by (simp add: codec_ok_def)

lemma nat_codec_ok: "codec_ok nat_codec"
proof -
  have "count_ones (replicate n 1 @ 0 # r) = Some (n, r)" for n r by (induction n) simp_all
  then show ?thesis by (simp add: codec_ok_def nat_codec_def)
qed

lemma iso_codec_ok: "\<lbrakk>codec_ok c; \<And>y. f (g y) = y\<rbrakk> \<Longrightarrow> codec_ok (iso_codec f g c)"
  by (simp add: codec_ok_def iso_codec_def)

lemma pair_codec_ok: "\<lbrakk>codec_ok a; codec_ok b\<rbrakk> \<Longrightarrow> codec_ok (pair_codec a b)"
  by (simp add: codec_ok_def pair_codec_def split_def)

lemma option_codec_ok: "codec_ok a \<Longrightarrow> codec_ok (option_codec a)"
  by (auto simp: codec_ok_def option_codec_def split: option.splits)

lemma byte_codec_ok: "codec_ok byte_codec"
  by (simp add: codec_ok_def byte_codec_def)

lemma list_codec_ok: "codec_ok a \<Longrightarrow> codec_ok (list_codec a)"
proof -
  assume a: "codec_ok a"
  have "decode_times (length xs) (snd a) (concat (map (fst a) xs) @ r) = Some (xs, r)" for xs r
    by (induction xs) (simp_all add: codec_okD [OF a])
  then show ?thesis
    unfolding codec_ok_def list_codec_def by (simp add: codec_okD [OF nat_codec_ok])
qed

lemma word_codec_ok: "codec_ok word_codec"
  unfolding word_codec_def by (intro iso_codec_ok nat_codec_ok) simp

lemma bytes_codec_ok: "codec_ok bytes_codec"
  unfolding bytes_codec_def by (intro list_codec_ok byte_codec_ok)

lemmas codec_ok_intros = iso_codec_ok pair_codec_ok option_codec_ok list_codec_ok word_codec_ok
  bytes_codec_ok nat_codec_ok

text \<open>A codec as a pair of total functions: trailing bytes are a decoding error.\<close>

definition enc :: "'a codec \<Rightarrow> 'a \<Rightarrow> bytes" where
  "enc c = fst c"

definition dec :: "'a codec \<Rightarrow> bytes \<Rightarrow> 'a option" where
  "dec c bs = (case snd c bs of Some (x, []) \<Rightarrow> Some x | _ \<Rightarrow> None)"

lemma dec_enc: "codec_ok c \<Longrightarrow> dec c (enc c x) = Some x"
  using codec_okD [of c x "[]"] by (simp add: dec_def enc_def)

section \<open>The messages\<close>

definition message_key_codec :: "MessageKey codec" where
  "message_key_codec = iso_codec (\<lambda>(i, c, m, v, s). MessageKey.make i c m v s)
     (\<lambda>k. (mk_index k, mk_cipher_key k, mk_mac_key k, mk_iv k, mk_seed k))
     (pair_codec word_codec (pair_codec bytes_codec (pair_codec bytes_codec
       (pair_codec bytes_codec bytes_codec))))"

definition chain_key_codec :: "ChainKeyPb codec" where
  "chain_key_codec = iso_codec (\<lambda>(i, k). ChainKeyPb.make i k) (\<lambda>k. (ckp_index k, ckp_key k))
     (pair_codec word_codec bytes_codec)"

definition chain_codec :: "Chain codec" where
  "chain_codec = iso_codec (\<lambda>(a, b, c, d). Chain.make a b c d)
     (\<lambda>c. (ch_sender_ratchet_key c, ch_sender_ratchet_key_private c, ch_chain_key c, ch_message_keys c))
     (pair_codec bytes_codec (pair_codec bytes_codec
       (pair_codec (option_codec chain_key_codec) (list_codec message_key_codec))))"

definition pending_pre_key_codec :: "PendingPreKey codec" where
  "pending_pre_key_codec = iso_codec (\<lambda>(a, b, c, d). PendingPreKey.make a b c d)
     (\<lambda>p. (ppk_pre_key_id p, ppk_signed_pre_key_id p, ppk_base_key p, ppk_timestamp p))
     (pair_codec (option_codec word_codec) (pair_codec word_codec (pair_codec bytes_codec word_codec)))"

definition pending_kyber_codec :: "PendingKyberPreKey codec" where
  "pending_kyber_codec = iso_codec (\<lambda>(a, b). PendingKyberPreKey.make a b)
     (\<lambda>p. (pkk_pre_key_id p, pkk_ciphertext p)) (pair_codec word_codec bytes_codec)"

definition session_codec :: "SessionStructure codec" where
  "session_codec = iso_codec
     (\<lambda>(a, b, c, d, e, f, g, h, i, j, k, l, m). SessionStructure.make a b c d e f g h i j k l m)
     (\<lambda>s. (ss_session_version s, ss_local_identity_public s, ss_remote_identity_public s,
           ss_root_key s, ss_previous_counter s, ss_sender_chain s, ss_receiver_chains s,
           ss_pending_pre_key s, ss_pending_kyber_pre_key s, ss_remote_registration_id s,
           ss_local_registration_id s, ss_alice_base_key s, ss_pq_ratchet_state s))
     (pair_codec word_codec (pair_codec bytes_codec (pair_codec bytes_codec (pair_codec bytes_codec
     (pair_codec word_codec (pair_codec (option_codec chain_codec) (pair_codec (list_codec chain_codec)
     (pair_codec (option_codec pending_pre_key_codec) (pair_codec (option_codec pending_kyber_codec)
     (pair_codec word_codec (pair_codec word_codec (pair_codec bytes_codec bytes_codec))))))))))))"

definition record_codec :: "RecordStructure codec" where
  "record_codec = iso_codec (\<lambda>(a, b). RecordStructure.make a b)
     (\<lambda>r. (rec_current_session r, rec_previous_sessions r))
     (pair_codec (option_codec session_codec) (list_codec bytes_codec))"

definition sender_chain_key_codec :: "SenderChainKeyPb codec" where
  "sender_chain_key_codec = iso_codec (\<lambda>(a, b). SenderChainKeyPb.make a b)
     (\<lambda>k. (sck_iteration k, sck_seed k)) (pair_codec word_codec bytes_codec)"

definition sender_message_key_codec :: "SenderMessageKeyPb codec" where
  "sender_message_key_codec = iso_codec (\<lambda>(a, b). SenderMessageKeyPb.make a b)
     (\<lambda>k. (smk_iteration k, smk_seed k)) (pair_codec word_codec bytes_codec)"

definition sender_signing_key_codec :: "SenderSigningKey codec" where
  "sender_signing_key_codec = iso_codec (\<lambda>(a, b). SenderSigningKey.make a b)
     (\<lambda>k. (ssk_public k, ssk_private k)) (pair_codec bytes_codec bytes_codec)"

definition sender_key_state_codec :: "SenderKeyStateStructure codec" where
  "sender_key_state_codec = iso_codec (\<lambda>(a, b, c, d, e). SenderKeyStateStructure.make a b c d e)
     (\<lambda>s. (sks_message_version s, sks_chain_id s, sks_sender_chain_key s, sks_sender_signing_key s,
           sks_sender_message_keys s))
     (pair_codec word_codec (pair_codec word_codec (pair_codec (option_codec sender_chain_key_codec)
       (pair_codec (option_codec sender_signing_key_codec) (list_codec sender_message_key_codec)))))"

definition sender_key_record_codec :: "SenderKeyRecordStructure codec" where
  "sender_key_record_codec = iso_codec SenderKeyRecordStructure.make skr_sender_key_states
     (list_codec sender_key_state_codec)"

definition pre_key_record_codec :: "PreKeyRecordStructure codec" where
  "pre_key_record_codec = iso_codec (\<lambda>(a, b, c). PreKeyRecordStructure.make a b c)
     (\<lambda>r. (pkr_id r, pkr_public_key r, pkr_private_key r))
     (pair_codec word_codec (pair_codec bytes_codec bytes_codec))"

definition signed_pre_key_record_codec :: "SignedPreKeyRecordStructure codec" where
  "signed_pre_key_record_codec = iso_codec (\<lambda>(a, b, c, d, e). SignedPreKeyRecordStructure.make a b c d e)
     (\<lambda>r. (spk_id r, spk_public_key r, spk_private_key r, spk_signature r, spk_timestamp r))
     (pair_codec word_codec (pair_codec bytes_codec (pair_codec bytes_codec
       (pair_codec bytes_codec word_codec))))"

definition identity_key_pair_codec :: "IdentityKeyPairStructure codec" where
  "identity_key_pair_codec = iso_codec (\<lambda>(a, b). IdentityKeyPairStructure.make a b)
     (\<lambda>r. (ikp_public_key r, ikp_private_key r)) (pair_codec bytes_codec bytes_codec)"

definition signal_message_codec :: "SignalMessagePb codec" where
  "signal_message_codec = iso_codec (\<lambda>(a, b, c, d, e, f). SignalMessagePb.make a b c d e f)
     (\<lambda>m. (wsm_ratchet_key m, wsm_counter m, wsm_previous_counter m, wsm_ciphertext m,
           wsm_pq_ratchet m, wsm_addresses m))
     (pair_codec (option_codec bytes_codec) (pair_codec (option_codec word_codec)
     (pair_codec (option_codec word_codec) (pair_codec (option_codec bytes_codec)
     (pair_codec (option_codec bytes_codec) (option_codec bytes_codec))))))"

definition pre_key_signal_message_codec :: "PreKeySignalMessagePb codec" where
  "pre_key_signal_message_codec = iso_codec
     (\<lambda>(a, b, c, d, e, f, g, h). PreKeySignalMessagePb.make a b c d e f g h)
     (\<lambda>m. (wpk_registration_id m, wpk_pre_key_id m, wpk_signed_pre_key_id m, wpk_kyber_pre_key_id m,
           wpk_kyber_ciphertext m, wpk_base_key m, wpk_identity_key m, wpk_message m))
     (pair_codec (option_codec word_codec) (pair_codec (option_codec word_codec)
     (pair_codec (option_codec word_codec) (pair_codec (option_codec word_codec)
     (pair_codec (option_codec bytes_codec) (pair_codec (option_codec bytes_codec)
     (pair_codec (option_codec bytes_codec) (option_codec bytes_codec))))))))"

definition sender_key_message_codec :: "SenderKeyMessagePb codec" where
  "sender_key_message_codec = iso_codec (\<lambda>(a, b, c, d). SenderKeyMessagePb.make a b c d)
     (\<lambda>m. (wsk_distribution_uuid m, wsk_chain_id m, wsk_iteration m, wsk_ciphertext m))
     (pair_codec (option_codec bytes_codec) (pair_codec (option_codec word_codec)
     (pair_codec (option_codec word_codec) (option_codec bytes_codec))))"

definition skdm_codec :: "SenderKeyDistributionMessagePb codec" where
  "skdm_codec = iso_codec (\<lambda>(a, b, c, d, e). SenderKeyDistributionMessagePb.make a b c d e)
     (\<lambda>m. (wsd_distribution_uuid m, wsd_chain_id m, wsd_iteration m, wsd_chain_key m, wsd_signing_key m))
     (pair_codec (option_codec bytes_codec) (pair_codec (option_codec word_codec)
     (pair_codec (option_codec word_codec) (pair_codec (option_codec bytes_codec) (option_codec bytes_codec)))))"

definition decryption_error_codec :: "DecryptionErrorMessagePb codec" where
  "decryption_error_codec = iso_codec (\<lambda>(a, b, c). DecryptionErrorMessagePb.make a b c)
     (\<lambda>m. (dem_ratchet_key m, dem_timestamp m, dem_device_id m))
     (pair_codec (option_codec bytes_codec) (pair_codec (option_codec word_codec) (option_codec word_codec)))"

lemma message_codecs_ok:
  "codec_ok message_key_codec" "codec_ok chain_key_codec" "codec_ok pending_pre_key_codec"
  "codec_ok pending_kyber_codec" "codec_ok sender_chain_key_codec" "codec_ok sender_message_key_codec"
  "codec_ok sender_signing_key_codec" "codec_ok pre_key_record_codec"
  "codec_ok signed_pre_key_record_codec" "codec_ok identity_key_pair_codec"
  "codec_ok signal_message_codec" "codec_ok pre_key_signal_message_codec"
  "codec_ok sender_key_message_codec" "codec_ok skdm_codec" "codec_ok decryption_error_codec"
  unfolding message_key_codec_def chain_key_codec_def pending_pre_key_codec_def
    pending_kyber_codec_def sender_chain_key_codec_def sender_message_key_codec_def
    sender_signing_key_codec_def pre_key_record_codec_def signed_pre_key_record_codec_def
    identity_key_pair_codec_def signal_message_codec_def pre_key_signal_message_codec_def
    sender_key_message_codec_def skdm_codec_def decryption_error_codec_def
  by (intro codec_ok_intros; simp add: MessageKey.defs ChainKeyPb.defs PendingPreKey.defs
      PendingKyberPreKey.defs SenderChainKeyPb.defs SenderMessageKeyPb.defs SenderSigningKey.defs
      PreKeyRecordStructure.defs SignedPreKeyRecordStructure.defs IdentityKeyPairStructure.defs
      SignalMessagePb.defs PreKeySignalMessagePb.defs SenderKeyMessagePb.defs
      SenderKeyDistributionMessagePb.defs DecryptionErrorMessagePb.defs)+

lemma chain_codec_ok: "codec_ok chain_codec"
  unfolding chain_codec_def by (intro codec_ok_intros message_codecs_ok) (simp add: Chain.defs)

lemma session_codec_ok: "codec_ok session_codec"
  unfolding session_codec_def
  by (intro codec_ok_intros message_codecs_ok chain_codec_ok) (simp add: SessionStructure.defs)

lemma record_codec_ok: "codec_ok record_codec"
  unfolding record_codec_def
  by (intro codec_ok_intros session_codec_ok) (simp add: RecordStructure.defs)

lemma sender_key_record_codec_ok: "codec_ok sender_key_record_codec"
  unfolding sender_key_record_codec_def sender_key_state_codec_def
  by (intro codec_ok_intros message_codecs_ok)
    (simp_all add: SenderKeyStateStructure.defs SenderKeyRecordStructure.defs)

section \<open>The instance\<close>

text \<open>A hash is its input cut or filled to the output length; the curve is addition modulo 256
  on each byte; AES is the identity with the real padding; the generator counts.\<close>

definition fit :: "nat \<Rightarrow> bytes \<Rightarrow> bytes" where
  "fit n bs = take n (bs @ replicate n 0)"

definition reduced :: "bytes \<Rightarrow> bytes" where
  "reduced a = fit 31 a @ [0]"

definition pkcs7_pad :: "bytes \<Rightarrow> bytes" where
  "pkcs7_pad d = (let n = 16 - length d mod 16 in d @ replicate n (of_nat n))"

definition pkcs7_unpad :: "bytes \<Rightarrow> bytes option" where
  "pkcs7_unpad d = (if d = [] then None
     else let n = unat (last d) in
       if 1 \<le> n \<and> n \<le> 16 \<and> n \<le> length d then Some (take (length d - n) d) else None)"

definition concrete :: "nat Ext" where
  "concrete = \<lparr>
     x_hmac_sha256 = \<lambda>k m. fit 32 (m @ k),
     x_hkdf_sha256 = \<lambda>s k i n. fit n (k @ i),
     x_sha512 = fit 64,
     x_fill_bytes = \<lambda>n r. (replicate n (of_nat (Suc r)), Suc r),
     x_random_bytes = \<lambda>n r. (replicate n (of_nat (Suc r)), Suc r),
     x_random_u32 = \<lambda>r. (of_nat (Suc r), Suc r),
     x_clamp_integer = id,
     x_x25519 = \<lambda>a p. map2 (+) (fit 32 a) (fit 32 p),
     x_x25519_base = fit 32,
     x_mont_torsion_free = \<lambda>_. True,
     x_scalar_mod_order = reduced,
     x_scalar_from_hash = reduced,
     x_scalar_mul_add = \<lambda>h a r. reduced r,
     x_ed_mul_base = reduced,
     x_mont_to_edwards = \<lambda>p s. Some (reduced p),
     x_ed_neg = id,
     x_ed_double_mul_base = \<lambda>h p s. s,
     x_cbc_encrypt = \<lambda>k iv. pkcs7_pad,
     x_cbc_decrypt = \<lambda>k iv. pkcs7_unpad,
     x_ctr_apply = \<lambda>k n d. d,
     x_kem_public_key_len = 4,
     x_kem_secret_key_len = 4,
     x_kem_ciphertext_len = 4,
     x_kem_generate = \<lambda>seed. (fit 4 seed, fit 4 seed),
     x_kem_encapsulate = \<lambda>pk r. (fit 4 r, fit 32 (fit 4 r @ pk)),
     x_kem_decapsulate = \<lambda>sk ct. fit 32 (ct @ sk),
     x_spqr_initial_state = \<lambda>p. Inr [7],
     x_spqr_send = \<lambda>s r. (Inr (s, None, [8]), r),
     x_spqr_recv = \<lambda>s m. Inr (s, None),
     x_spqr_show = \<lambda>e. case e of StateDecode \<Rightarrow> ''state decode'' | OtherSpqrError m \<Rightarrow> m,
     x_uuid_from_slice = \<lambda>b. if length b = 16 then Some b else None,
     x_uuid_try_parse = \<lambda>s. if length s = 36 then Some (map (\<lambda>c. of_nat (of_char c)) (drop 20 s)) else None,
     x_uuid_to_string = \<lambda>u. replicate 20 (CHR ''0'') @ map (\<lambda>b. char_of (unat b)) u,
     x_encode_session = enc session_codec,
     x_decode_session = dec session_codec,
     x_encode_record = enc record_codec,
     x_decode_record = dec record_codec,
     x_encode_sender_key_record = enc sender_key_record_codec,
     x_decode_sender_key_record = dec sender_key_record_codec,
     x_encode_pre_key_record = enc pre_key_record_codec,
     x_decode_pre_key_record = dec pre_key_record_codec,
     x_encode_signed_pre_key_record = enc signed_pre_key_record_codec,
     x_decode_signed_pre_key_record = dec signed_pre_key_record_codec,
     x_encode_identity_key_pair = enc identity_key_pair_codec,
     x_decode_identity_key_pair = dec identity_key_pair_codec,
     x_encode_signal_message = enc signal_message_codec,
     x_decode_signal_message = dec signal_message_codec,
     x_encode_pre_key_signal_message = enc pre_key_signal_message_codec,
     x_decode_pre_key_signal_message = dec pre_key_signal_message_codec,
     x_encode_sender_key_message = enc sender_key_message_codec,
     x_decode_sender_key_message = dec sender_key_message_codec,
     x_encode_skdm = enc skdm_codec,
     x_decode_skdm = dec skdm_codec,
     x_encode_content = id,
     x_decode_content = \<lambda>b. Some (Some b),
     x_encode_decryption_error = enc decryption_error_codec,
     x_decode_decryption_error = dec decryption_error_codec\<rparr>"

lemma length_fit [simp]: "length (fit n bs) = n"
  by (simp add: fit_def)

lemma fit_self [simp]: "length bs = n \<Longrightarrow> fit n bs = bs"
  by (simp add: fit_def)

lemma length_reduced [simp]: "length (reduced a) = 32"
  by (simp add: reduced_def)

lemma reduced_idem [simp]: "reduced (reduced a) = reduced a"
  by (simp add: reduced_def fit_def)

lemma reduced_fit [simp]: "reduced (fit 32 a) = reduced a"
proof (cases "length a \<le> 31")
  case True
  then show ?thesis by (simp add: reduced_def fit_def)
next
  case False
  then show ?thesis by (simp add: reduced_def fit_def)
qed

lemma reduced_31 [simp]: "reduced a ! 31 = 0"
  by (simp add: reduced_def nth_append)

lemma pkcs7_roundtrip: "pkcs7_unpad (pkcs7_pad d) = Some d"
proof -
  define n where "n = 16 - length d mod 16"
  have n: "1 \<le> n" "n \<le> 16"
    using mod_less_divisor [of 16 "length d"] unfolding n_def by linarith+
  have "unat (of_nat n :: byte) = n" using n by (simp add: unat_of_nat)
  moreover have "last (d @ replicate n (of_nat n :: byte)) = of_nat n" using n by simp
  ultimately show ?thesis using n
    by (simp add: pkcs7_unpad_def pkcs7_pad_def Let_def n_def [symmetric])
qed

lemma pkcs7_blocks: "length (pkcs7_pad d) mod 16 = 0" "pkcs7_pad d \<noteq> []"
proof -
  have n: "length d mod 16 < 16" by simp
  then have "length (pkcs7_pad d) = length d - length d mod 16 + 16"
    by (simp add: pkcs7_pad_def Let_def)
  then show "length (pkcs7_pad d) mod 16 = 0" by (simp add: minus_mod_eq_mult_div)
  show "pkcs7_pad d \<noteq> []" using n by (simp add: pkcs7_pad_def Let_def)
qed

lemma concrete_hash_lengths: "hash_lengths concrete"
  by (simp add: hash_lengths_def concrete_def)

lemma concrete_cbc_laws: "cbc_laws concrete"
  by (simp add: cbc_laws_def concrete_def pkcs7_roundtrip pkcs7_blocks)

lemma concrete_kem_laws: "kem_laws concrete"
  by (simp add: kem_laws_def concrete_def)

lemma concrete_prost_laws: "prost_laws concrete"
  unfolding prost_laws_def concrete_def
  by (simp add: dec_enc message_codecs_ok session_codec_ok record_codec_ok sender_key_record_codec_ok)

lemmas concrete_laws = concrete_hash_lengths concrete_cbc_laws concrete_kem_laws concrete_prost_laws

end
