(* ===== verification/Address.thy ===== *)
theory Address
  imports Concrete_Externals "HOL-Library.List_Lexorder"
begin

text \<open>
  \<open>rust/core/src/address.rs\<close>: service identifiers (ACI and PNI) with their binary and string
  forms, device identifiers and protocol addresses. A UUID is its 16 bytes; parsing and printing
  UUIDs belongs to the \<open>uuid\<close> crate.
\<close>

type_synonym Uuid = bytes

section \<open>Service identifiers\<close>

datatype ServiceIdKind = AciKind | PniKind

fun ServiceIdKind_into_u8 :: "ServiceIdKind \<Rightarrow> byte" where
  "ServiceIdKind_into_u8 AciKind = 0"
| "ServiceIdKind_into_u8 PniKind = 1"

definition ServiceIdKind_try_from :: "byte \<Rightarrow> ServiceIdKind option" where
  "ServiceIdKind_try_from b = (if b = 0 then Some AciKind else if b = 1 then Some PniKind else None)"

fun ServiceIdKind_fmt :: "ServiceIdKind \<Rightarrow> string" where
  "ServiceIdKind_fmt AciKind = ''ACI''"
| "ServiceIdKind_fmt PniKind = ''PNI''"

datatype ServiceId = Aci Uuid | Pni Uuid

fun ServiceId_kind :: "ServiceId \<Rightarrow> ServiceIdKind" where
  "ServiceId_kind (Aci _) = AciKind"
| "ServiceId_kind (Pni _) = PniKind"

fun ServiceId_raw_uuid :: "ServiceId \<Rightarrow> Uuid" where
  "ServiceId_raw_uuid (Aci u) = u"
| "ServiceId_raw_uuid (Pni u) = u"

definition ServiceId_service_id_fixed_width_binary :: "ServiceId \<Rightarrow> bytes" where
  "ServiceId_service_id_fixed_width_binary s =
     ServiceIdKind_into_u8 (ServiceId_kind s) # ServiceId_raw_uuid s"

definition ServiceId_service_id_binary :: "ServiceId \<Rightarrow> bytes" where
  "ServiceId_service_id_binary s = (case s of Aci u \<Rightarrow> u
     | _ \<Rightarrow> ServiceId_service_id_fixed_width_binary s)"

definition ServiceId_service_id_string :: "'r Ext \<Rightarrow> ServiceId \<Rightarrow> string" where
  "ServiceId_service_id_string E s = (case s of Aci u \<Rightarrow> x_uuid_to_string E u
     | _ \<Rightarrow> ServiceIdKind_fmt (ServiceId_kind s) @ '':'' @ x_uuid_to_string E (ServiceId_raw_uuid s))"

text \<open>The argument is an array of 17 bytes.\<close>

definition ServiceId_parse_from_service_id_fixed_width_binary ::
    "'r Ext \<Rightarrow> bytes \<Rightarrow> ServiceId option" where
  "ServiceId_parse_from_service_id_fixed_width_binary E bs =
     (case x_uuid_from_slice E (tl bs) of None \<Rightarrow> None
      | Some uuid \<Rightarrow> (case ServiceIdKind_try_from (hd bs) of None \<Rightarrow> None
          | Some AciKind \<Rightarrow> Some (Aci uuid)
          | Some PniKind \<Rightarrow> Some (Pni uuid)))"

definition ServiceId_parse_from_service_id_binary :: "'r Ext \<Rightarrow> bytes \<Rightarrow> ServiceId option" where
  "ServiceId_parse_from_service_id_binary E bs =
     (if length bs = 16 then map_option Aci (x_uuid_from_slice E bs)
      else if length bs = 17 then
        (case ServiceId_parse_from_service_id_fixed_width_binary E bs of None \<Rightarrow> None
         | Some result \<Rightarrow> if ServiceId_kind result = AciKind then None else Some result)
      else None)"

text \<open>\<open>str::strip_prefix\<close>.\<close>

definition strip_prefix :: "string \<Rightarrow> string \<Rightarrow> string option" where
  "strip_prefix p s = (if take (length p) s = p then Some (drop (length p) s) else None)"

definition try_parse_hyphenated :: "'r Ext \<Rightarrow> string \<Rightarrow> Uuid option" where
  "try_parse_hyphenated E input = (if length input \<noteq> 36 then None else x_uuid_try_parse E input)"

definition ServiceId_parse_from_service_id_string :: "'r Ext \<Rightarrow> string \<Rightarrow> ServiceId option" where
  "ServiceId_parse_from_service_id_string E input =
     (case strip_prefix ''PNI:'' input of
        Some uuid_string \<Rightarrow> map_option Pni (try_parse_hyphenated E uuid_string)
      | None \<Rightarrow> map_option Aci (try_parse_hyphenated E input))"

text \<open>\<open>TryFrom<ServiceId> for SpecificServiceId<KIND>\<close>: the downcast keeps the UUID or reports
  both kinds.\<close>

datatype WrongKindOfServiceIdError = WrongKindOfServiceIdError ServiceIdKind ServiceIdKind

definition SpecificServiceId_try_from ::
    "ServiceIdKind \<Rightarrow> ServiceId \<Rightarrow> WrongKindOfServiceIdError + Uuid" where
  "SpecificServiceId_try_from kind s = (if ServiceId_kind s = kind then Inr (ServiceId_raw_uuid s)
     else Inl (WrongKindOfServiceIdError kind (ServiceId_kind s)))"

definition SpecificServiceId_parse_from_service_id_binary ::
    "'r Ext \<Rightarrow> ServiceIdKind \<Rightarrow> bytes \<Rightarrow> Uuid option" where
  "SpecificServiceId_parse_from_service_id_binary E kind bs =
     (case ServiceId_parse_from_service_id_binary E bs of None \<Rightarrow> None
      | Some s \<Rightarrow> (case SpecificServiceId_try_from kind s of Inl _ \<Rightarrow> None | Inr u \<Rightarrow> Some u))"

section \<open>Devices and addresses\<close>

datatype DeviceId = DeviceId (device_id_u8: byte)

definition MAX_VALID_DEVICE_ID :: byte where
  "MAX_VALID_DEVICE_ID = 127"

definition DeviceId_new :: "byte \<Rightarrow> DeviceId option" where
  "DeviceId_new i = (if i = 0 then None
     else if i \<le> MAX_VALID_DEVICE_ID then Some (DeviceId i) else None)"

text \<open>\<open>TryFrom<u32>\<close>: values beyond \<open>u8\<close> are out of range.\<close>

definition DeviceId_try_from_u32 :: "u32 \<Rightarrow> DeviceId option" where
  "DeviceId_try_from_u32 v = (if unat v < 256 then DeviceId_new (ucast v) else None)"

record ProtocolAddress =
  pa_name :: string
  pa_device_id :: DeviceId

definition ServiceId_to_protocol_address ::
    "'r Ext \<Rightarrow> ServiceId \<Rightarrow> DeviceId \<Rightarrow> ProtocolAddress" where
  "ServiceId_to_protocol_address E s d = \<lparr>pa_name = ServiceId_service_id_string E s, pa_device_id = d\<rparr>"

section \<open>The derived order on service identifiers\<close>

text \<open>\<open>derive(PartialOrd, Ord)\<close>: by variant first, then by UUID.\<close>

instantiation ServiceId :: linorder
begin

fun less_eq_ServiceId :: "ServiceId \<Rightarrow> ServiceId \<Rightarrow> bool" where
  "less_eq_ServiceId (Aci u) (Aci v) = (u \<le> v)"
| "less_eq_ServiceId (Aci _) (Pni _) = True"
| "less_eq_ServiceId (Pni _) (Aci _) = False"
| "less_eq_ServiceId (Pni u) (Pni v) = (u \<le> v)"

definition less_ServiceId :: "ServiceId \<Rightarrow> ServiceId \<Rightarrow> bool" where
  "less_ServiceId s t = (s \<le> t \<and> \<not> t \<le> s)"

instance
proof
  fix s t u :: ServiceId
  show "(s < t) = (s \<le> t \<and> \<not> t \<le> s)" by (rule less_ServiceId_def)
  show "s \<le> s" by (cases s) simp_all
  show "s \<le> t \<Longrightarrow> t \<le> u \<Longrightarrow> s \<le> u" by (cases s; cases t; cases u) auto
  show "s \<le> t \<Longrightarrow> t \<le> s \<Longrightarrow> s = t" by (cases s; cases t) auto
  show "s \<le> t \<or> t \<le> s" by (cases s; cases t) auto
qed

end

section \<open>Round trips\<close>

text \<open>What the \<open>uuid\<close> crate documents: a slice is a UUID exactly when it has 16 bytes; the
  hyphenated form has 36 characters, starts with a hexadecimal digit, and parses back.\<close>

definition uuid_slices :: "'r Ext \<Rightarrow> bool" where
  "uuid_slices E \<longleftrightarrow> (\<forall>b. x_uuid_from_slice E b = (if length b = 16 then Some b else None))"

definition uuid_strings :: "'r Ext \<Rightarrow> bool" where
  "uuid_strings E \<longleftrightarrow> (\<forall>u. length u = 16 \<longrightarrow> x_uuid_try_parse E (x_uuid_to_string E u) = Some u \<and>
     length (x_uuid_to_string E u) = 36 \<and> hd (x_uuid_to_string E u) \<in> set ''0123456789abcdef'')"

lemma uuid_slicesD: "uuid_slices E \<Longrightarrow> x_uuid_from_slice E b = (if length b = 16 then Some b else None)"
  by (simp add: uuid_slices_def)

lemma try_from_into_kind [simp]: "ServiceIdKind_try_from (ServiceIdKind_into_u8 k) = Some k"
  by (cases k) (simp_all add: ServiceIdKind_try_from_def)

lemma ServiceIdKind_try_from_SomeD:
  "ServiceIdKind_try_from b = Some k \<Longrightarrow> ServiceIdKind_into_u8 k = b"
  by (auto simp: ServiceIdKind_try_from_def split: if_splits)

lemma parse_fixed_width_Cons:
  assumes "uuid_slices E" and "length u = 16"
  shows "ServiceId_parse_from_service_id_fixed_width_binary E (b # u) =
    (if b = 0 then Some (Aci u) else if b = 1 then Some (Pni u) else None)"
  using assms
  by (simp add: ServiceId_parse_from_service_id_fixed_width_binary_def uuid_slicesD
      ServiceIdKind_try_from_def)

lemma service_id_binary_simps [simp]:
  "ServiceId_service_id_binary (Aci u) = u"
  "ServiceId_service_id_binary (Pni u) = 1 # u"
  by (simp_all add: ServiceId_service_id_binary_def ServiceId_service_id_fixed_width_binary_def)

lemma parse_service_id_binary_16:
  assumes "uuid_slices E" and "length bs = 16"
  shows "ServiceId_parse_from_service_id_binary E bs = Some (Aci bs)"
  using assms by (simp add: ServiceId_parse_from_service_id_binary_def uuid_slicesD)

lemma parse_service_id_binary_17:
  assumes "uuid_slices E" and "length u = 16"
  shows "ServiceId_parse_from_service_id_binary E (b # u) = (if b = 1 then Some (Pni u) else None)"
  using assms by (simp add: ServiceId_parse_from_service_id_binary_def parse_fixed_width_Cons)

lemma parse_service_id_binary_other:
  "length bs \<noteq> 16 \<Longrightarrow> length bs \<noteq> 17 \<Longrightarrow> ServiceId_parse_from_service_id_binary E bs = None"
  by (simp add: ServiceId_parse_from_service_id_binary_def)

text \<open>The standard binary form of service IDs is a bijection between service IDs and the byte
  strings the parser accepts: parsing succeeds with a service ID exactly when the bytes are that
  ID's binary form, so every ID round-trips, no two byte strings parse to the same ID, and in
  particular the marked (17-byte) form of an ACI is rejected.\<close>

theorem service_id_binary_canonical:
  assumes "uuid_slices E" and "length (ServiceId_raw_uuid s) = 16"
  shows "ServiceId_parse_from_service_id_binary E bs = Some s \<longleftrightarrow>
    ServiceId_service_id_binary s = bs"
proof -
  consider "length bs = 16" | b u where "bs = b # u" "length u = 16"
    | "length bs \<noteq> 16" "length bs \<noteq> 17"
    by (cases bs) auto
  then show ?thesis
  proof cases
    case 1
    with parse_service_id_binary_16 [OF assms(1) 1] assms(2) show ?thesis
      by (cases s) auto
  next
    case (2 b u)
    with parse_service_id_binary_17 [OF assms(1) 2(2), of b] assms(2) show ?thesis
      by (cases s) auto
  next
    case 3
    with parse_service_id_binary_other [OF 3, of E] assms(2) show ?thesis
      by (cases s) auto
  qed
qed

theorem service_id_binary_canonical_witness:
  "ServiceId_parse_from_service_id_binary concrete (1 # replicate 16 7) = Some (Pni (replicate 16 7))"
proof -
  have "uuid_slices concrete" by (simp add: uuid_slices_def concrete_def)
  then show ?thesis
    using service_id_binary_canonical [of concrete "Pni (replicate 16 7)" "1 # replicate 16 7"] by simp
qed

lemma strip_PNI_uuid:
  assumes "hd s \<in> set ''0123456789abcdef''"
  shows "strip_prefix ''PNI:'' s = None"
proof (cases s)
  case Nil
  then show ?thesis by (simp add: strip_prefix_def)
next
  case (Cons c cs)
  with assms have "c \<noteq> CHR ''P''" by auto
  with Cons show ?thesis by (simp add: strip_prefix_def)
qed

lemma service_id_string_roundtrip:
  assumes "uuid_strings E" and "length (ServiceId_raw_uuid s) = 16"
  shows "ServiceId_parse_from_service_id_string E (ServiceId_service_id_string E s) = Some s"
proof -
  let ?u = "x_uuid_to_string E (ServiceId_raw_uuid s)"
  have u: "try_parse_hyphenated E ?u = Some (ServiceId_raw_uuid s)" and
    none: "strip_prefix ''PNI:'' ?u = None"
    using assms by (simp_all add: uuid_strings_def try_parse_hyphenated_def strip_PNI_uuid)
  show ?thesis
  proof (cases s)
    case (Aci v)
    then show ?thesis using u none
      by (simp add: ServiceId_parse_from_service_id_string_def ServiceId_service_id_string_def)
  next
    case (Pni v)
    then show ?thesis using u
      by (simp add: ServiceId_parse_from_service_id_string_def ServiceId_service_id_string_def
          strip_prefix_def)
  qed
qed

lemma service_id_order_fixed_width:
  "s < t \<longleftrightarrow> ServiceId_service_id_fixed_width_binary s < ServiceId_service_id_fixed_width_binary t"
  by (cases s; cases t)
     (auto simp: less_ServiceId_def ServiceId_service_id_fixed_width_binary_def)

lemma DeviceId_new_iff: "DeviceId_new i = Some d \<longleftrightarrow> 1 \<le> unat i \<and> unat i \<le> 127 \<and> d = DeviceId i"
proof -
  have "i = 0 \<longleftrightarrow> unat i = 0" by (simp add: unat_eq_0)
  moreover have "i \<le> 127 \<longleftrightarrow> unat i \<le> 127" by (simp add: word_le_nat_alt)
  ultimately show ?thesis by (auto simp: DeviceId_new_def MAX_VALID_DEVICE_ID_def)
qed

end
