(* ===== verification/Curve.thy ===== *)
theory Curve
  imports Externals
begin

unbundle bit_operations_syntax

text \<open>
  \<open>rust/core/src/curve.rs\<close> and \<open>rust/core/src/curve/curve25519.rs\<close>: Curve25519 public and
  private keys with their wire form, Diffie-Hellman agreement with the all-zero check, XEdDSA
  signatures, and the canonicity check on public keys. The curve arithmetic itself is dalek's.
\<close>

section \<open>Key types and errors\<close>

datatype KeyType = Djb

fun KeyType_value :: "KeyType \<Rightarrow> byte" where
  "KeyType_value Djb = 0x05"

datatype CurveError =
    CurveNoKeyTypeIdentifier
  | CurveBadKeyType byte
  | CurveBadKeyLength KeyType nat
  | CurveInvalidKeyAgreement

type_synonym 'a curve_result = "(CurveError, 'a) rresult"

definition KeyType_try_from :: "byte \<Rightarrow> KeyType curve_result" where
  "KeyType_try_from x = (if x = 0x05 then Inr Djb else Inl (Err (CurveBadKeyType x)))"

section \<open>Public keys\<close>

text \<open>An array \<open>[u8; 32]\<close>; every constructor below yields 32 bytes (\<open>public_key_ok\<close>).\<close>

datatype PublicKey = DjbPublicKey (public_key_bytes: bytes)

definition public_key_ok :: "PublicKey \<Rightarrow> bool" where
  "public_key_ok k \<longleftrightarrow> length (public_key_bytes k) = 32"

definition PublicKey_deserialize :: "bytes \<Rightarrow> PublicKey curve_result" where
  "PublicKey_deserialize value = (case value of
     [] \<Rightarrow> Inl (Err CurveNoKeyTypeIdentifier)
   | t # value' \<Rightarrow> try_bind (KeyType_try_from t) (\<lambda>key_type. case key_type of Djb \<Rightarrow>
       if length value' < 32 then Inl (Err (CurveBadKeyLength Djb (length value' + 1)))
       else Inr (DjbPublicKey (take 32 value'))))"

definition PublicKey_from_djb_public_key_bytes :: "bytes \<Rightarrow> PublicKey curve_result" where
  "PublicKey_from_djb_public_key_bytes bs =
     (if length bs = 32 then Inr (DjbPublicKey bs) else Inl (Err (CurveBadKeyLength Djb (length bs))))"

definition PublicKey_key_type :: "PublicKey \<Rightarrow> KeyType" where
  "PublicKey_key_type k = (case k of DjbPublicKey _ \<Rightarrow> Djb)"

definition PublicKey_serialize :: "PublicKey \<Rightarrow> bytes" where
  "PublicKey_serialize k = KeyType_value (PublicKey_key_type k) # public_key_bytes k"

text \<open>Not dalek's: the comparison with the field prime, on the 32 bytes of a key.\<close>

definition PublicKey_scalar_is_in_range :: "PublicKey \<Rightarrow> bool" where
  "PublicKey_scalar_is_in_range key = (let k = public_key_bytes key in
     \<not> (k ! 31 AND 0x80 \<noteq> 0 \<or>
        (k ! 0 \<ge> 0 - 19 \<and> take 30 (drop 1 k) = replicate 30 0xFF \<and> k ! 31 = 0x7F)))"

definition PublicKey_is_torsion_free :: "'r Ext \<Rightarrow> PublicKey \<Rightarrow> bool" where
  "PublicKey_is_torsion_free E key = x_mont_torsion_free E (public_key_bytes key)"

definition PublicKey_is_canonical :: "'r Ext \<Rightarrow> PublicKey \<Rightarrow> bool" where
  "PublicKey_is_canonical E key \<longleftrightarrow> PublicKey_is_torsion_free E key \<and> PublicKey_scalar_is_in_range key"

section \<open>Private keys and agreement\<close>

datatype PrivateKey = DjbPrivateKey (private_key_bytes: bytes)

definition PrivateKey_deserialize :: "'r Ext \<Rightarrow> bytes \<Rightarrow> PrivateKey curve_result" where
  "PrivateKey_deserialize E value =
     (if length value \<noteq> 32 then Inl (Err (CurveBadKeyLength Djb (length value)))
      else Inr (DjbPrivateKey (x_clamp_integer E value)))"

definition PrivateKey_serialize :: "PrivateKey \<Rightarrow> bytes" where
  "PrivateKey_serialize k = private_key_bytes k"

text \<open>\<open>curve25519::PrivateKey::from\<close> clamps again; \<open>secret\<close> is the scalar handed to dalek.\<close>

definition curve25519_PrivateKey_from :: "'r Ext \<Rightarrow> bytes \<Rightarrow> bytes" where
  "curve25519_PrivateKey_from E bs = x_clamp_integer E bs"

definition PrivateKey_public_key :: "'r Ext \<Rightarrow> PrivateKey \<Rightarrow> PublicKey curve_result" where
  "PrivateKey_public_key E k =
     Inr (DjbPublicKey (x_x25519_base E (curve25519_PrivateKey_from E (private_key_bytes k))))"

definition PrivateKey_calculate_agreement ::
    "'r Ext \<Rightarrow> PrivateKey \<Rightarrow> PublicKey \<Rightarrow> bytes curve_result" where
  "PrivateKey_calculate_agreement E k their_key =
     (let shared = x_x25519 E (curve25519_PrivateKey_from E (private_key_bytes k))
                     (public_key_bytes their_key)
      in if shared = replicate 32 0 then Inl (Err CurveInvalidKeyAgreement) else Inr shared)"

section \<open>XEdDSA signatures\<close>

definition xeddsa_hash_prefix :: bytes where
  "xeddsa_hash_prefix = 0xFE # replicate 31 0xFF"

definition curve25519_calculate_signature ::
    "'r Ext \<Rightarrow> bytes \<Rightarrow> bytes list \<Rightarrow> 'r \<Rightarrow> bytes \<times> 'r" where
  "curve25519_calculate_signature E key_data message rng =
     (let (random_bytes, rng') = x_fill_bytes E 64 rng;
          a = x_scalar_mod_order E key_data;
          ed_public_key = x_ed_mul_base E a;
          sign_bit = ed_public_key ! 31 AND 0x80;
          r = x_scalar_from_hash E (x_sha512 E
                (xeddsa_hash_prefix @ key_data @ concat message @ random_bytes));
          cap_r = x_ed_mul_base E r;
          h = x_scalar_from_hash E (x_sha512 E (cap_r @ ed_public_key @ concat message));
          s = x_scalar_mul_add E h a r;
          result = take 32 cap_r @ take 32 s
      in (result[63 := ((result ! 63) AND 0x7F) OR sign_bit], rng'))"

definition curve25519_verify_signature ::
    "'r Ext \<Rightarrow> bytes \<Rightarrow> bytes list \<Rightarrow> bytes \<Rightarrow> bool" where
  "curve25519_verify_signature E their_public_key message signature =
     (case x_mont_to_edwards E their_public_key (drop_bit 7 (signature ! 63 AND 0x80)) of
        None \<Rightarrow> False
      | Some ed_pub_key_point \<Rightarrow>
          (let cap_a = ed_pub_key_point;
               cap_r = take 32 signature;
               s0 = drop 32 signature;
               s = s0[31 := (s0 ! 31) AND 0x7F]
           in if (s ! 31) AND 0xE0 \<noteq> 0 then False
              else let minus_cap_a = x_ed_neg E ed_pub_key_point;
                       h = x_scalar_from_hash E (x_sha512 E (cap_r @ cap_a @ concat message));
                       cap_r_check = x_ed_double_mul_base E h minus_cap_a (x_scalar_mod_order E s)
                   in cap_r_check = cap_r))"

definition PublicKey_verify_signature_for_multipart_message ::
    "'r Ext \<Rightarrow> PublicKey \<Rightarrow> bytes list \<Rightarrow> bytes \<Rightarrow> bool" where
  "PublicKey_verify_signature_for_multipart_message E k message signature =
     (if length signature \<noteq> 64 then False
      else curve25519_verify_signature E (public_key_bytes k) message signature)"

definition PublicKey_verify_signature :: "'r Ext \<Rightarrow> PublicKey \<Rightarrow> bytes \<Rightarrow> bytes \<Rightarrow> bool" where
  "PublicKey_verify_signature E k message signature =
     PublicKey_verify_signature_for_multipart_message E k [message] signature"

definition PrivateKey_calculate_signature_for_multipart_message ::
    "'r Ext \<Rightarrow> PrivateKey \<Rightarrow> bytes list \<Rightarrow> 'r \<Rightarrow> bytes curve_result \<times> 'r" where
  "PrivateKey_calculate_signature_for_multipart_message E k message rng =
     (let (sig, rng') = curve25519_calculate_signature E
            (curve25519_PrivateKey_from E (private_key_bytes k)) message rng
      in (Inr sig, rng'))"

definition PrivateKey_calculate_signature ::
    "'r Ext \<Rightarrow> PrivateKey \<Rightarrow> bytes \<Rightarrow> 'r \<Rightarrow> bytes curve_result \<times> 'r" where
  "PrivateKey_calculate_signature E k message rng =
     PrivateKey_calculate_signature_for_multipart_message E k [message] rng"

section \<open>Key pairs\<close>

record KeyPair =
  kp_public_key :: PublicKey
  kp_private_key :: PrivateKey

definition KeyPair_generate :: "'r Ext \<Rightarrow> 'r \<Rightarrow> KeyPair \<times> 'r" where
  "KeyPair_generate E rng =
     (let (bs, rng') = x_fill_bytes E 32 rng; secret = x_clamp_integer E bs
      in (\<lparr>kp_public_key = DjbPublicKey (x_x25519_base E secret),
           kp_private_key = DjbPrivateKey secret\<rparr>, rng'))"

definition KeyPair_from_public_and_private :: "'r Ext \<Rightarrow> bytes \<Rightarrow> bytes \<Rightarrow> KeyPair curve_result" where
  "KeyPair_from_public_and_private E public_key private_key =
     try_bind (PublicKey_deserialize public_key) (\<lambda>pub.
     try_bind (PrivateKey_deserialize E private_key) (\<lambda>priv.
     Inr \<lparr>kp_public_key = pub, kp_private_key = priv\<rparr>))"

definition KeyPair_calculate_signature ::
    "'r Ext \<Rightarrow> KeyPair \<Rightarrow> bytes \<Rightarrow> 'r \<Rightarrow> bytes curve_result \<times> 'r" where
  "KeyPair_calculate_signature E kp message rng =
     PrivateKey_calculate_signature E (kp_private_key kp) message rng"

definition KeyPair_calculate_agreement :: "'r Ext \<Rightarrow> KeyPair \<Rightarrow> PublicKey \<Rightarrow> bytes curve_result" where
  "KeyPair_calculate_agreement E kp their_key =
     PrivateKey_calculate_agreement E (kp_private_key kp) their_key"

definition KeyPair_try_from :: "'r Ext \<Rightarrow> PrivateKey \<Rightarrow> KeyPair curve_result" where
  "KeyPair_try_from E value =
     try_bind (PrivateKey_public_key E value) (\<lambda>public_key.
     Inr \<lparr>kp_public_key = public_key, kp_private_key = value\<rparr>)"

section \<open>The wire form of keys\<close>

lemma PublicKey_deserialize_ok:
  "PublicKey_deserialize bs = Inr k \<Longrightarrow> public_key_ok k"
  by (auto simp: PublicKey_deserialize_def public_key_ok_def KeyType_try_from_def
      split: list.splits KeyType.splits if_splits)

lemma PublicKey_roundtrip [simp]:
  "public_key_ok k \<Longrightarrow> PublicKey_deserialize (PublicKey_serialize k) = Inr k"
  by (cases k) (simp add: PublicKey_deserialize_def PublicKey_serialize_def KeyType_try_from_def
      PublicKey_key_type_def public_key_ok_def)

lemma length_PublicKey_serialize [simp]:
  "public_key_ok k \<Longrightarrow> length (PublicKey_serialize k) = 33"
  by (simp add: PublicKey_serialize_def public_key_ok_def)

lemma PublicKey_serialize_inj:
  "PublicKey_serialize k = PublicKey_serialize l \<longleftrightarrow> k = l"
  by (cases k; cases l) (auto simp: PublicKey_serialize_def)

lemma PublicKey_serialize_neq_Nil [simp]: "PublicKey_serialize k \<noteq> []"
  by (simp add: PublicKey_serialize_def)

lemma PublicKey_deserialize_no_panic: "\<not> is_panic (PublicKey_deserialize bs)"
  by (auto simp: PublicKey_deserialize_def KeyType_try_from_def split: list.splits KeyType.splits)

text \<open>Deserialization accepts trailing bytes and keeps the first 33.\<close>

lemma PublicKey_deserialize_trailing:
  "PublicKey_deserialize bs = Inr k \<Longrightarrow> \<exists>tail. bs = PublicKey_serialize k @ tail"
proof -
  assume d: "PublicKey_deserialize bs = Inr k"
  then obtain t v where bs: "bs = t # v" by (cases bs) (auto simp: PublicKey_deserialize_def)
  with d have t: "t = 0x05" and "length v \<ge> 32" and k: "k = DjbPublicKey (take 32 v)"
    by (auto simp: PublicKey_deserialize_def KeyType_try_from_def res_simps
        split: if_splits KeyType.splits)
  have "bs = PublicKey_serialize k @ drop 32 v"
    by (simp add: bs t k PublicKey_serialize_def PublicKey_key_type_def)
  then show ?thesis ..
qed

section \<open>The range check is a comparison with the field prime\<close>

text \<open>The little-endian number a byte string stands for.\<close>

fun le_value :: "bytes \<Rightarrow> nat" where
  "le_value [] = 0"
| "le_value (b # bs) = unat b + 256 * le_value bs"

lemma unat_byte_bound [simp]: "unat (b :: byte) < 256"
proof -
  have "unat b < 2 ^ LENGTH(8)" by (rule unsigned_less)
  then show ?thesis by simp
qed

lemma le_value_bound: "le_value bs < 256 ^ length bs"
proof (induction bs)
  case Nil
  then show ?case by simp
next
  case (Cons b bs)
  have "unat b + 256 * le_value bs < 256 + 256 * le_value bs" by simp
  also have "\<dots> \<le> 256 * 256 ^ length bs" using Cons by simp
  finally show ?case by simp
qed

lemma le_value_append: "le_value (as @ bs) = le_value as + 256 ^ length as * le_value bs"
  by (induction as) simp_all

lemma max_digits: "\<lbrakk>b < 256; v < p\<rbrakk> \<Longrightarrow> b + 256 * v = 256 * p - (1::nat) \<longleftrightarrow> b = 255 \<and> v = p - 1"
  by arith

lemma le_value_max_iff: "le_value bs = 256 ^ length bs - 1 \<longleftrightarrow> bs = replicate (length bs) 0xFF"
proof (induction bs)
  case Nil
  then show ?case by simp
next
  case (Cons b bs)
  have b: "unat b = 255 \<longleftrightarrow> b = 0xFF" by (simp add: word_unat_eq_iff)
  have lt: "unat b < 256" "le_value bs < 256 ^ length bs" by (simp_all add: le_value_bound)
  have "le_value (b # bs) = 256 ^ length (b # bs) - 1 \<longleftrightarrow>
      unat b = 255 \<and> le_value bs = 256 ^ length bs - 1"
    using max_digits [OF lt] by simp
  with Cons b show ?case by simp
qed

lemma byte_and_0x80_iff: "(b :: byte) AND 0x80 \<noteq> 0 \<longleftrightarrow> 128 \<le> unat b"
proof -
  have "b AND 0x80 \<noteq> 0 \<longleftrightarrow> bit b 7"
    using and_exp_eq_0_iff_not_bit [of b 7] by simp
  also have "\<dots> \<longleftrightarrow> bit (unat b) 7"
    by (simp add: bit_unsigned_iff)
  also have "\<dots> \<longleftrightarrow> odd (unat b div 128)"
    by (simp only: bit_iff_odd) simp
  also have "\<dots> \<longleftrightarrow> 128 \<le> unat b"
  proof -
    have "unat b div 128 = 1" if "128 \<le> unat b"
      using that unat_byte_bound [of b] by (intro div_nat_eqI) simp_all
    then show ?thesis by (cases "128 \<le> unat b") simp_all
  qed
  finally show ?thesis .
qed

lemma byte_ge_237_iff: "(b :: byte) \<ge> 0 - 19 \<longleftrightarrow> 237 \<le> unat b"
  by (simp add: word_le_nat_alt)

lemma split_key:
  assumes "length (k :: bytes) = 32"
  shows "k = k ! 0 # take 30 (drop 1 k) @ [k ! 31]"
proof -
  obtain b0 r where k: "k = b0 # r" and r: "length r = 31" using assms by (cases k) auto
  have "take 30 r @ [r ! 30] = take 31 r" using r take_Suc_conv_app_nth [of 30 r] by simp
  then show ?thesis using k r by simp
qed

lemma below_prime_arith:
  assumes "b < 256" "m < 256 ^ 30" "t < 256"
  shows "(\<not> (128 \<le> t \<or> (237 \<le> b \<and> m = 256 ^ 30 - 1 \<and> t = 127)))
     \<longleftrightarrow> b + 256 * (m + 256 ^ 30 * t) < (2 ^ 255 - 19 :: nat)"
proof -
  consider "t \<le> 126" | "t = 127" | "128 \<le> t" using assms by linarith
  then show ?thesis
  proof cases
    case 1
    then show ?thesis using assms by simp
  next
    case 2
    then show ?thesis using assms by simp linarith
  next
    case 3
    then show ?thesis using assms by simp
  qed
qed

text \<open>The range check on a public key, done on the bytes, is the comparison of the
  little-endian number with the field prime \<open>2^255 - 19\<close>: a key passes exactly when its encoding
  is reduced.\<close>

theorem scalar_is_in_range_iff:
  assumes "public_key_ok k"
  shows "PublicKey_scalar_is_in_range k \<longleftrightarrow> le_value (public_key_bytes k) < 2 ^ 255 - 19"
proof -
  define bs where "bs = public_key_bytes k"
  define mid where "mid = take 30 (drop 1 bs)"
  have l: "length bs = 32" using assms by (simp add: bs_def public_key_ok_def)
  have lm: "length mid = 30" using l by (simp add: mid_def)
  have v: "le_value bs = unat (bs ! 0) + 256 * (le_value mid + 256 ^ 30 * unat (bs ! 31))"
  proof -
    have "le_value bs = le_value (bs ! 0 # mid @ [bs ! 31])"
      by (rule arg_cong [OF split_key [OF l, folded mid_def]])
    then show ?thesis by (simp add: le_value_append lm)
  qed
  have m: "mid = replicate 30 0xFF \<longleftrightarrow> le_value mid = 256 ^ 30 - 1"
    using le_value_max_iff [of mid] unfolding lm by (rule sym)
  have t: "bs ! 31 = 0x7F \<longleftrightarrow> unat (bs ! 31) = 127" by (simp add: word_unat_eq_iff)
  have "PublicKey_scalar_is_in_range k \<longleftrightarrow>
      \<not> (128 \<le> unat (bs ! 31) \<or> (237 \<le> unat (bs ! 0) \<and> le_value mid = 256 ^ 30 - 1 \<and> unat (bs ! 31) = 127))"
    unfolding PublicKey_scalar_is_in_range_def Let_def bs_def [symmetric] mid_def [symmetric]
      byte_and_0x80_iff byte_ge_237_iff m t ..
  also have "\<dots> \<longleftrightarrow> le_value bs < 2 ^ 255 - 19"
    unfolding v
    by (rule below_prime_arith) (use le_value_bound [of mid] lm in simp_all)
  finally show ?thesis by (simp add: bs_def)
qed

theorem scalar_is_in_range_iff_witness:
  "PublicKey_scalar_is_in_range (DjbPublicKey (replicate 32 0))"
proof -
  have "public_key_ok (DjbPublicKey (replicate 32 0))" by (simp add: public_key_ok_def)
  moreover have "le_value (replicate n 0) = 0" for n by (induction n) simp_all
  ultimately show ?thesis using scalar_is_in_range_iff [of "DjbPublicKey (replicate 32 0)"] by simp
qed

section \<open>Agreement\<close>

text \<open>What the X25519 code relies on: agreement commutes and yields 32 bytes, clamping is
  idempotent and keeps the length.\<close>

definition x25519_laws :: "'r Ext \<Rightarrow> bool" where
  "x25519_laws E \<longleftrightarrow>
     (\<forall>a b. x_x25519 E a (x_x25519_base E b) = x_x25519 E b (x_x25519_base E a)) \<and>
     (\<forall>a. length (x_x25519_base E a) = 32) \<and>
     (\<forall>a. x_clamp_integer E (x_clamp_integer E a) = x_clamp_integer E a) \<and>
     (\<forall>a. length (x_clamp_integer E a) = length a)"

definition key_pair_ok :: "'r Ext \<Rightarrow> KeyPair \<Rightarrow> bool" where
  "key_pair_ok E kp \<longleftrightarrow> PrivateKey_public_key E (kp_private_key kp) = Inr (kp_public_key kp)"

lemma PrivateKey_public_key_ok:
  "\<lbrakk>x25519_laws E; PrivateKey_public_key E k = Inr p\<rbrakk> \<Longrightarrow> public_key_ok p"
  by (auto simp: PrivateKey_public_key_def x25519_laws_def public_key_ok_def)

lemma key_pair_public_ok:
  "\<lbrakk>x25519_laws E; key_pair_ok E kp\<rbrakk> \<Longrightarrow> public_key_ok (kp_public_key kp)"
  using PrivateKey_public_key_ok by (auto simp: key_pair_ok_def)

lemma KeyPair_generate_ok:
  "\<lbrakk>x25519_laws E; KeyPair_generate E rng = (kp, rng')\<rbrakk> \<Longrightarrow> key_pair_ok E kp"
  by (auto simp: KeyPair_generate_def key_pair_ok_def PrivateKey_public_key_def x25519_laws_def
      curve25519_PrivateKey_from_def Let_def split: prod.splits)

lemma calculate_agreement_commutes:
  "\<lbrakk>x25519_laws E; key_pair_ok E a; key_pair_ok E b\<rbrakk> \<Longrightarrow>
   PrivateKey_calculate_agreement E (kp_private_key a) (kp_public_key b) =
   PrivateKey_calculate_agreement E (kp_private_key b) (kp_public_key a)"
  by (auto simp: PrivateKey_calculate_agreement_def key_pair_ok_def PrivateKey_public_key_def
      x25519_laws_def Let_def dest!: sym [of _ "kp_public_key _"])

lemma calculate_agreement_no_panic: "\<not> is_panic (PrivateKey_calculate_agreement E k p)"
  by (simp add: PrivateKey_calculate_agreement_def Let_def)

lemma calculate_agreement_not_zero:
  "PrivateKey_calculate_agreement E k p = Inr s \<Longrightarrow> s \<noteq> replicate 32 0"
  by (auto simp: PrivateKey_calculate_agreement_def Let_def split: if_splits)

section \<open>Signatures verify\<close>

text \<open>What XEdDSA relies on in dalek: encodings have 32 bytes and scalars are reduced, the
  Montgomery form of a public key converts to the Edwards point of the same secret with the given
  sign, and \<open>[h a + r] B - [h] A = [r] B\<close>.\<close>

definition edwards_laws :: "'r Ext \<Rightarrow> bool" where
  "edwards_laws E \<longleftrightarrow>
     (\<forall>a. length (x_ed_mul_base E a) = 32) \<and>
     (\<forall>h a r. length (x_scalar_mul_add E h a r) = 32 \<and> x_scalar_mul_add E h a r ! 31 AND 0xE0 = 0) \<and>
     (\<forall>k. let P = x_ed_mul_base E (x_scalar_mod_order E k)
          in x_mont_to_edwards E (x_x25519_base E k) (drop_bit 7 (P ! 31 AND 0x80)) = Some P) \<and>
     (\<forall>h a r. x_ed_double_mul_base E h (x_ed_neg E (x_ed_mul_base E a))
                (x_scalar_mod_order E (x_scalar_mul_add E h a r)) = x_ed_mul_base E r)"

lemma sign_bit_mask: "((x AND 0x7F) OR (p AND 0x80)) AND 0x80 = (p AND 0x80 :: byte)"
  by (simp add: bit.conj_disj_distrib2 and.assoc)

lemma reduced_top_byte:
  assumes "x AND 0xE0 = (0 :: byte)"
  shows "((x AND 0x7F) OR (p AND 0x80)) AND 0x7F = x"
proof -
  have "(0xE0 OR 0x1F) = (- 1 :: byte)" by simp
  then have "x = x AND (0xE0 OR 0x1F)" by (simp only: and.right_neutral)
  also have "\<dots> = x AND 0x1F" using assms by (simp only: bit.conj_disj_distrib) simp
  finally have x: "x = x AND 0x1F" .
  have "((x AND 0x7F) OR (p AND 0x80)) AND 0x7F = x AND 0x7F"
    by (simp add: bit.conj_disj_distrib2 and.assoc)
  also have "\<dots> = x" by (subst (1 2) x) (simp add: and.assoc)
  finally show ?thesis .
qed

text \<open>A signature made with a private key verifies, for the same message pieces, under the
  public key of that private key, whatever the randomness.\<close>

lemma xeddsa_verifies:
  assumes "edwards_laws E" and "PrivateKey_public_key E k = Inr pk"
    and "PrivateKey_calculate_signature_for_multipart_message E k message rng = (sig, rng')"
  shows "\<exists>s. sig = Inr s \<and> length s = 64
    \<and> PublicKey_verify_signature_for_multipart_message E pk message s"
proof -
  define key where "key = curve25519_PrivateKey_from E (private_key_bytes k)"
  define a where "a = x_scalar_mod_order E key"
  define P where "P = x_ed_mul_base E a"
  obtain rand rng1 where fill: "x_fill_bytes E 64 rng = (rand, rng1)" by fastforce
  define r where "r = x_scalar_from_hash E
    (x_sha512 E (xeddsa_hash_prefix @ key @ concat message @ rand))"
  define R where "R = x_ed_mul_base E r"
  define h where "h = x_scalar_from_hash E (x_sha512 E (R @ P @ concat message))"
  define S where "S = x_scalar_mul_add E h a r"
  define top where "top = (S ! 31 AND 0x7F) OR (P ! 31 AND 0x80)"
  have lR: "length R = 32" and lS: "length S = 32" and red: "S ! 31 AND 0xE0 = 0"
    using assms(1) by (simp_all add: edwards_laws_def R_def S_def)
  have mont: "x_mont_to_edwards E (x_x25519_base E key) (drop_bit 7 (P ! 31 AND 0x80)) = Some P"
    using assms(1) by (auto simp: edwards_laws_def P_def a_def Let_def)
  have chk: "x_ed_double_mul_base E h (x_ed_neg E P) (x_scalar_mod_order E S) = R"
    using assms(1) by (simp add: edwards_laws_def P_def S_def R_def)
  have s: "sig = Inr (R @ S[31 := top])"
    using assms(3)
    by (auto simp: PrivateKey_calculate_signature_for_multipart_message_def fill
        curve25519_calculate_signature_def Let_def lR lS top_def list_update_append nth_append
        simp flip: key_def a_def P_def r_def R_def h_def S_def)
  have pk: "pk = DjbPublicKey (x_x25519_base E key)"
    using assms(2) by (simp add: PrivateKey_public_key_def key_def)
  have t: "top AND 0x80 = P ! 31 AND 0x80" "top AND 0x7F = S ! 31"
    by (simp_all add: top_def sign_bit_mask reduced_top_byte [OF red])
  have "PublicKey_verify_signature_for_multipart_message E pk message (R @ S[31 := top])"
    by (simp add: PublicKey_verify_signature_for_multipart_message_def pk
        curve25519_verify_signature_def lR lS nth_append t mont [simplified] red Let_def chk h_def [symmetric])
  then show ?thesis using s lR lS by simp
qed

end
