(* ===== verification/Signal_Error.thy ===== *)
theory Signal_Error
  imports Address Curve
begin

text \<open>
  \<open>rust/protocol/src/error.rs\<close>: the error type of the protocol crate and the conversions into
  it that \<open>?\<close> performs, with \<open>CiphertextMessageType\<close> of \<open>protocol.rs\<close>, \<open>kem::KeyType\<close> and the
  session errors of \<open>state/session.rs\<close>. The boxed cause of a callback error is a string.
\<close>

datatype CiphertextMessageType = WhisperType | PreKeyType | SenderKeyType | PlaintextType

fun CiphertextMessageType_value :: "CiphertextMessageType \<Rightarrow> byte" where
  "CiphertextMessageType_value WhisperType = 2"
| "CiphertextMessageType_value PreKeyType = 3"
| "CiphertextMessageType_value SenderKeyType = 7"
| "CiphertextMessageType_value PlaintextType = 8"

text \<open>The default build has one KEM; Kyber768 and ML-KEM are behind cargo features.\<close>

datatype KemKeyType = Kyber1024

record SessionNotFound =
  snf_address :: "ProtocolAddress option"
  snf_op :: string

definition SessionNotFound_without_address :: "string \<Rightarrow> SessionNotFound" where
  "SessionNotFound_without_address op = \<lparr>snf_address = None, snf_op = op\<rparr>"

definition SessionNotFound_new :: "ProtocolAddress \<Rightarrow> string \<Rightarrow> SessionNotFound" where
  "SessionNotFound_new address op = \<lparr>snf_address = Some address, snf_op = op\<rparr>"

datatype SignalProtocolError =
    InvalidArgument string
  | InvalidState string string
  | InvalidProtobufEncoding
  | CiphertextMessageTooShort nat
  | LegacyCiphertextVersion byte
  | UnrecognizedCiphertextVersion byte
  | UnrecognizedMessageVersion u32
  | NoKeyTypeIdentifier
  | BadKeyType byte
  | BadKeyLength KeyType nat
  | InvalidKeyAgreement
  | SignatureValidationFailed
  | UntrustedIdentity ProtocolAddress
  | InvalidPreKeyId
  | InvalidSignedPreKeyId
  | InvalidKyberPreKeyId
  | InvalidMacKeyLength nat
  | NoSenderKeyState bytes
  | InvalidProtocolAddress string u32
  | SessionNotFoundError SessionNotFound
  | InvalidSessionStructure string
  | InvalidSenderKeySession bytes
  | InvalidRegistrationId ProtocolAddress u32
  | DuplicatedMessage u32 u32
  | InvalidMessage CiphertextMessageType string
  | FfiBindingError string
  | ApplicationCallbackError string string
  | InvalidSealedSenderMessage string
  | UnknownSealedSenderVersion byte
  | SealedSenderSelfSend
  | UnknownSealedSenderServerCertificateId u32
  | BadKEMKeyType byte
  | WrongKEMKeyType byte byte
  | BadKEMKeyLength KemKeyType nat
  | BadKEMCiphertextLength KemKeyType nat

type_synonym 'a signal_result = "(SignalProtocolError, 'a) rresult"

fun SignalProtocolError_from_CurveError :: "CurveError \<Rightarrow> SignalProtocolError" where
  "SignalProtocolError_from_CurveError CurveNoKeyTypeIdentifier = NoKeyTypeIdentifier"
| "SignalProtocolError_from_CurveError (CurveBadKeyType raw) = BadKeyType raw"
| "SignalProtocolError_from_CurveError (CurveBadKeyLength key_type len) = BadKeyLength key_type len"
| "SignalProtocolError_from_CurveError CurveInvalidKeyAgreement = InvalidKeyAgreement"

abbreviation curve_err :: "'a curve_result \<Rightarrow> 'a signal_result" where
  "curve_err \<equiv> map_err SignalProtocolError_from_CurveError"

datatype InvalidSessionError = InvalidSessionError string

type_synonym 'a session_result = "(InvalidSessionError, 'a) rresult"

fun SignalProtocolError_from_InvalidSessionError :: "InvalidSessionError \<Rightarrow> SignalProtocolError" where
  "SignalProtocolError_from_InvalidSessionError (InvalidSessionError e) = InvalidSessionStructure e"

abbreviation session_err :: "'a session_result \<Rightarrow> 'a signal_result" where
  "session_err \<equiv> map_err SignalProtocolError_from_InvalidSessionError"

text \<open>\<open>try_into::<[u8; N]>\<close> on a slice.\<close>

definition to_array :: "nat \<Rightarrow> bytes \<Rightarrow> bytes option" where
  "to_array n bs = (if length bs = n then Some bs else None)"

lemma to_array_simps [simp]:
  "to_array n bs = Some a \<longleftrightarrow> length bs = n \<and> a = bs"
  "to_array n bs = None \<longleftrightarrow> length bs \<noteq> n"
  by (auto simp: to_array_def)

text \<open>Replacing an error that is discarded by the closure of \<open>map_err(|_| e)\<close>.\<close>

abbreviation or_err :: "'g \<Rightarrow> ('e, 'a) rresult \<Rightarrow> ('g, 'a) rresult" where
  "or_err e \<equiv> map_err (\<lambda>_. e)"

end
