(* ===== verification/Kem.thy ===== *)
theory Kem
  imports Signal_Error Concrete_Externals
begin

text \<open>
  \<open>rust/protocol/src/kem.rs\<close> and \<open>kem/kyber1024.rs\<close>: KEM keys and ciphertexts with their type
  byte, key pairs, encapsulation and decapsulation. The phantom kind of a \<open>Key<T>\<close> is the \<open>KeyKind\<close>
  argument of \<open>deserialize\<close>.
\<close>

fun KemKeyType_value :: "KemKeyType \<Rightarrow> byte" where
  "KemKeyType_value Kyber1024 = 0x08"

definition KemKeyType_try_from :: "byte \<Rightarrow> KemKeyType signal_result" where
  "KemKeyType_try_from x = (if x = 0x08 then Inr Kyber1024 else Inl (Err (BadKEMKeyType x)))"

datatype KeyKind = Public | Secret

fun key_length :: "'r Ext \<Rightarrow> KeyKind \<Rightarrow> KemKeyType \<Rightarrow> nat" where
  "key_length E Public Kyber1024 = x_kem_public_key_len E"
| "key_length E Secret Kyber1024 = x_kem_secret_key_len E"

record KemKey =
  kem_key_type :: KemKeyType
  kem_key_data :: bytes

definition KemKey_deserialize :: "'r Ext \<Rightarrow> KeyKind \<Rightarrow> bytes \<Rightarrow> KemKey signal_result" where
  "KemKey_deserialize E kind value =
     (if value = [] then Inl (Err NoKeyTypeIdentifier)
      else try_bind (index_at value 0) (\<lambda>first_byte. try_bind (KemKeyType_try_from first_byte) (\<lambda>key_type.
        if length value \<noteq> key_length E kind key_type + 1
        then Inl (Err (BadKEMKeyLength key_type (length value)))
        else try_bind (slice_from value 1) (\<lambda>data. Inr \<lparr>kem_key_type = key_type, kem_key_data = data\<rparr>))))"

definition KemKey_serialize :: "KemKey \<Rightarrow> bytes" where
  "KemKey_serialize k = KemKeyType_value (kem_key_type k) # kem_key_data k"

text \<open>\<open>kyber1024::Parameters\<close> behind \<open>DynParameters\<close>.\<close>

definition kyber1024_generate :: "'r Ext \<Rightarrow> 'r \<Rightarrow> (bytes \<times> bytes) \<times> 'r" where
  "kyber1024_generate E rng = (let (seed, rng') = x_random_bytes E 64 rng in (x_kem_generate E seed, rng'))"

definition kyber1024_encapsulate ::
    "'r Ext \<Rightarrow> bytes \<Rightarrow> 'r \<Rightarrow> (bytes \<times> bytes) signal_result \<times> 'r" where
  "kyber1024_encapsulate E pub_key rng =
     (if length pub_key \<noteq> x_kem_public_key_len E
      then (Inl (Err (BadKEMKeyLength Kyber1024 (length pub_key))), rng)
      else let (r, rng') = x_random_bytes E 32 rng; (ct, ss) = x_kem_encapsulate E pub_key r
           in (Inr (ss, ct), rng'))"

definition kyber1024_decapsulate :: "'r Ext \<Rightarrow> bytes \<Rightarrow> bytes \<Rightarrow> bytes signal_result" where
  "kyber1024_decapsulate E secret_key ciphertext =
     (if length secret_key \<noteq> x_kem_secret_key_len E
      then Inl (Err (BadKEMKeyLength Kyber1024 (length secret_key)))
      else if length ciphertext \<noteq> x_kem_ciphertext_len E
      then Inl (Err (BadKEMCiphertextLength Kyber1024 (length ciphertext)))
      else Inr (x_kem_decapsulate E secret_key ciphertext))"

record KemCiphertext =
  kct_key_type :: KemKeyType
  kct_data :: bytes

definition Ciphertext_deserialize :: "'r Ext \<Rightarrow> bytes \<Rightarrow> KemCiphertext signal_result" where
  "Ciphertext_deserialize E value =
     (if value = [] then Inl (Err NoKeyTypeIdentifier)
      else try_bind (index_at value 0) (\<lambda>first_byte. try_bind (KemKeyType_try_from first_byte) (\<lambda>key_type.
        if length value \<noteq> x_kem_ciphertext_len E + 1
        then Inl (Err (BadKEMCiphertextLength key_type (length value)))
        else try_bind (slice_from value 1) (\<lambda>data. Inr \<lparr>kct_key_type = key_type, kct_data = data\<rparr>))))"

definition Ciphertext_serialize :: "KemCiphertext \<Rightarrow> bytes" where
  "Ciphertext_serialize c = KemKeyType_value (kct_key_type c) # kct_data c"

definition KemKey_encapsulate :: "'r Ext \<Rightarrow> KemKey \<Rightarrow> 'r \<Rightarrow> (bytes \<times> bytes) signal_result \<times> 'r" where
  "KemKey_encapsulate E k rng =
     (let (r, rng') = kyber1024_encapsulate E (kem_key_data k) rng
      in (try_bind r (\<lambda>(ss, ct).
            Inr (ss, Ciphertext_serialize \<lparr>kct_key_type = kem_key_type k, kct_data = ct\<rparr>)), rng'))"

definition KemKey_decapsulate :: "'r Ext \<Rightarrow> KemKey \<Rightarrow> bytes \<Rightarrow> bytes signal_result" where
  "KemKey_decapsulate E k ct_bytes =
     try_bind (Ciphertext_deserialize E ct_bytes) (\<lambda>ct.
       if kct_key_type ct \<noteq> kem_key_type k
       then Inl (Err (WrongKEMKeyType (KemKeyType_value (kct_key_type ct)) (KemKeyType_value (kem_key_type k))))
       else kyber1024_decapsulate E (kem_key_data k) (kct_data ct))"

record KemKeyPair =
  kem_public_key :: KemKey
  kem_secret_key :: KemKey

definition KemKeyPair_generate :: "'r Ext \<Rightarrow> KemKeyType \<Rightarrow> 'r \<Rightarrow> KemKeyPair \<times> 'r" where
  "KemKeyPair_generate E key_type rng =
     (let ((pk, sk), rng') = kyber1024_generate E rng
      in (\<lparr>kem_public_key = \<lparr>kem_key_type = key_type, kem_key_data = pk\<rparr>,
           kem_secret_key = \<lparr>kem_key_type = key_type, kem_key_data = sk\<rparr>\<rparr>, rng'))"

definition KemKeyPair_from_public_and_private ::
    "'r Ext \<Rightarrow> bytes \<Rightarrow> bytes \<Rightarrow> KemKeyPair signal_result" where
  "KemKeyPair_from_public_and_private E public_key secret_key =
     try_bind (KemKey_deserialize E Public public_key) (\<lambda>pk.
     try_bind (KemKey_deserialize E Secret secret_key) (\<lambda>sk.
       if kem_key_type pk \<noteq> kem_key_type sk
       then Inl (Err (WrongKEMKeyType (KemKeyType_value (kem_key_type sk)) (KemKeyType_value (kem_key_type pk))))
       else Inr \<lparr>kem_public_key = pk, kem_secret_key = sk\<rparr>))"

section \<open>Round trips\<close>

lemma KemKey_roundtrip:
  "length (kem_key_data k) = key_length E kind (kem_key_type k) \<Longrightarrow>
   KemKey_deserialize E kind (KemKey_serialize k) = Inr k"
  by (cases "kem_key_type k") (simp add: KemKey_deserialize_def KemKey_serialize_def KemKeyType_try_from_def)

lemma KemKey_serialize_inj: "KemKey_serialize k = KemKey_serialize l \<longleftrightarrow> k = l"
  by (cases k; cases l; cases "kem_key_type k"; cases "kem_key_type l") (auto simp: KemKey_serialize_def)

text \<open>A pair is good when it came out of \<open>generate\<close>.\<close>

definition kem_pair_ok :: "'r Ext \<Rightarrow> KemKeyPair \<Rightarrow> bool" where
  "kem_pair_ok E kp \<longleftrightarrow>
     (\<exists>seed. x_kem_generate E seed = (kem_key_data (kem_public_key kp), kem_key_data (kem_secret_key kp)))"

lemma KemKeyPair_generate_ok: "KemKeyPair_generate E t rng = (kp, rng') \<Longrightarrow> kem_pair_ok E kp"
  by (auto simp: KemKeyPair_generate_def kyber1024_generate_def kem_pair_ok_def Let_def split: prod.splits)

lemma all_kyber [simp]: "((t :: KemKeyType) = u) = True" "KemKeyType_value t = 0x08"
  by (cases t; cases u; simp)+

lemma KemKey_decapsulate_encapsulate:
  assumes "kem_laws E" and "kem_pair_ok E kp"
  shows "\<exists>ss ct rng'. KemKey_encapsulate E (kem_public_key kp) rng = (Inr (ss, ct), rng')
    \<and> KemKey_decapsulate E (kem_secret_key kp) ct = Inr ss"
proof -
  obtain seed where g: "x_kem_generate E seed =
      (kem_key_data (kem_public_key kp), kem_key_data (kem_secret_key kp))"
    using assms(2) by (auto simp: kem_pair_ok_def)
  obtain r rng' where r: "x_random_bytes E 32 rng = (r, rng')" by fastforce
  obtain ct ss where e: "x_kem_encapsulate E (kem_key_data (kem_public_key kp)) r = (ct, ss)" by fastforce
  have laws: "length (kem_key_data (kem_public_key kp)) = x_kem_public_key_len E"
    "length (kem_key_data (kem_secret_key kp)) = x_kem_secret_key_len E"
    "length ct = x_kem_ciphertext_len E" "x_kem_decapsulate E (kem_key_data (kem_secret_key kp)) ct = ss"
    using assms(1) g e by (fastforce simp: kem_laws_def split: prod.splits)+
  show ?thesis
    using laws by (simp add: KemKey_encapsulate_def kyber1024_encapsulate_def r e KemKey_decapsulate_def
        kyber1024_decapsulate_def Ciphertext_serialize_def Ciphertext_deserialize_def KemKeyType_try_from_def)
qed

end
