(* ===== verification/Crypto.thy ===== *)
theory Crypto
  imports Kem
begin

text \<open>
  \<open>rust/crypto/src/aes_cbc.rs\<close>, \<open>rust/protocol/src/crypto.rs\<close> and
  \<open>rust/protocol/src/identity_key.rs\<close>: AES-CBC with its length checks, AES-CTR with a truncated
  HMAC (encrypt-then-MAC), identity keys and alternate-identity signatures.
\<close>

section \<open>AES-CBC\<close>

datatype CbcEncryptionError = EncBadKeyOrIv
datatype CbcDecryptionError = BadKeyOrIv | BadCiphertext string

definition aes_256_cbc_encrypt ::
    "'r Ext \<Rightarrow> bytes \<Rightarrow> bytes \<Rightarrow> bytes \<Rightarrow> (CbcEncryptionError, bytes) rresult" where
  "aes_256_cbc_encrypt E ptext key iv =
     (if length key \<noteq> 32 \<or> length iv \<noteq> 16 then Inl (Err EncBadKeyOrIv)
      else Inr (x_cbc_encrypt E key iv ptext))"

definition aes_256_cbc_decrypt ::
    "'r Ext \<Rightarrow> bytes \<Rightarrow> bytes \<Rightarrow> bytes \<Rightarrow> (CbcDecryptionError, bytes) rresult" where
  "aes_256_cbc_decrypt E ctext key iv =
     (if ctext = [] \<or> length ctext mod 16 \<noteq> 0
      then Inl (Err (BadCiphertext ''ciphertext length must be a non-zero multiple of 16''))
      else if length key \<noteq> 32 \<or> length iv \<noteq> 16 then Inl (Err BadKeyOrIv)
      else ok_or (BadCiphertext ''failed to decrypt'') (x_cbc_decrypt E key iv ctext))"

lemma aes_256_cbc_roundtrip:
  "\<lbrakk>cbc_laws E; length key = 32; length iv = 16\<rbrakk> \<Longrightarrow>
   \<exists>c. aes_256_cbc_encrypt E p key iv = Inr c \<and> aes_256_cbc_decrypt E c key iv = Inr p"
  by (auto simp: aes_256_cbc_encrypt_def aes_256_cbc_decrypt_def cbc_laws_def)

lemma aes_256_cbc_no_panic:
  "\<not> is_panic (aes_256_cbc_encrypt E p key iv)" "\<not> is_panic (aes_256_cbc_decrypt E c key iv)"
  by (auto simp: aes_256_cbc_encrypt_def aes_256_cbc_decrypt_def ok_or_def split: option.splits)

section \<open>AES-CTR with HMAC\<close>

definition aes_256_ctr_encrypt :: "'r Ext \<Rightarrow> bytes \<Rightarrow> bytes \<Rightarrow> (CbcEncryptionError, bytes) rresult" where
  "aes_256_ctr_encrypt E ptext key =
     (if length key \<noteq> 32 then Inl (Err EncBadKeyOrIv)
      else Inr (x_ctr_apply E key (replicate 16 0) ptext))"

definition aes_256_ctr_decrypt :: "'r Ext \<Rightarrow> bytes \<Rightarrow> bytes \<Rightarrow> (CbcDecryptionError, bytes) rresult" where
  "aes_256_ctr_decrypt E ctext key =
     map_err (\<lambda>e. case e of EncBadKeyOrIv \<Rightarrow> BadKeyOrIv) (aes_256_ctr_encrypt E ctext key)"

definition hmac_sha256 :: "'r Ext \<Rightarrow> bytes \<Rightarrow> bytes \<Rightarrow> bytes" where
  "hmac_sha256 E key input = x_hmac_sha256 E key input"

definition aes256_ctr_hmacsha256_encrypt ::
    "'r Ext \<Rightarrow> bytes \<Rightarrow> bytes \<Rightarrow> bytes \<Rightarrow> (CbcEncryptionError, bytes) rresult" where
  "aes256_ctr_hmacsha256_encrypt E msg cipher_key mac_key =
     try_bind (aes_256_ctr_encrypt E msg cipher_key) (\<lambda>ctext.
     Inr (ctext @ take 10 (hmac_sha256 E mac_key ctext)))"

definition aes256_ctr_hmacsha256_decrypt ::
    "'r Ext \<Rightarrow> bytes \<Rightarrow> bytes \<Rightarrow> bytes \<Rightarrow> (CbcDecryptionError, bytes) rresult" where
  "aes256_ctr_hmacsha256_decrypt E ctext cipher_key mac_key =
     (if length ctext < 10 then Inl (Err (BadCiphertext ''truncated ciphertext''))
      else let body = take (length ctext - 10) ctext; their_mac = drop (length ctext - 10) ctext;
               our_mac = hmac_sha256 E mac_key body
           in if take 10 our_mac \<noteq> their_mac then Inl (Err (BadCiphertext ''MAC verification failed''))
              else aes_256_ctr_decrypt E body cipher_key)"

text \<open>A CTR keystream is its own inverse.\<close>

definition ctr_laws :: "'r Ext \<Rightarrow> bool" where
  "ctr_laws E \<longleftrightarrow> (\<forall>k n d. x_ctr_apply E k n (x_ctr_apply E k n d) = d)"

text \<open>Encrypt-then-MAC with AES-CTR and HMAC-SHA256. Decryption accepts exactly the
  ciphertexts whose last ten bytes are the MAC of what precedes them, it returns what was encrypted,
  and the only ciphertext with a given body it accepts is the one encryption produced.\<close>

theorem ctr_hmac_decrypt_iff:
  assumes "ctr_laws E" "hash_lengths E" "length cipher_key = 32"
  shows "aes256_ctr_hmacsha256_decrypt E c cipher_key mac_key = Inr msg \<longleftrightarrow>
         aes256_ctr_hmacsha256_encrypt E msg cipher_key mac_key = Inr c"
proof
  assume d: "aes256_ctr_hmacsha256_decrypt E c cipher_key mac_key = Inr msg"
  define body where "body = take (length c - 10) c"
  have "length c \<ge> 10" and m: "take 10 (hmac_sha256 E mac_key body) = drop (length c - 10) c"
    and "msg = x_ctr_apply E cipher_key (replicate 16 0) body"
    using d assms(3) by (auto simp: aes256_ctr_hmacsha256_decrypt_def Let_def body_def
        aes_256_ctr_decrypt_def aes_256_ctr_encrypt_def split: if_splits)
  then show "aes256_ctr_hmacsha256_encrypt E msg cipher_key mac_key = Inr c"
    using assms(1,3) m by (simp add: aes256_ctr_hmacsha256_encrypt_def aes_256_ctr_encrypt_def
        ctr_laws_def) (simp add: body_def)
next
  assume "aes256_ctr_hmacsha256_encrypt E msg cipher_key mac_key = Inr c"
  then have c: "c = x_ctr_apply E cipher_key (replicate 16 0) msg @
      take 10 (hmac_sha256 E mac_key (x_ctr_apply E cipher_key (replicate 16 0) msg))"
    using assms(3) by (simp add: aes256_ctr_hmacsha256_encrypt_def aes_256_ctr_encrypt_def)
  show "aes256_ctr_hmacsha256_decrypt E c cipher_key mac_key = Inr msg"
    unfolding c using assms
    by (simp add: aes256_ctr_hmacsha256_decrypt_def Let_def hmac_sha256_def aes_256_ctr_decrypt_def
        aes_256_ctr_encrypt_def ctr_laws_def)
qed

theorem ctr_hmac_decrypt_iff_witness:
  "aes256_ctr_hmacsha256_decrypt concrete ([1, 2] @ take 10 (fit 32 ([1, 2] @ replicate 32 5)))
     (replicate 32 4) (replicate 32 5) = Inr [1, 2]"
proof -
  have "ctr_laws concrete" by (simp add: ctr_laws_def concrete_def)
  moreover have "aes256_ctr_hmacsha256_encrypt concrete [1, 2] (replicate 32 4) (replicate 32 5) =
      Inr ([1, 2] @ take 10 (fit 32 ([1, 2] @ replicate 32 5)))"
    by (simp add: aes256_ctr_hmacsha256_encrypt_def aes_256_ctr_encrypt_def hmac_sha256_def concrete_def)
  ultimately show ?thesis
    using ctr_hmac_decrypt_iff [of concrete "replicate 32 4" _ "replicate 32 5" "[1, 2]"]
      concrete_hash_lengths by simp
qed

section \<open>Identity keys\<close>

datatype IdentityKey = IdentityKey (identity_public_key: PublicKey)

definition ALTERNATE_IDENTITY_SIGNATURE_PREFIX_1 :: bytes where
  "ALTERNATE_IDENTITY_SIGNATURE_PREFIX_1 = replicate 32 0xFF"

text \<open>The bytes of a string literal.\<close>

definition ascii :: "string \<Rightarrow> bytes" where
  "ascii s = map (\<lambda>c. of_nat (of_char c)) s"

definition ALTERNATE_IDENTITY_SIGNATURE_PREFIX_2 :: bytes where
  "ALTERNATE_IDENTITY_SIGNATURE_PREFIX_2 = ascii ''Signal_PNI_Signature''"

definition IdentityKey_serialize :: "IdentityKey \<Rightarrow> bytes" where
  "IdentityKey_serialize k = PublicKey_serialize (identity_public_key k)"

definition IdentityKey_decode :: "bytes \<Rightarrow> IdentityKey signal_result" where
  "IdentityKey_decode value =
     try_bind (curve_err (PublicKey_deserialize value)) (\<lambda>pk. Inr (IdentityKey pk))"

definition IdentityKey_verify_alternate_identity ::
    "'r Ext \<Rightarrow> IdentityKey \<Rightarrow> IdentityKey \<Rightarrow> bytes \<Rightarrow> bool signal_result" where
  "IdentityKey_verify_alternate_identity E self other signature =
     Inr (PublicKey_verify_signature_for_multipart_message E (identity_public_key self)
       [ALTERNATE_IDENTITY_SIGNATURE_PREFIX_1, ALTERNATE_IDENTITY_SIGNATURE_PREFIX_2,
        IdentityKey_serialize other] signature)"

definition IdentityKey_is_same_account ::
    "'r Ext \<Rightarrow> IdentityKey \<Rightarrow> ProtocolAddress \<Rightarrow> IdentityKey \<Rightarrow> ProtocolAddress \<Rightarrow> bool" where
  "IdentityKey_is_same_account E self self_address other_key other_address =
     (if identity_public_key self \<noteq> identity_public_key other_key then False
      else case ServiceId_parse_from_service_id_string E (pa_name self_address) of
        None \<Rightarrow> False
      | Some self_service_id \<Rightarrow>
          (case ServiceId_parse_from_service_id_string E (pa_name other_address) of
             None \<Rightarrow> False
           | Some other_service_id \<Rightarrow> self_service_id = other_service_id))"

record IdentityKeyPair =
  ikp_identity_key :: IdentityKey
  ikp_priv_key :: PrivateKey

definition IdentityKeyPair_generate :: "'r Ext \<Rightarrow> 'r \<Rightarrow> IdentityKeyPair \<times> 'r" where
  "IdentityKeyPair_generate E rng = (let (keypair, rng') = KeyPair_generate E rng
     in (\<lparr>ikp_identity_key = IdentityKey (kp_public_key keypair),
          ikp_priv_key = kp_private_key keypair\<rparr>, rng'))"

definition IdentityKeyPair_serialize :: "'r Ext \<Rightarrow> IdentityKeyPair \<Rightarrow> bytes" where
  "IdentityKeyPair_serialize E k = x_encode_identity_key_pair E
     \<lparr>ikp_public_key = IdentityKey_serialize (ikp_identity_key k),
      ikp_private_key = PrivateKey_serialize (ikp_priv_key k)\<rparr>"

definition IdentityKeyPair_try_from :: "'r Ext \<Rightarrow> bytes \<Rightarrow> IdentityKeyPair signal_result" where
  "IdentityKeyPair_try_from E value =
     try_bind (ok_or InvalidProtobufEncoding (x_decode_identity_key_pair E value)) (\<lambda>structure.
     try_bind (IdentityKey_decode (ikp_public_key structure)) (\<lambda>identity_key.
     try_bind (curve_err (PrivateKey_deserialize E (ikp_private_key structure))) (\<lambda>private_key.
     Inr \<lparr>ikp_identity_key = identity_key, ikp_priv_key = private_key\<rparr>)))"

definition IdentityKeyPair_sign_alternate_identity ::
    "'r Ext \<Rightarrow> IdentityKeyPair \<Rightarrow> IdentityKey \<Rightarrow> 'r \<Rightarrow> bytes signal_result \<times> 'r" where
  "IdentityKeyPair_sign_alternate_identity E self other rng =
     (let (r, rng') = PrivateKey_calculate_signature_for_multipart_message E (ikp_priv_key self)
            [ALTERNATE_IDENTITY_SIGNATURE_PREFIX_1, ALTERNATE_IDENTITY_SIGNATURE_PREFIX_2,
             IdentityKey_serialize other] rng
      in (curve_err r, rng'))"

lemma IdentityKey_roundtrip [simp]:
  "public_key_ok (identity_public_key k) \<Longrightarrow> IdentityKey_decode (IdentityKey_serialize k) = Inr k"
  by (cases k) (simp add: IdentityKey_decode_def IdentityKey_serialize_def)

lemma IdentityKey_decode_ok:
  "IdentityKey_decode bs = Inr k \<Longrightarrow> public_key_ok (identity_public_key k)"
  by (auto simp: IdentityKey_decode_def res_simps dest: PublicKey_deserialize_ok)

lemma IdentityKey_decode_no_panic: "\<not> is_panic (IdentityKey_decode bs)"
  using PublicKey_deserialize_no_panic [of bs]
  by (auto simp: IdentityKey_decode_def is_panic_def map_err_def try_bind_def
      split: sum.splits failure.splits)

definition identity_pair_ok :: "'r Ext \<Rightarrow> IdentityKeyPair \<Rightarrow> bool" where
  "identity_pair_ok E k \<longleftrightarrow>
     PrivateKey_public_key E (ikp_priv_key k) = Inr (identity_public_key (ikp_identity_key k))"

lemma IdentityKeyPair_roundtrip:
  assumes "prost_laws E" "public_key_ok (identity_public_key (ikp_identity_key k))"
    and "length (private_key_bytes (ikp_priv_key k)) = 32"
    and "x_clamp_integer E (private_key_bytes (ikp_priv_key k)) = private_key_bytes (ikp_priv_key k)"
  shows "IdentityKeyPair_try_from E (IdentityKeyPair_serialize E k) = Inr k"
  using assms by (cases "ikp_priv_key k")
    (simp add: IdentityKeyPair_try_from_def IdentityKeyPair_serialize_def PrivateKey_deserialize_def
      PrivateKey_serialize_def)

text \<open>A signature by which one identity claims another verifies under the claiming
  identity, for every randomness: XEdDSA signatures made by \<open>calculate_signature\<close> satisfy
  \<open>verify_signature\<close>, and both sides frame the signed message alike.\<close>

theorem alternate_identity_verifies:
  assumes "edwards_laws E" and "identity_pair_ok E k"
    and "IdentityKeyPair_sign_alternate_identity E k other rng = (r, rng')"
  shows "\<exists>sig. r = Inr sig \<and> length sig = 64
    \<and> IdentityKey_verify_alternate_identity E (ikp_identity_key k) other sig = Inr True"
proof -
  obtain q where q: "PrivateKey_calculate_signature_for_multipart_message E (ikp_priv_key k)
      [ALTERNATE_IDENTITY_SIGNATURE_PREFIX_1, ALTERNATE_IDENTITY_SIGNATURE_PREFIX_2,
       IdentityKey_serialize other] rng = (q, rng')" and r: "r = curve_err q"
    using assms(3) by (auto simp: IdentityKeyPair_sign_alternate_identity_def split: prod.splits)
  from xeddsa_verifies [OF assms(1) assms(2) [unfolded identity_pair_ok_def] q] r
  show ?thesis by (auto simp: IdentityKey_verify_alternate_identity_def)
qed

lemma concrete_edwards_laws: "edwards_laws concrete"
  by (simp add: edwards_laws_def concrete_def)

lemma concrete_x25519_laws: "x25519_laws concrete"
proof -
  have "map2 (+) a b = map2 (+) b (a :: bytes)" if "length a = length b" for a b
    using that by (induction a b rule: list_induct2) (simp_all add: add.commute)
  then show ?thesis by (simp add: x25519_laws_def concrete_def)
qed

theorem alternate_identity_verifies_witness:
  "\<exists>k sig rng'. IdentityKeyPair_generate concrete 4 = (k, 5)
    \<and> IdentityKeyPair_sign_alternate_identity concrete k (ikp_identity_key k) 5 = (Inr sig, rng')
    \<and> IdentityKey_verify_alternate_identity concrete (ikp_identity_key k) (ikp_identity_key k) sig
        = Inr True"
proof -
  obtain k where k: "IdentityKeyPair_generate concrete 4 = (k, 5)"
    by (simp add: IdentityKeyPair_generate_def KeyPair_generate_def concrete_def Let_def)
  then have ok: "identity_pair_ok concrete k"
    by (auto simp: IdentityKeyPair_generate_def KeyPair_generate_def concrete_def Let_def
        identity_pair_ok_def PrivateKey_public_key_def curve25519_PrivateKey_from_def)
  obtain r rng' where
    s: "IdentityKeyPair_sign_alternate_identity concrete k (ikp_identity_key k) 5 = (r, rng')"
    by fastforce
  from alternate_identity_verifies [OF concrete_edwards_laws ok s] k s show ?thesis by auto
qed

end
