(* ===== verification/Key_Chain.thy ===== *)
theory Key_Chain
  imports Signal_Prelude
begin

text \<open>
  The contract that the two symmetric-key ratchets of the library share. A \<^emph>\<open>chain\<close> has a
  counter and a one-way step; each position yields one message key. A \<^emph>\<open>cache\<close> holds the
  keys of positions that were passed over, at most \<open>cap\<close> of them. A receiver looks behind the
  chain in the cache, or walks the chain forward and caches what it passes.

  The contract is provided twice by the code: by \<open>ChainKey\<close> with the \<open>message_keys\<close> of a
  receiver chain (theory \<open>Double_Ratchet\<close>) and by \<open>SenderChainKey\<close> with the
  \<open>sender_message_keys\<close> of a sender key state (theory \<open>Group_Cipher\<close>). What a receiver may rely
  on is proved here once: every key it is handed is the key of that position of the chain,
  no position is handed out twice, and within the cap no key is lost.
\<close>

section \<open>Chains\<close>

locale key_chain =
  fixes nxt :: "'c \<Rightarrow> 'f + 'c"
    and idx :: "'c \<Rightarrow> u32"
    and gen :: "'c \<Rightarrow> 'k"
    and kidx :: "'k \<Rightarrow> u32"
  assumes nxt_idx: "nxt c = Inr c' \<Longrightarrow> idx c' = idx c + 1"
    and nxt_fails_iff: "(\<exists>f. nxt c = Inl f) \<longleftrightarrow> idx c = - 1"
    and gen_idx: "kidx (gen c) = idx c"
begin

primrec advance :: "nat \<Rightarrow> 'c \<Rightarrow> 'f + 'c" where
  "advance 0 c = Inr c"
| "advance (Suc n) c = try_bind (nxt c) (advance n)"

text \<open>The message key of counter \<open>n\<close> on the chain that starts at \<open>c0\<close>.\<close>

definition key_at :: "'c \<Rightarrow> nat \<Rightarrow> 'k option" where
  "key_at c0 n = (if n < unat (idx c0) then None
     else case advance (n - unat (idx c0)) c0 of Inl _ \<Rightarrow> None | Inr c \<Rightarrow> Some (gen c))"

lemma nxt_unat: "nxt c = Inr c' \<Longrightarrow> unat (idx c') = Suc (unat (idx c))"
proof -
  assume s: "nxt c = Inr c'"
  then have "idx c \<noteq> - 1" using nxt_fails_iff [of c] by auto
  then show ?thesis using nxt_idx [OF s] by (simp add: unat_succ_u32)
qed

lemma nxt_Inr: "idx c \<noteq> - 1 \<Longrightarrow> \<exists>c'. nxt c = Inr c'"
  using nxt_fails_iff [of c] by (cases "nxt c") auto

lemma advance_append: "advance (m + n) c = try_bind (advance m c) (advance n)"
proof (induction m arbitrary: c)
  case 0
  then show ?case by simp
next
  case (Suc m)
  then show ?case by (cases "nxt c") simp_all
qed

lemma advance_Suc_right: "advance (Suc n) c = try_bind (advance n c) nxt"
proof -
  have "try_bind r (\<lambda>a. try_bind (nxt a) Inr) = try_bind r nxt" for r :: "'f + 'c"
  proof (cases r)
    case (Inr a)
    then show ?thesis by (cases "nxt a") simp_all
  qed simp
  moreover have "advance 1 = (\<lambda>a. try_bind (nxt a) Inr)"
  proof
    fix a show "advance 1 a = try_bind (nxt a) Inr"
      by (cases "nxt a") simp_all
  qed
  ultimately show ?thesis using advance_append [of n 1 c] by simp
qed

lemma advance_unat: "advance n c = Inr c' \<Longrightarrow> unat (idx c') = unat (idx c) + n"
proof (induction n arbitrary: c)
  case 0
  then show ?case by simp
next
  case (Suc n)
  then obtain d where "nxt c = Inr d" and "advance n d = Inr c'"
    by (auto simp: res_simps)
  with Suc.IH show ?case by (fastforce dest: nxt_unat)
qed

lemma advance_ok: "unat (idx c) + n < 4294967296 \<Longrightarrow> \<exists>c'. advance n c = Inr c'"
proof (induction n arbitrary: c)
  case 0
  then show ?case by simp
next
  case (Suc n)
  then have "idx c \<noteq> - 1" by (auto simp: u32_eq_minus_one_iff)
  then obtain d where d: "nxt c = Inr d" using nxt_Inr by blast
  then have "unat (idx d) + n < 4294967296" using Suc.prems nxt_unat by simp
  with Suc.IH d show ?case by simp
qed

lemma key_at_advance:
  "advance m c0 = Inr c \<Longrightarrow> unat (idx c) \<le> n \<Longrightarrow> key_at c0 n = key_at c n"
proof -
  assume a: "advance m c0 = Inr c" and n: "unat (idx c) \<le> n"
  then have i: "unat (idx c) = unat (idx c0) + m" by (simp add: advance_unat)
  then have "n - unat (idx c0) = m + (n - unat (idx c))" using n by simp
  then have "advance (n - unat (idx c0)) c0 = advance (n - unat (idx c)) c"
    using a by (simp add: advance_append)
  then show ?thesis using i n by (simp add: key_at_def)
qed

lemma key_at_idx: "key_at c (unat (idx c)) = Some (gen c)"
  by (simp add: key_at_def)

lemma key_at_kidx: "key_at c0 n = Some k \<Longrightarrow> unat (kidx k) = n"
  by (auto simp: key_at_def gen_idx split: if_splits sum.splits dest!: advance_unat)

lemma key_at_unique: "key_at c0 n = Some k \<Longrightarrow> key_at c0 n = Some k' \<Longrightarrow> k = k'"
  by simp

end

section \<open>Caches of skipped keys\<close>

locale key_cache =
  fixes kidx :: "'k \<Rightarrow> u32"
    and put :: "'k \<Rightarrow> 'k list \<Rightarrow> 'k list"
    and grab :: "u32 \<Rightarrow> 'k list \<Rightarrow> ('k \<times> 'k list) option"
    and cap :: nat
  assumes put_subset: "set (put k ks) \<subseteq> insert k (set ks)"
    and put_new: "k \<in> set (put k ks)"
    and put_keeps: "length ks < cap \<Longrightarrow> set ks \<subseteq> set (put k ks)"
    and put_length: "length ks \<le> cap \<Longrightarrow> length (put k ks) = min cap (Suc (length ks))"
    and put_distinct: "distinct (map kidx ks) \<Longrightarrow> kidx k \<notin> kidx ` set ks \<Longrightarrow>
      distinct (map kidx (put k ks))"
    and grab_None_iff: "grab n ks = None \<longleftrightarrow> n \<notin> kidx ` set ks"
    and grab_Some: "grab n ks = Some (k, ks') \<Longrightarrow> distinct (map kidx ks) \<Longrightarrow>
      k \<in> set ks \<and> kidx k = n \<and> set ks' = {x \<in> set ks. kidx x \<noteq> n} \<and> distinct (map kidx ks') \<and>
      length ks = Suc (length ks')"

section \<open>Receiving\<close>

locale receive_chain = key_chain nxt idx gen kidx + key_cache kidx put grab cap
  for nxt :: "'c \<Rightarrow> 'f + 'c" and idx :: "'c \<Rightarrow> u32" and gen :: "'c \<Rightarrow> 'k"
    and kidx :: "'k \<Rightarrow> u32" and put :: "'k \<Rightarrow> 'k list \<Rightarrow> 'k list"
    and grab :: "u32 \<Rightarrow> 'k list \<Rightarrow> ('k \<times> 'k list) option" and cap :: nat
begin

text \<open>\<open>n\<close> steps forward, caching the key of every position that is left behind.\<close>

primrec skip :: "nat \<Rightarrow> 'c \<Rightarrow> 'k list \<Rightarrow> ('f + 'c) \<times> 'k list" where
  "skip 0 c ks = (Inr c, ks)"
| "skip (Suc n) c ks =
     (case nxt c of Inl f \<Rightarrow> (Inl f, put (gen c) ks) | Inr c' \<Rightarrow> skip n c' (put (gen c) ks))"

text \<open>The key of counter \<open>n\<close>, the chain after it and the cache after it; \<open>None\<close> is a counter
  whose key is gone or that the chain cannot reach.\<close>

definition receive :: "u32 \<Rightarrow> 'c \<times> 'k list \<Rightarrow> ('k \<times> 'c \<times> 'k list) option" where
  "receive n s = (case s of (c, ks) \<Rightarrow>
     if n < idx c then map_option (\<lambda>(k, ks'). (k, c, ks')) (grab n ks)
     else case skip (unat n - unat (idx c)) c ks of
            (Inl _, _) \<Rightarrow> None
          | (Inr d, ks') \<Rightarrow> (case nxt d of Inl _ \<Rightarrow> None | Inr d' \<Rightarrow> Some (gen d, d', ks')))"

text \<open>The receiving state of the chain that starts at \<open>c0\<close>.\<close>

definition chain_inv :: "'c \<Rightarrow> 'c \<times> 'k list \<Rightarrow> bool" where
  "chain_inv c0 s = (case s of (c, ks) \<Rightarrow>
     unat (idx c0) \<le> unat (idx c) \<and> advance (unat (idx c) - unat (idx c0)) c0 = Inr c \<and>
     distinct (map kidx ks) \<and> length ks \<le> cap \<and>
     (\<forall>k \<in> set ks. kidx k < idx c \<and> key_at c0 (unat (kidx k)) = Some k))"

text \<open>Counter \<open>n\<close> has been used up: it is behind the chain and not in the cache.\<close>

definition gone :: "u32 \<Rightarrow> 'c \<times> 'k list \<Rightarrow> bool" where
  "gone n s = (case s of (c, ks) \<Rightarrow> n < idx c \<and> n \<notin> kidx ` set ks)"

lemma chain_inv_start: "chain_inv c0 (c0, [])"
  by (simp add: chain_inv_def)

lemma chain_inv_key: "chain_inv c0 (c, ks) \<Longrightarrow> key_at c0 (unat (idx c)) = Some (gen c)"
proof -
  assume "chain_inv c0 (c, ks)"
  then have "advance (unat (idx c) - unat (idx c0)) c0 = Inr c" by (simp add: chain_inv_def)
  from key_at_advance [OF this] show ?thesis by (simp add: key_at_idx)
qed

lemma chain_inv_step:
  assumes inv: "chain_inv c0 (c, ks)" and s: "nxt c = Inr c'"
  shows "chain_inv c0 (c', put (gen c) ks)" and "chain_inv c0 (c', ks)"
proof -
  note i = nxt_unat [OF s]
  have lt: "x < idx c \<Longrightarrow> x < idx c'" for x
    using i by (simp add: word_less_nat_alt)
  have cc: "idx c < idx c'" using i by (simp add: word_less_nat_alt)
  have le: "unat (idx c0) \<le> unat (idx c)"
    and adv: "advance (unat (idx c) - unat (idx c0)) c0 = Inr c"
    and d: "distinct (map kidx ks)" and len: "length ks \<le> cap"
    and keys: "\<forall>k \<in> set ks. kidx k < idx c \<and> key_at c0 (unat (kidx k)) = Some k"
    using inv by (simp_all add: chain_inv_def)
  have "unat (idx c') - unat (idx c0) = Suc (unat (idx c) - unat (idx c0))"
    using i le by simp
  then have adv': "advance (unat (idx c') - unat (idx c0)) c0 = Inr c'"
    using adv s by (simp add: advance_Suc_right del: advance.simps)
  have new: "kidx (gen c) \<notin> kidx ` set ks"
    using keys by (auto simp: gen_idx)
  have put_keys: "\<forall>k \<in> set (put (gen c) ks). kidx k < idx c' \<and> key_at c0 (unat (kidx k)) = Some k"
    using keys put_subset [of "gen c" ks] lt cc chain_inv_key [OF inv] by (auto simp: gen_idx)
  show "chain_inv c0 (c', ks)"
    using adv' d len keys lt i le by (auto simp: chain_inv_def)
  show "chain_inv c0 (c', put (gen c) ks)"
    using adv' put_distinct [OF d new] put_length [OF len, of "gen c"] put_keys i le
    by (simp add: chain_inv_def)
qed

lemma skip_inv:
  "chain_inv c0 (c, ks) \<Longrightarrow> skip n c ks = (Inr d, ks') \<Longrightarrow>
     chain_inv c0 (d, ks') \<and> advance n c = Inr d"
proof (induction n arbitrary: c ks)
  case 0
  then show ?case by simp
next
  case (Suc n)
  then obtain c' where "nxt c = Inr c'" and "skip n c' (put (gen c) ks) = (Inr d, ks')"
    by (auto split: sum.splits)
  with Suc.IH chain_inv_step(1) [OF Suc.prems(1)] show ?case by simp
qed

lemma skip_advance: "skip n c ks = (r, ks') \<Longrightarrow> advance n c = r"
proof (induction n arbitrary: c ks)
  case 0
  then show ?case by simp
next
  case (Suc n)
  show ?case
  proof (cases "nxt c")
    case (Inl f)
    with Suc.prems have "r = Inl f" by simp
    with Inl show ?thesis by simp
  next
    case (Inr c')
    with Suc show ?thesis by simp
  qed
qed

lemma skip_ok: "unat (idx c) + n < 4294967296 \<Longrightarrow> \<exists>d ks'. skip n c ks = (Inr d, ks')"
proof (induction n arbitrary: c ks)
  case 0
  then show ?case by simp
next
  case (Suc n)
  then have "idx c \<noteq> - 1" by (auto simp: u32_eq_minus_one_iff)
  then obtain c' where c': "nxt c = Inr c'" using nxt_Inr by blast
  then have "unat (idx c') + n < 4294967296" using Suc.prems nxt_unat by simp
  with Suc.IH c' show ?case by simp
qed

lemma skip_subset:
  "skip n c ks = (r, ks') \<Longrightarrow> set ks' \<subseteq> set ks \<union> {k. unat (idx c) \<le> unat (kidx k)}"
proof (induction n arbitrary: c ks)
  case 0
  then show ?case by simp
next
  case (Suc n)
  show ?case
  proof (cases "nxt c")
    case (Inl f)
    with Suc.prems put_subset [of "gen c" ks] show ?thesis by (auto simp: gen_idx)
  next
    case (Inr c')
    with Suc.prems have "skip n c' (put (gen c) ks) = (r, ks')" by simp
    from Suc.IH [OF this] nxt_unat [OF Inr] put_subset [of "gen c" ks]
    show ?thesis by (force simp: gen_idx)
  qed
qed

text \<open>Every received key is the chain's key of that counter, and the state stays good.\<close>

lemma receive_key:
  assumes inv: "chain_inv c0 s" and r: "receive n s = Some (k, s')"
  shows "chain_inv c0 s'" and "key_at c0 (unat n) = Some k" and "kidx k = n" and "gone n s'"
proof -
  obtain c ks where s: "s = (c, ks)" by (cases s)
  have all: "chain_inv c0 s' \<and> key_at c0 (unat n) = Some k \<and> gone n s'"
  proof (cases "n < idx c")
    case True
    with r s obtain ks' where g: "grab n ks = Some (k, ks')" and s': "s' = (c, ks')"
      by (auto simp: receive_def)
    have d: "distinct (map kidx ks)" using inv s by (simp add: chain_inv_def)
    show ?thesis
      using grab_Some [OF g d] inv True unfolding s s' chain_inv_def gone_def by auto
  next
    case False
    then have le: "unat (idx c) \<le> unat n" by (simp add: word_less_nat_alt)
    from False r s obtain d d' ks' where
      sk: "skip (unat n - unat (idx c)) c ks = (Inr d, ks')" and
      nx: "nxt d = Inr d'" and k: "k = gen d" and s': "s' = (d', ks')"
      by (auto simp: receive_def split: prod.splits sum.splits)
    from skip_inv [OF _ sk, of c0] inv s
    have dinv: "chain_inv c0 (d, ks')" and adv: "advance (unat n - unat (idx c)) c = Inr d"
      by simp_all
    have nd: "unat (idx d) = unat n" using advance_unat [OF adv] le by simp
    then have dn: "idx d = n" by (simp add: word_unat_eq_iff)
    have "n \<notin> kidx ` set ks'" using dinv dn by (auto simp: chain_inv_def)
    then have "gone n s'" using nxt_unat [OF nx] nd by (simp add: gone_def s' word_less_nat_alt)
    with chain_inv_step(2) [OF dinv nx] chain_inv_key [OF dinv] k s' nd show ?thesis by simp
  qed
  then show "chain_inv c0 s'" and key: "key_at c0 (unat n) = Some k" and "gone n s'" by simp_all
  show "kidx k = n" using key_at_kidx [OF key] by (simp add: word_unat_eq_iff)
qed

text \<open>A used counter stays used, whatever is received later, so no key is handed out twice.\<close>

lemma receive_gone_None: "gone n s \<Longrightarrow> receive n s = None"
  by (auto simp: receive_def gone_def grab_None_iff split: prod.splits)

lemma receive_keeps_gone:
  assumes inv: "chain_inv c0 s" and g: "gone n s" and r: "receive m s = Some (k, s')"
  shows "gone n s'"
proof -
  obtain c ks where s: "s = (c, ks)" by (cases s)
  show ?thesis
  proof (cases "m < idx c")
    case True
    with r s obtain ks' where gr: "grab m ks = Some (k, ks')" and s': "s' = (c, ks')"
      by (auto simp: receive_def)
    have "distinct (map kidx ks)" using inv s by (simp add: chain_inv_def)
    from grab_Some [OF gr this] g show ?thesis unfolding s s' gone_def by auto
  next
    case False
    from False r s obtain d d' ks' where
      sk: "skip (unat m - unat (idx c)) c ks = (Inr d, ks')" and
      nx: "nxt d = Inr d'" and s': "s' = (d', ks')"
      by (auto simp: receive_def split: prod.splits sum.splits)
    have n: "n < idx c" and nk: "n \<notin> kidx ` set ks" using g s by (simp_all add: gone_def)
    have "n \<notin> kidx ` set ks'"
      using skip_subset [OF sk] n nk by (force simp: word_less_nat_alt)
    moreover have "idx c \<le> idx d'"
      using nxt_unat [OF nx] advance_unat skip_inv [OF _ sk, of c0] inv s
      by (fastforce simp: word_le_nat_alt)
    ultimately show ?thesis using n by (simp add: gone_def s')
  qed
qed

text \<open>A run of receptions: the keys handed out, in order; failed receptions change nothing.\<close>

fun receive_all :: "u32 list \<Rightarrow> 'c \<times> 'k list \<Rightarrow> 'k option list \<times> 'c \<times> 'k list" where
  "receive_all [] s = ([], s)"
| "receive_all (n # ns) s = (case receive n s of
     None \<Rightarrow> (let (ks, s') = receive_all ns s in (None # ks, s'))
   | Some (k, s1) \<Rightarrow> (let (ks, s') = receive_all ns s1 in (Some k # ks, s')))"

lemma receive_all_keys:
  "chain_inv c0 s \<Longrightarrow> receive_all ns s = (ks, s') \<Longrightarrow>
     chain_inv c0 s' \<and> length ks = length ns \<and>
     (\<forall>i < length ns. \<forall>k. ks ! i = Some k \<longrightarrow> key_at c0 (unat (ns ! i)) = Some k)"
proof (induction ns arbitrary: s ks)
  case Nil
  then show ?case by simp
next
  case (Cons n ns)
  show ?case
  proof (cases "receive n s")
    case None
    with Cons.prems obtain ks1 where r: "receive_all ns s = (ks1, s')" and ks: "ks = None # ks1"
      by (auto split: prod.splits)
    from Cons.IH [OF Cons.prems(1) r] ks show ?thesis by (auto simp: nth_Cons split: nat.splits)
  next
    case (Some p)
    then obtain k s1 where p: "receive n s = Some (k, s1)" by (cases p) auto
    with Cons.prems obtain ks1 where r: "receive_all ns s1 = (ks1, s')" and ks: "ks = Some k # ks1"
      by (auto split: prod.splits)
    note k = receive_key [OF Cons.prems(1) p]
    from Cons.IH [OF k(1) r] k(2) ks show ?thesis by (auto simp: nth_Cons split: nat.splits)
  qed
qed

lemma receive_all_gone:
  "chain_inv c0 s \<Longrightarrow> gone n s \<Longrightarrow> receive_all ns s = (ks, s') \<Longrightarrow> gone n s' \<and>
     (\<forall>i < length ns. ns ! i = n \<longrightarrow> ks ! i = None)"
proof (induction ns arbitrary: s ks)
  case Nil
  then show ?case by simp
next
  case (Cons m ns)
  show ?case
  proof (cases "receive m s")
    case None
    with Cons.prems obtain ks1 where r: "receive_all ns s = (ks1, s')" and ks: "ks = None # ks1"
      by (auto split: prod.splits)
    from Cons.IH [OF Cons.prems(1,2) r] ks show ?thesis by (auto simp: nth_Cons split: nat.splits)
  next
    case (Some p)
    then obtain k s1 where p: "receive m s = Some (k, s1)" by (cases p) auto
    with Cons.prems obtain ks1 where r: "receive_all ns s1 = (ks1, s')" and ks: "ks = Some k # ks1"
      by (auto split: prod.splits)
    have "m \<noteq> n" using p receive_gone_None [OF Cons.prems(2)] by auto
    moreover note Cons.IH [OF receive_key(1) [OF Cons.prems(1) p]
        receive_keeps_gone [OF Cons.prems(1,2) p] r]
    ultimately show ?thesis using ks by (auto simp: nth_Cons split: nat.splits)
  qed
qed

text \<open>No counter is answered twice in any run.\<close>

lemma receive_all_once:
  "chain_inv c0 s \<Longrightarrow> receive_all ns s = (ks, s') \<Longrightarrow> i < j \<Longrightarrow> j < length ns \<Longrightarrow>
     ns ! i = ns ! j \<Longrightarrow> ks ! i \<noteq> None \<Longrightarrow> ks ! j = None"
proof (induction ns arbitrary: s ks i j)
  case Nil
  then show ?case by simp
next
  case (Cons n ns)
  obtain j' where j: "j = Suc j'" using Cons.prems(3) by (cases j) auto
  show ?case
  proof (cases "receive n s")
    case None
    with Cons.prems obtain ks1 where r: "receive_all ns s = (ks1, s')" and ks: "ks = None # ks1"
      by (auto split: prod.splits)
    obtain i' where i: "i = Suc i'" using Cons.prems(6) ks by (cases i) auto
    from Cons.IH [OF Cons.prems(1) r, of i' j'] Cons.prems i j ks show ?thesis by simp
  next
    case (Some p)
    then obtain k s1 where p: "receive n s = Some (k, s1)" by (cases p) auto
    with Cons.prems obtain ks1 where r: "receive_all ns s1 = (ks1, s')" and ks: "ks = Some k # ks1"
      by (auto split: prod.splits)
    note k = receive_key [OF Cons.prems(1) p]
    show ?thesis
    proof (cases i)
      case 0
      with receive_all_gone [OF k(1,4) r] Cons.prems j ks show ?thesis by auto
    next
      case (Suc i')
      with Cons.IH [OF k(1) r, of i' j'] Cons.prems j ks show ?thesis by simp
    qed
  qed
qed

text \<open>Within the cap nothing is lost: what is not used up stays available.\<close>

lemma chain_inv_span:
  assumes inv: "chain_inv c0 (c, ks)"
  shows "length ks \<le> unat (idx c) - unat (idx c0)"
proof -
  have d: "distinct (map kidx ks)"
    and keys: "\<forall>k \<in> set ks. kidx k < idx c \<and> key_at c0 (unat (kidx k)) = Some k"
    using inv by (simp_all add: chain_inv_def)
  have "unat (idx c0) \<le> unat (kidx k)" if "k \<in> set ks" for k
    using keys that by (auto simp: key_at_def split: if_splits)
  then have sub: "(unat \<circ> kidx) ` set ks \<subseteq> {unat (idx c0)..<unat (idx c)}"
    using keys by (auto simp: word_less_nat_alt)
  have "distinct (map (unat \<circ> kidx) ks)"
    using d by (simp add: distinct_map inj_on_def word_unat_eq_iff)
  then have "length ks = card ((unat \<circ> kidx) ` set ks)"
    by (metis distinct_card length_map list.set_map)
  also have "\<dots> \<le> card {unat (idx c0)..<unat (idx c)}"
    using sub by (intro card_mono) simp_all
  finally show ?thesis by simp
qed

lemma skip_keeps:
  "length ks + n \<le> cap \<Longrightarrow> skip n c ks = (Inr d, ks') \<Longrightarrow>
     set ks \<subseteq> set ks' \<and> (\<forall>m. idx c \<le> m \<longrightarrow> m < idx d \<longrightarrow> m \<in> kidx ` set ks')"
proof (induction n arbitrary: c ks)
  case 0
  then show ?case by auto
next
  case (Suc n)
  then obtain c' where nx: "nxt c = Inr c'" and sk: "skip n c' (put (gen c) ks) = (Inr d, ks')"
    by (auto split: sum.splits)
  have "length (put (gen c) ks) + n \<le> cap" using Suc.prems(1) put_length [of ks "gen c"] by simp
  from Suc.IH [OF this sk] have sub: "set (put (gen c) ks) \<subseteq> set ks'"
    and rest: "\<And>m. idx c' \<le> m \<Longrightarrow> m < idx d \<Longrightarrow> m \<in> kidx ` set ks'" by blast+
  have "idx c \<in> kidx ` set ks'"
    using sub put_new [of "gen c" ks] gen_idx [of c] by (metis image_eqI subsetD)
  moreover have "m = idx c \<or> idx c' \<le> m" if "idx c \<le> m" for m
    using that nxt_unat [OF nx] by (auto simp: word_le_nat_alt word_unat_eq_iff)
  ultimately have "\<forall>m. idx c \<le> m \<longrightarrow> m < idx d \<longrightarrow> m \<in> kidx ` set ks'"
    using rest by blast
  moreover have "set ks \<subseteq> set ks'" using put_keeps [of ks "gen c"] sub Suc.prems(1) by auto
  ultimately show ?case by blast
qed

lemma receive_complete:
  assumes inv: "chain_inv c0 s" and ng: "\<not> gone n s"
    and near: "unat n \<le> unat (idx c0) + cap" and top: "n \<noteq> - 1"
  shows "\<exists>k s'. receive n s = Some (k, s') \<and> (\<forall>m. m \<noteq> n \<longrightarrow> \<not> gone m s \<longrightarrow> \<not> gone m s')"
proof -
  obtain c ks where s: "s = (c, ks)" by (cases s)
  show ?thesis
  proof (cases "n < idx c")
    case True
    then obtain k ks' where g: "grab n ks = Some (k, ks')"
      using ng s grab_None_iff [of n ks] by (cases "grab n ks") (auto simp: gone_def)
    have "distinct (map kidx ks)" using inv s by (simp add: chain_inv_def)
    from grab_Some [OF g this] True g show ?thesis
      by (auto simp: receive_def s gone_def)
  next
    case False
    then have le: "unat (idx c) \<le> unat n" by (simp add: word_less_nat_alt)
    have room: "length ks + (unat n - unat (idx c)) \<le> cap"
      using chain_inv_span [of c0 c ks] inv s near le by (auto simp: chain_inv_def)
    obtain d ks' where sk: "skip (unat n - unat (idx c)) c ks = (Inr d, ks')"
      using skip_ok [of c "unat n - unat (idx c)" ks] le unat_u32_bound [of n] by auto
    from skip_inv [OF _ sk, of c0] inv s have "advance (unat n - unat (idx c)) c = Inr d" by simp
    from advance_unat [OF this] le have nd: "unat (idx d) = unat n" by simp
    then have dn: "idx d = n" by (simp add: word_unat_eq_iff)
    with top obtain d' where nx: "nxt d = Inr d'" using nxt_Inr by blast
    have "\<not> gone m (d', ks')" if m: "m \<noteq> n" "\<not> gone m (c, ks)" for m
    proof
      assume g: "gone m (d', ks')"
      then have "unat m < Suc (unat n)" and mk: "m \<notin> kidx ` set ks'"
        using nxt_unat [OF nx] nd by (simp_all add: gone_def word_less_nat_alt)
      with m(1) have "unat m < unat n" by (metis less_SucE word_unat_eq_iff)
      then have "m < idx d" using nd by (simp add: word_less_nat_alt)
      with skip_keeps [OF room sk] mk m(2) show False
        by (auto simp: gone_def not_le)
    qed
    with False sk nx show ?thesis unfolding s by (simp add: receive_def)
  qed
qed

text \<open>Whatever is not used up is answered, as long as the chain can move past it.\<close>

lemma receive_total:
  assumes inv: "chain_inv c0 s" and ng: "\<not> gone n s" and top: "n \<noteq> - 1"
  shows "\<exists>k s'. receive n s = Some (k, s')"
proof -
  obtain c ks where s: "s = (c, ks)" by (cases s)
  show ?thesis
  proof (cases "n < idx c")
    case True
    then show ?thesis using ng s grab_None_iff [of n ks]
      by (cases "grab n ks") (auto simp: gone_def receive_def)
  next
    case False
    then have le: "unat (idx c) \<le> unat n" by (simp add: word_less_nat_alt)
    obtain d ks' where sk: "skip (unat n - unat (idx c)) c ks = (Inr d, ks')"
      using skip_ok [of c "unat n - unat (idx c)" ks] le unat_u32_bound [of n] by auto
    from advance_unat [OF skip_advance [OF sk]] le have "idx d = n" by (simp add: word_unat_eq_iff)
    with top obtain d' where "nxt d = Inr d'" using nxt_Inr by blast
    with False sk show ?thesis unfolding s by (simp add: receive_def)
  qed
qed

text \<open>The key of the chain's own position.\<close>

lemma receive_key_of:
  assumes inv: "chain_inv c0 s" and adv: "advance m c0 = Inr c" and r: "receive (idx c) s = Some (k, s')"
  shows "k = gen c"
  using receive_key(2) [OF inv r] key_at_advance [OF adv, of "unat (idx c)"] key_at_idx [of c] by simp

lemma receive_all_complete:
  "chain_inv c0 s \<Longrightarrow> distinct ns \<Longrightarrow>
   (\<forall>n \<in> set ns. \<not> gone n s \<and> unat n \<le> unat (idx c0) + cap \<and> n \<noteq> - 1) \<Longrightarrow>
   receive_all ns s = (ks, s') \<Longrightarrow> None \<notin> set ks"
proof (induction ns arbitrary: s ks)
  case Nil
  then show ?case by simp
next
  case (Cons n ns)
  then obtain k s1 where p: "receive n s = Some (k, s1)"
    and keep: "\<And>m. m \<noteq> n \<Longrightarrow> \<not> gone m s \<Longrightarrow> \<not> gone m s1"
    using receive_complete [OF Cons.prems(1), of n] by auto
  with Cons.prems obtain ks1 where r: "receive_all ns s1 = (ks1, s')" and ks: "ks = Some k # ks1"
    by (auto split: prod.splits)
  have "\<forall>m \<in> set ns. \<not> gone m s1 \<and> unat m \<le> unat (idx c0) + cap \<and> m \<noteq> - 1"
    using Cons.prems(2,3) keep by (metis distinct.simps(2) list.set_intros(2))
  with Cons.IH [OF receive_key(1) [OF Cons.prems(1) p] _ _ r] Cons.prems(2) ks
  show ?case by simp
qed

end

end
