(* ===== verification/Ratchet_Keys.thy ===== *)
theory Ratchet_Keys
  imports Crypto Key_Chain
begin

text \<open>
  \<open>rust/protocol/src/ratchet/keys.rs\<close> and \<open>consts.rs\<close>: message keys and their generators, chain
  keys, root keys, with the key derivations, and the limits of the protocol. A chain key is a
  \<open>key_chain\<close> of theory \<open>Key_Chain\<close>.
\<close>

section \<open>Limits\<close>

definition MAX_FORWARD_JUMPS :: nat where "MAX_FORWARD_JUMPS = 25000"
definition MAX_MESSAGE_KEYS :: nat where "MAX_MESSAGE_KEYS = 2000"
definition MAX_RECEIVER_CHAINS :: nat where "MAX_RECEIVER_CHAINS = 5"
definition ARCHIVED_STATES_MAX_LENGTH :: nat where "ARCHIVED_STATES_MAX_LENGTH = 40"
definition MAX_SENDER_KEY_STATES :: nat where "MAX_SENDER_KEY_STATES = 5"

text \<open>In nanoseconds, the resolution of \<open>Duration\<close>.\<close>

definition MAX_UNACKNOWLEDGED_SESSION_AGE :: int where
  "MAX_UNACKNOWLEDGED_SESSION_AGE = 60 * 60 * 24 * 30 * 1000000000"

section \<open>Derivation\<close>

text \<open>\<open>libsignal_core::derive_arrays\<close>: the callback fills one buffer, which is cut in three.\<close>

definition derive_arrays :: "nat \<Rightarrow> nat \<Rightarrow> nat \<Rightarrow> (nat \<Rightarrow> bytes) \<Rightarrow> bytes \<times> bytes \<times> bytes" where
  "derive_arrays n1 n2 n3 derive = (let okm = derive (n1 + n2 + n3)
     in (take n1 okm, take n2 (drop n1 okm), drop (n1 + n2) okm))"

section \<open>Message keys\<close>

record MessageKeys =
  mks_cipher_key :: bytes
  mks_mac_key :: bytes
  mks_iv :: bytes
  mks_counter :: u32

definition MessageKeys_derive_keys :: "'r Ext \<Rightarrow> bytes \<Rightarrow> bytes option \<Rightarrow> u32 \<Rightarrow> MessageKeys" where
  "MessageKeys_derive_keys E input_key_material optional_salt counter =
     (let (cipher_key, mac_key, iv) = derive_arrays 32 32 16
            (x_hkdf_sha256 E optional_salt input_key_material (ascii ''WhisperMessageKeys''))
      in \<lparr>mks_cipher_key = cipher_key, mks_mac_key = mac_key, mks_iv = iv, mks_counter = counter\<rparr>)"

datatype MessageKeyGenerator = Keys MessageKeys | Seed bytes u32

definition MessageKeyGenerator_new_from_seed :: "bytes \<Rightarrow> u32 \<Rightarrow> MessageKeyGenerator" where
  "MessageKeyGenerator_new_from_seed seed counter = Seed seed counter"

definition MessageKeyGenerator_generate_keys ::
    "'r Ext \<Rightarrow> MessageKeyGenerator \<Rightarrow> bytes option \<Rightarrow> MessageKeys signal_result" where
  "MessageKeyGenerator_generate_keys E g pqr_key = (case g of
     Seed seed counter \<Rightarrow> Inr (MessageKeys_derive_keys E seed pqr_key counter)
   | Keys k \<Rightarrow> if pqr_key \<noteq> None then Inl (Panic ''assertion failed: pqr_key.is_none()'') else Inr k)"

definition MessageKeyGenerator_into_pb :: "MessageKeyGenerator \<Rightarrow> MessageKey" where
  "MessageKeyGenerator_into_pb g = (case g of
     Keys k \<Rightarrow> \<lparr>mk_index = mks_counter k, mk_cipher_key = mks_cipher_key k, mk_mac_key = mks_mac_key k,
               mk_iv = mks_iv k, mk_seed = []\<rparr>
   | Seed seed counter \<Rightarrow> \<lparr>mk_index = counter, mk_cipher_key = [], mk_mac_key = [], mk_iv = [],
               mk_seed = seed\<rparr>)"

definition MessageKeyGenerator_from_pb :: "MessageKey \<Rightarrow> (string, MessageKeyGenerator) rresult" where
  "MessageKeyGenerator_from_pb pb =
     (if mk_seed pb = [] then
        try_bind (ok_or ''invalid message cipher key'' (to_array 32 (mk_cipher_key pb))) (\<lambda>cipher_key.
        try_bind (ok_or ''invalid message MAC key'' (to_array 32 (mk_mac_key pb))) (\<lambda>mac_key.
        try_bind (ok_or ''invalid message IV'' (to_array 16 (mk_iv pb))) (\<lambda>iv.
        Inr (Keys \<lparr>mks_cipher_key = cipher_key, mks_mac_key = mac_key, mks_iv = iv,
                   mks_counter = mk_index pb\<rparr>))))
      else Inr (Seed (mk_seed pb) (mk_index pb)))"

section \<open>Chain keys\<close>

record ChainKey =
  ck_key :: bytes
  ck_index :: u32

definition MESSAGE_KEY_SEED :: bytes where "MESSAGE_KEY_SEED = [0x01]"
definition CHAIN_KEY_SEED :: bytes where "CHAIN_KEY_SEED = [0x02]"

definition ChainKey_calculate_base_material :: "'r Ext \<Rightarrow> ChainKey \<Rightarrow> bytes \<Rightarrow> bytes" where
  "ChainKey_calculate_base_material E ck seed = hmac_sha256 E (ck_key ck) seed"

definition ChainKey_next_chain_key :: "'r Ext \<Rightarrow> ChainKey \<Rightarrow> ChainKey signal_result" where
  "ChainKey_next_chain_key E ck = try_bind (add_one_u32 (ck_index ck)) (\<lambda>index.
     Inr \<lparr>ck_key = ChainKey_calculate_base_material E ck CHAIN_KEY_SEED, ck_index = index\<rparr>)"

definition ChainKey_message_keys :: "'r Ext \<Rightarrow> ChainKey \<Rightarrow> MessageKeyGenerator" where
  "ChainKey_message_keys E ck = MessageKeyGenerator_new_from_seed
     (ChainKey_calculate_base_material E ck MESSAGE_KEY_SEED) (ck_index ck)"

section \<open>Root keys\<close>

datatype RootKey = RootKey (root_key_bytes: bytes)

definition RootKey_create_chain ::
    "'r Ext \<Rightarrow> RootKey \<Rightarrow> PublicKey \<Rightarrow> PrivateKey \<Rightarrow> (RootKey \<times> ChainKey) signal_result" where
  "RootKey_create_chain E rk their_ratchet_key our_ratchet_key =
     try_bind (curve_err (PrivateKey_calculate_agreement E our_ratchet_key their_ratchet_key))
       (\<lambda>shared_secret.
     let (root_key, chain_key, _) = derive_arrays 32 32 0
           (x_hkdf_sha256 E (Some (root_key_bytes rk)) shared_secret (ascii ''WhisperRatchet''))
     in Inr (RootKey root_key, \<lparr>ck_key = chain_key, ck_index = 0\<rparr>))"

section \<open>Facts\<close>

lemma derive_arrays_lengths:
  assumes "\<And>n. length (derive n) = n" and "derive_arrays n1 n2 n3 derive = (a, b, c)"
  shows "length a = n1" "length b = n2" "length c = n3"
  using assms by (auto simp: derive_arrays_def Let_def)

lemma MessageKeys_derive_keys_lengths:
  assumes "hash_lengths E"
  shows "length (mks_cipher_key (MessageKeys_derive_keys E k s c)) = 32"
    "length (mks_mac_key (MessageKeys_derive_keys E k s c)) = 32"
    "length (mks_iv (MessageKeys_derive_keys E k s c)) = 16"
    "mks_counter (MessageKeys_derive_keys E k s c) = c"
  using assms by (simp_all add: MessageKeys_derive_keys_def derive_arrays_def Let_def)

text \<open>Generators survive storage: a seed in any case, keys when the arrays have their size.\<close>

definition generator_ok :: "MessageKeyGenerator \<Rightarrow> bool" where
  "generator_ok g \<longleftrightarrow> (case g of Seed s _ \<Rightarrow> s \<noteq> []
     | Keys k \<Rightarrow> length (mks_cipher_key k) = 32 \<and> length (mks_mac_key k) = 32 \<and> length (mks_iv k) = 16)"

lemma generator_roundtrip:
  "generator_ok g \<Longrightarrow> MessageKeyGenerator_from_pb (MessageKeyGenerator_into_pb g) = Inr g"
  by (cases g) (simp_all add: generator_ok_def MessageKeyGenerator_from_pb_def
      MessageKeyGenerator_into_pb_def to_array_def)

lemma mk_index_into_pb_message_keys [simp]:
  "mk_index (MessageKeyGenerator_into_pb (ChainKey_message_keys E ck)) = ck_index ck"
  by (simp add: MessageKeyGenerator_into_pb_def ChainKey_message_keys_def
      MessageKeyGenerator_new_from_seed_def)

lemma hmac_nonempty: "hash_lengths E \<Longrightarrow> hmac_sha256 E k m \<noteq> []"
  by (metis hash_lengthsD(1) hmac_sha256_def list.size(3) zero_neq_numeral)

lemma ChainKey_message_keys_ok: "hash_lengths E \<Longrightarrow> generator_ok (ChainKey_message_keys E ck)"
  by (simp add: generator_ok_def ChainKey_message_keys_def MessageKeyGenerator_new_from_seed_def
      ChainKey_calculate_base_material_def hmac_nonempty)

lemma ChainKey_next_Inr_iff:
  "ChainKey_next_chain_key E ck = Inr ck' \<longleftrightarrow> ck_index ck \<noteq> - 1 \<and>
     ck' = \<lparr>ck_key = hmac_sha256 E (ck_key ck) CHAIN_KEY_SEED, ck_index = ck_index ck + 1\<rparr>"
  by (auto simp: ChainKey_next_chain_key_def add_one_u32_def ChainKey_calculate_base_material_def)

lemma ChainKey_next_Inl_iff:
  "ChainKey_next_chain_key E ck = Inl f \<longleftrightarrow> ck_index ck = - 1 \<and> f = Panic ''attempt to add with overflow''"
  by (auto simp: ChainKey_next_chain_key_def add_one_u32_def)

text \<open>The chain key is a chain of message keys, in the form in which they are stored.\<close>

definition stored_message_keys :: "'r Ext \<Rightarrow> ChainKey \<Rightarrow> MessageKey" where
  "stored_message_keys E ck = MessageKeyGenerator_into_pb (ChainKey_message_keys E ck)"

interpretation ck: key_chain "ChainKey_next_chain_key E" ck_index "stored_message_keys E" mk_index
  for E
  by unfold_locales (auto simp: ChainKey_next_Inr_iff ChainKey_next_Inl_iff stored_message_keys_def)

abbreviation ck_advance :: "'r Ext \<Rightarrow> nat \<Rightarrow> ChainKey \<Rightarrow> ChainKey signal_result" where
  "ck_advance E \<equiv> key_chain.advance (ChainKey_next_chain_key E)"

abbreviation ck_key_at :: "'r Ext \<Rightarrow> ChainKey \<Rightarrow> nat \<Rightarrow> MessageKey option" where
  "ck_key_at E \<equiv> key_chain.key_at (ChainKey_next_chain_key E) ck_index (stored_message_keys E)"

text \<open>The generator of counter \<open>n\<close> on the chain that starts at \<open>ck\<close>, by iteration of the
  derivation alone.\<close>

definition chain_generator :: "'r Ext \<Rightarrow> ChainKey \<Rightarrow> u32 \<Rightarrow> MessageKeyGenerator" where
  "chain_generator E ck n =
     Seed (hmac_sha256 E (((\<lambda>k. hmac_sha256 E k [0x02]) ^^ (unat n - unat (ck_index ck))) (ck_key ck)) [0x01]) n"

lemma advance_key:
  "ck_advance E n ck = Inr ck' \<Longrightarrow>
   ck_key ck' = ((\<lambda>k. hmac_sha256 E k CHAIN_KEY_SEED) ^^ n) (ck_key ck)"
proof (induction n arbitrary: ck)
  case 0
  then show ?case by simp
next
  case (Suc n)
  then obtain d where d: "ChainKey_next_chain_key E ck = Inr d" and "ck_advance E n d = Inr ck'"
    by (auto simp: res_simps)
  from Suc.IH [OF this(2)] d show ?case
    by (simp add: ChainKey_next_Inr_iff funpow_Suc_right del: funpow.simps)
qed

lemma key_at_chain_generator:
  assumes "unat (ck_index ck) \<le> unat n"
  shows "ck_key_at E ck (unat n) = Some (MessageKeyGenerator_into_pb (chain_generator E ck n))"
proof -
  have "unat (ck_index ck) + (unat n - unat (ck_index ck)) < 4294967296"
    using assms unat_u32_bound [of n] by simp
  then obtain d where d: "ck_advance E (unat n - unat (ck_index ck)) ck = Inr d"
    using ck.advance_ok by blast
  have "unat (ck_index d) = unat n" using ck.advance_unat [OF d] assms by simp
  then have "ck_index d = n" by (simp add: word_unat_eq_iff)
  with advance_key [OF d] d assms show ?thesis
    by (simp add: ck.key_at_def stored_message_keys_def ChainKey_message_keys_def
        MessageKeyGenerator_new_from_seed_def ChainKey_calculate_base_material_def chain_generator_def
        CHAIN_KEY_SEED_def MESSAGE_KEY_SEED_def)
qed

lemma chain_generator_ok: "hash_lengths E \<Longrightarrow> generator_ok (chain_generator E ck n)"
  by (simp add: generator_ok_def chain_generator_def hmac_nonempty)

lemma RootKey_create_chain_no_panic: "\<not> is_panic (RootKey_create_chain E rk p k)"
  using calculate_agreement_no_panic [of E k p]
  by (auto simp: RootKey_create_chain_def is_panic_try_bind Let_def split: prod.splits)

lemma RootKey_create_chain_index:
  "RootKey_create_chain E rk p k = Inr (rk', ck) \<Longrightarrow> ck_index ck = 0"
  by (auto simp: RootKey_create_chain_def res_simps derive_arrays_def Let_def)

lemma RootKey_create_chain_lengths:
  "\<lbrakk>hash_lengths E; RootKey_create_chain E rk p k = Inr (rk', ck)\<rbrakk> \<Longrightarrow>
   length (root_key_bytes rk') = 32 \<and> length (ck_key ck) = 32"
  by (auto simp: RootKey_create_chain_def res_simps Let_def derive_arrays_def)

text \<open>Both ends of a Diffie-Hellman step derive the same root key and chain key.\<close>

lemma RootKey_create_chain_agree:
  "\<lbrakk>x25519_laws E; key_pair_ok E a; key_pair_ok E b\<rbrakk> \<Longrightarrow>
   RootKey_create_chain E rk (kp_public_key b) (kp_private_key a) =
   RootKey_create_chain E rk (kp_public_key a) (kp_private_key b)"
  by (simp add: RootKey_create_chain_def calculate_agreement_commutes)

end
