(* ===== verification/Double_Ratchet.thy ===== *)
theory Double_Ratchet
  imports Ratchet_Keys
begin

text \<open>
  \<open>rust/protocol/src/double_ratchet.rs\<close>: the state of a Double Ratchet session, its storage form,
  the Diffie-Hellman ratchet step, and the consumption of message keys. An operation on \<open>&mut self\<close>
  returns its result together with the new state, also when it fails half way.

  The receiving side of a chain is an instance of \<open>receive_chain\<close> (theory \<open>Key_Chain\<close>), from which
  the lemmas about out-of-order delivery and replay come.
\<close>

section \<open>State\<close>

record SenderChain =
  sc_ratchet_key :: KeyPair
  sc_chain_key :: ChainKey

record RatchetState =
  rs_root_key :: RootKey
  rs_sender_chain :: "SenderChain option"
  rs_receiver_chains :: "Chain list"
  rs_previous_counter :: u32
  rs_max_forward_jumps :: nat

section \<open>Storage form\<close>

definition ChainKey_from_pb :: "ChainKeyPb \<Rightarrow> ChainKey session_result" where
  "ChainKey_from_pb pb =
     try_bind (ok_or (InvalidSessionError ''invalid chain key'') (to_array 32 (ckp_key pb))) (\<lambda>key.
     Inr \<lparr>ck_key = key, ck_index = ckp_index pb\<rparr>)"

definition ChainKey_to_pb :: "ChainKey \<Rightarrow> ChainKeyPb" where
  "ChainKey_to_pb ck = \<lparr>ckp_index = ck_index ck, ckp_key = ck_key ck\<rparr>"

definition SenderChain_from_pb :: "'r Ext \<Rightarrow> Chain \<Rightarrow> SenderChain session_result" where
  "SenderChain_from_pb E chain =
     try_bind (or_err (InvalidSessionError ''invalid sender ratchet public key'')
       (PublicKey_deserialize (ch_sender_ratchet_key chain))) (\<lambda>public_key.
     try_bind (or_err (InvalidSessionError ''invalid sender ratchet private key'')
       (PrivateKey_deserialize E (ch_sender_ratchet_key_private chain))) (\<lambda>private_key.
     try_bind (ok_or (InvalidSessionError ''missing sender chain key'') (ch_chain_key chain)) (\<lambda>pb.
     try_bind (ChainKey_from_pb pb) (\<lambda>chain_key.
     Inr \<lparr>sc_ratchet_key = \<lparr>kp_public_key = public_key, kp_private_key = private_key\<rparr>,
          sc_chain_key = chain_key\<rparr>))))"

definition SenderChain_to_pb :: "SenderChain \<Rightarrow> Chain" where
  "SenderChain_to_pb sc =
     \<lparr>ch_sender_ratchet_key = PublicKey_serialize (kp_public_key (sc_ratchet_key sc)),
      ch_sender_ratchet_key_private = PrivateKey_serialize (kp_private_key (sc_ratchet_key sc)),
      ch_chain_key = Some (ChainKey_to_pb (sc_chain_key sc)),
      ch_message_keys = []\<rparr>"

definition RatchetState_from_pb ::
    "'r Ext \<Rightarrow> SessionStructure \<Rightarrow> bool \<Rightarrow> Chain list \<Rightarrow> RatchetState session_result" where
  "RatchetState_from_pb E session self_session receiver_chains =
     try_bind (ok_or (InvalidSessionError ''invalid root key'') (to_array 32 (ss_root_key session)))
       (\<lambda>root_key_bytes.
     try_bind (case ss_sender_chain session of None \<Rightarrow> Inr None
               | Some c \<Rightarrow> try_bind (SenderChain_from_pb E c) (\<lambda>sc. Inr (Some sc))) (\<lambda>sender_chain.
     Inr \<lparr>rs_root_key = RootKey root_key_bytes,
          rs_sender_chain = sender_chain,
          rs_receiver_chains = receiver_chains,
          rs_previous_counter = ss_previous_counter session,
          rs_max_forward_jumps = (if self_session then usize_MAX else MAX_FORWARD_JUMPS)\<rparr>))"

definition RatchetState_apply_to_pb :: "RatchetState \<Rightarrow> SessionStructure \<Rightarrow> SessionStructure" where
  "RatchetState_apply_to_pb rs session = session
     \<lparr>ss_root_key := root_key_bytes (rs_root_key rs),
      ss_previous_counter := rs_previous_counter rs,
      ss_sender_chain := map_option SenderChain_to_pb (rs_sender_chain rs),
      ss_receiver_chains := rs_receiver_chains rs\<rparr>"

section \<open>Operations\<close>

definition find_receiver_chain_index :: "RatchetState \<Rightarrow> PublicKey \<Rightarrow> nat option" where
  "find_receiver_chain_index rs their_ephemeral = position (\<lambda>chain.
     case PublicKey_deserialize (ch_sender_ratchet_key chain) of
       Inr key \<Rightarrow> key = their_ephemeral
     | Inl _ \<Rightarrow> False) (rs_receiver_chains rs)"

definition find_receiver_chain_key :: "RatchetState \<Rightarrow> PublicKey \<Rightarrow> ChainKey option session_result" where
  "find_receiver_chain_key rs their_ephemeral =
     (case find_receiver_chain_index rs their_ephemeral of
        None \<Rightarrow> Inr None
      | Some i \<Rightarrow>
          try_bind (ok_or (InvalidSessionError ''missing receiver chain key'')
            (ch_chain_key (rs_receiver_chains rs ! i))) (\<lambda>pb.
          try_bind (ChainKey_from_pb pb) (\<lambda>ck. Inr (Some ck))))"

definition take_root_key :: "RatchetState \<Rightarrow> RootKey \<times> RatchetState" where
  "take_root_key rs = (rs_root_key rs, rs\<lparr>rs_root_key := RootKey (replicate 32 0)\<rparr>)"

text \<open>\<open>while v.len() > n { v.remove(0); }\<close>\<close>

fun trim_front :: "nat \<Rightarrow> 'a list \<Rightarrow> 'a list" where
  "trim_front n [] = []"
| "trim_front n (x # xs) = (if length (x # xs) > n then trim_front n xs else x # xs)"

definition dh_ratchet_step ::
    "'r Ext \<Rightarrow> RatchetState \<Rightarrow> PublicKey \<Rightarrow> 'r \<Rightarrow> ChainKey signal_result \<times> RatchetState \<times> 'r" where
  "dh_ratchet_step E rs their_ephemeral rng =
     (case rs_sender_chain rs of
        None \<Rightarrow> (session_err (Inl (Err (InvalidSessionError ''missing sender chain''))), rs, rng)
      | Some sender_chain \<Rightarrow>
         let sender_private_key = kp_private_key (sc_ratchet_key sender_chain);
             (current_root_key, rs1) = take_root_key rs
         in (case RootKey_create_chain E current_root_key their_ephemeral sender_private_key of
              Inl e \<Rightarrow> (Inl e, rs1, rng)
            | Inr (new_root_key, receiver_chain_key) \<Rightarrow>
               let (new_sender_key, rng1) = KeyPair_generate E rng
               in (case RootKey_create_chain E new_root_key their_ephemeral (kp_private_key new_sender_key) of
                    Inl e \<Rightarrow> (Inl e, rs1, rng1)
                  | Inr (final_root_key, sender_chain_key) \<Rightarrow>
                     let current_index = ck_index (sc_chain_key sender_chain);
                         new_chain = \<lparr>ch_sender_ratchet_key = PublicKey_serialize their_ephemeral,
                                      ch_sender_ratchet_key_private = [],
                                      ch_chain_key = Some (ChainKey_to_pb receiver_chain_key),
                                      ch_message_keys = []\<rparr>
                     in (Inr receiver_chain_key,
                         rs1\<lparr>rs_previous_counter := saturating_sub_u32 current_index 1,
                             rs_root_key := final_root_key,
                             rs_receiver_chains :=
                               trim_front MAX_RECEIVER_CHAINS (rs_receiver_chains rs1 @ [new_chain]),
                             rs_sender_chain := Some \<lparr>sc_ratchet_key = new_sender_key,
                                                      sc_chain_key = sender_chain_key\<rparr>\<rparr>, rng1))))"

definition ensure_receiver_chain ::
    "'r Ext \<Rightarrow> RatchetState \<Rightarrow> PublicKey \<Rightarrow> 'r \<Rightarrow> ChainKey signal_result \<times> RatchetState \<times> 'r" where
  "ensure_receiver_chain E rs their_ephemeral rng =
     (case session_err (find_receiver_chain_key rs their_ephemeral) of
        Inl e \<Rightarrow> (Inl e, rs, rng)
      | Inr (Some chain_key) \<Rightarrow> (Inr chain_key, rs, rng)
      | Inr None \<Rightarrow> dh_ratchet_step E rs their_ephemeral rng)"

definition take_skipped_key ::
    "RatchetState \<Rightarrow> PublicKey \<Rightarrow> u32 \<Rightarrow> MessageKeyGenerator option session_result \<times> RatchetState" where
  "take_skipped_key rs their_ephemeral counter =
     (case find_receiver_chain_index rs their_ephemeral of
        None \<Rightarrow> (Inr None, rs)
      | Some chain_idx \<Rightarrow>
         let chain = rs_receiver_chains rs ! chain_idx; keys = ch_message_keys chain
         in (case position (\<lambda>mk. mk_index mk = counter) keys of
              None \<Rightarrow> (Inr None, rs)
            | Some pos \<Rightarrow>
                (map_err InvalidSessionError
                   (try_bind (MessageKeyGenerator_from_pb (keys ! pos)) (\<lambda>g. Inr (Some g))),
                 rs\<lparr>rs_receiver_chains := (rs_receiver_chains rs)
                      [chain_idx := chain\<lparr>ch_message_keys := remove_at pos keys\<rparr>]\<rparr>)))"

text \<open>\<open>keys.insert(0, key); if keys.len() > MAX_MESSAGE_KEYS { keys.pop(); }\<close>\<close>

definition insert_skipped_key :: "MessageKey \<Rightarrow> MessageKey list \<Rightarrow> MessageKey list" where
  "insert_skipped_key key keys =
     (let keys' = key # keys in if length keys' > MAX_MESSAGE_KEYS then butlast keys' else keys')"

definition store_skipped_key ::
    "RatchetState \<Rightarrow> PublicKey \<Rightarrow> MessageKeyGenerator \<Rightarrow> unit signal_result \<times> RatchetState" where
  "store_skipped_key rs their_ephemeral key =
     (case find_receiver_chain_index rs their_ephemeral of
        None \<Rightarrow> (Inl (Panic ''store_skipped_key called for non-existent chain''), rs)
      | Some chain_idx \<Rightarrow>
         let chain = rs_receiver_chains rs ! chain_idx
         in (Inr (), rs\<lparr>rs_receiver_chains := (rs_receiver_chains rs)
              [chain_idx := chain\<lparr>ch_message_keys :=
                 insert_skipped_key (MessageKeyGenerator_into_pb key) (ch_message_keys chain)\<rparr>]\<rparr>))"

definition set_receiver_chain_key ::
    "RatchetState \<Rightarrow> PublicKey \<Rightarrow> ChainKey \<Rightarrow> unit signal_result \<times> RatchetState" where
  "set_receiver_chain_key rs their_ephemeral chain_key =
     (case find_receiver_chain_index rs their_ephemeral of
        None \<Rightarrow> (Inl (Panic ''set_receiver_chain_key called for non-existent chain''), rs)
      | Some chain_idx \<Rightarrow>
         (Inr (), rs\<lparr>rs_receiver_chains := (rs_receiver_chains rs)
              [chain_idx := (rs_receiver_chains rs ! chain_idx)
                 \<lparr>ch_chain_key := Some (ChainKey_to_pb chain_key)\<rparr>]\<rparr>))"

text \<open>The loop of \<open>consume_message_key\<close>: advance the chain, caching the keys passed over.\<close>

function skip_to :: "'r Ext \<Rightarrow> RatchetState \<Rightarrow> PublicKey \<Rightarrow> ChainKey \<Rightarrow> u32 \<Rightarrow>
    ChainKey signal_result \<times> RatchetState" where
  "skip_to E rs their_ephemeral chain_key counter =
     (if ck_index chain_key < counter then
        case store_skipped_key rs their_ephemeral (ChainKey_message_keys E chain_key) of
          (Inl e, rs1) \<Rightarrow> (Inl e, rs1)
        | (Inr _, rs1) \<Rightarrow>
            (case ChainKey_next_chain_key E chain_key of
               Inl e \<Rightarrow> (Inl e, rs1)
             | Inr next \<Rightarrow> skip_to E rs1 their_ephemeral next counter)
      else (Inr chain_key, rs))"
  by pat_completeness auto
termination
  by (relation "measure (\<lambda>(E, rs, e, ck, n). unat n - unat (ck_index ck))")
     (auto simp: ChainKey_next_Inr_iff word_less_nat_alt unat_succ_u32)

declare skip_to.simps [simp del]

definition consume_message_key ::
    "'r Ext \<Rightarrow> RatchetState \<Rightarrow> PublicKey \<Rightarrow> ChainKey \<Rightarrow> u32 \<Rightarrow> CiphertextMessageType \<Rightarrow>
     MessageKeyGenerator signal_result \<times> RatchetState" where
  "consume_message_key E rs their_ephemeral chain_key counter original_message_type =
     (let chain_index = ck_index chain_key in
      if chain_index > counter then
        let (r, rs1) = take_skipped_key rs their_ephemeral counter
        in (try_bind (session_err r) (ok_or (DuplicatedMessage chain_index counter)), rs1)
      else if unat (counter - chain_index) > rs_max_forward_jumps rs then
        (Inl (Err (InvalidMessage original_message_type ''message from too far into the future'')), rs)
      else case skip_to E rs their_ephemeral chain_key counter of
             (Inl e, rs1) \<Rightarrow> (Inl e, rs1)
           | (Inr chain_key1, rs1) \<Rightarrow>
               (case ChainKey_next_chain_key E chain_key1 of
                  Inl e \<Rightarrow> (Inl e, rs1)
                | Inr next \<Rightarrow>
                   (case set_receiver_chain_key rs1 their_ephemeral next of
                      (Inl e, rs2) \<Rightarrow> (Inl e, rs2)
                    | (Inr _, rs2) \<Rightarrow> (Inr (ChainKey_message_keys E chain_key1), rs2))))"

section \<open>The cache of skipped keys\<close>

definition grab_skipped_key :: "u32 \<Rightarrow> MessageKey list \<Rightarrow> (MessageKey \<times> MessageKey list) option" where
  "grab_skipped_key n keys = (case position (\<lambda>mk. mk_index mk = n) keys of
     None \<Rightarrow> None | Some pos \<Rightarrow> Some (keys ! pos, remove_at pos keys))"

lemma butlast_Cons_neq [simp]: "ks \<noteq> [] \<Longrightarrow> butlast (k # ks) = k # butlast ks"
  by simp

lemma distinct_map_butlast: "distinct (map f xs) \<Longrightarrow> distinct (map f (butlast xs))"
  by (simp add: map_butlast distinct_butlast)

lemma grab_skipped_key_None_iff: "grab_skipped_key n ks = None \<longleftrightarrow> n \<notin> mk_index ` set ks"
  by (auto simp: grab_skipped_key_def position_None_iff split: option.splits dest: position_SomeD)

lemma grab_skipped_key_Some:
  assumes g: "grab_skipped_key n ks = Some (k, ks')" and d: "distinct (map mk_index ks)"
  shows "k \<in> set ks \<and> mk_index k = n \<and> set ks' = {x \<in> set ks. mk_index x \<noteq> n} \<and>
    distinct (map mk_index ks') \<and> length ks = Suc (length ks')"
proof -
  from g obtain p where p: "position (\<lambda>mk. mk_index mk = n) ks = Some p"
    and k: "k = ks ! p" and ks': "ks' = remove_at p ks"
    by (auto simp: grab_skipped_key_def split: option.splits)
  note pl = position_Some_lt [OF p] and pP = position_Some_P [OF p]
  have "set ks' = {x \<in> set ks. mk_index x \<noteq> mk_index (ks ! p)}"
    unfolding ks' by (rule set_remove_at_distinct [OF d pl])
  with pl pP show ?thesis
    using distinct_map_remove_at [OF d] by (simp add: k ks' length_remove_at)
qed

interpretation dr: receive_chain "ChainKey_next_chain_key E" ck_index "stored_message_keys E" mk_index
    insert_skipped_key grab_skipped_key MAX_MESSAGE_KEYS
  for E
proof unfold_locales
  fix k :: MessageKey and ks :: "MessageKey list"
  have b: "set (butlast (k # ks)) \<subseteq> insert k (set ks)" using in_set_butlastD by fastforce
  show "set (insert_skipped_key k ks) \<subseteq> insert k (set ks)"
    using b by (auto simp: insert_skipped_key_def Let_def)
  show "k \<in> set (insert_skipped_key k ks)"
    by (cases ks) (auto simp: insert_skipped_key_def Let_def MAX_MESSAGE_KEYS_def)
  show "length ks < MAX_MESSAGE_KEYS \<Longrightarrow> set ks \<subseteq> set (insert_skipped_key k ks)"
    by (auto simp: insert_skipped_key_def Let_def)
  show "length ks \<le> MAX_MESSAGE_KEYS \<Longrightarrow>
      length (insert_skipped_key k ks) = min MAX_MESSAGE_KEYS (Suc (length ks))"
    by (simp add: insert_skipped_key_def Let_def)
  show "distinct (map mk_index ks) \<Longrightarrow> mk_index k \<notin> mk_index ` set ks \<Longrightarrow>
      distinct (map mk_index (insert_skipped_key k ks))"
    using distinct_map_butlast [of mk_index "k # ks"] by (simp add: insert_skipped_key_def Let_def)
next
  fix n and k :: MessageKey and ks ks' :: "MessageKey list"
  show "grab_skipped_key n ks = None \<longleftrightarrow> n \<notin> mk_index ` set ks"
    by (rule grab_skipped_key_None_iff)
  show "grab_skipped_key n ks = Some (k, ks') \<Longrightarrow> distinct (map mk_index ks) \<Longrightarrow>
      k \<in> set ks \<and> mk_index k = n \<and> set ks' = {x \<in> set ks. mk_index x \<noteq> n} \<and>
      distinct (map mk_index ks') \<and> length ks = Suc (length ks')"
    by (rule grab_skipped_key_Some)
qed

abbreviation dr_skip :: "'r Ext \<Rightarrow> nat \<Rightarrow> ChainKey \<Rightarrow> MessageKey list \<Rightarrow>
    ChainKey signal_result \<times> MessageKey list" where
  "dr_skip E \<equiv> receive_chain.skip (ChainKey_next_chain_key E) (stored_message_keys E) insert_skipped_key"

abbreviation dr_receive :: "'r Ext \<Rightarrow> u32 \<Rightarrow> ChainKey \<times> MessageKey list \<Rightarrow>
    (MessageKey \<times> ChainKey \<times> MessageKey list) option" where
  "dr_receive E \<equiv> receive_chain.receive (ChainKey_next_chain_key E) ck_index (stored_message_keys E)
     insert_skipped_key grab_skipped_key"

abbreviation dr_chain_inv :: "'r Ext \<Rightarrow> ChainKey \<Rightarrow> ChainKey \<times> MessageKey list \<Rightarrow> bool" where
  "dr_chain_inv E \<equiv> receive_chain.chain_inv (ChainKey_next_chain_key E) ck_index (stored_message_keys E)
     mk_index MAX_MESSAGE_KEYS"

abbreviation dr_gone :: "u32 \<Rightarrow> ChainKey \<times> MessageKey list \<Rightarrow> bool" where
  "dr_gone \<equiv> receive_chain.gone ck_index mk_index"

section \<open>One receiver chain as a key chain with a cache\<close>

text \<open>What is stored for a remote ephemeral key: the chain key and the skipped keys.\<close>

definition receiver_view :: "RatchetState \<Rightarrow> PublicKey \<Rightarrow> (ChainKey \<times> MessageKey list) option" where
  "receiver_view rs e = (case find_receiver_chain_key rs e of
     Inr (Some ck) \<Rightarrow>
       (case find_receiver_chain_index rs e of None \<Rightarrow> None
        | Some i \<Rightarrow> Some (ck, ch_message_keys (rs_receiver_chains rs ! i)))
   | _ \<Rightarrow> None)"

lemma ChainKey_pb_roundtrip [simp]: "length (ck_key ck) = 32 \<Longrightarrow> ChainKey_from_pb (ChainKey_to_pb ck) = Inr ck"
  by (simp add: ChainKey_from_pb_def ChainKey_to_pb_def to_array_def)

lemma ChainKey_from_pb_length: "ChainKey_from_pb pb = Inr ck \<Longrightarrow> length (ck_key ck) = 32"
  by (auto simp: ChainKey_from_pb_def res_simps)

lemma ChainKey_from_pb_no_panic: "\<not> is_panic (ChainKey_from_pb pb)"
  by (simp add: ChainKey_from_pb_def is_panic_try_bind)

lemma receiver_view_SomeE:
  assumes "receiver_view rs e = Some (ck, ks)"
  obtains i where "find_receiver_chain_index rs e = Some i"
    and "ch_message_keys (rs_receiver_chains rs ! i) = ks"
    and "find_receiver_chain_key rs e = Inr (Some ck)" and "length (ck_key ck) = 32"
    and "i < length (rs_receiver_chains rs)"
proof -
  from assms obtain i where i: "find_receiver_chain_index rs e = Some i"
    and k: "ch_message_keys (rs_receiver_chains rs ! i) = ks"
    and f: "find_receiver_chain_key rs e = Inr (Some ck)"
    by (auto simp: receiver_view_def split: sum.splits option.splits)
  have "length (ck_key ck) = 32"
    using f i by (auto simp: find_receiver_chain_key_def res_simps dest: ChainKey_from_pb_length)
  moreover have "i < length (rs_receiver_chains rs)"
    using i position_Some_lt unfolding find_receiver_chain_index_def by blast
  ultimately show ?thesis using that i k f by blast
qed

text \<open>Updating a chain in place, without touching its ratchet key, moves no chain.\<close>

definition update_chain :: "nat \<Rightarrow> (Chain \<Rightarrow> Chain) \<Rightarrow> RatchetState \<Rightarrow> RatchetState" where
  "update_chain i f rs = rs\<lparr>rs_receiver_chains := (rs_receiver_chains rs)[i := f (rs_receiver_chains rs ! i)]\<rparr>"

lemma update_chain_fields [simp]:
  "rs_root_key (update_chain i f rs) = rs_root_key rs"
  "rs_sender_chain (update_chain i f rs) = rs_sender_chain rs"
  "rs_previous_counter (update_chain i f rs) = rs_previous_counter rs"
  "rs_max_forward_jumps (update_chain i f rs) = rs_max_forward_jumps rs"
  "length (rs_receiver_chains (update_chain i f rs)) = length (rs_receiver_chains rs)"
  by (simp_all add: update_chain_def)

lemma find_index_update_chain:
  assumes "\<And>c. ch_sender_ratchet_key (f c) = ch_sender_ratchet_key c"
  shows "find_receiver_chain_index (update_chain i f rs) e = find_receiver_chain_index rs e"
proof (cases "i < length (rs_receiver_chains rs)")
  case True
  show ?thesis unfolding find_receiver_chain_index_def update_chain_def
    using assms True by (simp add: position_list_update_same)
next
  case False
  then show ?thesis by (simp add: update_chain_def find_receiver_chain_index_def list_update_beyond)
qed

lemma receiver_view_update_keys:
  assumes v: "receiver_view rs e = Some (ck, ks)" and i: "find_receiver_chain_index rs e = Some i"
  shows "receiver_view (update_chain i (\<lambda>c. c\<lparr>ch_message_keys := ks'\<rparr>) rs) e = Some (ck, ks')"
proof -
  let ?f = "\<lambda>c :: Chain. c\<lparr>ch_message_keys := ks'\<rparr>"
  from v obtain f: "find_receiver_chain_key rs e = Inr (Some ck)" and l: "i < length (rs_receiver_chains rs)"
    using receiver_view_SomeE i by (metis option.inject)
  have i': "find_receiver_chain_index (update_chain i ?f rs) e = Some i"
    using i by (simp add: find_index_update_chain)
  have "find_receiver_chain_key (update_chain i ?f rs) e = Inr (Some ck)"
    using f i l unfolding find_receiver_chain_key_def i' i by (simp add: update_chain_def)
  with i' l show ?thesis by (simp add: receiver_view_def) (simp add: update_chain_def)
qed

lemma receiver_view_update_chain_key:
  assumes v: "receiver_view rs e = Some (ck, ks)" and i: "find_receiver_chain_index rs e = Some i"
    and c: "length (ck_key ck') = 32"
  shows "receiver_view (update_chain i (\<lambda>c. c\<lparr>ch_chain_key := Some (ChainKey_to_pb ck')\<rparr>) rs) e = Some (ck', ks)"
proof -
  let ?f = "\<lambda>c :: Chain. c\<lparr>ch_chain_key := Some (ChainKey_to_pb ck')\<rparr>"
  from v obtain k: "ch_message_keys (rs_receiver_chains rs ! i) = ks" and l: "i < length (rs_receiver_chains rs)"
    using receiver_view_SomeE i by (metis option.inject)
  have i': "find_receiver_chain_index (update_chain i ?f rs) e = Some i"
    using i by (simp add: find_index_update_chain)
  have "find_receiver_chain_key (update_chain i ?f rs) e = Inr (Some ck')"
    using i l c unfolding find_receiver_chain_key_def i' i by (simp add: update_chain_def)
  with i' l k show ?thesis by (simp add: receiver_view_def) (simp add: update_chain_def)
qed

lemma ensure_receiver_chain_stored:
  "receiver_view rs e = Some (ck, ks) \<Longrightarrow> ensure_receiver_chain E rs e rng = (Inr ck, rs, rng)"
  by (erule receiver_view_SomeE) (simp add: ensure_receiver_chain_def)

text \<open>The parts of the state that receiving on a stored chain does not touch.\<close>

definition same_frame :: "RatchetState \<Rightarrow> RatchetState \<Rightarrow> bool" where
  "same_frame rs rs' \<longleftrightarrow> rs_root_key rs' = rs_root_key rs \<and> rs_sender_chain rs' = rs_sender_chain rs \<and>
     rs_previous_counter rs' = rs_previous_counter rs \<and>
     rs_max_forward_jumps rs' = rs_max_forward_jumps rs \<and>
     length (rs_receiver_chains rs') = length (rs_receiver_chains rs)"

lemma same_frame_refl [simp]: "same_frame rs rs"
  by (simp add: same_frame_def)

lemma same_frame_trans: "same_frame a b \<Longrightarrow> same_frame b c \<Longrightarrow> same_frame a c"
  by (simp add: same_frame_def)

lemma same_frame_update_chain [simp]: "same_frame rs (update_chain i f rs)"
  by (simp add: same_frame_def)

lemma store_skipped_key_view:
  assumes v: "receiver_view rs e = Some (ck, ks)"
  obtains rs' where "store_skipped_key rs e g = (Inr (), rs')" and "same_frame rs rs'"
    and "receiver_view rs' e = Some (ck, insert_skipped_key (MessageKeyGenerator_into_pb g) ks)"
proof -
  from v obtain i where i: "find_receiver_chain_index rs e = Some i"
    and k: "ch_message_keys (rs_receiver_chains rs ! i) = ks" by (rule receiver_view_SomeE)
  let ?rs' = "update_chain i
    (\<lambda>c. c\<lparr>ch_message_keys := insert_skipped_key (MessageKeyGenerator_into_pb g) ks\<rparr>) rs"
  have "store_skipped_key rs e g = (Inr (), ?rs')"
    by (simp add: store_skipped_key_def i k update_chain_def Let_def)
  with receiver_view_update_keys [OF v i] same_frame_update_chain that show ?thesis by blast
qed

lemma set_receiver_chain_key_view:
  assumes v: "receiver_view rs e = Some (ck, ks)" and c: "length (ck_key ck') = 32"
  obtains rs' where "set_receiver_chain_key rs e ck' = (Inr (), rs')" and "same_frame rs rs'"
    and "receiver_view rs' e = Some (ck', ks)"
proof -
  from v obtain i where i: "find_receiver_chain_index rs e = Some i" by (rule receiver_view_SomeE)
  let ?rs' = "update_chain i (\<lambda>c. c\<lparr>ch_chain_key := Some (ChainKey_to_pb ck')\<rparr>) rs"
  have "set_receiver_chain_key rs e ck' = (Inr (), ?rs')"
    by (simp add: set_receiver_chain_key_def i update_chain_def)
  with receiver_view_update_chain_key [OF v i c] same_frame_update_chain that show ?thesis by blast
qed

text \<open>The loop is the abstract \<open>skip\<close>: it caches exactly the keys of the positions passed over.\<close>

lemma skip_to_view:
  "\<lbrakk>receiver_view rs e = Some (ck0, ks); unat (ck_index ck) \<le> unat n\<rbrakk> \<Longrightarrow>
   \<exists>rs'. skip_to E rs e ck n = (fst (dr_skip E (unat n - unat (ck_index ck)) ck ks), rs') \<and>
     same_frame rs rs' \<and>
     receiver_view rs' e = Some (ck0, snd (dr_skip E (unat n - unat (ck_index ck)) ck ks))"
proof (induction "unat n - unat (ck_index ck)" arbitrary: rs ck ks)
  case 0
  then have "\<not> ck_index ck < n" by (simp add: word_less_nat_alt)
  with 0 show ?case by (simp add: skip_to.simps)
next
  case (Suc d)
  then have lt: "ck_index ck < n" by (simp add: word_less_nat_alt)
  from Suc.prems(1) obtain rs1 where s: "store_skipped_key rs e (ChainKey_message_keys E ck) = (Inr (), rs1)"
    and f: "same_frame rs rs1"
    and v: "receiver_view rs1 e = Some (ck0, insert_skipped_key (stored_message_keys E ck) ks)"
    unfolding stored_message_keys_def by (rule store_skipped_key_view)
  have "ck_index ck \<noteq> - 1" using lt unat_u32_bound [of n] by (auto simp: word_less_nat_alt simp del: unat_u32_bound)
  then obtain nk where nx: "ChainKey_next_chain_key E ck = Inr nk" using ck.nxt_Inr by blast
  have u: "unat (ck_index nk) = Suc (unat (ck_index ck))" by (rule ck.nxt_unat [OF nx])
  then have d: "d = unat n - unat (ck_index nk)" using Suc.hyps(2) by simp
  have le: "unat (ck_index nk) \<le> unat n" using u lt by (simp add: word_less_nat_alt)
  have sk: "dr_skip E (unat n - unat (ck_index ck)) ck ks =
      dr_skip E (unat n - unat (ck_index nk)) nk (insert_skipped_key (stored_message_keys E ck) ks)"
    unfolding Suc.hyps(2) [symmetric] d [symmetric] by (simp add: nx)
  have st: "skip_to E rs e ck n = skip_to E rs1 e nk n"
    by (subst skip_to.simps) (simp add: lt s nx)
  from Suc.hyps(1) [OF d v le] f show ?case
    unfolding sk st using same_frame_trans by blast
qed

section \<open>Consuming message keys\<close>

lemma dr_skip_reaches:
  assumes "unat (ck_index ck) \<le> unat n"
  obtains d ks' where "dr_skip E (unat n - unat (ck_index ck)) ck ks = (Inr d, ks')" and "ck_index d = n"
proof -
  have "unat (ck_index ck) + (unat n - unat (ck_index ck)) < 4294967296"
    using assms unat_u32_bound [of n] by (simp del: unat_u32_bound)
  then obtain d ks' where sk: "dr_skip E (unat n - unat (ck_index ck)) ck ks = (Inr d, ks')"
    using dr.skip_ok by blast
  have "unat (ck_index d) = unat n"
    using ck.advance_unat [OF dr.skip_advance [OF sk]] assms by simp
  with sk that show ?thesis by (simp add: word_unat_eq_iff)
qed

lemma not_behind_iff: "\<not> ck_index ck > n \<longleftrightarrow> unat (ck_index ck) \<le> unat n"
  by (simp add: word_less_nat_alt not_less)

text \<open>Ahead of the chain and in reach: the key is the chain's, the passed keys are cached.\<close>

lemma consume_ahead:
  assumes v: "receiver_view rs e = Some (ck, ks)" and le: "\<not> ck_index ck > n" and top: "n \<noteq> - 1"
    and near: "unat (n - ck_index ck) \<le> rs_max_forward_jumps rs" and h: "hash_lengths E"
  obtains d s' rs' where "dr_receive E n (ck, ks) = Some (stored_message_keys E d, s')"
    and "consume_message_key E rs e ck n t = (Inr (ChainKey_message_keys E d), rs')"
    and "same_frame rs rs'" and "receiver_view rs' e = Some s'"
proof -
  have u: "unat (ck_index ck) \<le> unat n" using le by (simp add: not_behind_iff)
  obtain d ks' where sk: "dr_skip E (unat n - unat (ck_index ck)) ck ks = (Inr d, ks')" and dn: "ck_index d = n"
    using u by (rule dr_skip_reaches)
  obtain d' where nx: "ChainKey_next_chain_key E d = Inr d'" using dn top ck.nxt_Inr by blast
  have l: "length (ck_key d') = 32" using nx h by (simp add: ChainKey_next_Inr_iff hmac_sha256_def)
  obtain rs1 where st: "skip_to E rs e ck n = (Inr d, rs1)" and f1: "same_frame rs rs1"
    and v1: "receiver_view rs1 e = Some (ck, ks')"
    using skip_to_view [OF v u, of E] sk by auto
  obtain rs2 where se: "set_receiver_chain_key rs1 e d' = (Inr (), rs2)" and f2: "same_frame rs1 rs2"
    and v2: "receiver_view rs2 e = Some (d', ks')"
    using v1 l by (rule set_receiver_chain_key_view)
  show ?thesis
  proof (rule that)
    show "dr_receive E n (ck, ks) = Some (stored_message_keys E d, (d', ks'))"
      using le sk nx by (simp add: dr.receive_def)
    show "consume_message_key E rs e ck n t = (Inr (ChainKey_message_keys E d), rs2)"
      using le near st nx se by (simp add: consume_message_key_def Let_def)
    show "same_frame rs rs2" using f1 f2 by (rule same_frame_trans)
    show "receiver_view rs2 e = Some (d', ks')" by (rule v2)
  qed
qed

text \<open>The last counter of \<open>u32\<close>: the chain cannot be moved past it.\<close>

lemma consume_top:
  assumes v: "receiver_view rs e = Some (ck, ks)"
    and near: "unat (- 1 - ck_index ck) \<le> rs_max_forward_jumps rs"
  shows "is_panic (fst (consume_message_key E rs e ck (- 1) t))"
proof -
  have u: "unat (ck_index ck) \<le> unat (- 1 :: u32)"
    using unat_u32_bound [of "ck_index ck"] by (simp del: unat_u32_bound)
  then have le: "\<not> ck_index ck > - 1" by (simp only: not_behind_iff)
  obtain d ks' where sk: "dr_skip E (unat (- 1 :: u32) - unat (ck_index ck)) ck ks = (Inr d, ks')"
    and dn: "ck_index d = - 1" using u by (rule dr_skip_reaches)
  obtain rs1 where st: "skip_to E rs e ck (- 1) = (Inr d, rs1)"
    using skip_to_view [OF v u, of E] sk by auto
  have nx: "ChainKey_next_chain_key E d = Inl (Panic ''attempt to add with overflow'')"
    using dn by (simp add: ChainKey_next_Inl_iff)
  show ?thesis using le near st nx by (simp add: consume_message_key_def Let_def)
qed

text \<open>Too far ahead: refused, and nothing changes.\<close>

lemma consume_far:
  "\<lbrakk>\<not> ck_index ck > n; unat (n - ck_index ck) > rs_max_forward_jumps rs\<rbrakk> \<Longrightarrow>
   consume_message_key E rs e ck n t =
     (Inl (Err (InvalidMessage t ''message from too far into the future'')), rs)"
  by (simp add: consume_message_key_def Let_def)

text \<open>Behind the chain: the cached key, or a duplicate.\<close>

lemma consume_behind:
  assumes v: "receiver_view rs e = Some (ck, ks)" and gt: "ck_index ck > n"
  shows "grab_skipped_key n ks = None \<Longrightarrow>
      consume_message_key E rs e ck n t = (Inl (Err (DuplicatedMessage (ck_index ck) n)), rs)"
    and "grab_skipped_key n ks = Some (k, ks') \<Longrightarrow> \<exists>rs'. same_frame rs rs' \<and>
      receiver_view rs' e = Some (ck, ks') \<and>
      consume_message_key E rs e ck n t =
        (map_err InvalidSessionStructure (MessageKeyGenerator_from_pb k), rs')"
proof -
  from v obtain i where i: "find_receiver_chain_index rs e = Some i"
    and k: "ch_message_keys (rs_receiver_chains rs ! i) = ks" by (rule receiver_view_SomeE)
  show "consume_message_key E rs e ck n t = (Inl (Err (DuplicatedMessage (ck_index ck) n)), rs)"
    if "grab_skipped_key n ks = None"
    using that gt i k by (simp add: consume_message_key_def take_skipped_key_def grab_skipped_key_def
        Let_def split: option.splits)
  assume g: "grab_skipped_key n ks = Some (k, ks')"
  then obtain p where p: "position (\<lambda>mk. mk_index mk = n) ks = Some p" and kp: "ks ! p = k"
    and ks': "remove_at p ks = ks'" by (auto simp: grab_skipped_key_def split: option.splits)
  let ?rs' = "update_chain i (\<lambda>c. c\<lparr>ch_message_keys := ks'\<rparr>) rs"
  have t: "take_skipped_key rs e n =
      (map_err InvalidSessionError (try_bind (MessageKeyGenerator_from_pb k) (\<lambda>g. Inr (Some g))), ?rs')"
    using i k p kp ks' by (simp add: take_skipped_key_def Let_def update_chain_def)
  have "try_bind (session_err (map_err InvalidSessionError (try_bind r (\<lambda>g. Inr (Some g)))))
      (ok_or x) = map_err InvalidSessionStructure r" for r :: "(string, MessageKeyGenerator) rresult" and x
    by (cases r) (auto simp: map_err_def split: failure.splits)
  then have "consume_message_key E rs e ck n t =
      (map_err InvalidSessionStructure (MessageKeyGenerator_from_pb k), ?rs')"
    using gt t by (simp add: consume_message_key_def Let_def)
  with receiver_view_update_keys [OF v i] same_frame_update_chain
  show "\<exists>rs'. same_frame rs rs' \<and> receiver_view rs' e = Some (ck, ks') \<and>
      consume_message_key E rs e ck n t =
        (map_err InvalidSessionStructure (MessageKeyGenerator_from_pb k), rs')" by blast
qed

lemma MessageKeyGenerator_from_pb_no_panic: "\<not> is_panic (MessageKeyGenerator_from_pb pb)"
  by (simp add: MessageKeyGenerator_from_pb_def is_panic_try_bind)

section \<open>Delivery of messages on one receiver chain\<close>

text \<open>What a receiver does for each message of a chain, in the order of delivery: find or create the
  receiver chain, then consume the key of the message's counter.\<close>

fun deliver_all :: "'r Ext \<Rightarrow> PublicKey \<Rightarrow> u32 list \<Rightarrow> RatchetState \<Rightarrow> 'r \<Rightarrow>
    MessageKeyGenerator signal_result list \<times> RatchetState" where
  "deliver_all E e [] rs rng = ([], rs)"
| "deliver_all E e (n # ns) rs rng = (case ensure_receiver_chain E rs e rng of
     (Inl f, rs1, rng1) \<Rightarrow> (let (gs, rs2) = deliver_all E e ns rs1 rng1 in (Inl f # gs, rs2))
   | (Inr ck, rs1, rng1) \<Rightarrow>
       (let (r, rs2) = consume_message_key E rs1 e ck n WhisperType;
            (gs, rs3) = deliver_all E e ns rs2 rng1
        in (r # gs, rs3)))"

lemma key_at_decodes:
  assumes h: "hash_lengths E" and k: "ck_key_at E c0 (unat n) = Some k"
  shows "MessageKeyGenerator_from_pb k = Inr (chain_generator E c0 n)"
proof -
  have "unat (ck_index c0) \<le> unat n" using k by (auto simp: ck.key_at_def split: if_splits)
  from key_at_chain_generator [OF this, of E] k have "k = MessageKeyGenerator_into_pb (chain_generator E c0 n)"
    by simp
  then show ?thesis using generator_roundtrip [OF chain_generator_ok [OF h]] by simp
qed

text \<open>One delivery: the chain's key, a duplicate, or a refused jump; in the last two cases nothing
  changes.\<close>

lemma consume_cases:
  assumes h: "hash_lengths E" and v: "receiver_view rs e = Some (ck, ks)"
    and inv: "dr_chain_inv E c0 (ck, ks)" and top: "n \<noteq> - 1"
  obtains (key) k s' rs' where "consume_message_key E rs e ck n t = (Inr (chain_generator E c0 n), rs')"
      "dr_receive E n (ck, ks) = Some (k, s')" "receiver_view rs' e = Some s'" "same_frame rs rs'"
  | (duplicate) "consume_message_key E rs e ck n t = (Inl (Err (DuplicatedMessage (ck_index ck) n)), rs)"
      "dr_gone n (ck, ks)"
  | (far) "consume_message_key E rs e ck n t =
        (Inl (Err (InvalidMessage t ''message from too far into the future'')), rs)"
      "\<not> ck_index ck > n" "unat (n - ck_index ck) > rs_max_forward_jumps rs"
proof (cases "ck_index ck > n")
  case True
  show ?thesis
  proof (cases "grab_skipped_key n ks")
    case None
    then have "dr_gone n (ck, ks)" using True by (simp add: dr.gone_def grab_skipped_key_None_iff)
    with consume_behind(1) [OF v True None, of E t] show ?thesis by (rule duplicate)
  next
    case (Some p)
    then obtain k ks' where g: "grab_skipped_key n ks = Some (k, ks')" by (cases p) auto
    then have r: "dr_receive E n (ck, ks) = Some (k, (ck, ks'))" using True by (simp add: dr.receive_def)
    have "MessageKeyGenerator_from_pb k = Inr (chain_generator E c0 n)"
      using key_at_decodes [OF h dr.receive_key(2) [OF inv r]] .
    with consume_behind(2) [OF v True g, of E t] obtain rs' where "same_frame rs rs'"
      "receiver_view rs' e = Some (ck, ks')"
      "consume_message_key E rs e ck n t = (Inr (chain_generator E c0 n), rs')" by auto
    with key r show ?thesis by blast
  qed
next
  case False
  show ?thesis
  proof (cases "unat (n - ck_index ck) > rs_max_forward_jumps rs")
    case True
    with consume_far [OF False True, of E e t] False show ?thesis by (intro far)
  next
    case near: False
    then obtain d s' rs' where r: "dr_receive E n (ck, ks) = Some (stored_message_keys E d, s')"
      and c: "consume_message_key E rs e ck n t = (Inr (ChainKey_message_keys E d), rs')"
      and f: "same_frame rs rs'" and v': "receiver_view rs' e = Some s'"
      using consume_ahead [OF v False top _ h] by (metis not_le)
    have "MessageKeyGenerator_from_pb (stored_message_keys E d) = Inr (chain_generator E c0 n)"
      using key_at_decodes [OF h dr.receive_key(2) [OF inv r]] .
    then have "ChainKey_message_keys E d = chain_generator E c0 n"
      by (simp add: stored_message_keys_def generator_roundtrip [OF ChainKey_message_keys_ok [OF h]])
    with key r c f v' show ?thesis by simp
  qed
qed

lemma deliver_all_Cons:
  assumes "receiver_view rs e = Some (ck, ks)" and "consume_message_key E rs e ck n WhisperType = (r, rs')"
  shows "deliver_all E e (n # ns) rs rng =
    (r # fst (deliver_all E e ns rs' rng), snd (deliver_all E e ns rs' rng))"
  using assms by (simp add: ensure_receiver_chain_stored split_def Let_def)

lemma deliver_in_reach:
  assumes h: "hash_lengths E"
  shows "\<lbrakk>receiver_view rs e = Some s; dr_chain_inv E ck s; distinct ns; \<forall>n \<in> set ns. \<not> dr_gone n s;
      MAX_MESSAGE_KEYS \<le> rs_max_forward_jumps rs;
      \<forall>n \<in> set ns. n \<noteq> - 1 \<and> unat n \<le> unat (ck_index ck) + MAX_MESSAGE_KEYS\<rbrakk> \<Longrightarrow>
    fst (deliver_all E e ns rs rng) = map (\<lambda>n. Inr (chain_generator E ck n)) ns"
proof (induction ns arbitrary: rs s)
  case Nil
  then show ?case by simp
next
  case (Cons n ns)
  obtain c ks where s: "s = (c, ks)" by (cases s)
  have v: "receiver_view rs e = Some (c, ks)" and inv: "dr_chain_inv E ck (c, ks)"
    and top: "n \<noteq> - 1" and near: "unat n \<le> unat (ck_index ck) + MAX_MESSAGE_KEYS"
    and ng: "\<not> dr_gone n (c, ks)"
    using Cons.prems s by auto
  have ge: "unat (ck_index ck) \<le> unat (ck_index c)" using inv by (simp add: dr.chain_inv_def)
  have reach: "unat (n - ck_index c) \<le> rs_max_forward_jumps rs" if "\<not> ck_index c > n"
    using that near ge Cons.prems(5) by (simp add: unat_sub not_less)
  obtain k s' rs' where c: "consume_message_key E rs e c n WhisperType = (Inr (chain_generator E ck n), rs')"
    and r: "dr_receive E n (c, ks) = Some (k, s')" and v': "receiver_view rs' e = Some s'"
    and f: "same_frame rs rs'"
    using consume_cases [OF h v inv top, of WhisperType] ng reach by (metis not_le)
  have keep: "\<not> dr_gone m s'" if "m \<noteq> n" "\<not> dr_gone m (c, ks)" for m
    using dr.receive_complete [OF inv ng near top] r that by auto
  have "fst (deliver_all E e ns rs' rng) = map (\<lambda>n. Inr (chain_generator E ck n)) ns"
  proof (rule Cons.IH [OF v' dr.receive_key(1) [OF inv r]])
    show "\<forall>m \<in> set ns. \<not> dr_gone m s'"
      using Cons.prems(3,4) keep s by (metis distinct.simps(2) list.set_intros(2))
  qed (use Cons.prems f in \<open>auto simp: same_frame_def\<close>)
  then show ?case using deliver_all_Cons [OF v c] by simp
qed

text \<open>C13: out-of-order delivery. On a receiver chain without cached keys, messages whose counters are
  distinct, at or up to 2000 (the cache's capacity) past the chain's index and not \<open>u32::MAX\<close> are all
  decryptable whatever the order of their arrival, and each is given exactly the key the sender's chain
  derives for its counter.\<close>

theorem out_of_order_delivery:
  assumes "hash_lengths E" and "receiver_view rs e = Some (ck, [])" and "distinct ns"
    and "MAX_MESSAGE_KEYS \<le> rs_max_forward_jumps rs"
    and "\<forall>n \<in> set ns. ck_index ck \<le> n \<and> n \<noteq> - 1 \<and> unat n \<le> unat (ck_index ck) + MAX_MESSAGE_KEYS"
  shows "fst (deliver_all E e ns rs rng) = map (\<lambda>n. Inr (chain_generator E ck n)) ns"
proof (rule deliver_in_reach [OF assms(1,2) dr.chain_inv_start assms(3) _ assms(4)])
  show "\<forall>n \<in> set ns. \<not> dr_gone n (ck, [])" using assms(5) by (auto simp: dr.gone_def not_less)
qed (use assms(5) in auto)

lemma deliver_keeps_gone:
  assumes h: "hash_lengths E"
  shows "\<lbrakk>receiver_view rs e = Some s; dr_chain_inv E c0 s; dr_gone n s; \<forall>m \<in> set ns. m \<noteq> - 1\<rbrakk> \<Longrightarrow>
    i < length ns \<Longrightarrow> ns ! i = n \<Longrightarrow>
    \<exists>a. fst (deliver_all E e ns rs rng) ! i = Inl (Err (DuplicatedMessage a n))"
proof (induction ns arbitrary: rs s i)
  case Nil
  then show ?case by simp
next
  case (Cons m ns)
  obtain c ks where s: "s = (c, ks)" by (cases s)
  have v: "receiver_view rs e = Some (c, ks)" and inv: "dr_chain_inv E c0 (c, ks)"
    and g: "dr_gone n (c, ks)" and top: "m \<noteq> - 1" using Cons.prems s by auto
  have rest: "\<exists>a. fst (deliver_all E e (m # ns) rs rng) ! i = Inl (Err (DuplicatedMessage a n))"
    if d: "consume_message_key E rs e c m WhisperType = (r, rs')" and v': "receiver_view rs' e = Some s'"
      and inv': "dr_chain_inv E c0 s'" and g': "dr_gone n s'"
      and now: "m = n \<Longrightarrow> \<exists>a. r = Inl (Err (DuplicatedMessage a n))" for r rs' s'
  proof (cases i)
    case 0
    with Cons.prems(6) now deliver_all_Cons [OF v d] show ?thesis by auto
  next
    case (Suc j)
    with Cons.IH [OF v' inv' g', of j] Cons.prems deliver_all_Cons [OF v d] show ?thesis by auto
  qed
  show ?case
  proof (rule consume_cases [OF h v inv top, of WhisperType])
    fix k s' rs'
    assume r: "dr_receive E m (c, ks) = Some (k, s')" and v': "receiver_view rs' e = Some s'"
      and c: "consume_message_key E rs e c m WhisperType = (Inr (chain_generator E c0 m), rs')"
    have "m \<noteq> n" using r dr.receive_gone_None [OF g, of E] by auto
    then show ?thesis
      by (intro rest [OF c v' dr.receive_key(1) [OF inv r] dr.receive_keeps_gone [OF inv g r]]) simp
  next
    assume c: "consume_message_key E rs e c m WhisperType =
      (Inl (Err (DuplicatedMessage (ck_index c) m)), rs)"
    show ?thesis by (rule rest [OF c v inv g]) simp
  next
    assume c: "consume_message_key E rs e c m WhisperType =
      (Inl (Err (InvalidMessage WhisperType ''message from too far into the future'')), rs)"
      and "\<not> ck_index c > m"
    then have "m \<noteq> n" using g by (auto simp: dr.gone_def)
    then show ?thesis by (intro rest [OF c v inv g]) simp
  qed
qed

lemma replay_from:
  assumes h: "hash_lengths E"
  shows "\<lbrakk>receiver_view rs e = Some s; dr_chain_inv E c0 s; \<forall>n \<in> set ns. n \<noteq> - 1\<rbrakk> \<Longrightarrow>
    i < j \<Longrightarrow> j < length ns \<Longrightarrow> ns ! i = ns ! j \<Longrightarrow> fst (deliver_all E e ns rs rng) ! i = Inr g \<Longrightarrow>
    g = chain_generator E c0 (ns ! i) \<and>
    (\<exists>a. fst (deliver_all E e ns rs rng) ! j = Inl (Err (DuplicatedMessage a (ns ! j))))"
proof (induction ns arbitrary: rs s i j)
  case Nil
  then show ?case by simp
next
  case (Cons m ns)
  obtain c ks where s: "s = (c, ks)" by (cases s)
  have v: "receiver_view rs e = Some (c, ks)" and inv: "dr_chain_inv E c0 (c, ks)"
    and top: "m \<noteq> - 1" using Cons.prems s by auto
  obtain j' where j: "j = Suc j'" using Cons.prems(4) by (cases j) auto
  have later: ?case if d: "consume_message_key E rs e c m WhisperType = (r, rs')"
      and v': "receiver_view rs' e = Some s'" and inv': "dr_chain_inv E c0 s'" and i: "i = Suc i'" for r rs' s' i'
    using Cons.IH [OF v' inv', of i' j'] Cons.prems deliver_all_Cons [OF v d] i j by auto
  have first: False if "consume_message_key E rs e c m WhisperType = (Inl f, rs')" "i = 0" for f rs'
    using that Cons.prems(7) deliver_all_Cons [OF v that(1)] by simp
  show ?case
  proof (rule consume_cases [OF h v inv top, of WhisperType])
    fix k s' rs'
    assume r: "dr_receive E m (c, ks) = Some (k, s')" and v': "receiver_view rs' e = Some s'"
      and c: "consume_message_key E rs e c m WhisperType = (Inr (chain_generator E c0 m), rs')"
    note k = dr.receive_key [OF inv r]
    show ?thesis
    proof (cases i)
      case 0
      with deliver_keeps_gone [OF h v' k(1,4), of ns j' rng] Cons.prems deliver_all_Cons [OF v c] j
      show ?thesis by auto
    next
      case (Suc i')
      with later [OF c v' k(1)] show ?thesis .
    qed
  qed (use later [OF _ v inv] first in \<open>cases i; blast\<close>)+
qed

text \<open>C15: replay protection. Whatever counters other than \<open>u32::MAX\<close> arrive on a receiver chain that
  starts without cached keys, in whatever order and with whatever failures in between, a counter that was answered once was given the chain's key of
  that counter, and is reported as a duplicate every time it arrives again.\<close>

theorem replay_is_duplicate:
  assumes "hash_lengths E" and "receiver_view rs e = Some (ck, [])" and "\<forall>n \<in> set ns. n \<noteq> - 1"
    and "i < j" and "j < length ns" and "ns ! i = ns ! j"
    and "fst (deliver_all E e ns rs rng) ! i = Inr g"
  shows "g = chain_generator E ck (ns ! i) \<and>
    (\<exists>a. fst (deliver_all E e ns rs rng) ! j = Inl (Err (DuplicatedMessage a (ns ! j))))"
  by (rule replay_from [OF assms(1,2) dr.chain_inv_start assms(3-7)])

text \<open>C16: when consuming a message key panics. On a stored receiver chain, even one with corrupt
  cached keys, the operation panics exactly when the counter is \<open>u32::MAX\<close> and within the jump limit;
  for every other counter it returns a key or an error. Sessions with oneself have no jump limit, so
  for them the counter \<open>u32::MAX\<close> always panics.\<close>

theorem consume_panics_iff:
  assumes "hash_lengths E" and "receiver_view rs e = Some (ck, ks)"
  shows "is_panic (fst (consume_message_key E rs e ck n t)) \<longleftrightarrow>
    n = - 1 \<and> unat (n - ck_index ck) \<le> rs_max_forward_jumps rs"
proof (cases "n = - 1")
  case True
  have le: "\<not> ck_index ck > - 1" by (simp add: not_less)
  show ?thesis
    using consume_top [OF assms(2), of E t] consume_far [OF le, of rs E e t] True
    by (cases "unat (- 1 - ck_index ck) \<le> rs_max_forward_jumps rs") auto
next
  case False
  have "\<not> is_panic (fst (consume_message_key E rs e ck n t))"
  proof (cases "ck_index ck > n")
    case True
    show ?thesis
    proof (cases "grab_skipped_key n ks")
      case None
      with consume_behind(1) [OF assms(2) True None, of E t] show ?thesis by simp
    next
      case (Some p)
      then obtain k ks' where "grab_skipped_key n ks = Some (k, ks')" by (cases p) auto
      with consume_behind(2) [OF assms(2) True this, of E t] show ?thesis
        by (auto simp: MessageKeyGenerator_from_pb_no_panic)
    qed
  next
    case le: False
    show ?thesis
    proof (cases "unat (n - ck_index ck) > rs_max_forward_jumps rs")
      case True
      with consume_far [OF le True, of E e t] show ?thesis by simp
    next
      case near: False
      then obtain d rs' where "consume_message_key E rs e ck n t = (Inr (ChainKey_message_keys E d), rs')"
        using consume_ahead [OF assms(2) le False _ assms(1)] by (metis not_le)
      then show ?thesis by simp
    qed
  qed
  with False show ?thesis by simp
qed

section \<open>Bounds\<close>

definition ratchet_bounded :: "RatchetState \<Rightarrow> bool" where
  "ratchet_bounded rs \<longleftrightarrow> length (rs_receiver_chains rs) \<le> MAX_RECEIVER_CHAINS \<and>
     (\<forall>c \<in> set (rs_receiver_chains rs). length (ch_message_keys c) \<le> MAX_MESSAGE_KEYS)"

lemma trim_front_drop: "trim_front n xs = drop (length xs - n) xs"
proof (induction xs)
  case Nil
  then show ?case by simp
next
  case (Cons x xs)
  then show ?case by (simp add: Suc_diff_le)
qed

lemma bounded_update_chain:
  assumes "ratchet_bounded rs" and "\<And>c. length (ch_message_keys c) \<le> MAX_MESSAGE_KEYS \<Longrightarrow>
    length (ch_message_keys (f c)) \<le> MAX_MESSAGE_KEYS"
  shows "ratchet_bounded (update_chain i f rs)"
proof (cases "i < length (rs_receiver_chains rs)")
  case True
  then show ?thesis using assms set_update_subset_insert [of "rs_receiver_chains rs" i]
    by (fastforce simp: ratchet_bounded_def update_chain_def)
next
  case False
  then show ?thesis using assms(1) by (simp add: update_chain_def list_update_beyond)
qed

lemma insert_skipped_key_bound:
  "length ks \<le> MAX_MESSAGE_KEYS \<Longrightarrow> length (insert_skipped_key k ks) \<le> MAX_MESSAGE_KEYS"
  using dr.put_length [of ks k] by simp

lemma store_skipped_key_bounded: "ratchet_bounded rs \<Longrightarrow> ratchet_bounded (snd (store_skipped_key rs e g))"
  using bounded_update_chain [of rs "\<lambda>c. c\<lparr>ch_message_keys :=
      insert_skipped_key (MessageKeyGenerator_into_pb g) (ch_message_keys c)\<rparr>"] insert_skipped_key_bound
  by (auto simp: store_skipped_key_def Let_def update_chain_def split: option.splits)

lemma set_receiver_chain_key_bounded:
  "ratchet_bounded rs \<Longrightarrow> ratchet_bounded (snd (set_receiver_chain_key rs e ck))"
  using bounded_update_chain [of rs "\<lambda>c. c\<lparr>ch_chain_key := Some (ChainKey_to_pb ck)\<rparr>"]
  by (auto simp: set_receiver_chain_key_def update_chain_def split: option.splits)

lemma take_skipped_key_bounded:
  assumes "ratchet_bounded rs"
  shows "ratchet_bounded (snd (take_skipped_key rs e n))"
proof (cases "find_receiver_chain_index rs e")
  case None
  with assms show ?thesis by (simp add: take_skipped_key_def)
next
  case (Some i)
  show ?thesis
  proof (cases "position (\<lambda>mk. mk_index mk = n) (ch_message_keys (rs_receiver_chains rs ! i))")
    case None
    with assms Some show ?thesis by (simp add: take_skipped_key_def Let_def)
  next
    case p: (Some p)
    have "snd (take_skipped_key rs e n) = update_chain i
        (\<lambda>c. c\<lparr>ch_message_keys := remove_at p (ch_message_keys c)\<rparr>) rs"
      using Some p by (simp add: take_skipped_key_def Let_def update_chain_def)
    with assms show ?thesis
      by (auto intro!: bounded_update_chain simp: remove_at_def)
  qed
qed

lemma skip_to_bounded: "ratchet_bounded rs \<Longrightarrow> ratchet_bounded (snd (skip_to E rs e ck n))"
proof (induction E rs e ck n rule: skip_to.induct)
  case (1 E rs e ck n)
  show ?case
  proof (cases "ck_index ck < n")
    case True
    obtain r rs1 where s: "store_skipped_key rs e (ChainKey_message_keys E ck) = (r, rs1)" by fastforce
    with store_skipped_key_bounded [OF "1.prems", of e "ChainKey_message_keys E ck"]
    have b: "ratchet_bounded rs1" by simp
    show ?thesis
      using 1(1) [OF True s [symmetric]] b s True
      by (subst skip_to.simps) (auto split: sum.splits)
  next
    case False
    with "1.prems" show ?thesis by (simp add: skip_to.simps)
  qed
qed

lemma consume_message_key_bounded:
  assumes "ratchet_bounded rs"
  shows "ratchet_bounded (snd (consume_message_key E rs e ck n t))"
proof -
  have "ratchet_bounded rs2" if "skip_to E rs e ck n = (r, rs1)" "set_receiver_chain_key rs1 e k = (u, rs2)"
    for r rs1 k u rs2
    using that set_receiver_chain_key_bounded [of rs1 e k] skip_to_bounded [OF assms, of E e ck n] by simp
  moreover have "ratchet_bounded rs1" if "skip_to E rs e ck n = (r, rs1)" for r rs1
    using that skip_to_bounded [OF assms, of E e ck n] by simp
  moreover have "ratchet_bounded rs1" if "take_skipped_key rs e n = (r, rs1)" for r rs1
    using that take_skipped_key_bounded [OF assms, of e n] by simp
  ultimately show ?thesis using assms
    by (auto simp: consume_message_key_def Let_def split: prod.splits sum.splits)
qed

lemma trim_front_bounded:
  "\<lbrakk>ratchet_bounded rs; length (ch_message_keys c) \<le> MAX_MESSAGE_KEYS\<rbrakk> \<Longrightarrow>
   ratchet_bounded (rs'\<lparr>rs_receiver_chains := trim_front MAX_RECEIVER_CHAINS (rs_receiver_chains rs @ [c])\<rparr>)"
  by (auto simp: ratchet_bounded_def trim_front_drop MAX_RECEIVER_CHAINS_def dest!: in_set_dropD)

lemma dh_ratchet_step_bounded:
  assumes "ratchet_bounded rs"
  shows "ratchet_bounded (fst (snd (dh_ratchet_step E rs e rng)))"
  using assms trim_front_bounded [OF assms, of "\<lparr>ch_sender_ratchet_key = _, ch_sender_ratchet_key_private = [],
      ch_chain_key = _, ch_message_keys = []\<rparr>"]
  by (auto simp: dh_ratchet_step_def take_root_key_def Let_def ratchet_bounded_def
      split: option.splits sum.splits prod.splits)

text \<open>C17: memory bounds. Whatever the remote party sends, a session keeps at most five receiver
  chains and at most 2000 skipped keys in each; every operation keeps the bound, also when it fails
  half way.\<close>

theorem ratchet_stays_bounded:
  assumes "ratchet_bounded rs"
  shows "ratchet_bounded (fst (snd (ensure_receiver_chain E rs e rng)))
    \<and> ratchet_bounded (snd (consume_message_key E rs e ck n t))
    \<and> ratchet_bounded (snd (deliver_all E e ns rs rng))"
proof -
  have en: "ratchet_bounded (fst (snd (ensure_receiver_chain E rs e rng)))" if "ratchet_bounded rs" for rs rng
    using that dh_ratchet_step_bounded [OF that, of E e rng]
    by (auto simp: ensure_receiver_chain_def split: sum.splits option.splits)
  have "ratchet_bounded (snd (deliver_all E e ns rs rng))" using assms
  proof (induction ns arbitrary: rs rng)
    case Nil
    then show ?case by simp
  next
    case (Cons n ns)
    obtain r rs1 rng1 where e: "ensure_receiver_chain E rs e rng = (r, rs1, rng1)" by (metis prod_cases3)
    with en [OF Cons.prems, of rng] have b: "ratchet_bounded rs1" by simp
    show ?case
    proof (cases r)
      case (Inl f)
      with Cons.IH [OF b] e show ?thesis by (simp add: split_def Let_def)
    next
      case (Inr ck)
      with Cons.IH [OF consume_message_key_bounded [OF b]] e show ?thesis by (simp add: split_def Let_def)
    qed
  qed
  with assms en consume_message_key_bounded show ?thesis by blast
qed

section \<open>The Diffie-Hellman ratchet keeps two parties in step\<close>

text \<open>\<open>a\<close> is one half-step ahead of \<open>b\<close>: \<open>a\<close>'s root key and the start \<open>ck\<close> of its sender chain come
  from \<open>b\<close>'s root key and the agreement between \<open>a\<close>'s new ratchet key and the ratchet key \<open>b\<close> sends
  with.\<close>

definition dh_synced :: "'r Ext \<Rightarrow> RatchetState \<Rightarrow> RatchetState \<Rightarrow> ChainKey \<Rightarrow> bool" where
  "dh_synced E a b ck \<longleftrightarrow> (\<exists>sa sb. rs_sender_chain a = Some sa \<and> rs_sender_chain b = Some sb \<and>
     key_pair_ok E (sc_ratchet_key sa) \<and> key_pair_ok E (sc_ratchet_key sb) \<and>
     RootKey_create_chain E (rs_root_key b) (kp_public_key (sc_ratchet_key sb))
       (kp_private_key (sc_ratchet_key sa)) = Inr (rs_root_key a, ck))"

definition ratchet_public :: "RatchetState \<Rightarrow> PublicKey option" where
  "ratchet_public rs = map_option (\<lambda>sc. kp_public_key (sc_ratchet_key sc)) (rs_sender_chain rs)"

lemma push_view:
  assumes "find_receiver_chain_index rs e = None" and "public_key_ok e" and "length (ck_key ck) = 32"
    and "rs_receiver_chains rs' = trim_front MAX_RECEIVER_CHAINS (rs_receiver_chains rs @
      [\<lparr>ch_sender_ratchet_key = PublicKey_serialize e, ch_sender_ratchet_key_private = p,
        ch_chain_key = Some (ChainKey_to_pb ck), ch_message_keys = []\<rparr>])"
  shows "receiver_view rs' e = Some (ck, [])"
proof -
  let ?P = "\<lambda>chain. case PublicKey_deserialize (ch_sender_ratchet_key chain) of
    Inr key \<Rightarrow> key = e | Inl _ \<Rightarrow> False"
  let ?new = "\<lparr>ch_sender_ratchet_key = PublicKey_serialize e, ch_sender_ratchet_key_private = p,
        ch_chain_key = Some (ChainKey_to_pb ck), ch_message_keys = []\<rparr>"
  define old where "old = drop (Suc (length (rs_receiver_chains rs)) - MAX_RECEIVER_CHAINS) (rs_receiver_chains rs)"
  have c: "rs_receiver_chains rs' = old @ [?new]"
    using assms(4) by (simp add: trim_front_drop old_def MAX_RECEIVER_CHAINS_def)
  have "position ?P old = None"
    using assms(1) by (auto simp: find_receiver_chain_index_def position_None_iff old_def dest: in_set_dropD)
  then have i: "find_receiver_chain_index rs' e = Some (length old)"
    unfolding find_receiver_chain_index_def c by (simp add: position_append_None assms(2))
  then have "find_receiver_chain_key rs' e = Inr (Some ck)"
    by (simp add: find_receiver_chain_key_def c assms(3))
  with i show ?thesis by (simp add: receiver_view_def c)
qed

lemma dh_step_ok:
  assumes "hash_lengths E" and "x25519_laws E" and "dh_synced E a b ck"
    and "ratchet_public a = Some e" and "find_receiver_chain_index b e = None"
    and g: "KeyPair_generate E rng = (kp, rng1)"
    and c2: "RootKey_create_chain E (rs_root_key a) e (kp_private_key kp) = Inr (rk, ck2)"
  obtains b' where "ensure_receiver_chain E b e rng = (Inr ck, b', rng1)"
    and "rs_root_key b' = rk" "rs_max_forward_jumps b' = rs_max_forward_jumps b"
    and "rs_sender_chain b' = Some \<lparr>sc_ratchet_key = kp, sc_chain_key = ck2\<rparr>"
    and "receiver_view b' e = Some (ck, [])" "dh_synced E b' a ck2"
proof -
  obtain sa sb where sa: "rs_sender_chain a = Some sa" and sb: "rs_sender_chain b = Some sb"
    and ka: "key_pair_ok E (sc_ratchet_key sa)" and kb: "key_pair_ok E (sc_ratchet_key sb)"
    and cc: "RootKey_create_chain E (rs_root_key b) (kp_public_key (sc_ratchet_key sb))
       (kp_private_key (sc_ratchet_key sa)) = Inr (rs_root_key a, ck)"
    using assms(3) by (auto simp: dh_synced_def)
  have e: "e = kp_public_key (sc_ratchet_key sa)" using assms(4) sa by (simp add: ratchet_public_def)
  have c1: "RootKey_create_chain E (rs_root_key b) e (kp_private_key (sc_ratchet_key sb)) =
      Inr (rs_root_key a, ck)"
    using cc RootKey_create_chain_agree [OF assms(2) kb ka] by (simp add: e)
  have kk: "key_pair_ok E kp" using KeyPair_generate_ok [OF assms(2) g] .
  have none: "session_err (find_receiver_chain_key b e) = Inr None"
    using assms(5) by (simp add: find_receiver_chain_key_def)
  have eok: "public_key_ok e" using key_pair_public_ok [OF assms(2) ka] e by simp
  have len: "length (ck_key ck) = 32" using RootKey_create_chain_lengths [OF assms(1) c1] by simp
  obtain b' where st: "ensure_receiver_chain E b e rng = (Inr ck, b', rng1)"
    and r: "rs_root_key b' = rk" and mj: "rs_max_forward_jumps b' = rs_max_forward_jumps b"
    and s': "rs_sender_chain b' = Some \<lparr>sc_ratchet_key = kp, sc_chain_key = ck2\<rparr>"
    and chains: "rs_receiver_chains b' = trim_front MAX_RECEIVER_CHAINS (rs_receiver_chains b @
      [\<lparr>ch_sender_ratchet_key = PublicKey_serialize e, ch_sender_ratchet_key_private = [],
        ch_chain_key = Some (ChainKey_to_pb ck), ch_message_keys = []\<rparr>])"
    using c1 c2 g sb none
    by (simp add: ensure_receiver_chain_def dh_ratchet_step_def take_root_key_def Let_def)
  have "dh_synced E b' a ck2" using sa s' r kk ka c2 e by (simp add: dh_synced_def)
  with that st s' r mj push_view [OF assms(5) eok len chains] show ?thesis by blast
qed

lemma RootKey_create_chain_InlD:
  "RootKey_create_chain E rk e k = Inl f \<Longrightarrow> f = Err InvalidKeyAgreement"
  by (auto simp: RootKey_create_chain_def PrivateKey_calculate_agreement_def res_simps Let_def
      split: if_splits prod.splits)

lemma dh_step_fails:
  assumes "x25519_laws E" "dh_synced E a b ck" "ratchet_public a = Some e" "find_receiver_chain_index b e = None"
    and g: "KeyPair_generate E rng = (kp, rng1)" and c2: "RootKey_create_chain E (rs_root_key a) e (kp_private_key kp) = Inl f"
  shows "\<exists>b'. ensure_receiver_chain E b e rng = (Inl (Err InvalidKeyAgreement), b', rng1)"
proof -
  obtain sa sb where sa: "rs_sender_chain a = Some sa" and sb: "rs_sender_chain b = Some sb"
    and ka: "key_pair_ok E (sc_ratchet_key sa)" and kb: "key_pair_ok E (sc_ratchet_key sb)"
    and cc: "RootKey_create_chain E (rs_root_key b) (kp_public_key (sc_ratchet_key sb))
       (kp_private_key (sc_ratchet_key sa)) = Inr (rs_root_key a, ck)"
    using assms(2) by (auto simp: dh_synced_def)
  have "RootKey_create_chain E (rs_root_key b) e (kp_private_key (sc_ratchet_key sb)) = Inr (rs_root_key a, ck)"
    using cc RootKey_create_chain_agree [OF assms(1) kb ka] assms(3) sa by (simp add: ratchet_public_def)
  with assms(4) g c2 sb RootKey_create_chain_InlD [OF c2] show ?thesis
    by (simp add: ensure_receiver_chain_def dh_ratchet_step_def take_root_key_def find_receiver_chain_key_def)
qed

text \<open>C14: the Diffie-Hellman ratchet. Let \<open>a\<close> be one half-step ahead of \<open>b\<close>. When \<open>b\<close> first sees
  \<open>a\<close>'s ratchet key, \<open>b\<close> obtains exactly the chain key \<open>a\<close>'s sender chain started from, and stores it
  under that ratchet key with no skipped keys; afterwards \<open>b\<close> is one half-step ahead of \<open>a\<close>, so the
  same holds for \<open>b\<close>'s next message to \<open>a\<close>, and so on forever. The step fails only when the fresh
  agreement is the all-zero point.\<close>

theorem dh_ratchet_keeps_sync:
  assumes "hash_lengths E" and "x25519_laws E" and "dh_synced E a b ck"
    and "ratchet_public a = Some e" and "find_receiver_chain_index b e = None"
  shows "case ensure_receiver_chain E b e rng of
      (Inr ck', b', rng') \<Rightarrow> ck' = ck \<and> receiver_view b' e = Some (ck, []) \<and>
        (\<exists>sc. rs_sender_chain b' = Some sc \<and> dh_synced E b' a (sc_chain_key sc))
    | (Inl f, b', rng') \<Rightarrow> f = Err InvalidKeyAgreement"
proof -
  obtain kp rng1 where g: "KeyPair_generate E rng = (kp, rng1)" by fastforce
  show ?thesis
  proof (cases "RootKey_create_chain E (rs_root_key a) e (kp_private_key kp)")
    case (Inl f)
    with dh_step_fails [OF assms(2-5) g] show ?thesis by auto
  next
    case (Inr p)
    then obtain rk ck2 where c2: "RootKey_create_chain E (rs_root_key a) e (kp_private_key kp) = Inr (rk, ck2)"
      by (cases p) auto
    show ?thesis by (rule dh_step_ok [OF assms g c2]) auto
  qed
qed

section \<open>A concrete run\<close>

definition sample_key :: "byte \<Rightarrow> KeyPair" where
  "sample_key b = \<lparr>kp_public_key = DjbPublicKey (replicate 32 b), kp_private_key = DjbPrivateKey (replicate 32 b)\<rparr>"

definition sample_chain_key :: ChainKey where
  "sample_chain_key = \<lparr>ck_key = replicate 32 3, ck_index = 0\<rparr>"

definition sample_state :: "nat \<Rightarrow> RatchetState" where
  "sample_state jumps = \<lparr>rs_root_key = RootKey (replicate 32 1),
     rs_sender_chain = Some \<lparr>sc_ratchet_key = sample_key 2, sc_chain_key = sample_chain_key\<rparr>,
     rs_receiver_chains = [\<lparr>ch_sender_ratchet_key = PublicKey_serialize (kp_public_key (sample_key 9)),
        ch_sender_ratchet_key_private = [], ch_chain_key = Some (ChainKey_to_pb sample_chain_key),
        ch_message_keys = []\<rparr>],
     rs_previous_counter = 0, rs_max_forward_jumps = jumps\<rparr>"

lemma sample_key_ok: "key_pair_ok concrete (sample_key b)"
  by (simp add: key_pair_ok_def sample_key_def PrivateKey_public_key_def curve25519_PrivateKey_from_def
      concrete_def)

lemma sample_public_ok: "public_key_ok (kp_public_key (sample_key b))"
  by (simp add: public_key_ok_def sample_key_def)

lemma sample_view:
  "receiver_view (sample_state m) (kp_public_key (sample_key 9)) = Some (sample_chain_key, [])"
proof -
  have i: "find_receiver_chain_index (sample_state m) (kp_public_key (sample_key 9)) = Some 0"
    by (simp add: find_receiver_chain_index_def sample_state_def sample_public_ok)
  have "length (ck_key sample_chain_key) = 32" by (simp add: sample_chain_key_def)
  then have "find_receiver_chain_key (sample_state m) (kp_public_key (sample_key 9)) = Inr (Some sample_chain_key)"
    by (simp add: find_receiver_chain_key_def i) (simp add: sample_state_def)
  with i show ?thesis by (simp add: receiver_view_def) (simp add: sample_state_def)
qed

lemma sample_bounded: "ratchet_bounded (sample_state m)"
  by (simp add: ratchet_bounded_def sample_state_def MAX_RECEIVER_CHAINS_def)

lemma sample_agreement:
  assumes "a + b \<noteq> 0"
  obtains rk ck where "RootKey_create_chain concrete r (kp_public_key (sample_key a))
    (kp_private_key (sample_key b)) = Inr (rk, ck)"
  using assms that
  by (simp add: RootKey_create_chain_def PrivateKey_calculate_agreement_def sample_key_def
      curve25519_PrivateKey_from_def derive_arrays_def Let_def add.commute
      concrete_def)

theorem out_of_order_delivery_witness:
  "fst (deliver_all concrete (kp_public_key (sample_key 9)) [2, 0, 1] (sample_state MAX_FORWARD_JUMPS) 0)
    = map (\<lambda>n. Inr (chain_generator concrete sample_chain_key n)) [2, 0, 1]"
  by (rule out_of_order_delivery [OF concrete_hash_lengths sample_view])
     (simp_all add: sample_state_def MAX_FORWARD_JUMPS_def MAX_MESSAGE_KEYS_def sample_chain_key_def)

theorem replay_is_duplicate_witness:
  "\<exists>a. fst (deliver_all concrete (kp_public_key (sample_key 9)) [1, 0, 1] (sample_state MAX_FORWARD_JUMPS) 0) ! 2
    = Inl (Err (DuplicatedMessage a 1))"
proof -
  let ?e = "kp_public_key (sample_key 9)" and ?rs = "sample_state MAX_FORWARD_JUMPS"
  obtain d rs' where c: "consume_message_key concrete ?rs ?e sample_chain_key 1 WhisperType =
      (Inr (ChainKey_message_keys concrete d), rs')"
    by (rule consume_ahead [OF sample_view _ _ _ concrete_hash_lengths, of 1 MAX_FORWARD_JUMPS WhisperType])
       (simp_all add: sample_chain_key_def sample_state_def MAX_FORWARD_JUMPS_def)
  have "fst (deliver_all concrete ?e [1, 0, 1] ?rs 0) ! 0 = Inr (ChainKey_message_keys concrete d)"
    using deliver_all_Cons [OF sample_view c, of "[0, 1]" 0] by simp
  from replay_is_duplicate [OF concrete_hash_lengths sample_view, of "[1, 0, 1]" 0 2, OF _ _ _ _ this]
  show ?thesis by simp
qed

theorem consume_panics_iff_witness:
  "is_panic (fst (consume_message_key concrete (sample_state usize_MAX) (kp_public_key (sample_key 9))
      sample_chain_key (- 1) WhisperType))
   \<and> \<not> is_panic (fst (consume_message_key concrete (sample_state MAX_FORWARD_JUMPS)
      (kp_public_key (sample_key 9)) sample_chain_key (- 1) WhisperType))"
  using consume_panics_iff [OF concrete_hash_lengths sample_view, of usize_MAX "- 1" WhisperType]
    consume_panics_iff [OF concrete_hash_lengths sample_view, of MAX_FORWARD_JUMPS "- 1" WhisperType]
  by (simp add: sample_state_def sample_chain_key_def usize_MAX_def MAX_FORWARD_JUMPS_def)

theorem ratchet_stays_bounded_witness:
  "ratchet_bounded (snd (deliver_all concrete (kp_public_key (sample_key 9)) [2, 0, 1]
     (sample_state MAX_FORWARD_JUMPS) 0))"
  using ratchet_stays_bounded [OF sample_bounded [of MAX_FORWARD_JUMPS], of concrete "kp_public_key (sample_key 9)" 0
      sample_chain_key 0 WhisperType "[2, 0, 1]"] by simp

theorem dh_ratchet_keeps_sync_witness:
  "\<exists>a ck. dh_synced concrete a (sample_state 0) ck \<and>
     (case ensure_receiver_chain concrete (sample_state 0) (kp_public_key (sample_key 5)) 0 of
        (Inr ck', b', rng') \<Rightarrow> ck' = ck \<and> receiver_view b' (kp_public_key (sample_key 5)) = Some (ck, [])
      | (Inl f, b', rng') \<Rightarrow> f = Err InvalidKeyAgreement)"
proof -
  obtain rk ck where cc: "RootKey_create_chain concrete (RootKey (replicate 32 1)) (kp_public_key (sample_key 2))
      (kp_private_key (sample_key 5)) = Inr (rk, ck)"
    by (rule sample_agreement [of 2 5]) simp_all
  define a where "a = (sample_state 0)\<lparr>rs_root_key := rk,
    rs_sender_chain := Some \<lparr>sc_ratchet_key = sample_key 5, sc_chain_key = ck\<rparr>\<rparr>"
  have s: "dh_synced concrete a (sample_state 0) ck"
    using cc by (simp add: dh_synced_def a_def sample_key_ok) (simp add: sample_state_def sample_key_ok)
  have p: "ratchet_public a = Some (kp_public_key (sample_key 5))" by (simp add: ratchet_public_def a_def)
  have n: "find_receiver_chain_index (sample_state 0) (kp_public_key (sample_key 5)) = None"
    by (simp add: find_receiver_chain_index_def sample_state_def sample_public_ok) (simp add: sample_key_def)
  from dh_ratchet_keeps_sync [OF concrete_hash_lengths concrete_x25519_laws s p n, of 0] s
  show ?thesis by (auto split: prod.splits sum.splits)
qed

end
