(* ===== verification/Wire_Messages.thy ===== *)
theory Wire_Messages
  imports Crypto
begin

unbundle bit_operations_syntax

text \<open>
  \<open>rust/protocol/src/protocol.rs\<close>: the messages that travel between devices, their construction
  (version byte, protobuf, MAC or signature) and their parsing from bytes. Every message keeps the
  bytes it was built from or parsed from in \<open>serialized\<close>.
\<close>

definition CIPHERTEXT_MESSAGE_CURRENT_VERSION :: byte where "CIPHERTEXT_MESSAGE_CURRENT_VERSION = 4"
definition CIPHERTEXT_MESSAGE_PRE_KYBER_VERSION :: byte where "CIPHERTEXT_MESSAGE_PRE_KYBER_VERSION = 3"
definition SENDERKEY_MESSAGE_CURRENT_VERSION :: byte where "SENDERKEY_MESSAGE_CURRENT_VERSION = 3"

lemmas version_defs = CIPHERTEXT_MESSAGE_CURRENT_VERSION_def CIPHERTEXT_MESSAGE_PRE_KYBER_VERSION_def
  SENDERKEY_MESSAGE_CURRENT_VERSION_def

text \<open>\<open>((v & 0xF) << 4) | current\<close> and \<open>b >> 4\<close>.\<close>

definition version_byte :: "byte \<Rightarrow> byte \<Rightarrow> byte" where
  "version_byte message_version current = push_bit 4 (message_version AND 0xF) OR current"

definition high_nibble :: "byte \<Rightarrow> byte" where
  "high_nibble b = drop_bit 4 b"

text \<open>\<open>slice::split_last_chunk::<N>\<close>.\<close>

definition split_last_chunk :: "nat \<Rightarrow> bytes \<Rightarrow> (bytes \<times> bytes) option" where
  "split_last_chunk n bs = (if length bs < n then None
     else Some (take (length bs - n) bs, drop (length bs - n) bs))"

section \<open>\<open>SignalMessage\<close>\<close>

record SignalMessage =
  sm_message_version :: byte
  sm_sender_ratchet_key :: PublicKey
  sm_counter :: u32
  sm_previous_counter :: u32
  sm_ciphertext :: bytes
  sm_pq_ratchet :: bytes
  sm_addresses :: "bytes option"
  sm_serialized :: bytes

definition SignalMessage_MAC_LENGTH :: nat where "SignalMessage_MAC_LENGTH = 8"

definition SignalMessage_serialize_addresses ::
    "'r Ext \<Rightarrow> ProtocolAddress \<Rightarrow> ProtocolAddress \<Rightarrow> bytes option" where
  "SignalMessage_serialize_addresses E sender recipient =
     (case ServiceId_parse_from_service_id_string E (pa_name sender) of None \<Rightarrow> None
      | Some sender_service_id \<Rightarrow>
     (case ServiceId_parse_from_service_id_string E (pa_name recipient) of None \<Rightarrow> None
      | Some recipient_service_id \<Rightarrow>
         Some (ServiceId_service_id_fixed_width_binary sender_service_id @
               [device_id_u8 (pa_device_id sender)] @
               ServiceId_service_id_fixed_width_binary recipient_service_id @
               [device_id_u8 (pa_device_id recipient)])))"

definition SignalMessage_compute_mac ::
    "'r Ext \<Rightarrow> IdentityKey \<Rightarrow> IdentityKey \<Rightarrow> bytes \<Rightarrow> bytes \<Rightarrow> bytes signal_result" where
  "SignalMessage_compute_mac E sender_identity_key receiver_identity_key mac_key message =
     (if length mac_key \<noteq> 32 then Inl (Err (InvalidMacKeyLength (length mac_key)))
      else Inr (take SignalMessage_MAC_LENGTH (x_hmac_sha256 E mac_key
        (PublicKey_serialize (identity_public_key sender_identity_key) @
         PublicKey_serialize (identity_public_key receiver_identity_key) @ message))))"

definition SignalMessage_new ::
    "'r Ext \<Rightarrow> byte \<Rightarrow> bytes \<Rightarrow> (ProtocolAddress \<times> ProtocolAddress) option \<Rightarrow> PublicKey \<Rightarrow> u32 \<Rightarrow> u32 \<Rightarrow>
     bytes \<Rightarrow> IdentityKey \<Rightarrow> IdentityKey \<Rightarrow> bytes \<Rightarrow> SignalMessage signal_result" where
  "SignalMessage_new E message_version mac_key addresses sender_ratchet_key counter previous_counter
     ciphertext sender_identity_key receiver_identity_key pq_ratchet =
     (let addresses' = (case addresses of None \<Rightarrow> None
            | Some (sender, recipient) \<Rightarrow> SignalMessage_serialize_addresses E sender recipient);
          message = \<lparr>wsm_ratchet_key = Some (PublicKey_serialize sender_ratchet_key),
                     wsm_counter = Some counter, wsm_previous_counter = Some previous_counter,
                     wsm_ciphertext = Some ciphertext,
                     wsm_pq_ratchet = (if pq_ratchet = [] then None else Some pq_ratchet),
                     wsm_addresses = addresses'\<rparr>;
          serialized = version_byte message_version CIPHERTEXT_MESSAGE_CURRENT_VERSION #
                       x_encode_signal_message E message
      in try_bind (SignalMessage_compute_mac E sender_identity_key receiver_identity_key mac_key serialized)
           (\<lambda>mac. Inr \<lparr>sm_message_version = message_version, sm_sender_ratchet_key = sender_ratchet_key,
              sm_counter = counter, sm_previous_counter = previous_counter, sm_ciphertext = ciphertext,
              sm_pq_ratchet = pq_ratchet, sm_addresses = addresses', sm_serialized = serialized @ mac\<rparr>))"

definition SignalMessage_verify_mac ::
    "'r Ext \<Rightarrow> SignalMessage \<Rightarrow> IdentityKey \<Rightarrow> IdentityKey \<Rightarrow> bytes \<Rightarrow> bool signal_result" where
  "SignalMessage_verify_mac E m sender_identity_key receiver_identity_key mac_key =
     try_bind (expect ''length checked at construction''
       (split_last_chunk SignalMessage_MAC_LENGTH (sm_serialized m))) (\<lambda>(content, their_mac).
     try_bind (SignalMessage_compute_mac E sender_identity_key receiver_identity_key mac_key content)
       (\<lambda>our_mac. Inr (our_mac = their_mac)))"

definition SignalMessage_verify_mac_with_addresses ::
    "'r Ext \<Rightarrow> SignalMessage \<Rightarrow> ProtocolAddress \<Rightarrow> ProtocolAddress \<Rightarrow> IdentityKey \<Rightarrow> IdentityKey \<Rightarrow> bytes \<Rightarrow>
     bool signal_result" where
  "SignalMessage_verify_mac_with_addresses E m sender_address recipient_address
     sender_identity_key receiver_identity_key mac_key =
     try_bind (SignalMessage_verify_mac E m sender_identity_key receiver_identity_key mac_key) (\<lambda>ok.
       if \<not> ok then Inr False
       else (case sm_addresses m of
          None \<Rightarrow> Inr True
        | Some encoded_addresses \<Rightarrow>
           (case SignalMessage_serialize_addresses E sender_address recipient_address of
              None \<Rightarrow> Inr False
            | Some expected \<Rightarrow> Inr (expected = encoded_addresses))))"

definition SignalMessage_try_from :: "'r Ext \<Rightarrow> bytes \<Rightarrow> SignalMessage signal_result" where
  "SignalMessage_try_from E value =
     (if length value < SignalMessage_MAC_LENGTH + 1 then Inl (Err (CiphertextMessageTooShort (length value)))
      else try_bind (index_at value 0) (\<lambda>first_byte. let message_version = high_nibble first_byte in
      if message_version < CIPHERTEXT_MESSAGE_PRE_KYBER_VERSION
      then Inl (Err (LegacyCiphertextVersion message_version))
      else if message_version > CIPHERTEXT_MESSAGE_CURRENT_VERSION
      then Inl (Err (UnrecognizedCiphertextVersion message_version))
      else
        try_bind (usize_sub (length value) SignalMessage_MAC_LENGTH) (\<lambda>end_index.
        try_bind (slice_range value 1 end_index) (\<lambda>body.
        try_bind (ok_or InvalidProtobufEncoding (x_decode_signal_message E body)) (\<lambda>proto_structure.
        try_bind (ok_or InvalidProtobufEncoding (wsm_ratchet_key proto_structure)) (\<lambda>key_bytes.
        try_bind (curve_err (PublicKey_deserialize key_bytes)) (\<lambda>sender_ratchet_key.
        try_bind (ok_or InvalidProtobufEncoding (wsm_counter proto_structure)) (\<lambda>counter.
        let previous_counter = case_option 0 id (wsm_previous_counter proto_structure) in
        try_bind (ok_or InvalidProtobufEncoding (wsm_ciphertext proto_structure)) (\<lambda>ciphertext.
        Inr \<lparr>sm_message_version = message_version, sm_sender_ratchet_key = sender_ratchet_key,
             sm_counter = counter, sm_previous_counter = previous_counter, sm_ciphertext = ciphertext,
             sm_pq_ratchet = case_option [] id (wsm_pq_ratchet proto_structure),
             sm_addresses = wsm_addresses proto_structure, sm_serialized = value\<rparr>)))))))))"

section \<open>\<open>PreKeySignalMessage\<close>\<close>

record KyberPayload =
  kyp_pre_key_id :: u32
  kyp_ciphertext :: bytes

record PreKeySignalMessage =
  pk_message_version :: byte
  pk_registration_id :: u32
  pk_pre_key_id :: "u32 option"
  pk_signed_pre_key_id :: u32
  pk_kyber_payload :: "KyberPayload option"
  pk_base_key :: PublicKey
  pk_identity_key :: IdentityKey
  pk_message :: SignalMessage
  pk_serialized :: bytes

definition PreKeySignalMessage_new ::
    "'r Ext \<Rightarrow> byte \<Rightarrow> u32 \<Rightarrow> u32 option \<Rightarrow> u32 \<Rightarrow> KyberPayload option \<Rightarrow> PublicKey \<Rightarrow> IdentityKey \<Rightarrow>
     SignalMessage \<Rightarrow> PreKeySignalMessage signal_result" where
  "PreKeySignalMessage_new E message_version registration_id pre_key_id signed_pre_key_id kyber_payload
     base_key identity_key message =
     (let proto_message = \<lparr>wpk_registration_id = Some registration_id, wpk_pre_key_id = pre_key_id,
            wpk_signed_pre_key_id = Some signed_pre_key_id,
            wpk_kyber_pre_key_id = map_option kyp_pre_key_id kyber_payload,
            wpk_kyber_ciphertext = map_option kyp_ciphertext kyber_payload,
            wpk_base_key = Some (PublicKey_serialize base_key),
            wpk_identity_key = Some (IdentityKey_serialize identity_key),
            wpk_message = Some (sm_serialized message)\<rparr>;
          serialized = version_byte message_version CIPHERTEXT_MESSAGE_CURRENT_VERSION #
            x_encode_pre_key_signal_message E proto_message
      in Inr \<lparr>pk_message_version = message_version, pk_registration_id = registration_id,
              pk_pre_key_id = pre_key_id, pk_signed_pre_key_id = signed_pre_key_id,
              pk_kyber_payload = kyber_payload, pk_base_key = base_key, pk_identity_key = identity_key,
              pk_message = message, pk_serialized = serialized\<rparr>)"

definition PreKeySignalMessage_try_from :: "'r Ext \<Rightarrow> bytes \<Rightarrow> PreKeySignalMessage signal_result" where
  "PreKeySignalMessage_try_from E value =
     (if value = [] then Inl (Err (CiphertextMessageTooShort (length value)))
      else try_bind (index_at value 0) (\<lambda>first_byte. let message_version = high_nibble first_byte in
      if message_version < CIPHERTEXT_MESSAGE_PRE_KYBER_VERSION
      then Inl (Err (LegacyCiphertextVersion message_version))
      else if message_version > CIPHERTEXT_MESSAGE_CURRENT_VERSION
      then Inl (Err (UnrecognizedCiphertextVersion message_version))
      else
        try_bind (slice_from value 1) (\<lambda>body.
        try_bind (ok_or InvalidProtobufEncoding (x_decode_pre_key_signal_message E body)) (\<lambda>proto_structure.
        try_bind (ok_or InvalidProtobufEncoding (wpk_base_key proto_structure)) (\<lambda>base_key_bytes.
        try_bind (ok_or InvalidProtobufEncoding (wpk_identity_key proto_structure)) (\<lambda>identity_key_bytes.
        try_bind (ok_or InvalidProtobufEncoding (wpk_message proto_structure)) (\<lambda>message_bytes.
        try_bind (ok_or InvalidProtobufEncoding (wpk_signed_pre_key_id proto_structure)) (\<lambda>signed_pre_key_id.
        try_bind (curve_err (PublicKey_deserialize base_key_bytes)) (\<lambda>base_key.
        try_bind (case (wpk_kyber_pre_key_id proto_structure, wpk_kyber_ciphertext proto_structure) of
            (Some i, Some ct) \<Rightarrow> Inr (Some \<lparr>kyp_pre_key_id = i, kyp_ciphertext = ct\<rparr>)
          | (None, None) \<Rightarrow>
              if message_version \<le> CIPHERTEXT_MESSAGE_PRE_KYBER_VERSION then Inr None
              else Inl (Err (InvalidMessage PreKeyType
                     ''Kyber pre key must be present for this session version''))
          | _ \<Rightarrow> Inl (Err (InvalidMessage PreKeyType
                     ''Both or neither kyber pre_key_id and kyber_ciphertext can be present'')))
          (\<lambda>kyber_payload.
        try_bind (IdentityKey_decode identity_key_bytes) (\<lambda>identity_key.
        try_bind (SignalMessage_try_from E message_bytes) (\<lambda>message.
        Inr \<lparr>pk_message_version = message_version,
             pk_registration_id = case_option 0 id (wpk_registration_id proto_structure),
             pk_pre_key_id = wpk_pre_key_id proto_structure, pk_signed_pre_key_id = signed_pre_key_id,
             pk_kyber_payload = kyber_payload, pk_base_key = base_key, pk_identity_key = identity_key,
             pk_message = message, pk_serialized = value\<rparr>))))))))))))"

section \<open>\<open>SenderKeyMessage\<close>\<close>

record SenderKeyMessage =
  skm_message_version :: byte
  skm_distribution_id :: bytes
  skm_chain_id :: u32
  skm_iteration :: u32
  skm_ciphertext :: bytes
  skm_serialized :: bytes

definition SenderKeyMessage_SIGNATURE_LEN :: nat where "SenderKeyMessage_SIGNATURE_LEN = 64"

definition SenderKeyMessage_new ::
    "'r Ext \<Rightarrow> byte \<Rightarrow> bytes \<Rightarrow> u32 \<Rightarrow> u32 \<Rightarrow> bytes \<Rightarrow> 'r \<Rightarrow> PrivateKey \<Rightarrow> SenderKeyMessage signal_result \<times> 'r" where
  "SenderKeyMessage_new E message_version distribution_id chain_id iteration ciphertext rng signature_key =
     (let proto_message = \<lparr>wsk_distribution_uuid = Some distribution_id, wsk_chain_id = Some chain_id,
            wsk_iteration = Some iteration, wsk_ciphertext = Some ciphertext\<rparr>;
          serialized = version_byte message_version SENDERKEY_MESSAGE_CURRENT_VERSION #
            x_encode_sender_key_message E proto_message;
          (r, rng') = PrivateKey_calculate_signature E signature_key serialized rng
      in (try_bind (curve_err r) (\<lambda>signature.
            Inr \<lparr>skm_message_version = SENDERKEY_MESSAGE_CURRENT_VERSION,
                 skm_distribution_id = distribution_id, skm_chain_id = chain_id,
                 skm_iteration = iteration, skm_ciphertext = ciphertext,
                 skm_serialized = serialized @ signature\<rparr>), rng'))"

definition SenderKeyMessage_verify_signature ::
    "'r Ext \<Rightarrow> SenderKeyMessage \<Rightarrow> PublicKey \<Rightarrow> bool signal_result" where
  "SenderKeyMessage_verify_signature E m signature_key =
     try_bind (expect ''length checked on initialization''
       (split_last_chunk SenderKeyMessage_SIGNATURE_LEN (skm_serialized m))) (\<lambda>(content, signature).
     Inr (PublicKey_verify_signature E signature_key content signature))"

definition SenderKeyMessage_try_from :: "'r Ext \<Rightarrow> bytes \<Rightarrow> SenderKeyMessage signal_result" where
  "SenderKeyMessage_try_from E value =
     (if length value < 1 + SenderKeyMessage_SIGNATURE_LEN
      then Inl (Err (CiphertextMessageTooShort (length value)))
      else try_bind (index_at value 0) (\<lambda>first_byte. let message_version = high_nibble first_byte in
      if message_version < SENDERKEY_MESSAGE_CURRENT_VERSION
      then Inl (Err (LegacyCiphertextVersion message_version))
      else if message_version > SENDERKEY_MESSAGE_CURRENT_VERSION
      then Inl (Err (UnrecognizedCiphertextVersion message_version))
      else
        try_bind (usize_sub (length value) SenderKeyMessage_SIGNATURE_LEN) (\<lambda>end_index.
        try_bind (slice_range value 1 end_index) (\<lambda>body.
        try_bind (ok_or InvalidProtobufEncoding (x_decode_sender_key_message E body)) (\<lambda>proto_structure.
        try_bind (ok_or InvalidProtobufEncoding
          (Option.bind (wsk_distribution_uuid proto_structure) (x_uuid_from_slice E))) (\<lambda>distribution_id.
        try_bind (ok_or InvalidProtobufEncoding (wsk_chain_id proto_structure)) (\<lambda>chain_id.
        try_bind (ok_or InvalidProtobufEncoding (wsk_iteration proto_structure)) (\<lambda>iteration.
        try_bind (ok_or InvalidProtobufEncoding (wsk_ciphertext proto_structure)) (\<lambda>ciphertext.
        Inr \<lparr>skm_message_version = message_version, skm_distribution_id = distribution_id,
             skm_chain_id = chain_id, skm_iteration = iteration, skm_ciphertext = ciphertext,
             skm_serialized = value\<rparr>)))))))))"

section \<open>\<open>SenderKeyDistributionMessage\<close>\<close>

record SenderKeyDistributionMessage =
  skd_message_version :: byte
  skd_distribution_id :: bytes
  skd_chain_id :: u32
  skd_iteration :: u32
  skd_chain_key :: bytes
  skd_signing_key :: PublicKey
  skd_serialized :: bytes

definition SenderKeyDistributionMessage_new ::
    "'r Ext \<Rightarrow> byte \<Rightarrow> bytes \<Rightarrow> u32 \<Rightarrow> u32 \<Rightarrow> bytes \<Rightarrow> PublicKey \<Rightarrow> SenderKeyDistributionMessage signal_result" where
  "SenderKeyDistributionMessage_new E message_version distribution_id chain_id iteration chain_key signing_key =
     (let proto_message = \<lparr>wsd_distribution_uuid = Some distribution_id, wsd_chain_id = Some chain_id,
            wsd_iteration = Some iteration, wsd_chain_key = Some chain_key,
            wsd_signing_key = Some (PublicKey_serialize signing_key)\<rparr>
      in Inr \<lparr>skd_message_version = message_version, skd_distribution_id = distribution_id,
              skd_chain_id = chain_id, skd_iteration = iteration, skd_chain_key = chain_key,
              skd_signing_key = signing_key,
              skd_serialized = version_byte message_version SENDERKEY_MESSAGE_CURRENT_VERSION #
                x_encode_skdm E proto_message\<rparr>)"

definition SenderKeyDistributionMessage_try_from ::
    "'r Ext \<Rightarrow> bytes \<Rightarrow> SenderKeyDistributionMessage signal_result" where
  "SenderKeyDistributionMessage_try_from E value =
     (if length value < 1 + 32 + 32 then Inl (Err (CiphertextMessageTooShort (length value)))
      else try_bind (index_at value 0) (\<lambda>first_byte. let message_version = high_nibble first_byte in
      if message_version < SENDERKEY_MESSAGE_CURRENT_VERSION
      then Inl (Err (LegacyCiphertextVersion message_version))
      else if message_version > SENDERKEY_MESSAGE_CURRENT_VERSION
      then Inl (Err (UnrecognizedCiphertextVersion message_version))
      else
        try_bind (slice_from value 1) (\<lambda>body.
        try_bind (ok_or InvalidProtobufEncoding (x_decode_skdm E body)) (\<lambda>proto_structure.
        try_bind (ok_or InvalidProtobufEncoding
          (Option.bind (wsd_distribution_uuid proto_structure) (x_uuid_from_slice E))) (\<lambda>distribution_id.
        try_bind (ok_or InvalidProtobufEncoding (wsd_chain_id proto_structure)) (\<lambda>chain_id.
        try_bind (ok_or InvalidProtobufEncoding (wsd_iteration proto_structure)) (\<lambda>iteration.
        try_bind (ok_or InvalidProtobufEncoding (wsd_chain_key proto_structure)) (\<lambda>chain_key.
        try_bind (ok_or InvalidProtobufEncoding (wsd_signing_key proto_structure)) (\<lambda>signing_key_bytes.
        if length chain_key \<noteq> 32 \<or> length signing_key_bytes \<noteq> 33
        then Inl (Err InvalidProtobufEncoding)
        else
        try_bind (curve_err (PublicKey_deserialize signing_key_bytes)) (\<lambda>signing_key.
        Inr \<lparr>skd_message_version = message_version, skd_distribution_id = distribution_id,
             skd_chain_id = chain_id, skd_iteration = iteration, skd_chain_key = chain_key,
             skd_signing_key = signing_key, skd_serialized = value\<rparr>))))))))))"

section \<open>Plaintext content and decryption errors\<close>

datatype PlaintextContent = PlaintextContent (plaintext_serialized: bytes)

definition PLAINTEXT_CONTEXT_IDENTIFIER_BYTE :: byte where "PLAINTEXT_CONTEXT_IDENTIFIER_BYTE = 0xC0"
definition PADDING_BOUNDARY_BYTE :: byte where "PADDING_BOUNDARY_BYTE = 0x80"

definition PlaintextContent_body :: "PlaintextContent \<Rightarrow> bytes signal_result" where
  "PlaintextContent_body p = slice_from (plaintext_serialized p) 1"

record DecryptionErrorMessage =
  dec_ratchet_key :: "PublicKey option"
  dec_timestamp :: u64
  dec_device_id :: u32
  dec_serialized :: bytes

definition PlaintextContent_from :: "'r Ext \<Rightarrow> DecryptionErrorMessage \<Rightarrow> PlaintextContent" where
  "PlaintextContent_from E message = PlaintextContent (PLAINTEXT_CONTEXT_IDENTIFIER_BYTE #
     x_encode_content E (dec_serialized message) @ [PADDING_BOUNDARY_BYTE])"

definition PlaintextContent_try_from :: "bytes \<Rightarrow> PlaintextContent signal_result" where
  "PlaintextContent_try_from value =
     (if value = [] then Inl (Err (CiphertextMessageTooShort 0))
      else try_bind (index_at value 0) (\<lambda>first_byte.
        if first_byte \<noteq> PLAINTEXT_CONTEXT_IDENTIFIER_BYTE
        then Inl (Err (UnrecognizedMessageVersion (ucast first_byte)))
        else Inr (PlaintextContent value)))"

definition DecryptionErrorMessage_for_original ::
    "'r Ext \<Rightarrow> bytes \<Rightarrow> CiphertextMessageType \<Rightarrow> u64 \<Rightarrow> u32 \<Rightarrow> DecryptionErrorMessage signal_result" where
  "DecryptionErrorMessage_for_original E original_bytes original_type original_timestamp device_id =
     try_bind (case original_type of
         WhisperType \<Rightarrow> try_bind (SignalMessage_try_from E original_bytes)
           (\<lambda>m. Inr (Some (sm_sender_ratchet_key m)))
       | PreKeyType \<Rightarrow> try_bind (PreKeySignalMessage_try_from E original_bytes)
           (\<lambda>m. Inr (Some (sm_sender_ratchet_key (pk_message m))))
       | SenderKeyType \<Rightarrow> Inr None
       | PlaintextType \<Rightarrow> Inl (Err (InvalidArgument
           ''cannot create a DecryptionErrorMessage for plaintext content; it is not encrypted'')))
     (\<lambda>ratchet_key. Inr \<lparr>dec_ratchet_key = ratchet_key, dec_timestamp = original_timestamp,
        dec_device_id = device_id,
        dec_serialized = x_encode_decryption_error E
          \<lparr>dem_ratchet_key = map_option PublicKey_serialize ratchet_key,
           dem_timestamp = Some original_timestamp, dem_device_id = Some device_id\<rparr>\<rparr>)"

definition DecryptionErrorMessage_try_from :: "'r Ext \<Rightarrow> bytes \<Rightarrow> DecryptionErrorMessage signal_result" where
  "DecryptionErrorMessage_try_from E value =
     try_bind (ok_or InvalidProtobufEncoding (x_decode_decryption_error E value)) (\<lambda>proto_structure.
     try_bind (ok_or InvalidProtobufEncoding (dem_timestamp proto_structure)) (\<lambda>timestamp.
     try_bind (case dem_ratchet_key proto_structure of None \<Rightarrow> Inr None
       | Some k \<Rightarrow> try_bind (curve_err (PublicKey_deserialize k)) (\<lambda>key. Inr (Some key))) (\<lambda>ratchet_key.
     Inr \<lparr>dec_ratchet_key = ratchet_key, dec_timestamp = timestamp,
          dec_device_id = case_option 0 id (dem_device_id proto_structure), dec_serialized = value\<rparr>)))"

text \<open>\<open>slice::last\<close> and \<open>slice::split_last\<close>, whose first part is the last element.\<close>

definition slice_last :: "'a list \<Rightarrow> 'a option" where
  "slice_last xs = (if xs = [] then None else Some (last xs))"

definition split_last :: "'a list \<Rightarrow> ('a \<times> 'a list) option" where
  "split_last xs = (if xs = [] then None else Some (last xs, butlast xs))"

definition extract_decryption_error_message_from_serialized_content ::
    "'r Ext \<Rightarrow> bytes \<Rightarrow> DecryptionErrorMessage signal_result" where
  "extract_decryption_error_message_from_serialized_content E bs =
     (if slice_last bs \<noteq> Some PADDING_BOUNDARY_BYTE then Inl (Err InvalidProtobufEncoding)
      else try_bind (expect ''checked above'' (split_last bs)) (\<lambda>(_, body).
           try_bind (ok_or InvalidProtobufEncoding (x_decode_content E body)) (\<lambda>content.
           try_bind (ok_or (InvalidArgument ''Content does not contain DecryptionErrorMessage'') content)
             (DecryptionErrorMessage_try_from E))))"

section \<open>\<open>CiphertextMessage\<close>\<close>

datatype CiphertextMessage =
    CSignalMessage SignalMessage
  | CPreKeySignalMessage PreKeySignalMessage
  | CSenderKeyMessage SenderKeyMessage
  | CPlaintextContent PlaintextContent

fun CiphertextMessage_message_type :: "CiphertextMessage \<Rightarrow> CiphertextMessageType" where
  "CiphertextMessage_message_type (CSignalMessage _) = WhisperType"
| "CiphertextMessage_message_type (CPreKeySignalMessage _) = PreKeyType"
| "CiphertextMessage_message_type (CSenderKeyMessage _) = SenderKeyType"
| "CiphertextMessage_message_type (CPlaintextContent _) = PlaintextType"

fun CiphertextMessage_serialize :: "CiphertextMessage \<Rightarrow> bytes" where
  "CiphertextMessage_serialize (CSignalMessage x) = sm_serialized x"
| "CiphertextMessage_serialize (CPreKeySignalMessage x) = pk_serialized x"
| "CiphertextMessage_serialize (CSenderKeyMessage x) = skm_serialized x"
| "CiphertextMessage_serialize (CPlaintextContent x) = plaintext_serialized x"

section \<open>Version bytes\<close>

lemma high_nibble_version_byte [simp]:
  "high_nibble (version_byte 3 CIPHERTEXT_MESSAGE_CURRENT_VERSION) = 3"
  "high_nibble (version_byte 4 CIPHERTEXT_MESSAGE_CURRENT_VERSION) = 4"
  "high_nibble (version_byte 3 SENDERKEY_MESSAGE_CURRENT_VERSION) = 3"
  "high_nibble (version_byte 3 4) = 3" "high_nibble (version_byte 4 4) = 4" "high_nibble (version_byte 3 3) = 3"
  by (simp_all add: high_nibble_def version_byte_def version_defs)

definition session_version_ok :: "byte \<Rightarrow> bool" where
  "session_version_ok v \<longleftrightarrow> v = 3 \<or> v = 4"

lemma between_versions:
  "\<not> v < (3 :: byte) \<Longrightarrow> \<not> v > 4 \<Longrightarrow> v = 3 \<or> v = 4"
proof -
  assume "\<not> v < 3" "\<not> v > 4"
  then have "unat v = 3 \<or> unat v = 4" by (auto simp: word_less_nat_alt)
  then show ?thesis by (auto simp: word_unat_eq_iff)
qed

lemma split_last_chunk_append [simp]:
  "length b = n \<Longrightarrow> split_last_chunk n (a @ b) = Some (a, b)"
  "length b = n \<Longrightarrow> split_last_chunk n (x # a @ b) = Some (x # a, b)"
  by (simp_all add: split_last_chunk_def)

section \<open>Round trips\<close>

text \<open>What a message built by \<open>new\<close> looks like.\<close>

lemma SignalMessage_new_ok:
  assumes "hash_lengths E" "length mac_key = 32"
  obtains m where "SignalMessage_new E v mac_key addrs key counter prev c sid rid pq = Inr m"
    and "sm_message_version m = v" "sm_sender_ratchet_key m = key" "sm_counter m = counter"
    and "sm_ciphertext m = c" "sm_pq_ratchet m = pq"
  using assms that by (simp add: SignalMessage_new_def SignalMessage_compute_mac_def Let_def)

lemma SignalMessage_roundtrip:
  assumes "prost_laws E" "hash_lengths E" "session_version_ok v" "public_key_ok key"
    and new: "SignalMessage_new E v mac_key addrs key counter prev c sid rid pq = Inr m"
  shows "SignalMessage_try_from E (sm_serialized m) = Inr m"
proof -
  from new have l: "length mac_key = 32"
    by (auto simp: SignalMessage_new_def SignalMessage_compute_mac_def Let_def split: if_splits)
  define addresses where "addresses = (case addrs of None \<Rightarrow> None
    | Some (sender, recipient) \<Rightarrow> SignalMessage_serialize_addresses E sender recipient)"
  define pb where "pb = \<lparr>wsm_ratchet_key = Some (PublicKey_serialize key), wsm_counter = Some counter,
    wsm_previous_counter = Some prev, wsm_ciphertext = Some c,
    wsm_pq_ratchet = (if pq = [] then None else Some pq), wsm_addresses = addresses\<rparr>"
  define body where "body = version_byte v CIPHERTEXT_MESSAGE_CURRENT_VERSION # x_encode_signal_message E pb"
  define mac where "mac = take 8 (x_hmac_sha256 E mac_key (PublicKey_serialize (identity_public_key sid) @
    PublicKey_serialize (identity_public_key rid) @ body))"
  have m: "m = \<lparr>sm_message_version = v, sm_sender_ratchet_key = key, sm_counter = counter,
      sm_previous_counter = prev, sm_ciphertext = c, sm_pq_ratchet = pq, sm_addresses = addresses,
      sm_serialized = body @ mac\<rparr>"
    using new l by (simp add: SignalMessage_new_def SignalMessage_compute_mac_def Let_def
        SignalMessage_MAC_LENGTH_def pb_def body_def mac_def addresses_def)
  have lm: "length mac = 8" using assms(2) by (simp add: mac_def)
  have nv: "high_nibble ((body @ mac) ! 0) = v" using assms(3) by (auto simp: session_version_ok_def body_def)
  have "drop 1 (take (length (body @ mac) - 8) (body @ mac)) = x_encode_signal_message E pb"
    using lm by (simp add: body_def)
  with lm nv assms(1,3,4) show ?thesis
    by (auto simp: m SignalMessage_try_from_def SignalMessage_MAC_LENGTH_def Let_def version_defs
        session_version_ok_def pb_def) (simp_all add: body_def)
qed

lemma SignalMessage_new_mac:
  assumes "hash_lengths E" and new: "SignalMessage_new E v mac_key addrs key counter prev c sid rid pq = Inr m"
  shows "SignalMessage_verify_mac E m sid rid mac_key = Inr True"
    and "sm_addresses m = (case addrs of None \<Rightarrow> None
      | Some (sender, recipient) \<Rightarrow> SignalMessage_serialize_addresses E sender recipient)"
proof -
  have l: "length mac_key = 32" using new
    by (auto simp: SignalMessage_new_def SignalMessage_compute_mac_def Let_def split: if_splits)
  with assms show "SignalMessage_verify_mac E m sid rid mac_key = Inr True"
    by (auto simp: SignalMessage_new_def SignalMessage_compute_mac_def Let_def SignalMessage_verify_mac_def
        SignalMessage_MAC_LENGTH_def)
  from new l show "sm_addresses m = (case addrs of None \<Rightarrow> None
      | Some (sender, recipient) \<Rightarrow> SignalMessage_serialize_addresses E sender recipient)"
    by (auto simp: SignalMessage_new_def SignalMessage_compute_mac_def Let_def)
qed

lemma SignalMessage_verify_new:
  assumes "hash_lengths E" and "SignalMessage_new E v mac_key addrs key counter prev c sid rid pq = Inr m"
    and "addrs = None \<or> addrs = Some (s, r)"
  shows "SignalMessage_verify_mac_with_addresses E m s r sid rid mac_key = Inr True"
  using SignalMessage_new_mac [OF assms(1,2)] assms(3)
  by (auto simp: SignalMessage_verify_mac_with_addresses_def split: option.splits)

text \<open>C22: the wire form of a Signal message. A message built by the sender parses, from its
  serialized bytes, to exactly the same message, and its MAC verifies for the same identities,
  addresses and MAC key; so the receiver checks the very ratchet key, counter and ciphertext the
  sender put in.\<close>

theorem SignalMessage_wire:
  assumes "prost_laws E" "hash_lengths E" "session_version_ok v" "public_key_ok key" "length mac_key = 32"
  shows "\<exists>m. SignalMessage_new E v mac_key (Some (s, r)) key counter prev c sid rid pq = Inr m \<and>
    SignalMessage_try_from E (sm_serialized m) = Inr m \<and>
    SignalMessage_verify_mac_with_addresses E m s r sid rid mac_key = Inr True \<and>
    sm_message_version m = v \<and> sm_sender_ratchet_key m = key \<and> sm_counter m = counter \<and> sm_ciphertext m = c"
proof -
  obtain m where new: "SignalMessage_new E v mac_key (Some (s, r)) key counter prev c sid rid pq = Inr m"
    and f: "sm_message_version m = v" "sm_sender_ratchet_key m = key" "sm_counter m = counter" "sm_ciphertext m = c"
    using assms(2,5) by (rule SignalMessage_new_ok)
  with SignalMessage_roundtrip [OF assms(1-4) new] SignalMessage_verify_new [OF assms(2) new] show ?thesis by auto
qed

lemma PreKeySignalMessage_roundtrip:
  assumes "prost_laws E" "session_version_ok v" "public_key_ok base_key"
    "public_key_ok (identity_public_key identity_key)" "v = 4 \<longrightarrow> kp \<noteq> None"
    and m: "SignalMessage_try_from E (sm_serialized m) = Inr m"
    and new: "PreKeySignalMessage_new E v rid pid spid kp base_key identity_key m = Inr pm"
  shows "PreKeySignalMessage_try_from E (pk_serialized pm) = Inr pm"
  using assms
  by (cases kp) (auto simp: PreKeySignalMessage_new_def PreKeySignalMessage_try_from_def Let_def
      session_version_ok_def version_defs)

lemma SenderKeyMessage_roundtrip:
  assumes "prost_laws E" "edwards_laws E" "uuid_slices E" "length dist = 16"
    and pk: "PrivateKey_public_key E key = Inr pk"
    and new: "SenderKeyMessage_new E 3 dist chain iter c rng key = (r, rng')"
  obtains m where "r = Inr m" "SenderKeyMessage_try_from E (skm_serialized m) = Inr m"
    "SenderKeyMessage_verify_signature E m pk = Inr True"
    "skm_distribution_id m = dist" "skm_chain_id m = chain" "skm_iteration m = iter" "skm_ciphertext m = c"
    "skm_message_version m = 3"
proof -
  define pb where "pb = \<lparr>wsk_distribution_uuid = Some dist, wsk_chain_id = Some chain,
    wsk_iteration = Some iter, wsk_ciphertext = Some c\<rparr>"
  define body where "body = version_byte 3 SENDERKEY_MESSAGE_CURRENT_VERSION # x_encode_sender_key_message E pb"
  obtain q where q: "PrivateKey_calculate_signature_for_multipart_message E key [body] rng = (q, rng')"
    and r: "r = try_bind (curve_err q) (\<lambda>signature.
            Inr \<lparr>skm_message_version = SENDERKEY_MESSAGE_CURRENT_VERSION,
                 skm_distribution_id = dist, skm_chain_id = chain,
                 skm_iteration = iter, skm_ciphertext = c, skm_serialized = body @ signature\<rparr>)"
    using new by (auto simp: SenderKeyMessage_new_def PrivateKey_calculate_signature_def Let_def
        body_def pb_def split: prod.splits)
  from xeddsa_verifies [OF assms(2) pk q] obtain sg where sg: "q = Inr sg" "length sg = 64"
    "PublicKey_verify_signature_for_multipart_message E pk [body] sg" by blast
  have u: "x_uuid_from_slice E dist = Some dist" using assms(3,4) by (simp add: uuid_slicesD)
  have d: "drop 1 (take (length (body @ sg) - 64) (body @ sg)) = x_encode_sender_key_message E pb"
    using sg(2) by (simp add: body_def)
  have n: "high_nibble ((body @ sg) ! 0) = 3" by (simp add: body_def)
  show ?thesis
  proof (rule that)
    show "r = Inr \<lparr>skm_message_version = 3, skm_distribution_id = dist, skm_chain_id = chain,
                 skm_iteration = iter, skm_ciphertext = c, skm_serialized = body @ sg\<rparr>"
      using r sg(1) by (simp add: version_defs)
    show "SenderKeyMessage_try_from E (skm_serialized \<lparr>skm_message_version = 3, skm_distribution_id = dist,
        skm_chain_id = chain, skm_iteration = iter, skm_ciphertext = c, skm_serialized = body @ sg\<rparr>) =
      Inr \<lparr>skm_message_version = 3, skm_distribution_id = dist, skm_chain_id = chain,
                 skm_iteration = iter, skm_ciphertext = c, skm_serialized = body @ sg\<rparr>"
      using assms(1) sg(2) d n u
      by (auto simp: SenderKeyMessage_try_from_def SenderKeyMessage_SIGNATURE_LEN_def Let_def version_defs pb_def)
        (simp_all add: body_def)
    show "SenderKeyMessage_verify_signature E \<lparr>skm_message_version = 3, skm_distribution_id = dist,
        skm_chain_id = chain, skm_iteration = iter, skm_ciphertext = c, skm_serialized = body @ sg\<rparr> pk = Inr True"
      using sg by (simp add: SenderKeyMessage_verify_signature_def SenderKeyMessage_SIGNATURE_LEN_def
          PublicKey_verify_signature_def)
  qed simp_all
qed

text \<open>\<open>prost\<close> writes at least the payload bytes of the fields.\<close>

definition skdm_lengths :: "'r Ext \<Rightarrow> bool" where
  "skdm_lengths E \<longleftrightarrow> (\<forall>m ck sk. wsd_chain_key m = Some ck \<longrightarrow> wsd_signing_key m = Some sk \<longrightarrow>
     length ck + length sk \<le> length (x_encode_skdm E m))"

lemma SenderKeyDistributionMessage_roundtrip:
  assumes "prost_laws E" "skdm_lengths E" "uuid_slices E" "length dist = 16" "length ck = 32" "public_key_ok sk"
    and new: "SenderKeyDistributionMessage_new E 3 dist chain iter ck sk = Inr m"
  shows "SenderKeyDistributionMessage_try_from E (skd_serialized m) = Inr m"
proof -
  define pb where "pb = \<lparr>wsd_distribution_uuid = Some dist, wsd_chain_id = Some chain,
    wsd_iteration = Some iter, wsd_chain_key = Some ck, wsd_signing_key = Some (PublicKey_serialize sk)\<rparr>"
  have l: "length ck + length (PublicKey_serialize sk) \<le> length (x_encode_skdm E pb)"
    using assms(2) unfolding skdm_lengths_def by (simp add: pb_def)
  have m: "m = \<lparr>skd_message_version = 3, skd_distribution_id = dist,
              skd_chain_id = chain, skd_iteration = iter, skd_chain_key = ck, skd_signing_key = sk,
              skd_serialized = version_byte 3 SENDERKEY_MESSAGE_CURRENT_VERSION # x_encode_skdm E pb\<rparr>"
    using new by (simp add: SenderKeyDistributionMessage_new_def pb_def)
  show ?thesis
    unfolding m SenderKeyDistributionMessage_try_from_def using assms(1,3,4,5,6) l
    by (simp add: Let_def version_defs pb_def) (simp add: uuid_slicesD)
qed

section \<open>What the parsers accept\<close>

lemma SignalMessage_try_from_SomeD:
  assumes "SignalMessage_try_from E value = Inr m"
  shows "session_version_ok (sm_message_version m)" "public_key_ok (sm_sender_ratchet_key m)"
    "sm_serialized m = value" "9 \<le> length value" "sm_message_version m = high_nibble (value ! 0)"
  using assms between_versions [of "high_nibble (value ! 0)"]
  by (auto simp: SignalMessage_try_from_def SignalMessage_MAC_LENGTH_def Let_def res_simps version_defs
      session_version_ok_def dest: PublicKey_deserialize_ok split: if_splits)

lemma SignalMessage_try_from_no_panic: "\<not> is_panic (SignalMessage_try_from E value)"
  by (auto simp: SignalMessage_try_from_def Let_def is_panic_try_bind is_panic_slices res_simps SignalMessage_MAC_LENGTH_def PublicKey_deserialize_no_panic)

lemma PreKeySignalMessage_try_from_no_panic: "\<not> is_panic (PreKeySignalMessage_try_from E value)"
  by (auto simp: PreKeySignalMessage_try_from_def Let_def is_panic_try_bind is_panic_slices res_simps PublicKey_deserialize_no_panic
      SignalMessage_try_from_no_panic IdentityKey_decode_no_panic split: option.splits)

lemma SenderKeyMessage_try_from_no_panic: "\<not> is_panic (SenderKeyMessage_try_from E value)"
  by (auto simp: SenderKeyMessage_try_from_def Let_def is_panic_try_bind is_panic_slices res_simps
      SenderKeyMessage_SIGNATURE_LEN_def)

lemma SenderKeyDistributionMessage_try_from_no_panic:
  "\<not> is_panic (SenderKeyDistributionMessage_try_from E value)"
  by (auto simp: SenderKeyDistributionMessage_try_from_def Let_def is_panic_try_bind is_panic_slices res_simps
      PublicKey_deserialize_no_panic)

lemma DecryptionErrorMessage_no_panic:
  "\<not> is_panic (DecryptionErrorMessage_try_from E value)"
  "\<not> is_panic (DecryptionErrorMessage_for_original E value t ts d)"
  by (auto simp: DecryptionErrorMessage_try_from_def DecryptionErrorMessage_for_original_def is_panic_try_bind
      PublicKey_deserialize_no_panic SignalMessage_try_from_no_panic PreKeySignalMessage_try_from_no_panic
      split: option.splits CiphertextMessageType.splits)

lemma verify_mac_no_panic:
  assumes "SignalMessage_try_from E value = Inr m"
  shows "\<not> is_panic (SignalMessage_verify_mac_with_addresses E m s r sid rid k)"
  using SignalMessage_try_from_SomeD(3,4) [OF assms]
  by (auto simp: SignalMessage_verify_mac_with_addresses_def SignalMessage_verify_mac_def is_panic_try_bind
      split_last_chunk_def SignalMessage_MAC_LENGTH_def SignalMessage_compute_mac_def split: option.splits)

lemma SenderKeyMessage_try_from_SomeD:
  assumes "SenderKeyMessage_try_from E value = Inr m"
  shows "skm_serialized m = value" "65 \<le> length value"
  using assms by (auto simp: SenderKeyMessage_try_from_def SenderKeyMessage_SIGNATURE_LEN_def Let_def
      try_bind_Inr_iff split: if_splits)

lemma verify_signature_no_panic:
  assumes "SenderKeyMessage_try_from E value = Inr m"
  shows "\<not> is_panic (SenderKeyMessage_verify_signature E m k)"
  using SenderKeyMessage_try_from_SomeD [OF assms]
  by (simp add: SenderKeyMessage_verify_signature_def split_last_chunk_def SenderKeyMessage_SIGNATURE_LEN_def)

lemma PlaintextContent_no_panic:
  "\<not> is_panic (PlaintextContent_try_from bs)"
  "\<not> is_panic (try_bind (PlaintextContent_try_from bs) PlaintextContent_body)"
  "\<not> is_panic (extract_decryption_error_message_from_serialized_content E bs)"
  by (auto simp: PlaintextContent_try_from_def PlaintextContent_body_def is_panic_try_bind is_panic_slices res_simps
      extract_decryption_error_message_from_serialized_content_def slice_last_def split_last_def
      DecryptionErrorMessage_no_panic split: if_splits)

text \<open>C24: no bytes from the network make a parser panic. Every parser of the module returns a message or
  an error on every input, although it indexes and slices the input: the length checks in front are enough.
  The operations that rely on a length "checked at construction" do not panic on a parsed message.\<close>

theorem parsers_never_panic:
  "\<not> is_panic (SignalMessage_try_from E bs) \<and> \<not> is_panic (PreKeySignalMessage_try_from E bs) \<and>
   \<not> is_panic (SenderKeyMessage_try_from E bs) \<and> \<not> is_panic (SenderKeyDistributionMessage_try_from E bs) \<and>
   \<not> is_panic (PlaintextContent_try_from bs) \<and> \<not> is_panic (DecryptionErrorMessage_try_from E bs) \<and>
   \<not> is_panic (DecryptionErrorMessage_for_original E bs t ts d) \<and>
   \<not> is_panic (extract_decryption_error_message_from_serialized_content E bs) \<and>
   \<not> is_panic (try_bind (SignalMessage_try_from E bs)
       (\<lambda>m. SignalMessage_verify_mac_with_addresses E m s r sid rid k)) \<and>
   \<not> is_panic (try_bind (SenderKeyMessage_try_from E bs) (\<lambda>m. SenderKeyMessage_verify_signature E m pk)) \<and>
   \<not> is_panic (try_bind (PlaintextContent_try_from bs) PlaintextContent_body)"
proof (intro conjI)
  show "\<not> is_panic (try_bind (SignalMessage_try_from E bs)
      (\<lambda>m. SignalMessage_verify_mac_with_addresses E m s r sid rid k))"
    unfolding is_panic_try_bind using SignalMessage_try_from_no_panic verify_mac_no_panic by blast
  show "\<not> is_panic (try_bind (SenderKeyMessage_try_from E bs) (\<lambda>m. SenderKeyMessage_verify_signature E m pk))"
    unfolding is_panic_try_bind using SenderKeyMessage_try_from_no_panic verify_signature_no_panic by blast
qed (rule SignalMessage_try_from_no_panic PreKeySignalMessage_try_from_no_panic
    SenderKeyMessage_try_from_no_panic SenderKeyDistributionMessage_try_from_no_panic
    DecryptionErrorMessage_no_panic PlaintextContent_no_panic)+

text \<open>C23: MAC verification binds the message. A parsed message verifies exactly when its last eight bytes
  are the truncated HMAC, under the MAC key, of both identity keys followed by all preceding bytes, and
  the addresses it carries, if any, are those of the two parties.\<close>

theorem verify_mac_iff:
  assumes "SignalMessage_try_from E bs = Inr m"
  shows "SignalMessage_verify_mac_with_addresses E m s r sid rid k = Inr True \<longleftrightarrow>
    length k = 32 \<and>
    drop (length bs - 8) bs = take 8 (x_hmac_sha256 E k (IdentityKey_serialize sid @ IdentityKey_serialize rid @
      take (length bs - 8) bs)) \<and>
    (\<forall>a. sm_addresses m = Some a \<longrightarrow> SignalMessage_serialize_addresses E s r = Some a)"
  using SignalMessage_try_from_SomeD(3,4) [OF assms]
  by (auto simp: SignalMessage_verify_mac_with_addresses_def SignalMessage_verify_mac_def res_simps
      split_last_chunk_def SignalMessage_MAC_LENGTH_def SignalMessage_compute_mac_def IdentityKey_serialize_def
      split: option.splits if_splits)

text \<open>a decryption error message sent as plaintext content comes out unchanged at the other end: the
  receiver extracts the ratchet key, timestamp and device of the message that could not be decrypted.\<close>

theorem decryption_error_roundtrip:
  assumes "prost_laws E" and "DecryptionErrorMessage_for_original E bs t ts d = Inr m"
  shows "try_bind (PlaintextContent_try_from (plaintext_serialized (PlaintextContent_from E m)))
      (\<lambda>p. try_bind (PlaintextContent_body p) (extract_decryption_error_message_from_serialized_content E)) = Inr m"
proof -
  from assms(2) obtain rk where
    m: "m = \<lparr>dec_ratchet_key = rk, dec_timestamp = ts, dec_device_id = d,
        dec_serialized = x_encode_decryption_error E
          \<lparr>dem_ratchet_key = map_option PublicKey_serialize rk,
           dem_timestamp = Some ts, dem_device_id = Some d\<rparr>\<rparr>"
    and rk: "case rk of None \<Rightarrow> True | Some k \<Rightarrow> public_key_ok k"
    by (auto simp: DecryptionErrorMessage_for_original_def PreKeySignalMessage_try_from_def res_simps Let_def
        dest: SignalMessage_try_from_SomeD(2) split: CiphertextMessageType.splits if_splits)
  have "DecryptionErrorMessage_try_from E (dec_serialized m) = Inr m"
    using assms(1) rk by (auto simp: DecryptionErrorMessage_try_from_def m split: option.splits)
  then show ?thesis using assms(1)
    by (simp add: PlaintextContent_from_def PlaintextContent_try_from_def PlaintextContent_body_def
        extract_decryption_error_message_from_serialized_content_def slice_last_def split_last_def)
qed

section \<open>Concrete messages\<close>

definition sample_public :: "byte \<Rightarrow> PublicKey" where
  "sample_public b = DjbPublicKey (replicate 32 b)"

definition sample_address :: "char \<Rightarrow> ProtocolAddress" where
  "sample_address c = \<lparr>pa_name = replicate 36 c, pa_device_id = DeviceId 1\<rparr>"

lemma sample_public_key_ok [simp]: "public_key_ok (sample_public b)"
  by (simp add: sample_public_def public_key_ok_def)

theorem SignalMessage_wire_witness:
  "\<exists>m. SignalMessage_new concrete 4 (replicate 32 1) (Some (sample_address CHR ''0'', sample_address CHR ''1''))
      (sample_public 2) 7 6 [1, 2, 3] (IdentityKey (sample_public 3)) (IdentityKey (sample_public 4)) [9] = Inr m \<and>
    SignalMessage_try_from concrete (sm_serialized m) = Inr m \<and>
    SignalMessage_verify_mac_with_addresses concrete m (sample_address CHR ''0'') (sample_address CHR ''1'')
      (IdentityKey (sample_public 3)) (IdentityKey (sample_public 4)) (replicate 32 1) = Inr True \<and>
    sm_counter m = 7"
  using SignalMessage_wire [OF concrete_prost_laws concrete_hash_lengths, of 4 "sample_public 2" "replicate 32 1"
      "sample_address CHR ''0''" "sample_address CHR ''1''" 7 6 "[1, 2, 3]" "IdentityKey (sample_public 3)"
      "IdentityKey (sample_public 4)" "[9]"]
  by (auto simp: session_version_ok_def)

theorem verify_mac_iff_witness:
  "\<exists>bs m. SignalMessage_try_from concrete bs = Inr m \<and>
    drop (length bs - 8) bs = take 8 (x_hmac_sha256 concrete (replicate 32 1)
      (IdentityKey_serialize (IdentityKey (sample_public 3)) @ IdentityKey_serialize (IdentityKey (sample_public 4)) @
       take (length bs - 8) bs))"
proof -
  let ?s = "sample_address CHR ''0''" and ?i = "IdentityKey (sample_public 3)" and ?j = "IdentityKey (sample_public 4)"
  obtain m where new: "SignalMessage_new concrete 4 (replicate 32 1) (Some (?s, ?s)) (sample_public 2) 7 6 [1] ?i ?j []
      = Inr m"
    by (rule SignalMessage_new_ok [OF concrete_hash_lengths, of "replicate 32 1" 4 "Some (?s, ?s)" "sample_public 2"
          7 6 "[1]" ?i ?j "[]"]) simp_all
  have p: "SignalMessage_try_from concrete (sm_serialized m) = Inr m"
    by (rule SignalMessage_roundtrip [OF concrete_prost_laws concrete_hash_lengths _ _ new])
       (simp_all add: session_version_ok_def)
  from verify_mac_iff [OF p] SignalMessage_verify_new [OF concrete_hash_lengths new disjI2 [OF refl]] p show ?thesis by blast
qed

theorem decryption_error_roundtrip_witness:
  "\<exists>m. DecryptionErrorMessage_for_original concrete [] SenderKeyType 77 2 = Inr m \<and>
    try_bind (PlaintextContent_try_from (plaintext_serialized (PlaintextContent_from concrete m)))
      (\<lambda>p. try_bind (PlaintextContent_body p) (extract_decryption_error_message_from_serialized_content concrete)) = Inr m"
proof -
  obtain m where m: "DecryptionErrorMessage_for_original concrete [] SenderKeyType 77 2 = Inr m"
    by (simp add: DecryptionErrorMessage_for_original_def)
  from decryption_error_roundtrip [OF concrete_prost_laws m] m show ?thesis by blast
qed

end
