(* ===== verification/Session_State.thy ===== *)
theory Session_State
  imports Double_Ratchet Wire_Messages "HOL-Library.Multiset"
begin

unbundle bit_operations_syntax

text \<open>
  \<open>rust/protocol/src/state/session.rs\<close>: the state of one session (\<open>SessionState\<close>, a wrapper of the
  protobuf \<open>SessionStructure\<close>) and the record of a current session with up to forty archived ones
  (\<open>SessionRecord\<close>), whose archived sessions are kept encoded.
\<close>

section \<open>Time\<close>

text \<open>\<open>SystemTime\<close> as nanoseconds since the Unix epoch. Adding a duration panics when the seconds leave
  \<open>i64\<close>; \<open>duration_since(UNIX_EPOCH).unwrap_or_default().as_secs()\<close> is 0 before the epoch.\<close>

type_synonym SystemTime = int

definition NANOS :: int where "NANOS = 1000000000"

definition SystemTime_add :: "SystemTime \<Rightarrow> int \<Rightarrow> ('e, SystemTime) rresult" where
  "SystemTime_add t d = (if (t + d) div NANOS > 2 ^ 63 - 1
     then Inl (Panic ''overflow when adding duration to instant'') else Inr (t + d))"

definition epoch_secs :: "SystemTime \<Rightarrow> u64" where
  "epoch_secs now = (if now < 0 then 0 else of_int (now div NANOS))"

definition from_epoch_secs :: "u64 \<Rightarrow> ('e, SystemTime) rresult" where
  "from_epoch_secs s = SystemTime_add 0 (uint s * NANOS)"

section \<open>\<open>SessionState\<close>\<close>

type_synonym SessionState = SessionStructure

record UnacknowledgedPreKeyMessageItems =
  una_pre_key_id :: "u32 option"
  una_signed_pre_key_id :: u32
  una_base_key :: PublicKey
  una_kyber_pre_key_id :: "u32 option"
  una_kyber_ciphertext :: "bytes option"
  una_timestamp :: SystemTime

type_synonym SessionUsabilityRequirements = u32

definition NotStale :: SessionUsabilityRequirements where "NotStale = 1"
definition EstablishedWithPqxdh :: SessionUsabilityRequirements where "EstablishedWithPqxdh = 2"
definition SpqrRequired :: SessionUsabilityRequirements where "SpqrRequired = 4"

definition requirements_contains :: "SessionUsabilityRequirements \<Rightarrow> SessionUsabilityRequirements \<Rightarrow> bool" where
  "requirements_contains r f \<longleftrightarrow> r AND f = f"

definition SessionState_new ::
    "byte \<Rightarrow> IdentityKey \<Rightarrow> IdentityKey \<Rightarrow> RootKey \<Rightarrow> PublicKey \<Rightarrow> bytes \<Rightarrow> SessionState" where
  "SessionState_new version our_identity their_identity root_key alice_base_key pq_ratchet_state =
     \<lparr>ss_session_version = ucast version,
      ss_local_identity_public = PublicKey_serialize (identity_public_key our_identity),
      ss_remote_identity_public = IdentityKey_serialize their_identity,
      ss_root_key = root_key_bytes root_key,
      ss_previous_counter = 0,
      ss_sender_chain = None,
      ss_receiver_chains = [],
      ss_pending_pre_key = None,
      ss_pending_kyber_pre_key = None,
      ss_remote_registration_id = 0,
      ss_local_registration_id = 0,
      ss_alice_base_key = PublicKey_serialize alice_base_key,
      ss_pq_ratchet_state = pq_ratchet_state\<rparr>"

definition SessionState_alice_base_key :: "SessionState \<Rightarrow> bytes" where
  "SessionState_alice_base_key s = ss_alice_base_key s"

definition SessionState_session_version :: "SessionState \<Rightarrow> u32 session_result" where
  "SessionState_session_version s = (if ss_session_version s = 0 then Inr 2 else Inr (ss_session_version s))"

definition SessionState_remote_identity_key :: "SessionState \<Rightarrow> IdentityKey option session_result" where
  "SessionState_remote_identity_key s =
     (if length (ss_remote_identity_public s) = 0 then Inr None
      else try_bind (or_err (InvalidSessionError ''invalid remote identity key'')
             (IdentityKey_decode (ss_remote_identity_public s))) (\<lambda>k. Inr (Some k)))"

definition SessionState_remote_identity_key_bytes :: "SessionState \<Rightarrow> bytes option session_result" where
  "SessionState_remote_identity_key_bytes s =
     try_bind (SessionState_remote_identity_key s) (\<lambda>k. Inr (map_option IdentityKey_serialize k))"

definition SessionState_local_identity_key :: "SessionState \<Rightarrow> IdentityKey session_result" where
  "SessionState_local_identity_key s = or_err (InvalidSessionError ''invalid local identity key'')
     (IdentityKey_decode (ss_local_identity_public s))"

definition SessionState_local_identity_key_bytes :: "SessionState \<Rightarrow> bytes session_result" where
  "SessionState_local_identity_key_bytes s =
     try_bind (SessionState_local_identity_key s) (\<lambda>k. Inr (IdentityKey_serialize k))"

definition SessionState_session_with_self :: "SessionState \<Rightarrow> bool session_result" where
  "SessionState_session_with_self s =
     try_bind (SessionState_remote_identity_key_bytes s) (\<lambda>remote. case remote of
         Some remote_id \<Rightarrow> try_bind (SessionState_local_identity_key_bytes s) (\<lambda>local_id.
           Inr (remote_id = local_id))
       | None \<Rightarrow> Inr False)"

definition SessionState_sender_ratchet_key :: "SessionState \<Rightarrow> PublicKey session_result" where
  "SessionState_sender_ratchet_key s = (case ss_sender_chain s of
     None \<Rightarrow> Inl (Err (InvalidSessionError ''missing sender chain''))
   | Some c \<Rightarrow> or_err (InvalidSessionError ''invalid sender chain ratchet key'')
       (PublicKey_deserialize (ch_sender_ratchet_key c)))"

definition SessionState_sender_ratchet_private_key :: "'r Ext \<Rightarrow> SessionState \<Rightarrow> PrivateKey session_result" where
  "SessionState_sender_ratchet_private_key E s = (case ss_sender_chain s of
     None \<Rightarrow> Inl (Err (InvalidSessionError ''missing sender chain''))
   | Some c \<Rightarrow> or_err (InvalidSessionError ''invalid sender chain private ratchet key'')
       (PrivateKey_deserialize E (ch_sender_ratchet_key_private c)))"

definition SessionState_has_usable_sender_chain ::
    "SessionState \<Rightarrow> SystemTime \<Rightarrow> SessionUsabilityRequirements \<Rightarrow> bool session_result" where
  "SessionState_has_usable_sender_chain s now requirements =
     (if ss_sender_chain s = None then Inr False
      else
        try_bind (if requirements_contains requirements NotStale then
            (case ss_pending_pre_key s of None \<Rightarrow> Inr False
             | Some pending_pre_key \<Rightarrow>
                try_bind (from_epoch_secs (ppk_timestamp pending_pre_key)) (\<lambda>creation_timestamp.
                try_bind (SystemTime_add creation_timestamp MAX_UNACKNOWLEDGED_SESSION_AGE) (\<lambda>limit.
                Inr (limit < now))))
          else Inr False) (\<lambda>stale.
        if stale then Inr False
        else try_bind (if requirements_contains requirements EstablishedWithPqxdh then
              try_bind (SessionState_session_version s) (\<lambda>v.
                Inr (v \<le> ucast CIPHERTEXT_MESSAGE_PRE_KYBER_VERSION))
            else Inr False) (\<lambda>old.
        if old then Inr False
        else if requirements_contains requirements SpqrRequired \<and> ss_pq_ratchet_state s = [] then Inr False
        else Inr True)))"

text \<open>\<open>for (idx, chain) in receiver_chains.iter().enumerate()\<close>, with the early return.\<close>

fun get_receiver_chain_from :: "nat \<Rightarrow> Chain list \<Rightarrow> PublicKey \<Rightarrow> (Chain \<times> nat) option session_result" where
  "get_receiver_chain_from idx [] sender = Inr None"
| "get_receiver_chain_from idx (chain # rest) sender =
     try_bind (or_err (InvalidSessionError ''invalid receiver chain ratchet key'')
       (PublicKey_deserialize (ch_sender_ratchet_key chain))) (\<lambda>chain_ratchet_key.
     if chain_ratchet_key = sender then Inr (Some (chain, idx))
     else get_receiver_chain_from (Suc idx) rest sender)"

definition SessionState_get_receiver_chain ::
    "SessionState \<Rightarrow> PublicKey \<Rightarrow> (Chain \<times> nat) option session_result" where
  "SessionState_get_receiver_chain s sender = get_receiver_chain_from 0 (ss_receiver_chains s) sender"

definition SessionState_get_receiver_chain_key :: "SessionState \<Rightarrow> PublicKey \<Rightarrow> ChainKey option session_result" where
  "SessionState_get_receiver_chain_key s sender =
     try_bind (SessionState_get_receiver_chain s sender) (\<lambda>r. case r of
         None \<Rightarrow> Inr None
       | Some (chain, _) \<Rightarrow> (case ch_chain_key chain of
           None \<Rightarrow> Inl (Err (InvalidSessionError ''missing receiver chain key''))
         | Some c \<Rightarrow> try_bind (ok_or (InvalidSessionError ''invalid receiver chain key'') (to_array 32 (ckp_key c)))
             (\<lambda>k. Inr (Some \<lparr>ck_key = k, ck_index = ckp_index c\<rparr>))))"

definition SessionState_add_receiver_chain :: "SessionState \<Rightarrow> PublicKey \<Rightarrow> ChainKey \<Rightarrow> SessionState" where
  "SessionState_add_receiver_chain s sender chain_key =
     (let chain = \<lparr>ch_sender_ratchet_key = PublicKey_serialize sender, ch_sender_ratchet_key_private = [],
                   ch_chain_key = Some \<lparr>ckp_index = ck_index chain_key, ckp_key = ck_key chain_key\<rparr>,
                   ch_message_keys = []\<rparr>;
          receiver_chains = ss_receiver_chains s @ [chain]
      in s\<lparr>ss_receiver_chains := (if length receiver_chains > MAX_RECEIVER_CHAINS then tl receiver_chains else receiver_chains)\<rparr>)"

definition SessionState_set_sender_chain :: "SessionState \<Rightarrow> KeyPair \<Rightarrow> ChainKey \<Rightarrow> SessionState" where
  "SessionState_set_sender_chain s sender next_chain_key = s\<lparr>ss_sender_chain := Some
     \<lparr>ch_sender_ratchet_key = PublicKey_serialize (kp_public_key sender),
      ch_sender_ratchet_key_private = PrivateKey_serialize (kp_private_key sender),
      ch_chain_key = Some \<lparr>ckp_index = ck_index next_chain_key, ckp_key = ck_key next_chain_key\<rparr>,
      ch_message_keys = []\<rparr>\<rparr>"

definition SessionState_get_sender_chain_key :: "SessionState \<Rightarrow> ChainKey session_result" where
  "SessionState_get_sender_chain_key s =
     try_bind (ok_or (InvalidSessionError ''missing sender chain'') (ss_sender_chain s)) (\<lambda>sender_chain.
     try_bind (ok_or (InvalidSessionError ''missing sender chain key'') (ch_chain_key sender_chain)) (\<lambda>chain_key.
     try_bind (ok_or (InvalidSessionError ''invalid sender chain key'') (to_array 32 (ckp_key chain_key))) (\<lambda>k.
     Inr \<lparr>ck_key = k, ck_index = ckp_index chain_key\<rparr>)))"

definition SessionState_set_sender_chain_key :: "SessionState \<Rightarrow> ChainKey \<Rightarrow> SessionState" where
  "SessionState_set_sender_chain_key s next_chain_key =
     (let chain_key = \<lparr>ckp_index = ck_index next_chain_key, ckp_key = ck_key next_chain_key\<rparr>
      in s\<lparr>ss_sender_chain := Some (case ss_sender_chain s of
           None \<Rightarrow> \<lparr>ch_sender_ratchet_key = [], ch_sender_ratchet_key_private = [],
                   ch_chain_key = Some chain_key, ch_message_keys = []\<rparr>
         | Some c \<Rightarrow> c\<lparr>ch_chain_key := Some chain_key\<rparr>)\<rparr>)"

definition SessionState_set_unacknowledged_pre_key_message ::
    "SessionState \<Rightarrow> u32 option \<Rightarrow> u32 \<Rightarrow> PublicKey \<Rightarrow> SystemTime \<Rightarrow> SessionState" where
  "SessionState_set_unacknowledged_pre_key_message s pre_key_id signed_ec_pre_key_id base_key now =
     s\<lparr>ss_pending_pre_key := Some \<lparr>ppk_pre_key_id = pre_key_id, ppk_signed_pre_key_id = signed_ec_pre_key_id,
        ppk_base_key = PublicKey_serialize base_key, ppk_timestamp = epoch_secs now\<rparr>\<rparr>"

definition SessionState_set_kyber_ciphertext :: "SessionState \<Rightarrow> bytes \<Rightarrow> SessionState" where
  "SessionState_set_kyber_ciphertext s ciphertext =
     s\<lparr>ss_pending_kyber_pre_key := Some \<lparr>pkk_pre_key_id = - 1, pkk_ciphertext = ciphertext\<rparr>\<rparr>"

definition SessionState_set_unacknowledged_kyber_pre_key_id ::
    "SessionState \<Rightarrow> u32 \<Rightarrow> SessionState signal_result" where
  "SessionState_set_unacknowledged_kyber_pre_key_id s signed_kyber_pre_key_id =
     try_bind (expect ''must have been set if kyber pre key is present'' (ss_pending_kyber_pre_key s))
       (\<lambda>pending. Inr (s\<lparr>ss_pending_kyber_pre_key := Some (pending\<lparr>pkk_pre_key_id := signed_kyber_pre_key_id\<rparr>)\<rparr>))"

definition SessionState_unacknowledged_pre_key_message_items ::
    "SessionState \<Rightarrow> UnacknowledgedPreKeyMessageItems option session_result" where
  "SessionState_unacknowledged_pre_key_message_items s = (case ss_pending_pre_key s of
     None \<Rightarrow> Inr None
   | Some pending_pre_key \<Rightarrow>
      try_bind (or_err (InvalidSessionError ''invalid pending PreKey message base key'')
        (PublicKey_deserialize (ppk_base_key pending_pre_key))) (\<lambda>base_key.
      try_bind (from_epoch_secs (ppk_timestamp pending_pre_key)) (\<lambda>timestamp.
      Inr (Some \<lparr>una_pre_key_id = ppk_pre_key_id pending_pre_key,
                 una_signed_pre_key_id = ppk_signed_pre_key_id pending_pre_key,
                 una_base_key = base_key,
                 una_kyber_pre_key_id = map_option pkk_pre_key_id (ss_pending_kyber_pre_key s),
                 una_kyber_ciphertext = map_option pkk_ciphertext (ss_pending_kyber_pre_key s),
                 una_timestamp = timestamp\<rparr>))))"

definition SessionState_clear_unacknowledged_pre_key_message :: "SessionState \<Rightarrow> SessionState" where
  "SessionState_clear_unacknowledged_pre_key_message s =
     s\<lparr>ss_pending_pre_key := None, ss_pending_kyber_pre_key := None\<rparr>"

definition SessionState_get_kyber_ciphertext :: "SessionState \<Rightarrow> bytes option" where
  "SessionState_get_kyber_ciphertext s = map_option pkk_ciphertext (ss_pending_kyber_pre_key s)"

definition SessionState_take_ratchet_state ::
    "'r Ext \<Rightarrow> SessionState \<Rightarrow> bool \<Rightarrow> RatchetState signal_result \<times> SessionState" where
  "SessionState_take_ratchet_state E s self_session =
     (let receiver_chains = ss_receiver_chains s; s' = s\<lparr>ss_receiver_chains := []\<rparr>
      in (session_err (RatchetState_from_pb E s' self_session receiver_chains), s'))"

definition SessionState_apply_ratchet_state :: "SessionState \<Rightarrow> RatchetState \<Rightarrow> SessionState" where
  "SessionState_apply_ratchet_state s ratchet = RatchetState_apply_to_pb ratchet s"

definition SessionState_take_pq_ratchet_state :: "SessionState \<Rightarrow> bytes \<times> SessionState" where
  "SessionState_take_pq_ratchet_state s = (ss_pq_ratchet_state s, s\<lparr>ss_pq_ratchet_state := []\<rparr>)"

definition SessionState_set_pq_ratchet_state :: "SessionState \<Rightarrow> bytes \<Rightarrow> SessionState" where
  "SessionState_set_pq_ratchet_state s state = s\<lparr>ss_pq_ratchet_state := state\<rparr>"

definition SessionState_all_receiver_chain_logging_info :: "SessionState \<Rightarrow> (bytes \<times> u32 option) list" where
  "SessionState_all_receiver_chain_logging_info s = map (\<lambda>chain.
     (ch_sender_ratchet_key chain, map_option ckp_index (ch_chain_key chain))) (ss_receiver_chains s)"

section \<open>\<open>SessionRecord\<close>\<close>

record SessionRecord =
  sr_current_session :: "SessionState option"
  sr_previous_sessions :: "bytes list"

definition SessionRecord_new_fresh :: SessionRecord where
  "SessionRecord_new_fresh = \<lparr>sr_current_session = None, sr_previous_sessions = []\<rparr>"

definition SessionRecord_new :: "SessionState \<Rightarrow> SessionRecord" where
  "SessionRecord_new state = \<lparr>sr_current_session = Some state, sr_previous_sessions = []\<rparr>"

definition SessionRecord_deserialize :: "'r Ext \<Rightarrow> bytes \<Rightarrow> SessionRecord signal_result" where
  "SessionRecord_deserialize E bs =
     try_bind (session_err (ok_or (InvalidSessionError ''failed to decode session record protobuf'')
       (x_decode_record E bs))) (\<lambda>record.
     Inr \<lparr>sr_current_session = rec_current_session record,
          sr_previous_sessions = rec_previous_sessions record\<rparr>)"

definition SessionRecord_serialize :: "'r Ext \<Rightarrow> SessionRecord \<Rightarrow> bytes signal_result" where
  "SessionRecord_serialize E r = Inr (x_encode_record E
     \<lparr>rec_current_session = sr_current_session r, rec_previous_sessions = sr_previous_sessions r\<rparr>)"

definition decode_previous_session :: "'r Ext \<Rightarrow> bytes \<Rightarrow> SessionState session_result" where
  "decode_previous_session E bs =
     ok_or (InvalidSessionError ''failed to decode previous session protobuf'') (x_decode_session E bs)"

definition SessionRecord_previous_session_states :: "'r Ext \<Rightarrow> SessionRecord \<Rightarrow> SessionState session_result list" where
  "SessionRecord_previous_session_states E r = map (decode_previous_session E) (sr_previous_sessions r)"

definition SessionRecord_archive_current_state_inner :: "'r Ext \<Rightarrow> SessionRecord \<Rightarrow> bool \<times> SessionRecord" where
  "SessionRecord_archive_current_state_inner E r = (case sr_current_session r of
     Some current_session \<Rightarrow>
       let previous_sessions = (if length (sr_previous_sessions r) \<ge> ARCHIVED_STATES_MAX_LENGTH
             then butlast (sr_previous_sessions r) else sr_previous_sessions r);
           current_session' = SessionState_clear_unacknowledged_pre_key_message current_session
       in (True, \<lparr>sr_current_session = None,
                  sr_previous_sessions = x_encode_session E current_session' # previous_sessions\<rparr>)
   | None \<Rightarrow> (False, r))"

definition SessionRecord_archive_current_state :: "'r Ext \<Rightarrow> SessionRecord \<Rightarrow> SessionRecord" where
  "SessionRecord_archive_current_state E r = snd (SessionRecord_archive_current_state_inner E r)"

definition SessionRecord_promote_state :: "'r Ext \<Rightarrow> SessionRecord \<Rightarrow> SessionState \<Rightarrow> SessionRecord" where
  "SessionRecord_promote_state E r new_state =
     (snd (SessionRecord_archive_current_state_inner E r))\<lparr>sr_current_session := Some new_state\<rparr>"

definition SessionRecord_promote_old_session ::
    "'r Ext \<Rightarrow> SessionRecord \<Rightarrow> nat \<Rightarrow> SessionState \<Rightarrow> SessionRecord" where
  "SessionRecord_promote_old_session E r old_session updated_session =
     SessionRecord_promote_state E
       (r\<lparr>sr_previous_sessions := remove_at old_session (sr_previous_sessions r)\<rparr>) updated_session"

definition session_matches :: "u32 \<Rightarrow> bytes \<Rightarrow> SessionState \<Rightarrow> bool session_result" where
  "session_matches version alice_base_key s =
     try_bind (SessionState_session_version s) (\<lambda>v.
     Inr (v = version \<and> alice_base_key = SessionState_alice_base_key s))"

text \<open>The loop over the archived sessions, which stops at the first match or the first bad one.\<close>

fun find_session_to_promote ::
    "u32 \<Rightarrow> bytes \<Rightarrow> nat \<Rightarrow> SessionState session_result list \<Rightarrow> (nat \<times> SessionState) option session_result" where
  "find_session_to_promote version alice_base_key i [] = Inr None"
| "find_session_to_promote version alice_base_key i (previous # rest) =
     try_bind previous (\<lambda>state.
     try_bind (session_matches version alice_base_key state) (\<lambda>m.
     if m then Inr (Some (i, state))
     else find_session_to_promote version alice_base_key (Suc i) rest))"

definition SessionRecord_promote_matching_session ::
    "'r Ext \<Rightarrow> SessionRecord \<Rightarrow> u32 \<Rightarrow> bytes \<Rightarrow> bool session_result \<times> SessionRecord" where
  "SessionRecord_promote_matching_session E r version alice_base_key =
     (case (case sr_current_session r of None \<Rightarrow> Inr False
            | Some current_session \<Rightarrow> session_matches version alice_base_key current_session) of
        Inl e \<Rightarrow> (Inl e, r)
      | Inr True \<Rightarrow> (Inr True, r)
      | Inr False \<Rightarrow>
         (case find_session_to_promote version alice_base_key 0 (SessionRecord_previous_session_states E r) of
            Inl e \<Rightarrow> (Inl e, r)
          | Inr (Some (i, state)) \<Rightarrow> (Inr True, SessionRecord_promote_old_session E r i state)
          | Inr None \<Rightarrow> (Inr False, r)))"

definition SessionRecord_set_session_state :: "SessionRecord \<Rightarrow> SessionState \<Rightarrow> SessionRecord" where
  "SessionRecord_set_session_state r session = r\<lparr>sr_current_session := Some session\<rparr>"

definition with_session_state :: "SessionRecord \<Rightarrow> string \<Rightarrow> (SessionState \<Rightarrow> 'a signal_result) \<Rightarrow> 'a signal_result" where
  "with_session_state r op f = try_bind (ok_or (SessionNotFoundError (SessionNotFound_without_address op))
     (sr_current_session r)) f"

definition SessionRecord_remote_registration_id :: "SessionRecord \<Rightarrow> u32 signal_result" where
  "SessionRecord_remote_registration_id r =
     with_session_state r ''remote_registration_id'' (\<lambda>s. Inr (ss_remote_registration_id s))"

definition SessionRecord_session_version :: "SessionRecord \<Rightarrow> u32 signal_result" where
  "SessionRecord_session_version r =
     with_session_state r ''session_version'' (\<lambda>s. session_err (SessionState_session_version s))"

definition SessionRecord_has_usable_sender_chain ::
    "SessionRecord \<Rightarrow> SystemTime \<Rightarrow> SessionUsabilityRequirements \<Rightarrow> bool signal_result" where
  "SessionRecord_has_usable_sender_chain r now requirements = (case sr_current_session r of
     Some session \<Rightarrow> session_err (SessionState_has_usable_sender_chain session now requirements)
   | None \<Rightarrow> Inr False)"

definition SessionRecord_get_receiver_chain_key_bytes :: "SessionRecord \<Rightarrow> PublicKey \<Rightarrow> bytes option signal_result" where
  "SessionRecord_get_receiver_chain_key_bytes r sender =
     with_session_state r ''get_receiver_chain_key'' (\<lambda>s.
       try_bind (session_err (SessionState_get_receiver_chain_key s sender)) (\<lambda>k. Inr (map_option ck_key k)))"

definition SessionRecord_get_sender_chain_key_bytes :: "SessionRecord \<Rightarrow> bytes signal_result" where
  "SessionRecord_get_sender_chain_key_bytes r =
     with_session_state r ''get_sender_chain_key_bytes'' (\<lambda>s.
       try_bind (session_err (SessionState_get_sender_chain_key s)) (\<lambda>k. Inr (ck_key k)))"

definition SessionRecord_current_ratchet_key_matches :: "SessionRecord \<Rightarrow> PublicKey \<Rightarrow> bool signal_result" where
  "SessionRecord_current_ratchet_key_matches r key = (case sr_current_session r of
     Some session \<Rightarrow> try_bind (session_err (SessionState_sender_ratchet_key session)) (\<lambda>k. Inr (k = key))
   | None \<Rightarrow> Inr False)"

section \<open>Storing the ratchet\<close>

definition sender_chain_ok :: "'r Ext \<Rightarrow> SenderChain \<Rightarrow> bool" where
  "sender_chain_ok E sc \<longleftrightarrow> public_key_ok (kp_public_key (sc_ratchet_key sc)) \<and>
     length (private_key_bytes (kp_private_key (sc_ratchet_key sc))) = 32 \<and>
     x_clamp_integer E (private_key_bytes (kp_private_key (sc_ratchet_key sc))) =
       private_key_bytes (kp_private_key (sc_ratchet_key sc)) \<and>
     length (ck_key (sc_chain_key sc)) = 32"

definition ratchet_ok :: "'r Ext \<Rightarrow> RatchetState \<Rightarrow> bool" where
  "ratchet_ok E rs \<longleftrightarrow> length (root_key_bytes (rs_root_key rs)) = 32 \<and>
     (\<forall>sc. rs_sender_chain rs = Some sc \<longrightarrow> sender_chain_ok E sc)"

lemma SenderChain_roundtrip: "sender_chain_ok E sc \<Longrightarrow> SenderChain_from_pb E (SenderChain_to_pb sc) = Inr sc"
  by (cases "kp_private_key (sc_ratchet_key sc)")
     (simp add: sender_chain_ok_def SenderChain_from_pb_def SenderChain_to_pb_def PrivateKey_deserialize_def
      PrivateKey_serialize_def)

lemma take_of_apply:
  assumes "ratchet_ok E rs" "rs_max_forward_jumps rs = (if self_session then usize_MAX else MAX_FORWARD_JUMPS)"
  shows "SessionState_take_ratchet_state E (SessionState_apply_ratchet_state s rs) self_session =
    (Inr rs, (SessionState_apply_ratchet_state s rs)\<lparr>ss_receiver_chains := []\<rparr>)"
  using assms
  by (cases "rs_root_key rs"; cases "rs_sender_chain rs")
     (auto simp: SessionState_take_ratchet_state_def SessionState_apply_ratchet_state_def Let_def
      RatchetState_apply_to_pb_def RatchetState_from_pb_def ratchet_ok_def SenderChain_roundtrip to_array_def)

text \<open>the ratchet survives storage. Writing a well-formed Double Ratchet state into a session and
  loading it again gives the same state, with the jump limit of the kind of session; the other fields
  of the session are untouched.\<close>

theorem ratchet_storage_roundtrip:
  assumes "ratchet_ok E rs" and "rs_max_forward_jumps rs = (if self_session then usize_MAX else MAX_FORWARD_JUMPS)"
  shows "\<exists>s'. SessionState_take_ratchet_state E (SessionState_apply_ratchet_state s rs) self_session = (Inr rs, s')
    \<and> SessionState_apply_ratchet_state s' rs = SessionState_apply_ratchet_state s rs
    \<and> ss_pending_pre_key s' = ss_pending_pre_key s \<and> ss_pq_ratchet_state s' = ss_pq_ratchet_state s
    \<and> ss_session_version s' = ss_session_version s \<and> ss_alice_base_key s' = ss_alice_base_key s
    \<and> ss_local_identity_public s' = ss_local_identity_public s
    \<and> ss_remote_identity_public s' = ss_remote_identity_public s"
  using take_of_apply [OF assms, of s]
  by (auto simp: SessionState_apply_ratchet_state_def RatchetState_apply_to_pb_def)

section \<open>Usable sender chains\<close>

lemma contains_simps:
  "requirements_contains r NotStale \<longleftrightarrow> bit r 0"
  "requirements_contains r EstablishedWithPqxdh \<longleftrightarrow> bit r 1"
  "requirements_contains r SpqrRequired \<longleftrightarrow> bit r 2"
proof -
  have "r AND 2 ^ n = 2 ^ n \<longleftrightarrow> bit r n" if "n < 32" for n
  proof
    assume "r AND 2 ^ n = 2 ^ n"
    then have "bit (r AND 2 ^ n) n = bit (2 ^ n :: u32) n" by simp
    then show "bit r n" using that by (simp add: bit_and_iff bit_exp_iff)
  next
    assume "bit r n"
    then show "r AND 2 ^ n = 2 ^ n" by (intro bit_word_eqI) (auto simp: bit_and_iff bit_exp_iff)
  qed
  from this [of 0] this [of 1] this [of 2] show
    "requirements_contains r NotStale \<longleftrightarrow> bit r 0"
    "requirements_contains r EstablishedWithPqxdh \<longleftrightarrow> bit r 1"
    "requirements_contains r SpqrRequired \<longleftrightarrow> bit r 2"
    by (simp_all add: requirements_contains_def NotStale_def EstablishedWithPqxdh_def SpqrRequired_def)
qed

definition expiry :: "PendingPreKey \<Rightarrow> int" where
  "expiry p = uint (ppk_timestamp p) * NANOS + MAX_UNACKNOWLEDGED_SESSION_AGE"

text \<open>when a session can be used for sending. With the timestamps of this age of the universe it has a
  sender chain and satisfies each requested condition: not past thirty days without acknowledgement,
  established with PQXDH, using the post-quantum ratchet.\<close>

theorem has_usable_sender_chain_iff:
  assumes "\<forall>p. ss_pending_pre_key s = Some p \<longrightarrow> uint (ppk_timestamp p) < 2 ^ 62"
  shows "SessionState_has_usable_sender_chain s now req = Inr (
     ss_sender_chain s \<noteq> None \<and>
     (bit req 0 \<longrightarrow> (\<forall>p. ss_pending_pre_key s = Some p \<longrightarrow> now \<le> expiry p)) \<and>
     (bit req 1 \<longrightarrow> ss_session_version s > 3) \<and>
     (bit req 2 \<longrightarrow> ss_pq_ratchet_state s \<noteq> []))"
proof -
  have ts: "(from_epoch_secs (ppk_timestamp p) :: int session_result) = Inr (uint (ppk_timestamp p) * NANOS)"
    "(SystemTime_add (uint (ppk_timestamp p) * NANOS) MAX_UNACKNOWLEDGED_SESSION_AGE :: int session_result) =
      Inr (expiry p)"
    if "ss_pending_pre_key s = Some p" for p
    using assms that
    by (auto simp: from_epoch_secs_def SystemTime_add_def expiry_def NANOS_def MAX_UNACKNOWLEDGED_SESSION_AGE_def)
  have v: "SessionState_session_version s = Inr w \<Longrightarrow> (w \<le> 3 \<longleftrightarrow> \<not> ss_session_version s > 3)" for w
    by (auto simp: SessionState_session_version_def split: if_splits)
  obtain w where w: "SessionState_session_version s = Inr w" by (metis SessionState_session_version_def)
  show ?thesis
    using v [OF w] ts w
    by (cases "ss_pending_pre_key s")
       (auto simp: SessionState_has_usable_sender_chain_def contains_simps version_defs not_less)
qed

section \<open>The archive\<close>

definition record_ok :: "SessionRecord \<Rightarrow> bool" where
  "record_ok r \<longleftrightarrow> length (sr_previous_sessions r) \<le> ARCHIVED_STATES_MAX_LENGTH"

text \<open>All sessions of a record as they would be archived, current one included, regardless of order.\<close>

definition all_sessions :: "'r Ext \<Rightarrow> SessionRecord \<Rightarrow> SessionState option multiset" where
  "all_sessions E r =
     (case sr_current_session r of None \<Rightarrow> {#}
      | Some s \<Rightarrow> {#Some (SessionState_clear_unacknowledged_pre_key_message s)#}) +
     image_mset (\<lambda>bs. map_option SessionState_clear_unacknowledged_pre_key_message (x_decode_session E bs))
       (mset (sr_previous_sessions r))"

lemma mset_remove_at: "i < length xs \<Longrightarrow> mset xs = add_mset (xs ! i) (mset (remove_at i xs))"
proof -
  assume i: "i < length xs"
  have "mset xs = mset (take i xs @ xs ! i # drop (Suc i) xs)" by (simp only: id_take_nth_drop [OF i, symmetric])
  then show ?thesis by (simp add: remove_at_def)
qed

lemma clear_clear [simp]: "SessionState_clear_unacknowledged_pre_key_message
    (SessionState_clear_unacknowledged_pre_key_message s) = SessionState_clear_unacknowledged_pre_key_message s"
  by (simp add: SessionState_clear_unacknowledged_pre_key_message_def)

lemma archive_ok: "record_ok r \<Longrightarrow> record_ok (snd (SessionRecord_archive_current_state_inner E r))"
  by (auto simp: record_ok_def SessionRecord_archive_current_state_inner_def ARCHIVED_STATES_MAX_LENGTH_def Let_def
      split: option.splits)

lemma promote_state_ok: "record_ok r \<Longrightarrow> record_ok (SessionRecord_promote_state E r s)"
  using archive_ok [of r E] by (simp add: SessionRecord_promote_state_def record_ok_def)

lemma all_sessions_archive:
  assumes "prost_laws E" "length (sr_previous_sessions r) < ARCHIVED_STATES_MAX_LENGTH"
  shows "all_sessions E (snd (SessionRecord_archive_current_state_inner E r)) = all_sessions E r"
    and "sr_current_session (snd (SessionRecord_archive_current_state_inner E r)) = None"
  using assms by (auto simp: all_sessions_def SessionRecord_archive_current_state_inner_def Let_def
      split: option.splits)

lemma all_sessions_promote_updated:
  assumes "prost_laws E" "record_ok r" "i < length (sr_previous_sessions r)"
    and "x_decode_session E (sr_previous_sessions r ! i) = Some s"
  shows "all_sessions E (SessionRecord_promote_old_session E r i s') +
      {#Some (SessionState_clear_unacknowledged_pre_key_message s)#} =
    all_sessions E r + {#Some (SessionState_clear_unacknowledged_pre_key_message s')#}"
proof -
  let ?r = "r\<lparr>sr_previous_sessions := remove_at i (sr_previous_sessions r)\<rparr>"
  let ?a = "snd (SessionRecord_archive_current_state_inner E ?r)"
  have l: "length (sr_previous_sessions ?r) < ARCHIVED_STATES_MAX_LENGTH"
    using assms(2,3) by (simp add: record_ok_def length_remove_at)
  have "all_sessions E (SessionRecord_promote_old_session E r i s') =
      add_mset (Some (SessionState_clear_unacknowledged_pre_key_message s')) (all_sessions E ?a)"
    using all_sessions_archive(2) [OF assms(1) l]
    by (simp add: SessionRecord_promote_old_session_def SessionRecord_promote_state_def all_sessions_def)
  also have "\<dots> = add_mset (Some (SessionState_clear_unacknowledged_pre_key_message s')) (all_sessions E ?r)"
    by (simp add: all_sessions_archive(1) [OF assms(1) l])
  finally show ?thesis
    using assms(4) by (simp add: all_sessions_def mset_remove_at [OF assms(3)])
qed

lemma all_sessions_promote_old:
  assumes "prost_laws E" "record_ok r" "i < length (sr_previous_sessions r)"
    and "x_decode_session E (sr_previous_sessions r ! i) = Some s"
  shows "all_sessions E (SessionRecord_promote_old_session E r i s) = all_sessions E r"
  using all_sessions_promote_updated [OF assms, of s] by simp

lemma promote_old_session_ok:
  assumes "record_ok r" "i < length (sr_previous_sessions r)"
  shows "record_ok (SessionRecord_promote_old_session E r i s)"
  unfolding SessionRecord_promote_old_session_def using assms
  by (intro promote_state_ok) (simp add: record_ok_def length_remove_at)

lemma promote_old_session_current [simp]: "sr_current_session (SessionRecord_promote_old_session E r i s) = Some s"
  by (simp add: SessionRecord_promote_old_session_def SessionRecord_promote_state_def)

lemma session_matches_total: "\<exists>b. session_matches v k s = Inr b"
  by (simp add: session_matches_def SessionState_session_version_def)

lemma find_session_to_promote_spec:
  "find_session_to_promote v k i xs = Inr (Some (j, s)) \<Longrightarrow>
     i \<le> j \<and> j < i + length xs \<and> xs ! (j - i) = Inr s \<and> session_matches v k s = Inr True"
  "find_session_to_promote v k i xs = Inr None \<Longrightarrow>
     \<forall>x \<in> set xs. \<exists>s. x = Inr s \<and> session_matches v k s = Inr False"
  "find_session_to_promote v k i xs = Inl f \<Longrightarrow> Inl f \<in> set xs"
proof (induction xs arbitrary: i)
  case (Cons x xs)
  case 1
  then show ?case using Cons.IH(1) [of "Suc i"]
    by (auto simp: res_simps split: if_splits)
next
  case (Cons x xs)
  case 2
  then show ?case using Cons.IH(2) [of "Suc i"] by (auto simp: res_simps split: if_splits)
next
  case (Cons x xs)
  case 3
  have "session_matches v k s \<noteq> Inl f" for s using session_matches_total [of v k s] by auto
  with 3 show ?case using Cons.IH(3) [of "Suc i"] by (auto simp: res_simps split: if_splits)
qed simp_all

lemma promote_found:
  assumes "prost_laws E" "record_ok r"
    and f: "find_session_to_promote v k 0 (SessionRecord_previous_session_states E r) = Inr (Some (i, s))"
  shows "\<exists>s'. sr_current_session (SessionRecord_promote_old_session E r i s) = Some s' \<and>
      session_matches v k s' = Inr True"
    and "all_sessions E (SessionRecord_promote_old_session E r i s) = all_sessions E r"
    and "record_ok (SessionRecord_promote_old_session E r i s)"
proof -
  note spec = find_session_to_promote_spec(1) [OF f]
  then have i: "i < length (sr_previous_sessions r)"
    and d: "x_decode_session E (sr_previous_sessions r ! i) = Some s"
    by (auto simp: SessionRecord_previous_session_states_def decode_previous_session_def)
  show "all_sessions E (SessionRecord_promote_old_session E r i s) = all_sessions E r"
    by (rule all_sessions_promote_old [OF assms(1,2) i d])
  show "record_ok (SessionRecord_promote_old_session E r i s)"
    by (rule promote_old_session_ok [OF assms(2) i])
  show "\<exists>s'. sr_current_session (SessionRecord_promote_old_session E r i s) = Some s' \<and>
      session_matches v k s' = Inr True"
    using spec by simp
qed

text \<open>C21: promoting a session. When a session with the requested version and base key is found, it becomes
  the current one and no session is lost or duplicated: the record holds the same sessions as before, and
  still at most forty archived ones. When none is found, or an archived session is corrupt, the record is
  unchanged, and in the first case really no session matches.\<close>

theorem promote_matching_session_spec:
  assumes "prost_laws E" "record_ok r"
    and "SessionRecord_promote_matching_session E r v k = (res, r')"
  shows "case res of
      Inr True \<Rightarrow> (\<exists>s. sr_current_session r' = Some s \<and> session_matches v k s = Inr True) \<and>
        all_sessions E r' = all_sessions E r \<and> record_ok r'
    | Inr False \<Rightarrow> r' = r \<and> (\<forall>s. sr_current_session r = Some s \<longrightarrow> session_matches v k s = Inr False) \<and>
        (\<forall>bs \<in> set (sr_previous_sessions r). \<exists>s. x_decode_session E bs = Some s \<and> session_matches v k s = Inr False)
    | Inl f \<Rightarrow> r' = r \<and> f = Err (InvalidSessionError ''failed to decode previous session protobuf'') \<and>
        (\<exists>bs \<in> set (sr_previous_sessions r). x_decode_session E bs = None)"
proof -
  define cur where "cur = (case sr_current_session r of None \<Rightarrow> Inr False | Some c \<Rightarrow> session_matches v k c)"
  obtain b where b: "cur = Inr b"
    unfolding cur_def using session_matches_total [of v k] by (cases "sr_current_session r") auto
  show ?thesis
  proof (cases b)
    case True
    with assms b show ?thesis
      by (auto simp: SessionRecord_promote_matching_session_def cur_def split: option.splits)
  next
    case False
    let ?xs = "SessionRecord_previous_session_states E r"
    show ?thesis
    proof (cases "find_session_to_promote v k 0 ?xs")
      case (Inl f)
      with assms(3) b False have "res = Inl f" "r' = r"
        by (auto simp: SessionRecord_promote_matching_session_def cur_def [symmetric])
      moreover have "Inl f \<in> set ?xs" using find_session_to_promote_spec(3) [OF Inl] .
      ultimately show ?thesis
        by (auto simp: SessionRecord_previous_session_states_def decode_previous_session_def ok_or_def
            split: option.splits)
    next
      case (Inr q)
      show ?thesis
      proof (cases q)
        case None
        with assms(3) b False Inr have "res = Inr False" "r' = r"
          by (auto simp: SessionRecord_promote_matching_session_def cur_def [symmetric])
        with find_session_to_promote_spec(2) [OF Inr [unfolded None]] b False show ?thesis
          by (auto simp: cur_def SessionRecord_previous_session_states_def decode_previous_session_def
              split: option.splits)
      next
        case (Some p)
        then obtain i s where p: "q = Some (i, s)" by (cases p) auto
        have "res = Inr True" "r' = SessionRecord_promote_old_session E r i s"
          using assms(3) b False Inr p by (auto simp: SessionRecord_promote_matching_session_def cur_def [symmetric])
        with promote_found [OF assms(1,2) Inr [unfolded p]] show ?thesis by simp
      qed
    qed
  qed
qed

section \<open>Concrete sessions\<close>

definition sample_session :: "byte \<Rightarrow> byte \<Rightarrow> SessionState" where
  "sample_session version b = SessionState_new version (IdentityKey (sample_public 3)) (IdentityKey (sample_public 4))
     (RootKey (replicate 32 1)) (sample_public b) []"

theorem ratchet_storage_roundtrip_witness:
  "\<exists>s'. SessionState_take_ratchet_state concrete
      (SessionState_apply_ratchet_state (sample_session 4 5) (sample_state MAX_FORWARD_JUMPS)) False =
    (Inr (sample_state MAX_FORWARD_JUMPS), s')"
proof -
  have "ratchet_ok concrete (sample_state MAX_FORWARD_JUMPS)"
    by (auto simp: ratchet_ok_def sample_state_def sender_chain_ok_def sample_public_ok)
       (simp_all add: sample_key_def sample_chain_key_def concrete_def)
  from ratchet_storage_roundtrip [OF this, of False "sample_session 4 5"] show ?thesis
    by (auto simp: sample_state_def)
qed

theorem has_usable_sender_chain_iff_witness:
  "SessionState_has_usable_sender_chain (SessionState_set_unacknowledged_pre_key_message
      (SessionState_set_sender_chain (sample_session 4 5) (sample_key 2) sample_chain_key) None 1 (sample_public 6) 0)
      (31 * 24 * 60 * 60 * NANOS) NotStale = Inr False"
  using has_usable_sender_chain_iff [of "SessionState_set_unacknowledged_pre_key_message
      (SessionState_set_sender_chain (sample_session 4 5) (sample_key 2) sample_chain_key) None 1 (sample_public 6) 0"
      "31 * 24 * 60 * 60 * NANOS" NotStale]
  by (simp add: SessionState_set_unacknowledged_pre_key_message_def epoch_secs_def NotStale_def expiry_def
      MAX_UNACKNOWLEDGED_SESSION_AGE_def NANOS_def SessionState_set_sender_chain_def)

theorem promote_matching_session_spec_witness:
  "\<exists>r'. SessionRecord_promote_matching_session concrete
      \<lparr>sr_current_session = Some (sample_session 3 5),
       sr_previous_sessions = [x_encode_session concrete (sample_session 4 6)]\<rparr>
      4 (PublicKey_serialize (sample_public 6)) = (Inr True, r') \<and>
    (\<exists>s. sr_current_session r' = Some s \<and> ss_session_version s = 4) \<and>
    length (sr_previous_sessions r') \<le> 40"
proof -
  let ?r = "\<lparr>sr_current_session = Some (sample_session 3 5),
       sr_previous_sessions = [x_encode_session concrete (sample_session 4 6)]\<rparr>"
  have m: "session_matches 4 (PublicKey_serialize (sample_public 6)) (sample_session 3 5) = Inr False"
    "session_matches 4 (PublicKey_serialize (sample_public 6)) (sample_session 4 6) = Inr True"
    by (simp_all add: session_matches_def SessionState_session_version_def sample_session_def SessionState_new_def
        SessionState_alice_base_key_def)
  obtain r' where p: "SessionRecord_promote_matching_session concrete ?r 4 (PublicKey_serialize (sample_public 6)) =
      (Inr True, r')"
    using concrete_prost_laws by (simp add: SessionRecord_promote_matching_session_def m
        SessionRecord_previous_session_states_def decode_previous_session_def)
  have "record_ok ?r" by (simp add: record_ok_def ARCHIVED_STATES_MAX_LENGTH_def)
  from promote_matching_session_spec [OF concrete_prost_laws this p] p show ?thesis
    by (auto simp: record_ok_def ARCHIVED_STATES_MAX_LENGTH_def session_matches_def
        SessionState_session_version_def split: if_splits)
qed

end
