(* ===== verification/Triple_Ratchet.thy ===== *)
theory Triple_Ratchet
  imports Session_State
begin

text \<open>
  \<open>rust/protocol/src/triple_ratchet.rs\<close>: the Double Ratchet combined with the post-quantum ratchet into
  one encrypt and one decrypt operation. The \<open>spqr\<close> crate is external; its \<open>send\<close> and \<open>recv\<close> are the
  corresponding fields of \<open>Ext\<close>.
\<close>

section \<open>Sending\<close>

record OutgoingTripleRatchet =
  ot_sender_ratchet_key :: KeyPair
  ot_sender_chain_key :: ChainKey
  ot_previous_counter :: u32
  ot_pqr_state :: bytes
  ot_session_version :: byte
  ot_local_identity_key :: IdentityKey
  ot_remote_identity_key :: IdentityKey

definition OutgoingTripleRatchet_from_session_state ::
    "'r Ext \<Rightarrow> SessionState \<Rightarrow> OutgoingTripleRatchet signal_result \<times> SessionState" where
  "OutgoingTripleRatchet_from_session_state E state =
     (case try_bind (session_err (SessionState_sender_ratchet_key state)) (\<lambda>public_key.
           try_bind (session_err (SessionState_sender_ratchet_private_key E state)) (\<lambda>private_key.
           try_bind (session_err (SessionState_get_sender_chain_key state)) (\<lambda>sender_chain_key.
           Inr (\<lparr>kp_public_key = public_key, kp_private_key = private_key\<rparr>, sender_chain_key)))) of
        Inl e \<Rightarrow> (Inl e, state)
      | Inr (sender_ratchet_key, sender_chain_key) \<Rightarrow>
         let (pqr_state, state') = SessionState_take_pq_ratchet_state state
         in (try_bind (session_err (SessionState_session_version state')) (\<lambda>v.
             try_bind (ok_or (InvalidSessionStructure ''version does not fit in u8'') (u32_to_u8 v))
               (\<lambda>session_version.
             try_bind (session_err (SessionState_local_identity_key state')) (\<lambda>local_identity_key.
             try_bind (session_err (SessionState_remote_identity_key state')) (\<lambda>remote.
             try_bind (ok_or (InvalidSessionStructure ''missing remote identity key'') remote)
               (\<lambda>remote_identity_key.
             Inr \<lparr>ot_sender_ratchet_key = sender_ratchet_key, ot_sender_chain_key = sender_chain_key,
                  ot_previous_counter = ss_previous_counter state', ot_pqr_state = pqr_state,
                  ot_session_version = session_version, ot_local_identity_key = local_identity_key,
                  ot_remote_identity_key = remote_identity_key\<rparr>))))), state'))"

definition OutgoingTripleRatchet_apply_to_session_state ::
    "OutgoingTripleRatchet \<Rightarrow> SessionState \<Rightarrow> SessionState" where
  "OutgoingTripleRatchet_apply_to_session_state ot state =
     SessionState_set_pq_ratchet_state
       (SessionState_set_sender_chain_key state (ot_sender_chain_key ot)) (ot_pqr_state ot)"

definition OutgoingTripleRatchet_encrypt ::
    "'r Ext \<Rightarrow> OutgoingTripleRatchet \<Rightarrow> bytes \<Rightarrow> ProtocolAddress option \<Rightarrow> ProtocolAddress \<Rightarrow> 'r \<Rightarrow>
     SignalMessage signal_result \<times> OutgoingTripleRatchet \<times> 'r" where
  "OutgoingTripleRatchet_encrypt E ot plaintext local_address remote_address rng =
     (case x_spqr_send E (ot_pqr_state ot) rng of
        (Inl e, rng1) \<Rightarrow> (Inl (Err (InvalidState ''encrypt''
           (''post-quantum ratchet send error: '' @ x_spqr_show E e))), ot, rng1)
      | (Inr (new_pqr_state, pqr_key, pqr_msg), rng1) \<Rightarrow>
         (case try_bind (MessageKeyGenerator_generate_keys E
                 (ChainKey_message_keys E (ot_sender_chain_key ot)) pqr_key) (\<lambda>message_keys.
               try_bind (or_err (InvalidSessionStructure ''invalid sender chain message keys'')
                 (aes_256_cbc_encrypt E plaintext (mks_cipher_key message_keys) (mks_iv message_keys))) (\<lambda>ctext.
               try_bind (SignalMessage_new E (ot_session_version ot) (mks_mac_key message_keys)
                   (map_option (\<lambda>addr. (addr, remote_address)) local_address)
                   (kp_public_key (ot_sender_ratchet_key ot)) (ck_index (ot_sender_chain_key ot))
                   (ot_previous_counter ot) ctext (ot_local_identity_key ot) (ot_remote_identity_key ot)
                   pqr_msg) (\<lambda>message.
               try_bind (ChainKey_next_chain_key E (ot_sender_chain_key ot)) (\<lambda>next_key.
               Inr (message, next_key))))) of
            Inl e \<Rightarrow> (Inl e, ot, rng1)
          | Inr (message, next_key) \<Rightarrow>
              (Inr message, ot\<lparr>ot_sender_chain_key := next_key, ot_pqr_state := new_pqr_state\<rparr>, rng1)))"

section \<open>Receiving\<close>

record TripleRatchet =
  tr_ratchet :: RatchetState
  tr_pqr_state :: bytes
  tr_local_identity_key :: IdentityKey
  tr_remote_identity_key :: IdentityKey

definition TripleRatchet_from_session_state ::
    "'r Ext \<Rightarrow> SessionState \<Rightarrow> bool \<Rightarrow> TripleRatchet signal_result \<times> SessionState" where
  "TripleRatchet_from_session_state E state self_session =
     (case SessionState_take_ratchet_state E state self_session of
        (Inl e, state1) \<Rightarrow> (Inl e, state1)
      | (Inr ratchet, state1) \<Rightarrow>
         let (pqr_state, state2) = SessionState_take_pq_ratchet_state state1
         in (try_bind (session_err (SessionState_local_identity_key state2)) (\<lambda>local_identity_key.
             try_bind (session_err (SessionState_remote_identity_key state2)) (\<lambda>remote.
             try_bind (ok_or (InvalidSessionStructure ''missing remote identity key'') remote)
               (\<lambda>remote_identity_key.
             Inr \<lparr>tr_ratchet = ratchet, tr_pqr_state = pqr_state,
                  tr_local_identity_key = local_identity_key,
                  tr_remote_identity_key = remote_identity_key\<rparr>))), state2))"

definition TripleRatchet_apply_to_session_state :: "TripleRatchet \<Rightarrow> SessionState \<Rightarrow> SessionState" where
  "TripleRatchet_apply_to_session_state tr state =
     SessionState_set_pq_ratchet_state (SessionState_apply_ratchet_state state (tr_ratchet tr)) (tr_pqr_state tr)"

text \<open>The part of \<open>decrypt\<close> after the message key has been consumed: it does not touch \<open>self\<close> until
  everything is verified; it returns the plaintext and the new state of the post-quantum ratchet.\<close>

definition TripleRatchet_open ::
    "'r Ext \<Rightarrow> TripleRatchet \<Rightarrow> ProtocolAddress \<Rightarrow> ProtocolAddress \<Rightarrow> SignalMessage \<Rightarrow> CiphertextMessageType \<Rightarrow>
     MessageKeyGenerator \<Rightarrow> (bytes \<times> bytes) signal_result" where
  "TripleRatchet_open E tr sender_address recipient_address ciphertext original_message_type message_key_gen =
     (case x_spqr_recv E (tr_pqr_state tr) (sm_pq_ratchet ciphertext) of
        Inl e \<Rightarrow> (case e of
            StateDecode \<Rightarrow> Inl (Err (InvalidState ''decrypt'' (''post-quantum ratchet error: '' @ x_spqr_show E e)))
          | _ \<Rightarrow> Inl (Err (InvalidMessage original_message_type
                   (''post-quantum ratchet error: '' @ x_spqr_show E e))))
      | Inr (new_pqr_state, pqr_key) \<Rightarrow>
          try_bind (MessageKeyGenerator_generate_keys E message_key_gen pqr_key) (\<lambda>message_keys.
          try_bind (SignalMessage_verify_mac_with_addresses E ciphertext sender_address recipient_address
              (tr_remote_identity_key tr) (tr_local_identity_key tr) (mks_mac_key message_keys)) (\<lambda>mac_valid.
          if \<not> mac_valid then Inl (Err (InvalidMessage original_message_type ''MAC verification failed''))
          else (case aes_256_cbc_decrypt E (sm_ciphertext ciphertext) (mks_cipher_key message_keys) (mks_iv message_keys) of
              Inr ptext \<Rightarrow> Inr (ptext, new_pqr_state)
            | Inl (Err BadKeyOrIv) \<Rightarrow> Inl (Err (InvalidSessionStructure ''invalid receiver chain message keys''))
            | Inl (Err (BadCiphertext msg)) \<Rightarrow>
                Inl (Err (InvalidMessage original_message_type (''failed to decrypt: '' @ msg)))
            | Inl (Panic m) \<Rightarrow> Inl (Panic m)))))"

definition TripleRatchet_decrypt ::
    "'r Ext \<Rightarrow> TripleRatchet \<Rightarrow> ProtocolAddress \<Rightarrow> ProtocolAddress \<Rightarrow> SignalMessage \<Rightarrow> CiphertextMessageType \<Rightarrow> 'r \<Rightarrow>
     bytes signal_result \<times> TripleRatchet \<times> 'r" where
  "TripleRatchet_decrypt E tr sender_address recipient_address ciphertext original_message_type rng =
     (case ensure_receiver_chain E (tr_ratchet tr) (sm_sender_ratchet_key ciphertext) rng of
        (Inl e, ratchet1, rng1) \<Rightarrow> (Inl e, tr\<lparr>tr_ratchet := ratchet1\<rparr>, rng1)
      | (Inr chain_key, ratchet1, rng1) \<Rightarrow>
         (case consume_message_key E ratchet1 (sm_sender_ratchet_key ciphertext) chain_key
                 (sm_counter ciphertext) original_message_type of
            (Inl e, ratchet2) \<Rightarrow> (Inl e, tr\<lparr>tr_ratchet := ratchet2\<rparr>, rng1)
          | (Inr message_key_gen, ratchet2) \<Rightarrow>
             (let tr2 = tr\<lparr>tr_ratchet := ratchet2\<rparr>
              in case TripleRatchet_open E tr2 sender_address recipient_address ciphertext
                        original_message_type message_key_gen of
                   Inl e \<Rightarrow> (Inl e, tr2, rng1)
                 | Inr (ptext, new_pqr_state) \<Rightarrow> (Inr ptext, tr2\<lparr>tr_pqr_state := new_pqr_state\<rparr>, rng1))))"

section \<open>Encryption\<close>

text \<open>What \<open>encrypt\<close> does when the post-quantum ratchet sends: the message carries the sender's counter and
  ratchet key and decrypts under the keys derived from the chain key; the chain moves on by one.\<close>

lemma encrypt_ok:
  assumes "hash_lengths E" "cbc_laws E" "x_spqr_send E (ot_pqr_state ot) rng = (Inr (pq', k, msg), rng1)"
    and "ck_index (ot_sender_chain_key ot) \<noteq> - 1"
  defines "keys \<equiv> MessageKeys_derive_keys E
      (hmac_sha256 E (ck_key (ot_sender_chain_key ot)) MESSAGE_KEY_SEED) k (ck_index (ot_sender_chain_key ot))"
  obtains m ctext nk where "ChainKey_next_chain_key E (ot_sender_chain_key ot) = Inr nk"
    and "OutgoingTripleRatchet_encrypt E ot pt la ra rng =
      (Inr m, ot\<lparr>ot_sender_chain_key := nk, ot_pqr_state := pq'\<rparr>, rng1)"
    and "SignalMessage_new E (ot_session_version ot) (mks_mac_key keys) (map_option (\<lambda>a. (a, ra)) la)
      (kp_public_key (ot_sender_ratchet_key ot)) (ck_index (ot_sender_chain_key ot)) (ot_previous_counter ot)
      ctext (ot_local_identity_key ot) (ot_remote_identity_key ot) msg = Inr m"
    and "aes_256_cbc_decrypt E ctext (mks_cipher_key keys) (mks_iv keys) = Inr pt"
    and "sm_ciphertext m = ctext" "sm_pq_ratchet m = msg" "sm_counter m = ck_index (ot_sender_chain_key ot)"
    and "sm_sender_ratchet_key m = kp_public_key (ot_sender_ratchet_key ot)"
    and "sm_message_version m = ot_session_version ot"
proof -
  have g: "MessageKeyGenerator_generate_keys E (ChainKey_message_keys E (ot_sender_chain_key ot)) k = Inr keys"
    by (simp add: MessageKeyGenerator_generate_keys_def ChainKey_message_keys_def keys_def
        MessageKeyGenerator_new_from_seed_def ChainKey_calculate_base_material_def)
  note l = MessageKeys_derive_keys_lengths [OF assms(1)]
  obtain ctext where c: "aes_256_cbc_encrypt E pt (mks_cipher_key keys) (mks_iv keys) = Inr ctext"
    and d: "aes_256_cbc_decrypt E ctext (mks_cipher_key keys) (mks_iv keys) = Inr pt"
    using aes_256_cbc_roundtrip [OF assms(2), of "mks_cipher_key keys" "mks_iv keys" pt] l
    unfolding keys_def by auto
  have lm: "length (mks_mac_key keys) = 32" using l unfolding keys_def by simp
  obtain m where m: "SignalMessage_new E (ot_session_version ot) (mks_mac_key keys) (map_option (\<lambda>a. (a, ra)) la)
      (kp_public_key (ot_sender_ratchet_key ot)) (ck_index (ot_sender_chain_key ot)) (ot_previous_counter ot)
      ctext (ot_local_identity_key ot) (ot_remote_identity_key ot) msg = Inr m"
    and f: "sm_message_version m = ot_session_version ot"
      "sm_sender_ratchet_key m = kp_public_key (ot_sender_ratchet_key ot)"
      "sm_counter m = ck_index (ot_sender_chain_key ot)" "sm_ciphertext m = ctext" "sm_pq_ratchet m = msg"
    by (rule SignalMessage_new_ok [OF assms(1) lm])
  obtain nk where n: "ChainKey_next_chain_key E (ot_sender_chain_key ot) = Inr nk"
    using assms(4) ck.nxt_Inr by blast
  have "OutgoingTripleRatchet_encrypt E ot pt la ra rng =
      (Inr m, ot\<lparr>ot_sender_chain_key := nk, ot_pqr_state := pq'\<rparr>, rng1)"
    by (simp add: OutgoingTripleRatchet_encrypt_def assms(3) g c m n)
  with that n m d f show ?thesis by blast
qed

text \<open>The receiver opens it with the generator of the same counter and the same post-quantum key.\<close>

lemma open_ok:
  assumes h: "hash_lengths E" and new: "SignalMessage_new E v (mks_mac_key keys) addrs rk n prev c sid rid pq = Inr m"
    and a: "addrs = None \<or> addrs = Some (s, r)"
    and k: "MessageKeyGenerator_generate_keys E g k = Inr keys"
    and d: "aes_256_cbc_decrypt E c (mks_cipher_key keys) (mks_iv keys) = Inr pt"
    and recv: "x_spqr_recv E (tr_pqr_state tr) (sm_pq_ratchet m) = Inr (pq', k)"
    and ids: "tr_remote_identity_key tr = sid" "tr_local_identity_key tr = rid" and c: "sm_ciphertext m = c"
  shows "TripleRatchet_open E tr s r m t g = Inr (pt, pq')"
  using SignalMessage_verify_new [OF h new a] by (simp add: TripleRatchet_open_def recv k ids c d)

lemma encrypt_counter:
  assumes "OutgoingTripleRatchet_encrypt E ot pt la ra rng = (Inr m, ot', rng')"
  shows "ck_index (ot_sender_chain_key ot) \<noteq> - 1"
proof
  assume "ck_index (ot_sender_chain_key ot) = - 1"
  then have "ChainKey_next_chain_key E (ot_sender_chain_key ot) = Inl (Panic ''attempt to add with overflow'')"
    by (simp add: ChainKey_next_Inl_iff)
  with assms show False
    by (auto simp: OutgoingTripleRatchet_encrypt_def res_simps split: sum.splits prod.splits)
qed

text \<open>The receiving half, for a chain that is stored or that a ratchet step has just made.\<close>

lemma decrypt_of_encrypt:
  assumes "hash_lengths E" "cbc_laws E"
    and "OutgoingTripleRatchet_encrypt E ot pt la ra rng = (Inr m, ot', rng')" and la: "la = None \<or> la = Some sa"
    and "ck_advance E d c0 = Inr (ot_sender_chain_key ot)"
    and en: "ensure_receiver_chain E (tr_ratchet tr) (kp_public_key (ot_sender_ratchet_key ot)) rng2 =
      (Inr ck, rs1, rng3)"
    and "receiver_view rs1 (kp_public_key (ot_sender_ratchet_key ot)) = Some (ck, ks)"
    and "dr_chain_inv E c0 (ck, ks)" "\<not> dr_gone (ck_index (ot_sender_chain_key ot)) (ck, ks)"
    and "ck_index ck \<le> ck_index (ot_sender_chain_key ot) \<longrightarrow>
      unat (ck_index (ot_sender_chain_key ot) - ck_index ck) \<le> rs_max_forward_jumps rs1"
    and send: "x_spqr_send E (ot_pqr_state ot) rng = (Inr (pq1, k, pmsg), rng1)"
    and recv: "x_spqr_recv E (tr_pqr_state tr) pmsg = Inr (pq2, k)"
    and ids: "tr_remote_identity_key tr = ot_local_identity_key ot" "tr_local_identity_key tr = ot_remote_identity_key ot"
  shows "\<exists>rs' s'. TripleRatchet_decrypt E tr sa ra m t rng2 =
      (Inr pt, tr\<lparr>tr_ratchet := rs', tr_pqr_state := pq2\<rparr>, rng3) \<and> same_frame rs1 rs' \<and>
    receiver_view rs' (kp_public_key (ot_sender_ratchet_key ot)) = Some s' \<and>
    dr_chain_inv E c0 s' \<and> dr_gone (ck_index (ot_sender_chain_key ot)) s' \<and>
    (\<exists>kk. dr_receive E (ck_index (ot_sender_chain_key ot)) (ck, ks) = Some (kk, s'))"
proof -
  let ?sck = "ot_sender_chain_key ot" and ?e = "kp_public_key (ot_sender_ratchet_key ot)"
  let ?n = "ck_index ?sck"
  note top = encrypt_counter [OF assms(3)]
  define keys where "keys = MessageKeys_derive_keys E (hmac_sha256 E (ck_key ?sck) MESSAGE_KEY_SEED) k ?n"
  obtain nk ctext where
    new: "SignalMessage_new E (ot_session_version ot) (mks_mac_key keys) (map_option (\<lambda>a. (a, ra)) la) ?e ?n
      (ot_previous_counter ot) ctext (ot_local_identity_key ot) (ot_remote_identity_key ot) pmsg = Inr m"
    and dec: "aes_256_cbc_decrypt E ctext (mks_cipher_key keys) (mks_iv keys) = Inr pt"
    and f: "sm_ciphertext m = ctext" "sm_pq_ratchet m = pmsg" "sm_counter m = ?n" "sm_sender_ratchet_key m = ?e"
    by (rule encrypt_ok [OF assms(1,2) send top, of pt la ra]) (use assms(3) in \<open>auto simp: keys_def\<close>)
  have gen: "MessageKeyGenerator_generate_keys E (chain_generator E c0 ?n) k = Inr keys"
    using advance_key [OF assms(5)] ck.advance_unat [OF assms(5)]
    by (simp add: MessageKeyGenerator_generate_keys_def chain_generator_def keys_def CHAIN_KEY_SEED_def MESSAGE_KEY_SEED_def)
  obtain kk s' rs' where c: "consume_message_key E rs1 ?e ck ?n t = (Inr (chain_generator E c0 ?n), rs')"
    and r: "dr_receive E ?n (ck, ks) = Some (kk, s')" and v': "receiver_view rs' ?e = Some s'" and fr: "same_frame rs1 rs'"
    using consume_cases [OF assms(1,7,8) top, of t] assms(9,10) by (metis not_le)
  have o: "TripleRatchet_open E (tr\<lparr>tr_ratchet := rs'\<rparr>) sa ra m t (chain_generator E c0 ?n) = Inr (pt, pq2)"
    by (rule open_ok [OF assms(1) new _ gen dec]) (use recv ids la f in auto)
  have "TripleRatchet_decrypt E tr sa ra m t rng2 = (Inr pt, tr\<lparr>tr_ratchet := rs', tr_pqr_state := pq2\<rparr>, rng3)"
    using en f c o by (simp add: TripleRatchet_decrypt_def Let_def)
  with v' fr r dr.receive_key(1,4) [OF assms(8) r] show ?thesis by blast
qed

text \<open>C5: the ratchet decrypts what it encrypted, out of order or not. Let the receiver hold a receiver
  chain for the sender's ratchet key that started at the same chain key as the sender's chain, in any
  reachable state of that chain in which the sender's current counter has not been used and is within the
  jump limit. If the post-quantum ratchets agree on the key, decrypting the encrypted message gives the
  plaintext, and afterwards the counter is used up.\<close>

theorem triple_ratchet_roundtrip:
  assumes "hash_lengths E" "cbc_laws E"
    and "OutgoingTripleRatchet_encrypt E ot pt (Some la) ra rng = (Inr m, ot', rng')"
    and "ck_advance E d c0 = Inr (ot_sender_chain_key ot)"
    and "receiver_view (tr_ratchet tr) (kp_public_key (ot_sender_ratchet_key ot)) = Some (ck, ks)"
    and "dr_chain_inv E c0 (ck, ks)" "\<not> dr_gone (ck_index (ot_sender_chain_key ot)) (ck, ks)"
    and "ck_index ck \<le> ck_index (ot_sender_chain_key ot) \<longrightarrow>
      unat (ck_index (ot_sender_chain_key ot) - ck_index ck) \<le> rs_max_forward_jumps (tr_ratchet tr)"
    and "x_spqr_send E (ot_pqr_state ot) rng = (Inr (pq1, k, pmsg), rng1)"
    and "x_spqr_recv E (tr_pqr_state tr) pmsg = Inr (pq2, k)"
    and "tr_remote_identity_key tr = ot_local_identity_key ot" "tr_local_identity_key tr = ot_remote_identity_key ot"
  shows "\<exists>tr' s'. TripleRatchet_decrypt E tr la ra m t rng2 = (Inr pt, tr', rng2) \<and>
    receiver_view (tr_ratchet tr') (kp_public_key (ot_sender_ratchet_key ot)) = Some s' \<and>
    dr_gone (ck_index (ot_sender_chain_key ot)) s' \<and> tr_pqr_state tr' = pq2"
  using decrypt_of_encrypt [OF assms(1-3) disjI2 [OF refl] assms(4) ensure_receiver_chain_stored [OF assms(5), of E rng2]
      assms(5-12), where t = t] by force

text \<open>a failed MAC is not without effect on the ratchet object. When decryption on a stored receiver
  chain fails at the MAC check, the message key of that counter is consumed all the same, while the
  post-quantum ratchet is untouched: the counter is afterwards used up in the (uncommitted) ratchet.\<close>

theorem failed_mac_consumes_key:
  assumes "hash_lengths E" "receiver_view (tr_ratchet tr) (sm_sender_ratchet_key m) = Some (ck, ks)"
    "dr_chain_inv E c0 (ck, ks)" "sm_counter m \<noteq> - 1"
    and "TripleRatchet_decrypt E tr sa ra m t rng =
      (Inl (Err (InvalidMessage t ''MAC verification failed'')), tr', rng')"
  shows "\<exists>s'. receiver_view (tr_ratchet tr') (sm_sender_ratchet_key m) = Some s' \<and> dr_gone (sm_counter m) s' \<and>
    \<not> dr_gone (sm_counter m) (ck, ks) \<and> tr_pqr_state tr' = tr_pqr_state tr"
proof -
  note e = ensure_receiver_chain_stored [OF assms(2), of E rng]
  show ?thesis
  proof (rule consume_cases [OF assms(1-4), of t])
    fix k s' rs'
    assume c: "consume_message_key E (tr_ratchet tr) (sm_sender_ratchet_key m) ck (sm_counter m) t =
        (Inr (chain_generator E c0 (sm_counter m)), rs')"
      and r: "dr_receive E (sm_counter m) (ck, ks) = Some (k, s')"
      and v: "receiver_view rs' (sm_sender_ratchet_key m) = Some s'"
    have ng: "\<not> dr_gone (sm_counter m) (ck, ks)" using r dr.receive_gone_None [of "sm_counter m" "(ck, ks)" E] by auto
    have "tr' = tr\<lparr>tr_ratchet := rs'\<rparr>"
      using assms(5) e c by (auto simp: TripleRatchet_decrypt_def Let_def split: sum.splits)
    with v dr.receive_key(4) [OF assms(3) r] ng show ?thesis by auto
  qed (use assms(5) e in \<open>auto simp: TripleRatchet_decrypt_def\<close>)
qed

section \<open>A concrete exchange\<close>

definition sample_outgoing :: OutgoingTripleRatchet where
  "sample_outgoing = \<lparr>ot_sender_ratchet_key = sample_key 9, ot_sender_chain_key = sample_chain_key,
     ot_previous_counter = 0, ot_pqr_state = [7], ot_session_version = 4,
     ot_local_identity_key = IdentityKey (sample_public 3), ot_remote_identity_key = IdentityKey (sample_public 4)\<rparr>"

definition sample_incoming :: TripleRatchet where
  "sample_incoming = \<lparr>tr_ratchet = sample_state MAX_FORWARD_JUMPS, tr_pqr_state = [7],
     tr_local_identity_key = IdentityKey (sample_public 4), tr_remote_identity_key = IdentityKey (sample_public 3)\<rparr>"

lemma sample_send:
  "x_spqr_send concrete (ot_pqr_state sample_outgoing) 0 = (Inr ([7], None, [8]), 0)"
  "x_spqr_recv concrete (tr_pqr_state sample_incoming) [8] = Inr ([7], None)"
  by (simp_all add: concrete_def sample_outgoing_def sample_incoming_def)

lemma sample_outgoing_fields [simp]:
  "ot_sender_ratchet_key sample_outgoing = sample_key 9" "ot_sender_chain_key sample_outgoing = sample_chain_key"
  "ck_index sample_chain_key = 0"
  by (simp_all add: sample_outgoing_def sample_chain_key_def)

lemma sample_incoming_view:
  "receiver_view (tr_ratchet sample_incoming) (kp_public_key (sample_key 9)) = Some (sample_chain_key, [])"
  by (simp add: sample_incoming_def sample_view)

lemma sample_encrypt:
  obtains m ot' where "OutgoingTripleRatchet_encrypt concrete sample_outgoing [1, 2, 3]
      (Some (sample_address CHR ''0'')) (sample_address CHR ''1'') 0 = (Inr m, ot', 0)"
    and "sm_counter m = 0" "sm_sender_ratchet_key m = kp_public_key (sample_key 9)" "sm_pq_ratchet m = [8]"
  by (rule encrypt_ok [OF concrete_hash_lengths concrete_cbc_laws sample_send(1), of "[1, 2, 3]"
        "Some (sample_address CHR ''0'')" "sample_address CHR ''1''"]) simp_all

theorem triple_ratchet_roundtrip_witness:
  "\<exists>m ot' tr'. OutgoingTripleRatchet_encrypt concrete sample_outgoing [1, 2, 3]
      (Some (sample_address CHR ''0'')) (sample_address CHR ''1'') 0 = (Inr m, ot', 0) \<and>
    TripleRatchet_decrypt concrete sample_incoming (sample_address CHR ''0'') (sample_address CHR ''1'') m
      WhisperType 5 = (Inr [1, 2, 3], tr', 5)"
proof -
  obtain m ot' where m: "OutgoingTripleRatchet_encrypt concrete sample_outgoing [1, 2, 3]
      (Some (sample_address CHR ''0'')) (sample_address CHR ''1'') 0 = (Inr m, ot', 0)"
    by (rule sample_encrypt)
  have a: "ck_advance concrete 0 sample_chain_key = Inr (ot_sender_chain_key sample_outgoing)" by simp
  have "\<exists>tr' s'. TripleRatchet_decrypt concrete sample_incoming (sample_address CHR ''0'') (sample_address CHR ''1'') m
      WhisperType 5 = (Inr [1, 2, 3], tr', 5) \<and>
    receiver_view (tr_ratchet tr') (kp_public_key (ot_sender_ratchet_key sample_outgoing)) = Some s' \<and>
    dr_gone (ck_index (ot_sender_chain_key sample_outgoing)) s' \<and> tr_pqr_state tr' = [7]"
    by (rule triple_ratchet_roundtrip [OF concrete_hash_lengths concrete_cbc_laws m a _ dr.chain_inv_start _ _
          sample_send])
       (simp_all add: sample_incoming_view dr.gone_def, simp_all add: sample_incoming_def sample_outgoing_def)
  with m show ?thesis by blast
qed

theorem failed_mac_consumes_key_witness:
  "\<exists>m tr' rng'. TripleRatchet_decrypt concrete sample_incoming (sample_address CHR ''0'') (sample_address CHR ''1'') m
      WhisperType 5 = (Inl (Err (InvalidMessage WhisperType ''MAC verification failed'')), tr', rng') \<and>
    (\<exists>s'. receiver_view (tr_ratchet tr') (kp_public_key (sample_key 9)) = Some s' \<and> dr_gone 0 s')"
proof -
  let ?s = "sample_address CHR ''0''" and ?r = "sample_address CHR ''1''"
  obtain m0 ot0 where "OutgoingTripleRatchet_encrypt concrete sample_outgoing [1, 2, 3] (Some ?s) ?r 0 = (Inr m0, ot0, 0)"
    and m0: "sm_counter m0 = 0" "sm_sender_ratchet_key m0 = kp_public_key (sample_key 9)" "sm_pq_ratchet m0 = [8]"
    by (rule sample_encrypt)
  define m where "m = m0\<lparr>sm_serialized := replicate 8 0\<rparr>"
  have f: "sm_counter m = 0" "sm_sender_ratchet_key m = kp_public_key (sample_key 9)" "sm_pq_ratchet m = [8]"
    by (simp_all add: m_def m0)
  obtain d rs' where c: "consume_message_key concrete (tr_ratchet sample_incoming) (kp_public_key (sample_key 9))
      sample_chain_key 0 WhisperType = (Inr (ChainKey_message_keys concrete d), rs')"
    by (rule consume_ahead [OF sample_incoming_view _ _ _ concrete_hash_lengths, of 0 WhisperType]) simp_all
  obtain keys where g: "MessageKeyGenerator_generate_keys concrete (ChainKey_message_keys concrete d) None = Inr keys"
    and l: "length (mks_mac_key keys) = 32"
    using MessageKeys_derive_keys_lengths(2) [OF concrete_hash_lengths]
    by (simp add: MessageKeyGenerator_generate_keys_def ChainKey_message_keys_def MessageKeyGenerator_new_from_seed_def)
  have "take 8 (x_hmac_sha256 concrete (mks_mac_key keys) (PublicKey_serialize p @ q)) \<noteq> replicate 8 0" for p q
  proof
    assume e: "take 8 (x_hmac_sha256 concrete (mks_mac_key keys) (PublicKey_serialize p @ q)) = replicate 8 0"
    have "hd (take 8 (x_hmac_sha256 concrete (mks_mac_key keys) (PublicKey_serialize p @ q))) = 5"
      by (cases p) (simp add: concrete_def fit_def PublicKey_serialize_def PublicKey_key_type_def)
    then show False unfolding e by simp
  qed
  then have v: "SignalMessage_verify_mac_with_addresses concrete m ?s ?r sid rid (mks_mac_key keys) = Inr False" for sid rid
    using l by (simp add: SignalMessage_verify_mac_with_addresses_def SignalMessage_verify_mac_def m_def
        split_last_chunk_def SignalMessage_MAC_LENGTH_def SignalMessage_compute_mac_def)
  have o: "TripleRatchet_decrypt concrete sample_incoming ?s ?r m WhisperType 5 =
      (Inl (Err (InvalidMessage WhisperType ''MAC verification failed'')), sample_incoming\<lparr>tr_ratchet := rs'\<rparr>, 5)"
    using ensure_receiver_chain_stored [OF sample_incoming_view, of concrete 5] sample_send(2)
    by (simp add: TripleRatchet_decrypt_def f c Let_def TripleRatchet_open_def g v)
  have "\<exists>s'. receiver_view (tr_ratchet (sample_incoming\<lparr>tr_ratchet := rs'\<rparr>)) (kp_public_key (sample_key 9)) = Some s'
      \<and> dr_gone 0 s'"
    using failed_mac_consumes_key [OF concrete_hash_lengths _ dr.chain_inv_start _ o] f sample_incoming_view by auto
  with o show ?thesis by blast
qed

end
