(* ===== verification/Pqxdh.thy ===== *)
theory Pqxdh
  imports Triple_Ratchet
begin

text \<open>
  \<open>rust/protocol/src/handshake.rs\<close>, \<open>pqxdh.rs\<close> and \<open>ratchet.rs\<close>: the key agreement that starts a session
  and the initialization of both sides' session state from its result. The trait \<open>Handshake\<close> is a locale;
  \<open>Pqxdh\<close> is its interpretation.
\<close>

section \<open>The handshake interface\<close>

text \<open>\<open>matches ip m rp\<close>: the recipient's parameters are the counterpart of the initiator's, with the
  initiator's message \<open>m\<close> delivered.\<close>

locale handshake =
  fixes initiate :: "'ip \<Rightarrow> 'r \<Rightarrow> ('m \<times> 's) signal_result \<times> 'r"
    and accept :: "'rp \<Rightarrow> 's signal_result"
    and matches :: "'ip \<Rightarrow> 'm \<Rightarrow> 'rp \<Rightarrow> bool"
  assumes agree: "initiate ip rng = (Inr (m, s), rng') \<Longrightarrow> matches ip m rp \<Longrightarrow> accept rp = Inr s"
    and no_panic: "\<not> is_panic (fst (initiate ip rng))" "\<not> is_panic (accept rp)"
begin

text \<open>The recipient's secret depends only on the counterpart and the message, not on which of two matching
  runs of the initiator produced it.\<close>

lemma secret_determined:
  assumes "initiate ip rng = (Inr (m, s), r1)" "initiate ip' rng' = (Inr (m, s'), r2)"
    and "matches ip m rp" "matches ip' m rp"
  shows "s = s'"
  using agree [OF assms(1,3)] agree [OF assms(2,4)] by simp

lemma accept_unless_error:
  assumes "initiate ip rng = (r, rng')"
  shows "case r of Inr (m, s) \<Rightarrow> (\<forall>rp. matches ip m rp \<longrightarrow> accept rp = Inr s) | Inl f \<Rightarrow> \<exists>e. f = Err e"
  using assms no_panic(1) [of ip rng] agree [of ip rng]
  by (auto simp: is_panic_def split: sum.splits failure.splits)

end

section \<open>PQXDH\<close>

record HandshakeKeys =
  hk_root_key :: RootKey
  hk_chain_key :: ChainKey
  hk_pqr_key :: bytes

definition HandshakeKeys_derive_with_label :: "'r Ext \<Rightarrow> bytes \<Rightarrow> bytes \<Rightarrow> HandshakeKeys" where
  "HandshakeKeys_derive_with_label E label secret_input =
     (let (root_key_bytes, chain_key_bytes, pqr_bytes) = derive_arrays 32 32 32
            (x_hkdf_sha256 E None secret_input label)
      in \<lparr>hk_root_key = RootKey root_key_bytes, hk_chain_key = \<lparr>ck_key = chain_key_bytes, ck_index = 0\<rparr>,
          hk_pqr_key = pqr_bytes\<rparr>)"

definition HandshakeKeys_derive :: "'r Ext \<Rightarrow> bytes \<Rightarrow> HandshakeKeys" where
  "HandshakeKeys_derive E secret_input =
     HandshakeKeys_derive_with_label E (ascii ''WhisperText_X25519_SHA-256_CRYSTALS-KYBER-1024'') secret_input"

record InitiatorParameters =
  ip_our_identity_key_pair :: IdentityKeyPair
  ip_our_ephemeral_key_pair :: KeyPair
  ip_their_identity_key :: IdentityKey
  ip_their_signed_pre_key :: PublicKey
  ip_their_one_time_pre_key :: "PublicKey option"
  ip_their_ratchet_key :: PublicKey
  ip_their_kyber_pre_key :: KemKey
  ip_self_session :: bool

definition InitiatorParameters_new ::
    "IdentityKeyPair \<Rightarrow> KeyPair \<Rightarrow> IdentityKey \<Rightarrow> PublicKey \<Rightarrow> PublicKey \<Rightarrow> KemKey \<Rightarrow> bool \<Rightarrow> InitiatorParameters" where
  "InitiatorParameters_new our_identity our_ephemeral their_identity their_signed_pre_key their_ratchet_key
       their_kyber_pre_key self_session =
     \<lparr>ip_our_identity_key_pair = our_identity, ip_our_ephemeral_key_pair = our_ephemeral,
      ip_their_identity_key = their_identity, ip_their_signed_pre_key = their_signed_pre_key,
      ip_their_one_time_pre_key = None, ip_their_ratchet_key = their_ratchet_key,
      ip_their_kyber_pre_key = their_kyber_pre_key, ip_self_session = self_session\<rparr>"

definition InitiatorParameters_set_their_one_time_pre_key ::
    "InitiatorParameters \<Rightarrow> PublicKey \<Rightarrow> InitiatorParameters" where
  "InitiatorParameters_set_their_one_time_pre_key p ec_public = p\<lparr>ip_their_one_time_pre_key := Some ec_public\<rparr>"

record InitiatorAgreement =
  ia_keys :: HandshakeKeys
  ia_kyber_ciphertext :: bytes

text \<open>The first half of \<open>pqxdh_initiate\<close>: the discontinuity bytes and the Diffie-Hellman outputs.\<close>

definition initiator_dh_secrets :: "'r Ext \<Rightarrow> InitiatorParameters \<Rightarrow> bytes signal_result" where
  "initiator_dh_secrets E p =
     try_bind (curve_err (PrivateKey_calculate_agreement E (ikp_priv_key (ip_our_identity_key_pair p))
         (ip_their_signed_pre_key p))) (\<lambda>dh1.
     try_bind (curve_err (PrivateKey_calculate_agreement E (kp_private_key (ip_our_ephemeral_key_pair p))
         (identity_public_key (ip_their_identity_key p)))) (\<lambda>dh2.
     try_bind (curve_err (PrivateKey_calculate_agreement E (kp_private_key (ip_our_ephemeral_key_pair p))
         (ip_their_signed_pre_key p))) (\<lambda>dh3.
     try_bind (case ip_their_one_time_pre_key p of None \<Rightarrow> Inr []
         | Some their_one_time_prekey \<Rightarrow> curve_err (PrivateKey_calculate_agreement E
             (kp_private_key (ip_our_ephemeral_key_pair p)) their_one_time_prekey)) (\<lambda>dh4.
     Inr (replicate 32 0xFF @ dh1 @ dh2 @ dh3 @ dh4)))))"

definition pqxdh_initiate :: "'r Ext \<Rightarrow> InitiatorParameters \<Rightarrow> 'r \<Rightarrow> InitiatorAgreement signal_result \<times> 'r" where
  "pqxdh_initiate E p rng = (case initiator_dh_secrets E p of
        Inl e \<Rightarrow> (Inl e, rng)
      | Inr secrets \<Rightarrow>
         (case KemKey_encapsulate E (ip_their_kyber_pre_key p) rng of
            (Inl e, rng1) \<Rightarrow> (Inl e, rng1)
          | (Inr (ss, ct), rng1) \<Rightarrow>
              (Inr \<lparr>ia_keys = HandshakeKeys_derive E (secrets @ ss), ia_kyber_ciphertext = ct\<rparr>, rng1)))"

record RecipientParameters =
  rp_our_identity_key_pair :: IdentityKeyPair
  rp_our_signed_pre_key_pair :: KeyPair
  rp_our_one_time_pre_key_pair :: "KeyPair option"
  rp_our_kyber_pre_key_pair :: KemKeyPair
  rp_their_identity_key :: IdentityKey
  rp_their_ephemeral_key :: PublicKey
  rp_their_kyber_ciphertext :: bytes
  rp_self_session :: bool

definition pqxdh_accept :: "'r Ext \<Rightarrow> RecipientParameters \<Rightarrow> HandshakeKeys signal_result" where
  "pqxdh_accept E p =
     (if \<not> PublicKey_is_canonical E (rp_their_ephemeral_key p)
      then Inl (Err (InvalidMessage PreKeyType ''incoming base key is invalid''))
      else
        try_bind (curve_err (PrivateKey_calculate_agreement E (kp_private_key (rp_our_signed_pre_key_pair p))
            (identity_public_key (rp_their_identity_key p)))) (\<lambda>dh1.
        try_bind (curve_err (PrivateKey_calculate_agreement E (ikp_priv_key (rp_our_identity_key_pair p))
            (rp_their_ephemeral_key p))) (\<lambda>dh2.
        try_bind (curve_err (PrivateKey_calculate_agreement E (kp_private_key (rp_our_signed_pre_key_pair p))
            (rp_their_ephemeral_key p))) (\<lambda>dh3.
        try_bind (case rp_our_one_time_pre_key_pair p of None \<Rightarrow> Inr []
            | Some k \<Rightarrow> curve_err (PrivateKey_calculate_agreement E (kp_private_key k)
                (rp_their_ephemeral_key p))) (\<lambda>dh4.
        try_bind (KemKey_decapsulate E (kem_secret_key (rp_our_kyber_pre_key_pair p))
            (rp_their_kyber_ciphertext p)) (\<lambda>ss.
        Inr (HandshakeKeys_derive E (replicate 32 0xFF @ dh1 @ dh2 @ dh3 @ dh4 @ ss))))))))"

definition Pqxdh_initiate ::
    "'r Ext \<Rightarrow> InitiatorParameters \<Rightarrow> 'r \<Rightarrow> (bytes \<times> HandshakeKeys) signal_result \<times> 'r" where
  "Pqxdh_initiate E params rng = (let (r, rng') = pqxdh_initiate E params rng
     in (try_bind r (\<lambda>result. Inr (ia_kyber_ciphertext result, ia_keys result)), rng'))"

definition Pqxdh_accept :: "'r Ext \<Rightarrow> RecipientParameters \<Rightarrow> HandshakeKeys signal_result" where
  "Pqxdh_accept E params = pqxdh_accept E params"

section \<open>Initial session states\<close>

definition spqr_chain_params :: "bool \<Rightarrow> u32 \<times> u32" where
  "spqr_chain_params self_connection =
     (if self_connection then - 1 else of_nat MAX_FORWARD_JUMPS, of_nat MAX_MESSAGE_KEYS)"

definition spqr_initial :: "'r Ext \<Rightarrow> bytes \<Rightarrow> spqr_direction \<Rightarrow> bool \<Rightarrow> spqr_error + bytes" where
  "spqr_initial E pqr_key direction self_connection =
     (let (max_jump, max_ooo_keys) = spqr_chain_params self_connection
      in x_spqr_initial_state E \<lparr>spqr_auth_key = pqr_key, spqr_version = 1, spqr_direction = direction,
           spqr_min_version = 1, spqr_max_jump = max_jump, spqr_max_ooo_keys = max_ooo_keys\<rparr>)"

definition initialize_initiator_session ::
    "'r Ext \<Rightarrow> InitiatorParameters \<Rightarrow> RootKey \<Rightarrow> ChainKey \<Rightarrow> bytes \<Rightarrow> bytes \<Rightarrow> 'r \<Rightarrow> SessionState signal_result \<times> 'r" where
  "initialize_initiator_session E p root_key chain_key pqr_key kyber_ciphertext rng =
     (let local_identity = ikp_identity_key (ip_our_identity_key_pair p);
          (sending_ratchet_key, rng1) = KeyPair_generate E rng
      in (try_bind (RootKey_create_chain E root_key (ip_their_ratchet_key p) (kp_private_key sending_ratchet_key))
            (\<lambda>(sending_chain_root_key, sending_chain_chain_key).
          case spqr_initial E pqr_key A2B (ip_self_session p) of
            Inl e \<Rightarrow> Inl (Err (InvalidArgument
              (''post-quantum ratchet: error creating initial A2B state: '' @ x_spqr_show E e)))
          | Inr pqr_state \<Rightarrow>
             let session = SessionState_set_sender_chain
                   (SessionState_add_receiver_chain
                     (SessionState_new CIPHERTEXT_MESSAGE_CURRENT_VERSION local_identity (ip_their_identity_key p)
                        sending_chain_root_key (kp_public_key (ip_our_ephemeral_key_pair p)) pqr_state)
                     (ip_their_ratchet_key p) chain_key)
                   sending_ratchet_key sending_chain_chain_key
             in Inr (SessionState_set_kyber_ciphertext session kyber_ciphertext)), rng1))"

definition initialize_alice_session ::
    "'r Ext \<Rightarrow> InitiatorParameters \<Rightarrow> 'r \<Rightarrow> SessionState signal_result \<times> 'r" where
  "initialize_alice_session E p rng = (case Pqxdh_initiate E p rng of
     (Inl e, rng1) \<Rightarrow> (Inl e, rng1)
   | (Inr (kyber_ciphertext, keys), rng1) \<Rightarrow>
       initialize_initiator_session E p (hk_root_key keys) (hk_chain_key keys) (hk_pqr_key keys)
         kyber_ciphertext rng1)"

definition initialize_recipient_session ::
    "'r Ext \<Rightarrow> RecipientParameters \<Rightarrow> KeyPair \<Rightarrow> RootKey \<Rightarrow> ChainKey \<Rightarrow> bytes \<Rightarrow> SessionState signal_result" where
  "initialize_recipient_session E p our_ratchet_key_pair root_key chain_key pqr_key =
     (let local_identity = ikp_identity_key (rp_our_identity_key_pair p)
      in case spqr_initial E pqr_key B2A (rp_self_session p) of
           Inl e \<Rightarrow> Inl (Err (InvalidArgument
             (''post-quantum ratchet: error creating initial B2A state: '' @ x_spqr_show E e)))
         | Inr pqr_state \<Rightarrow>
             Inr (SessionState_set_sender_chain
               (SessionState_new CIPHERTEXT_MESSAGE_CURRENT_VERSION local_identity (rp_their_identity_key p)
                  root_key (rp_their_ephemeral_key p) pqr_state)
               our_ratchet_key_pair chain_key))"

definition initialize_bob_session ::
    "'r Ext \<Rightarrow> RecipientParameters \<Rightarrow> KeyPair \<Rightarrow> SessionState signal_result" where
  "initialize_bob_session E p our_ratchet_key_pair =
     try_bind (Pqxdh_accept E p) (\<lambda>keys.
     initialize_recipient_session E p our_ratchet_key_pair (hk_root_key keys) (hk_chain_key keys) (hk_pqr_key keys))"

definition initialize_alice_session_record ::
    "'r Ext \<Rightarrow> InitiatorParameters \<Rightarrow> 'r \<Rightarrow> SessionRecord signal_result \<times> 'r" where
  "initialize_alice_session_record E p rng =
     (let (r, rng') = initialize_alice_session E p rng in (try_bind r (\<lambda>s. Inr (SessionRecord_new s)), rng'))"

definition initialize_bob_session_record ::
    "'r Ext \<Rightarrow> RecipientParameters \<Rightarrow> KeyPair \<Rightarrow> SessionRecord signal_result" where
  "initialize_bob_session_record E p k = try_bind (initialize_bob_session E p k) (\<lambda>s. Inr (SessionRecord_new s))"

section \<open>Both sides agree\<close>

text \<open>The recipient's parameters are made from the key pairs behind the bundle the initiator used and from
  the initiator's message.\<close>

definition pqxdh_matches :: "'r Ext \<Rightarrow> InitiatorParameters \<Rightarrow> bytes \<Rightarrow> RecipientParameters \<Rightarrow> bool" where
  "pqxdh_matches E ip ct rp \<longleftrightarrow>
     x25519_laws E \<and> kem_laws E \<and>
     identity_pair_ok E (ip_our_identity_key_pair ip) \<and> key_pair_ok E (ip_our_ephemeral_key_pair ip) \<and>
     identity_pair_ok E (rp_our_identity_key_pair rp) \<and> key_pair_ok E (rp_our_signed_pre_key_pair rp) \<and>
     (\<forall>k. rp_our_one_time_pre_key_pair rp = Some k \<longrightarrow> key_pair_ok E k) \<and>
     kem_pair_ok E (rp_our_kyber_pre_key_pair rp) \<and>
     PublicKey_is_canonical E (kp_public_key (ip_our_ephemeral_key_pair ip)) \<and>
     ip_their_identity_key ip = ikp_identity_key (rp_our_identity_key_pair rp) \<and>
     ip_their_signed_pre_key ip = kp_public_key (rp_our_signed_pre_key_pair rp) \<and>
     ip_their_one_time_pre_key ip = map_option kp_public_key (rp_our_one_time_pre_key_pair rp) \<and>
     ip_their_kyber_pre_key ip = kem_public_key (rp_our_kyber_pre_key_pair rp) \<and>
     rp_their_identity_key rp = ikp_identity_key (ip_our_identity_key_pair ip) \<and>
     rp_their_ephemeral_key rp = kp_public_key (ip_our_ephemeral_key_pair ip) \<and>
     rp_their_kyber_ciphertext rp = ct"

definition identity_as_key_pair :: "IdentityKeyPair \<Rightarrow> KeyPair" where
  "identity_as_key_pair k = \<lparr>kp_public_key = identity_public_key (ikp_identity_key k), kp_private_key = ikp_priv_key k\<rparr>"

lemma identity_as_key_pair_ok: "identity_pair_ok E k \<Longrightarrow> key_pair_ok E (identity_as_key_pair k)"
  by (simp add: identity_pair_ok_def key_pair_ok_def identity_as_key_pair_def)

lemma identity_agreement:
  assumes "x25519_laws E" "identity_pair_ok E i" "key_pair_ok E k"
  shows "PrivateKey_calculate_agreement E (ikp_priv_key i) (kp_public_key k) =
         PrivateKey_calculate_agreement E (kp_private_key k) (identity_public_key (ikp_identity_key i))"
  using calculate_agreement_commutes [OF assms(1) identity_as_key_pair_ok [OF assms(2)] assms(3)]
  by (simp add: identity_as_key_pair_def)

lemma decapsulate_of_encapsulate:
  assumes "kem_laws E" "kem_pair_ok E kp" "KemKey_encapsulate E (kem_public_key kp) rng = (Inr (ss, ct), rng')"
  shows "KemKey_decapsulate E (kem_secret_key kp) ct = Inr ss"
  using KemKey_decapsulate_encapsulate [OF assms(1,2), of rng] assms(3) by auto

lemma pqxdh_agree:
  assumes "Pqxdh_initiate E ip rng = (Inr (ct, keys), rng')" and m: "pqxdh_matches E ip ct rp"
  shows "Pqxdh_accept E rp = Inr keys"
proof -
  note a = calculate_agreement_commutes and i = identity_agreement
  have laws: "x25519_laws E" "kem_laws E"
    and k: "identity_pair_ok E (ip_our_identity_key_pair ip)" "key_pair_ok E (ip_our_ephemeral_key_pair ip)"
      "identity_pair_ok E (rp_our_identity_key_pair rp)" "key_pair_ok E (rp_our_signed_pre_key_pair rp)"
      "kem_pair_ok E (rp_our_kyber_pre_key_pair rp)"
      "\<And>q. rp_our_one_time_pre_key_pair rp = Some q \<Longrightarrow> key_pair_ok E q"
    using m by (auto simp: pqxdh_matches_def)
  have d1: "PrivateKey_calculate_agreement E (kp_private_key (rp_our_signed_pre_key_pair rp))
      (identity_public_key (ikp_identity_key (ip_our_identity_key_pair ip))) =
    PrivateKey_calculate_agreement E (ikp_priv_key (ip_our_identity_key_pair ip)) (kp_public_key (rp_our_signed_pre_key_pair rp))"
    using i [OF laws(1) k(1,4)] by simp
  have d2: "PrivateKey_calculate_agreement E (ikp_priv_key (rp_our_identity_key_pair rp))
      (kp_public_key (ip_our_ephemeral_key_pair ip)) =
    PrivateKey_calculate_agreement E (kp_private_key (ip_our_ephemeral_key_pair ip))
      (identity_public_key (ikp_identity_key (rp_our_identity_key_pair rp)))"
    by (rule i [OF laws(1) k(3,2)])
  have d3: "PrivateKey_calculate_agreement E (kp_private_key q) (kp_public_key (ip_our_ephemeral_key_pair ip)) =
    PrivateKey_calculate_agreement E (kp_private_key (ip_our_ephemeral_key_pair ip)) (kp_public_key q)"
    if "key_pair_ok E q" for q by (rule a [OF laws(1) that k(2)])
  show ?thesis
    using assms(1) m decapsulate_of_encapsulate [OF laws(2) k(5)]
    by (cases "rp_our_one_time_pre_key_pair rp")
       (fastforce simp: Pqxdh_initiate_def pqxdh_initiate_def initiator_dh_secrets_def Pqxdh_accept_def pqxdh_accept_def pqxdh_matches_def
          d1 d2 d3 k(4,6) Let_def res_simps split: prod.splits sum.splits)+
qed

lemma KemKey_encapsulate_no_panic: "\<not> is_panic (fst (KemKey_encapsulate E k rng))"
  by (auto simp: KemKey_encapsulate_def kyber1024_encapsulate_def Let_def is_panic_try_bind split: prod.splits)

lemma KemKey_decapsulate_no_panic: "\<not> is_panic (KemKey_decapsulate E k ct)"
  by (auto simp: KemKey_decapsulate_def kyber1024_decapsulate_def Ciphertext_deserialize_def
      KemKeyType_try_from_def is_panic_try_bind)

lemma initiator_dh_secrets_no_panic: "\<not> is_panic (initiator_dh_secrets E p)"
  by (auto simp: initiator_dh_secrets_def is_panic_try_bind calculate_agreement_no_panic split: option.splits)

lemma Pqxdh_initiate_no_panic: "\<not> is_panic (fst (Pqxdh_initiate E ip rng))"
  using KemKey_encapsulate_no_panic [of E "ip_their_kyber_pre_key ip" rng] initiator_dh_secrets_no_panic [of E ip]
  by (auto simp: Pqxdh_initiate_def pqxdh_initiate_def is_panic_def Let_def
      split: prod.splits sum.splits failure.splits)

lemma Pqxdh_accept_no_panic: "\<not> is_panic (Pqxdh_accept E rp)"
  by (auto simp: Pqxdh_accept_def pqxdh_accept_def is_panic_try_bind calculate_agreement_no_panic
      KemKey_decapsulate_no_panic split: option.splits)

interpretation px: handshake "Pqxdh_initiate E" "Pqxdh_accept E" "pqxdh_matches E" for E
  by unfold_locales (simp_all add: pqxdh_agree Pqxdh_initiate_no_panic Pqxdh_accept_no_panic)

section \<open>The initial sessions are in step\<close>

text \<open>A key pair that survives storage in the session's protobuf.\<close>

definition stored_pair_ok :: "'r Ext \<Rightarrow> KeyPair \<Rightarrow> bool" where
  "stored_pair_ok E kp \<longleftrightarrow> key_pair_ok E kp \<and> length (private_key_bytes (kp_private_key kp)) = 32 \<and>
     x_clamp_integer E (private_key_bytes (kp_private_key kp)) = private_key_bytes (kp_private_key kp)"

text \<open>Random buffers are filled to their length.\<close>

definition rng_laws :: "'r Ext \<Rightarrow> bool" where
  "rng_laws E \<longleftrightarrow> (\<forall>n r. length (fst (x_fill_bytes E n r)) = n)"

lemma KeyPair_generate_stored:
  assumes "x25519_laws E" "rng_laws E" "KeyPair_generate E rng = (kp, rng')"
  shows "stored_pair_ok E kp"
proof -
  have "length (fst (x_fill_bytes E 32 rng)) = 32" using assms(2) by (simp add: rng_laws_def)
  then show ?thesis
    using assms(1,3) KeyPair_generate_ok [OF assms(1,3)]
    by (auto simp: stored_pair_ok_def KeyPair_generate_def Let_def x25519_laws_def split: prod.splits)
qed

lemma stored_sender_chain_ok:
  "\<lbrakk>x25519_laws E; stored_pair_ok E kp; length (ck_key ck) = 32\<rbrakk> \<Longrightarrow>
   sender_chain_ok E \<lparr>sc_ratchet_key = kp, sc_chain_key = ck\<rparr>"
  by (simp add: sender_chain_ok_def stored_pair_ok_def key_pair_public_ok)

lemma derive_lengths:
  "hash_lengths E \<Longrightarrow> length (root_key_bytes (hk_root_key (HandshakeKeys_derive E s))) = 32"
  "hash_lengths E \<Longrightarrow> length (ck_key (hk_chain_key (HandshakeKeys_derive E s))) = 32"
  by (simp_all add: HandshakeKeys_derive_def HandshakeKeys_derive_with_label_def derive_arrays_def Let_def)

lemma Pqxdh_initiate_derives:
  "Pqxdh_initiate E ip rng = (Inr (ct, keys), rng') \<Longrightarrow> \<exists>s. keys = HandshakeKeys_derive E s"
  by (auto simp: Pqxdh_initiate_def pqxdh_initiate_def Let_def res_simps split: prod.splits sum.splits)

text \<open>The ratchet a fresh session holds.\<close>

lemma set_sender_chain_pb:
  "SessionState_set_sender_chain s k ck =
     s\<lparr>ss_sender_chain := Some (SenderChain_to_pb \<lparr>sc_ratchet_key = k, sc_chain_key = ck\<rparr>)\<rparr>"
  by (simp add: SessionState_set_sender_chain_def SenderChain_to_pb_def Let_def ChainKey_to_pb_def)

lemma fresh_ratchet:
  assumes "length (root_key_bytes rk) = 32" "sender_chain_ok E \<lparr>sc_ratchet_key = k, sc_chain_key = ck\<rparr>"
    and "ss_root_key s = root_key_bytes rk" "ss_previous_counter s = 0"
    and "ss_sender_chain s = Some (SenderChain_to_pb \<lparr>sc_ratchet_key = k, sc_chain_key = ck\<rparr>)"
  shows "fst (SessionState_take_ratchet_state E s self_session) = Inr
    \<lparr>rs_root_key = rk, rs_sender_chain = Some \<lparr>sc_ratchet_key = k, sc_chain_key = ck\<rparr>,
     rs_receiver_chains = ss_receiver_chains s, rs_previous_counter = 0,
     rs_max_forward_jumps = (if self_session then usize_MAX else MAX_FORWARD_JUMPS)\<rparr>"
  using assms by (simp add: SessionState_take_ratchet_state_def RatchetState_from_pb_def Let_def
      to_array_def SenderChain_roundtrip)

lemma initialize_initiator_session_InrD:
  assumes "initialize_initiator_session E p rk ck pqr ct rng = (Inr a, rng')"
    "KeyPair_generate E rng = (kp, rng1)"
  obtains root chain pq where "rng' = rng1"
    and "RootKey_create_chain E rk (ip_their_ratchet_key p) (kp_private_key kp) = Inr (root, chain)"
    and "a = SessionState_set_kyber_ciphertext (SessionState_set_sender_chain (SessionState_add_receiver_chain
        (SessionState_new CIPHERTEXT_MESSAGE_CURRENT_VERSION (ikp_identity_key (ip_our_identity_key_pair p))
           (ip_their_identity_key p) root (kp_public_key (ip_our_ephemeral_key_pair p)) pq)
        (ip_their_ratchet_key p) ck) kp chain) ct"
  using assms that
  by (cases "spqr_initial E pqr A2B (ip_self_session p)")
     (auto simp: initialize_initiator_session_def Let_def res_simps)

lemma single_chain_view:
  assumes "public_key_ok e" "length (ck_key ck) = 32"
    and "rs_receiver_chains rs = [\<lparr>ch_sender_ratchet_key = PublicKey_serialize e, ch_sender_ratchet_key_private = [],
           ch_chain_key = Some (ChainKey_to_pb ck), ch_message_keys = []\<rparr>]"
  shows "receiver_view rs e = Some (ck, [])"
  using assms by (simp add: receiver_view_def find_receiver_chain_key_def find_receiver_chain_index_def
      ChainKey_from_pb_def ChainKey_to_pb_def to_array_def)

lemmas session_setter_defs = SessionState_set_kyber_ciphertext_def set_sender_chain_pb
  SessionState_add_receiver_chain_def SessionState_new_def SessionState_alice_base_key_def Let_def

lemma initiator_session:
  assumes "hash_lengths E" "rng_laws E" "x25519_laws E"
    and n: "initialize_initiator_session E p rk ck pqr ct rng = (Inr a, rng')"
    and e: "public_key_ok (ip_their_ratchet_key p)" "length (ck_key ck) = 32"
  obtains ra sa where "fst (SessionState_take_ratchet_state E a self_session) = Inr ra"
    and "rs_sender_chain ra = Some sa" "key_pair_ok E (sc_ratchet_key sa)"
    and "RootKey_create_chain E rk (ip_their_ratchet_key p) (kp_private_key (sc_ratchet_key sa)) =
      Inr (rs_root_key ra, sc_chain_key sa)"
    and "receiver_view ra (ip_their_ratchet_key p) = Some (ck, [])"
    and "SessionState_get_kyber_ciphertext a = Some ct"
    and "SessionState_alice_base_key a = PublicKey_serialize (kp_public_key (ip_our_ephemeral_key_pair p))"
    and "ss_local_identity_public a = IdentityKey_serialize (ikp_identity_key (ip_our_identity_key_pair p))"
    and "ss_remote_identity_public a = IdentityKey_serialize (ip_their_identity_key p)"
proof -
  obtain kp rng1 where g: "KeyPair_generate E rng = (kp, rng1)" by fastforce
  obtain root chain pq where cc: "RootKey_create_chain E rk (ip_their_ratchet_key p) (kp_private_key kp) = Inr (root, chain)"
    and a: "a = SessionState_set_kyber_ciphertext (SessionState_set_sender_chain (SessionState_add_receiver_chain
        (SessionState_new CIPHERTEXT_MESSAGE_CURRENT_VERSION (ikp_identity_key (ip_our_identity_key_pair p))
           (ip_their_identity_key p) root (kp_public_key (ip_our_ephemeral_key_pair p)) pq)
        (ip_their_ratchet_key p) ck) kp chain) ct"
    by (rule initialize_initiator_session_InrD [OF n g])
  note l = RootKey_create_chain_lengths [OF assms(1) cc]
  have sa: "sender_chain_ok E \<lparr>sc_ratchet_key = kp, sc_chain_key = chain\<rparr>"
    using stored_sender_chain_ok assms(3) KeyPair_generate_stored [OF assms(3,2) g] l by blast
  define ra where "ra = \<lparr>rs_root_key = root, rs_sender_chain = Some \<lparr>sc_ratchet_key = kp, sc_chain_key = chain\<rparr>,
    rs_receiver_chains = ss_receiver_chains a, rs_previous_counter = 0,
    rs_max_forward_jumps = (if self_session then usize_MAX else MAX_FORWARD_JUMPS)\<rparr>"
  have ra: "fst (SessionState_take_ratchet_state E a self_session) = Inr ra"
    unfolding ra_def using l sa by (intro fresh_ratchet) (simp_all add: a session_setter_defs)
  have view: "receiver_view ra (ip_their_ratchet_key p) = Some (ck, [])"
    by (rule single_chain_view [OF e]) (simp add: ra_def a session_setter_defs ChainKey_to_pb_def MAX_RECEIVER_CHAINS_def)
  show ?thesis
    by (rule that [OF ra, of "\<lparr>sc_ratchet_key = kp, sc_chain_key = chain\<rparr>"])
       (use cc view KeyPair_generate_ok [OF assms(3) g] in \<open>simp_all add: ra_def\<close>,
        simp_all add: a session_setter_defs SessionState_get_kyber_ciphertext_def IdentityKey_serialize_def)
qed

lemma recipient_session:
  assumes "x25519_laws E" "stored_pair_ok E k" "length (root_key_bytes rk) = 32" "length (ck_key ck) = 32"
  obtains (pq) e where "initialize_recipient_session E p k rk ck pqr = Inl (Err (InvalidArgument
        (''post-quantum ratchet: error creating initial B2A state: '' @ x_spqr_show E e)))"
  | (ok) b rb where "initialize_recipient_session E p k rk ck pqr = Inr b"
      and "fst (SessionState_take_ratchet_state E b self_session) = Inr rb"
      and "rs_sender_chain rb = Some \<lparr>sc_ratchet_key = k, sc_chain_key = ck\<rparr>" "rs_root_key rb = rk"
      and "rs_receiver_chains rb = []"
      and "SessionState_alice_base_key b = PublicKey_serialize (rp_their_ephemeral_key p)"
      and "ss_local_identity_public b = IdentityKey_serialize (ikp_identity_key (rp_our_identity_key_pair p))"
      and "ss_remote_identity_public b = IdentityKey_serialize (rp_their_identity_key p)"
proof (cases "spqr_initial E pqr B2A (rp_self_session p)")
  case (Inl e)
  then show ?thesis by (intro pq) (simp add: initialize_recipient_session_def)
next
  case (Inr pq2)
  define b where "b = SessionState_set_sender_chain (SessionState_new CIPHERTEXT_MESSAGE_CURRENT_VERSION
    (ikp_identity_key (rp_our_identity_key_pair p)) (rp_their_identity_key p) rk (rp_their_ephemeral_key p) pq2) k ck"
  have b: "initialize_recipient_session E p k rk ck pqr = Inr b"
    using Inr by (simp add: initialize_recipient_session_def b_def Let_def)
  have "fst (SessionState_take_ratchet_state E b self_session) = Inr
      \<lparr>rs_root_key = rk, rs_sender_chain = Some \<lparr>sc_ratchet_key = k, sc_chain_key = ck\<rparr>,
       rs_receiver_chains = ss_receiver_chains b, rs_previous_counter = 0,
       rs_max_forward_jumps = (if self_session then usize_MAX else MAX_FORWARD_JUMPS)\<rparr>"
    using stored_sender_chain_ok assms by (intro fresh_ratchet) (simp_all add: b_def session_setter_defs)
  then show ?thesis
    by (rule ok [OF b]) (simp_all add: b_def session_setter_defs IdentityKey_serialize_def)
qed

text \<open>C4: the two sessions of a PQXDH handshake start in step. If the initiator's parameters are made from
  the public halves of the recipient's keys and the recipient receives the initiator's identity key, base
  key and KEM ciphertext, then the recipient's initialization either reports that the post-quantum ratchet
  could not be created or gives a session such that the initiator's sending chain is the chain the
  recipient derives at its first Diffie-Hellman step, the initiator's receiver chain for the signed prekey
  is the recipient's sending chain, and both sides store the same base key and each other's identity.\<close>

theorem initial_sessions_synced:
  assumes "hash_lengths E" "rng_laws E"
    and "initialize_alice_session E ip rng = (Inr a, rng')"
    and "SessionState_get_kyber_ciphertext a = Some ct" "pqxdh_matches E ip ct rp"
    and "ip_their_ratchet_key ip = kp_public_key rk" "stored_pair_ok E rk"
  shows "case initialize_bob_session E rp rk of
      Inl f \<Rightarrow> \<exists>e. f = Err (InvalidArgument
        (''post-quantum ratchet: error creating initial B2A state: '' @ x_spqr_show E e))
    | Inr b \<Rightarrow> \<exists>ra rb sa sb.
        fst (SessionState_take_ratchet_state E a (ip_self_session ip)) = Inr ra \<and>
        fst (SessionState_take_ratchet_state E b (rp_self_session rp)) = Inr rb \<and>
        rs_sender_chain ra = Some sa \<and> rs_sender_chain rb = Some sb \<and> sc_ratchet_key sb = rk \<and>
        dh_synced E ra rb (sc_chain_key sa) \<and>
        receiver_view ra (kp_public_key rk) = Some (sc_chain_key sb, []) \<and>
        SessionState_alice_base_key b = SessionState_alice_base_key a \<and>
        ss_local_identity_public a = ss_remote_identity_public b \<and>
        ss_local_identity_public b = ss_remote_identity_public a"
proof -
  have laws: "x25519_laws E" using assms(5) by (simp add: pqxdh_matches_def)
  have okp: "key_pair_ok E rk" and pk: "public_key_ok (ip_their_ratchet_key ip)"
    using assms(6,7) key_pair_public_ok [OF laws] by (auto simp: stored_pair_ok_def)
  obtain ct' keys rng1 where i: "Pqxdh_initiate E ip rng = (Inr (ct', keys), rng1)"
    and n: "initialize_initiator_session E ip (hk_root_key keys) (hk_chain_key keys) (hk_pqr_key keys) ct' rng1
      = (Inr a, rng')"
    using assms(3) by (auto simp: initialize_alice_session_def split: prod.splits sum.splits)
  obtain s where keys: "keys = HandshakeKeys_derive E s" using Pqxdh_initiate_derives [OF i] by auto
  note l = derive_lengths [OF assms(1), of s, folded keys]
  obtain ra sa where ra: "fst (SessionState_take_ratchet_state E a (ip_self_session ip)) = Inr ra"
    "rs_sender_chain ra = Some sa" "key_pair_ok E (sc_ratchet_key sa)"
    "RootKey_create_chain E (hk_root_key keys) (kp_public_key rk) (kp_private_key (sc_ratchet_key sa)) =
      Inr (rs_root_key ra, sc_chain_key sa)"
    "receiver_view ra (kp_public_key rk) = Some (hk_chain_key keys, [])"
    and ct: "SessionState_get_kyber_ciphertext a = Some ct'"
    and ids: "SessionState_alice_base_key a = PublicKey_serialize (kp_public_key (ip_our_ephemeral_key_pair ip))"
    "ss_local_identity_public a = IdentityKey_serialize (ikp_identity_key (ip_our_identity_key_pair ip))"
    "ss_remote_identity_public a = IdentityKey_serialize (ip_their_identity_key ip)"
    by (rule initiator_session [OF assms(1,2) laws n pk l(2), of "ip_self_session ip"]) (simp add: assms(6))
  have acc: "Pqxdh_accept E rp = Inr keys" using px.agree [OF i] assms(4,5) ct by simp
  have bob: "initialize_bob_session E rp rk =
      initialize_recipient_session E rp rk (hk_root_key keys) (hk_chain_key keys) (hk_pqr_key keys)"
    by (simp add: initialize_bob_session_def acc)
  show ?thesis unfolding bob
  proof (rule recipient_session [OF laws assms(7) l, where p = rp and pqr = "hk_pqr_key keys"
      and self_session = "rp_self_session rp"], goal_cases)
    case (1 e)
    then show ?case by auto
  next
    case (2 b rb)
    have s: "dh_synced E ra rb (sc_chain_key sa)" using ra 2 okp by (simp add: dh_synced_def)
    show ?case unfolding 2(1) sum.case
      by (rule exI [of _ ra], rule exI [of _ rb], rule exI [of _ sa], rule exI)
         (use ra s ids 2 assms(5) in \<open>auto simp: pqxdh_matches_def\<close>)
  qed
qed

section \<open>A concrete handshake\<close>

definition sample_identity :: "byte \<Rightarrow> IdentityKeyPair" where
  "sample_identity b = \<lparr>ikp_identity_key = IdentityKey (kp_public_key (sample_key b)),
     ikp_priv_key = kp_private_key (sample_key b)\<rparr>"

definition sample_kem :: KemKeyPair where
  "sample_kem = \<lparr>kem_public_key = \<lparr>kem_key_type = Kyber1024, kem_key_data = replicate 4 6\<rparr>,
     kem_secret_key = \<lparr>kem_key_type = Kyber1024, kem_key_data = replicate 4 6\<rparr>\<rparr>"

definition sample_initiator :: InitiatorParameters where
  "sample_initiator = InitiatorParameters_set_their_one_time_pre_key
     (InitiatorParameters_new (sample_identity 3) (sample_key 5) (ikp_identity_key (sample_identity 4))
        (kp_public_key (sample_key 2)) (kp_public_key (sample_key 2)) (kem_public_key sample_kem) False)
     (kp_public_key (sample_key 8))"

definition sample_recipient :: "bytes \<Rightarrow> RecipientParameters" where
  "sample_recipient ct = \<lparr>rp_our_identity_key_pair = sample_identity 4, rp_our_signed_pre_key_pair = sample_key 2,
     rp_our_one_time_pre_key_pair = Some (sample_key 8), rp_our_kyber_pre_key_pair = sample_kem,
     rp_their_identity_key = ikp_identity_key (sample_identity 3),
     rp_their_ephemeral_key = kp_public_key (sample_key 5), rp_their_kyber_ciphertext = ct, rp_self_session = False\<rparr>"

lemma sample_identity_ok: "identity_pair_ok concrete (sample_identity b)"
  using sample_key_ok [of b] by (simp add: identity_pair_ok_def key_pair_ok_def sample_identity_def)

lemma sample_kem_ok: "kem_pair_ok concrete sample_kem"
  by (simp add: kem_pair_ok_def sample_kem_def concrete_def) (rule exI [of _ "replicate 4 6"], simp)

lemma sample_canonical: "PublicKey_is_canonical concrete (kp_public_key (sample_key 5))"
  by (simp add: PublicKey_is_canonical_def PublicKey_is_torsion_free_def PublicKey_scalar_is_in_range_def
      sample_key_def concrete_def)

lemma sample_matches: "pqxdh_matches concrete sample_initiator ct (sample_recipient ct)"
  using concrete_x25519_laws concrete_kem_laws sample_identity_ok sample_key_ok sample_kem_ok sample_canonical
  by (simp add: pqxdh_matches_def sample_initiator_def sample_recipient_def InitiatorParameters_new_def
      InitiatorParameters_set_their_one_time_pre_key_def)

lemma sample_stored: "stored_pair_ok concrete (sample_key b)"
  by (simp add: stored_pair_ok_def sample_key_ok) (simp add: sample_key_def concrete_def)

lemma concrete_rng_laws: "rng_laws concrete"
  by (simp add: rng_laws_def concrete_def)

lemma sample_dh:
  assumes "a + b \<noteq> 0"
  shows "PrivateKey_calculate_agreement concrete (kp_private_key (sample_key a)) (kp_public_key (sample_key b)) =
    Inr (replicate 32 (a + b))"
  using assms by (simp add: PrivateKey_calculate_agreement_def sample_key_def curve25519_PrivateKey_from_def
      Let_def concrete_def)

lemma sample_generate: "KeyPair_generate concrete n = (sample_key (of_nat (Suc n)), Suc n)"
  by (simp add: KeyPair_generate_def sample_key_def concrete_def)

lemma sample_initiate:
  obtains ct keys where "Pqxdh_initiate concrete sample_initiator 0 = (Inr (ct, keys), 1)"
proof -
  obtain ss ct where k: "KemKey_encapsulate concrete (kem_public_key sample_kem) 0 = (Inr (ss, ct), 1)"
    by (simp add: KemKey_encapsulate_def kyber1024_encapsulate_def sample_kem_def concrete_def)
  have "initiator_dh_secrets concrete sample_initiator =
      Inr (replicate 32 0xFF @ replicate 32 5 @ replicate 32 9 @ replicate 32 7 @ replicate 32 13)"
    by (simp add: initiator_dh_secrets_def sample_initiator_def InitiatorParameters_new_def sample_identity_def
        InitiatorParameters_set_their_one_time_pre_key_def sample_dh)
  with k that show ?thesis
    by (simp add: Pqxdh_initiate_def pqxdh_initiate_def sample_initiator_def InitiatorParameters_new_def
        InitiatorParameters_set_their_one_time_pre_key_def)
qed

lemma sample_spqr: "spqr_initial concrete pqr_key d self_session = Inr [7]"
  by (simp add: spqr_initial_def split_beta concrete_def)

lemma get_set_kyber_ciphertext:
  "SessionState_get_kyber_ciphertext (SessionState_set_kyber_ciphertext s ct) = Some ct"
  by (simp add: SessionState_get_kyber_ciphertext_def SessionState_set_kyber_ciphertext_def split: option.splits)

lemma sample_parameters [simp]:
  "ip_their_ratchet_key sample_initiator = kp_public_key (sample_key 2)"
  "ip_self_session sample_initiator = False" "rp_self_session (sample_recipient ct) = False"
  by (simp_all add: sample_initiator_def InitiatorParameters_new_def sample_recipient_def
      InitiatorParameters_set_their_one_time_pre_key_def)

lemma sample_alice:
  obtains a rng' ct keys where "Pqxdh_initiate concrete sample_initiator 0 = (Inr (ct, keys), 1)"
    and "initialize_alice_session concrete sample_initiator 0 = (Inr a, rng')"
    and "SessionState_get_kyber_ciphertext a = Some ct"
proof -
  obtain ct keys where i: "Pqxdh_initiate concrete sample_initiator 0 = (Inr (ct, keys), 1)"
    by (rule sample_initiate)
  obtain rk ck where c: "RootKey_create_chain concrete (hk_root_key keys) (kp_public_key (sample_key 2))
      (kp_private_key (sample_key 2)) = Inr (rk, ck)"
    by (rule sample_agreement [of 2 2]) simp_all
  show ?thesis
    by (rule that [OF i])
       (simp add: initialize_alice_session_def i initialize_initiator_session_def sample_generate c sample_spqr Let_def,
        rule get_set_kyber_ciphertext)
qed

theorem initial_sessions_synced_witness:
  "\<exists>a rng' ct. initialize_alice_session concrete sample_initiator 0 = (Inr a, rng') \<and>
     (case initialize_bob_session concrete (sample_recipient ct) (sample_key 2) of
        Inl f \<Rightarrow> False
      | Inr b \<Rightarrow> \<exists>ra rb sa. fst (SessionState_take_ratchet_state concrete a False) = Inr ra \<and>
          fst (SessionState_take_ratchet_state concrete b False) = Inr rb \<and>
          rs_sender_chain ra = Some sa \<and> dh_synced concrete ra rb (sc_chain_key sa))"
proof -
  obtain a rng' ct keys where i: "Pqxdh_initiate concrete sample_initiator 0 = (Inr (ct, keys), 1)"
    and a: "initialize_alice_session concrete sample_initiator 0 = (Inr a, rng')"
    and ct: "SessionState_get_kyber_ciphertext a = Some ct" by (rule sample_alice)
  have "\<exists>b. initialize_bob_session concrete (sample_recipient ct) (sample_key 2) = Inr b"
    by (simp add: initialize_bob_session_def px.agree [OF i sample_matches] initialize_recipient_session_def sample_spqr)
  then obtain b where b: "initialize_bob_session concrete (sample_recipient ct) (sample_key 2) = Inr b" ..
  from initial_sessions_synced [OF concrete_hash_lengths concrete_rng_laws a ct sample_matches _ sample_stored, of 2] a b
  show ?thesis by (intro exI [of _ a] exI [of _ rng'] exI [of _ ct]) auto
qed

end
