(* ===== verification/Pre_Keys.thy ===== *)
theory Pre_Keys
  imports Pqxdh
begin

text \<open>
  Pre-keys: \<open>rust/protocol/src/state/{prekey,signed_prekey,kyber_prekey,bundle}.rs\<close> and \<open>timestamp.rs\<close>.
  The records are newtypes around the protobuf structures and are identified with them, as are the three
  kinds of identifiers with their \<open>u32\<close>. The trait \<open>KeyPairSerde\<close> is a record of operations with an
  instance for curve keys and one for KEM keys; the operations of \<open>GenericSignedPreKey\<close> take it as an
  argument, and the locale \<open>key_pair_serde\<close> states what they rely on.
\<close>

type_synonym PreKeyId = u32
type_synonym SignedPreKeyId = u32
type_synonym KyberPreKeyId = u32

section \<open>\<open>Timestamp\<close>\<close>

datatype Timestamp = Timestamp_from_epoch_millis (Timestamp_epoch_millis: u64)

definition Timestamp_add_millis :: "Timestamp \<Rightarrow> u64 \<Rightarrow> ('e, Timestamp) rresult" where
  "Timestamp_add_millis t ms = (if unat (Timestamp_epoch_millis t) + unat ms < 2 ^ 64
     then Inr (Timestamp_from_epoch_millis (Timestamp_epoch_millis t + ms))
     else Inl (Panic ''attempt to add with overflow''))"

definition Timestamp_sub_millis :: "Timestamp \<Rightarrow> u64 \<Rightarrow> ('e, Timestamp) rresult" where
  "Timestamp_sub_millis t ms = (if ms \<le> Timestamp_epoch_millis t
     then Inr (Timestamp_from_epoch_millis (Timestamp_epoch_millis t - ms))
     else Inl (Panic ''attempt to subtract with overflow''))"

section \<open>\<open>PreKeyRecord\<close>\<close>

type_synonym PreKeyRecord = PreKeyRecordStructure

definition PreKeyRecord_new :: "PreKeyId \<Rightarrow> KeyPair \<Rightarrow> PreKeyRecord" where
  "PreKeyRecord_new i key = \<lparr>pkr_id = i, pkr_public_key = PublicKey_serialize (kp_public_key key),
     pkr_private_key = PrivateKey_serialize (kp_private_key key)\<rparr>"

definition PreKeyRecord_deserialize :: "'r Ext \<Rightarrow> bytes \<Rightarrow> PreKeyRecord signal_result" where
  "PreKeyRecord_deserialize E data = ok_or InvalidProtobufEncoding (x_decode_pre_key_record E data)"

definition PreKeyRecord_id :: "PreKeyRecord \<Rightarrow> PreKeyId signal_result" where
  "PreKeyRecord_id r = Inr (pkr_id r)"

definition PreKeyRecord_key_pair :: "'r Ext \<Rightarrow> PreKeyRecord \<Rightarrow> KeyPair signal_result" where
  "PreKeyRecord_key_pair E r =
     curve_err (KeyPair_from_public_and_private E (pkr_public_key r) (pkr_private_key r))"

definition PreKeyRecord_public_key :: "PreKeyRecord \<Rightarrow> PublicKey signal_result" where
  "PreKeyRecord_public_key r = curve_err (PublicKey_deserialize (pkr_public_key r))"

definition PreKeyRecord_private_key :: "'r Ext \<Rightarrow> PreKeyRecord \<Rightarrow> PrivateKey signal_result" where
  "PreKeyRecord_private_key E r = curve_err (PrivateKey_deserialize E (pkr_private_key r))"

definition PreKeyRecord_serialize :: "'r Ext \<Rightarrow> PreKeyRecord \<Rightarrow> bytes signal_result" where
  "PreKeyRecord_serialize E r = Inr (x_encode_pre_key_record E r)"

section \<open>Signed pre-keys\<close>

record ('k, 'p) KeyPairSerde =
  kps_from_public_and_private :: "bytes \<Rightarrow> bytes \<Rightarrow> 'k signal_result"
  kps_serialize_public :: "'k \<Rightarrow> bytes"
  kps_serialize_private :: "'k \<Rightarrow> bytes"
  kps_deserialize_public :: "bytes \<Rightarrow> 'p signal_result"

definition KeyPair_serde :: "'r Ext \<Rightarrow> (KeyPair, PublicKey) KeyPairSerde" where
  "KeyPair_serde E = \<lparr>kps_from_public_and_private = \<lambda>pub priv. curve_err (KeyPair_from_public_and_private E pub priv),
     kps_serialize_public = \<lambda>k. PublicKey_serialize (kp_public_key k),
     kps_serialize_private = \<lambda>k. PrivateKey_serialize (kp_private_key k),
     kps_deserialize_public = \<lambda>bs. curve_err (PublicKey_deserialize bs)\<rparr>"

definition KemKeyPair_serde :: "'r Ext \<Rightarrow> (KemKeyPair, KemKey) KeyPairSerde" where
  "KemKeyPair_serde E = \<lparr>kps_from_public_and_private = KemKeyPair_from_public_and_private E,
     kps_serialize_public = \<lambda>k. KemKey_serialize (kem_public_key k),
     kps_serialize_private = \<lambda>k. KemKey_serialize (kem_secret_key k),
     kps_deserialize_public = KemKey_deserialize E Public\<rparr>"

type_synonym SignedPreKeyRecord = SignedPreKeyRecordStructure
type_synonym KyberPreKeyRecord = SignedPreKeyRecordStructure

definition GenericSignedPreKey_new ::
    "('k, 'p) KeyPairSerde \<Rightarrow> u32 \<Rightarrow> Timestamp \<Rightarrow> 'k \<Rightarrow> bytes \<Rightarrow> SignedPreKeyRecordStructure" where
  "GenericSignedPreKey_new S i timestamp key_pair signature =
     \<lparr>spk_id = i, spk_public_key = kps_serialize_public S key_pair,
      spk_private_key = kps_serialize_private S key_pair, spk_signature = signature,
      spk_timestamp = Timestamp_epoch_millis timestamp\<rparr>"

definition GenericSignedPreKey_serialize :: "'r Ext \<Rightarrow> SignedPreKeyRecordStructure \<Rightarrow> bytes signal_result" where
  "GenericSignedPreKey_serialize E r = Inr (x_encode_signed_pre_key_record E r)"

definition GenericSignedPreKey_deserialize :: "'r Ext \<Rightarrow> bytes \<Rightarrow> SignedPreKeyRecordStructure signal_result" where
  "GenericSignedPreKey_deserialize E data = ok_or InvalidProtobufEncoding (x_decode_signed_pre_key_record E data)"

definition GenericSignedPreKey_id :: "SignedPreKeyRecordStructure \<Rightarrow> u32 signal_result" where
  "GenericSignedPreKey_id r = Inr (spk_id r)"

definition GenericSignedPreKey_timestamp :: "SignedPreKeyRecordStructure \<Rightarrow> Timestamp signal_result" where
  "GenericSignedPreKey_timestamp r = Inr (Timestamp_from_epoch_millis (spk_timestamp r))"

definition GenericSignedPreKey_signature :: "SignedPreKeyRecordStructure \<Rightarrow> bytes signal_result" where
  "GenericSignedPreKey_signature r = Inr (spk_signature r)"

definition GenericSignedPreKey_public_key ::
    "('k, 'p) KeyPairSerde \<Rightarrow> SignedPreKeyRecordStructure \<Rightarrow> 'p signal_result" where
  "GenericSignedPreKey_public_key S r = kps_deserialize_public S (spk_public_key r)"

definition GenericSignedPreKey_key_pair ::
    "('k, 'p) KeyPairSerde \<Rightarrow> SignedPreKeyRecordStructure \<Rightarrow> 'k signal_result" where
  "GenericSignedPreKey_key_pair S r = kps_from_public_and_private S (spk_public_key r) (spk_private_key r)"

definition SignedPreKeyRecord_private_key :: "'r Ext \<Rightarrow> SignedPreKeyRecord \<Rightarrow> PrivateKey signal_result" where
  "SignedPreKeyRecord_private_key E r = curve_err (PrivateKey_deserialize E (spk_private_key r))"

definition KyberPreKeyRecord_secret_key :: "'r Ext \<Rightarrow> KyberPreKeyRecord \<Rightarrow> KemKey signal_result" where
  "KyberPreKeyRecord_secret_key E r = KemKey_deserialize E Secret (spk_private_key r)"

text \<open>\<open>KyberPreKeyRecord::generate\<close>; the operating system's generator and clock are arguments. A clock before
  the epoch and a number of milliseconds beyond \<open>u64\<close> panic.\<close>

definition clock_millis :: "SystemTime \<Rightarrow> u64 signal_result" where
  "clock_millis now = (if now < 0 then Inl (Panic ''Time should move forward'')
     else if now div 1000000 \<ge> 2 ^ 64 then Inl (Panic ''Timestamp too large'')
     else Inr (of_int (now div 1000000)))"

definition KyberPreKeyRecord_generate ::
    "'r Ext \<Rightarrow> KemKeyType \<Rightarrow> KyberPreKeyId \<Rightarrow> PrivateKey \<Rightarrow> SystemTime \<Rightarrow> 'r \<Rightarrow> KyberPreKeyRecord signal_result \<times> 'r" where
  "KyberPreKeyRecord_generate E kyber_key_type i signing_key now rng =
     (let (key_pair, rng1) = KemKeyPair_generate E kyber_key_type rng;
          (sig, rng2) = PrivateKey_calculate_signature E signing_key (KemKey_serialize (kem_public_key key_pair)) rng1
      in (try_bind (curve_err sig) (\<lambda>signature.
          try_bind (clock_millis now) (\<lambda>timestamp.
          Inr (GenericSignedPreKey_new (KemKeyPair_serde E) i (Timestamp_from_epoch_millis timestamp) key_pair
                 signature))), rng2))"

section \<open>\<open>PreKeyBundle\<close>\<close>

record SignedPreKey =
  spb_id :: SignedPreKeyId
  spb_public_key :: PublicKey
  spb_signature :: bytes

record KyberPreKey =
  kpb_id :: KyberPreKeyId
  kpb_public_key :: KemKey
  kpb_signature :: bytes

record PreKeyBundleContent =
  pbc_registration_id :: "u32 option"
  pbc_device_id :: "DeviceId option"
  pbc_pre_key_id :: "PreKeyId option"
  pbc_pre_key_public :: "PublicKey option"
  pbc_signed_pre_key_id :: "SignedPreKeyId option"
  pbc_signed_pre_key_public :: "PublicKey option"
  pbc_signed_pre_key_signature :: "bytes option"
  pbc_identity_key :: "IdentityKey option"
  pbc_kyber_pre_key_id :: "KyberPreKeyId option"
  pbc_kyber_pre_key_public :: "KemKey option"
  pbc_kyber_pre_key_signature :: "bytes option"

record PreKeyBundle =
  pkb_registration_id :: u32
  pkb_device_id :: DeviceId
  pkb_pre_key_id :: "PreKeyId option"
  pkb_pre_key_public :: "PublicKey option"
  pkb_ec_signed_pre_key :: SignedPreKey
  pkb_identity_key :: IdentityKey
  pkb_kyber_pre_key :: KyberPreKey

definition PreKeyBundle_new ::
    "u32 \<Rightarrow> DeviceId \<Rightarrow> (PreKeyId \<times> PublicKey) option \<Rightarrow> SignedPreKeyId \<Rightarrow> PublicKey \<Rightarrow> bytes \<Rightarrow> KyberPreKeyId \<Rightarrow>
     KemKey \<Rightarrow> bytes \<Rightarrow> IdentityKey \<Rightarrow> PreKeyBundle signal_result" where
  "PreKeyBundle_new registration_id device_id pre_key signed_pre_key_id signed_pre_key_public
     signed_pre_key_signature kyber_pre_key_id kyber_pre_key_public kyber_pre_key_signature identity_key =
     (let (pre_key_id, pre_key_public) = (case pre_key of None \<Rightarrow> (None, None) | Some (i, key) \<Rightarrow> (Some i, Some key));
          ec_signed_pre_key = \<lparr>spb_id = signed_pre_key_id, spb_public_key = signed_pre_key_public,
            spb_signature = signed_pre_key_signature\<rparr>;
          kyber_pre_key = \<lparr>kpb_id = kyber_pre_key_id, kpb_public_key = kyber_pre_key_public,
            kpb_signature = kyber_pre_key_signature\<rparr>
      in Inr \<lparr>pkb_registration_id = registration_id, pkb_device_id = device_id, pkb_pre_key_id = pre_key_id,
           pkb_pre_key_public = pre_key_public, pkb_ec_signed_pre_key = ec_signed_pre_key,
           pkb_identity_key = identity_key, pkb_kyber_pre_key = kyber_pre_key\<rparr>)"

definition PreKeyBundleContent_from :: "PreKeyBundle \<Rightarrow> PreKeyBundleContent" where
  "PreKeyBundleContent_from b =
     \<lparr>pbc_registration_id = Some (pkb_registration_id b), pbc_device_id = Some (pkb_device_id b),
      pbc_pre_key_id = pkb_pre_key_id b, pbc_pre_key_public = pkb_pre_key_public b,
      pbc_signed_pre_key_id = Some (spb_id (pkb_ec_signed_pre_key b)),
      pbc_signed_pre_key_public = Some (spb_public_key (pkb_ec_signed_pre_key b)),
      pbc_signed_pre_key_signature = Some (spb_signature (pkb_ec_signed_pre_key b)),
      pbc_identity_key = Some (pkb_identity_key b),
      pbc_kyber_pre_key_id = Some (kpb_id (pkb_kyber_pre_key b)),
      pbc_kyber_pre_key_public = Some (kpb_public_key (pkb_kyber_pre_key b)),
      pbc_kyber_pre_key_signature = Some (kpb_signature (pkb_kyber_pre_key b))\<rparr>"

fun option_zip :: "'a option \<Rightarrow> 'b option \<Rightarrow> ('a \<times> 'b) option" where
  "option_zip (Some a) (Some b) = Some (a, b)"
| "option_zip _ _ = None"

abbreviation required :: "string \<Rightarrow> 'a option \<Rightarrow> 'a signal_result" where
  "required field \<equiv> ok_or (InvalidArgument (field @ '' is required''))"

definition PreKeyBundle_try_from :: "PreKeyBundleContent \<Rightarrow> PreKeyBundle signal_result" where
  "PreKeyBundle_try_from c =
     try_bind (required ''registration_id'' (pbc_registration_id c)) (\<lambda>registration_id.
     try_bind (required ''device_id'' (pbc_device_id c)) (\<lambda>device_id.
     try_bind (required ''signed_pre_key_id'' (pbc_signed_pre_key_id c)) (\<lambda>signed_pre_key_id.
     try_bind (required ''signed_pre_key_public'' (pbc_signed_pre_key_public c)) (\<lambda>signed_pre_key_public.
     try_bind (required ''signed_pre_key_signature'' (pbc_signed_pre_key_signature c)) (\<lambda>signed_pre_key_signature.
     try_bind (required ''kyber_pre_key_id'' (pbc_kyber_pre_key_id c)) (\<lambda>kyber_pre_key_id.
     try_bind (required ''kyber_pre_key_public'' (pbc_kyber_pre_key_public c)) (\<lambda>kyber_pre_key_public.
     try_bind (required ''kyber_pre_key_signature'' (pbc_kyber_pre_key_signature c)) (\<lambda>kyber_pre_key_signature.
     try_bind (required ''identity_key'' (pbc_identity_key c)) (\<lambda>identity_key.
     PreKeyBundle_new registration_id device_id (option_zip (pbc_pre_key_id c) (pbc_pre_key_public c))
       signed_pre_key_id signed_pre_key_public signed_pre_key_signature kyber_pre_key_id kyber_pre_key_public
       kyber_pre_key_signature identity_key)))))))))"

definition PreKeyBundle_modify :: "PreKeyBundle \<Rightarrow> (PreKeyBundleContent \<Rightarrow> PreKeyBundleContent) \<Rightarrow> PreKeyBundle signal_result" where
  "PreKeyBundle_modify b modify = PreKeyBundle_try_from (modify (PreKeyBundleContent_from b))"

section \<open>Records keep their keys\<close>

text \<open>What \<open>GenericSignedPreKey\<close> relies on: a valid pair is read back from its two encodings, and its public
  half from the encoding of the public half.\<close>

locale key_pair_serde =
  fixes S :: "('k, 'p) KeyPairSerde" and valid :: "'k \<Rightarrow> bool" and public_half :: "'k \<Rightarrow> 'p"
  assumes pair_back: "valid k \<Longrightarrow> kps_from_public_and_private S (kps_serialize_public S k) (kps_serialize_private S k) = Inr k"
    and public_back: "valid k \<Longrightarrow> kps_deserialize_public S (kps_serialize_public S k) = Inr (public_half k)"
begin

lemma new_fields:
  assumes "valid k"
  shows "GenericSignedPreKey_key_pair S (GenericSignedPreKey_new S i t k sig) = Inr k"
    "GenericSignedPreKey_public_key S (GenericSignedPreKey_new S i t k sig) = Inr (public_half k)"
    "GenericSignedPreKey_id (GenericSignedPreKey_new S i t k sig) = Inr i"
    "GenericSignedPreKey_timestamp (GenericSignedPreKey_new S i t k sig) = Inr t"
    "GenericSignedPreKey_signature (GenericSignedPreKey_new S i t k sig) = Inr sig"
  using assms pair_back public_back
  by (simp_all add: GenericSignedPreKey_new_def GenericSignedPreKey_key_pair_def GenericSignedPreKey_public_key_def
      GenericSignedPreKey_id_def GenericSignedPreKey_timestamp_def GenericSignedPreKey_signature_def)

end

lemma KeyPair_back:
  assumes "x25519_laws E" "stored_pair_ok E k"
  shows "KeyPair_from_public_and_private E (PublicKey_serialize (kp_public_key k)) (PrivateKey_serialize (kp_private_key k)) = Inr k"
  using assms key_pair_public_ok [OF assms(1)]
  by (cases "kp_private_key k") (simp add: KeyPair_from_public_and_private_def stored_pair_ok_def
      PrivateKey_deserialize_def PrivateKey_serialize_def)

lemma kem_key_lengths:
  "key_length E Public t = x_kem_public_key_len E" "key_length E Secret t = x_kem_secret_key_len E"
  by (cases t, simp only: key_length.simps)+

lemma kem_pair_lengths:
  assumes "kem_laws E" "kem_pair_ok E k"
  shows "length (kem_key_data (kem_public_key k)) = x_kem_public_key_len E \<and>
    length (kem_key_data (kem_secret_key k)) = x_kem_secret_key_len E"
proof -
  obtain seed where g: "x_kem_generate E seed = (kem_key_data (kem_public_key k), kem_key_data (kem_secret_key k))"
    using assms(2) unfolding kem_pair_ok_def by blast
  show ?thesis using assms(1) [unfolded kem_laws_def, THEN spec, of seed, unfolded g prod.case] by blast
qed

lemma KemKeyPair_back:
  assumes "kem_laws E" "kem_pair_ok E k"
  shows "KemKeyPair_from_public_and_private E (KemKey_serialize (kem_public_key k)) (KemKey_serialize (kem_secret_key k)) = Inr k"
    "KemKey_deserialize E Public (KemKey_serialize (kem_public_key k)) = Inr (kem_public_key k)"
  using kem_pair_lengths [OF assms]
  by (simp_all add: KemKeyPair_from_public_and_private_def KemKey_roundtrip kem_key_lengths)

interpretation ecs: key_pair_serde "KeyPair_serde E" "\<lambda>k. x25519_laws E \<and> stored_pair_ok E k" kp_public_key for E
  by unfold_locales (auto simp: KeyPair_serde_def KeyPair_back key_pair_public_ok stored_pair_ok_def)

interpretation kms: key_pair_serde "KemKeyPair_serde E" "\<lambda>k. kem_laws E \<and> kem_pair_ok E k" kem_public_key for E
  by unfold_locales (auto simp: KemKeyPair_serde_def KemKeyPair_back)

lemma PreKeyRecord_fields:
  assumes "x25519_laws E" "stored_pair_ok E k"
  shows "PreKeyRecord_id (PreKeyRecord_new i k) = Inr i"
    "PreKeyRecord_key_pair E (PreKeyRecord_new i k) = Inr k"
    "PreKeyRecord_public_key (PreKeyRecord_new i k) = Inr (kp_public_key k)"
    "PreKeyRecord_private_key E (PreKeyRecord_new i k) = Inr (kp_private_key k)"
    "SignedPreKeyRecord_private_key E (GenericSignedPreKey_new (KeyPair_serde E) i t k sig) = Inr (kp_private_key k)"
  using KeyPair_back [OF assms]
  by (auto simp: PreKeyRecord_id_def PreKeyRecord_key_pair_def PreKeyRecord_public_key_def PreKeyRecord_private_key_def
      PreKeyRecord_new_def SignedPreKeyRecord_private_key_def GenericSignedPreKey_new_def KeyPair_serde_def
      KeyPair_from_public_and_private_def res_simps)

lemma KyberPreKeyRecord_secret:
  assumes "kem_laws E" "kem_pair_ok E q"
  shows "KyberPreKeyRecord_secret_key E (GenericSignedPreKey_new (KemKeyPair_serde E) i t q sig) = Inr (kem_secret_key q)"
  using kem_pair_lengths [OF assms]
  by (simp add: KyberPreKeyRecord_secret_key_def GenericSignedPreKey_new_def KemKeyPair_serde_def KemKey_roundtrip
      kem_key_lengths)

text \<open>C31: stored pre-keys survive storage. A one-time, a signed and a Kyber pre-key record that is serialized
  and read back gives the identifier, the key pair and each half of it, and, for the two signed kinds, the
  timestamp and the signature that it was made from.\<close>

theorem pre_keys_survive_storage:
  assumes "x25519_laws E" "kem_laws E" "prost_laws E" "stored_pair_ok E k" "kem_pair_ok E q"
  shows "\<exists>one_time signed kyber.
    try_bind (PreKeyRecord_serialize E (PreKeyRecord_new i k)) (PreKeyRecord_deserialize E) = Inr one_time \<and>
    PreKeyRecord_id one_time = Inr i \<and> PreKeyRecord_key_pair E one_time = Inr k \<and>
    PreKeyRecord_public_key one_time = Inr (kp_public_key k) \<and>
    PreKeyRecord_private_key E one_time = Inr (kp_private_key k) \<and>
    try_bind (GenericSignedPreKey_serialize E (GenericSignedPreKey_new (KeyPair_serde E) j t k sig))
      (GenericSignedPreKey_deserialize E) = Inr signed \<and>
    GenericSignedPreKey_id signed = Inr j \<and> GenericSignedPreKey_timestamp signed = Inr t \<and>
    GenericSignedPreKey_signature signed = Inr sig \<and> GenericSignedPreKey_key_pair (KeyPair_serde E) signed = Inr k \<and>
    GenericSignedPreKey_public_key (KeyPair_serde E) signed = Inr (kp_public_key k) \<and>
    SignedPreKeyRecord_private_key E signed = Inr (kp_private_key k) \<and>
    try_bind (GenericSignedPreKey_serialize E (GenericSignedPreKey_new (KemKeyPair_serde E) l u q sig'))
      (GenericSignedPreKey_deserialize E) = Inr kyber \<and>
    GenericSignedPreKey_id kyber = Inr l \<and> GenericSignedPreKey_timestamp kyber = Inr u \<and>
    GenericSignedPreKey_signature kyber = Inr sig' \<and> GenericSignedPreKey_key_pair (KemKeyPair_serde E) kyber = Inr q \<and>
    GenericSignedPreKey_public_key (KemKeyPair_serde E) kyber = Inr (kem_public_key q) \<and>
    KyberPreKeyRecord_secret_key E kyber = Inr (kem_secret_key q)"
  using assms
  by (intro exI [of _ "PreKeyRecord_new i k"] exI [of _ "GenericSignedPreKey_new (KeyPair_serde E) j t k sig"]
      exI [of _ "GenericSignedPreKey_new (KemKeyPair_serde E) l u q sig'"])
     (simp add: PreKeyRecord_serialize_def PreKeyRecord_deserialize_def GenericSignedPreKey_serialize_def
      GenericSignedPreKey_deserialize_def PreKeyRecord_fields KyberPreKeyRecord_secret ecs.new_fields kms.new_fields)

theorem pre_keys_survive_storage_witness:
  "\<exists>one_time signed kyber.
    try_bind (PreKeyRecord_serialize concrete (PreKeyRecord_new 3 (sample_key 5))) (PreKeyRecord_deserialize concrete)
      = Inr one_time \<and> PreKeyRecord_id one_time = Inr 3 \<and> PreKeyRecord_key_pair concrete one_time = Inr (sample_key 5) \<and>
    GenericSignedPreKey_timestamp signed = Inr (Timestamp_from_epoch_millis 77) \<and>
    GenericSignedPreKey_signature signed = Inr [1, 2] \<and>
    GenericSignedPreKey_key_pair (KemKeyPair_serde concrete) kyber = Inr sample_kem"
  using pre_keys_survive_storage [OF concrete_x25519_laws concrete_kem_laws concrete_prost_laws sample_stored sample_kem_ok,
      of 3 5 4 "Timestamp_from_epoch_millis 77" "[1, 2]" 6 "Timestamp_from_epoch_millis 78" "[3]"]
  by blast

section \<open>Bundles\<close>

text \<open>The identifier and the key of the one-time pre-key come together.\<close>

definition bundle_ok :: "PreKeyBundle \<Rightarrow> bool" where
  "bundle_ok b \<longleftrightarrow> (pkb_pre_key_id b = None \<longleftrightarrow> pkb_pre_key_public b = None)"

lemma PreKeyBundle_new_ok: "PreKeyBundle_new a b c d e f g h i j = Inr x \<Longrightarrow> bundle_ok x"
  by (auto simp: PreKeyBundle_new_def bundle_ok_def Let_def split: option.splits)

lemma bundle_content_back:
  assumes "bundle_ok b"
  shows "PreKeyBundle_try_from (PreKeyBundleContent_from b) = Inr b"
  using assms
  by (cases b; cases "pkb_ec_signed_pre_key b"; cases "pkb_kyber_pre_key b"; cases "pkb_pre_key_id b"; cases "pkb_pre_key_public b")
     (auto simp: PreKeyBundle_try_from_def PreKeyBundleContent_from_def PreKeyBundle_new_def Let_def bundle_ok_def)

definition content_complete :: "PreKeyBundleContent \<Rightarrow> bool" where
  "content_complete c \<longleftrightarrow> pbc_registration_id c \<noteq> None \<and> pbc_device_id c \<noteq> None \<and> pbc_signed_pre_key_id c \<noteq> None \<and>
     pbc_signed_pre_key_public c \<noteq> None \<and> pbc_signed_pre_key_signature c \<noteq> None \<and> pbc_identity_key c \<noteq> None \<and>
     pbc_kyber_pre_key_id c \<noteq> None \<and> pbc_kyber_pre_key_public c \<noteq> None \<and> pbc_kyber_pre_key_signature c \<noteq> None"

definition paired_content :: "PreKeyBundleContent \<Rightarrow> PreKeyBundleContent" where
  "paired_content c = (if pbc_pre_key_id c = None \<or> pbc_pre_key_public c = None
     then c\<lparr>pbc_pre_key_id := None, pbc_pre_key_public := None\<rparr> else c)"

lemma try_from_iff: "(\<exists>b. PreKeyBundle_try_from c = Inr b) \<longleftrightarrow> content_complete c"
  by (auto simp: PreKeyBundle_try_from_def PreKeyBundle_new_def content_complete_def Let_def res_simps
      split: option.splits)

lemma option_zip_None: "option_zip a b = None \<longleftrightarrow> a = None \<or> b = None"
  by (cases a; cases b) auto

lemma try_from_content:
  assumes "PreKeyBundle_try_from c = Inr b"
  shows "bundle_ok b \<and> PreKeyBundleContent_from b = paired_content c"
proof
  show "bundle_ok b" using assms by (auto simp: PreKeyBundle_try_from_def res_simps intro: PreKeyBundle_new_ok)
  show "PreKeyBundleContent_from b = paired_content c"
    using assms
    by (cases "pbc_pre_key_id c"; cases "pbc_pre_key_public c"; cases c)
       (auto simp: PreKeyBundle_try_from_def PreKeyBundle_new_def PreKeyBundleContent_from_def paired_content_def
         Let_def res_simps)
qed

text \<open>modifying a bundle. A change of the contents is a bundle exactly when every field but the one-time
  pre-key is present; the result is well formed, and its contents are the changed contents, except that a
  one-time pre-key with only one of its two fields is dropped. The identity change gives the bundle back.\<close>

theorem bundle_modify:
  assumes "bundle_ok b"
  shows "PreKeyBundle_modify b (\<lambda>c. c) = Inr b \<and>
    ((\<exists>b'. PreKeyBundle_modify b f = Inr b') \<longleftrightarrow> content_complete (f (PreKeyBundleContent_from b))) \<and>
    (\<forall>b'. PreKeyBundle_modify b f = Inr b' \<longrightarrow> bundle_ok b' \<and>
      PreKeyBundleContent_from b' = paired_content (f (PreKeyBundleContent_from b)))"
proof (intro conjI allI impI)
  show "PreKeyBundle_modify b (\<lambda>c. c) = Inr b"
    by (simp add: PreKeyBundle_modify_def bundle_content_back [OF assms])
  show "(\<exists>b'. PreKeyBundle_modify b f = Inr b') \<longleftrightarrow> content_complete (f (PreKeyBundleContent_from b))"
    by (simp add: PreKeyBundle_modify_def try_from_iff)
  fix b' assume "PreKeyBundle_modify b f = Inr b'"
  then show "bundle_ok b'" "PreKeyBundleContent_from b' = paired_content (f (PreKeyBundleContent_from b))"
    by (auto simp: PreKeyBundle_modify_def dest: try_from_content)
qed

theorem bundle_modify_witness:
  "\<exists>b. bundle_ok b \<and> PreKeyBundle_modify b (\<lambda>c. c) = Inr b \<and>
     (\<exists>b'. PreKeyBundle_modify b (pbc_pre_key_id_update (\<lambda>_. None)) = Inr b' \<and> pkb_pre_key_public b' = None)"
proof -
  define b where "b = \<lparr>pkb_registration_id = 5, pkb_device_id = DeviceId 1, pkb_pre_key_id = Some 3,
    pkb_pre_key_public = Some (sample_public 7), pkb_ec_signed_pre_key = \<lparr>spb_id = 1, spb_public_key = sample_public 8,
    spb_signature = []\<rparr>, pkb_identity_key = IdentityKey (sample_public 9),
    pkb_kyber_pre_key = \<lparr>kpb_id = 2, kpb_public_key = kem_public_key sample_kem, kpb_signature = []\<rparr>\<rparr>"
  have ok: "bundle_ok b" by (simp add: b_def bundle_ok_def)
  let ?f = "pbc_pre_key_id_update (\<lambda>_. None)"
  have "content_complete (?f (PreKeyBundleContent_from b))" by (simp add: content_complete_def PreKeyBundleContent_from_def)
  then obtain b' where b': "PreKeyBundle_modify b ?f = Inr b'"
    "PreKeyBundleContent_from b' = paired_content (?f (PreKeyBundleContent_from b))"
    using bundle_modify [OF ok, of ?f] by blast
  then have "pkb_pre_key_public b' = None" by (simp add: PreKeyBundleContent_from_def paired_content_def)
  with ok b' bundle_modify [OF ok, of ?f] show ?thesis by blast
qed

end
