(* ===== verification/Sender_Keys.thy ===== *)
theory Sender_Keys
  imports Wire_Messages Ratchet_Keys Key_Chain
begin

text \<open>
  \<open>rust/protocol/src/sender_keys.rs\<close>: the symmetric ratchet of group messaging. A record holds at most
  \<open>MAX_SENDER_KEY_STATES\<close> states, the newest first; a state holds one chain, its signing key and the
  message keys of iterations that were skipped.
\<close>

section \<open>Message keys and chain keys\<close>

record SenderMessageKey =
  gmk_iteration :: u32
  gmk_iv :: bytes
  gmk_cipher_key :: bytes
  gmk_seed :: bytes

definition SenderMessageKey_new :: "'r Ext \<Rightarrow> u32 \<Rightarrow> bytes \<Rightarrow> SenderMessageKey" where
  "SenderMessageKey_new E iteration seed =
     (let derived = x_hkdf_sha256 E None seed (ascii ''WhisperGroup'') 48
      in \<lparr>gmk_iteration = iteration, gmk_iv = take 16 derived, gmk_cipher_key = drop 16 derived, gmk_seed = seed\<rparr>)"

definition SenderMessageKey_from_protobuf :: "'r Ext \<Rightarrow> SenderMessageKeyPb \<Rightarrow> SenderMessageKey" where
  "SenderMessageKey_from_protobuf E smk = SenderMessageKey_new E (smk_iteration smk) (smk_seed smk)"

definition SenderMessageKey_as_protobuf :: "SenderMessageKey \<Rightarrow> SenderMessageKeyPb" where
  "SenderMessageKey_as_protobuf k = \<lparr>smk_iteration = gmk_iteration k, smk_seed = gmk_seed k\<rparr>"

record SenderChainKey =
  gck_iteration :: u32
  gck_chain_key :: bytes

definition SenderChainKey_get_derivative :: "'r Ext \<Rightarrow> SenderChainKey \<Rightarrow> byte \<Rightarrow> bytes" where
  "SenderChainKey_get_derivative E c label = hmac_sha256 E (gck_chain_key c) [label]"

definition SenderChainKey_next :: "'r Ext \<Rightarrow> SenderChainKey \<Rightarrow> SenderChainKey signal_result" where
  "SenderChainKey_next E c =
     try_bind (ok_or (InvalidState ''sender_chain_key_next'' ''Sender chain is too long'')
       (checked_add_one_u32 (gck_iteration c))) (\<lambda>new_iteration.
     Inr \<lparr>gck_iteration = new_iteration, gck_chain_key = SenderChainKey_get_derivative E c 0x02\<rparr>)"

definition SenderChainKey_sender_message_key :: "'r Ext \<Rightarrow> SenderChainKey \<Rightarrow> SenderMessageKey" where
  "SenderChainKey_sender_message_key E c =
     SenderMessageKey_new E (gck_iteration c) (SenderChainKey_get_derivative E c 0x01)"

definition SenderChainKey_as_protobuf :: "SenderChainKey \<Rightarrow> SenderChainKeyPb" where
  "SenderChainKey_as_protobuf c = \<lparr>sck_iteration = gck_iteration c, sck_seed = gck_chain_key c\<rparr>"

section \<open>One state\<close>

type_synonym SenderKeyState = SenderKeyStateStructure

definition SenderKeyState_new ::
    "byte \<Rightarrow> u32 \<Rightarrow> u32 \<Rightarrow> bytes \<Rightarrow> PublicKey \<Rightarrow> PrivateKey option \<Rightarrow> SenderKeyState" where
  "SenderKeyState_new message_version chain_id iteration chain_key signature_key signature_private_key =
     \<lparr>sks_message_version = ucast message_version, sks_chain_id = chain_id,
      sks_sender_chain_key = Some (SenderChainKey_as_protobuf
        \<lparr>gck_iteration = iteration, gck_chain_key = chain_key\<rparr>),
      sks_sender_signing_key = Some \<lparr>ssk_public = PublicKey_serialize signature_key,
        ssk_private = (case signature_private_key of None \<Rightarrow> [] | Some k \<Rightarrow> PrivateKey_serialize k)\<rparr>,
      sks_sender_message_keys = []\<rparr>"

definition SenderKeyState_message_version :: "SenderKeyState \<Rightarrow> u32" where
  "SenderKeyState_message_version st = (if sks_message_version st = 0 then 3 else sks_message_version st)"

definition SenderKeyState_sender_chain_key :: "SenderKeyState \<Rightarrow> SenderChainKey option" where
  "SenderKeyState_sender_chain_key st = map_option
     (\<lambda>c. \<lparr>gck_iteration = sck_iteration c, gck_chain_key = sck_seed c\<rparr>) (sks_sender_chain_key st)"

definition SenderKeyState_set_sender_chain_key :: "SenderKeyState \<Rightarrow> SenderChainKey \<Rightarrow> SenderKeyState" where
  "SenderKeyState_set_sender_chain_key st c = st\<lparr>sks_sender_chain_key := Some (SenderChainKey_as_protobuf c)\<rparr>"

definition SenderKeyState_signing_key_public :: "SenderKeyState \<Rightarrow> PublicKey session_result" where
  "SenderKeyState_signing_key_public st = (case sks_sender_signing_key st of
     Some signing_key \<Rightarrow> or_err (InvalidSessionError ''invalid public signing key'')
       (PublicKey_deserialize (ssk_public signing_key))
   | None \<Rightarrow> Inl (Err (InvalidSessionError ''missing signing key'')))"

definition SenderKeyState_signing_key_private :: "'r Ext \<Rightarrow> SenderKeyState \<Rightarrow> PrivateKey session_result" where
  "SenderKeyState_signing_key_private E st = (case sks_sender_signing_key st of
     Some signing_key \<Rightarrow> or_err (InvalidSessionError ''invalid private signing key'')
       (PrivateKey_deserialize E (ssk_private signing_key))
   | None \<Rightarrow> Inl (Err (InvalidSessionError ''missing signing key'')))"

text \<open>\<open>push\<close>, then \<open>remove(0)\<close> while there are more than \<open>MAX_MESSAGE_KEYS\<close>.\<close>

definition push_message_key :: "SenderMessageKeyPb \<Rightarrow> SenderMessageKeyPb list \<Rightarrow> SenderMessageKeyPb list" where
  "push_message_key k ks = (let ks' = ks @ [k] in drop (length ks' - MAX_MESSAGE_KEYS) ks')"

definition SenderKeyState_add_sender_message_key :: "SenderKeyState \<Rightarrow> SenderMessageKey \<Rightarrow> SenderKeyState" where
  "SenderKeyState_add_sender_message_key st k = st\<lparr>sks_sender_message_keys :=
     push_message_key (SenderMessageKey_as_protobuf k) (sks_sender_message_keys st)\<rparr>"

definition grab_message_key ::
    "u32 \<Rightarrow> SenderMessageKeyPb list \<Rightarrow> (SenderMessageKeyPb \<times> SenderMessageKeyPb list) option" where
  "grab_message_key iteration ks = (case position (\<lambda>x. smk_iteration x = iteration) ks of
     None \<Rightarrow> None | Some index \<Rightarrow> Some (ks ! index, remove_at index ks))"

definition SenderKeyState_remove_sender_message_key ::
    "'r Ext \<Rightarrow> SenderKeyState \<Rightarrow> u32 \<Rightarrow> SenderMessageKey option \<times> SenderKeyState" where
  "SenderKeyState_remove_sender_message_key E st iteration =
     (case grab_message_key iteration (sks_sender_message_keys st) of
        None \<Rightarrow> (None, st)
      | Some (smk, ks) \<Rightarrow> (Some (SenderMessageKey_from_protobuf E smk), st\<lparr>sks_sender_message_keys := ks\<rparr>))"

section \<open>The record\<close>

record SenderKeyRecord =
  skr_states :: "SenderKeyState list"

definition SenderKeyRecord_new_empty :: SenderKeyRecord where
  "SenderKeyRecord_new_empty = \<lparr>skr_states = []\<rparr>"

definition SenderKeyRecord_deserialize :: "'r Ext \<Rightarrow> bytes \<Rightarrow> SenderKeyRecord signal_result" where
  "SenderKeyRecord_deserialize E buf =
     try_bind (ok_or InvalidProtobufEncoding (x_decode_sender_key_record E buf)) (\<lambda>skr.
     Inr \<lparr>skr_states = skr_sender_key_states skr\<rparr>)"

definition SenderKeyRecord_sender_key_state :: "SenderKeyRecord \<Rightarrow> SenderKeyState session_result" where
  "SenderKeyRecord_sender_key_state r = (if skr_states r \<noteq> [] then Inr (skr_states r ! 0)
     else Inl (Err (InvalidSessionError ''empty sender key state'')))"

text \<open>\<open>sender_key_state_for_chain_id\<close> lends a reference into the record: the model returns its position.\<close>

definition SenderKeyRecord_sender_key_state_for_chain_id :: "SenderKeyRecord \<Rightarrow> u32 \<Rightarrow> nat option" where
  "SenderKeyRecord_sender_key_state_for_chain_id r chain_id =
     position (\<lambda>st. sks_chain_id st = chain_id) (skr_states r)"

definition SenderKeyRecord_set_state :: "SenderKeyRecord \<Rightarrow> nat \<Rightarrow> SenderKeyState \<Rightarrow> SenderKeyRecord" where
  "SenderKeyRecord_set_state r i st = r\<lparr>skr_states := (skr_states r)[i := st]\<rparr>"

definition has_chain_and_key :: "u32 \<Rightarrow> PublicKey \<Rightarrow> SenderKeyState \<Rightarrow> bool" where
  "has_chain_and_key chain_id signature_key st \<longleftrightarrow>
     sks_chain_id st = chain_id \<and> SenderKeyState_signing_key_public st = Inr signature_key"

definition SenderKeyRecord_remove_state ::
    "SenderKeyRecord \<Rightarrow> u32 \<Rightarrow> PublicKey \<Rightarrow> SenderKeyState option \<times> SenderKeyRecord" where
  "SenderKeyRecord_remove_state r chain_id signature_key =
     (case position (has_chain_and_key chain_id signature_key) (skr_states r) of
        None \<Rightarrow> (None, r)
      | Some index \<Rightarrow> (Some (skr_states r ! index), r\<lparr>skr_states := remove_at index (skr_states r)\<rparr>))"

definition SenderKeyRecord_remove_states_with_chain_id :: "SenderKeyRecord \<Rightarrow> u32 \<Rightarrow> nat \<times> SenderKeyRecord" where
  "SenderKeyRecord_remove_states_with_chain_id r chain_id =
     (let kept = filter (\<lambda>st. sks_chain_id st \<noteq> chain_id) (skr_states r)
      in (length (skr_states r) - length kept, r\<lparr>skr_states := kept\<rparr>))"

definition SenderKeyRecord_add_sender_key_state ::
    "SenderKeyRecord \<Rightarrow> byte \<Rightarrow> u32 \<Rightarrow> u32 \<Rightarrow> bytes \<Rightarrow> PublicKey \<Rightarrow> PrivateKey option \<Rightarrow> SenderKeyRecord" where
  "SenderKeyRecord_add_sender_key_state r message_version chain_id iteration chain_key signature_key
       signature_private_key =
     (let (existing_state, r1) = SenderKeyRecord_remove_state r chain_id signature_key;
          (_, r2) = SenderKeyRecord_remove_states_with_chain_id r1 chain_id;
          state = (case existing_state of
              None \<Rightarrow> SenderKeyState_new message_version chain_id iteration chain_key signature_key
                signature_private_key
            | Some state \<Rightarrow> state)
      in r2\<lparr>skr_states := state # take (MAX_SENDER_KEY_STATES - 1) (skr_states r2)\<rparr>)"

definition SenderKeyRecord_as_protobuf :: "SenderKeyRecord \<Rightarrow> SenderKeyRecordStructure" where
  "SenderKeyRecord_as_protobuf r = \<lparr>skr_sender_key_states = skr_states r\<rparr>"

definition SenderKeyRecord_serialize :: "'r Ext \<Rightarrow> SenderKeyRecord \<Rightarrow> bytes signal_result" where
  "SenderKeyRecord_serialize E r = Inr (x_encode_sender_key_record E (SenderKeyRecord_as_protobuf r))"

section \<open>The chain of a state with its cache\<close>

lemma SenderChainKey_next_iff:
  "SenderChainKey_next E c = Inr c' \<longleftrightarrow> gck_iteration c \<noteq> - 1 \<and>
     c' = \<lparr>gck_iteration = gck_iteration c + 1, gck_chain_key = hmac_sha256 E (gck_chain_key c) [0x02]\<rparr>"
  "SenderChainKey_next E c = Inl f \<longleftrightarrow> gck_iteration c = - 1 \<and>
     f = Err (InvalidState ''sender_chain_key_next'' ''Sender chain is too long'')"
  by (auto simp: SenderChainKey_next_def checked_add_one_u32_def SenderChainKey_get_derivative_def)

definition stored_sender_message_key :: "'r Ext \<Rightarrow> SenderChainKey \<Rightarrow> SenderMessageKeyPb" where
  "stored_sender_message_key E c = SenderMessageKey_as_protobuf (SenderChainKey_sender_message_key E c)"

lemma from_stored [simp]:
  "SenderMessageKey_from_protobuf E (stored_sender_message_key E c) = SenderChainKey_sender_message_key E c"
  by (simp add: SenderMessageKey_from_protobuf_def stored_sender_message_key_def SenderMessageKey_as_protobuf_def
      SenderChainKey_sender_message_key_def SenderMessageKey_new_def Let_def)

lemma stored_iteration [simp]: "smk_iteration (stored_sender_message_key E c) = gck_iteration c"
  by (simp add: stored_sender_message_key_def SenderMessageKey_as_protobuf_def
      SenderChainKey_sender_message_key_def SenderMessageKey_new_def Let_def)

lemma grab_message_key_None_iff: "grab_message_key n ks = None \<longleftrightarrow> n \<notin> smk_iteration ` set ks"
  by (auto simp: grab_message_key_def position_None_iff split: option.splits dest: position_SomeD)

lemma grab_message_key_Some:
  assumes g: "grab_message_key n ks = Some (k, ks')" and d: "distinct (map smk_iteration ks)"
  shows "k \<in> set ks \<and> smk_iteration k = n \<and> set ks' = {x \<in> set ks. smk_iteration x \<noteq> n} \<and>
    distinct (map smk_iteration ks') \<and> length ks = Suc (length ks')"
proof -
  from g obtain p where p: "position (\<lambda>x. smk_iteration x = n) ks = Some p"
    and k: "k = ks ! p" and ks': "ks' = remove_at p ks"
    by (auto simp: grab_message_key_def split: option.splits)
  note pl = position_Some_lt [OF p] and pP = position_Some_P [OF p]
  have "set ks' = {x \<in> set ks. smk_iteration x \<noteq> smk_iteration (ks ! p)}"
    unfolding ks' by (rule set_remove_at_distinct [OF d pl])
  with pl pP show ?thesis
    using distinct_map_remove_at [OF d] by (simp add: k ks' length_remove_at)
qed

interpretation sk: receive_chain "SenderChainKey_next E" gck_iteration "stored_sender_message_key E" smk_iteration
    push_message_key grab_message_key MAX_MESSAGE_KEYS
  for E
proof unfold_locales
  fix c c' :: SenderChainKey
  show "SenderChainKey_next E c = Inr c' \<Longrightarrow> gck_iteration c' = gck_iteration c + 1"
    by (simp add: SenderChainKey_next_iff)
  show "(\<exists>f. SenderChainKey_next E c = Inl f) \<longleftrightarrow> gck_iteration c = - 1"
    by (simp add: SenderChainKey_next_iff)
  show "smk_iteration (stored_sender_message_key E c) = gck_iteration c" by simp
next
  fix k and ks :: "SenderMessageKeyPb list"
  show "set (push_message_key k ks) \<subseteq> insert k (set ks)"
    unfolding push_message_key_def Let_def by (rule subset_trans [OF set_drop_subset]) simp
  show "k \<in> set (push_message_key k ks)"
    by (simp add: push_message_key_def Let_def MAX_MESSAGE_KEYS_def)
  show "length ks < MAX_MESSAGE_KEYS \<Longrightarrow> set ks \<subseteq> set (push_message_key k ks)"
    by (auto simp: push_message_key_def Let_def)
  show "length ks \<le> MAX_MESSAGE_KEYS \<Longrightarrow>
      length (push_message_key k ks) = min MAX_MESSAGE_KEYS (Suc (length ks))"
    by (simp add: push_message_key_def Let_def)
  show "distinct (map smk_iteration ks) \<Longrightarrow> smk_iteration k \<notin> smk_iteration ` set ks \<Longrightarrow>
      distinct (map smk_iteration (push_message_key k ks))"
    by (simp add: push_message_key_def Let_def drop_map [symmetric] distinct_drop del: drop_append)
next
  fix n and k and ks ks' :: "SenderMessageKeyPb list"
  show "grab_message_key n ks = None \<longleftrightarrow> n \<notin> smk_iteration ` set ks"
    by (rule grab_message_key_None_iff)
  show "grab_message_key n ks = Some (k, ks') \<Longrightarrow> distinct (map smk_iteration ks) \<Longrightarrow>
      k \<in> set ks \<and> smk_iteration k = n \<and> set ks' = {x \<in> set ks. smk_iteration x \<noteq> n} \<and>
      distinct (map smk_iteration ks') \<and> length ks = Suc (length ks')"
    by (rule grab_message_key_Some)
qed

abbreviation sk_advance :: "'r Ext \<Rightarrow> nat \<Rightarrow> SenderChainKey \<Rightarrow> SenderChainKey signal_result" where
  "sk_advance E \<equiv> key_chain.advance (SenderChainKey_next E)"

abbreviation sk_skip :: "'r Ext \<Rightarrow> nat \<Rightarrow> SenderChainKey \<Rightarrow> SenderMessageKeyPb list \<Rightarrow>
    SenderChainKey signal_result \<times> SenderMessageKeyPb list" where
  "sk_skip E \<equiv> receive_chain.skip (SenderChainKey_next E) (stored_sender_message_key E) push_message_key"

abbreviation sk_receive :: "'r Ext \<Rightarrow> u32 \<Rightarrow> SenderChainKey \<times> SenderMessageKeyPb list \<Rightarrow>
    (SenderMessageKeyPb \<times> SenderChainKey \<times> SenderMessageKeyPb list) option" where
  "sk_receive E \<equiv> receive_chain.receive (SenderChainKey_next E) gck_iteration (stored_sender_message_key E)
     push_message_key grab_message_key"

abbreviation sk_chain_inv :: "'r Ext \<Rightarrow> SenderChainKey \<Rightarrow> SenderChainKey \<times> SenderMessageKeyPb list \<Rightarrow> bool" where
  "sk_chain_inv E \<equiv> receive_chain.chain_inv (SenderChainKey_next E) gck_iteration (stored_sender_message_key E)
     smk_iteration MAX_MESSAGE_KEYS"

abbreviation sk_gone :: "u32 \<Rightarrow> SenderChainKey \<times> SenderMessageKeyPb list \<Rightarrow> bool" where
  "sk_gone \<equiv> receive_chain.gone gck_iteration smk_iteration"

section \<open>Adding a state to the record\<close>

definition sender_record_ok :: "SenderKeyRecord \<Rightarrow> bool" where
  "sender_record_ok r \<longleftrightarrow> length (skr_states r) \<le> MAX_SENDER_KEY_STATES \<and> distinct (map sks_chain_id (skr_states r))"

lemma filter_remove_at:
  "\<lbrakk>i < length xs; \<not> P (xs ! i)\<rbrakk> \<Longrightarrow> filter P (remove_at i xs) = filter P xs"
  by (subst (2) remove_at_eq [of i xs]) (simp_all add: remove_at_def)

lemma SenderKeyRecord_roundtrip:
  "prost_laws E \<Longrightarrow> try_bind (SenderKeyRecord_serialize E r) (SenderKeyRecord_deserialize E) = Inr r"
  by (simp add: SenderKeyRecord_serialize_def SenderKeyRecord_deserialize_def SenderKeyRecord_as_protobuf_def)

lemma add_sender_key_state_states:
  "skr_states (SenderKeyRecord_add_sender_key_state r v c i k pk sk) =
     (case find (has_chain_and_key c pk) (skr_states r) of
        None \<Rightarrow> SenderKeyState_new v c i k pk sk | Some st \<Rightarrow> st) #
     take (MAX_SENDER_KEY_STATES - 1) (filter (\<lambda>st. sks_chain_id st \<noteq> c) (skr_states r))"
proof (cases "position (has_chain_and_key c pk) (skr_states r)")
  case None
  then have "find (has_chain_and_key c pk) (skr_states r) = None"
    by (simp add: position_None_iff find_None_iff)
  with None show ?thesis
    by (simp add: SenderKeyRecord_add_sender_key_state_def SenderKeyRecord_remove_state_def
        SenderKeyRecord_remove_states_with_chain_id_def Let_def)
next
  case (Some n)
  note n = position_Some_lt [OF Some] and P = position_Some_P [OF Some]
  have "find (has_chain_and_key c pk) (skr_states r) = Some (skr_states r ! n)"
    using position_SomeD [OF Some] by (auto simp: find_Some_iff)
  moreover have "filter (\<lambda>st. sks_chain_id st \<noteq> c) (remove_at n (skr_states r)) =
      filter (\<lambda>st. sks_chain_id st \<noteq> c) (skr_states r)"
    using filter_remove_at [OF n, of "\<lambda>st. sks_chain_id st \<noteq> c"] P by (simp add: has_chain_and_key_def)
  ultimately show ?thesis using Some
    by (simp add: SenderKeyRecord_add_sender_key_state_def SenderKeyRecord_remove_state_def
        SenderKeyRecord_remove_states_with_chain_id_def Let_def)
qed

text \<open>C20: adding a sender key state keeps the record well formed: at most five states with distinct chain
  ids. The state of the chain id comes first. If the record already had a state with this chain id and
  signing key, that state is kept with its progress and its cached keys; otherwise the state is the new
  one, and a state with the same id and another signing key is dropped. The other states follow in their
  order, the oldest falling out.\<close>

theorem add_sender_key_state_spec:
  assumes "sender_record_ok r"
    and r'_def: "r' = SenderKeyRecord_add_sender_key_state r version chain_id iteration chain_key pk sk"
  shows "sender_record_ok r' \<and> SenderKeyRecord_sender_key_state_for_chain_id r' chain_id = Some 0 \<and>
    (\<forall>st \<in> set (skr_states r). has_chain_and_key chain_id pk st \<longrightarrow> skr_states r' ! 0 = st) \<and>
    ((\<forall>st \<in> set (skr_states r). \<not> has_chain_and_key chain_id pk st) \<longrightarrow>
       skr_states r' ! 0 = SenderKeyState_new version chain_id iteration chain_key pk sk) \<and>
    tl (skr_states r') = take 4 (filter (\<lambda>st. sks_chain_id st \<noteq> chain_id) (skr_states r))"
proof -
  let ?f = "find (has_chain_and_key chain_id pk) (skr_states r)"
  let ?new = "SenderKeyState_new version chain_id iteration chain_key pk sk"
  have d: "distinct (map sks_chain_id (skr_states r))" using assms(1) by (simp add: sender_record_ok_def)
  have uniq: "?f = Some st" if "st \<in> set (skr_states r)" "has_chain_and_key chain_id pk st" for st
  proof (cases ?f)
    case None
    with that show ?thesis by (auto simp: find_None_iff)
  next
    case (Some x)
    then have "x \<in> set (skr_states r)" "has_chain_and_key chain_id pk x" by (auto simp: find_Some_iff)
    with that d have "x = st" by (auto simp: has_chain_and_key_def distinct_map inj_on_def)
    with Some show ?thesis by simp
  qed
  define h where "h = (case ?f of None \<Rightarrow> ?new | Some st \<Rightarrow> st)"
  have h: "sks_chain_id h = chain_id"
    by (auto simp: h_def has_chain_and_key_def SenderKeyState_new_def find_Some_iff split: option.splits)
  have states: "skr_states r' = h # take 4 (filter (\<lambda>st. sks_chain_id st \<noteq> chain_id) (skr_states r))"
    by (simp add: r'_def add_sender_key_state_states h_def MAX_SENDER_KEY_STATES_def)
  have "distinct (map sks_chain_id (skr_states r'))"
    using d h set_take_subset [of 4 "map sks_chain_id (filter (\<lambda>st. sks_chain_id st \<noteq> chain_id) (skr_states r))"]
    by (auto simp: states take_map [symmetric] distinct_map_filter)
  moreover have "?f = None" if "\<forall>st \<in> set (skr_states r). \<not> has_chain_and_key chain_id pk st"
    using that by (simp add: find_None_iff)
  ultimately show ?thesis using uniq h
    by (auto simp: states sender_record_ok_def MAX_SENDER_KEY_STATES_def
        SenderKeyRecord_sender_key_state_for_chain_id_def h_def)
qed

theorem add_sender_key_state_spec_witness:
  "\<exists>r :: SenderKeyRecord. skr_states r \<noteq> [] \<and> sender_record_ok r \<and>
     sender_record_ok (SenderKeyRecord_add_sender_key_state r 3 7 0 [1] (sample_public 5) None)"
proof -
  define r where "r = \<lparr>skr_states = [SenderKeyState_new 3 6 0 [1] (sample_public 5) None]\<rparr>"
  have "sender_record_ok r" by (simp add: r_def sender_record_ok_def MAX_SENDER_KEY_STATES_def)
  with add_sender_key_state_spec [OF this refl, of 3 7 0 "[1]" "sample_public 5" None]
  show ?thesis by (intro exI [of _ r]) (simp add: r_def)
qed

end
