(* ===== verification/Group_Cipher.thy ===== *)
theory Group_Cipher
  imports Sender_Keys Pqxdh
begin

text \<open>
  \<open>rust/protocol/src/group_cipher.rs\<close>: group encryption with sender keys, with the trait \<open>SenderKeyStore\<close>
  (\<open>storage/traits.rs\<close>) as a record of the operations a store offers and \<open>InMemSenderKeyStore\<close>
  (\<open>storage/inmem.rs\<close>) as one such record. The contract of the trait is the locale \<open>sender_key_store\<close>; the
  cipher is proved over it once.
\<close>

section \<open>The store\<close>

record 's SenderKeyStore =
  store_sender_key :: "'s \<Rightarrow> ProtocolAddress \<Rightarrow> bytes \<Rightarrow> SenderKeyRecord \<Rightarrow> unit signal_result \<times> 's"
  load_sender_key :: "'s \<Rightarrow> ProtocolAddress \<Rightarrow> bytes \<Rightarrow> SenderKeyRecord option signal_result \<times> 's"

record InMemSenderKeyStore =
  imsk_keys :: "ProtocolAddress \<times> bytes \<rightharpoonup> SenderKeyRecord"

definition InMemSenderKeyStore_new :: InMemSenderKeyStore where
  "InMemSenderKeyStore_new = \<lparr>imsk_keys = Map.empty\<rparr>"

definition InMemSenderKeyStore_store_sender_key ::
    "InMemSenderKeyStore \<Rightarrow> ProtocolAddress \<Rightarrow> bytes \<Rightarrow> SenderKeyRecord \<Rightarrow> unit signal_result \<times> InMemSenderKeyStore" where
  "InMemSenderKeyStore_store_sender_key st sender distribution_id record =
     (Inr (), st\<lparr>imsk_keys := (imsk_keys st)((sender, distribution_id) \<mapsto> record)\<rparr>)"

definition InMemSenderKeyStore_load_sender_key ::
    "InMemSenderKeyStore \<Rightarrow> ProtocolAddress \<Rightarrow> bytes \<Rightarrow> SenderKeyRecord option signal_result \<times> InMemSenderKeyStore" where
  "InMemSenderKeyStore_load_sender_key st sender distribution_id = (Inr (imsk_keys st (sender, distribution_id)), st)"

definition inmem_sender_key_store :: "InMemSenderKeyStore SenderKeyStore" where
  "inmem_sender_key_store = \<lparr>store_sender_key = InMemSenderKeyStore_store_sender_key,
     load_sender_key = InMemSenderKeyStore_load_sender_key\<rparr>"

section \<open>The cipher\<close>

text \<open>What \<open>group_encrypt\<close> prepares from the record before it signs: the state, its version, its chain key,
  the ciphertext and the signing key.\<close>

definition group_encrypt_prepare ::
    "'r Ext \<Rightarrow> SenderKeyRecord \<Rightarrow> bytes \<Rightarrow> bytes \<Rightarrow>
     (SenderKeyState \<times> byte \<times> SenderChainKey \<times> bytes \<times> PrivateKey) signal_result" where
  "group_encrypt_prepare E record distribution_id plaintext =
     try_bind (or_err (InvalidSenderKeySession distribution_id) (SenderKeyRecord_sender_key_state record))
       (\<lambda>sender_key_state.
     try_bind (ok_or (InvalidSenderKeySession distribution_id)
       (u32_to_u8 (SenderKeyState_message_version sender_key_state))) (\<lambda>message_version.
     try_bind (ok_or (InvalidSenderKeySession distribution_id) (SenderKeyState_sender_chain_key sender_key_state))
       (\<lambda>sender_chain_key.
     let message_keys = SenderChainKey_sender_message_key E sender_chain_key in
     try_bind (or_err (InvalidSenderKeySession distribution_id)
       (aes_256_cbc_encrypt E plaintext (gmk_cipher_key message_keys) (gmk_iv message_keys))) (\<lambda>ciphertext.
     try_bind (or_err (InvalidSenderKeySession distribution_id)
       (SenderKeyState_signing_key_private E sender_key_state)) (\<lambda>signing_key.
     Inr (sender_key_state, message_version, sender_chain_key, ciphertext, signing_key))))))"

definition group_encrypt ::
    "'r Ext \<Rightarrow> 's SenderKeyStore \<Rightarrow> 's \<Rightarrow> ProtocolAddress \<Rightarrow> bytes \<Rightarrow> bytes \<Rightarrow> 'r \<Rightarrow>
     SenderKeyMessage signal_result \<times> 's \<times> 'r" where
  "group_encrypt E V st sender distribution_id plaintext rng =
     (case load_sender_key V st sender distribution_id of
        (Inl e, st1) \<Rightarrow> (Inl e, st1, rng)
      | (Inr None, st1) \<Rightarrow> (Inl (Err (NoSenderKeyState distribution_id)), st1, rng)
      | (Inr (Some record), st1) \<Rightarrow>
         (case group_encrypt_prepare E record distribution_id plaintext of
            Inl e \<Rightarrow> (Inl e, st1, rng)
          | Inr (sender_key_state, message_version, sender_chain_key, ciphertext, signing_key) \<Rightarrow>
             (case SenderKeyMessage_new E message_version distribution_id (sks_chain_id sender_key_state)
                     (gmk_iteration (SenderChainKey_sender_message_key E sender_chain_key)) ciphertext rng
                     signing_key of
                (Inl e, rng1) \<Rightarrow> (Inl e, st1, rng1)
              | (Inr skm, rng1) \<Rightarrow>
                 (case SenderChainKey_next E sender_chain_key of
                    Inl e \<Rightarrow> (Inl e, st1, rng1)
                  | Inr next_key \<Rightarrow>
                     (case store_sender_key V st1 sender distribution_id
                             (SenderKeyRecord_set_state record 0
                               (SenderKeyState_set_sender_chain_key sender_key_state next_key)) of
                        (Inl e, st2) \<Rightarrow> (Inl e, st2, rng1)
                      | (Inr _, st2) \<Rightarrow> (Inr skm, st2, rng1))))))"

text \<open>The loop of \<open>get_sender_key\<close>.\<close>

function skip_sender_keys ::
    "'r Ext \<Rightarrow> SenderKeyState \<Rightarrow> SenderChainKey \<Rightarrow> u32 \<Rightarrow> SenderChainKey signal_result \<times> SenderKeyState" where
  "skip_sender_keys E state sender_chain_key iteration =
     (if gck_iteration sender_chain_key < iteration then
        let state1 = SenderKeyState_add_sender_message_key state
              (SenderChainKey_sender_message_key E sender_chain_key)
        in case SenderChainKey_next E sender_chain_key of
             Inl e \<Rightarrow> (Inl e, state1)
           | Inr next_key \<Rightarrow> skip_sender_keys E state1 next_key iteration
      else (Inr sender_chain_key, state))"
  by pat_completeness auto
termination
  by (relation "measure (\<lambda>(E, st, ck, n). unat n - unat (gck_iteration ck))")
     (auto simp: SenderChainKey_next_iff word_less_nat_alt unat_succ_u32)

declare skip_sender_keys.simps [simp del]

definition get_sender_key ::
    "'r Ext \<Rightarrow> SenderKeyState \<Rightarrow> u32 \<Rightarrow> bytes \<Rightarrow> SenderMessageKey signal_result \<times> SenderKeyState" where
  "get_sender_key E state iteration distribution_id =
     (case SenderKeyState_sender_chain_key state of
        None \<Rightarrow> (Inl (Err (InvalidSenderKeySession distribution_id)), state)
      | Some sender_chain_key \<Rightarrow>
         (let current_iteration = gck_iteration sender_chain_key in
          if current_iteration > iteration then
            (case SenderKeyState_remove_sender_message_key E state iteration of
               (Some smk, state1) \<Rightarrow> (Inr smk, state1)
             | (None, state1) \<Rightarrow> (Inl (Err (DuplicatedMessage current_iteration iteration)), state1))
          else if unat (iteration - current_iteration) > MAX_FORWARD_JUMPS then
            (Inl (Err (InvalidMessage SenderKeyType ''message from too far into the future'')), state)
          else case skip_sender_keys E state sender_chain_key iteration of
                 (Inl e, state1) \<Rightarrow> (Inl e, state1)
               | (Inr chain_key, state1) \<Rightarrow>
                   (case SenderChainKey_next E chain_key of
                      Inl e \<Rightarrow> (Inl e, state1)
                    | Inr next_key \<Rightarrow> (Inr (SenderChainKey_sender_message_key E chain_key),
                        SenderKeyState_set_sender_chain_key state1 next_key))))"

text \<open>\<open>group_decrypt\<close> up to the store: the plaintext and the changed record.\<close>

definition group_decrypt_open ::
    "'r Ext \<Rightarrow> SenderKeyMessage \<Rightarrow> SenderKeyRecord \<Rightarrow> (bytes \<times> SenderKeyRecord) signal_result" where
  "group_decrypt_open E skm record =
     (let distribution_id = skm_distribution_id skm in
      case SenderKeyRecord_sender_key_state_for_chain_id record (skm_chain_id skm) of
        None \<Rightarrow> Inl (Err (NoSenderKeyState distribution_id))
      | Some i \<Rightarrow>
         (let sender_key_state = skr_states record ! i; message_version = ucast (skm_message_version skm) in
          if message_version \<noteq> SenderKeyState_message_version sender_key_state
          then Inl (Err (UnrecognizedMessageVersion message_version))
          else
            try_bind (or_err (InvalidSenderKeySession distribution_id)
              (SenderKeyState_signing_key_public sender_key_state)) (\<lambda>signing_key.
            try_bind (SenderKeyMessage_verify_signature E skm signing_key) (\<lambda>valid.
            if \<not> valid then Inl (Err SignatureValidationFailed)
            else case get_sender_key E sender_key_state (skm_iteration skm) distribution_id of
                (Inl e, _) \<Rightarrow> Inl e
              | (Inr sender_key, sender_key_state1) \<Rightarrow>
                 (case aes_256_cbc_decrypt E (skm_ciphertext skm) (gmk_cipher_key sender_key) (gmk_iv sender_key) of
                    Inr plaintext \<Rightarrow> Inr (plaintext, SenderKeyRecord_set_state record i sender_key_state1)
                  | Inl (Err BadKeyOrIv) \<Rightarrow> Inl (Err (InvalidSenderKeySession distribution_id))
                  | Inl (Err (BadCiphertext msg)) \<Rightarrow>
                      Inl (Err (InvalidMessage SenderKeyType (''decryption failed: '' @ msg)))
                  | Inl (Panic m) \<Rightarrow> Inl (Panic m))))))"

definition group_decrypt ::
    "'r Ext \<Rightarrow> 's SenderKeyStore \<Rightarrow> bytes \<Rightarrow> 's \<Rightarrow> ProtocolAddress \<Rightarrow> bytes signal_result \<times> 's" where
  "group_decrypt E V skm_bytes st sender =
     (case SenderKeyMessage_try_from E skm_bytes of
        Inl e \<Rightarrow> (Inl e, st)
      | Inr skm \<Rightarrow>
         (case load_sender_key V st sender (skm_distribution_id skm) of
            (Inl e, st1) \<Rightarrow> (Inl e, st1)
          | (Inr None, st1) \<Rightarrow> (Inl (Err (NoSenderKeyState (skm_distribution_id skm))), st1)
          | (Inr (Some record), st1) \<Rightarrow>
             (case group_decrypt_open E skm record of
                Inl e \<Rightarrow> (Inl e, st1)
              | Inr (plaintext, record1) \<Rightarrow>
                 (case store_sender_key V st1 sender (skm_distribution_id skm) record1 of
                    (Inl e, st2) \<Rightarrow> (Inl e, st2)
                  | (Inr _, st2) \<Rightarrow> (Inr plaintext, st2)))))"

definition process_sender_key_distribution_message ::
    "'s SenderKeyStore \<Rightarrow> ProtocolAddress \<Rightarrow> SenderKeyDistributionMessage \<Rightarrow> 's \<Rightarrow> unit signal_result \<times> 's" where
  "process_sender_key_distribution_message V sender skdm st =
     (case load_sender_key V st sender (skd_distribution_id skdm) of
        (Inl e, st1) \<Rightarrow> (Inl e, st1)
      | (Inr loaded, st1) \<Rightarrow>
         (let sender_key_record = (case loaded of None \<Rightarrow> SenderKeyRecord_new_empty | Some r \<Rightarrow> r)
          in store_sender_key V st1 sender (skd_distribution_id skdm)
               (SenderKeyRecord_add_sender_key_state sender_key_record (skd_message_version skdm)
                  (skd_chain_id skdm) (skd_iteration skdm) (skd_chain_key skdm) (skd_signing_key skdm) None)))"

text \<open>The record a sender starts with when it has none.\<close>

definition new_sender_key_record :: "'r Ext \<Rightarrow> 'r \<Rightarrow> SenderKeyRecord \<times> 'r" where
  "new_sender_key_record E rng =
     (let (random, rng1) = x_random_u32 E rng;
          chain_id = drop_bit 1 random;
          (sender_key, rng2) = x_random_bytes E 32 rng1;
          (signing_key, rng3) = KeyPair_generate E rng2
      in (SenderKeyRecord_add_sender_key_state SenderKeyRecord_new_empty SENDERKEY_MESSAGE_CURRENT_VERSION
            chain_id 0 sender_key (kp_public_key signing_key) (Some (kp_private_key signing_key)), rng3))"

definition distribution_message_of ::
    "'r Ext \<Rightarrow> bytes \<Rightarrow> SenderKeyRecord \<Rightarrow> SenderKeyDistributionMessage signal_result" where
  "distribution_message_of E distribution_id sender_key_record =
     try_bind (or_err (InvalidSenderKeySession distribution_id) (SenderKeyRecord_sender_key_state sender_key_record))
       (\<lambda>state.
     try_bind (ok_or (InvalidSenderKeySession distribution_id) (SenderKeyState_sender_chain_key state))
       (\<lambda>sender_chain_key.
     try_bind (ok_or (InvalidSenderKeySession distribution_id) (u32_to_u8 (SenderKeyState_message_version state)))
       (\<lambda>message_version.
     try_bind (or_err (InvalidSenderKeySession distribution_id) (SenderKeyState_signing_key_public state))
       (\<lambda>signing_key.
     SenderKeyDistributionMessage_new E message_version distribution_id (sks_chain_id state)
       (gck_iteration sender_chain_key) (gck_chain_key sender_chain_key) signing_key))))"

definition create_sender_key_distribution_message ::
    "'r Ext \<Rightarrow> 's SenderKeyStore \<Rightarrow> ProtocolAddress \<Rightarrow> bytes \<Rightarrow> 's \<Rightarrow> 'r \<Rightarrow>
     SenderKeyDistributionMessage signal_result \<times> 's \<times> 'r" where
  "create_sender_key_distribution_message E V sender distribution_id st rng =
     (case load_sender_key V st sender distribution_id of
        (Inl e, st1) \<Rightarrow> (Inl e, st1, rng)
      | (Inr (Some record), st1) \<Rightarrow> (distribution_message_of E distribution_id record, st1, rng)
      | (Inr None, st1) \<Rightarrow>
         (let (record, rng1) = new_sender_key_record E rng
          in case store_sender_key V st1 sender distribution_id record of
               (Inl e, st2) \<Rightarrow> (Inl e, st2, rng1)
             | (Inr _, st2) \<Rightarrow> (distribution_message_of E distribution_id record, st2, rng1)))"

section \<open>A state as a key chain with a cache\<close>

definition state_chain :: "SenderKeyState \<Rightarrow> (SenderChainKey \<times> SenderMessageKeyPb list) option" where
  "state_chain st = map_option (\<lambda>c. (c, sks_sender_message_keys st)) (SenderKeyState_sender_chain_key st)"

definition with_chain :: "SenderKeyState \<Rightarrow> SenderChainKey \<times> SenderMessageKeyPb list \<Rightarrow> SenderKeyState" where
  "with_chain st s = st\<lparr>sks_sender_chain_key := Some (SenderChainKey_as_protobuf (fst s)),
     sks_sender_message_keys := snd s\<rparr>"

lemma with_chain_simps [simp]:
  "state_chain (with_chain st s) = Some s" "sks_chain_id (with_chain st s) = sks_chain_id st"
  "SenderKeyState_message_version (with_chain st s) = SenderKeyState_message_version st"
  "SenderKeyState_signing_key_public (with_chain st s) = SenderKeyState_signing_key_public st"
  by (cases s; simp add: with_chain_def state_chain_def SenderKeyState_sender_chain_key_def
      SenderChainKey_as_protobuf_def SenderKeyState_message_version_def SenderKeyState_signing_key_public_def)+

lemma state_chain_Some:
  assumes "state_chain st = Some (c, ks)"
  shows "SenderKeyState_sender_chain_key st = Some c" "sks_sender_message_keys st = ks"
    "sks_sender_chain_key st = Some (SenderChainKey_as_protobuf c)"
  using assms by (auto simp: state_chain_def SenderKeyState_sender_chain_key_def SenderChainKey_as_protobuf_def)

lemma with_chain_keys:
  "sks_sender_chain_key st = Some (SenderChainKey_as_protobuf c) \<Longrightarrow>
   st\<lparr>sks_sender_message_keys := ks\<rparr> = with_chain st (c, ks)"
  by (cases st) (simp add: with_chain_def)

lemma skip_sender_keys_eq:
  "skip_sender_keys E st c n =
     (case sk_skip E (unat n - unat (gck_iteration c)) c (sks_sender_message_keys st) of
        (r, ks) \<Rightarrow> (r, st\<lparr>sks_sender_message_keys := ks\<rparr>))"
proof (induction E st c n rule: skip_sender_keys.induct)
  case (1 E st c n)
  show ?case
  proof (cases "gck_iteration c < n")
    case False
    then show ?thesis by (subst skip_sender_keys.simps) (simp add: word_less_nat_alt)
  next
    case True
    then have nm: "gck_iteration c \<noteq> - 1" by (metis leD word_order.extremum)
    then obtain c' where c': "SenderChainKey_next E c = Inr c'" using sk.nxt_Inr by blast
    let ?st1 = "SenderKeyState_add_sender_message_key st (SenderChainKey_sender_message_key E c)"
    have keys: "sks_sender_message_keys ?st1 =
        push_message_key (stored_sender_message_key E c) (sks_sender_message_keys st)"
      by (simp add: SenderKeyState_add_sender_message_key_def stored_sender_message_key_def)
    have m: "unat n - unat (gck_iteration c) = Suc (unat n - unat (gck_iteration c'))"
      using True sk.nxt_unat [OF c'] by (simp add: word_less_nat_alt)
    have "skip_sender_keys E st c n = skip_sender_keys E ?st1 c' n"
      using True c' by (subst skip_sender_keys.simps) simp
    also have "\<dots> = (case sk_skip E (unat n - unat (gck_iteration c')) c' (sks_sender_message_keys ?st1) of
        (r, ks) \<Rightarrow> (r, ?st1\<lparr>sks_sender_message_keys := ks\<rparr>))"
      by (rule "1.IH") (use True c' in simp_all)
    also have "\<dots> = (case sk_skip E (unat n - unat (gck_iteration c)) c (sks_sender_message_keys st) of
        (r, ks) \<Rightarrow> (r, st\<lparr>sks_sender_message_keys := ks\<rparr>))"
      unfolding keys m by (simp add: c' SenderKeyState_add_sender_message_key_def split: prod.split)
    finally show ?thesis .
  qed
qed

lemma get_sender_key_receive:
  assumes v: "state_chain st = Some (c, ks)" and r: "sk_receive E n (c, ks) = Some (k, s')"
    and near: "gck_iteration c \<le> n \<longrightarrow> unat (n - gck_iteration c) \<le> MAX_FORWARD_JUMPS"
  shows "get_sender_key E st n d = (Inr (SenderMessageKey_from_protobuf E k), with_chain st s')"
proof (cases "n < gck_iteration c")
  case True
  with r obtain ks' where "grab_message_key n ks = Some (k, ks')" and "s' = (c, ks')"
    by (auto simp: sk.receive_def)
  with True show ?thesis using state_chain_Some [OF v]
    by (simp add: get_sender_key_def Let_def SenderKeyState_remove_sender_message_key_def with_chain_keys)
next
  case False
  with r obtain e e' ks' where "sk_skip E (unat n - unat (gck_iteration c)) c ks = (Inr e, ks')"
    and "SenderChainKey_next E e = Inr e'" "k = stored_sender_message_key E e" "s' = (e', ks')"
    by (auto simp: sk.receive_def split: prod.splits sum.splits)
  with near state_chain_Some [OF v] show ?thesis
    using False by (simp add: get_sender_key_def Let_def skip_sender_keys_eq SenderKeyState_set_sender_chain_key_def
        with_chain_def not_less [symmetric])
qed

lemma get_sender_key_gone:
  assumes v: "state_chain st = Some (c, ks)" and g: "sk_gone n (c, ks)"
  shows "get_sender_key E st n d = (Inl (Err (DuplicatedMessage (gck_iteration c) n)), st)"
  using g state_chain_Some [OF v] grab_message_key_None_iff [of n ks]
  by (simp add: get_sender_key_def Let_def SenderKeyState_remove_sender_message_key_def sk.gone_def)

lemma get_sender_key_InrD:
  assumes v: "state_chain st = Some (c, ks)" and g: "get_sender_key E st n d = (Inr k, st')"
  shows "\<exists>k' s'. sk_receive E n (c, ks) = Some (k', s') \<and> st' = with_chain st s'"
proof (cases "n < gck_iteration c")
  case True
  then show ?thesis using g state_chain_Some [OF v]
    by (auto simp: get_sender_key_def Let_def SenderKeyState_remove_sender_message_key_def with_chain_keys
        sk.receive_def split: option.splits)
next
  case False
  obtain r ks' where s: "sk_skip E (unat n - unat (gck_iteration c)) c ks = (r, ks')" by fastforce
  from False g s state_chain_Some [OF v] show ?thesis
    by (auto simp: get_sender_key_def Let_def skip_sender_keys_eq sk.receive_def with_chain_def
        SenderKeyState_set_sender_chain_key_def split: sum.splits if_splits)
qed

section \<open>The contract of the store\<close>

locale sender_key_store =
  fixes V :: "'s SenderKeyStore"
  assumes load_pure: "snd (load_sender_key V st a d) = st"
    and load_store: "store_sender_key V st a d r = (Inr (), st') \<Longrightarrow>
      fst (load_sender_key V st' b e) =
        (if (b, e) = (a, d) then Inr (Some r) else fst (load_sender_key V st b e))"

locale reliable_sender_key_store = sender_key_store +
  assumes store_ok: "\<exists>st'. store_sender_key V st a d r = (Inr (), st')"

interpretation imsk: reliable_sender_key_store inmem_sender_key_store
  by unfold_locales (auto simp: inmem_sender_key_store_def InMemSenderKeyStore_store_sender_key_def
      InMemSenderKeyStore_load_sender_key_def)

section \<open>Receiving group messages\<close>

text \<open>The record has a state for the chain id, of the current version and with this signing key; its chain
  and cache are \<open>s\<close>.\<close>

definition group_receiver ::
    "SenderKeyRecord \<Rightarrow> u32 \<Rightarrow> PublicKey \<Rightarrow> SenderChainKey \<times> SenderMessageKeyPb list \<Rightarrow> bool" where
  "group_receiver r chain_id pk s \<longleftrightarrow> (\<exists>i. SenderKeyRecord_sender_key_state_for_chain_id r chain_id = Some i \<and>
     SenderKeyState_message_version (skr_states r ! i) = 3 \<and>
     SenderKeyState_signing_key_public (skr_states r ! i) = Inr pk \<and> state_chain (skr_states r ! i) = Some s)"

lemma group_receiver_update:
  assumes "SenderKeyRecord_sender_key_state_for_chain_id r chain_id = Some i"
    and "SenderKeyState_message_version (skr_states r ! i) = 3"
    and "SenderKeyState_signing_key_public (skr_states r ! i) = Inr pk"
  shows "group_receiver (SenderKeyRecord_set_state r i (with_chain (skr_states r ! i) s)) chain_id pk s"
proof -
  have p: "position (\<lambda>st. sks_chain_id st = chain_id) (skr_states r) = Some i"
    using assms(1) by (simp add: SenderKeyRecord_sender_key_state_for_chain_id_def)
  note l = position_Some_lt [OF p] and c = position_Some_P [OF p]
  have "position (\<lambda>st. sks_chain_id st = chain_id) ((skr_states r)[i := with_chain (skr_states r ! i) s]) = Some i"
    by (rule position_list_update [OF p]) (use c in simp)
  with l assms show ?thesis
    by (simp add: group_receiver_def SenderKeyRecord_set_state_def SenderKeyRecord_sender_key_state_for_chain_id_def)
qed

text \<open>Opening a message that carries a valid signature and whose iteration the receiver can still answer.\<close>

lemma group_decrypt_open_ok:
  assumes g: "group_receiver r (skm_chain_id m) pk (c, ks)" and v: "skm_message_version m = 3"
    and sg: "SenderKeyMessage_verify_signature E m pk = Inr True"
    and rcv: "sk_receive E (skm_iteration m) (c, ks) = Some (k, s')"
    and near: "gck_iteration c \<le> skm_iteration m \<longrightarrow> unat (skm_iteration m - gck_iteration c) \<le> MAX_FORWARD_JUMPS"
    and d: "aes_256_cbc_decrypt E (skm_ciphertext m) (gmk_cipher_key (SenderMessageKey_from_protobuf E k))
      (gmk_iv (SenderMessageKey_from_protobuf E k)) = Inr pt"
  shows "\<exists>r'. group_decrypt_open E m r = Inr (pt, r') \<and> group_receiver r' (skm_chain_id m) pk s'"
proof -
  obtain i where i: "SenderKeyRecord_sender_key_state_for_chain_id r (skm_chain_id m) = Some i"
    "SenderKeyState_message_version (skr_states r ! i) = 3"
    "SenderKeyState_signing_key_public (skr_states r ! i) = Inr pk" "state_chain (skr_states r ! i) = Some (c, ks)"
    using g by (auto simp: group_receiver_def)
  have "group_decrypt_open E m r = Inr (pt, SenderKeyRecord_set_state r i (with_chain (skr_states r ! i) s'))"
    using i v sg d get_sender_key_receive [OF i(4) rcv near]
    by (simp add: group_decrypt_open_def Let_def)
  with group_receiver_update [OF i(1-3)] show ?thesis by blast
qed

lemma group_decrypt_open_gone:
  assumes g: "group_receiver r (skm_chain_id m) pk (c, ks)" and v: "skm_message_version m = 3"
    and sg: "SenderKeyMessage_verify_signature E m pk = Inr True" and gone: "sk_gone (skm_iteration m) (c, ks)"
  shows "group_decrypt_open E m r = Inl (Err (DuplicatedMessage (gck_iteration c) (skm_iteration m)))"
  using assms by (auto simp: group_receiver_def group_decrypt_open_def Let_def get_sender_key_gone)

section \<open>The cipher over the contract\<close>

context sender_key_store
begin

lemma load_eq: "fst (load_sender_key V st a d) = r \<Longrightarrow> load_sender_key V st a d = (r, st)"
  using load_pure [of st a d] by (cases "load_sender_key V st a d") simp

lemma group_decrypt_error:
  assumes "SenderKeyMessage_try_from E bs = Inr m"
    and "fst (load_sender_key V st a (skm_distribution_id m)) = Inr (Some r)"
    and "group_decrypt_open E m r = Inl f"
  shows "group_decrypt E V bs st a = (Inl f, st)"
  using assms load_eq [OF assms(2)] by (simp add: group_decrypt_def)

text \<open>A plaintext is only returned for a message signed with the key of the stored state.\<close>

lemma group_decrypt_InrD:
  assumes "group_decrypt E V bs st a = (Inr pt, st')"
  obtains m r r' where "SenderKeyMessage_try_from E bs = Inr m"
    "fst (load_sender_key V st a (skm_distribution_id m)) = Inr (Some r)"
    "group_decrypt_open E m r = Inr (pt, r')"
    "store_sender_key V st a (skm_distribution_id m) r' = (Inr (), st')"
proof -
  obtain m where m: "SenderKeyMessage_try_from E bs = Inr m"
    using assms by (cases "SenderKeyMessage_try_from E bs") (auto simp: group_decrypt_def)
  obtain l where l: "load_sender_key V st a (skm_distribution_id m) = (l, st)" by (rule that [OF load_eq [OF refl]])
  obtain r where r: "l = Inr (Some r)" using assms m l by (auto simp: group_decrypt_def split: sum.splits option.splits)
  with that m l assms show ?thesis
    by (auto simp: group_decrypt_def split: sum.splits prod.splits)
qed

lemma group_encrypt_InrD:
  assumes "group_encrypt E V st a dist pt rng = (Inr m, st', rng')"
  obtains r s v c ct sk c' where "fst (load_sender_key V st a dist) = Inr (Some r)"
    "group_encrypt_prepare E r dist pt = Inr (s, v, c, ct, sk)"
    "SenderKeyMessage_new E v dist (sks_chain_id s) (gmk_iteration (SenderChainKey_sender_message_key E c)) ct rng sk
      = (Inr m, rng')"
    "SenderChainKey_next E c = Inr c'"
    "store_sender_key V st a dist (SenderKeyRecord_set_state r 0 (SenderKeyState_set_sender_chain_key s c')) = (Inr (), st')"
proof -
  obtain l where l: "load_sender_key V st a dist = (l, st)" by (rule that [OF load_eq [OF refl]])
  obtain r where r: "l = Inr (Some r)" using assms l by (auto simp: group_encrypt_def split: sum.splits option.splits)
  with that l assms show ?thesis
    by (auto simp: group_encrypt_def split: sum.splits prod.splits)
qed

end

context reliable_sender_key_store
begin

lemma group_decrypt_ok:
  assumes "SenderKeyMessage_try_from E bs = Inr m"
    and "fst (load_sender_key V st a (skm_distribution_id m)) = Inr (Some r)"
    and "group_decrypt_open E m r = Inr (pt, r')"
  obtains st' where "group_decrypt E V bs st a = (Inr pt, st')"
    "fst (load_sender_key V st' a (skm_distribution_id m)) = Inr (Some r')"
proof -
  obtain st' where s: "store_sender_key V st a (skm_distribution_id m) r' = (Inr (), st')" using store_ok by blast
  have "group_decrypt E V bs st a = (Inr pt, st')" using assms s load_eq [OF assms(2)] by (simp add: group_decrypt_def)
  with that load_store [OF s] show ?thesis by auto
qed

end

text \<open>The interpretation's facts over the map of the in-memory store.\<close>

lemma imsk_load [simp]:
  "fst (load_sender_key inmem_sender_key_store st a d) = Inr (imsk_keys st (a, d))"
  by (simp add: inmem_sender_key_store_def InMemSenderKeyStore_load_sender_key_def)

lemma SenderMessageKey_lengths:
  assumes "hash_lengths E"
  shows "length (gmk_cipher_key (SenderChainKey_sender_message_key E c)) = 32"
    "length (gmk_iv (SenderChainKey_sender_message_key E c)) = 16"
  using assms by (simp_all add: SenderChainKey_sender_message_key_def SenderMessageKey_new_def Let_def)

lemma group_encrypt_prepare_InrD:
  assumes "group_encrypt_prepare E r dist pt = Inr (s, v, c, ct, sk)"
  shows "SenderKeyRecord_sender_key_state r = Inr s" "u32_to_u8 (SenderKeyState_message_version s) = Some v"
    "SenderKeyState_sender_chain_key s = Some c" "SenderKeyState_signing_key_private E s = Inr sk"
    "aes_256_cbc_encrypt E pt (gmk_cipher_key (SenderChainKey_sender_message_key E c))
       (gmk_iv (SenderChainKey_sender_message_key E c)) = Inr ct"
  using assms by (auto simp: group_encrypt_prepare_def Let_def res_simps)

text \<open>C6: group messages arrive. Let a sender and a receiver hold a sender key of the same chain id with
  matching signing keys, the sender's chain being an advance of the chain the receiver started from, and
  let the receiver be in any reachable state of that chain in which the sender's iteration is unused and
  not more than the jump limit ahead. Then the receiver decrypts what the sender encrypted, and
  afterwards the iteration is used up: the same message again is reported as duplicated and changes
  nothing.\<close>

theorem group_roundtrip:
  assumes laws: "hash_lengths E" "cbc_laws E" "prost_laws E" "edwards_laws E" "uuid_slices E" "length dist = 16"
    and enc: "group_encrypt E inmem_sender_key_store alice sender dist pt rng = (Inr m, alice', rng')"
    and "imsk_keys alice (sender, dist) = Some rs" "SenderKeyRecord_sender_key_state rs = Inr s"
    and "SenderKeyState_sender_chain_key s = Some ck" "SenderKeyState_message_version s = 3"
    and "SenderKeyState_signing_key_private E s = Inr sk" "PrivateKey_public_key E sk = Inr pk"
    and bob: "imsk_keys bob (sender, dist) = Some rb" and rcv: "group_receiver rb (sks_chain_id s) pk (c, ks)"
    and inv: "sk_chain_inv E c0 (c, ks)" and adv: "sk_advance E d c0 = Inr ck"
    and ng: "\<not> sk_gone (gck_iteration ck) (c, ks)"
    and near: "gck_iteration c \<le> gck_iteration ck \<longrightarrow> unat (gck_iteration ck - gck_iteration c) \<le> MAX_FORWARD_JUMPS"
  shows "\<exists>bob' rb' c' ks'. group_decrypt E inmem_sender_key_store (skm_serialized m) bob sender = (Inr pt, bob') \<and>
    imsk_keys bob' (sender, dist) = Some rb' \<and> group_receiver rb' (sks_chain_id s) pk (c', ks') \<and>
    sk_chain_inv E c0 (c', ks') \<and> sk_gone (gck_iteration ck) (c', ks') \<and>
    group_decrypt E inmem_sender_key_store (skm_serialized m) bob' sender =
      (Inl (Err (DuplicatedMessage (gck_iteration c') (gck_iteration ck))), bob')"
proof -
  let ?mk = "SenderChainKey_sender_message_key E ck"
  obtain ct ck' where p: "group_encrypt_prepare E rs dist pt = Inr (s, 3, ck, ct, sk)"
    and new: "SenderKeyMessage_new E 3 dist (sks_chain_id s) (gmk_iteration ?mk) ct rng sk = (Inr m, rng')"
    and nx: "SenderChainKey_next E ck = Inr ck'"
  proof (rule imsk.group_encrypt_InrD [OF enc])
    fix r s1 v c1 ct1 sk1 c1'
    assume a: "fst (load_sender_key inmem_sender_key_store alice sender dist) = Inr (Some r)"
      "group_encrypt_prepare E r dist pt = Inr (s1, v, c1, ct1, sk1)"
      "SenderKeyMessage_new E v dist (sks_chain_id s1) (gmk_iteration (SenderChainKey_sender_message_key E c1)) ct1 rng
        sk1 = (Inr m, rng')" "SenderChainKey_next E c1 = Inr c1'"
    with assms(8-12) group_encrypt_prepare_InrD [OF a(2)] have "r = rs" "s1 = s" "c1 = ck" "sk1 = sk" "v = 3"
      by (auto simp: u32_to_u8_def)
    with a that show thesis by simp
  qed
  have it: "gmk_iteration ?mk = gck_iteration ck"
    by (simp add: SenderChainKey_sender_message_key_def SenderMessageKey_new_def Let_def)
  obtain m' where m: "Inr m = Inr m'" "SenderKeyMessage_try_from E (skm_serialized m') = Inr m'"
    "SenderKeyMessage_verify_signature E m' pk = Inr True" "skm_distribution_id m' = dist"
    "skm_chain_id m' = sks_chain_id s" "skm_iteration m' = gck_iteration ck" "skm_ciphertext m' = ct"
    "skm_message_version m' = 3"
    by (rule SenderKeyMessage_roundtrip [OF laws(3-6) assms(13) new]) (simp add: it)
  have dec: "aes_256_cbc_decrypt E ct (gmk_cipher_key ?mk) (gmk_iv ?mk) = Inr pt"
    using aes_256_cbc_roundtrip [OF laws(2) SenderMessageKey_lengths [OF laws(1)], of pt ck ck]
      group_encrypt_prepare_InrD(5) [OF p] by auto
  have top: "gck_iteration ck \<noteq> - 1" using nx by (simp add: SenderChainKey_next_iff)
  obtain k s' where r: "sk_receive E (gck_iteration ck) (c, ks) = Some (k, s')"
    using sk.receive_total [OF inv ng top] by auto
  have k: "SenderMessageKey_from_protobuf E k = ?mk" using sk.receive_key_of [OF inv adv r] by simp
  obtain c' ks' where s': "s' = (c', ks')" by (cases s')
  obtain rb' where o: "group_decrypt_open E m rb = Inr (pt, rb')" and rcv': "group_receiver rb' (sks_chain_id s) pk s'"
    using group_decrypt_open_ok [of rb m pk c ks E k s' pt] rcv m r near dec k by auto
  have t: "SenderKeyMessage_try_from E (skm_serialized m) = Inr m" and di: "skm_distribution_id m = dist"
    using m by simp_all
  obtain bob' where d1: "group_decrypt E inmem_sender_key_store (skm_serialized m) bob sender = (Inr pt, bob')"
    and l': "fst (load_sender_key inmem_sender_key_store bob' sender (skm_distribution_id m)) = Inr (Some rb')"
    by (rule imsk.group_decrypt_ok [OF t _ o, of bob sender]) (use bob di in simp_all)
  note inv' = sk.receive_key(1,4) [OF inv r, unfolded s']
  have "group_decrypt_open E m rb' = Inl (Err (DuplicatedMessage (gck_iteration c') (gck_iteration ck)))"
    using group_decrypt_open_gone [of rb' m pk c' ks' E] rcv' m inv' s' by simp
  from imsk.group_decrypt_error [OF t l' this] d1 l' di rcv' inv' s' show ?thesis by auto
qed

text \<open>What a successful \<open>group_decrypt_open\<close> does to the record: one state moves along its chain.\<close>

lemma group_decrypt_open_InrD:
  assumes "group_decrypt_open E m r = Inr (pt, r')"
  obtains i k st' pk where "SenderKeyRecord_sender_key_state_for_chain_id r (skm_chain_id m) = Some i"
    "SenderKeyState_signing_key_public (skr_states r ! i) = Inr pk"
    "SenderKeyMessage_verify_signature E m pk = Inr True"
    "get_sender_key E (skr_states r ! i) (skm_iteration m) (skm_distribution_id m) = (Inr k, st')"
    "r' = SenderKeyRecord_set_state r i st'"
proof -
  obtain i where i: "SenderKeyRecord_sender_key_state_for_chain_id r (skm_chain_id m) = Some i"
    using assms by (auto simp: group_decrypt_open_def Let_def split: option.splits)
  obtain pk where pk: "SenderKeyState_signing_key_public (skr_states r ! i) = Inr pk"
    "SenderKeyMessage_verify_signature E m pk = Inr True"
    using assms i by (auto simp: group_decrypt_open_def Let_def res_simps split: if_splits)
  obtain k st' where g: "get_sender_key E (skr_states r ! i) (skm_iteration m) (skm_distribution_id m) = (Inr k, st')"
    using assms i pk by (auto simp: group_decrypt_open_def Let_def split: if_splits prod.splits sum.splits)
  with i pk assms have "r' = SenderKeyRecord_set_state r i st'"
    by (auto simp: group_decrypt_open_def Let_def
        split: if_splits sum.splits failure.splits CbcDecryptionError.splits)
  with that i pk g show ?thesis by blast
qed

lemma group_receiver_step:
  assumes g: "group_receiver r chain_id pk (c, ks)" and inv: "sk_chain_inv E c0 (c, ks)" and gone: "sk_gone n (c, ks)"
    and o: "group_decrypt_open E m r = Inr (pt, r')"
  shows "\<exists>c' ks'. group_receiver r' chain_id pk (c', ks') \<and> sk_chain_inv E c0 (c', ks') \<and> sk_gone n (c', ks')"
proof -
  obtain i where i: "SenderKeyRecord_sender_key_state_for_chain_id r chain_id = Some i"
    "SenderKeyState_message_version (skr_states r ! i) = 3"
    "SenderKeyState_signing_key_public (skr_states r ! i) = Inr pk" "state_chain (skr_states r ! i) = Some (c, ks)"
    using g by (auto simp: group_receiver_def)
  obtain j k st' where j: "SenderKeyRecord_sender_key_state_for_chain_id r (skm_chain_id m) = Some j"
    and k: "get_sender_key E (skr_states r ! j) (skm_iteration m) (skm_distribution_id m) = (Inr k, st')"
    and r': "r' = SenderKeyRecord_set_state r j st'"
    by (rule group_decrypt_open_InrD [OF o]) blast
  have pi: "position (\<lambda>st. sks_chain_id st = chain_id) (skr_states r) = Some i"
    and pj: "position (\<lambda>st. sks_chain_id st = skm_chain_id m) (skr_states r) = Some j"
    using i(1) j by (simp_all add: SenderKeyRecord_sender_key_state_for_chain_id_def)
  show ?thesis
  proof (cases "i = j")
    case True
    obtain k' s' where rcv: "sk_receive E (skm_iteration m) (c, ks) = Some (k', s')"
      and st': "st' = with_chain (skr_states r ! i) s'"
      using get_sender_key_InrD [OF i(4)] k True by metis
    have "group_receiver r' chain_id pk s'" unfolding r' st' True [symmetric] by (rule group_receiver_update [OF i(1-3)])
    with sk.receive_key(1) [OF inv rcv] sk.receive_keeps_gone [OF inv gone rcv] show ?thesis by (cases s') auto
  next
    case False
    have lj: "j < length (skr_states r)" and cj: "sks_chain_id (skr_states r ! j) = skm_chain_id m"
      using position_Some_lt [OF pj] position_Some_P [OF pj] by simp_all
    have ci: "sks_chain_id (skr_states r ! i) = chain_id" using position_Some_P [OF pi] by simp
    have ne: "skm_chain_id m \<noteq> chain_id" using pi pj False by auto
    have idst: "sks_chain_id st' = skm_chain_id m"
    proof (cases "state_chain (skr_states r ! j)")
      case None
      then show ?thesis using k by (auto simp: get_sender_key_def state_chain_def)
    next
      case (Some p)
      then obtain cj' kj where "state_chain (skr_states r ! j) = Some (cj', kj)" by (cases p) auto
      from get_sender_key_InrD [OF this k] cj show ?thesis by auto
    qed
    have "position (\<lambda>st. sks_chain_id st = chain_id) ((skr_states r)[j := st']) = Some i"
      by (subst position_list_update_same [OF lj]) (use idst cj ne pi in simp_all)
    with i False have "group_receiver r' chain_id pk (c, ks)"
      by (simp add: r' group_receiver_def SenderKeyRecord_set_state_def
          SenderKeyRecord_sender_key_state_for_chain_id_def)
    with inv gone show ?thesis by blast
  qed
qed

text \<open>C18: no group message is accepted twice. A used-up iteration stays used up whatever bytes are decrypted
  next, from whichever sender: decryption keeps every receiving chain on the chain it started from and
  never makes a used iteration available again.\<close>

theorem group_used_stays_used:
  assumes "imsk_keys st (sender, dist) = Some r" "group_receiver r chain_id pk (c, ks)"
    and "sk_chain_inv E c0 (c, ks)" "sk_gone n (c, ks)"
  shows "\<exists>r' c' ks'. imsk_keys (snd (group_decrypt E inmem_sender_key_store bs st a)) (sender, dist) = Some r' \<and>
    group_receiver r' chain_id pk (c', ks') \<and> sk_chain_inv E c0 (c', ks') \<and> sk_gone n (c', ks')"
proof (cases "group_decrypt E inmem_sender_key_store bs st a")
  case (Pair res st')
  show ?thesis
  proof (cases res)
    case (Inl f)
    then have "st' = st" using Pair
      by (auto simp: group_decrypt_def inmem_sender_key_store_def InMemSenderKeyStore_load_sender_key_def
          InMemSenderKeyStore_store_sender_key_def split: sum.splits option.splits prod.splits)
    with Pair assms show ?thesis by auto
  next
    case (Inr pt)
    obtain m r1 r2 where l: "fst (load_sender_key inmem_sender_key_store st a (skm_distribution_id m)) = Inr (Some r1)"
      and o: "group_decrypt_open E m r1 = Inr (pt, r2)"
      and s: "store_sender_key inmem_sender_key_store st a (skm_distribution_id m) r2 = (Inr (), st')"
      using imsk.group_decrypt_InrD [OF Pair [unfolded Inr]] by metis
    show ?thesis
    proof (cases "(sender, dist) = (a, skm_distribution_id m)")
      case True
      then have "r1 = r" using l assms(1) by simp
      with group_receiver_step [OF assms(2-4)] o imsk.load_store [OF s, of sender dist] True Pair show ?thesis by auto
    next
      case False
      then have "imsk_keys st' (sender, dist) = Some r"
        using imsk.load_store [OF s, of sender dist] assms(1) by auto
      with assms Pair show ?thesis by (intro exI [of _ r] exI [of _ c] exI [of _ ks]) simp
    qed
  qed
qed

section \<open>Distributing a sender key\<close>

lemma new_state_simps:
  "SenderKeyState_sender_chain_key (SenderKeyState_new v c i k pk sk) = Some \<lparr>gck_iteration = i, gck_chain_key = k\<rparr>"
  "sks_chain_id (SenderKeyState_new v c i k pk sk) = c"
  "state_chain (SenderKeyState_new v c i k pk sk) = Some (\<lparr>gck_iteration = i, gck_chain_key = k\<rparr>, [])"
  "SenderKeyState_message_version (SenderKeyState_new 3 c i k pk sk) = 3"
  "public_key_ok pk \<Longrightarrow> SenderKeyState_signing_key_public (SenderKeyState_new v c i k pk sk) = Inr pk"
  by (simp_all add: SenderKeyState_new_def SenderKeyState_sender_chain_key_def SenderChainKey_as_protobuf_def
      state_chain_def SenderKeyState_message_version_def SenderKeyState_signing_key_public_def)

lemma new_state_private:
  assumes "length (private_key_bytes k) = 32" "x_clamp_integer E (private_key_bytes k) = private_key_bytes k"
  shows "SenderKeyState_signing_key_private E (SenderKeyState_new v c i ck pk (Some k)) = Inr k"
  using assms by (cases k) (simp add: SenderKeyState_new_def SenderKeyState_signing_key_private_def
      PrivateKey_deserialize_def PrivateKey_serialize_def)

lemma add_to_empty:
  "skr_states (SenderKeyRecord_add_sender_key_state SenderKeyRecord_new_empty v c i k pk sk) =
     [SenderKeyState_new v c i k pk sk]"
  by (simp add: add_sender_key_state_states SenderKeyRecord_new_empty_def)

text \<open>C19: distributing a sender key puts sender and receiver in step. When a sender without a record for
  the distribution creates the distribution message and a receiver without one processes it, the
  receiver's chain is the sender's chain at iteration 0 with no skipped keys, the receiver's signing key
  is the public half of the sender's, and the chain id fits in 31 bits.\<close>

theorem distribution_establishes_group:
  assumes "x25519_laws E" "rng_laws E"
    and "imsk_keys alice (sender, dist) = None" "imsk_keys bob (sender, dist) = None"
    and cr: "create_sender_key_distribution_message E inmem_sender_key_store sender dist alice rng = (res, alice', rng')"
  shows "\<exists>skdm rs s ck sk pk bob' rb. res = Inr skdm \<and>
    process_sender_key_distribution_message inmem_sender_key_store sender skdm bob = (Inr (), bob') \<and>
    imsk_keys alice' (sender, dist) = Some rs \<and> SenderKeyRecord_sender_key_state rs = Inr s \<and>
    SenderKeyState_sender_chain_key s = Some ck \<and> gck_iteration ck = 0 \<and> SenderKeyState_message_version s = 3 \<and>
    SenderKeyState_signing_key_private E s = Inr sk \<and> PrivateKey_public_key E sk = Inr pk \<and>
    imsk_keys bob' (sender, dist) = Some rb \<and> group_receiver rb (sks_chain_id s) pk (ck, []) \<and>
    unat (sks_chain_id s) < 2 ^ 31"
proof -
  obtain w rng1 where w: "x_random_u32 E rng = (w, rng1)" by fastforce
  obtain key rng2 where key: "x_random_bytes E 32 rng1 = (key, rng2)" by fastforce
  obtain kp rng3 where kp: "KeyPair_generate E rng2 = (kp, rng3)" by fastforce
  have st: "stored_pair_ok E kp" by (rule KeyPair_generate_stored [OF assms(1,2) kp])
  have pk: "public_key_ok (kp_public_key kp)" and pub: "PrivateKey_public_key E (kp_private_key kp) = Inr (kp_public_key kp)"
    using st key_pair_public_ok [OF assms(1)] by (auto simp: stored_pair_ok_def key_pair_ok_def)
  define id where "id = (drop_bit 1 w :: u32)"
  define s where "s = SenderKeyState_new 3 id 0 key (kp_public_key kp) (Some (kp_private_key kp))"
  define rs where "rs = SenderKeyRecord_add_sender_key_state SenderKeyRecord_new_empty 3 id 0 key (kp_public_key kp)
    (Some (kp_private_key kp))"
  have rs: "skr_states rs = [s]" by (simp add: rs_def s_def add_to_empty)
  have new: "new_sender_key_record E rng = (rs, rng3)"
    by (simp add: new_sender_key_record_def w key kp rs_def id_def SENDERKEY_MESSAGE_CURRENT_VERSION_def)
  have sk: "SenderKeyState_signing_key_private E s = Inr (kp_private_key kp)"
    unfolding s_def using st by (intro new_state_private) (simp_all add: stored_pair_ok_def)
  have fs: "SenderKeyRecord_sender_key_state rs = Inr s" "SenderKeyState_sender_chain_key s = Some \<lparr>gck_iteration = 0, gck_chain_key = key\<rparr>"
    "SenderKeyState_message_version s = 3" "sks_chain_id s = id" "SenderKeyState_signing_key_public s = Inr (kp_public_key kp)"
    using pk by (simp_all add: rs SenderKeyRecord_sender_key_state_def s_def new_state_simps)
  obtain skdm where sd: "distribution_message_of E dist rs = Inr skdm" and f: "skd_message_version skdm = 3"
    "skd_distribution_id skdm = dist" "skd_chain_id skdm = id" "skd_iteration skdm = 0" "skd_chain_key skdm = key"
    "skd_signing_key skdm = kp_public_key kp"
    using fs by (simp add: distribution_message_of_def u32_to_u8_def SenderKeyDistributionMessage_new_def)
  have a: "res = Inr skdm" "imsk_keys alice' (sender, dist) = Some rs"
    using cr assms(3) new sd by (auto simp: create_sender_key_distribution_message_def inmem_sender_key_store_def
        InMemSenderKeyStore_load_sender_key_def InMemSenderKeyStore_store_sender_key_def)
  define rb where "rb = SenderKeyRecord_add_sender_key_state SenderKeyRecord_new_empty 3 id 0 key (kp_public_key kp) None"
  obtain bob' where b: "process_sender_key_distribution_message inmem_sender_key_store sender skdm bob = (Inr (), bob')"
    "imsk_keys bob' (sender, dist) = Some rb"
    using assms(4) f by (simp add: process_sender_key_distribution_message_def inmem_sender_key_store_def rb_def
        InMemSenderKeyStore_load_sender_key_def InMemSenderKeyStore_store_sender_key_def)
  have g: "group_receiver rb id (kp_public_key kp) (\<lparr>gck_iteration = 0, gck_chain_key = key\<rparr>, [])"
    using pk by (auto simp: group_receiver_def SenderKeyRecord_sender_key_state_for_chain_id_def rb_def add_to_empty
        new_state_simps)
  have id: "unat (sks_chain_id s) < 2 ^ 31"
  proof -
    have "unat (w div 2) = unat w div 2" by (simp add: unat_div)
    moreover have "unat w div 2 < 2147483648" by (rule less_mult_imp_div_less) simp
    ultimately show ?thesis unfolding fs(4) id_def by (simp add: drop_bit_eq_div)
  qed
  show ?thesis
    by (intro exI conjI, rule a, rule b, rule a, rule fs, rule fs, simp, rule fs, rule sk, rule pub, rule b,
        unfold fs(4), rule g) (use fs id in simp)
qed

section \<open>A concrete group\<close>

definition sample_sender :: ProtocolAddress where
  "sample_sender = \<lparr>pa_name = ''alice'', pa_device_id = DeviceId 1\<rparr>"

definition group_alice :: InMemSenderKeyStore where
  "group_alice = snd (InMemSenderKeyStore_store_sender_key InMemSenderKeyStore_new sample_sender
     (replicate 16 1) \<lparr>skr_states = [SenderKeyState_new 3 7 0 [4] (kp_public_key (sample_key 5))
       (Some (kp_private_key (sample_key 5)))]\<rparr>)"

definition group_bob :: "u32 \<Rightarrow> InMemSenderKeyStore" where
  "group_bob i = snd (InMemSenderKeyStore_store_sender_key InMemSenderKeyStore_new sample_sender
     (replicate 16 1) \<lparr>skr_states = [SenderKeyState_new 3 7 i [4] (kp_public_key (sample_key 5)) None]\<rparr>)"

lemma group_samples:
  "imsk_keys group_alice (sample_sender, replicate 16 1) =
     Some \<lparr>skr_states = [SenderKeyState_new 3 7 0 [4] (kp_public_key (sample_key 5)) (Some (kp_private_key (sample_key 5)))]\<rparr>"
  "imsk_keys (group_bob i) (sample_sender, replicate 16 1) =
     Some \<lparr>skr_states = [SenderKeyState_new 3 7 i [4] (kp_public_key (sample_key 5)) None]\<rparr>"
  by (simp_all add: group_alice_def group_bob_def InMemSenderKeyStore_store_sender_key_def)

lemma sample_group_receiver:
  "group_receiver \<lparr>skr_states = [SenderKeyState_new 3 7 i [4] (kp_public_key (sample_key 5)) None]\<rparr> 7
     (kp_public_key (sample_key 5)) (\<lparr>gck_iteration = i, gck_chain_key = [4]\<rparr>, [])"
  by (simp add: group_receiver_def SenderKeyRecord_sender_key_state_for_chain_id_def new_state_simps sample_public_ok)

lemma concrete_uuid_slices: "uuid_slices concrete"
  by (simp add: uuid_slices_def concrete_def)

lemma sample_private: "length (private_key_bytes (kp_private_key (sample_key b))) = 32"
  "x_clamp_integer concrete (private_key_bytes (kp_private_key (sample_key b))) = private_key_bytes (kp_private_key (sample_key b))"
  by (simp_all add: sample_key_def concrete_def)

lemma sample_group_encrypt:
  obtains m st' where "group_encrypt concrete inmem_sender_key_store group_alice sample_sender
      (replicate 16 1) [1, 2, 3] 0 = (Inr m, st', 1)"
proof -
  let ?s = "SenderKeyState_new 3 7 0 [4] (kp_public_key (sample_key 5)) (Some (kp_private_key (sample_key 5)))"
  let ?c = "\<lparr>gck_iteration = 0, gck_chain_key = [4]\<rparr>"
  obtain ct where "aes_256_cbc_encrypt concrete [1, 2, 3] (gmk_cipher_key (SenderChainKey_sender_message_key concrete ?c))
      (gmk_iv (SenderChainKey_sender_message_key concrete ?c)) = Inr ct"
    using aes_256_cbc_roundtrip [OF concrete_cbc_laws SenderMessageKey_lengths [OF concrete_hash_lengths]] by blast
  then have p: "group_encrypt_prepare concrete \<lparr>skr_states = [?s]\<rparr> (replicate 16 1) [1, 2, 3] =
      Inr (?s, 3, ?c, ct, kp_private_key (sample_key 5))"
    by (simp add: group_encrypt_prepare_def SenderKeyRecord_sender_key_state_def new_state_simps u32_to_u8_def
        new_state_private sample_private)
  have pub: "PrivateKey_public_key concrete (kp_private_key (sample_key 5)) = Inr (kp_public_key (sample_key 5))"
    using sample_key_ok [of 5] by (simp add: key_pair_ok_def)
  obtain r rng' where n: "SenderKeyMessage_new concrete 3 (replicate 16 1) 7 0 ct 0 (kp_private_key (sample_key 5)) = (r, rng')"
    by fastforce
  obtain m where m: "r = Inr m"
    by (rule SenderKeyMessage_roundtrip [OF concrete_prost_laws concrete_edwards_laws concrete_uuid_slices _ pub n]) simp_all
  have "rng' = 1" using n by (auto simp: SenderKeyMessage_new_def PrivateKey_calculate_signature_def Let_def
        PrivateKey_calculate_signature_for_multipart_message_def curve25519_calculate_signature_def
        split: prod.splits) (auto simp: concrete_def)
  moreover have "gmk_iteration (SenderChainKey_sender_message_key concrete ?c) = 0"
    by (simp add: SenderChainKey_sender_message_key_def SenderMessageKey_new_def Let_def)
  moreover obtain c' where "SenderChainKey_next concrete ?c = Inr c'" by (simp add: SenderChainKey_next_iff)
  ultimately show ?thesis using that p n m group_samples(1)
    by (simp add: group_encrypt_def imsk.load_eq [OF imsk_load] new_state_simps)
       (simp add: inmem_sender_key_store_def InMemSenderKeyStore_store_sender_key_def)
qed

theorem group_roundtrip_witness:
  "\<exists>m st' bob'. group_encrypt concrete inmem_sender_key_store group_alice sample_sender
      (replicate 16 1) [1, 2, 3] 0 = (Inr m, st', 1) \<and>
    group_decrypt concrete inmem_sender_key_store (skm_serialized m) (group_bob 0) sample_sender =
      (Inr [1, 2, 3], bob')"
proof -
  let ?c = "\<lparr>gck_iteration = 0, gck_chain_key = [4]\<rparr>"
  let ?s = "SenderKeyState_new 3 7 0 [4] (kp_public_key (sample_key 5)) (Some (kp_private_key (sample_key 5)))"
  obtain m st' where m: "group_encrypt concrete inmem_sender_key_store group_alice sample_sender
      (replicate 16 1) [1, 2, 3] 0 = (Inr m, st', 1)" by (rule sample_group_encrypt)
  have pub: "PrivateKey_public_key concrete (kp_private_key (sample_key 5)) = Inr (kp_public_key (sample_key 5))"
    using sample_key_ok [of 5] by (simp add: key_pair_ok_def)
  have rcv: "group_receiver \<lparr>skr_states = [SenderKeyState_new 3 7 0 [4] (kp_public_key (sample_key 5)) None]\<rparr>
      (sks_chain_id ?s) (kp_public_key (sample_key 5)) (?c, [])" by (simp add: new_state_simps sample_group_receiver)
  have st: "SenderKeyRecord_sender_key_state \<lparr>skr_states = [?s]\<rparr> = Inr ?s" "SenderKeyState_sender_chain_key ?s = Some ?c"
    "SenderKeyState_message_version ?s = 3" "SenderKeyState_signing_key_private concrete ?s = Inr (kp_private_key (sample_key 5))"
    by (simp_all add: SenderKeyRecord_sender_key_state_def new_state_simps new_state_private sample_private)
  have "sk_advance concrete 0 ?c = Inr ?c" "\<not> sk_gone (gck_iteration ?c) (?c, [])" by (simp_all add: sk.gone_def)
  from group_roundtrip [OF concrete_hash_lengths concrete_cbc_laws concrete_prost_laws concrete_edwards_laws
      concrete_uuid_slices _ m group_samples(1) st pub group_samples(2) [of 0] rcv sk.chain_inv_start this] m
  show ?thesis by auto
qed

theorem group_used_stays_used_witness:
  "\<exists>r c ks. imsk_keys (snd (group_decrypt concrete inmem_sender_key_store [1, 2] (group_bob 1) sample_sender))
     (sample_sender, replicate 16 1) = Some r \<and> group_receiver r 7 (kp_public_key (sample_key 5)) (c, ks)"
proof -
  have "sk_gone 0 (\<lparr>gck_iteration = 1, gck_chain_key = [4]\<rparr>, [])" by (simp add: sk.gone_def)
  from group_used_stays_used [OF group_samples(2) [of 1] sample_group_receiver [of 1] sk.chain_inv_start this,
      where bs = "[1, 2]" and a = sample_sender and E = concrete]
  show ?thesis by blast
qed

theorem distribution_establishes_group_witness:
  "\<exists>skdm alice' rng' bob'. create_sender_key_distribution_message concrete inmem_sender_key_store
      sample_sender [1] InMemSenderKeyStore_new 0 = (Inr skdm, alice', rng') \<and>
    process_sender_key_distribution_message inmem_sender_key_store sample_sender skdm
      InMemSenderKeyStore_new = (Inr (), bob')"
proof -
  obtain res alice' rng' where c: "create_sender_key_distribution_message concrete inmem_sender_key_store
      sample_sender [1] InMemSenderKeyStore_new 0 = (res, alice', rng')" by (metis prod_cases3)
  have "imsk_keys InMemSenderKeyStore_new k = None" for k by (simp add: InMemSenderKeyStore_new_def)
  from distribution_establishes_group [OF concrete_x25519_laws concrete_rng_laws this this c] c show ?thesis by auto
qed

end
