(* ===== verification/Stores.thy ===== *)
theory Stores
  imports Pre_Keys Group_Cipher
begin

text \<open>
  \<open>rust/protocol/src/storage/{traits,inmem}.rs\<close>. A store trait is a record of its operations over a state
  \<open>'s\<close> that holds whatever the stores hold; a method with \<open>&self\<close> reads it, one with \<open>&mut self\<close> also returns
  the new state. The in-memory stores are given one by one and then as the parts of
  \<open>InMemSignalProtocolStore\<close>. The locales state what the protocol code relies on, and are interpreted on
  \<open>InMemSignalProtocolStore\<close>.
\<close>

section \<open>Traits\<close>

datatype Direction = Sending | Receiving

datatype IdentityChange = NewOrUnchanged | ReplacedExisting

definition IdentityChange_from_changed :: "bool \<Rightarrow> IdentityChange" where
  "IdentityChange_from_changed changed = (if changed then ReplacedExisting else NewOrUnchanged)"

record 's IdentityKeyStore =
  get_identity_key_pair :: "'s \<Rightarrow> IdentityKeyPair signal_result"
  get_local_registration_id :: "'s \<Rightarrow> u32 signal_result"
  save_identity :: "'s \<Rightarrow> ProtocolAddress \<Rightarrow> IdentityKey \<Rightarrow> IdentityChange signal_result \<times> 's"
  is_trusted_identity :: "'s \<Rightarrow> ProtocolAddress \<Rightarrow> IdentityKey \<Rightarrow> Direction \<Rightarrow> bool signal_result"
  get_identity :: "'s \<Rightarrow> ProtocolAddress \<Rightarrow> IdentityKey option signal_result"

record 's PreKeyStore =
  get_pre_key :: "'s \<Rightarrow> PreKeyId \<Rightarrow> PreKeyRecord signal_result"
  save_pre_key :: "'s \<Rightarrow> PreKeyId \<Rightarrow> PreKeyRecord \<Rightarrow> unit signal_result \<times> 's"
  remove_pre_key :: "'s \<Rightarrow> PreKeyId \<Rightarrow> unit signal_result \<times> 's"

record 's SignedPreKeyStore =
  get_signed_pre_key :: "'s \<Rightarrow> SignedPreKeyId \<Rightarrow> SignedPreKeyRecord signal_result"
  save_signed_pre_key :: "'s \<Rightarrow> SignedPreKeyId \<Rightarrow> SignedPreKeyRecord \<Rightarrow> unit signal_result \<times> 's"

record 's KyberPreKeyStore =
  get_kyber_pre_key :: "'s \<Rightarrow> KyberPreKeyId \<Rightarrow> KyberPreKeyRecord signal_result"
  save_kyber_pre_key :: "'s \<Rightarrow> KyberPreKeyId \<Rightarrow> KyberPreKeyRecord \<Rightarrow> unit signal_result \<times> 's"
  mark_kyber_pre_key_used :: "'s \<Rightarrow> KyberPreKeyId \<Rightarrow> SignedPreKeyId \<Rightarrow> PublicKey \<Rightarrow> unit signal_result \<times> 's"

record 's SessionStore =
  load_session :: "'s \<Rightarrow> ProtocolAddress \<Rightarrow> SessionRecord option signal_result"
  store_session :: "'s \<Rightarrow> ProtocolAddress \<Rightarrow> SessionRecord \<Rightarrow> unit signal_result \<times> 's"

section \<open>In-memory stores\<close>

record InMemIdentityKeyStore =
  imi_key_pair :: IdentityKeyPair
  imi_registration_id :: u32
  imi_known_keys :: "ProtocolAddress \<rightharpoonup> IdentityKey"

definition InMemIdentityKeyStore_new :: "IdentityKeyPair \<Rightarrow> u32 \<Rightarrow> InMemIdentityKeyStore" where
  "InMemIdentityKeyStore_new key_pair registration_id =
     \<lparr>imi_key_pair = key_pair, imi_registration_id = registration_id, imi_known_keys = Map.empty\<rparr>"

definition InMemIdentityKeyStore_reset :: "InMemIdentityKeyStore \<Rightarrow> InMemIdentityKeyStore" where
  "InMemIdentityKeyStore_reset s = s\<lparr>imi_known_keys := Map.empty\<rparr>"

definition InMemIdentityKeyStore_save_identity ::
    "InMemIdentityKeyStore \<Rightarrow> ProtocolAddress \<Rightarrow> IdentityKey \<Rightarrow> IdentityChange signal_result \<times> InMemIdentityKeyStore" where
  "InMemIdentityKeyStore_save_identity s address identity = (case imi_known_keys s address of
     None \<Rightarrow> (Inr NewOrUnchanged, s\<lparr>imi_known_keys := (imi_known_keys s)(address \<mapsto> identity)\<rparr>)
   | Some k \<Rightarrow> if k = identity then (Inr NewOrUnchanged, s)
               else (Inr ReplacedExisting, s\<lparr>imi_known_keys := (imi_known_keys s)(address \<mapsto> identity)\<rparr>))"

definition InMemIdentityKeyStore_is_trusted_identity ::
    "InMemIdentityKeyStore \<Rightarrow> ProtocolAddress \<Rightarrow> IdentityKey \<Rightarrow> Direction \<Rightarrow> bool signal_result" where
  "InMemIdentityKeyStore_is_trusted_identity s address identity direction = (case imi_known_keys s address of
     None \<Rightarrow> Inr True | Some k \<Rightarrow> Inr (k = identity))"

definition InMemIdentityKeyStore_get_identity ::
    "InMemIdentityKeyStore \<Rightarrow> ProtocolAddress \<Rightarrow> IdentityKey option signal_result" where
  "InMemIdentityKeyStore_get_identity s address = Inr (imi_known_keys s address)"

record InMemPreKeyStore =
  imp_pre_keys :: "PreKeyId \<rightharpoonup> PreKeyRecord"

definition InMemPreKeyStore_new :: InMemPreKeyStore where
  "InMemPreKeyStore_new = \<lparr>imp_pre_keys = Map.empty\<rparr>"

definition InMemPreKeyStore_get_pre_key :: "InMemPreKeyStore \<Rightarrow> PreKeyId \<Rightarrow> PreKeyRecord signal_result" where
  "InMemPreKeyStore_get_pre_key s i = ok_or InvalidPreKeyId (imp_pre_keys s i)"

definition InMemPreKeyStore_save_pre_key ::
    "InMemPreKeyStore \<Rightarrow> PreKeyId \<Rightarrow> PreKeyRecord \<Rightarrow> unit signal_result \<times> InMemPreKeyStore" where
  "InMemPreKeyStore_save_pre_key s i r = (Inr (), s\<lparr>imp_pre_keys := (imp_pre_keys s)(i \<mapsto> r)\<rparr>)"

definition InMemPreKeyStore_remove_pre_key ::
    "InMemPreKeyStore \<Rightarrow> PreKeyId \<Rightarrow> unit signal_result \<times> InMemPreKeyStore" where
  "InMemPreKeyStore_remove_pre_key s i = (Inr (), s\<lparr>imp_pre_keys := (imp_pre_keys s)(i := None)\<rparr>)"

record InMemSignedPreKeyStore =
  ims_signed_pre_keys :: "SignedPreKeyId \<rightharpoonup> SignedPreKeyRecord"

definition InMemSignedPreKeyStore_new :: InMemSignedPreKeyStore where
  "InMemSignedPreKeyStore_new = \<lparr>ims_signed_pre_keys = Map.empty\<rparr>"

definition InMemSignedPreKeyStore_get_signed_pre_key ::
    "InMemSignedPreKeyStore \<Rightarrow> SignedPreKeyId \<Rightarrow> SignedPreKeyRecord signal_result" where
  "InMemSignedPreKeyStore_get_signed_pre_key s i = ok_or InvalidSignedPreKeyId (ims_signed_pre_keys s i)"

definition InMemSignedPreKeyStore_save_signed_pre_key ::
    "InMemSignedPreKeyStore \<Rightarrow> SignedPreKeyId \<Rightarrow> SignedPreKeyRecord \<Rightarrow> unit signal_result \<times> InMemSignedPreKeyStore" where
  "InMemSignedPreKeyStore_save_signed_pre_key s i r =
     (Inr (), s\<lparr>ims_signed_pre_keys := (ims_signed_pre_keys s)(i \<mapsto> r)\<rparr>)"

record InMemKyberPreKeyStore =
  imq_kyber_pre_keys :: "KyberPreKeyId \<rightharpoonup> KyberPreKeyRecord"
  imq_base_keys_seen :: "KyberPreKeyId \<times> SignedPreKeyId \<rightharpoonup> PublicKey list"

definition InMemKyberPreKeyStore_new :: InMemKyberPreKeyStore where
  "InMemKyberPreKeyStore_new = \<lparr>imq_kyber_pre_keys = Map.empty, imq_base_keys_seen = Map.empty\<rparr>"

definition InMemKyberPreKeyStore_get_kyber_pre_key ::
    "InMemKyberPreKeyStore \<Rightarrow> KyberPreKeyId \<Rightarrow> KyberPreKeyRecord signal_result" where
  "InMemKyberPreKeyStore_get_kyber_pre_key s i = ok_or InvalidKyberPreKeyId (imq_kyber_pre_keys s i)"

definition InMemKyberPreKeyStore_save_kyber_pre_key ::
    "InMemKyberPreKeyStore \<Rightarrow> KyberPreKeyId \<Rightarrow> KyberPreKeyRecord \<Rightarrow> unit signal_result \<times> InMemKyberPreKeyStore" where
  "InMemKyberPreKeyStore_save_kyber_pre_key s i r =
     (Inr (), s\<lparr>imq_kyber_pre_keys := (imq_kyber_pre_keys s)(i \<mapsto> r)\<rparr>)"

text \<open>\<open>entry(..).or_default()\<close> makes an empty entry first.\<close>

definition InMemKyberPreKeyStore_mark_kyber_pre_key_used ::
    "InMemKyberPreKeyStore \<Rightarrow> KyberPreKeyId \<Rightarrow> SignedPreKeyId \<Rightarrow> PublicKey \<Rightarrow> unit signal_result \<times> InMemKyberPreKeyStore" where
  "InMemKyberPreKeyStore_mark_kyber_pre_key_used s kyber_prekey_id ec_prekey_id base_key =
     (let key = (kyber_prekey_id, ec_prekey_id);
          seen = (case imq_base_keys_seen s key of None \<Rightarrow> [] | Some l \<Rightarrow> l)
      in if base_key \<in> set seen
         then (Inl (Err (InvalidMessage PreKeyType ''reused base key'')),
               s\<lparr>imq_base_keys_seen := (imq_base_keys_seen s)(key \<mapsto> seen)\<rparr>)
         else (Inr (), s\<lparr>imq_base_keys_seen := (imq_base_keys_seen s)(key \<mapsto> seen @ [base_key])\<rparr>))"

record InMemSessionStore =
  imss_sessions :: "ProtocolAddress \<rightharpoonup> SessionRecord"

definition InMemSessionStore_new :: InMemSessionStore where
  "InMemSessionStore_new = \<lparr>imss_sessions = Map.empty\<rparr>"

fun InMemSessionStore_load_existing_sessions ::
    "InMemSessionStore \<Rightarrow> ProtocolAddress list \<Rightarrow> SessionRecord list signal_result" where
  "InMemSessionStore_load_existing_sessions s [] = Inr []"
| "InMemSessionStore_load_existing_sessions s (address # rest) =
     try_bind (ok_or (SessionNotFoundError (SessionNotFound_new address ''load_existing_sessions''))
       (imss_sessions s address)) (\<lambda>r.
     try_bind (InMemSessionStore_load_existing_sessions s rest) (\<lambda>rs. Inr (r # rs)))"

definition InMemSessionStore_load_session ::
    "InMemSessionStore \<Rightarrow> ProtocolAddress \<Rightarrow> SessionRecord option signal_result" where
  "InMemSessionStore_load_session s address = Inr (imss_sessions s address)"

definition InMemSessionStore_store_session ::
    "InMemSessionStore \<Rightarrow> ProtocolAddress \<Rightarrow> SessionRecord \<Rightarrow> unit signal_result \<times> InMemSessionStore" where
  "InMemSessionStore_store_session s address r =
     (Inr (), s\<lparr>imss_sessions := (imss_sessions s)(address \<mapsto> r)\<rparr>)"

section \<open>\<open>InMemSignalProtocolStore\<close>\<close>

record InMemSignalProtocolStore =
  session_store :: InMemSessionStore
  pre_key_store :: InMemPreKeyStore
  signed_pre_key_store :: InMemSignedPreKeyStore
  kyber_pre_key_store :: InMemKyberPreKeyStore
  identity_store :: InMemIdentityKeyStore
  sender_key_store_part :: InMemSenderKeyStore

definition InMemSignalProtocolStore_new :: "IdentityKeyPair \<Rightarrow> u32 \<Rightarrow> InMemSignalProtocolStore signal_result" where
  "InMemSignalProtocolStore_new key_pair registration_id = Inr
     \<lparr>session_store = InMemSessionStore_new, pre_key_store = InMemPreKeyStore_new,
      signed_pre_key_store = InMemSignedPreKeyStore_new, kyber_pre_key_store = InMemKyberPreKeyStore_new,
      identity_store = InMemIdentityKeyStore_new key_pair registration_id,
      sender_key_store_part = InMemSenderKeyStore_new\<rparr>"

definition inmem_identities :: "InMemSignalProtocolStore IdentityKeyStore" where
  "inmem_identities =
     \<lparr>get_identity_key_pair = \<lambda>s. Inr (imi_key_pair (identity_store s)),
      get_local_registration_id = \<lambda>s. Inr (imi_registration_id (identity_store s)),
      save_identity = \<lambda>s a k. let (r, i) = InMemIdentityKeyStore_save_identity (identity_store s) a k
        in (r, s\<lparr>identity_store := i\<rparr>),
      is_trusted_identity = \<lambda>s. InMemIdentityKeyStore_is_trusted_identity (identity_store s),
      get_identity = \<lambda>s. InMemIdentityKeyStore_get_identity (identity_store s)\<rparr>"

definition inmem_pre_keys :: "InMemSignalProtocolStore PreKeyStore" where
  "inmem_pre_keys =
     \<lparr>get_pre_key = \<lambda>s. InMemPreKeyStore_get_pre_key (pre_key_store s),
      save_pre_key = \<lambda>s i k. let (r, p) = InMemPreKeyStore_save_pre_key (pre_key_store s) i k
        in (r, s\<lparr>pre_key_store := p\<rparr>),
      remove_pre_key = \<lambda>s i. let (r, p) = InMemPreKeyStore_remove_pre_key (pre_key_store s) i
        in (r, s\<lparr>pre_key_store := p\<rparr>)\<rparr>"

definition inmem_signed_pre_keys :: "InMemSignalProtocolStore SignedPreKeyStore" where
  "inmem_signed_pre_keys =
     \<lparr>get_signed_pre_key = \<lambda>s. InMemSignedPreKeyStore_get_signed_pre_key (signed_pre_key_store s),
      save_signed_pre_key = \<lambda>s i k.
        let (r, p) = InMemSignedPreKeyStore_save_signed_pre_key (signed_pre_key_store s) i k
        in (r, s\<lparr>signed_pre_key_store := p\<rparr>)\<rparr>"

definition inmem_kyber_pre_keys :: "InMemSignalProtocolStore KyberPreKeyStore" where
  "inmem_kyber_pre_keys =
     \<lparr>get_kyber_pre_key = \<lambda>s. InMemKyberPreKeyStore_get_kyber_pre_key (kyber_pre_key_store s),
      save_kyber_pre_key = \<lambda>s i k. let (r, p) = InMemKyberPreKeyStore_save_kyber_pre_key (kyber_pre_key_store s) i k
        in (r, s\<lparr>kyber_pre_key_store := p\<rparr>),
      mark_kyber_pre_key_used = \<lambda>s i j b.
        let (r, p) = InMemKyberPreKeyStore_mark_kyber_pre_key_used (kyber_pre_key_store s) i j b
        in (r, s\<lparr>kyber_pre_key_store := p\<rparr>)\<rparr>"

definition inmem_sessions :: "InMemSignalProtocolStore SessionStore" where
  "inmem_sessions =
     \<lparr>load_session = \<lambda>s. InMemSessionStore_load_session (session_store s),
      store_session = \<lambda>s a r. let (x, p) = InMemSessionStore_store_session (session_store s) a r
        in (x, s\<lparr>session_store := p\<rparr>)\<rparr>"

definition inmem_sender_keys :: "InMemSignalProtocolStore SenderKeyStore" where
  "inmem_sender_keys =
     \<lparr>store_sender_key = \<lambda>s a d r. let (x, p) = InMemSenderKeyStore_store_sender_key (sender_key_store_part s) a d r
        in (x, s\<lparr>sender_key_store_part := p\<rparr>),
      load_sender_key = \<lambda>s a d. let (x, p) = InMemSenderKeyStore_load_sender_key (sender_key_store_part s) a d
        in (x, s\<lparr>sender_key_store_part := p\<rparr>)\<rparr>"

section \<open>Contracts\<close>

text \<open>What a session store promises: storing works, and a stored record is what is loaded next.\<close>

locale session_store_contract =
  fixes SS :: "'s SessionStore"
  assumes store_ok: "fst (store_session SS st a r) = Inr ()"
    and load_store: "load_session SS (snd (store_session SS st a r)) b =
      (if b = a then Inr (Some r) else load_session SS st b)"

text \<open>What an identity store promises: a saved identity is trusted, and saving changes neither the own key
  pair nor the registration id.\<close>

locale identity_store_contract =
  fixes IS :: "'s IdentityKeyStore"
  assumes save_ok: "\<exists>c. fst (save_identity IS st a k) = Inr c"
    and saved_is_trusted: "is_trusted_identity IS (snd (save_identity IS st a k)) a k d = Inr True"
    and saved_other: "b \<noteq> a \<Longrightarrow> is_trusted_identity IS (snd (save_identity IS st a k)) b l d = is_trusted_identity IS st b l d"
    and own_kept: "get_identity_key_pair IS (snd (save_identity IS st a k)) = get_identity_key_pair IS st"
      "get_local_registration_id IS (snd (save_identity IS st a k)) = get_local_registration_id IS st"

text \<open>The two stores of a sender or receiver are separate.\<close>

locale messaging_stores = session_store_contract SS + identity_store_contract IS
  for SS :: "'s SessionStore" and IS :: "'s IdentityKeyStore" +
  assumes load_save_identity: "load_session SS (snd (save_identity IS st a k)) b = load_session SS st b"
    and trusted_store: "is_trusted_identity IS (snd (store_session SS st a r)) b l d = is_trusted_identity IS st b l d"
    and own_store: "get_identity_key_pair IS (snd (store_session SS st a r)) = get_identity_key_pair IS st"
      "get_local_registration_id IS (snd (store_session SS st a r)) = get_local_registration_id IS st"

text \<open>With the pre-key stores: a removed one-time pre-key is gone, a base key is accepted once for a pair of
  pre-keys, and a rejected one changes nothing.\<close>

locale protocol_stores = messaging_stores SS IS
  for SS :: "'s SessionStore" and IS :: "'s IdentityKeyStore" +
  fixes PS :: "'s PreKeyStore" and KS :: "'s KyberPreKeyStore"
  assumes remove_ok: "fst (remove_pre_key PS st i) = Inr ()"
    and get_removed: "get_pre_key PS (snd (remove_pre_key PS st i)) j =
      (if j = i then Inl (Err InvalidPreKeyId) else get_pre_key PS st j)"
    and mark_once: "fst (mark_kyber_pre_key_used KS st i j b) = Inr () \<Longrightarrow>
      \<exists>e. fst (mark_kyber_pre_key_used KS (snd (mark_kyber_pre_key_used KS st i j b)) i j b) = Inl (Err e)"
    and mark_fails: "fst (mark_kyber_pre_key_used KS st i j b) \<noteq> Inr () \<Longrightarrow> snd (mark_kyber_pre_key_used KS st i j b) = st"
    and load_others: "load_session SS (snd (remove_pre_key PS st i)) a = load_session SS st a"
      "load_session SS (snd (mark_kyber_pre_key_used KS st i j b)) a = load_session SS st a"
    and pre_key_others: "get_pre_key PS (snd (store_session SS st a r)) i = get_pre_key PS st i"
      "get_pre_key PS (snd (save_identity IS st a k)) i = get_pre_key PS st i"
      "get_pre_key PS (snd (mark_kyber_pre_key_used KS st i' j b)) i = get_pre_key PS st i"

text \<open>The operations of the in-memory store over its maps.\<close>

lemma inmem_sessions_simps [simp]:
  "load_session inmem_sessions st a = Inr (imss_sessions (session_store st) a)"
  "store_session inmem_sessions st a r =
     (Inr (), st\<lparr>session_store := \<lparr>imss_sessions = (imss_sessions (session_store st))(a \<mapsto> r)\<rparr>\<rparr>)"
  by (simp_all add: inmem_sessions_def InMemSessionStore_load_session_def InMemSessionStore_store_session_def)

definition saved_identity :: "InMemSignalProtocolStore \<Rightarrow> ProtocolAddress \<Rightarrow> IdentityKey \<Rightarrow> InMemSignalProtocolStore" where
  "saved_identity st a k = st\<lparr>identity_store := (identity_store st)\<lparr>imi_known_keys :=
     (imi_known_keys (identity_store st))(a \<mapsto> k)\<rparr>\<rparr>"

lemma saved_identity_simps [simp]:
  "session_store (saved_identity st a k) = session_store st" "pre_key_store (saved_identity st a k) = pre_key_store st"
  "signed_pre_key_store (saved_identity st a k) = signed_pre_key_store st"
  "kyber_pre_key_store (saved_identity st a k) = kyber_pre_key_store st"
  "imi_key_pair (identity_store (saved_identity st a k)) = imi_key_pair (identity_store st)"
  "imi_registration_id (identity_store (saved_identity st a k)) = imi_registration_id (identity_store st)"
  "imi_known_keys (identity_store (saved_identity st a k)) = (imi_known_keys (identity_store st))(a \<mapsto> k)"
  by (simp_all add: saved_identity_def)

lemma inmem_identities_simps [simp]:
  "get_identity_key_pair inmem_identities st = Inr (imi_key_pair (identity_store st))"
  "get_local_registration_id inmem_identities st = Inr (imi_registration_id (identity_store st))"
  "is_trusted_identity inmem_identities st a k d =
     Inr (imi_known_keys (identity_store st) a = None \<or> imi_known_keys (identity_store st) a = Some k)"
  "get_identity inmem_identities st a = Inr (imi_known_keys (identity_store st) a)"
  by (auto simp: inmem_identities_def InMemIdentityKeyStore_is_trusted_identity_def
      InMemIdentityKeyStore_get_identity_def split: option.splits)

lemma inmem_save_identity:
  obtains c where "save_identity inmem_identities st a k = (Inr c, saved_identity st a k)"
proof -
  have "(imi_known_keys (identity_store st))(a \<mapsto> k) = imi_known_keys (identity_store st)"
    if "imi_known_keys (identity_store st) a = Some k" using that by (simp add: map_upd_triv)
  then have "\<exists>c. save_identity inmem_identities st a k = (Inr c, saved_identity st a k)"
    by (auto simp: inmem_identities_def InMemIdentityKeyStore_save_identity_def saved_identity_def split: option.splits)
  then show ?thesis using that by blast
qed

lemma snd_save_identity [simp]: "snd (save_identity inmem_identities st a k) = saved_identity st a k"
  by (rule inmem_save_identity [of st a k]) simp

lemma inmem_pre_keys_simps [simp]:
  "get_pre_key inmem_pre_keys st i = ok_or InvalidPreKeyId (imp_pre_keys (pre_key_store st) i)"
  "remove_pre_key inmem_pre_keys st i =
     (Inr (), st\<lparr>pre_key_store := \<lparr>imp_pre_keys = (imp_pre_keys (pre_key_store st))(i := None)\<rparr>\<rparr>)"
  "get_signed_pre_key inmem_signed_pre_keys st i =
     ok_or InvalidSignedPreKeyId (ims_signed_pre_keys (signed_pre_key_store st) i)"
  "get_kyber_pre_key inmem_kyber_pre_keys st i =
     ok_or InvalidKyberPreKeyId (imq_kyber_pre_keys (kyber_pre_key_store st) i)"
  by (simp_all add: inmem_pre_keys_def InMemPreKeyStore_get_pre_key_def InMemPreKeyStore_remove_pre_key_def
      inmem_signed_pre_keys_def InMemSignedPreKeyStore_get_signed_pre_key_def inmem_kyber_pre_keys_def
      InMemKyberPreKeyStore_get_kyber_pre_key_def)

definition base_keys_seen :: "InMemSignalProtocolStore \<Rightarrow> KyberPreKeyId \<Rightarrow> SignedPreKeyId \<Rightarrow> PublicKey list" where
  "base_keys_seen st i j = (case imq_base_keys_seen (kyber_pre_key_store st) (i, j) of None \<Rightarrow> [] | Some l \<Rightarrow> l)"

definition marked_used :: "InMemSignalProtocolStore \<Rightarrow> KyberPreKeyId \<Rightarrow> SignedPreKeyId \<Rightarrow> PublicKey \<Rightarrow> InMemSignalProtocolStore" where
  "marked_used st i j b = st\<lparr>kyber_pre_key_store := (kyber_pre_key_store st)\<lparr>imq_base_keys_seen :=
     (imq_base_keys_seen (kyber_pre_key_store st))((i, j) \<mapsto> base_keys_seen st i j @ [b])\<rparr>\<rparr>"

lemma marked_used_simps [simp]:
  "session_store (marked_used st i j b) = session_store st" "pre_key_store (marked_used st i j b) = pre_key_store st"
  "signed_pre_key_store (marked_used st i j b) = signed_pre_key_store st"
  "identity_store (marked_used st i j b) = identity_store st"
  "imq_kyber_pre_keys (kyber_pre_key_store (marked_used st i j b)) = imq_kyber_pre_keys (kyber_pre_key_store st)"
  "base_keys_seen (marked_used st i j b) i j = base_keys_seen st i j @ [b]"
  by (simp_all add: marked_used_def base_keys_seen_def)

lemma inmem_mark_used:
  "mark_kyber_pre_key_used inmem_kyber_pre_keys st i j b =
     (if b \<in> set (base_keys_seen st i j) then (Inl (Err (InvalidMessage PreKeyType ''reused base key'')), st)
      else (Inr (), marked_used st i j b))"
  by (auto simp: inmem_kyber_pre_keys_def InMemKyberPreKeyStore_mark_kyber_pre_key_used_def base_keys_seen_def
      marked_used_def Let_def map_upd_triv split: option.splits)

interpretation imps: protocol_stores inmem_sessions inmem_identities inmem_pre_keys inmem_kyber_pre_keys
proof unfold_locales
  fix st a k
  show "\<exists>c. fst (save_identity inmem_identities st a k) = Inr c" by (rule inmem_save_identity [of st a k]) simp
qed (simp_all add: inmem_mark_used split: if_splits)

interpretation imks: reliable_sender_key_store inmem_sender_keys
  by unfold_locales (auto simp: inmem_sender_keys_def InMemSenderKeyStore_store_sender_key_def
      InMemSenderKeyStore_load_sender_key_def)

lemma load_existing_sessions_iff:
  "InMemSessionStore_load_existing_sessions s as = Inr rs \<longleftrightarrow> map (imss_sessions s) as = map Some rs"
  by (induction as arbitrary: rs) (auto simp: res_simps Cons_eq_map_conv)

section \<open>Trust on first use\<close>

text \<open>The operations that change an identity store, in any order from a new store.\<close>

datatype identity_operation = SaveIdentity ProtocolAddress IdentityKey | ResetIdentities

fun identity_step :: "InMemIdentityKeyStore \<Rightarrow> identity_operation \<Rightarrow> InMemIdentityKeyStore" where
  "identity_step s (SaveIdentity a k) = snd (InMemIdentityKeyStore_save_identity s a k)"
| "identity_step s ResetIdentities = InMemIdentityKeyStore_reset s"

text \<open>What the history says of an address, the latest operation first: the key that was saved last for it
  since the last reset.\<close>

fun last_saved :: "ProtocolAddress \<Rightarrow> identity_operation list \<Rightarrow> IdentityKey option" where
  "last_saved a [] = None"
| "last_saved a (SaveIdentity b k # ops) = (if a = b then Some k else last_saved a ops)"
| "last_saved a (ResetIdentities # ops) = None"

lemma save_identity_known_keys:
  "imi_known_keys (snd (InMemIdentityKeyStore_save_identity s a k)) = (imi_known_keys s)(a \<mapsto> k)"
  "imi_key_pair (snd (InMemIdentityKeyStore_save_identity s a k)) = imi_key_pair s"
  "imi_registration_id (snd (InMemIdentityKeyStore_save_identity s a k)) = imi_registration_id s"
  by (auto simp: InMemIdentityKeyStore_save_identity_def map_upd_triv split: option.splits)

lemma identity_history:
  "imi_known_keys (foldl identity_step (InMemIdentityKeyStore_new kp i) ops) = (\<lambda>a. last_saved a (rev ops)) \<and>
   imi_key_pair (foldl identity_step (InMemIdentityKeyStore_new kp i) ops) = kp \<and>
   imi_registration_id (foldl identity_step (InMemIdentityKeyStore_new kp i) ops) = i"
proof (induction ops rule: rev_induct)
  case Nil
  then show ?case by (simp add: InMemIdentityKeyStore_new_def)
next
  case (snoc op ops)
  then show ?case by (cases op) (auto simp: save_identity_known_keys InMemIdentityKeyStore_reset_def)
qed

text \<open>C30: trust on first use. After any sequence of saves and resets of a new in-memory identity store, and for
  every address and both directions: if no key was saved for the address since the last reset, every key is trusted
  and none is known; otherwise exactly the key saved last for this address is trusted and known, whatever was saved
  for other addresses. Saving then reports a replacement exactly when another key was known; the own key pair and
  registration id never change.\<close>

theorem trust_on_first_use:
  "let s = foldl identity_step (InMemIdentityKeyStore_new kp i) ops; known = last_saved a (rev ops)
   in InMemIdentityKeyStore_get_identity s a = Inr known \<and>
      InMemIdentityKeyStore_is_trusted_identity s a k d = Inr (known = None \<or> known = Some k) \<and>
      fst (InMemIdentityKeyStore_save_identity s a k) =
        Inr (IdentityChange_from_changed (known \<noteq> None \<and> known \<noteq> Some k)) \<and>
      imi_key_pair s = kp \<and> imi_registration_id s = i"
  using identity_history [of kp i ops]
  by (auto simp: Let_def InMemIdentityKeyStore_is_trusted_identity_def InMemIdentityKeyStore_save_identity_def
      InMemIdentityKeyStore_get_identity_def IdentityChange_from_changed_def split: option.splits)

end
