(* ===== verification/Session_Builder.thy ===== *)
theory Session_Builder
  imports Stores
begin

text \<open>
  \<open>rust/protocol/src/session.rs\<close>: making sessions, from a received pre-key message and from a downloaded
  pre-key bundle. A function that has \<open>&mut SessionRecord\<close> returns the record as it leaves it, also with an
  error.
\<close>

record PreKeysUsed =
  pku_one_time_ec_pre_key_id :: "PreKeyId option"
  pku_signed_ec_pre_key_id :: SignedPreKeyId
  pku_kyber_pre_key_id :: "KyberPreKeyId option"

record IdentityToSave =
  its_remote_address :: ProtocolAddress
  its_their_identity_key :: IdentityKey

section \<open>\<open>process_prekey\<close>\<close>

text \<open>The end of \<open>process_prekey_impl\<close>, for a message that matches no session: the key pairs the message
  names, and the new session.\<close>

definition recipient_parameters ::
    "'r Ext \<Rightarrow> 's SignedPreKeyStore \<Rightarrow> 's KyberPreKeyStore \<Rightarrow> 's PreKeyStore \<Rightarrow> 's IdentityKeyStore \<Rightarrow> 's \<Rightarrow>
     PreKeySignalMessage \<Rightarrow> ProtocolAddress \<Rightarrow> ProtocolAddress \<Rightarrow> RecipientParameters signal_result" where
  "recipient_parameters E SP KS PS IS st message remote_address local_address =
     try_bind (get_signed_pre_key SP st (pk_signed_pre_key_id message)) (\<lambda>signed_record.
     try_bind (GenericSignedPreKey_key_pair (KeyPair_serde E) signed_record) (\<lambda>our_signed_pre_key_pair.
     try_bind (case map_option kyp_pre_key_id (pk_kyber_payload message) of
         Some kyber_pre_key_id \<Rightarrow> try_bind (get_kyber_pre_key KS st kyber_pre_key_id)
           (GenericSignedPreKey_key_pair (KemKeyPair_serde E))
       | None \<Rightarrow> Inl (Err (InvalidMessage PreKeyType ''missing pq pre-key ID''))) (\<lambda>our_kyber_pre_key_pair.
     try_bind (ok_or (InvalidMessage PreKeyType ''missing pq ciphertext'')
         (map_option kyp_ciphertext (pk_kyber_payload message))) (\<lambda>kyber_ciphertext.
     try_bind (case pk_pre_key_id message of
         Some pre_key_id \<Rightarrow> try_bind (get_pre_key PS st pre_key_id) (\<lambda>r.
           try_bind (PreKeyRecord_key_pair E r) (\<lambda>k. Inr (Some k)))
       | None \<Rightarrow> Inr None) (\<lambda>our_one_time_pre_key_pair.
     try_bind (get_identity_key_pair IS st) (\<lambda>our_identity_key_pair.
     Inr \<lparr>rp_our_identity_key_pair = our_identity_key_pair, rp_our_signed_pre_key_pair = our_signed_pre_key_pair,
          rp_our_one_time_pre_key_pair = our_one_time_pre_key_pair,
          rp_our_kyber_pre_key_pair = our_kyber_pre_key_pair, rp_their_identity_key = pk_identity_key message,
          rp_their_ephemeral_key = pk_base_key message, rp_their_kyber_ciphertext = kyber_ciphertext,
          rp_self_session = IdentityKey_is_same_account E (ikp_identity_key our_identity_key_pair) local_address
            (pk_identity_key message) remote_address\<rparr>))))))"

definition new_recipient_session ::
    "'r Ext \<Rightarrow> 's SignedPreKeyStore \<Rightarrow> 's KyberPreKeyStore \<Rightarrow> 's PreKeyStore \<Rightarrow> 's IdentityKeyStore \<Rightarrow> 's \<Rightarrow>
     PreKeySignalMessage \<Rightarrow> ProtocolAddress \<Rightarrow> ProtocolAddress \<Rightarrow> SessionState signal_result" where
  "new_recipient_session E SP KS PS IS st message remote_address local_address =
     try_bind (recipient_parameters E SP KS PS IS st message remote_address local_address) (\<lambda>parameters.
     try_bind (initialize_bob_session E parameters (rp_our_signed_pre_key_pair parameters)) (\<lambda>new_session.
     try_bind (get_local_registration_id IS st) (\<lambda>registration_id.
     Inr (new_session\<lparr>ss_local_registration_id := registration_id,
                      ss_remote_registration_id := pk_registration_id message\<rparr>))))"

definition process_prekey_impl ::
    "'r Ext \<Rightarrow> 's SignedPreKeyStore \<Rightarrow> 's KyberPreKeyStore \<Rightarrow> 's PreKeyStore \<Rightarrow> 's IdentityKeyStore \<Rightarrow> 's \<Rightarrow>
     PreKeySignalMessage \<Rightarrow> ProtocolAddress \<Rightarrow> ProtocolAddress \<Rightarrow> SessionRecord \<Rightarrow>
     PreKeysUsed option signal_result \<times> SessionRecord" where
  "process_prekey_impl E SP KS PS IS st message remote_address local_address session_record =
     (case SessionRecord_promote_matching_session E session_record (ucast (pk_message_version message))
             (PublicKey_serialize (pk_base_key message)) of
        (Inl e, record1) \<Rightarrow> (session_err (Inl e), record1)
      | (Inr True, record1) \<Rightarrow>
         (try_bind (expect ''just promoted a session'' (sr_current_session record1)) (\<lambda>session_state.
          try_bind (session_err (SessionState_remote_identity_key session_state)) (\<lambda>stored.
          if \<not> (case stored of None \<Rightarrow> False | Some k \<Rightarrow> pk_identity_key message = k)
          then Inl (Err (InvalidMessage PreKeyType
                 ''remote identity key not consistent with previously-established session''))
          else Inr None)), record1)
      | (Inr False, record1) \<Rightarrow>
         if pk_message_version message = CIPHERTEXT_MESSAGE_PRE_KYBER_VERSION
         then (Inl (Err (InvalidMessage PreKeyType ''X3DH no longer supported'')), record1)
         else (case new_recipient_session E SP KS PS IS st message remote_address local_address of
             Inl e \<Rightarrow> (Inl e, record1)
           | Inr new_session \<Rightarrow>
              (Inr (Some \<lparr>pku_one_time_ec_pre_key_id = pk_pre_key_id message,
                          pku_signed_ec_pre_key_id = pk_signed_pre_key_id message,
                          pku_kyber_pre_key_id = map_option kyp_pre_key_id (pk_kyber_payload message)\<rparr>),
               SessionRecord_promote_state E record1 new_session)))"

definition process_prekey ::
    "'r Ext \<Rightarrow> 's IdentityKeyStore \<Rightarrow> 's PreKeyStore \<Rightarrow> 's SignedPreKeyStore \<Rightarrow> 's KyberPreKeyStore \<Rightarrow> 's \<Rightarrow>
     PreKeySignalMessage \<Rightarrow> ProtocolAddress \<Rightarrow> ProtocolAddress \<Rightarrow> SessionRecord \<Rightarrow>
     (PreKeysUsed option \<times> IdentityToSave) signal_result \<times> SessionRecord" where
  "process_prekey E IS PS SP KS st message remote_address local_address session_record =
     (let their_identity_key = pk_identity_key message
      in case is_trusted_identity IS st remote_address their_identity_key Receiving of
           Inl e \<Rightarrow> (Inl e, session_record)
         | Inr trusted \<Rightarrow>
            if \<not> trusted then (Inl (Err (UntrustedIdentity remote_address)), session_record)
            else let (pre_keys_used, record1) =
                       process_prekey_impl E SP KS PS IS st message remote_address local_address session_record
                 in (try_bind pre_keys_used (\<lambda>used. Inr (used,
                       \<lparr>its_remote_address = remote_address, its_their_identity_key = their_identity_key\<rparr>)), record1))"

section \<open>\<open>process_prekey_bundle\<close>\<close>

text \<open>The parameters of the initiator and the session made from them, before anything is stored.\<close>

definition initiator_parameters ::
    "'r Ext \<Rightarrow> IdentityKeyPair \<Rightarrow> KeyPair \<Rightarrow> PreKeyBundle \<Rightarrow> ProtocolAddress \<Rightarrow> ProtocolAddress \<Rightarrow> InitiatorParameters" where
  "initiator_parameters E our_identity_key_pair our_base_key_pair bundle remote_address local_address =
     (let parameters = InitiatorParameters_new our_identity_key_pair our_base_key_pair (pkb_identity_key bundle)
            (spb_public_key (pkb_ec_signed_pre_key bundle)) (spb_public_key (pkb_ec_signed_pre_key bundle))
            (kpb_public_key (pkb_kyber_pre_key bundle))
            (IdentityKey_is_same_account E (ikp_identity_key our_identity_key_pair) local_address
               (pkb_identity_key bundle) remote_address)
      in case pkb_pre_key_public bundle of
           Some key \<Rightarrow> InitiatorParameters_set_their_one_time_pre_key parameters key
         | None \<Rightarrow> parameters)"

definition new_initiator_session ::
    "'r Ext \<Rightarrow> 's IdentityKeyStore \<Rightarrow> 's \<Rightarrow> PreKeyBundle \<Rightarrow> ProtocolAddress \<Rightarrow> ProtocolAddress \<Rightarrow> SystemTime \<Rightarrow> 'r \<Rightarrow>
     SessionState signal_result \<times> 'r" where
  "new_initiator_session E IS st bundle remote_address local_address now rng =
     (let (our_base_key_pair, rng1) = KeyPair_generate E rng
      in case get_identity_key_pair IS st of
           Inl e \<Rightarrow> (Inl e, rng1)
         | Inr our_identity_key_pair \<Rightarrow>
            let (session, rng2) = initialize_alice_session E (initiator_parameters E our_identity_key_pair
                  our_base_key_pair bundle remote_address local_address) rng1
            in (try_bind session (\<lambda>session.
                let session = SessionState_set_unacknowledged_pre_key_message session (pkb_pre_key_id bundle)
                      (spb_id (pkb_ec_signed_pre_key bundle)) (kp_public_key our_base_key_pair) now
                in try_bind (SessionState_set_unacknowledged_kyber_pre_key_id session
                     (kpb_id (pkb_kyber_pre_key bundle))) (\<lambda>session.
                   try_bind (get_local_registration_id IS st) (\<lambda>registration_id.
                   Inr (session\<lparr>ss_local_registration_id := registration_id,
                                ss_remote_registration_id := pkb_registration_id bundle\<rparr>)))), rng2))"

definition bundle_signatures_valid :: "'r Ext \<Rightarrow> PreKeyBundle \<Rightarrow> bool" where
  "bundle_signatures_valid E bundle \<longleftrightarrow>
     PublicKey_verify_signature E (identity_public_key (pkb_identity_key bundle))
       (PublicKey_serialize (spb_public_key (pkb_ec_signed_pre_key bundle)))
       (spb_signature (pkb_ec_signed_pre_key bundle)) \<and>
     PublicKey_verify_signature E (identity_public_key (pkb_identity_key bundle))
       (KemKey_serialize (kpb_public_key (pkb_kyber_pre_key bundle))) (kpb_signature (pkb_kyber_pre_key bundle))"

definition process_prekey_bundle ::
    "'r Ext \<Rightarrow> 's SessionStore \<Rightarrow> 's IdentityKeyStore \<Rightarrow> 's \<Rightarrow> ProtocolAddress \<Rightarrow> ProtocolAddress \<Rightarrow> PreKeyBundle \<Rightarrow>
     SystemTime \<Rightarrow> 'r \<Rightarrow> unit signal_result \<times> 's \<times> 'r" where
  "process_prekey_bundle E SS IS st remote_address local_address bundle now rng =
     (let their_identity_key = pkb_identity_key bundle
      in case is_trusted_identity IS st remote_address their_identity_key Sending of
           Inl e \<Rightarrow> (Inl e, st, rng)
         | Inr trusted \<Rightarrow>
            if \<not> trusted then (Inl (Err (UntrustedIdentity remote_address)), st, rng)
            else if \<not> bundle_signatures_valid E bundle then (Inl (Err SignatureValidationFailed), st, rng)
            else case load_session SS st remote_address of
              Inl e \<Rightarrow> (Inl e, st, rng)
            | Inr loaded \<Rightarrow>
               let session_record = (case loaded of None \<Rightarrow> SessionRecord_new_fresh | Some r \<Rightarrow> r);
                   (session, rng1) = new_initiator_session E IS st bundle remote_address local_address now rng
               in case session of
                    Inl e \<Rightarrow> (Inl e, st, rng1)
                  | Inr session \<Rightarrow>
                     (case save_identity IS st remote_address their_identity_key of
                        (Inl e, st1) \<Rightarrow> (Inl e, st1, rng1)
                      | (Inr _, st1) \<Rightarrow>
                         let (r, st2) = store_session SS st1 remote_address
                               (SessionRecord_promote_state E session_record session)
                         in (r, st2, rng1)))"

section \<open>Bundles over the contract\<close>

abbreviation record_or_fresh :: "SessionRecord option \<Rightarrow> SessionRecord" where
  "record_or_fresh loaded \<equiv> (case loaded of None \<Rightarrow> SessionRecord_new_fresh | Some r \<Rightarrow> r)"

context messaging_stores
begin

lemma save_identity_eq:
  obtains c st1 where "save_identity IS st a k = (Inr c, st1)" "snd (save_identity IS st a k) = st1"
  using save_ok [of st a k] by (cases "save_identity IS st a k") auto

lemma store_session_eq:
  obtains st1 where "store_session SS st a r = (Inr (), st1)" "snd (store_session SS st a r) = st1"
  using store_ok [of st a r] by (cases "store_session SS st a r") auto

lemma process_prekey_bundle_cases:
  assumes p: "process_prekey_bundle E SS IS st ra la b now rng = (res, st', rng')"
  obtains (failed) f where "res = Inl f" "st' = st"
  | (stored) loaded s where "res = Inr ()" "is_trusted_identity IS st ra (pkb_identity_key b) Sending = Inr True"
      "bundle_signatures_valid E b" "load_session SS st ra = Inr loaded"
      "new_initiator_session E IS st b ra la now rng = (Inr s, rng')"
      "st' = snd (store_session SS (snd (save_identity IS st ra (pkb_identity_key b))) ra
        (SessionRecord_promote_state E (record_or_fresh loaded) s))"
proof -
  obtain c st1 where sv: "save_identity IS st ra (pkb_identity_key b) = (Inr c, st1)"
    "snd (save_identity IS st ra (pkb_identity_key b)) = st1" by (rule save_identity_eq)
  obtain ns rng1 where ns: "new_initiator_session E IS st b ra la now rng = (ns, rng1)" by fastforce
  show ?thesis
  proof (cases "is_trusted_identity IS st ra (pkb_identity_key b) Sending = Inr True \<and> bundle_signatures_valid E b")
    case True
    show ?thesis
    proof (cases "load_session SS st ra")
      case (Inr loaded)
      show ?thesis
      proof (cases ns)
        case (Inr s)
        obtain st2 where "store_session SS st1 ra (SessionRecord_promote_state E (record_or_fresh loaded) s) = (Inr (), st2)"
          "snd (store_session SS st1 ra (SessionRecord_promote_state E (record_or_fresh loaded) s)) = st2"
          by (rule store_session_eq)
        with True \<open>load_session SS st ra = Inr loaded\<close> p ns sv Inr show ?thesis
          by (intro stored [of loaded s]) (simp_all add: process_prekey_bundle_def)
      qed (use True Inr p ns in \<open>auto simp: process_prekey_bundle_def intro: failed\<close>)
    qed (use True p in \<open>auto simp: process_prekey_bundle_def intro: failed\<close>)
  next
    case False
    with p show ?thesis
      by (auto simp: process_prekey_bundle_def Let_def intro: failed split: sum.splits if_splits)
  qed
qed

end

lemma initialize_alice_session_ciphertext:
  assumes "initialize_alice_session E p rng = (Inr s, rng')"
  shows "\<exists>ciphertext keys rng1. Pqxdh_initiate E p rng = (Inr (ciphertext, keys), rng1) \<and>
    map_option pkk_ciphertext (ss_pending_kyber_pre_key s) = Some ciphertext"
proof -
  from assms obtain ciphertext keys rng1 where p: "Pqxdh_initiate E p rng = (Inr (ciphertext, keys), rng1)"
    by (auto simp: initialize_alice_session_def split: prod.splits sum.splits)
  with assms show ?thesis
    by (cases "spqr_initial E (hk_pqr_key keys) A2B (ip_self_session p)")
       (auto simp: initialize_alice_session_def initialize_initiator_session_def SessionState_set_kyber_ciphertext_def
         Let_def res_simps split: prod.splits)
qed

text \<open>What waits to be sent with the first messages: the identifiers of the bundle, the base key that was drawn,
  and the ciphertext of the handshake with these keys.\<close>

lemma new_initiator_session_pending:
  assumes "new_initiator_session E IS st b ra la now rng = (Inr s, rng')"
    and "KeyPair_generate E rng = (base, rng1)"
  obtains identity ciphertext keys rng2 where "get_identity_key_pair IS st = Inr identity"
    "Pqxdh_initiate E (initiator_parameters E identity base b ra la) rng1 = (Inr (ciphertext, keys), rng2)"
    "ss_pending_pre_key s = Some \<lparr>ppk_pre_key_id = pkb_pre_key_id b,
      ppk_signed_pre_key_id = spb_id (pkb_ec_signed_pre_key b), ppk_base_key = PublicKey_serialize (kp_public_key base),
      ppk_timestamp = epoch_secs now\<rparr>"
    "ss_pending_kyber_pre_key s = Some \<lparr>pkk_pre_key_id = kpb_id (pkb_kyber_pre_key b), pkk_ciphertext = ciphertext\<rparr>"
    "get_local_registration_id IS st = Inr (ss_local_registration_id s)"
    "ss_remote_registration_id s = pkb_registration_id b"
proof -
  from assms obtain identity s0 where i: "get_identity_key_pair IS st = Inr identity"
    and s0: "initialize_alice_session E (initiator_parameters E identity base b ra la) rng1 = (Inr s0, rng')"
    and s: "\<exists>pending. ss_pending_kyber_pre_key s0 = Some pending \<and>
      ss_pending_kyber_pre_key s = Some (pending\<lparr>pkk_pre_key_id := kpb_id (pkb_kyber_pre_key b)\<rparr>)"
      "ss_pending_pre_key s = Some \<lparr>ppk_pre_key_id = pkb_pre_key_id b,
        ppk_signed_pre_key_id = spb_id (pkb_ec_signed_pre_key b), ppk_base_key = PublicKey_serialize (kp_public_key base),
        ppk_timestamp = epoch_secs now\<rparr>"
      "get_local_registration_id IS st = Inr (ss_local_registration_id s)"
      "ss_remote_registration_id s = pkb_registration_id b"
    by (auto simp: new_initiator_session_def Let_def SessionState_set_unacknowledged_pre_key_message_def
      SessionState_set_unacknowledged_kyber_pre_key_id_def res_simps split: prod.splits sum.splits)
  from initialize_alice_session_ciphertext [OF s0] obtain ciphertext keys rng2 where
    c: "Pqxdh_initiate E (initiator_parameters E identity base b ra la) rng1 = (Inr (ciphertext, keys), rng2)"
      "map_option pkk_ciphertext (ss_pending_kyber_pre_key s0) = Some ciphertext" by blast
  from s(1) c(2) have "ss_pending_kyber_pre_key s =
      Some \<lparr>pkk_pre_key_id = kpb_id (pkb_kyber_pre_key b), pkk_ciphertext = ciphertext\<rparr>" by auto
  with i c(1) s(2-4) that show ?thesis by blast
qed

text \<open>The archive of a record whose current session makes room for another one: the current session comes first,
  without its pending pre-keys, and the oldest of forty is dropped.\<close>

definition archive_after :: "'r Ext \<Rightarrow> SessionRecord \<Rightarrow> bytes list" where
  "archive_after E r = (case sr_current_session r of
     None \<Rightarrow> sr_previous_sessions r
   | Some s \<Rightarrow> x_encode_session E (SessionState_clear_unacknowledged_pre_key_message s) #
       (if length (sr_previous_sessions r) < 40 then sr_previous_sessions r else butlast (sr_previous_sessions r)))"

lemma promote_state_archive:
  "sr_current_session (SessionRecord_promote_state E r s) = Some s"
  "sr_previous_sessions (SessionRecord_promote_state E r s) = archive_after E r"
  by (simp_all add: SessionRecord_promote_state_def SessionRecord_archive_current_state_inner_def archive_after_def
      ARCHIVED_STATES_MAX_LENGTH_def split: option.splits)

text \<open>C29: processing a bundle. Either an error is returned and the store is as before, or the identity was
  trusted, both signatures of the bundle are valid, the identity is saved and the new session is the current session
  of the remote address. The session waits with everything the recipient needs: the identifiers of the three
  pre-keys of the bundle, the base key drawn first from the generator and the KEM ciphertext of the handshake made
  with that key. The session that was current is archived in front of the older ones, of which the oldest is dropped
  if there are forty. The sessions and identities of other addresses are untouched, as are the other stores.\<close>

theorem bundle_processing:
  assumes "process_prekey_bundle E inmem_sessions inmem_identities st ra la b now rng = (res, st', rng')"
    and "KeyPair_generate E rng = (base, rng1)"
  shows "case res of Inl _ \<Rightarrow> st' = st
    | Inr _ \<Rightarrow> imi_known_keys (identity_store st) ra \<in> {None, Some (pkb_identity_key b)} \<and> bundle_signatures_valid E b \<and>
        (\<exists>s r' ciphertext keys rng2.
          new_initiator_session E inmem_identities st b ra la now rng = (Inr s, rng') \<and>
          Pqxdh_initiate E (initiator_parameters E (imi_key_pair (identity_store st)) base b ra la) rng1 =
            (Inr (ciphertext, keys), rng2) \<and>
          ss_pending_pre_key s = Some \<lparr>ppk_pre_key_id = pkb_pre_key_id b,
            ppk_signed_pre_key_id = spb_id (pkb_ec_signed_pre_key b),
            ppk_base_key = PublicKey_serialize (kp_public_key base), ppk_timestamp = epoch_secs now\<rparr> \<and>
          ss_pending_kyber_pre_key s =
            Some \<lparr>pkk_pre_key_id = kpb_id (pkb_kyber_pre_key b), pkk_ciphertext = ciphertext\<rparr> \<and>
          ss_local_registration_id s = imi_registration_id (identity_store st) \<and>
          ss_remote_registration_id s = pkb_registration_id b \<and>
          sr_current_session r' = Some s \<and>
          sr_previous_sessions r' = archive_after E (record_or_fresh (imss_sessions (session_store st) ra)) \<and>
          st' = st\<lparr>identity_store := (identity_store st)\<lparr>imi_known_keys :=
                    (imi_known_keys (identity_store st))(ra \<mapsto> pkb_identity_key b)\<rparr>,
                  session_store := \<lparr>imss_sessions = (imss_sessions (session_store st))(ra \<mapsto> r')\<rparr>\<rparr>)"
proof (cases rule: imps.process_prekey_bundle_cases [OF assms(1)])
  case (1 f)
  then show ?thesis by simp
next
  case (2 loaded s)
  let ?r = "SessionRecord_promote_state E (record_or_fresh (imss_sessions (session_store st) ra)) s"
  obtain identity ciphertext keys rng2 where p: "get_identity_key_pair inmem_identities st = Inr identity"
    "Pqxdh_initiate E (initiator_parameters E identity base b ra la) rng1 = (Inr (ciphertext, keys), rng2)"
    "ss_pending_pre_key s = Some \<lparr>ppk_pre_key_id = pkb_pre_key_id b,
      ppk_signed_pre_key_id = spb_id (pkb_ec_signed_pre_key b), ppk_base_key = PublicKey_serialize (kp_public_key base),
      ppk_timestamp = epoch_secs now\<rparr>"
    "ss_pending_kyber_pre_key s = Some \<lparr>pkk_pre_key_id = kpb_id (pkb_kyber_pre_key b), pkk_ciphertext = ciphertext\<rparr>"
    "get_local_registration_id inmem_identities st = Inr (ss_local_registration_id s)"
    "ss_remote_registration_id s = pkb_registration_id b"
    by (rule new_initiator_session_pending [OF 2(5) assms(2)])
  have "st' = st\<lparr>identity_store := (identity_store st)\<lparr>imi_known_keys :=
                    (imi_known_keys (identity_store st))(ra \<mapsto> pkb_identity_key b)\<rparr>,
                  session_store := \<lparr>imss_sessions = (imss_sessions (session_store st))(ra \<mapsto> ?r)\<rparr>\<rparr>"
    using 2(4,6) by (simp add: saved_identity_def)
  moreover have "imi_known_keys (identity_store st) ra \<in> {None, Some (pkb_identity_key b)}" using 2(2) by simp
  ultimately show ?thesis
    unfolding 2(1) sum.case using 2(3,5) p
    by (intro conjI exI [of _ s] exI [of _ ?r] exI [of _ ciphertext] exI [of _ keys] exI [of _ rng2])
       (simp_all add: promote_state_archive)
qed

section \<open>A concrete bundle\<close>

definition sample_alice_address :: ProtocolAddress where
  "sample_alice_address = \<lparr>pa_name = ''alice'', pa_device_id = DeviceId 1\<rparr>"

definition sample_bob_address :: ProtocolAddress where
  "sample_bob_address = \<lparr>pa_name = ''bob'', pa_device_id = DeviceId 1\<rparr>"

definition sample_store :: "byte \<Rightarrow> InMemSignalProtocolStore" where
  "sample_store b = \<lparr>session_store = InMemSessionStore_new, pre_key_store = InMemPreKeyStore_new,
     signed_pre_key_store = InMemSignedPreKeyStore_new, kyber_pre_key_store = InMemKyberPreKeyStore_new,
     identity_store = InMemIdentityKeyStore_new (sample_identity b) 9, sender_key_store_part = InMemSenderKeyStore_new\<rparr>"

lemma sample_store_new: "InMemSignalProtocolStore_new (sample_identity b) 9 = Inr (sample_store b)"
  by (simp add: InMemSignalProtocolStore_new_def sample_store_def)

lemma sample_store_fields [simp]:
  "imss_sessions (session_store (sample_store b)) a = None"
  "imi_known_keys (identity_store (sample_store b)) a = None"
  "imi_key_pair (identity_store (sample_store b)) = sample_identity b"
  "imi_registration_id (identity_store (sample_store b)) = 9"
  by (simp_all add: sample_store_def InMemSessionStore_new_def InMemIdentityKeyStore_new_def)

definition sample_signature :: "byte \<Rightarrow> bytes \<Rightarrow> bytes" where
  "sample_signature b message = (case PrivateKey_calculate_signature concrete (kp_private_key (sample_key b)) message 0 of
     (Inr s, _) \<Rightarrow> s | _ \<Rightarrow> [])"

lemma sample_signature_valid:
  "PublicKey_verify_signature concrete (kp_public_key (sample_key b)) message (sample_signature b message)"
proof -
  obtain sig rng' where c: "PrivateKey_calculate_signature concrete (kp_private_key (sample_key b)) message 0 = (sig, rng')"
    by fastforce
  have "PrivateKey_public_key concrete (kp_private_key (sample_key b)) = Inr (kp_public_key (sample_key b))"
    using sample_key_ok [of b] by (simp add: key_pair_ok_def)
  from xeddsa_verifies [OF concrete_edwards_laws this, of "[message]" 0 sig rng'] c
  show ?thesis by (auto simp: PrivateKey_calculate_signature_def sample_signature_def PublicKey_verify_signature_def)
qed

definition sample_bundle :: PreKeyBundle where
  "sample_bundle = \<lparr>pkb_registration_id = 5, pkb_device_id = DeviceId 1, pkb_pre_key_id = Some 31,
     pkb_pre_key_public = Some (kp_public_key (sample_key 8)),
     pkb_ec_signed_pre_key = \<lparr>spb_id = 32, spb_public_key = kp_public_key (sample_key 2),
       spb_signature = sample_signature 4 (PublicKey_serialize (kp_public_key (sample_key 2)))\<rparr>,
     pkb_identity_key = ikp_identity_key (sample_identity 4),
     pkb_kyber_pre_key = \<lparr>kpb_id = 33, kpb_public_key = kem_public_key sample_kem,
       kpb_signature = sample_signature 4 (KemKey_serialize (kem_public_key sample_kem))\<rparr>\<rparr>"

lemma sample_bundle_valid: "bundle_signatures_valid concrete sample_bundle"
  by (simp add: bundle_signatures_valid_def sample_bundle_def sample_identity_def sample_signature_valid)

text \<open>From generator state 4 the base key is \<open>sample_key 5\<close>, so the handshake is the one of \<open>Pqxdh\<close>.\<close>

lemma not_same_account: "\<not> IdentityKey_is_same_account concrete (ikp_identity_key (sample_identity 3)) a
    (ikp_identity_key (sample_identity 4)) b"
  by (simp add: IdentityKey_is_same_account_def sample_identity_def) (simp add: sample_key_def)

lemma sample_initiator_parameters:
  "initiator_parameters concrete (sample_identity 3) (sample_key 5) sample_bundle sample_bob_address sample_alice_address =
     sample_initiator"
  by (simp add: initiator_parameters_def sample_bundle_def sample_initiator_def not_same_account)

lemma sample_new_session:
  obtains s c where "new_initiator_session concrete inmem_identities (sample_store 3) sample_bundle sample_bob_address
    sample_alice_address 0 4 = (Inr s, 7)"
    and "map ch_sender_ratchet_key (ss_receiver_chains s) = [PublicKey_serialize (kp_public_key (sample_key 2))]"
    and "ss_sender_chain s = Some c" "ch_sender_ratchet_key c = PublicKey_serialize (kp_public_key (sample_key 7))"
      "map_option ckp_index (ch_chain_key c) = Some 0" "ss_pq_ratchet_state s = [7]"
    and "map_option ppk_timestamp (ss_pending_pre_key s) = Some 0"
proof -
  obtain ss ct where k: "KemKey_encapsulate concrete (kem_public_key sample_kem) 5 = (Inr (ss, ct), 6)"
    by (simp add: KemKey_encapsulate_def kyber1024_encapsulate_def sample_kem_def concrete_def)
  obtain keys where i: "Pqxdh_initiate concrete sample_initiator 5 = (Inr (ct, keys), 6)"
    using k by (simp add: Pqxdh_initiate_def pqxdh_initiate_def initiator_dh_secrets_def sample_initiator_def
        InitiatorParameters_new_def sample_identity_def InitiatorParameters_set_their_one_time_pre_key_def sample_dh)
  obtain rk ck where c: "RootKey_create_chain concrete (hk_root_key keys) (kp_public_key (sample_key 2))
      (kp_private_key (sample_key 7)) = Inr (rk, ck)"
    by (rule sample_agreement [of 2 7]) simp_all
  have g: "KeyPair_generate concrete 4 = (sample_key 5, 5)" "KeyPair_generate concrete 6 = (sample_key 7, 7)"
    using sample_generate [of 4] sample_generate [of 6] by simp_all
  show ?thesis
    by (rule that) (simp add: new_initiator_session_def g sample_initiator_parameters initialize_alice_session_def i
        initialize_initiator_session_def c sample_spqr SessionState_set_unacknowledged_pre_key_message_def
        SessionState_set_unacknowledged_kyber_pre_key_id_def SessionState_set_kyber_ciphertext_def Let_def expect_def,
      simp_all add: session_setter_defs epoch_secs_def ChainKey_to_pb_def SenderChain_to_pb_def MAX_RECEIVER_CHAINS_def
        RootKey_create_chain_index [OF c], simp_all)
qed

lemma sample_bundle_run:
  obtains st' r s c where "process_prekey_bundle concrete inmem_sessions inmem_identities (sample_store 3) sample_bob_address
    sample_alice_address sample_bundle 0 4 = (Inr (), st', 7)"
    and "imss_sessions (session_store st') sample_bob_address = Some r" "sr_current_session r = Some s"
      "imi_known_keys (identity_store st') sample_bob_address = Some (pkb_identity_key sample_bundle)"
    and "map ch_sender_ratchet_key (ss_receiver_chains s) = [PublicKey_serialize (kp_public_key (sample_key 2))]"
    and "ss_sender_chain s = Some c" "ch_sender_ratchet_key c = PublicKey_serialize (kp_public_key (sample_key 7))"
      "map_option ckp_index (ch_chain_key c) = Some 0" "ss_pq_ratchet_state s = [7]"
    and "map_option ppk_timestamp (ss_pending_pre_key s) = Some 0"
proof -
  obtain s c where s: "new_initiator_session concrete inmem_identities (sample_store 3) sample_bundle sample_bob_address
    sample_alice_address 0 4 = (Inr s, 7)"
    and f: "map ch_sender_ratchet_key (ss_receiver_chains s) = [PublicKey_serialize (kp_public_key (sample_key 2))]"
      "ss_sender_chain s = Some c" "ch_sender_ratchet_key c = PublicKey_serialize (kp_public_key (sample_key 7))"
      "map_option ckp_index (ch_chain_key c) = Some 0" "ss_pq_ratchet_state s = [7]"
      "map_option ppk_timestamp (ss_pending_pre_key s) = Some 0" by (rule sample_new_session)
  obtain a where sv: "save_identity inmem_identities (sample_store 3) sample_bob_address (pkb_identity_key sample_bundle) =
    (Inr a, saved_identity (sample_store 3) sample_bob_address (pkb_identity_key sample_bundle))" by (rule inmem_save_identity)
  show ?thesis
    by (rule that [OF _ _ _ _ f, of _ "SessionRecord_promote_state concrete SessionRecord_new_fresh s"])
       (simp_all add: process_prekey_bundle_def sample_bundle_valid s sv, simp_all add: SessionRecord_promote_state_def)
qed

theorem bundle_processing_witness:
  "\<exists>st' r' s. process_prekey_bundle concrete inmem_sessions inmem_identities (sample_store 3) sample_bob_address
      sample_alice_address sample_bundle 0 4 = (Inr (), st', 7) \<and>
    imss_sessions (session_store st') sample_bob_address = Some r' \<and> sr_current_session r' = Some s \<and>
    sr_previous_sessions r' = [] \<and> map_option pkk_pre_key_id (ss_pending_kyber_pre_key s) = Some 33"
proof -
  obtain st' where r: "process_prekey_bundle concrete inmem_sessions inmem_identities (sample_store 3) sample_bob_address
    sample_alice_address sample_bundle 0 4 = (Inr (), st', 7)" by (rule sample_bundle_run)
  have g: "KeyPair_generate concrete 4 = (sample_key 5, 5)" using sample_generate [of 4] by simp
  from bundle_processing [OF r g] obtain s r' where
    "imss_sessions (session_store st') sample_bob_address = Some r'" "sr_current_session r' = Some s"
    "sr_previous_sessions r' = archive_after concrete SessionRecord_new_fresh"
    "map_option pkk_pre_key_id (ss_pending_kyber_pre_key s) = Some (kpb_id (pkb_kyber_pre_key sample_bundle))" by auto
  with r show ?thesis by (simp add: archive_after_def SessionRecord_new_fresh_def sample_bundle_def)
qed

end
