(* ===== verification/Session_Management.thy ===== *)
theory Session_Management
  imports Session_Builder
begin

text \<open>
  \<open>rust/protocol/src/session_management.rs\<close>: choosing the session to decrypt with, and the public functions
  that encrypt and decrypt with the stores. Log output is left out, and with it the error list that is only
  logged and what is evaluated only for the log, an \<open>expect\<close> on the ratchet key of a session included; the \<open>debug_assert\<close>s are not part of a release build.
\<close>

section \<open>Decrypting with one session\<close>

definition is_self_session :: "'r Ext \<Rightarrow> SessionState \<Rightarrow> ProtocolAddress \<Rightarrow> ProtocolAddress \<Rightarrow> bool" where
  "is_self_session E state remote_address local_address =
     (case try_bind (SessionState_local_identity_key state) (\<lambda>local_identity.
           try_bind (SessionState_remote_identity_key state) (\<lambda>remote.
           try_bind (ok_or (InvalidSessionError ''missing remote identity key'') remote) (\<lambda>remote_identity.
           Inr (IdentityKey_is_same_account E local_identity local_address remote_identity remote_address)))) of
        Inl _ \<Rightarrow> False | Inr b \<Rightarrow> b)"

definition try_decrypt_with_state ::
    "'r Ext \<Rightarrow> SessionState \<Rightarrow> ProtocolAddress \<Rightarrow> ProtocolAddress \<Rightarrow> SignalMessage \<Rightarrow> CiphertextMessageType \<Rightarrow> 'r \<Rightarrow>
     bytes signal_result \<times> SessionState \<times> 'r" where
  "try_decrypt_with_state E state remote_address local_address ciphertext original_message_type rng =
     (case TripleRatchet_from_session_state E state (is_self_session E state remote_address local_address) of
        (Inl e, state1) \<Rightarrow> (Inl e, state1, rng)
      | (Inr session, state1) \<Rightarrow>
         (case TripleRatchet_decrypt E session remote_address local_address ciphertext original_message_type rng of
            (Inl e, session1, rng1) \<Rightarrow> (Inl e, state1, rng1)
          | (Inr ptext, session1, rng1) \<Rightarrow>
             (Inr ptext, SessionState_clear_unacknowledged_pre_key_message
                (TripleRatchet_apply_to_session_state session1 state1), rng1)))"

section \<open>Choosing the session\<close>

text \<open>The attempt with the current session; \<open>None\<close> goes on to the previous ones.\<close>

definition try_decrypt_current ::
    "'r Ext \<Rightarrow> SessionRecord \<Rightarrow> ProtocolAddress \<Rightarrow> ProtocolAddress \<Rightarrow> SignalMessage \<Rightarrow> CiphertextMessageType \<Rightarrow> 'r \<Rightarrow>
     (bytes signal_result \<times> SessionRecord) option \<times> 'r" where
  "try_decrypt_current E record remote_address local_address ciphertext original_message_type rng =
     (case sr_current_session record of
        None \<Rightarrow> (None, rng)
      | Some current_state \<Rightarrow>
         (case SessionState_session_version current_state of
            Inl e \<Rightarrow> (Some (session_err (Inl e), record), rng)
          | Inr version \<Rightarrow>
             if version \<noteq> ucast (sm_message_version ciphertext) then (None, rng)
             else (case try_decrypt_with_state E current_state remote_address local_address ciphertext
                          original_message_type rng of
                 (Inr ptext, updated, rng1) \<Rightarrow> (Some (Inr ptext, SessionRecord_set_session_state record updated), rng1)
               | (Inl (Panic m), _, rng1) \<Rightarrow> (Some (Inl (Panic m), record), rng1)
               | (Inl (Err e), _, rng1) \<Rightarrow>
                  (case e of
                     DuplicatedMessage _ _ \<Rightarrow> (Some (Inl (Err e), record), rng1)
                   | _ \<Rightarrow> (case original_message_type of
                        PreKeyType \<Rightarrow> (Some (Inl (Err (InvalidMessage PreKeyType ''decryption failed'')), record), rng1)
                      | WhisperType \<Rightarrow> (None, rng1)
                      | _ \<Rightarrow> (Some (Inl (Panic ''should not be using Double Ratchet for these''), record), rng1))))))"

text \<open>The loop over the previous sessions: the plaintext, the index and the updated session.\<close>

fun try_decrypt_previous ::
    "'r Ext \<Rightarrow> ProtocolAddress \<Rightarrow> ProtocolAddress \<Rightarrow> SignalMessage \<Rightarrow> CiphertextMessageType \<Rightarrow> nat \<Rightarrow>
     SessionState session_result list \<Rightarrow> 'r \<Rightarrow> (bytes \<times> nat \<times> SessionState) option signal_result \<times> 'r" where
  "try_decrypt_previous E remote_address local_address ciphertext t idx [] rng = (Inr None, rng)"
| "try_decrypt_previous E remote_address local_address ciphertext t idx (previous # rest) rng =
     (case previous of
        Inl (Panic m) \<Rightarrow> (Inl (Panic m), rng)
      | Inl (Err _) \<Rightarrow> try_decrypt_previous E remote_address local_address ciphertext t (Suc idx) rest rng
      | Inr previous \<Rightarrow>
         (case SessionState_session_version previous of
            Inl e \<Rightarrow> (session_err (Inl e), rng)
          | Inr version \<Rightarrow>
             if version \<noteq> ucast (sm_message_version ciphertext)
             then try_decrypt_previous E remote_address local_address ciphertext t (Suc idx) rest rng
             else (case try_decrypt_with_state E previous remote_address local_address ciphertext t rng of
                 (Inr ptext, updated, rng1) \<Rightarrow> (Inr (Some (ptext, idx, updated)), rng1)
               | (Inl (Panic m), _, rng1) \<Rightarrow> (Inl (Panic m), rng1)
               | (Inl (Err e), _, rng1) \<Rightarrow>
                  (case e of
                     DuplicatedMessage _ _ \<Rightarrow> (Inl (Err e), rng1)
                   | _ \<Rightarrow> try_decrypt_previous E remote_address local_address ciphertext t (Suc idx) rest rng1))))"

definition try_decrypt_from_record ::
    "'r Ext \<Rightarrow> SessionRecord \<Rightarrow> ProtocolAddress \<Rightarrow> ProtocolAddress \<Rightarrow> SignalMessage \<Rightarrow> CiphertextMessageType \<Rightarrow> 'r \<Rightarrow>
     bytes signal_result \<times> SessionRecord \<times> 'r" where
  "try_decrypt_from_record E record remote_address local_address ciphertext original_message_type rng =
     (case try_decrypt_current E record remote_address local_address ciphertext original_message_type rng of
        (Some (r, record1), rng1) \<Rightarrow> (r, record1, rng1)
      | (None, rng1) \<Rightarrow>
         (case try_decrypt_previous E remote_address local_address ciphertext original_message_type 0
                 (SessionRecord_previous_session_states E record) rng1 of
            (Inl e, rng2) \<Rightarrow> (Inl e, record, rng2)
          | (Inr (Some (ptext, idx, updated)), rng2) \<Rightarrow>
             (Inr ptext, SessionRecord_promote_old_session E record idx updated, rng2)
          | (Inr None, rng2) \<Rightarrow>
             (Inl (Err (InvalidMessage original_message_type ''decryption failed'')), record, rng2)))"

section \<open>Encrypting\<close>

text \<open>The message of \<open>message_encrypt\<close>: wrapped with the pre-key material while the session is
  unacknowledged.\<close>

definition encrypt_for_session ::
    "'r Ext \<Rightarrow> bytes \<Rightarrow> ProtocolAddress \<Rightarrow> ProtocolAddress \<Rightarrow> SessionState \<Rightarrow> OutgoingTripleRatchet \<Rightarrow> SystemTime \<Rightarrow> 'r \<Rightarrow>
     CiphertextMessage signal_result \<times> OutgoingTripleRatchet \<times> 'r" where
  "encrypt_for_session E ptext remote_address local_address session_state session now rng =
     (case session_err (SessionState_unacknowledged_pre_key_message_items session_state) of
        Inl e \<Rightarrow> (Inl e, session, rng)
      | Inr (Some items) \<Rightarrow>
         (case SystemTime_add (una_timestamp items) MAX_UNACKNOWLEDGED_SESSION_AGE of
            Inl e \<Rightarrow> (Inl e, session, rng)
          | Inr expires \<Rightarrow>
             if expires < now
             then (Inl (Err (SessionNotFoundError (SessionNotFound_new remote_address ''message_encrypt''))), session, rng)
             else let kyber_payload = map_option (\<lambda>(i, ciphertext). \<lparr>kyp_pre_key_id = i, kyp_ciphertext = ciphertext\<rparr>)
                        (option_zip (una_kyber_pre_key_id items) (una_kyber_ciphertext items))
                  in case OutgoingTripleRatchet_encrypt E session ptext (Some local_address) remote_address rng of
                       (Inl e, session1, rng1) \<Rightarrow> (Inl e, session1, rng1)
                     | (Inr signal_message, session1, rng1) \<Rightarrow>
                        (try_bind (PreKeySignalMessage_new E (ot_session_version session1)
                            (ss_local_registration_id session_state) (una_pre_key_id items)
                            (una_signed_pre_key_id items) kyber_payload (una_base_key items)
                            (ot_local_identity_key session1) signal_message) (\<lambda>m. Inr (CPreKeySignalMessage m)),
                         session1, rng1))
      | Inr None \<Rightarrow>
         (case OutgoingTripleRatchet_encrypt E session ptext None remote_address rng of
            (Inl e, session1, rng1) \<Rightarrow> (Inl e, session1, rng1)
          | (Inr signal_message, session1, rng1) \<Rightarrow> (Inr (CSignalMessage signal_message), session1, rng1)))"

text \<open>\<open>message_encrypt\<close> up to the identity check, on the loaded record: the message, the identity to check
  and the record to store.\<close>

definition encrypt_with_record ::
    "'r Ext \<Rightarrow> bytes \<Rightarrow> ProtocolAddress \<Rightarrow> ProtocolAddress \<Rightarrow> SessionRecord \<Rightarrow> SystemTime \<Rightarrow> 'r \<Rightarrow>
     (CiphertextMessage \<times> IdentityKey \<times> SessionRecord) signal_result \<times> 'r" where
  "encrypt_with_record E ptext remote_address local_address session_record now rng =
     (case sr_current_session session_record of
        None \<Rightarrow> (Inl (Err (SessionNotFoundError (SessionNotFound_new remote_address ''message_encrypt''))), rng)
      | Some session_state \<Rightarrow>
         (case OutgoingTripleRatchet_from_session_state E session_state of
            (Inl e, state1) \<Rightarrow> (Inl e, rng)
          | (Inr session, state1) \<Rightarrow>
             (case try_bind (session_err (SessionState_remote_identity_key state1))
                     (expect ''session was valid; must have remote identity key'') of
                Inl e \<Rightarrow> (Inl e, rng)
              | Inr their_identity_key \<Rightarrow>
                 (case encrypt_for_session E ptext remote_address local_address state1 session now rng of
                    (Inl e, session1, rng1) \<Rightarrow> (Inl e, rng1)
                  | (Inr message, session1, rng1) \<Rightarrow>
                     (Inr (message, their_identity_key, session_record\<lparr>sr_current_session :=
                        Some (OutgoingTripleRatchet_apply_to_session_state session1 state1)\<rparr>), rng1)))))"

definition message_encrypt ::
    "'r Ext \<Rightarrow> 's SessionStore \<Rightarrow> 's IdentityKeyStore \<Rightarrow> bytes \<Rightarrow> ProtocolAddress \<Rightarrow> ProtocolAddress \<Rightarrow> 's \<Rightarrow>
     SystemTime \<Rightarrow> 'r \<Rightarrow> CiphertextMessage signal_result \<times> 's \<times> 'r" where
  "message_encrypt E SS IS ptext remote_address local_address st now rng =
     (case load_session SS st remote_address of
        Inl e \<Rightarrow> (Inl e, st, rng)
      | Inr None \<Rightarrow> (Inl (Err (SessionNotFoundError (SessionNotFound_new remote_address ''message_encrypt''))), st, rng)
      | Inr (Some session_record) \<Rightarrow>
         (case encrypt_with_record E ptext remote_address local_address session_record now rng of
            (Inl e, rng1) \<Rightarrow> (Inl e, st, rng1)
          | (Inr (message, their_identity_key, record1), rng1) \<Rightarrow>
             (case is_trusted_identity IS st remote_address their_identity_key Sending of
                Inl e \<Rightarrow> (Inl e, st, rng1)
              | Inr trusted \<Rightarrow>
                 if \<not> trusted then (Inl (Err (UntrustedIdentity remote_address)), st, rng1)
                 else (case save_identity IS st remote_address their_identity_key of
                     (Inl e, st1) \<Rightarrow> (Inl e, st1, rng1)
                   | (Inr _, st1) \<Rightarrow>
                      (case store_session SS st1 remote_address record1 of
                         (Inl e, st2) \<Rightarrow> (Inl e, st2, rng1)
                       | (Inr _, st2) \<Rightarrow> (Inr message, st2, rng1))))))"

section \<open>Decrypting\<close>

definition message_decrypt_signal ::
    "'r Ext \<Rightarrow> 's SessionStore \<Rightarrow> 's IdentityKeyStore \<Rightarrow> SignalMessage \<Rightarrow> ProtocolAddress \<Rightarrow> ProtocolAddress \<Rightarrow> 's \<Rightarrow> 'r \<Rightarrow>
     bytes signal_result \<times> 's \<times> 'r" where
  "message_decrypt_signal E SS IS ciphertext remote_address local_address st rng =
     (case load_session SS st remote_address of
        Inl e \<Rightarrow> (Inl e, st, rng)
      | Inr None \<Rightarrow>
         (Inl (Err (SessionNotFoundError (SessionNotFound_new remote_address ''message_decrypt_signal''))), st, rng)
      | Inr (Some session_record) \<Rightarrow>
         (case try_decrypt_from_record E session_record remote_address local_address ciphertext WhisperType rng of
            (Inl e, _, rng1) \<Rightarrow> (Inl e, st, rng1)
          | (Inr ptext, record1, rng1) \<Rightarrow>
             (case try_bind (expect ''successfully decrypted; must have a current state'' (sr_current_session record1))
                     (\<lambda>state. case SessionState_remote_identity_key state of
                        Inr (Some k) \<Rightarrow> Inr k
                      | _ \<Rightarrow> Inl (Panic ''successfully decrypted; must have a remote identity key'')) of
                Inl e \<Rightarrow> (Inl e, st, rng1)
              | Inr their_identity_key \<Rightarrow>
                 (case is_trusted_identity IS st remote_address their_identity_key Receiving of
                    Inl e \<Rightarrow> (Inl e, st, rng1)
                  | Inr trusted \<Rightarrow>
                     if \<not> trusted then (Inl (Err (UntrustedIdentity remote_address)), st, rng1)
                     else (case save_identity IS st remote_address their_identity_key of
                         (Inl e, st1) \<Rightarrow> (Inl e, st1, rng1)
                       | (Inr _, st1) \<Rightarrow>
                          (case store_session SS st1 remote_address record1 of
                             (Inl e, st2) \<Rightarrow> (Inl e, st2, rng1)
                           | (Inr _, st2) \<Rightarrow> (Inr ptext, st2, rng1)))))))"

text \<open>What \<open>message_decrypt_prekey\<close> does with the pre-keys once the message is decrypted.\<close>

definition mark_pre_keys_used ::
    "'s PreKeyStore \<Rightarrow> 's KyberPreKeyStore \<Rightarrow> PreKeysUsed option \<Rightarrow> PublicKey \<Rightarrow> 's \<Rightarrow> unit signal_result \<times> 's" where
  "mark_pre_keys_used PS KS pre_key_used base_key st = (case pre_key_used of
     None \<Rightarrow> (Inr (), st)
   | Some used \<Rightarrow>
      (case (case pku_kyber_pre_key_id used of
               None \<Rightarrow> (Inr (), st)
             | Some kyber_pre_key_id \<Rightarrow>
                 mark_kyber_pre_key_used KS st kyber_pre_key_id (pku_signed_ec_pre_key_id used) base_key) of
         (Inl e, st1) \<Rightarrow> (Inl e, st1)
       | (Inr _, st1) \<Rightarrow>
          (case pku_one_time_ec_pre_key_id used of
             None \<Rightarrow> (Inr (), st1)
           | Some pre_key_id \<Rightarrow> remove_pre_key PS st1 pre_key_id)))"

definition message_decrypt_prekey ::
    "'r Ext \<Rightarrow> 's SessionStore \<Rightarrow> 's IdentityKeyStore \<Rightarrow> 's PreKeyStore \<Rightarrow> 's SignedPreKeyStore \<Rightarrow> 's KyberPreKeyStore \<Rightarrow>
     PreKeySignalMessage \<Rightarrow> ProtocolAddress \<Rightarrow> ProtocolAddress \<Rightarrow> 's \<Rightarrow> 'r \<Rightarrow> bytes signal_result \<times> 's \<times> 'r" where
  "message_decrypt_prekey E SS IS PS SP KS ciphertext remote_address local_address st rng =
     (case load_session SS st remote_address of
        Inl e \<Rightarrow> (Inl e, st, rng)
      | Inr loaded \<Rightarrow>
         (case process_prekey E IS PS SP KS st ciphertext remote_address local_address
                 (case loaded of None \<Rightarrow> SessionRecord_new_fresh | Some r \<Rightarrow> r) of
            (Inl e, _) \<Rightarrow> (Inl e, st, rng)
          | (Inr (pre_key_used, identity_to_save), record1) \<Rightarrow>
             (case try_decrypt_from_record E record1 remote_address local_address (pk_message ciphertext)
                     PreKeyType rng of
                (Inl e, _, rng1) \<Rightarrow> (Inl e, st, rng1)
              | (Inr ptext, record2, rng1) \<Rightarrow>
                 (case save_identity IS st (its_remote_address identity_to_save)
                         (its_their_identity_key identity_to_save) of
                    (Inl e, st1) \<Rightarrow> (Inl e, st1, rng1)
                  | (Inr _, st1) \<Rightarrow>
                     (case mark_pre_keys_used PS KS pre_key_used (pk_base_key ciphertext) st1 of
                        (Inl e, st2) \<Rightarrow> (Inl e, st2, rng1)
                      | (Inr _, st2) \<Rightarrow>
                         (case store_session SS st2 remote_address record2 of
                            (Inl e, st3) \<Rightarrow> (Inl e, st3, rng1)
                          | (Inr _, st3) \<Rightarrow> (Inr ptext, st3, rng1)))))))"

fun CiphertextMessageType_debug :: "CiphertextMessageType \<Rightarrow> string" where
  "CiphertextMessageType_debug WhisperType = ''Whisper''"
| "CiphertextMessageType_debug PreKeyType = ''PreKey''"
| "CiphertextMessageType_debug SenderKeyType = ''SenderKey''"
| "CiphertextMessageType_debug PlaintextType = ''Plaintext''"

definition message_decrypt ::
    "'r Ext \<Rightarrow> 's SessionStore \<Rightarrow> 's IdentityKeyStore \<Rightarrow> 's PreKeyStore \<Rightarrow> 's SignedPreKeyStore \<Rightarrow> 's KyberPreKeyStore \<Rightarrow>
     CiphertextMessage \<Rightarrow> ProtocolAddress \<Rightarrow> ProtocolAddress \<Rightarrow> 's \<Rightarrow> 'r \<Rightarrow> bytes signal_result \<times> 's \<times> 'r" where
  "message_decrypt E SS IS PS SP KS ciphertext remote_address local_address st rng = (case ciphertext of
     CSignalMessage m \<Rightarrow> message_decrypt_signal E SS IS m remote_address local_address st rng
   | CPreKeySignalMessage m \<Rightarrow> message_decrypt_prekey E SS IS PS SP KS m remote_address local_address st rng
   | _ \<Rightarrow> (Inl (Err (InvalidArgument (''message_decrypt cannot be used to decrypt '' @
            CiphertextMessageType_debug (CiphertextMessage_message_type ciphertext) @ '' messages''))), st, rng))"

section \<open>Which session decrypts\<close>

lemma session_version_total: obtains v where "SessionState_session_version s = Inr v"
  by (cases "ss_session_version s = 0") (simp_all add: SessionState_session_version_def)

lemma try_decrypt_previous_found:
  assumes "try_decrypt_previous E ra la m t i xs rng = (Inr (Some (pt, j, s')), rng')"
  shows "\<exists>s rng1. i \<le> j \<and> j < i + length xs \<and> xs ! (j - i) = Inr s \<and>
    SessionState_session_version s = Inr (ucast (sm_message_version m)) \<and>
    try_decrypt_with_state E s ra la m t rng1 = (Inr pt, s', rng')"
  using assms
proof (induction xs arbitrary: i rng)
  case (Cons x xs)
  have later: ?case if tail: "try_decrypt_previous E ra la m t (Suc i) xs rng2 = (Inr (Some (pt, j, s')), rng')" for rng2
  proof -
    obtain s rng1 where "Suc i \<le> j" "j < Suc i + length xs" "xs ! (j - Suc i) = Inr s"
      "SessionState_session_version s = Inr (ucast (sm_message_version m))"
      "try_decrypt_with_state E s ra la m t rng1 = (Inr pt, s', rng')" using Cons.IH [OF tail] by blast
    then show ?thesis by (intro exI [of _ s] exI [of _ rng1]) (auto simp: nth_Cons')
  qed
  show ?case
  proof (cases x)
    case (Inl f)
    then show ?thesis using Cons.prems later by (cases f) auto
  next
    case (Inr s)
    obtain res s1 rng1 where d: "try_decrypt_with_state E s ra la m t rng = (res, s1, rng1)" by (metis prod_cases3)
    obtain v where v: "SessionState_session_version s = Inr v" by (rule session_version_total)
    show ?thesis
    proof (cases "v = ucast (sm_message_version m)")
      case True
      show ?thesis
      proof (cases res)
        case (Inl f)
        then show ?thesis using Cons.prems later Inr d v True
          by (cases f) (auto split: SignalProtocolError.splits)
      next
        case (Inr p)
        with Cons.prems \<open>x = Inr s\<close> d v True show ?thesis by (intro exI [of _ s] exI [of _ rng]) auto
      qed
    qed (use Cons.prems later Inr v in auto)
  qed
qed simp

lemma try_decrypt_current_cases:
  assumes "try_decrypt_current E r ra la m t rng = (res, rng')"
  obtains (next_one) "res = None"
  | (failed) f where "res = Some (Inl f, r)"
  | (decrypted) s pt s' where "res = Some (Inr pt, SessionRecord_set_session_state r s')"
      "sr_current_session r = Some s" "SessionState_session_version s = Inr (ucast (sm_message_version m))"
      "try_decrypt_with_state E s ra la m t rng = (Inr pt, s', rng')"
proof (cases "sr_current_session r")
  case None
  then show ?thesis using assms by (intro next_one) (simp add: try_decrypt_current_def)
next
  case (Some s)
  obtain d s1 rng1 where d: "try_decrypt_with_state E s ra la m t rng = (d, s1, rng1)" by (metis prod_cases3)
  obtain v where v: "SessionState_session_version s = Inr v" by (rule session_version_total)
  show ?thesis
  proof (cases "v = ucast (sm_message_version m)")
    case True
    show ?thesis
    proof (cases d)
      case (Inl f)
      then show ?thesis using assms Some d v True next_one failed
        by (cases f) (auto simp: try_decrypt_current_def split: SignalProtocolError.splits CiphertextMessageType.splits)
    next
      case (Inr pt)
      with assms Some d v True show ?thesis by (intro decrypted [of pt s1 s]) (auto simp: try_decrypt_current_def)
    qed
  next
    case False
    with assms Some v show ?thesis by (intro next_one) (simp add: try_decrypt_current_def)
  qed
qed

lemma all_sessions_set_current:
  assumes "sr_current_session r = Some s"
  shows "all_sessions E (SessionRecord_set_session_state r s') + {#Some (SessionState_clear_unacknowledged_pre_key_message s)#} =
    all_sessions E r + {#Some (SessionState_clear_unacknowledged_pre_key_message s')#}"
  using assms by (simp add: all_sessions_def SessionRecord_set_session_state_def)

text \<open>C27: decrypting with a record. An error leaves the record as it was. A plaintext comes from one session of
  the record, current or archived, of the version of the message; the record afterwards holds the updated
  session in place of that one, as the current session, and every other session as before.\<close>

theorem decrypt_from_record_spec:
  assumes "prost_laws E" "record_ok r" "try_decrypt_from_record E r ra la m t rng = (res, r', rng')"
  shows "case res of Inl _ \<Rightarrow> r' = r
    | Inr pt \<Rightarrow> \<exists>s s' rng1. SessionState_session_version s = Inr (ucast (sm_message_version m)) \<and>
        try_decrypt_with_state E s ra la m t rng1 = (Inr pt, s', rng') \<and> sr_current_session r' = Some s' \<and>
        all_sessions E r' + {#Some (SessionState_clear_unacknowledged_pre_key_message s)#} =
          all_sessions E r + {#Some (SessionState_clear_unacknowledged_pre_key_message s')#} \<and> record_ok r'"
proof -
  obtain c rng1 where c: "try_decrypt_current E r ra la m t rng = (c, rng1)" by fastforce
  show ?thesis
  proof (cases rule: try_decrypt_current_cases [OF c])
    case 1
    obtain p rng2 where p: "try_decrypt_previous E ra la m t 0 (SessionRecord_previous_session_states E r) rng1 = (p, rng2)"
      by fastforce
    show ?thesis
    proof (cases "\<exists>pt j s'. p = Inr (Some (pt, j, s'))")
      case True
      then obtain pt j s' where pj: "p = Inr (Some (pt, j, s'))" by blast
      obtain s rng3 where s: "j < length (sr_previous_sessions r)" "x_decode_session E (sr_previous_sessions r ! j) = Some s"
        "SessionState_session_version s = Inr (ucast (sm_message_version m))"
        "try_decrypt_with_state E s ra la m t rng3 = (Inr pt, s', rng2)"
        using try_decrypt_previous_found [OF p [unfolded pj]]
        by (auto simp: SessionRecord_previous_session_states_def decode_previous_session_def)
      have "res = Inr pt" "r' = SessionRecord_promote_old_session E r j s'" "rng' = rng2"
        using assms(3) c 1 p pj by (simp_all add: try_decrypt_from_record_def)
      with s all_sessions_promote_updated [OF assms(1,2) s(1,2), of s'] promote_old_session_ok [OF assms(2) s(1)]
      show ?thesis by auto
    next
      case False
      with assms(3) c 1 p show ?thesis
        by (cases p) (auto simp: try_decrypt_from_record_def split: option.splits)
    qed
  next
    case (2 f)
    with assms(3) c have "res = Inl f" "r' = r" by (auto simp: try_decrypt_from_record_def)
    then show ?thesis by simp
  next
    case (3 s pt s')
    with assms(3) c have "res = Inr pt" "r' = SessionRecord_set_session_state r s'" "rng' = rng1"
      by (simp_all add: try_decrypt_from_record_def)
    with 3 all_sessions_set_current [OF 3(2)] assms(2) show ?thesis
      by (auto simp: SessionRecord_set_session_state_def record_ok_def intro!: exI)
  qed
qed

section \<open>The public functions over the contracts\<close>

lemma promoted_current:
  assumes "try_decrypt_from_record E r ra la m t rng = (Inr pt, r', rng')"
  shows "\<exists>s s' rng1. try_decrypt_with_state E s ra la m t rng1 = (Inr pt, s', rng') \<and> sr_current_session r' = Some s'"
proof -
  obtain c rng1 where c: "try_decrypt_current E r ra la m t rng = (c, rng1)" by fastforce
  show ?thesis
  proof (cases rule: try_decrypt_current_cases [OF c])
    case 1
    then obtain j s' where "try_decrypt_previous E ra la m t 0 (SessionRecord_previous_session_states E r) rng1 =
        (Inr (Some (pt, j, s')), rng')" and r': "r' = SessionRecord_promote_old_session E r j s'"
      using assms c by (auto simp: try_decrypt_from_record_def split: prod.splits sum.splits option.splits)
    from try_decrypt_previous_found [OF this(1)] r' show ?thesis by auto
  next
    case (2 f)
    with assms c show ?thesis by (simp add: try_decrypt_from_record_def)
  next
    case (3 s pt' s')
    with assms c have "pt' = pt" "sr_current_session r' = Some s'" "rng' = rng1"
      by (auto simp: try_decrypt_from_record_def SessionRecord_set_session_state_def)
    with 3(4) show ?thesis by blast
  qed
qed

text \<open>A session that decrypted has both identities, so the \<open>expect\<close>s of \<open>message_decrypt_signal\<close> hold.\<close>

lemma decrypted_identity:
  assumes "try_decrypt_with_state E s ra la m t rng = (Inr pt, s', rng')"
  shows "\<exists>k. SessionState_remote_identity_key s' = Inr (Some k) \<and> SessionState_remote_identity_key s = Inr (Some k)"
proof -
  obtain tr s1 where f: "TripleRatchet_from_session_state E s (is_self_session E s ra la) = (Inr tr, s1)"
    using assms by (auto simp: try_decrypt_with_state_def split: prod.splits sum.splits)
  obtain tr' where d: "s' = SessionState_clear_unacknowledged_pre_key_message (TripleRatchet_apply_to_session_state tr' s1)"
    using assms f by (auto simp: try_decrypt_with_state_def split: prod.splits sum.splits)
  have s1: "ss_remote_identity_public s1 = ss_remote_identity_public s"
    "\<exists>k. SessionState_remote_identity_key s1 = Inr (Some k)"
    using f by (auto simp: TripleRatchet_from_session_state_def SessionState_take_ratchet_state_def Let_def
        SessionState_take_pq_ratchet_state_def res_simps split: sum.splits prod.splits)
  have "ss_remote_identity_public s' = ss_remote_identity_public s1"
    by (simp add: d SessionState_clear_unacknowledged_pre_key_message_def TripleRatchet_apply_to_session_state_def
        SessionState_set_pq_ratchet_state_def SessionState_apply_ratchet_state_def RatchetState_apply_to_pb_def Let_def
        split: option.splits)
  with s1 show ?thesis by (auto simp: SessionState_remote_identity_key_def)
qed

context messaging_stores
begin

lemma message_decrypt_signal_cases:
  assumes d: "message_decrypt_signal E SS IS m ra la st rng = (res, st', rng')"
  obtains (failed) f where "res = Inl f" "st' = st"
  | (decrypted) r pt r' s k where "res = Inr pt" "load_session SS st ra = Inr (Some r)"
      "try_decrypt_from_record E r ra la m WhisperType rng = (Inr pt, r', rng')"
      "sr_current_session r' = Some s" "SessionState_remote_identity_key s = Inr (Some k)"
      "is_trusted_identity IS st ra k Receiving = Inr True"
      "st' = snd (store_session SS (snd (save_identity IS st ra k)) ra r')"
proof (cases "load_session SS st ra")
  case (Inr loaded)
  show ?thesis
  proof (cases loaded)
    case (Some r)
    obtain q r' rng1 where t: "try_decrypt_from_record E r ra la m WhisperType rng = (q, r', rng1)" by (metis prod_cases3)
    show ?thesis
    proof (cases q)
      case (Inl f)
      with d t Some \<open>load_session SS st ra = Inr loaded\<close> show ?thesis
        by (intro failed [of f]) (simp_all add: message_decrypt_signal_def)
    next
      case (Inr pt)
      obtain s k where s: "sr_current_session r' = Some s" "SessionState_remote_identity_key s = Inr (Some k)"
        using promoted_current [OF t [unfolded Inr]] decrypted_identity by metis
      obtain c st1 where sv: "save_identity IS st ra k = (Inr c, st1)" "snd (save_identity IS st ra k) = st1"
        by (rule save_identity_eq)
      obtain st2 where ss: "store_session SS st1 ra r' = (Inr (), st2)" "snd (store_session SS st1 ra r') = st2"
        by (rule store_session_eq)
      show ?thesis
      proof (cases "is_trusted_identity IS st ra k Receiving = Inr True")
        case True
        with d t Some \<open>load_session SS st ra = Inr loaded\<close> Inr s sv ss show ?thesis
          by (intro decrypted [of pt r r' s k]) (simp_all add: message_decrypt_signal_def)
      next
        case False
        with d t Some \<open>load_session SS st ra = Inr loaded\<close> Inr s show ?thesis
          by (auto simp: message_decrypt_signal_def intro: failed split: sum.splits if_splits)
      qed
    qed
  qed (use d Inr in \<open>auto simp: message_decrypt_signal_def intro: failed\<close>)
qed (use d in \<open>auto simp: message_decrypt_signal_def intro: failed\<close>)

lemma message_encrypt_cases:
  assumes d: "message_encrypt E SS IS pt ra la st now rng = (res, st', rng')"
  obtains (failed) f where "res = Inl f" "st' = st"
  | (encrypted) r m k r' where "res = Inr m" "load_session SS st ra = Inr (Some r)"
      "encrypt_with_record E pt ra la r now rng = (Inr (m, k, r'), rng')"
      "is_trusted_identity IS st ra k Sending = Inr True"
      "st' = snd (store_session SS (snd (save_identity IS st ra k)) ra r')"
proof (cases "load_session SS st ra")
  case (Inr loaded)
  show ?thesis
  proof (cases loaded)
    case (Some r)
    obtain q rng1 where t: "encrypt_with_record E pt ra la r now rng = (q, rng1)" by fastforce
    show ?thesis
    proof (cases q)
      case (Inl f)
      with d t Some \<open>load_session SS st ra = Inr loaded\<close> show ?thesis
        by (intro failed [of f]) (simp_all add: message_encrypt_def)
    next
      case (Inr p)
      obtain m k r' where p: "p = (m, k, r')" by (cases p)
      obtain c st1 where sv: "save_identity IS st ra k = (Inr c, st1)" "snd (save_identity IS st ra k) = st1"
        by (rule save_identity_eq)
      obtain st2 where ss: "store_session SS st1 ra r' = (Inr (), st2)" "snd (store_session SS st1 ra r') = st2"
        by (rule store_session_eq)
      show ?thesis
      proof (cases "is_trusted_identity IS st ra k Sending = Inr True")
        case True
        with d t Some \<open>load_session SS st ra = Inr loaded\<close> Inr p sv ss show ?thesis
          by (intro encrypted [of m r k r']) (simp_all add: message_encrypt_def)
      next
        case False
        with d t Some \<open>load_session SS st ra = Inr loaded\<close> Inr p show ?thesis
          by (auto simp: message_encrypt_def intro: failed split: sum.splits if_splits)
      qed
    qed
  qed (use d Inr in \<open>auto simp: message_encrypt_def intro: failed\<close>)
qed (use d in \<open>auto simp: message_encrypt_def intro: failed\<close>)

end

context protocol_stores
begin

lemma mark_pre_keys_used_effect:
  assumes m: "mark_pre_keys_used PS KS used b st = (res, st')"
  shows "load_session SS st' a = load_session SS st a" and "res = Inl f \<Longrightarrow> st' = st"
    and "res = Inr () \<Longrightarrow> get_pre_key PS st' i =
      (if Option.bind used pku_one_time_ec_pre_key_id = Some i then Inl (Err InvalidPreKeyId) else get_pre_key PS st i)"
proof -
  have "load_session SS st' a = load_session SS st a \<and> (res = Inl f \<longrightarrow> st' = st) \<and> (res = Inr () \<longrightarrow> get_pre_key PS st' i =
      (if Option.bind used pku_one_time_ec_pre_key_id = Some i then Inl (Err InvalidPreKeyId) else get_pre_key PS st i))"
  proof (cases used)
    case (Some u)
    define mk where "mk = (case pku_kyber_pre_key_id u of None \<Rightarrow> (Inr (), st)
      | Some kid \<Rightarrow> mark_kyber_pre_key_used KS st kid (pku_signed_ec_pre_key_id u) b)"
    have frame: "load_session SS (snd mk) a = load_session SS st a" "get_pre_key PS (snd mk) j = get_pre_key PS st j"
      "fst mk \<noteq> Inr () \<Longrightarrow> snd mk = st" for j
      by (auto simp: mk_def load_others pre_key_others mark_fails split: option.splits)
    have m': "(res, st') = (case mk of (Inl e, st1) \<Rightarrow> (Inl e, st1)
        | (Inr _, st1) \<Rightarrow> (case pku_one_time_ec_pre_key_id u of None \<Rightarrow> (Inr (), st1)
           | Some pre_key_id \<Rightarrow> remove_pre_key PS st1 pre_key_id))"
      using m Some by (simp add: mark_pre_keys_used_def mk_def)
    show ?thesis
    proof (cases "fst mk")
      case (Inl e)
      then have "res = Inl e" "st' = snd mk" using m' by (cases mk; simp)+
      with frame Inl show ?thesis by simp
    next
      case (Inr x)
      show ?thesis
      proof (cases "pku_one_time_ec_pre_key_id u")
        case None
        with m' Inr have "res = Inr ()" "st' = snd mk" by (cases mk; simp)+
        with frame None Some show ?thesis by simp
      next
        case (Some kid)
        with m' Inr have "(res, st') = remove_pre_key PS (snd mk) kid" by (cases mk; simp)
        then have "res = fst (remove_pre_key PS (snd mk) kid)" "st' = snd (remove_pre_key PS (snd mk) kid)"
          by (metis fst_conv, metis snd_conv)
        with frame Some \<open>used = Some u\<close> remove_ok show ?thesis
          by (simp add: load_others get_removed)
      qed
    qed
  qed (use m in \<open>simp add: mark_pre_keys_used_def\<close>)
  then show "load_session SS st' a = load_session SS st a" "res = Inl f \<Longrightarrow> st' = st"
    "res = Inr () \<Longrightarrow> get_pre_key PS st' i =
      (if Option.bind used pku_one_time_ec_pre_key_id = Some i then Inl (Err InvalidPreKeyId) else get_pre_key PS st i)"
    by blast+
qed

lemma process_prekey_identity:
  "process_prekey E IS PS SP KS st m ra la r = (Inr (used, its), r1) \<Longrightarrow>
   its = \<lparr>its_remote_address = ra, its_their_identity_key = pk_identity_key m\<rparr> \<and>
   is_trusted_identity IS st ra (pk_identity_key m) Receiving = Inr True"
  by (auto simp: process_prekey_def Let_def res_simps split: sum.splits if_splits prod.splits)

lemma message_decrypt_prekey_cases:
  assumes d: "message_decrypt_prekey E SS IS PS SP KS m ra la st rng = (res, st', rng')"
  obtains (failed) f where "res = Inl f" "st' = st"
  | (reused) f where "res = Inl f" "st' = snd (save_identity IS st ra (pk_identity_key m))"
      "is_trusted_identity IS st ra (pk_identity_key m) Receiving = Inr True"
  | (decrypted) loaded used its r1 pt r2 st2 where "res = Inr pt" "load_session SS st ra = Inr loaded"
      "process_prekey E IS PS SP KS st m ra la (record_or_fresh loaded) = (Inr (used, its), r1)"
      "try_decrypt_from_record E r1 ra la (pk_message m) PreKeyType rng = (Inr pt, r2, rng')"
      "is_trusted_identity IS st ra (pk_identity_key m) Receiving = Inr True"
      "mark_pre_keys_used PS KS used (pk_base_key m) (snd (save_identity IS st ra (pk_identity_key m))) = (Inr (), st2)"
      "st' = snd (store_session SS st2 ra r2)"
proof (cases "load_session SS st ra")
  case (Inr loaded)
  note ld = this
  obtain p r1 where p: "process_prekey E IS PS SP KS st m ra la (record_or_fresh loaded) = (p, r1)" by fastforce
  show ?thesis
  proof (cases p)
    case (Inl f)
    with d ld p show ?thesis by (intro failed [of f]) (simp_all add: message_decrypt_prekey_def)
  next
    case (Inr q)
    then obtain used its where q: "p = Inr (used, its)" by (cases q) auto
    note its = process_prekey_identity [OF p [unfolded q]]
    obtain t r2 rng1 where t: "try_decrypt_from_record E r1 ra la (pk_message m) PreKeyType rng = (t, r2, rng1)"
      by (metis prod_cases3)
    show ?thesis
    proof (cases t)
      case (Inl f)
      with d ld p q t show ?thesis by (intro failed [of f]) (simp_all add: message_decrypt_prekey_def)
    next
      case (Inr pt)
      obtain c st1 where sv: "save_identity IS st ra (pk_identity_key m) = (Inr c, st1)"
        "snd (save_identity IS st ra (pk_identity_key m)) = st1" by (rule save_identity_eq)
      obtain mr st2 where mk: "mark_pre_keys_used PS KS used (pk_base_key m) st1 = (mr, st2)" by fastforce
      obtain st3 where ss: "store_session SS st2 ra r2 = (Inr (), st3)" "snd (store_session SS st2 ra r2) = st3"
        by (rule store_session_eq)
      show ?thesis
      proof (cases mr)
        case (Inl f)
        with d ld p q t Inr sv mk its mark_pre_keys_used_effect(2) [OF mk Inl] \<open>t = Inr pt\<close> show ?thesis
          by (intro reused [of f]) (simp_all add: message_decrypt_prekey_def)
      next
        case (Inr x)
        with d ld p q t sv mk ss its \<open>t = Inr pt\<close> show ?thesis
          by (intro decrypted [of pt loaded used its r1 r2 st2]) (simp_all add: message_decrypt_prekey_def)
      qed
    qed
  qed
qed (use d in \<open>auto simp: message_decrypt_prekey_def intro: failed\<close>)

end

section \<open>Atomicity on the in-memory store\<close>

abbreviation inmem_encrypt where
  "inmem_encrypt E \<equiv> message_encrypt E inmem_sessions inmem_identities"

abbreviation inmem_decrypt_signal where
  "inmem_decrypt_signal E \<equiv> message_decrypt_signal E inmem_sessions inmem_identities"

abbreviation inmem_decrypt_prekey where
  "inmem_decrypt_prekey E \<equiv> message_decrypt_prekey E inmem_sessions inmem_identities inmem_pre_keys
     inmem_signed_pre_keys inmem_kyber_pre_keys"

abbreviation sessions :: "InMemSignalProtocolStore \<Rightarrow> ProtocolAddress \<rightharpoonup> SessionRecord" where
  "sessions st \<equiv> imss_sessions (session_store st)"

abbreviation known_keys :: "InMemSignalProtocolStore \<Rightarrow> ProtocolAddress \<rightharpoonup> IdentityKey" where
  "known_keys st \<equiv> imi_known_keys (identity_store st)"

abbreviation one_time_keys :: "InMemSignalProtocolStore \<Rightarrow> PreKeyId \<rightharpoonup> PreKeyRecord" where
  "one_time_keys st \<equiv> imp_pre_keys (pre_key_store st)"

text \<open>C26: decrypting a message is all or nothing. If \<open>message_decrypt_signal\<close> reports an error, the store is as
  it was. If it returns a plaintext, the record of the sender decrypted it, the remote identity of the
  session that did was trusted, and the store changes in two places only: that identity is saved and the
  updated record is stored for the sender.\<close>

theorem signal_decryption_atomic:
  assumes "inmem_decrypt_signal E m ra la st rng = (res, st', rng')"
  shows "case res of Inl _ \<Rightarrow> st' = st
    | Inr pt \<Rightarrow> \<exists>r r' s k. sessions st ra = Some r \<and>
        try_decrypt_from_record E r ra la m WhisperType rng = (Inr pt, r', rng') \<and>
        sr_current_session r' = Some s \<and> SessionState_remote_identity_key s = Inr (Some k) \<and>
        known_keys st ra \<in> {None, Some k} \<and>
        st' = (saved_identity st ra k)\<lparr>session_store := \<lparr>imss_sessions = (sessions st)(ra \<mapsto> r')\<rparr>\<rparr>"
proof (cases rule: imps.message_decrypt_signal_cases [OF assms])
  case (1 f)
  then show ?thesis by simp
next
  case (2 r pt r' s k)
  then show ?thesis by auto
qed

text \<open>C25: decrypting a pre-key message. If \<open>message_decrypt_prekey\<close> reports an error, sessions and pre-keys are as
  they were; at most the sender's identity, which was trusted, has been saved. If it returns a plaintext,
  the session record that \<open>process_prekey\<close> prepared decrypted it and is stored for the sender; the identity is
  saved; exactly the one-time pre-key that a new session used is gone, the sessions of all other addresses
  are untouched, and a base key that made a new session is remembered with the pre-keys it was used with.\<close>

theorem prekey_decryption_atomic:
  assumes "inmem_decrypt_prekey E m ra la st rng = (res, st', rng')"
  shows "case res of Inl _ \<Rightarrow> st' = st \<or> (st' = saved_identity st ra (pk_identity_key m) \<and>
        known_keys st ra \<in> {None, Some (pk_identity_key m)})
    | Inr pt \<Rightarrow> \<exists>used r1 r2. process_prekey E inmem_identities inmem_pre_keys inmem_signed_pre_keys inmem_kyber_pre_keys st
            m ra la (record_or_fresh (sessions st ra)) =
            (Inr (used, \<lparr>its_remote_address = ra, its_their_identity_key = pk_identity_key m\<rparr>), r1) \<and>
        try_decrypt_from_record E r1 ra la (pk_message m) PreKeyType rng = (Inr pt, r2, rng') \<and>
        known_keys st ra \<in> {None, Some (pk_identity_key m)} \<and> known_keys st' ra = Some (pk_identity_key m) \<and>
        sessions st' = (sessions st)(ra \<mapsto> r2) \<and>
        (\<forall>i. one_time_keys st' i = (if Option.bind used pku_one_time_ec_pre_key_id = Some i then None else one_time_keys st i)) \<and>
        (\<forall>u i. used = Some u \<longrightarrow> pku_kyber_pre_key_id u = Some i \<longrightarrow>
           pk_base_key m \<notin> set (base_keys_seen st i (pku_signed_ec_pre_key_id u)) \<and>
           pk_base_key m \<in> set (base_keys_seen st' i (pku_signed_ec_pre_key_id u)))"
proof (cases rule: imps.message_decrypt_prekey_cases [OF assms])
  case (1 f)
  then show ?thesis by simp
next
  case (2 f)
  then show ?thesis by auto
next
  case (3 loaded used its r1 pt r2 st2)
  let ?st1 = "saved_identity st ra (pk_identity_key m)"
  have mk: "mark_pre_keys_used inmem_pre_keys inmem_kyber_pre_keys used (pk_base_key m) ?st1 = (Inr (), st2)"
    using 3 by simp
  have its: "its = \<lparr>its_remote_address = ra, its_their_identity_key = pk_identity_key m\<rparr>"
    using imps.process_prekey_identity [OF 3(3)] by simp
  have seen: "base_keys_seen ?st1 i j = base_keys_seen st i j" for i j by (simp add: base_keys_seen_def)
  have eff: "session_store st2 = session_store st \<and> known_keys st2 ra = Some (pk_identity_key m) \<and>
      one_time_keys st2 i = (if Option.bind used pku_one_time_ec_pre_key_id = Some i then None else one_time_keys st i) \<and>
      (\<forall>u i. used = Some u \<longrightarrow> pku_kyber_pre_key_id u = Some i \<longrightarrow>
           pk_base_key m \<notin> set (base_keys_seen st i (pku_signed_ec_pre_key_id u)) \<and>
           pk_base_key m \<in> set (base_keys_seen st2 i (pku_signed_ec_pre_key_id u)))" for i
    using mk by (auto simp: mark_pre_keys_used_def inmem_mark_used seen base_keys_seen_def marked_used_def
        split: option.splits if_splits)
  have "base_keys_seen st' = base_keys_seen st2" "sessions st' = (sessions st2)(ra \<mapsto> r2)"
    "known_keys st' = known_keys st2" "one_time_keys st' = one_time_keys st2"
    using 3 by (auto simp: base_keys_seen_def fun_eq_iff)
  with eff 3 its show ?thesis by auto
qed

end
