(* ===== verification/Sessions_In_Step.thy ===== *)
theory Sessions_In_Step
  imports Session_Management
begin

text \<open>
  Two sessions, one on each side, that can talk to each other. \<open>session_holds\<close> relates a stored session to
  the ratchet state it holds, \<open>in_step\<close> says of two sessions that each can receive what the other sends
  next. What one session encrypts the other decrypts, and they stay in step (\<open>in_step_deliver\<close>); the
  sessions that the two sides of a handshake make hold the ratchet states of the handshake.
\<close>

section \<open>Sessions and the ratchet they store\<close>

definition session_holds :: "'r Ext \<Rightarrow> SessionState \<Rightarrow> RatchetState \<Rightarrow> IdentityKey \<Rightarrow> IdentityKey \<Rightarrow> bool" where
  "session_holds E s rs lid rid \<longleftrightarrow> SessionState_apply_ratchet_state s rs = s \<and> ratchet_ok E rs \<and>
     ss_session_version s = 4 \<and> ss_local_identity_public s = IdentityKey_serialize lid \<and>
     ss_remote_identity_public s = IdentityKey_serialize rid \<and>
     public_key_ok (identity_public_key lid) \<and> public_key_ok (identity_public_key rid)"

abbreviation jumps_for :: "bool \<Rightarrow> nat" where
  "jumps_for self_session \<equiv> (if self_session then usize_MAX else MAX_FORWARD_JUMPS)"

lemma apply_ratchet_state_iff:
  "SessionState_apply_ratchet_state s rs = s \<longleftrightarrow> ss_root_key s = root_key_bytes (rs_root_key rs) \<and>
     ss_previous_counter s = rs_previous_counter rs \<and> ss_sender_chain s = map_option SenderChain_to_pb (rs_sender_chain rs) \<and>
     ss_receiver_chains s = rs_receiver_chains rs"
  by (cases s) (auto simp: SessionState_apply_ratchet_state_def RatchetState_apply_to_pb_def)

lemma IdentityKey_serialize_not_empty [simp]: "IdentityKey_serialize k \<noteq> []"
  by (simp add: IdentityKey_serialize_def PublicKey_serialize_def)

lemma session_holds_identities:
  assumes "session_holds E s rs lid rid"
  shows "SessionState_local_identity_key s = Inr lid" "SessionState_remote_identity_key s = Inr (Some rid)"
    "SessionState_session_version s = Inr 4"
  using assms by (auto simp: session_holds_def SessionState_local_identity_key_def SessionState_remote_identity_key_def
      SessionState_session_version_def)

lemma identities_updates [simp]:
  "SessionState_local_identity_key (s\<lparr>ss_pq_ratchet_state := pq\<rparr>) = SessionState_local_identity_key s"
  "SessionState_remote_identity_key (s\<lparr>ss_pq_ratchet_state := pq\<rparr>) = SessionState_remote_identity_key s"
  "SessionState_session_version (s\<lparr>ss_pq_ratchet_state := pq\<rparr>) = SessionState_session_version s"
  "SessionState_local_identity_key (s\<lparr>ss_receiver_chains := cs\<rparr>) = SessionState_local_identity_key s"
  "SessionState_remote_identity_key (s\<lparr>ss_receiver_chains := cs\<rparr>) = SessionState_remote_identity_key s"
  by (simp_all add: SessionState_local_identity_key_def SessionState_remote_identity_key_def SessionState_session_version_def)

lemma session_holds_self:
  assumes "session_holds E s rs lid rid"
  shows "is_self_session E s ra la = IdentityKey_is_same_account E lid la rid ra"
  using session_holds_identities [OF assms] by (simp add: is_self_session_def)

lemma session_holds_frame:
  assumes "session_holds E s rs lid rid"
    and "ss_session_version s' = ss_session_version s" "ss_local_identity_public s' = ss_local_identity_public s"
    "ss_remote_identity_public s' = ss_remote_identity_public s" "SessionState_apply_ratchet_state s' rs' = s'" "ratchet_ok E rs'"
  shows "session_holds E s' rs' lid rid"
  using assms by (simp add: session_holds_def)

lemma incoming_from_session:
  assumes h: "session_holds E s rs lid rid"
  shows "TripleRatchet_from_session_state E s self_session =
    (Inr \<lparr>tr_ratchet = rs\<lparr>rs_max_forward_jumps := jumps_for self_session\<rparr>, tr_pqr_state = ss_pq_ratchet_state s,
          tr_local_identity_key = lid, tr_remote_identity_key = rid\<rparr>,
     s\<lparr>ss_receiver_chains := [], ss_pq_ratchet_state := []\<rparr>)"
proof -
  let ?rs = "rs\<lparr>rs_max_forward_jumps := jumps_for self_session\<rparr>"
  have a: "SessionState_apply_ratchet_state s ?rs = s" and ok: "ratchet_ok E ?rs"
    using h by (simp_all add: session_holds_def SessionState_apply_ratchet_state_def RatchetState_apply_to_pb_def ratchet_ok_def)
  have "SessionState_take_ratchet_state E s self_session = (Inr ?rs, s\<lparr>ss_receiver_chains := []\<rparr>)"
    using take_of_apply [OF ok, of self_session s] by (simp add: a)
  with session_holds_identities [OF h] show ?thesis
    by (simp add: TripleRatchet_from_session_state_def SessionState_take_pq_ratchet_state_def)
qed

lemma session_sender_key:
  assumes h: "session_holds E s rs lid rid" and sc: "rs_sender_chain rs = Some sc"
  shows "SessionState_sender_ratchet_key s = Inr (kp_public_key (sc_ratchet_key sc))"
    "SessionState_sender_ratchet_private_key E s = Inr (kp_private_key (sc_ratchet_key sc))"
    "SessionState_get_sender_chain_key s = Inr (sc_chain_key sc)"
proof -
  have ok: "sender_chain_ok E sc" and c: "ss_sender_chain s = Some (SenderChain_to_pb sc)"
    using h sc by (simp_all add: session_holds_def ratchet_ok_def apply_ratchet_state_iff)
  show "SessionState_sender_ratchet_key s = Inr (kp_public_key (sc_ratchet_key sc))"
    "SessionState_sender_ratchet_private_key E s = Inr (kp_private_key (sc_ratchet_key sc))"
    "SessionState_get_sender_chain_key s = Inr (sc_chain_key sc)"
    using ok by (cases "kp_private_key (sc_ratchet_key sc)", simp add: c SessionState_sender_ratchet_key_def
        SessionState_sender_ratchet_private_key_def SessionState_get_sender_chain_key_def SenderChain_to_pb_def
        sender_chain_ok_def PrivateKey_deserialize_def PrivateKey_serialize_def ChainKey_to_pb_def to_array_def)+
qed

lemma outgoing_from_session:
  assumes h: "session_holds E s rs lid rid" and sc: "rs_sender_chain rs = Some sc"
  shows "OutgoingTripleRatchet_from_session_state E s =
    (Inr \<lparr>ot_sender_ratchet_key = sc_ratchet_key sc, ot_sender_chain_key = sc_chain_key sc,
          ot_previous_counter = ss_previous_counter s, ot_pqr_state = ss_pq_ratchet_state s, ot_session_version = 4,
          ot_local_identity_key = lid, ot_remote_identity_key = rid\<rparr>,
     s\<lparr>ss_pq_ratchet_state := []\<rparr>)"
  using session_sender_key [OF h sc] session_holds_identities [OF h]
  by (simp add: OutgoingTripleRatchet_from_session_state_def SessionState_take_pq_ratchet_state_def u32_to_u8_def)

lemma applied_outgoing_holds:
  assumes h: "session_holds E s rs lid rid" and sc: "rs_sender_chain rs = Some sc"
    and l: "length (ck_key (ot_sender_chain_key ot)) = 32"
  shows "session_holds E (OutgoingTripleRatchet_apply_to_session_state ot (s\<lparr>ss_pq_ratchet_state := []\<rparr>))
    (rs\<lparr>rs_sender_chain := Some (sc\<lparr>sc_chain_key := ot_sender_chain_key ot\<rparr>)\<rparr>) lid rid"
  using assms
  by (cases s) (auto simp: session_holds_def OutgoingTripleRatchet_apply_to_session_state_def
      SessionState_set_pq_ratchet_state_def SessionState_set_sender_chain_key_def SessionState_apply_ratchet_state_def
      RatchetState_apply_to_pb_def SenderChain_to_pb_def ChainKey_to_pb_def ratchet_ok_def sender_chain_ok_def Let_def)

lemma applied_incoming_holds:
  assumes h: "session_holds E s rs lid rid" and ok: "ratchet_ok E rs'"
  shows "session_holds E (SessionState_clear_unacknowledged_pre_key_message (TripleRatchet_apply_to_session_state
      (tr\<lparr>tr_ratchet := rs', tr_pqr_state := pq\<rparr>) (s\<lparr>ss_receiver_chains := [], ss_pq_ratchet_state := []\<rparr>))) rs' lid rid"
  using assms
  by (auto simp: session_holds_def TripleRatchet_apply_to_session_state_def SessionState_set_pq_ratchet_state_def
      SessionState_clear_unacknowledged_pre_key_message_def SessionState_apply_ratchet_state_def
      RatchetState_apply_to_pb_def)

lemma receiver_chains_jumps [simp]:
  "find_receiver_chain_index (rs\<lparr>rs_max_forward_jumps := j\<rparr>) e = find_receiver_chain_index rs e"
  "receiver_view (rs\<lparr>rs_max_forward_jumps := j\<rparr>) e = receiver_view rs e"
proof -
  show i: "find_receiver_chain_index (rs\<lparr>rs_max_forward_jumps := j\<rparr>) e = find_receiver_chain_index rs e"
    by (simp add: find_receiver_chain_index_def)
  have "find_receiver_chain_key (rs\<lparr>rs_max_forward_jumps := j\<rparr>) e = find_receiver_chain_key rs e"
    by (simp add: find_receiver_chain_key_def i split: option.splits)
  with i show "receiver_view (rs\<lparr>rs_max_forward_jumps := j\<rparr>) e = receiver_view rs e"
    by (simp add: receiver_view_def split: option.splits sum.splits)
qed

section \<open>One message between two sessions\<close>

lemma outgoing_encrypt_InrD:
  assumes "OutgoingTripleRatchet_encrypt E ot pt la ra rng = (Inr m, ot', rng')"
  obtains pq' k msg nk where "x_spqr_send E (ot_pqr_state ot) rng = (Inr (pq', k, msg), rng')"
    "ChainKey_next_chain_key E (ot_sender_chain_key ot) = Inr nk"
    "ot' = ot\<lparr>ot_sender_chain_key := nk, ot_pqr_state := pq'\<rparr>"
    "sm_message_version m = ot_session_version ot" "sm_counter m = ck_index (ot_sender_chain_key ot)"
    "sm_sender_ratchet_key m = kp_public_key (ot_sender_ratchet_key ot)"
proof -
  obtain pq' k msg where s: "x_spqr_send E (ot_pqr_state ot) rng = (Inr (pq', k, msg), rng')"
    using assms by (auto simp: OutgoingTripleRatchet_encrypt_def split: prod.splits sum.splits)
  with that assms show ?thesis
    by (auto simp: OutgoingTripleRatchet_encrypt_def SignalMessage_new_def Let_def res_simps split: sum.splits)
qed

text \<open>What the receiving session does with the next message of a chain, once \<open>ensure_receiver_chain\<close> has
  given that chain.\<close>

lemma try_decrypt_in_order:
  assumes laws: "hash_lengths E" "cbc_laws E"
    and h: "session_holds E s rs lid rid"
    and enc: "OutgoingTripleRatchet_encrypt E ot pt la ra rng = (Inr m, ot', rng1)" and la: "la = None \<or> la = Some sa"
    and en: "ensure_receiver_chain E (rs\<lparr>rs_max_forward_jumps := jumps_for (IdentityKey_is_same_account E lid ra rid sa)\<rparr>)
      (kp_public_key (ot_sender_ratchet_key ot)) rng2 = (Inr (ot_sender_chain_key ot), rs1, rng3)"
    and view: "receiver_view rs1 (kp_public_key (ot_sender_ratchet_key ot)) = Some (ot_sender_chain_key ot, ks)"
    and inv: "dr_chain_inv E c0 (ot_sender_chain_key ot, ks)"
    and pq: "x_spqr_send E (ot_pqr_state ot) rng = (Inr (pq1, k, pmsg), rng1)"
      "x_spqr_recv E (ss_pq_ratchet_state s) pmsg = Inr (pq2, k)"
    and ids: "rid = ot_local_identity_key ot" "lid = ot_remote_identity_key ot"
    and ok: "ratchet_ok E rs1"
  obtains s' rs' where "try_decrypt_with_state E s sa ra m t rng2 = (Inr pt, s', rng3)"
    and "session_holds E s' rs' lid rid" "same_frame rs1 rs'"
    and "receiver_view rs' (kp_public_key (ot_sender_ratchet_key ot)) = Some (ot_sender_chain_key ot', ks)"
      "dr_chain_inv E c0 (ot_sender_chain_key ot', ks)" "dr_gone (sm_counter m) (ot_sender_chain_key ot', ks)"
    and "ss_pending_pre_key s' = None" "ss_alice_base_key s' = ss_alice_base_key s" "ss_pq_ratchet_state s' = pq2"
proof -
  let ?self = "IdentityKey_is_same_account E lid ra rid sa" and ?n = "ck_index (ot_sender_chain_key ot)"
  obtain nk where nk: "ChainKey_next_chain_key E (ot_sender_chain_key ot) = Inr nk" "ot_sender_chain_key ot' = nk"
    and cnt: "sm_counter m = ?n" by (rule outgoing_encrypt_InrD [OF enc]) auto
  define tr where "tr = \<lparr>tr_ratchet = rs\<lparr>rs_max_forward_jumps := jumps_for ?self\<rparr>, tr_pqr_state = ss_pq_ratchet_state s,
    tr_local_identity_key = lid, tr_remote_identity_key = rid\<rparr>"
  have adv: "ck_advance E (unat ?n - unat (ck_index c0)) c0 = Inr (ot_sender_chain_key ot)"
    using inv by (simp add: dr.chain_inv_def)
  have ng: "\<not> dr_gone ?n (ot_sender_chain_key ot, ks)" by (simp add: dr.gone_def)
  obtain rs' v' kk where d: "TripleRatchet_decrypt E tr sa ra m t rng2 = (Inr pt, tr\<lparr>tr_ratchet := rs', tr_pqr_state := pq2\<rparr>, rng3)"
    and f: "same_frame rs1 rs'" and v: "receiver_view rs' (kp_public_key (ot_sender_ratchet_key ot)) = Some v'"
      "dr_chain_inv E c0 v'" "dr_gone ?n v'" and r: "dr_receive E ?n (ot_sender_chain_key ot, ks) = Some (kk, v')"
    using decrypt_of_encrypt [OF laws enc la adv, of tr rng2 "ot_sender_chain_key ot" rs1 rng3 ks pq1 k pmsg rng1 pq2 t]
      en view inv ng pq ids unfolding tr_def by auto
  have v': "v' = (nk, ks)" using r nk by (auto simp: dr.receive_def split: sum.splits)
  have ok': "ratchet_ok E rs'" using ok f by (simp add: ratchet_ok_def same_frame_def)
  define s' where "s' = SessionState_clear_unacknowledged_pre_key_message (TripleRatchet_apply_to_session_state
      (tr\<lparr>tr_ratchet := rs', tr_pqr_state := pq2\<rparr>) (s\<lparr>ss_receiver_chains := [], ss_pq_ratchet_state := []\<rparr>))"
  have "try_decrypt_with_state E s sa ra m t rng2 = (Inr pt, s', rng3)"
    using d by (simp add: try_decrypt_with_state_def session_holds_self [OF h] incoming_from_session [OF h] s'_def
        flip: tr_def)
  moreover have "session_holds E s' rs' lid rid" unfolding s'_def by (rule applied_incoming_holds [OF h ok'])
  moreover have "ss_pending_pre_key s' = None" "ss_alice_base_key s' = ss_alice_base_key s" "ss_pq_ratchet_state s' = pq2"
    by (simp_all add: s'_def SessionState_clear_unacknowledged_pre_key_message_def TripleRatchet_apply_to_session_state_def
        SessionState_set_pq_ratchet_state_def SessionState_apply_ratchet_state_def RatchetState_apply_to_pb_def)
  ultimately show ?thesis using that f v v' nk cnt by simp
qed

text \<open>The same message again: the counter is used up.\<close>

lemma try_decrypt_replay:
  assumes h: "session_holds E s rs lid rid" and view: "receiver_view rs (sm_sender_ratchet_key m) = Some (ck, ks)"
    and gone: "dr_gone (sm_counter m) (ck, ks)"
  shows "\<exists>s'. try_decrypt_with_state E s ra la m t rng =
    (Inl (Err (DuplicatedMessage (ck_index ck) (sm_counter m))), s', rng)"
proof -
  let ?rs = "rs\<lparr>rs_max_forward_jumps := jumps_for (IdentityKey_is_same_account E lid la rid ra)\<rparr>"
  have v: "receiver_view ?rs (sm_sender_ratchet_key m) = Some (ck, ks)"
    using view by simp
  have "consume_message_key E ?rs (sm_sender_ratchet_key m) ck (sm_counter m) t =
      (Inl (Err (DuplicatedMessage (ck_index ck) (sm_counter m))), ?rs)"
    using gone by (intro consume_behind(1) [OF v]) (auto simp: dr.gone_def grab_skipped_key_None_iff)
  then show ?thesis
    by (simp add: try_decrypt_with_state_def session_holds_self [OF h] incoming_from_session [OF h]
        TripleRatchet_decrypt_def ensure_receiver_chain_stored [OF v])
qed

section \<open>Sessions in step\<close>

text \<open>What the code relies on in the \<open>spqr\<close> crate, for a relation \<open>R\<close> of states in step: initial states can be
  made for every key and are in step, the relation does not depend on the direction, and a message sent
  from one of two states in step is received by the other with the same message key, after which the
  states are in step again.\<close>

definition spqr_laws :: "'r Ext \<Rightarrow> (bytes \<Rightarrow> bytes \<Rightarrow> bool) \<Rightarrow> bool" where
  "spqr_laws E R \<longleftrightarrow> (\<forall>key d self_session. \<exists>st. spqr_initial E key d self_session = Inr st) \<and>
     (\<forall>key self1 self2 a b. spqr_initial E key A2B self1 = Inr a \<longrightarrow> spqr_initial E key B2A self2 = Inr b \<longrightarrow> R a b) \<and>
     (\<forall>a b. R a b \<longrightarrow> R b a) \<and>
     (\<forall>a b rng a' k msg rng'. R a b \<longrightarrow> x_spqr_send E a rng = (Inr (a', k, msg), rng') \<longrightarrow>
        (\<exists>b'. x_spqr_recv E b msg = Inr (b', k) \<and> R a' b'))"

text \<open>\<open>b\<close> can receive what \<open>a\<close> sends next: \<open>b\<close> has the sending chain of \<open>a\<close>, or gets it with a Diffie-Hellman
  step.\<close>

definition can_receive :: "'r Ext \<Rightarrow> RatchetState \<Rightarrow> RatchetState \<Rightarrow> bool" where
  "can_receive E a b \<longleftrightarrow> (\<exists>sa. rs_sender_chain a = Some sa \<and>
     (find_receiver_chain_index b (kp_public_key (sc_ratchet_key sa)) = None \<and> dh_synced E a b (sc_chain_key sa) \<or>
      (\<exists>c0 ks. receiver_view b (kp_public_key (sc_ratchet_key sa)) = Some (sc_chain_key sa, ks) \<and>
         dr_chain_inv E c0 (sc_chain_key sa, ks))))"

definition in_step ::
    "'r Ext \<Rightarrow> (bytes \<Rightarrow> bytes \<Rightarrow> bool) \<Rightarrow> IdentityKey \<Rightarrow> IdentityKey \<Rightarrow> SessionState \<Rightarrow> SessionState \<Rightarrow> bool" where
  "in_step E R id1 id2 s1 s2 \<longleftrightarrow> (\<exists>a b. session_holds E s1 a id1 id2 \<and> session_holds E s2 b id2 id1 \<and>
     R (ss_pq_ratchet_state s1) (ss_pq_ratchet_state s2) \<and> can_receive E a b \<and> can_receive E b a)"

text \<open>The ratchet key a receiver makes in a Diffie-Hellman step: its agreement with the sender's ratchet key
  is not the zero point, and the sender does not hold a chain for it already.\<close>

definition good_ratchet_key :: "'r Ext \<Rightarrow> SessionState \<Rightarrow> KeyPair \<Rightarrow> bool" where
  "good_ratchet_key E s k \<longleftrightarrow>
     (case SessionState_sender_ratchet_key s of Inl _ \<Rightarrow> True
      | Inr e \<Rightarrow> (case PrivateKey_calculate_agreement E (kp_private_key k) e of Inl _ \<Rightarrow> False | Inr _ \<Rightarrow> True)) \<and>
     (\<forall>c \<in> set (ss_receiver_chains s). PublicKey_deserialize (ch_sender_ratchet_key c) \<noteq> Inr (kp_public_key k))"

text \<open>The session has used up the counter of a message.\<close>

definition used_up :: "'r Ext \<Rightarrow> IdentityKey \<Rightarrow> IdentityKey \<Rightarrow> SessionState \<Rightarrow> SignalMessage \<Rightarrow> bool" where
  "used_up E lid rid s m \<longleftrightarrow> (\<exists>rs v. session_holds E s rs lid rid \<and>
     receiver_view rs (sm_sender_ratchet_key m) = Some v \<and> dr_gone (sm_counter m) v)"

lemma in_step_sym: "\<lbrakk>spqr_laws E R; in_step E R id1 id2 s1 s2\<rbrakk> \<Longrightarrow> in_step E R id2 id1 s2 s1"
  unfolding in_step_def spqr_laws_def by metis

lemma good_ratchet_key_unknown:
  "\<lbrakk>good_ratchet_key E s k; session_holds E s rs lid rid\<rbrakk> \<Longrightarrow> find_receiver_chain_index rs (kp_public_key k) = None"
  by (auto simp: good_ratchet_key_def session_holds_def apply_ratchet_state_iff find_receiver_chain_index_def
      position_None_iff split: sum.splits)

lemma can_receive_cong:
  assumes "can_receive E b a" "rs_sender_chain b' = rs_sender_chain b" "rs_root_key b' = rs_root_key b"
    and "rs_receiver_chains a' = rs_receiver_chains a" "rs_root_key a' = rs_root_key a"
    and "map_option sc_ratchet_key (rs_sender_chain a') = map_option sc_ratchet_key (rs_sender_chain a)"
  shows "can_receive E b' a'"
proof -
  have i: "find_receiver_chain_index a' e = find_receiver_chain_index a e" for e
    using assms(4) by (simp add: find_receiver_chain_index_def)
  moreover have "find_receiver_chain_key a' e = find_receiver_chain_key a e" for e
    using assms(4) by (simp add: find_receiver_chain_key_def i split: option.splits)
  ultimately have "receiver_view a' e = receiver_view a e" for e
    using assms(4) by (simp add: receiver_view_def split: option.splits sum.splits)
  moreover have "dh_synced E b' a' ck = dh_synced E b a ck" for ck
    using assms(2,3,5,6) by (cases "rs_sender_chain a"; cases "rs_sender_chain a'") (auto simp: dh_synced_def)
  ultimately show ?thesis using assms(1,2) i by (simp add: can_receive_def)
qed

text \<open>A receiver that does not know the sender's ratchet key makes a Diffie-Hellman step and ends up one
  half-step ahead.\<close>

lemma receive_with_step:
  assumes laws: "hash_lengths E" "x25519_laws E" "rng_laws E" and sync: "dh_synced E a b ck"
    and e: "ratchet_public a = Some e" "find_receiver_chain_index b e = None"
    and g: "KeyPair_generate E rng = (kb, rng1)" "PrivateKey_calculate_agreement E (kp_private_key kb) e = Inr x"
  obtains b' ck2 where "ensure_receiver_chain E b e rng = (Inr ck, b', rng1)" "receiver_view b' e = Some (ck, [])"
    "rs_sender_chain b' = Some \<lparr>sc_ratchet_key = kb, sc_chain_key = ck2\<rparr>" "dh_synced E b' a ck2" "ratchet_ok E b'"
proof -
  obtain rk2 ck2 where c2: "RootKey_create_chain E (rs_root_key a) e (kp_private_key kb) = Inr (rk2, ck2)"
    using g(2) by (simp add: RootKey_create_chain_def derive_arrays_def Let_def)
  obtain b' where b': "ensure_receiver_chain E b e rng = (Inr ck, b', rng1)" "rs_root_key b' = rk2"
    "rs_sender_chain b' = Some \<lparr>sc_ratchet_key = kb, sc_chain_key = ck2\<rparr>" "receiver_view b' e = Some (ck, [])"
    "dh_synced E b' a ck2"
    by (rule dh_step_ok [OF laws(1,2) sync e g(1) c2])
  have "ratchet_ok E b'"
    using b' RootKey_create_chain_lengths [OF laws(1) c2]
      stored_sender_chain_ok [OF laws(2) KeyPair_generate_stored [OF laws(2,3) g(1)]] by (simp add: ratchet_ok_def)
  with that b' show ?thesis by blast
qed

text \<open>One half of the conversation step: from the chain the receiver has or gets, to sessions in step.\<close>

lemma in_step_deliver:
  assumes laws: "hash_lengths E" "cbc_laws E" "x25519_laws E" "rng_laws E" "spqr_laws E R"
    and i: "in_step E R id1 id2 s1 s2" and out: "OutgoingTripleRatchet_from_session_state E s1 = (Inr ot, s1')"
    and enc: "OutgoingTripleRatchet_encrypt E ot pt la ra rng = (Inr m, ot', rng1)" "la = None \<or> la = Some sa"
    and key: "KeyPair_generate E rng2 = (kb, rngb)" "good_ratchet_key E s1 kb"
  obtains s2' rng3 where "try_decrypt_with_state E s2 sa ra m t rng2 = (Inr pt, s2', rng3)"
    "in_step E R id1 id2 (OutgoingTripleRatchet_apply_to_session_state ot' s1') s2'" "used_up E id2 id1 s2' m"
    "sm_message_version m = 4" "ss_pending_pre_key s2' = None" "ss_alice_base_key s2' = ss_alice_base_key s2"
proof -
  obtain a b where h1: "session_holds E s1 a id1 id2" and h2: "session_holds E s2 b id2 id1"
    and R: "R (ss_pq_ratchet_state s1) (ss_pq_ratchet_state s2)" and ab: "can_receive E a b" and ba: "can_receive E b a"
    using i by (auto simp: in_step_def)
  obtain ca where ca: "rs_sender_chain a = Some ca" using ab by (auto simp: can_receive_def)
  note o = outgoing_from_session [OF h1 ca]
  have s1': "s1' = s1\<lparr>ss_pq_ratchet_state := []\<rparr>" and ot: "ot_sender_ratchet_key ot = sc_ratchet_key ca"
    "ot_sender_chain_key ot = sc_chain_key ca" "ot_pqr_state ot = ss_pq_ratchet_state s1" "ot_session_version ot = 4"
    "ot_local_identity_key ot = id1" "ot_remote_identity_key ot = id2" using o out by auto
  let ?e = "kp_public_key (sc_ratchet_key ca)" and ?b = "b\<lparr>rs_max_forward_jumps := jumps_for (IdentityKey_is_same_account E id2 ra id1 sa)\<rparr>"
  obtain pq1 k pmsg nk where send: "x_spqr_send E (ot_pqr_state ot) rng = (Inr (pq1, k, pmsg), rng1)"
    and nk: "ChainKey_next_chain_key E (ot_sender_chain_key ot) = Inr nk" "ot' = ot\<lparr>ot_sender_chain_key := nk, ot_pqr_state := pq1\<rparr>"
    and m: "sm_message_version m = 4" "sm_sender_ratchet_key m = ?e"
    by (rule outgoing_encrypt_InrD [OF enc(1)]) (use ot in simp)
  obtain pq2 where recv: "x_spqr_recv E (ss_pq_ratchet_state s2) pmsg = Inr (pq2, k)" and R': "R pq1 pq2"
    using laws(5) R send ot(3) unfolding spqr_laws_def by metis
  define a' where "a' = a\<lparr>rs_sender_chain := Some (ca\<lparr>sc_chain_key := nk\<rparr>)\<rparr>"
  have lnk: "length (ck_key nk) = 32" using nk(1) laws(1) by (auto simp: hmac_sha256_def ChainKey_next_chain_key_def ChainKey_calculate_base_material_def
        res_simps split: if_splits)
  have h1': "session_holds E (OutgoingTripleRatchet_apply_to_session_state ot' s1') a' id1 id2"
    unfolding s1' a'_def using applied_outgoing_holds [OF h1 ca, of ot'] nk lnk by simp
  have pq': "ss_pq_ratchet_state (OutgoingTripleRatchet_apply_to_session_state ot' s1') = pq1"
    by (simp add: OutgoingTripleRatchet_apply_to_session_state_def SessionState_set_pq_ratchet_state_def nk)
  have okb: "ratchet_ok E ?b" using h2 by (simp add: session_holds_def ratchet_ok_def)
  obtain b1 ks c0 rng3 where b1: "ensure_receiver_chain E ?b ?e rng2 = (Inr (sc_chain_key ca), b1, rng3)"
      "receiver_view b1 ?e = Some (sc_chain_key ca, ks)" "dr_chain_inv E c0 (sc_chain_key ca, ks)" "ratchet_ok E b1"
    and b1a: "can_receive E b1 a'"
  proof (cases "find_receiver_chain_index b ?e = None \<and> dh_synced E a b (sc_chain_key ca)")
    case True
    then have sync: "dh_synced E a ?b (sc_chain_key ca)" and fn: "find_receiver_chain_index ?b ?e = None"
      by (simp_all add: dh_synced_def)
    obtain x where x: "PrivateKey_calculate_agreement E (kp_private_key kb) ?e = Inr x"
      using key(2) session_sender_key [OF h1 ca] by (auto simp: good_ratchet_key_def split: sum.splits)
    obtain b1 ck2 where q: "ensure_receiver_chain E ?b ?e rng2 = (Inr (sc_chain_key ca), b1, rngb)"
      "receiver_view b1 ?e = Some (sc_chain_key ca, [])" "rs_sender_chain b1 = Some \<lparr>sc_ratchet_key = kb, sc_chain_key = ck2\<rparr>"
      "dh_synced E b1 a ck2" "ratchet_ok E b1"
      by (rule receive_with_step [OF laws(1,3,4) sync _ fn key(1) x]) (simp add: ratchet_public_def ca)
    have "can_receive E b1 a" using q good_ratchet_key_unknown [OF key(2) h1] by (simp add: can_receive_def)
    then have "can_receive E b1 a'" by (rule can_receive_cong) (simp_all add: a'_def ca)
    with q dr.chain_inv_start that show ?thesis by blast
  next
    case False
    then obtain c0 ks where v: "receiver_view b ?e = Some (sc_chain_key ca, ks)" "dr_chain_inv E c0 (sc_chain_key ca, ks)"
      using ab ca by (auto simp: can_receive_def)
    have "can_receive E ?b a'" by (rule can_receive_cong [OF ba]) (simp_all add: a'_def ca)
    with that [OF ensure_receiver_chain_stored] v okb show ?thesis by simp
  qed
  obtain s2' rs' where d: "try_decrypt_with_state E s2 sa ra m t rng2 = (Inr pt, s2', rng3)"
    and h2': "session_holds E s2' rs' id2 id1" and fr: "same_frame b1 rs'"
    and v': "receiver_view rs' ?e = Some (nk, ks)" "dr_chain_inv E c0 (nk, ks)" "dr_gone (sm_counter m) (nk, ks)"
    and f: "ss_pending_pre_key s2' = None" "ss_alice_base_key s2' = ss_alice_base_key s2" "ss_pq_ratchet_state s2' = pq2"
    by (rule try_decrypt_in_order [OF laws(1,2) h2 enc, of rng2 b1 rng3 ks c0 pq1 k pmsg pq2 t])
       (use b1 send recv ot nk in simp_all)
  have "can_receive E a' rs'" using v' by (auto simp: can_receive_def a'_def)
  moreover have "can_receive E rs' a'" by (rule can_receive_cong [OF b1a]) (use fr in \<open>simp_all add: same_frame_def\<close>)
  ultimately have "in_step E R id1 id2 (OutgoingTripleRatchet_apply_to_session_state ot' s1') s2'"
    using h1' h2' pq' f R' by (auto simp: in_step_def)
  moreover have "used_up E id2 id1 s2' m" using h2' v' m by (auto simp: used_up_def)
  ultimately show ?thesis using that d m f by blast
qed

section \<open>The sessions of a handshake\<close>

lemma initiator_holds:
  assumes laws: "hash_lengths E" "rng_laws E" "x25519_laws E"
    and init: "initialize_alice_session E p rng = (Inr a, rng')"
    and pk: "public_key_ok (ip_their_ratchet_key p)" "public_key_ok (identity_public_key (ip_their_identity_key p))"
      "public_key_ok (identity_public_key (ikp_identity_key (ip_our_identity_key_pair p)))"
  obtains ct keys rng1 kp root chain pq rs where "Pqxdh_initiate E p rng = (Inr (ct, keys), rng1)"
    and "KeyPair_generate E rng1 = (kp, rng')"
    and "RootKey_create_chain E (hk_root_key keys) (ip_their_ratchet_key p) (kp_private_key kp) = Inr (root, chain)"
    and "spqr_initial E (hk_pqr_key keys) A2B (ip_self_session p) = Inr pq" "ss_pq_ratchet_state a = pq"
    and "session_holds E a rs (ikp_identity_key (ip_our_identity_key_pair p)) (ip_their_identity_key p)"
    and "rs_root_key rs = root" "rs_sender_chain rs = Some \<lparr>sc_ratchet_key = kp, sc_chain_key = chain\<rparr>"
    and "receiver_view rs (ip_their_ratchet_key p) = Some (hk_chain_key keys, [])"
    and "ss_pending_kyber_pre_key a = Some \<lparr>pkk_pre_key_id = - 1, pkk_ciphertext = ct\<rparr>"
    and "ss_alice_base_key a = PublicKey_serialize (kp_public_key (ip_our_ephemeral_key_pair p))"
proof -
  obtain ct keys rng1 where i: "Pqxdh_initiate E p rng = (Inr (ct, keys), rng1)"
    and n: "initialize_initiator_session E p (hk_root_key keys) (hk_chain_key keys) (hk_pqr_key keys) ct rng1 = (Inr a, rng')"
    using init by (auto simp: initialize_alice_session_def split: prod.splits sum.splits)
  obtain h where keys: "keys = HandshakeKeys_derive E h" using Pqxdh_initiate_derives [OF i] by auto
  obtain kp rng2 where g: "KeyPair_generate E rng1 = (kp, rng2)" by fastforce
  obtain root chain pq where r: "rng' = rng2"
    and cc: "RootKey_create_chain E (hk_root_key keys) (ip_their_ratchet_key p) (kp_private_key kp) = Inr (root, chain)"
    and sp: "spqr_initial E (hk_pqr_key keys) A2B (ip_self_session p) = Inr pq"
    and a: "a = SessionState_set_kyber_ciphertext (SessionState_set_sender_chain (SessionState_add_receiver_chain
        (SessionState_new CIPHERTEXT_MESSAGE_CURRENT_VERSION (ikp_identity_key (ip_our_identity_key_pair p))
           (ip_their_identity_key p) root (kp_public_key (ip_our_ephemeral_key_pair p)) pq)
        (ip_their_ratchet_key p) (hk_chain_key keys)) kp chain) ct"
    using n g by (cases "spqr_initial E (hk_pqr_key keys) A2B (ip_self_session p)")
      (auto simp: initialize_initiator_session_def Let_def res_simps)
  note l = RootKey_create_chain_lengths [OF laws(1) cc]
  define rs where "rs = \<lparr>rs_root_key = root, rs_sender_chain = Some \<lparr>sc_ratchet_key = kp, sc_chain_key = chain\<rparr>,
    rs_receiver_chains = ss_receiver_chains a, rs_previous_counter = 0, rs_max_forward_jumps = 0\<rparr>"
  have "sender_chain_ok E \<lparr>sc_ratchet_key = kp, sc_chain_key = chain\<rparr>"
    using stored_sender_chain_ok laws KeyPair_generate_stored [OF laws(3,2) g] l by blast
  then have ok: "ratchet_ok E rs" using l by (simp add: rs_def ratchet_ok_def)
  have ap: "SessionState_apply_ratchet_state a rs = a"
    unfolding apply_ratchet_state_iff by (simp add: rs_def a session_setter_defs)
  have holds: "session_holds E a rs (ikp_identity_key (ip_our_identity_key_pair p)) (ip_their_identity_key p)"
    using ok ap pk by (simp add: session_holds_def) (simp add: a session_setter_defs IdentityKey_serialize_def version_defs)
  have view: "receiver_view rs (ip_their_ratchet_key p) = Some (hk_chain_key keys, [])"
    by (rule single_chain_view [OF pk(1)]) (use derive_lengths [OF laws(1), of h] in
      \<open>simp_all add: rs_def a session_setter_defs ChainKey_to_pb_def MAX_RECEIVER_CHAINS_def keys\<close>)
  show ?thesis
    by (rule that [OF i _ cc sp _ holds _ _ view])
       (use g r in \<open>simp_all add: rs_def a session_setter_defs\<close>)
qed

lemma recipient_holds:
  assumes "x25519_laws E" "stored_pair_ok E k" "length (root_key_bytes rk) = 32" "length (ck_key ck) = 32"
    and pk: "public_key_ok (identity_public_key (rp_their_identity_key p))"
      "public_key_ok (identity_public_key (ikp_identity_key (rp_our_identity_key_pair p)))"
    and sp: "spqr_initial E pqr B2A (rp_self_session p) = Inr pq"
  obtains b rs where "initialize_recipient_session E p k rk ck pqr = Inr b"
    and "session_holds E b rs (ikp_identity_key (rp_our_identity_key_pair p)) (rp_their_identity_key p)"
    and "rs_root_key rs = rk" "rs_sender_chain rs = Some \<lparr>sc_ratchet_key = k, sc_chain_key = ck\<rparr>" "rs_receiver_chains rs = []"
    and "ss_pq_ratchet_state b = pq" "ss_alice_base_key b = PublicKey_serialize (rp_their_ephemeral_key p)"
    and "ss_pending_pre_key b = None"
proof -
  define b where "b = SessionState_set_sender_chain (SessionState_new CIPHERTEXT_MESSAGE_CURRENT_VERSION
    (ikp_identity_key (rp_our_identity_key_pair p)) (rp_their_identity_key p) rk (rp_their_ephemeral_key p) pq) k ck"
  define rs where "rs = \<lparr>rs_root_key = rk, rs_sender_chain = Some \<lparr>sc_ratchet_key = k, sc_chain_key = ck\<rparr>,
    rs_receiver_chains = [], rs_previous_counter = 0, rs_max_forward_jumps = 0\<rparr>"
  have b: "initialize_recipient_session E p k rk ck pqr = Inr b"
    using sp by (simp add: initialize_recipient_session_def b_def Let_def)
  have ok: "ratchet_ok E rs" using stored_sender_chain_ok assms(1-4) by (simp add: rs_def ratchet_ok_def)
  have ap: "SessionState_apply_ratchet_state b rs = b"
    unfolding apply_ratchet_state_iff by (simp add: rs_def b_def session_setter_defs)
  have holds: "session_holds E b rs (ikp_identity_key (rp_our_identity_key_pair p)) (rp_their_identity_key p)"
    using ok ap pk by (simp add: session_holds_def) (simp add: b_def session_setter_defs IdentityKey_serialize_def version_defs)
  show ?thesis by (rule that [OF b holds]) (simp_all add: rs_def b_def session_setter_defs)
qed

end
