(* ===== verification/Conversation.thy ===== *)
theory Conversation
  imports Sessions_In_Step
begin

text \<open>
  Two parties with their stores, from the pre-key bundle on: what \<open>process_prekey_bundle\<close> and
  \<open>message_encrypt\<close> of one side produce is accepted by \<open>message_decrypt_prekey\<close> and
  \<open>message_decrypt_signal\<close> of the other. This is where the lemmas on the handshake, the ratchets, the wire
  format and the stores meet.
\<close>

section \<open>The bundle and the store it came from\<close>

text \<open>The store holds the private halves of the bundle's keys under the bundle's identifiers.\<close>

definition published :: "'r Ext \<Rightarrow> InMemSignalProtocolStore \<Rightarrow> PreKeyBundle \<Rightarrow> bool" where
  "published E st b \<longleftrightarrow>
     identity_pair_ok E (imi_key_pair (identity_store st)) \<and>
     pkb_identity_key b = ikp_identity_key (imi_key_pair (identity_store st)) \<and>
     (\<exists>k t sig. ims_signed_pre_keys (signed_pre_key_store st) (spb_id (pkb_ec_signed_pre_key b)) =
          Some (GenericSignedPreKey_new (KeyPair_serde E) (spb_id (pkb_ec_signed_pre_key b)) t k sig) \<and>
        stored_pair_ok E k \<and> spb_public_key (pkb_ec_signed_pre_key b) = kp_public_key k) \<and>
     (\<exists>q t sig. imq_kyber_pre_keys (kyber_pre_key_store st) (kpb_id (pkb_kyber_pre_key b)) =
          Some (GenericSignedPreKey_new (KemKeyPair_serde E) (kpb_id (pkb_kyber_pre_key b)) t q sig) \<and>
        kem_pair_ok E q \<and> kpb_public_key (pkb_kyber_pre_key b) = kem_public_key q) \<and>
     (case pkb_pre_key_id b of None \<Rightarrow> pkb_pre_key_public b = None
      | Some i \<Rightarrow> \<exists>k. imp_pre_keys (pre_key_store st) i = Some (PreKeyRecord_new i k) \<and> stored_pair_ok E k \<and>
          pkb_pre_key_public b = Some (kp_public_key k))"

lemma published_keys_ok:
  assumes "x25519_laws E" "published E st b"
  shows "public_key_ok (spb_public_key (pkb_ec_signed_pre_key b))" "public_key_ok (identity_public_key (pkb_identity_key b))"
  using assms key_pair_public_ok [OF assms(1)] key_pair_public_ok [OF assms(1) identity_as_key_pair_ok]
  by (auto simp: published_def stored_pair_ok_def identity_as_key_pair_def)

abbreviation inmem_recipient_parameters where
  "inmem_recipient_parameters E \<equiv> recipient_parameters E inmem_signed_pre_keys inmem_kyber_pre_keys inmem_pre_keys inmem_identities"

lemma published_parameters:
  assumes laws: "x25519_laws E" "kem_laws E" and p: "published E st b"
    and m: "pk_signed_pre_key_id m = spb_id (pkb_ec_signed_pre_key b)" "pk_pre_key_id m = pkb_pre_key_id b"
      "pk_kyber_payload m = Some \<lparr>kyp_pre_key_id = kpb_id (pkb_kyber_pre_key b), kyp_ciphertext = ct\<rparr>"
      "pk_identity_key m = ikp_identity_key ik" "pk_base_key m = kp_public_key base"
    and ok: "identity_pair_ok E ik" "key_pair_ok E base" "PublicKey_is_canonical E (kp_public_key base)"
  obtains rp where "inmem_recipient_parameters E st m ra la = Inr rp"
    and "pqxdh_matches E (initiator_parameters E ik base b la ra) ct rp"
    and "stored_pair_ok E (rp_our_signed_pre_key_pair rp)"
    and "kp_public_key (rp_our_signed_pre_key_pair rp) = spb_public_key (pkb_ec_signed_pre_key b)"
    and "rp_our_identity_key_pair rp = imi_key_pair (identity_store st)" "rp_their_identity_key rp = ikp_identity_key ik"
    and "rp_their_ephemeral_key rp = kp_public_key base"
proof -
  obtain k t sig q t' sig' where k: "ims_signed_pre_keys (signed_pre_key_store st) (spb_id (pkb_ec_signed_pre_key b)) =
        Some (GenericSignedPreKey_new (KeyPair_serde E) (spb_id (pkb_ec_signed_pre_key b)) t k sig)"
      "stored_pair_ok E k" "spb_public_key (pkb_ec_signed_pre_key b) = kp_public_key k"
    and q: "imq_kyber_pre_keys (kyber_pre_key_store st) (kpb_id (pkb_kyber_pre_key b)) =
        Some (GenericSignedPreKey_new (KemKeyPair_serde E) (kpb_id (pkb_kyber_pre_key b)) t' q sig')"
      "kem_pair_ok E q" "kpb_public_key (pkb_kyber_pre_key b) = kem_public_key q"
    and i: "identity_pair_ok E (imi_key_pair (identity_store st))"
      "pkb_identity_key b = ikp_identity_key (imi_key_pair (identity_store st))"
    using p unfolding published_def by blast
  obtain ot where ot: "(case pkb_pre_key_id b of Some i \<Rightarrow> try_bind (get_pre_key inmem_pre_keys st i) (\<lambda>r.
        try_bind (PreKeyRecord_key_pair E r) (\<lambda>k. Inr (Some k))) | None \<Rightarrow> Inr None) = Inr ot"
      "\<forall>o'. ot = Some o' \<longrightarrow> stored_pair_ok E o'" "pkb_pre_key_public b = map_option kp_public_key ot"
  proof (cases "pkb_pre_key_id b")
    case None
    with p that [of None] show ?thesis by (simp add: published_def)
  next
    case (Some i)
    then obtain o' where o': "imp_pre_keys (pre_key_store st) i = Some (PreKeyRecord_new i o')" "stored_pair_ok E o'"
      "pkb_pre_key_public b = Some (kp_public_key o')" using p by (auto simp: published_def)
    have "PreKeyRecord_key_pair E (PreKeyRecord_new i o') = Inr o'"
      using KeyPair_back [OF laws(1) o'(2)] by (simp add: PreKeyRecord_key_pair_def PreKeyRecord_new_def)
    with that [of "Some o'"] Some o' show ?thesis by simp
  qed
  define rp where "rp = \<lparr>rp_our_identity_key_pair = imi_key_pair (identity_store st), rp_our_signed_pre_key_pair = k,
    rp_our_one_time_pre_key_pair = ot, rp_our_kyber_pre_key_pair = q, rp_their_identity_key = ikp_identity_key ik,
    rp_their_ephemeral_key = kp_public_key base, rp_their_kyber_ciphertext = ct,
    rp_self_session = IdentityKey_is_same_account E (ikp_identity_key (imi_key_pair (identity_store st))) la
      (ikp_identity_key ik) ra\<rparr>"
  have "inmem_recipient_parameters E st m ra la = Inr rp"
    using ot(1) k q m laws by (simp add: recipient_parameters_def rp_def ecs.new_fields kms.new_fields)
  moreover have "pqxdh_matches E (initiator_parameters E ik base b la ra) ct rp"
    using ot laws k q i ok
    by (auto simp: pqxdh_matches_def rp_def initiator_parameters_def InitiatorParameters_new_def stored_pair_ok_def
        InitiatorParameters_set_their_one_time_pre_key_def Let_def split: option.splits)
  ultimately show ?thesis using that k by (simp add: rp_def)
qed

section \<open>What a store sends\<close>

text \<open>The session is acknowledged, or it still has the pre-key material of its first message.\<close>

definition pending_ok :: "SessionState \<Rightarrow> bool" where
  "pending_ok s \<longleftrightarrow> (\<forall>p. ss_pending_pre_key s = Some p \<longrightarrow> ss_pending_kyber_pre_key s \<noteq> None \<and>
     (\<exists>base. ppk_base_key p = PublicKey_serialize base \<and> public_key_ok base))"

text \<open>The message of a session of the identity \<open>lid\<close>, bare or wrapped with the pending pre-key material.\<close>

definition wrapped :: "SessionState \<Rightarrow> IdentityKey \<Rightarrow> SignalMessage \<Rightarrow> CiphertextMessage \<Rightarrow> bool" where
  "wrapped s lid sm cm \<longleftrightarrow> (case ss_pending_pre_key s of
     None \<Rightarrow> cm = CSignalMessage sm
   | Some p \<Rightarrow> \<exists>m q. cm = CPreKeySignalMessage m \<and> pk_message m = sm \<and> pk_message_version m = 4 \<and>
       pk_identity_key m = lid \<and> PublicKey_serialize (pk_base_key m) = ppk_base_key p \<and>
       pk_pre_key_id m = ppk_pre_key_id p \<and> pk_signed_pre_key_id m = ppk_signed_pre_key_id p \<and>
       ss_pending_kyber_pre_key s = Some q \<and>
       pk_kyber_payload m = Some \<lparr>kyp_pre_key_id = pkk_pre_key_id q, kyp_ciphertext = pkk_ciphertext q\<rparr>)"

lemma pending_pq_update [simp]:
  "pending_ok (s\<lparr>ss_pq_ratchet_state := x\<rparr>) = pending_ok s"
  "wrapped (s\<lparr>ss_pq_ratchet_state := x\<rparr>) lid sm cm = wrapped s lid sm cm"
  by (simp add: pending_ok_def, cases "ss_pending_pre_key s", simp_all add: wrapped_def)

lemma encrypt_with_record_InrD:
  assumes "encrypt_with_record E pt ra la r now rng = (Inr (m, k, r'), rng')"
  obtains s ot s1 ot' where "sr_current_session r = Some s"
    "OutgoingTripleRatchet_from_session_state E s = (Inr ot, s1)" "SessionState_remote_identity_key s1 = Inr (Some k)"
    "encrypt_for_session E pt ra la s1 ot now rng = (Inr m, ot', rng')"
    "r' = r\<lparr>sr_current_session := Some (OutgoingTripleRatchet_apply_to_session_state ot' s1)\<rparr>"
proof -
  obtain s where s: "sr_current_session r = Some s"
    using assms by (auto simp: encrypt_with_record_def split: option.splits)
  obtain ot s1 where o: "OutgoingTripleRatchet_from_session_state E s = (Inr ot, s1)"
    using assms s by (auto simp: encrypt_with_record_def split: prod.splits sum.splits)
  obtain k' where k: "SessionState_remote_identity_key s1 = Inr (Some k')"
    using assms s o by (auto simp: encrypt_with_record_def expect_def res_simps split: prod.splits sum.splits option.splits)
  obtain ot' where e: "encrypt_for_session E pt ra la s1 ot now rng = (Inr m, ot', rng')" "k' = k"
    "r' = r\<lparr>sr_current_session := Some (OutgoingTripleRatchet_apply_to_session_state ot' s1)\<rparr>"
    using assms s o k by (auto simp: encrypt_with_record_def expect_def split: prod.splits sum.splits)
  with that s o k show ?thesis by blast
qed

lemma encrypt_for_session_wrapped:
  assumes "encrypt_for_session E pt ra la s ot now rng = (Inr m, ot', rng')"
    and "ss_pending_pre_key s = Some p" "ppk_base_key p = PublicKey_serialize base" "public_key_ok base"
    and "ss_pending_kyber_pre_key s = Some q"
  obtains sm pm where "m = CPreKeySignalMessage pm" "OutgoingTripleRatchet_encrypt E ot pt (Some la) ra rng = (Inr sm, ot', rng')"
    "PreKeySignalMessage_new E (ot_session_version ot') (ss_local_registration_id s) (ppk_pre_key_id p)
       (ppk_signed_pre_key_id p) (Some \<lparr>kyp_pre_key_id = pkk_pre_key_id q, kyp_ciphertext = pkk_ciphertext q\<rparr>) base
       (ot_local_identity_key ot') sm = Inr pm"
proof -
  obtain ts where ts: "(from_epoch_secs (ppk_timestamp p) :: SystemTime session_result) = Inr ts"
  proof (cases "from_epoch_secs (ppk_timestamp p) :: SystemTime session_result")
    case (Inl f)
    then show ?thesis using assms
      by (cases f) (simp_all add: encrypt_for_session_def SessionState_unacknowledged_pre_key_message_items_def)
  qed
  define items where "items = \<lparr>una_pre_key_id = ppk_pre_key_id p, una_signed_pre_key_id = ppk_signed_pre_key_id p,
    una_base_key = base, una_kyber_pre_key_id = Some (pkk_pre_key_id q), una_kyber_ciphertext = Some (pkk_ciphertext q),
    una_timestamp = ts\<rparr>"
  have i: "SessionState_unacknowledged_pre_key_message_items s = Inr (Some items)"
    using assms ts by (simp add: SessionState_unacknowledged_pre_key_message_items_def items_def)
  obtain sm where sm: "OutgoingTripleRatchet_encrypt E ot pt (Some la) ra rng = (Inr sm, ot', rng')"
    using assms(1) i by (auto simp: encrypt_for_session_def Let_def res_simps split: sum.splits if_splits prod.splits)
  with that assms(1) i show ?thesis
    by (auto simp: encrypt_for_session_def Let_def res_simps items_def split: sum.splits if_splits)
qed

lemma encrypt_for_session_sends:
  assumes e: "encrypt_for_session E pt ra la s ot now rng = (Inr cm, ot', rng')" and p: "pending_ok s" "ot_session_version ot = 4"
  obtains sm la' where "OutgoingTripleRatchet_encrypt E ot pt la' ra rng = (Inr sm, ot', rng')" "la' = None \<or> la' = Some la"
    "wrapped s (ot_local_identity_key ot) sm cm"
proof (cases "ss_pending_pre_key s")
  case None
  then have i: "SessionState_unacknowledged_pre_key_message_items s = Inr None"
    by (simp add: SessionState_unacknowledged_pre_key_message_items_def)
  from e i obtain sm where "OutgoingTripleRatchet_encrypt E ot pt None ra rng = (Inr sm, ot', rng')" "cm = CSignalMessage sm"
    by (auto simp: encrypt_for_session_def split: prod.splits sum.splits)
  with that None show ?thesis by (auto simp: wrapped_def)
next
  case (Some k)
  then obtain q base where q: "ss_pending_kyber_pre_key s = Some q" "ppk_base_key k = PublicKey_serialize base" "public_key_ok base"
    using p(1) by (auto simp: pending_ok_def)
  obtain sm m where m: "cm = CPreKeySignalMessage m" and sm: "OutgoingTripleRatchet_encrypt E ot pt (Some la) ra rng = (Inr sm, ot', rng')"
    and new: "PreKeySignalMessage_new E (ot_session_version ot') (ss_local_registration_id s) (ppk_pre_key_id k)
       (ppk_signed_pre_key_id k) (Some \<lparr>kyp_pre_key_id = pkk_pre_key_id q, kyp_ciphertext = pkk_ciphertext q\<rparr>) base
       (ot_local_identity_key ot') sm = Inr m"
    by (rule encrypt_for_session_wrapped [OF e Some q(2,3,1)])
  have "ot_session_version ot' = ot_session_version ot \<and> ot_local_identity_key ot' = ot_local_identity_key ot"
    using sm by (auto simp: OutgoingTripleRatchet_encrypt_def split: prod.splits sum.splits)
  with new m p(2) Some q have "wrapped s (ot_local_identity_key ot) sm cm"
    by (auto simp: wrapped_def PreKeySignalMessage_new_def Let_def)
  with that sm show ?thesis by blast
qed

lemma message_sent:
  assumes enc: "inmem_encrypt E pt ra la st now rng = (Inr cm, st', rng')"
    and r: "sessions st ra = Some r" "sr_current_session r = Some s"
    and h: "session_holds E s rs lid rid" "rs_sender_chain rs = Some c" "pending_ok s"
  obtains ot s1 ot' sm la' r' where "OutgoingTripleRatchet_from_session_state E s = (Inr ot, s1)"
    "OutgoingTripleRatchet_encrypt E ot pt la' ra rng = (Inr sm, ot', rng')" "la' = None \<or> la' = Some la"
    "wrapped s lid sm cm" "known_keys st' ra = Some rid" "sessions st' ra = Some r'"
    "sr_current_session r' = Some (OutgoingTripleRatchet_apply_to_session_state ot' s1)"
proof -
  note out = outgoing_from_session [OF h(1,2)]
  obtain k r' where er: "encrypt_with_record E pt ra la r now rng = (Inr (cm, k, r'), rng')"
    and st': "st' = snd (store_session inmem_sessions (snd (save_identity inmem_identities st ra k)) ra r')"
    by (cases rule: imps.message_encrypt_cases [OF enc]) (use r in auto)
  obtain ot where ot: "OutgoingTripleRatchet_from_session_state E s = (Inr ot, s\<lparr>ss_pq_ratchet_state := []\<rparr>)"
    "ot_session_version ot = 4" "ot_local_identity_key ot = lid" using out by simp
  obtain ot' where ef: "encrypt_for_session E pt ra la (s\<lparr>ss_pq_ratchet_state := []\<rparr>) ot now rng = (Inr cm, ot', rng')"
    and r': "r' = r\<lparr>sr_current_session := Some (OutgoingTripleRatchet_apply_to_session_state ot' (s\<lparr>ss_pq_ratchet_state := []\<rparr>))\<rparr>"
    and k: "k = rid"
    by (rule encrypt_with_record_InrD [OF er]) (use r ot session_holds_identities [OF h(1)] in auto)
  obtain sm la' where sm: "OutgoingTripleRatchet_encrypt E ot pt la' ra rng = (Inr sm, ot', rng')" "la' = None \<or> la' = Some la"
    "wrapped s lid sm cm"
    by (rule encrypt_for_session_sends [OF ef]) (use h(3) ot in simp_all)
  show ?thesis by (rule that [OF ot(1) sm, of r']) (simp_all add: st' k, simp add: r')
qed

fun inner_message :: "CiphertextMessage \<Rightarrow> SignalMessage option" where
  "inner_message (CSignalMessage m) = Some m"
| "inner_message (CPreKeySignalMessage m) = Some (pk_message m)"
| "inner_message _ = None"

lemma encrypt_for_session_inner:
  assumes "encrypt_for_session E pt ra la s ot now rng = (Inr cm, ot', rng')"
  obtains la' sm where "OutgoingTripleRatchet_encrypt E ot pt la' ra rng = (Inr sm, ot', rng')" "inner_message cm = Some sm"
    "(\<exists>m. cm = CPreKeySignalMessage m) \<longleftrightarrow> ss_pending_pre_key s \<noteq> None"
proof (cases "SessionState_unacknowledged_pre_key_message_items s")
  case (Inl f)
  with assms show ?thesis by (cases f) (simp_all add: encrypt_for_session_def)
next
  case (Inr o')
  have p: "o' = None \<longleftrightarrow> ss_pending_pre_key s = None"
    using Inr by (auto simp: SessionState_unacknowledged_pre_key_message_items_def res_simps split: option.splits)
  show ?thesis
  proof (cases o')
    case None
    with Inr p assms that show ?thesis by (auto simp: encrypt_for_session_def split: prod.splits sum.splits)
  next
    case (Some items)
    with Inr p assms that show ?thesis
      by (auto simp: encrypt_for_session_def PreKeySignalMessage_new_def Let_def split: prod.splits sum.splits if_splits)
  qed
qed

lemma outgoing_chain_key:
  assumes "OutgoingTripleRatchet_from_session_state E s = (Inr ot, s1)"
  obtains c where "SessionState_get_sender_chain_key s = Inr (ot_sender_chain_key ot)" "ss_sender_chain s = Some c"
    "s1 = s\<lparr>ss_pq_ratchet_state := []\<rparr>"
proof -
  have k: "SessionState_get_sender_chain_key s = Inr (ot_sender_chain_key ot)" and s1: "s1 = s\<lparr>ss_pq_ratchet_state := []\<rparr>"
    using assms by (auto simp: OutgoingTripleRatchet_from_session_state_def SessionState_take_pq_ratchet_state_def res_simps
        split: sum.splits)
  from k obtain c where "ss_sender_chain s = Some c" by (cases "ss_sender_chain s") (auto simp: SessionState_get_sender_chain_key_def)
  with that k s1 show ?thesis by blast
qed

lemma next_chain_key_length: "\<lbrakk>hash_lengths E; ChainKey_next_chain_key E ck = Inr nk\<rbrakk> \<Longrightarrow> length (ck_key nk) = 32"
  by (auto simp: hmac_sha256_def ChainKey_next_chain_key_def ChainKey_calculate_base_material_def res_simps)

lemma encryption_effect:
  assumes laws: "hash_lengths E" and enc: "inmem_encrypt E pt ra la st now rng = (Inr cm, st', rng')"
  obtains r s ck nk sm r' s' k where "sessions st ra = Some r" "sr_current_session r = Some s"
    "SessionState_get_sender_chain_key s = Inr ck" "ChainKey_next_chain_key E ck = Inr nk"
    "inner_message cm = Some sm" "sm_counter sm = ck_index ck" "(\<exists>m. cm = CPreKeySignalMessage m) \<longleftrightarrow> ss_pending_pre_key s \<noteq> None"
    "sr_previous_sessions r' = sr_previous_sessions r" "sr_current_session r' = Some s'"
    "SessionState_get_sender_chain_key s' = Inr nk" "ss_receiver_chains s' = ss_receiver_chains s"
    "SessionState_sender_ratchet_key s' = SessionState_sender_ratchet_key s" "ss_pending_pre_key s' = ss_pending_pre_key s"
    "known_keys st ra \<in> {None, Some k}" "SessionState_remote_identity_key s = Inr (Some k)"
    "st' = (saved_identity st ra k)\<lparr>session_store := \<lparr>imss_sessions = (sessions st)(ra \<mapsto> r')\<rparr>\<rparr>"
proof -
  obtain r k r' where r: "sessions st ra = Some r" and er: "encrypt_with_record E pt ra la r now rng = (Inr (cm, k, r'), rng')"
    and tr: "is_trusted_identity inmem_identities st ra k Sending = Inr True"
    and st': "st' = snd (store_session inmem_sessions (snd (save_identity inmem_identities st ra k)) ra r')"
    by (cases rule: imps.message_encrypt_cases [OF enc]) auto
  obtain s ot s1 ot' where s: "sr_current_session r = Some s" and o: "OutgoingTripleRatchet_from_session_state E s = (Inr ot, s1)"
    and k: "SessionState_remote_identity_key s1 = Inr (Some k)" and e: "encrypt_for_session E pt ra la s1 ot now rng = (Inr cm, ot', rng')"
    and r': "r' = r\<lparr>sr_current_session := Some (OutgoingTripleRatchet_apply_to_session_state ot' s1)\<rparr>"
    by (rule encrypt_with_record_InrD [OF er])
  obtain c where ck: "SessionState_get_sender_chain_key s = Inr (ot_sender_chain_key ot)" and c: "ss_sender_chain s = Some c"
    and s1: "s1 = s\<lparr>ss_pq_ratchet_state := []\<rparr>" by (rule outgoing_chain_key [OF o])
  obtain la' sm where sm: "OutgoingTripleRatchet_encrypt E ot pt la' ra rng = (Inr sm, ot', rng')" "inner_message cm = Some sm"
    "(\<exists>m. cm = CPreKeySignalMessage m) \<longleftrightarrow> ss_pending_pre_key s1 \<noteq> None" by (rule encrypt_for_session_inner [OF e])
  obtain nk where nk: "ChainKey_next_chain_key E (ot_sender_chain_key ot) = Inr nk" "ot_sender_chain_key ot' = nk"
    "sm_counter sm = ck_index (ot_sender_chain_key ot)" by (rule outgoing_encrypt_InrD [OF sm(1)]) auto
  note defs = OutgoingTripleRatchet_apply_to_session_state_def SessionState_set_pq_ratchet_state_def
    SessionState_set_sender_chain_key_def
  show ?thesis
    by (rule that [OF r s ck nk(1) sm(2) nk(3), of r' "OutgoingTripleRatchet_apply_to_session_state ot' s1" k])
       (use sm(3) s1 c nk next_chain_key_length [OF laws nk(1)] tr k st' in \<open>simp_all add: r'\<close>,
        simp_all add: defs SessionState_get_sender_chain_key_def SessionState_sender_ratchet_key_def to_array_def)
qed

text \<open>C28: a session never encrypts two messages with the same chain key. If \<open>message_encrypt\<close> reports an error, the
  store is as it was. If it returns a message, the counter of the message is the index of the sending
  chain of the current session, the stored session continues with the next chain key and the same receiving
  chains, the message is a pre-key message exactly if the session is unacknowledged, and the remote
  identity of the session was trusted and is saved; nothing else changes.\<close>

theorem encryption_advances:
  assumes "hash_lengths E" "inmem_encrypt E pt ra la st now rng = (res, st', rng')"
  shows "case res of Inl _ \<Rightarrow> st' = st
    | Inr cm \<Rightarrow> \<exists>r s ck nk sm r' s' k. sessions st ra = Some r \<and> sr_current_session r = Some s \<and>
        SessionState_get_sender_chain_key s = Inr ck \<and> ChainKey_next_chain_key E ck = Inr nk \<and>
        inner_message cm = Some sm \<and> sm_counter sm = ck_index ck \<and>
        ((\<exists>m. cm = CPreKeySignalMessage m) \<longleftrightarrow> ss_pending_pre_key s \<noteq> None) \<and>
        sr_previous_sessions r' = sr_previous_sessions r \<and> sr_current_session r' = Some s' \<and>
        SessionState_get_sender_chain_key s' = Inr nk \<and> ss_receiver_chains s' = ss_receiver_chains s \<and>
        SessionState_remote_identity_key s = Inr (Some k) \<and> known_keys st ra \<in> {None, Some k} \<and>
        st' = (saved_identity st ra k)\<lparr>session_store := \<lparr>imss_sessions = (sessions st)(ra \<mapsto> r')\<rparr>\<rparr>"
proof (cases res)
  case (Inl f)
  then show ?thesis by (cases rule: imps.message_encrypt_cases [OF assms(2)]) simp_all
next
  case (Inr cm)
  show ?thesis
    unfolding Inr sum.case by (rule encryption_effect [OF assms(1) assms(2) [unfolded Inr]]) (intro exI conjI, assumption+)
qed

text \<open>When a store can send: the sending chain of the current session is not exhausted, the post-quantum
  ratchet sends, and a pending pre-key message is at most \<open>MAX_UNACKNOWLEDGED_SESSION_AGE\<close> old.\<close>

definition ready_to_send :: "'r Ext \<Rightarrow> SessionState \<Rightarrow> SystemTime \<Rightarrow> 'r \<Rightarrow> bool" where
  "ready_to_send E s now rng \<longleftrightarrow>
     (case Option.bind (ss_sender_chain s) ch_chain_key of None \<Rightarrow> False | Some k \<Rightarrow> ckp_index k \<noteq> - 1) \<and>
     (case x_spqr_send E (ss_pq_ratchet_state s) rng of (Inl _, _) \<Rightarrow> False | (Inr _, _) \<Rightarrow> True) \<and>
     (case ss_pending_pre_key s of None \<Rightarrow> True
      | Some p \<Rightarrow> now \<le> uint (ppk_timestamp p) * NANOS + MAX_UNACKNOWLEDGED_SESSION_AGE \<and>
          (uint (ppk_timestamp p) * NANOS + MAX_UNACKNOWLEDGED_SESSION_AGE) div NANOS \<le> 2 ^ 63 - 1)"

lemma encrypt_for_session_ok:
  assumes laws: "hash_lengths E" "cbc_laws E" and p: "pending_ok s" "ready_to_send E (s\<lparr>ss_pq_ratchet_state := pq\<rparr>) now rng"
    and ot: "ot_pqr_state ot = pq" "ck_index (ot_sender_chain_key ot) \<noteq> - 1"
  obtains cm ot' rng' where "encrypt_for_session E pt ra la s ot now rng = (Inr cm, ot', rng')"
proof -
  obtain pq' k msg rng' where "x_spqr_send E (ot_pqr_state ot) rng = (Inr (pq', k, msg), rng')"
    using p(2) ot by (auto simp: ready_to_send_def split: prod.splits sum.splits)
  note ok = encrypt_ok [OF laws this ot(2)]
  show ?thesis
  proof (cases "ss_pending_pre_key s")
    case None
    obtain m ot' where "OutgoingTripleRatchet_encrypt E ot pt None ra rng = (Inr m, ot', rng')" by (rule ok [of pt None ra]) blast
    with None that show ?thesis
      by (simp add: encrypt_for_session_def SessionState_unacknowledged_pre_key_message_items_def)
  next
    case (Some k)
    obtain base where b: "ppk_base_key k = PublicKey_serialize base" "public_key_ok base"
      using p(1) Some by (auto simp: pending_ok_def)
    let ?t = "uint (ppk_timestamp k) * NANOS"
    have age: "now \<le> ?t + MAX_UNACKNOWLEDGED_SESSION_AGE" "(?t + MAX_UNACKNOWLEDGED_SESSION_AGE) div NANOS \<le> 2 ^ 63 - 1"
      using p(2) Some by (simp_all add: ready_to_send_def)
    have "?t div NANOS \<le> (?t + MAX_UNACKNOWLEDGED_SESSION_AGE) div NANOS"
      by (rule zdiv_mono1) (simp_all add: NANOS_def MAX_UNACKNOWLEDGED_SESSION_AGE_def)
    with age have t: "(from_epoch_secs (ppk_timestamp k) :: SystemTime session_result) = Inr ?t"
      "(SystemTime_add ?t MAX_UNACKNOWLEDGED_SESSION_AGE :: SystemTime signal_result) = Inr (?t + MAX_UNACKNOWLEDGED_SESSION_AGE)"
      by (simp_all add: from_epoch_secs_def SystemTime_add_def)
    obtain m ot' where "OutgoingTripleRatchet_encrypt E ot pt (Some la) ra rng = (Inr m, ot', rng')"
      by (rule ok [of pt "Some la" ra]) blast
    with Some b t age show ?thesis
      by (intro that) (simp add: encrypt_for_session_def SessionState_unacknowledged_pre_key_message_items_def
          PreKeySignalMessage_new_def Let_def)
  qed
qed

lemma message_encrypt_ok:
  assumes laws: "hash_lengths E" "cbc_laws E" and r: "sessions st ra = Some r" "sr_current_session r = Some s"
    and h: "session_holds E s rs lid rid" "pending_ok s" and ready: "ready_to_send E s now rng"
    and k: "known_keys st ra \<in> {None, Some rid}"
  obtains cm st' rng' where "inmem_encrypt E pt ra la st now rng = (Inr cm, st', rng')"
proof -
  obtain c where c: "rs_sender_chain rs = Some c" "ck_index (sc_chain_key c) \<noteq> - 1"
    using h(1) ready by (cases "rs_sender_chain rs") (auto simp: ready_to_send_def session_holds_def apply_ratchet_state_iff
        SenderChain_to_pb_def ChainKey_to_pb_def)
  note out = outgoing_from_session [OF h(1) c(1)]
  obtain ot where ot: "OutgoingTripleRatchet_from_session_state E s = (Inr ot, s\<lparr>ss_pq_ratchet_state := []\<rparr>)"
    "ot_pqr_state ot = ss_pq_ratchet_state s" "ck_index (ot_sender_chain_key ot) \<noteq> - 1" using out c by simp
  obtain cm ot' rng' where e: "encrypt_for_session E pt ra la (s\<lparr>ss_pq_ratchet_state := []\<rparr>) ot now rng = (Inr cm, ot', rng')"
    by (rule encrypt_for_session_ok [OF laws _ _ ot(2,3), of "s\<lparr>ss_pq_ratchet_state := []\<rparr>" now rng pt ra la])
       (use h ready in simp_all)
  obtain a where "save_identity inmem_identities st ra rid = (Inr a, saved_identity st ra rid)"
    by (rule inmem_save_identity)
  with that e r k ot session_holds_identities [OF h(1)] show ?thesis
    by (auto simp: message_encrypt_def encrypt_with_record_def expect_def)
qed

text \<open>The initiator's session after the handshake: it holds the ratchet state of the handshake, with the
  pre-key material still pending.\<close>

definition initiated :: "'r Ext \<Rightarrow> PreKeyBundle \<Rightarrow> IdentityKeyPair \<Rightarrow> KeyPair \<Rightarrow> bytes \<Rightarrow> HandshakeKeys \<Rightarrow> SessionState \<Rightarrow>
    RatchetState \<Rightarrow> bool" where
  "initiated E b ik base ct keys s rs \<longleftrightarrow> (\<exists>kp root chain self_session t.
     RootKey_create_chain E (hk_root_key keys) (spb_public_key (pkb_ec_signed_pre_key b)) (kp_private_key kp) = Inr (root, chain) \<and>
     key_pair_ok E kp \<and> spqr_initial E (hk_pqr_key keys) A2B self_session = Inr (ss_pq_ratchet_state s) \<and>
     session_holds E s rs (ikp_identity_key ik) (pkb_identity_key b) \<and> rs_root_key rs = root \<and>
     rs_sender_chain rs = Some \<lparr>sc_ratchet_key = kp, sc_chain_key = chain\<rparr> \<and>
     receiver_view rs (spb_public_key (pkb_ec_signed_pre_key b)) = Some (hk_chain_key keys, []) \<and>
     ss_pending_pre_key s = Some \<lparr>ppk_pre_key_id = pkb_pre_key_id b,
       ppk_signed_pre_key_id = spb_id (pkb_ec_signed_pre_key b), ppk_base_key = PublicKey_serialize (kp_public_key base),
       ppk_timestamp = t\<rparr> \<and>
     ss_pending_kyber_pre_key s = Some \<lparr>pkk_pre_key_id = kpb_id (pkb_kyber_pre_key b), pkk_ciphertext = ct\<rparr>)"

text \<open>What \<open>process_prekey_bundle\<close> has stored when it returns.\<close>

lemma initiator_session_stored:
  assumes laws: "hash_lengths E" "rng_laws E" "x25519_laws E"
    and ok: "identity_pair_ok E ik" "ik = imi_key_pair (identity_store alice)"
      "public_key_ok (spb_public_key (pkb_ec_signed_pre_key b))" "public_key_ok (identity_public_key (pkb_identity_key b))"
    and pb: "process_prekey_bundle E inmem_sessions inmem_identities alice ra la b now rng = (Inr (), alice1, rng1)"
  obtains base rngb ct keys rngi r s rs where "KeyPair_generate E rng = (base, rngb)"
      "Pqxdh_initiate E (initiator_parameters E ik base b ra la) rngb = (Inr (ct, keys), rngi)"
      "sessions alice1 ra = Some r" "sr_current_session r = Some s" "initiated E b ik base ct keys s rs"
proof -
  obtain s r1 where ns: "new_initiator_session E inmem_identities alice b ra la now rng = (Inr s, rng1)"
    and r1: "sessions alice1 ra = Some r1" "sr_current_session r1 = Some s"
    by (cases rule: imps.process_prekey_bundle_cases [OF pb]) (auto simp: SessionRecord_promote_state_def)
  obtain base rngb where g: "KeyPair_generate E rng = (base, rngb)" by fastforce
  define ip where "ip = initiator_parameters E ik base b ra la"
  obtain a where a: "initialize_alice_session E ip rngb = (Inr a, rng1)"
    using ns g ok(2) by (auto simp: new_initiator_session_def ip_def Let_def res_simps split: prod.splits)
  have ipf: "ip_their_ratchet_key ip = spb_public_key (pkb_ec_signed_pre_key b)" "ip_their_identity_key ip = pkb_identity_key b"
    "ip_our_identity_key_pair ip = ik" "ip_our_ephemeral_key_pair ip = base"
    by (auto simp: ip_def initiator_parameters_def InitiatorParameters_new_def Let_def
        InitiatorParameters_set_their_one_time_pre_key_def split: option.splits)
  have okid: "public_key_ok (identity_public_key (ikp_identity_key ik))"
    using key_pair_public_ok [OF laws(3) identity_as_key_pair_ok [OF ok(1)]] by (simp add: identity_as_key_pair_def)
  obtain ct keys rngi kp root chain pq rs where i: "Pqxdh_initiate E ip rngb = (Inr (ct, keys), rngi)"
    and kp: "KeyPair_generate E rngi = (kp, rng1)"
    and cc: "RootKey_create_chain E (hk_root_key keys) (ip_their_ratchet_key ip) (kp_private_key kp) = Inr (root, chain)"
    and sp: "spqr_initial E (hk_pqr_key keys) A2B (ip_self_session ip) = Inr pq" and apq: "ss_pq_ratchet_state a = pq"
    and ha: "session_holds E a rs (ikp_identity_key (ip_our_identity_key_pair ip)) (ip_their_identity_key ip)"
    and rs: "rs_root_key rs = root" "rs_sender_chain rs = Some \<lparr>sc_ratchet_key = kp, sc_chain_key = chain\<rparr>"
      "receiver_view rs (ip_their_ratchet_key ip) = Some (hk_chain_key keys, [])"
    and ky: "ss_pending_kyber_pre_key a = Some \<lparr>pkk_pre_key_id = - 1, pkk_ciphertext = ct\<rparr>"
    by (rule initiator_holds [OF laws a]) (use ok okid ipf in simp_all)
  have s: "s = a\<lparr>ss_pending_pre_key := Some \<lparr>ppk_pre_key_id = pkb_pre_key_id b,
        ppk_signed_pre_key_id = spb_id (pkb_ec_signed_pre_key b), ppk_base_key = PublicKey_serialize (kp_public_key base),
        ppk_timestamp = epoch_secs now\<rparr>,
      ss_pending_kyber_pre_key := Some \<lparr>pkk_pre_key_id = kpb_id (pkb_kyber_pre_key b), pkk_ciphertext = ct\<rparr>,
      ss_local_registration_id := imi_registration_id (identity_store alice),
      ss_remote_registration_id := pkb_registration_id b\<rparr>"
    using ns g a [unfolded ip_def ok(2)] ky by (simp add: new_initiator_session_def Let_def expect_def
        SessionState_set_unacknowledged_pre_key_message_def SessionState_set_unacknowledged_kyber_pre_key_id_def)
  have hs: "session_holds E s rs (ikp_identity_key ik) (pkb_identity_key b)"
    using ha by (simp add: ipf session_holds_def apply_ratchet_state_iff) (simp add: s)
  have "initiated E b ik base ct keys s rs" unfolding initiated_def
    by (rule exI [of _ kp], rule exI [of _ root], rule exI [of _ chain], rule exI [of _ "ip_self_session ip"],
        rule exI [of _ "epoch_secs now"])
       (use cc rs hs sp KeyPair_generate_ok [OF laws(3) kp] in \<open>simp add: ipf s apq\<close>)
  with that [OF g i [unfolded ip_def] r1] show ?thesis by blast
qed

lemma initiated_pending: "\<lbrakk>initiated E b ik base ct keys s rs; public_key_ok (kp_public_key base)\<rbrakk> \<Longrightarrow> pending_ok s"
  by (auto simp: initiated_def pending_ok_def)

text \<open>The first message of the session carries the identifiers of the bundle.\<close>

lemma initiated_message:
  assumes "initiated E b ik base ct keys s rs" "wrapped s lid sm cm"
  obtains m where "cm = CPreKeySignalMessage m" "pk_message m = sm" "pk_message_version m = 4"
    "pk_signed_pre_key_id m = spb_id (pkb_ec_signed_pre_key b)" "pk_pre_key_id m = pkb_pre_key_id b"
    "pk_kyber_payload m = Some \<lparr>kyp_pre_key_id = kpb_id (pkb_kyber_pre_key b), kyp_ciphertext = ct\<rparr>"
    "pk_identity_key m = lid" "pk_base_key m = kp_public_key base"
  using assms by (auto simp: initiated_def wrapped_def PublicKey_serialize_inj)

section \<open>What a store receives\<close>

text \<open>Decryption with the current session of a record.\<close>

lemma current_session_decrypts:
  assumes "sr_current_session r = Some s" "SessionState_session_version s = Inr (ucast (sm_message_version m))"
    and "try_decrypt_with_state E s ra la m t rng = (Inr pt, s', rng')"
  shows "try_decrypt_from_record E r ra la m t rng = (Inr pt, SessionRecord_set_session_state r s', rng')"
  using assms by (simp add: try_decrypt_from_record_def try_decrypt_current_def)

lemma current_session_duplicate:
  assumes "sr_current_session r = Some s" "SessionState_session_version s = Inr (ucast (sm_message_version m))"
    and "try_decrypt_with_state E s ra la m t rng = (Inl (Err (DuplicatedMessage a n)), s', rng')"
  shows "try_decrypt_from_record E r ra la m t rng = (Inl (Err (DuplicatedMessage a n)), r, rng')"
  using assms by (simp add: try_decrypt_from_record_def try_decrypt_current_def)

text \<open>A store whose current session for the sender was made for the sender's pending base key hands the message
  to that session, wrapped or not.\<close>

abbreviation inmem_decrypt where
  "inmem_decrypt E \<equiv> message_decrypt E inmem_sessions inmem_identities inmem_pre_keys inmem_signed_pre_keys
     inmem_kyber_pre_keys"

definition same_base :: "SessionState \<Rightarrow> SessionState \<Rightarrow> bool" where
  "same_base s1 s2 \<longleftrightarrow> (\<forall>p. ss_pending_pre_key s1 = Some p \<longrightarrow> ss_alice_base_key s2 = ppk_base_key p)"

lemma process_prekey_known:
  assumes "sr_current_session r = Some s" "session_holds E s rs lid (pk_identity_key m)"
    and "ss_alice_base_key s = PublicKey_serialize (pk_base_key m)" "pk_message_version m = 4"
    and "known_keys st ra = Some (pk_identity_key m)"
  shows "process_prekey E inmem_identities inmem_pre_keys inmem_signed_pre_keys inmem_kyber_pre_keys st m ra la r =
    (Inr (None, \<lparr>its_remote_address = ra, its_their_identity_key = pk_identity_key m\<rparr>), r)"
proof -
  note ids = session_holds_identities [OF assms(2)]
  have "SessionRecord_promote_matching_session E r (ucast (pk_message_version m)) (PublicKey_serialize (pk_base_key m)) = (Inr True, r)"
    using assms ids by (simp add: SessionRecord_promote_matching_session_def session_matches_def SessionState_alice_base_key_def)
  then show ?thesis using assms ids by (simp add: process_prekey_def process_prekey_impl_def expect_def)
qed

lemma decrypt_with_current:
  assumes w: "wrapped s1 rid sm cm" "same_base s1 s2" and r: "sessions st ra = Some r" "sr_current_session r = Some s2"
    and h: "session_holds E s2 rs lid rid" and k: "known_keys st ra = Some rid"
  shows "try_decrypt_from_record E r ra la sm (CiphertextMessage_message_type cm) rng = (Inl f, r', rng') \<Longrightarrow>
      inmem_decrypt E cm ra la st rng = (Inl f, st, rng')"
    and "\<lbrakk>try_decrypt_from_record E r ra la sm (CiphertextMessage_message_type cm) rng = (Inr pt, r', rng');
        sr_current_session r' = Some s'; SessionState_remote_identity_key s' = Inr (Some rid)\<rbrakk> \<Longrightarrow>
      inmem_decrypt E cm ra la st rng =
        (Inr pt, (saved_identity st ra rid)\<lparr>session_store := \<lparr>imss_sessions = (sessions st)(ra \<mapsto> r')\<rparr>\<rparr>, rng')"
proof -
  obtain c where sv: "save_identity inmem_identities st ra rid = (Inr c, saved_identity st ra rid)"
    by (rule inmem_save_identity)
  consider (bare) "cm = CSignalMessage sm"
    | (wrap) m where "cm = CPreKeySignalMessage m" "pk_message m = sm" "pk_message_version m = 4" "pk_identity_key m = rid"
        "ss_alice_base_key s2 = PublicKey_serialize (pk_base_key m)"
    using w by (cases "ss_pending_pre_key s1") (auto simp: wrapped_def same_base_def)
  note cases = this
  show "inmem_decrypt E cm ra la st rng = (Inl f, st, rng')"
    if t: "try_decrypt_from_record E r ra la sm (CiphertextMessage_message_type cm) rng = (Inl f, r', rng')"
    using cases
  proof cases
    case bare
    with t r show ?thesis by (simp add: message_decrypt_def message_decrypt_signal_def)
  next
    case (wrap m)
    with t r k process_prekey_known [OF r(2), of E rs lid m st ra la] h show ?thesis
      by (simp add: message_decrypt_def message_decrypt_prekey_def)
  qed
  show "inmem_decrypt E cm ra la st rng =
        (Inr pt, (saved_identity st ra rid)\<lparr>session_store := \<lparr>imss_sessions = (sessions st)(ra \<mapsto> r')\<rparr>\<rparr>, rng')"
    if t: "try_decrypt_from_record E r ra la sm (CiphertextMessage_message_type cm) rng = (Inr pt, r', rng')"
      "sr_current_session r' = Some s'" "SessionState_remote_identity_key s' = Inr (Some rid)"
    using cases
  proof cases
    case bare
    with t r k sv show ?thesis by (simp add: message_decrypt_def message_decrypt_signal_def expect_def)
  next
    case (wrap m)
    with t r k sv process_prekey_known [OF r(2), of E rs lid m st ra la] h show ?thesis
      by (simp add: message_decrypt_def message_decrypt_prekey_def mark_pre_keys_used_def)
  qed
qed

lemma used_up_duplicate:
  assumes u: "used_up E lid rid s2 sm" "sm_message_version sm = 4" and w: "wrapped s1 rid sm cm" "same_base s1 s2"
    and r: "sessions st ra = Some r" "sr_current_session r = Some s2" and k: "known_keys st ra = Some rid"
  shows "\<exists>a. inmem_decrypt E cm ra la st rng = (Inl (Err (DuplicatedMessage a (sm_counter sm))), st, rng)"
proof -
  obtain rs ck ks where h: "session_holds E s2 rs lid rid" and v: "receiver_view rs (sm_sender_ratchet_key sm) = Some (ck, ks)"
    "dr_gone (sm_counter sm) (ck, ks)" using u(1) unfolding used_up_def by (metis prod.exhaust)
  obtain s' where "try_decrypt_with_state E s2 ra la sm (CiphertextMessage_message_type cm) rng =
      (Inl (Err (DuplicatedMessage (ck_index ck) (sm_counter sm))), s', rng)"
    using try_decrypt_replay [OF h v] by blast
  with r(2) session_holds_identities [OF h] u(2) have "try_decrypt_from_record E r ra la sm (CiphertextMessage_message_type cm) rng =
      (Inl (Err (DuplicatedMessage (ck_index ck) (sm_counter sm))), r, rng)"
    by (intro current_session_duplicate) simp_all
  from decrypt_with_current(1) [OF w r h k this] show ?thesis by blast
qed

text \<open>The recipient's session after the handshake.\<close>

definition accepted :: "'r Ext \<Rightarrow> PreKeyBundle \<Rightarrow> IdentityKeyPair \<Rightarrow> KeyPair \<Rightarrow> HandshakeKeys \<Rightarrow> SessionState \<Rightarrow> bool" where
  "accepted E b ik base keys s \<longleftrightarrow> (\<exists>rs k self_session. session_holds E s rs (pkb_identity_key b) (ikp_identity_key ik) \<and>
     stored_pair_ok E k \<and> kp_public_key k = spb_public_key (pkb_ec_signed_pre_key b) \<and> rs_root_key rs = hk_root_key keys \<and>
     rs_sender_chain rs = Some \<lparr>sc_ratchet_key = k, sc_chain_key = hk_chain_key keys\<rparr> \<and> rs_receiver_chains rs = [] \<and>
     spqr_initial E (hk_pqr_key keys) B2A self_session = Inr (ss_pq_ratchet_state s) \<and>
     ss_alice_base_key s = PublicKey_serialize (kp_public_key base) \<and> ss_pending_pre_key s = None)"

text \<open>The recipient finds no session for the base key and makes one.\<close>

lemma recipient_session_made:
  assumes laws: "hash_lengths E" "x25519_laws E" "kem_laws E" "spqr_laws E R" and p: "published E bob b"
    and i: "Pqxdh_initiate E (initiator_parameters E ik base b la ra) rngb = (Inr (ct, keys), rngi)"
    and m: "pk_message_version m = 4" "pk_signed_pre_key_id m = spb_id (pkb_ec_signed_pre_key b)" "pk_pre_key_id m = pkb_pre_key_id b"
      "pk_kyber_payload m = Some \<lparr>kyp_pre_key_id = kpb_id (pkb_kyber_pre_key b), kyp_ciphertext = ct\<rparr>"
      "pk_identity_key m = ikp_identity_key ik" "pk_base_key m = kp_public_key base"
    and ok: "identity_pair_ok E ik" "key_pair_ok E base" "PublicKey_is_canonical E (kp_public_key base)"
    and trust: "known_keys bob ra \<in> {None, Some (ikp_identity_key ik)}"
    and nomatch: "SessionRecord_promote_matching_session E r0 4 (PublicKey_serialize (kp_public_key base)) = (Inr False, r0)"
  obtains s where "process_prekey E inmem_identities inmem_pre_keys inmem_signed_pre_keys inmem_kyber_pre_keys bob
        m ra la r0 = (Inr (Some \<lparr>pku_one_time_ec_pre_key_id = pkb_pre_key_id b,
          pku_signed_ec_pre_key_id = spb_id (pkb_ec_signed_pre_key b),
          pku_kyber_pre_key_id = Some (kpb_id (pkb_kyber_pre_key b))\<rparr>,
          \<lparr>its_remote_address = ra, its_their_identity_key = ikp_identity_key ik\<rparr>), SessionRecord_promote_state E r0 s)"
    and "accepted E b ik base keys s"
proof -
  obtain rp where rp: "inmem_recipient_parameters E bob m ra la = Inr rp"
    "pqxdh_matches E (initiator_parameters E ik base b la ra) ct rp" "stored_pair_ok E (rp_our_signed_pre_key_pair rp)"
    "kp_public_key (rp_our_signed_pre_key_pair rp) = spb_public_key (pkb_ec_signed_pre_key b)"
    "rp_our_identity_key_pair rp = imi_key_pair (identity_store bob)" "rp_their_identity_key rp = ikp_identity_key ik"
    "rp_their_ephemeral_key rp = kp_public_key base"
    by (rule published_parameters [OF laws(2,3) p m(2-6) ok])
  have acc: "Pqxdh_accept E rp = Inr keys" by (rule px.agree [OF i rp(2)])
  obtain h where "keys = HandshakeKeys_derive E h" using Pqxdh_initiate_derives [OF i] by auto
  note l = derive_lengths [OF laws(1), of h, folded this]
  have idok: "public_key_ok (identity_public_key (ikp_identity_key q))" if "identity_pair_ok E q" for q
    using key_pair_public_ok [OF laws(2) identity_as_key_pair_ok [OF that]] by (simp add: identity_as_key_pair_def)
  have ids: "identity_pair_ok E (imi_key_pair (identity_store bob))" "pkb_identity_key b = ikp_identity_key (imi_key_pair (identity_store bob))"
    using p by (simp_all add: published_def)
  obtain pqb where sp: "spqr_initial E (hk_pqr_key keys) B2A (rp_self_session rp) = Inr pqb"
    using laws(4) unfolding spqr_laws_def by blast
  obtain s0 rs where s0: "initialize_recipient_session E rp (rp_our_signed_pre_key_pair rp) (hk_root_key keys) (hk_chain_key keys)
      (hk_pqr_key keys) = Inr s0"
    and h0: "session_holds E s0 rs (ikp_identity_key (rp_our_identity_key_pair rp)) (rp_their_identity_key rp)"
    and f: "rs_root_key rs = hk_root_key keys" "rs_receiver_chains rs = []"
      "rs_sender_chain rs = Some \<lparr>sc_ratchet_key = rp_our_signed_pre_key_pair rp, sc_chain_key = hk_chain_key keys\<rparr>"
      "ss_pq_ratchet_state s0 = pqb" "ss_alice_base_key s0 = PublicKey_serialize (rp_their_ephemeral_key rp)"
      "ss_pending_pre_key s0 = None"
    by (rule recipient_holds [OF laws(2) rp(3) l _ _ sp]) (use idok ok ids rp in simp_all)
  define s where "s = s0\<lparr>ss_local_registration_id := imi_registration_id (identity_store bob),
    ss_remote_registration_id := pk_registration_id m\<rparr>"
  have "new_recipient_session E inmem_signed_pre_keys inmem_kyber_pre_keys inmem_pre_keys inmem_identities bob m ra la = Inr s"
    by (simp add: new_recipient_session_def rp(1) initialize_bob_session_def acc s0 s_def)
  then have "process_prekey E inmem_identities inmem_pre_keys inmem_signed_pre_keys inmem_kyber_pre_keys bob
        m ra la r0 = (Inr (Some \<lparr>pku_one_time_ec_pre_key_id = pkb_pre_key_id b,
          pku_signed_ec_pre_key_id = spb_id (pkb_ec_signed_pre_key b),
          pku_kyber_pre_key_id = Some (kpb_id (pkb_kyber_pre_key b))\<rparr>,
          \<lparr>its_remote_address = ra, its_their_identity_key = ikp_identity_key ik\<rparr>), SessionRecord_promote_state E r0 s)"
    using trust nomatch m by (auto simp: process_prekey_def process_prekey_impl_def version_defs)
  moreover from h0 rp ids have "session_holds E s rs (pkb_identity_key b) (ikp_identity_key ik)"
    by (simp add: session_holds_def apply_ratchet_state_iff) (simp add: s_def)
  then have "accepted E b ik base keys s" unfolding accepted_def
    by (intro exI [of _ rs] exI [of _ "rp_our_signed_pre_key_pair rp"] exI [of _ "rp_self_session rp"])
       (use f sp rp in \<open>simp add: s_def\<close>)
  ultimately show ?thesis using that by blast
qed

text \<open>The two sessions of a handshake are in step.\<close>

lemma handshake_in_step:
  assumes laws: "spqr_laws E R" and i: "initiated E b ik base ct keys s1 a" and r: "accepted E b ik base keys s2"
  shows "in_step E R (ikp_identity_key ik) (pkb_identity_key b) s1 s2"
proof -
  obtain kp root chain self1 where A: "RootKey_create_chain E (hk_root_key keys) (spb_public_key (pkb_ec_signed_pre_key b))
        (kp_private_key kp) = Inr (root, chain)" "key_pair_ok E kp"
      "spqr_initial E (hk_pqr_key keys) A2B self1 = Inr (ss_pq_ratchet_state s1)"
      "session_holds E s1 a (ikp_identity_key ik) (pkb_identity_key b)" "rs_root_key a = root"
      "rs_sender_chain a = Some \<lparr>sc_ratchet_key = kp, sc_chain_key = chain\<rparr>"
      "receiver_view a (spb_public_key (pkb_ec_signed_pre_key b)) = Some (hk_chain_key keys, [])"
    using i unfolding initiated_def by blast
  obtain c k self2 where B: "session_holds E s2 c (pkb_identity_key b) (ikp_identity_key ik)" "stored_pair_ok E k"
      "kp_public_key k = spb_public_key (pkb_ec_signed_pre_key b)" "rs_root_key c = hk_root_key keys"
      "rs_sender_chain c = Some \<lparr>sc_ratchet_key = k, sc_chain_key = hk_chain_key keys\<rparr>" "rs_receiver_chains c = []"
      "spqr_initial E (hk_pqr_key keys) B2A self2 = Inr (ss_pq_ratchet_state s2)"
    using r unfolding accepted_def by blast
  have "R (ss_pq_ratchet_state s1) (ss_pq_ratchet_state s2)" using laws A(3) B(7) unfolding spqr_laws_def by blast
  moreover have "can_receive E a c"
    using A B by (simp add: can_receive_def find_receiver_chain_index_def dh_synced_def stored_pair_ok_def)
  moreover have "can_receive E c a" using A B dr.chain_inv_start by (auto simp: can_receive_def)
  ultimately show ?thesis using A(4) B(1) by (auto simp: in_step_def)
qed

text \<open>The bookkeeping after decryption, when the session is new.\<close>

lemma prekey_decryption_ok:
  assumes "process_prekey E inmem_identities inmem_pre_keys inmem_signed_pre_keys inmem_kyber_pre_keys st m ra la
      (record_or_fresh (sessions st ra)) = (Inr (Some u, its), r1)"
    and "try_decrypt_from_record E r1 ra la (pk_message m) PreKeyType rng = (Inr pt, r2, rng')"
    and "pku_kyber_pre_key_id u = Some i" "pk_base_key m \<notin> set (base_keys_seen st i (pku_signed_ec_pre_key_id u))"
  obtains st' where "inmem_decrypt_prekey E m ra la st rng = (Inr pt, st', rng')" "sessions st' ra = Some r2"
    "known_keys st' ra = Some (pk_identity_key m)" "\<forall>j. pku_one_time_ec_pre_key_id u = Some j \<longrightarrow> one_time_keys st' j = None"
proof -
  have its: "its = \<lparr>its_remote_address = ra, its_their_identity_key = pk_identity_key m\<rparr>"
    using imps.process_prekey_identity [OF assms(1)] by simp
  obtain c where sv: "save_identity inmem_identities st ra (pk_identity_key m) = (Inr c, saved_identity st ra (pk_identity_key m))"
    by (rule inmem_save_identity)
  let ?st1 = "saved_identity st ra (pk_identity_key m)"
  have seen: "base_keys_seen ?st1 = base_keys_seen st" by (simp add: base_keys_seen_def fun_eq_iff)
  obtain st2 where mk: "mark_pre_keys_used inmem_pre_keys inmem_kyber_pre_keys (Some u) (pk_base_key m) ?st1 = (Inr (), st2)"
    "known_keys st2 ra = Some (pk_identity_key m)" "\<forall>j. pku_one_time_ec_pre_key_id u = Some j \<longrightarrow> one_time_keys st2 j = None"
    using assms(3,4) by (cases "pku_one_time_ec_pre_key_id u") (simp_all add: mark_pre_keys_used_def inmem_mark_used seen)
  show ?thesis
    by (rule that [of "st2\<lparr>session_store := \<lparr>imss_sessions = (sessions st2)(ra \<mapsto> r2)\<rparr>\<rparr>"])
       (use assms(1,2) its sv mk in \<open>simp_all add: message_decrypt_prekey_def\<close>)
qed

section \<open>Two stores in conversation\<close>

text \<open>The current sessions of two stores for each other are in step, each store knows the identity of the
  other, and a pending base key is the one the other side's session was made for.\<close>

definition in_conversation :: "'r Ext \<Rightarrow> (bytes \<Rightarrow> bytes \<Rightarrow> bool) \<Rightarrow> ProtocolAddress \<Rightarrow> ProtocolAddress \<Rightarrow>
    InMemSignalProtocolStore \<Rightarrow> InMemSignalProtocolStore \<Rightarrow> bool" where
  "in_conversation E R aA aB A B \<longleftrightarrow> (\<exists>rA sA rB sB idA idB.
     sessions A aB = Some rA \<and> sr_current_session rA = Some sA \<and> known_keys A aB = Some idB \<and>
     sessions B aA = Some rB \<and> sr_current_session rB = Some sB \<and> known_keys B aA = Some idA \<and>
     in_step E R idA idB sA sB \<and> pending_ok sA \<and> pending_ok sB \<and> same_base sA sB \<and> same_base sB sA)"

lemma in_conversationI:
  assumes "sessions A aB = Some rA" "sr_current_session rA = Some sA" "known_keys A aB = Some idB"
    and "sessions B aA = Some rB" "sr_current_session rB = Some sB" "known_keys B aA = Some idA"
    and "in_step E R idA idB sA sB" "pending_ok sA" "same_base sA sB" "ss_pending_pre_key sB = None"
  shows "in_conversation E R aA aB A B"
  using assms unfolding in_conversation_def by (auto simp: pending_ok_def same_base_def)

text \<open>The key that the receiver of the sender's next message may generate for its Diffie-Hellman step is a good
  one for the session of the sender.\<close>

definition fresh_ratchet_key :: "'r Ext \<Rightarrow> InMemSignalProtocolStore \<Rightarrow> ProtocolAddress \<Rightarrow> 'r \<Rightarrow> bool" where
  "fresh_ratchet_key E sender to rng \<longleftrightarrow> (case Option.bind (sessions sender to) sr_current_session of None \<Rightarrow> True
     | Some s \<Rightarrow> good_ratchet_key E s (fst (KeyPair_generate E rng)))"

lemma wrapped_inner: "wrapped s lid sm cm \<Longrightarrow> inner_message cm = Some sm"
  by (auto simp: wrapped_def split: option.splits)

lemma in_conversation_sym:
  "\<lbrakk>spqr_laws E R; in_conversation E R aA aB A B\<rbrakk> \<Longrightarrow> in_conversation E R aB aA B A"
  unfolding in_conversation_def using in_step_sym by metis

lemma sent_pending [simp]:
  "ss_pending_pre_key (OutgoingTripleRatchet_apply_to_session_state ot s) = ss_pending_pre_key s"
  "ss_pending_kyber_pre_key (OutgoingTripleRatchet_apply_to_session_state ot s) = ss_pending_kyber_pre_key s"
  "ss_alice_base_key (OutgoingTripleRatchet_apply_to_session_state ot s) = ss_alice_base_key s"
  by (simp_all add: OutgoingTripleRatchet_apply_to_session_state_def SessionState_set_pq_ratchet_state_def
      SessionState_set_sender_chain_key_def Let_def split: option.splits)

lemma sent_pending_ok [simp]:
  "pending_ok (OutgoingTripleRatchet_apply_to_session_state ot s) = pending_ok s"
  "same_base (OutgoingTripleRatchet_apply_to_session_state ot s) s' = same_base s s'"
  "same_base (s\<lparr>ss_pq_ratchet_state := x\<rparr>) s' = same_base s s'"
  by (simp_all add: pending_ok_def same_base_def)

text \<open>What a message of a conversation is, and that the receiver's current session decrypts it.\<close>

lemma conversation_message:
  assumes laws: "hash_lengths E" "cbc_laws E" "x25519_laws E" "rng_laws E" "spqr_laws E R"
    and c: "in_conversation E R aA aB A B" and enc: "inmem_encrypt E pt aB aA A now rng = (Inr cm, A', rng1)"
    and fresh: "fresh_ratchet_key E A aB rng2"
  obtains sA rA' sA' rB sB b idA idB sm where "sessions A' aB = Some rA'" "sr_current_session rA' = Some sA'"
      "known_keys A' aB = Some idB" "ss_pending_pre_key sA' = ss_pending_pre_key sA" "pending_ok sA'"
    and "sessions B aA = Some rB" "sr_current_session rB = Some sB" "known_keys B aA = Some idA" "session_holds E sB b idB idA"
    and "wrapped sA idA sm cm" "same_base sA sB" "sm_message_version sm = 4"
    and "\<forall>t. \<exists>s2' rng3. try_decrypt_with_state E sB aA aB sm t rng2 = (Inr pt, s2', rng3) \<and> in_step E R idA idB sA' s2' \<and>
        used_up E idB idA s2' sm \<and> ss_pending_pre_key s2' = None \<and> ss_alice_base_key s2' = ss_alice_base_key sB"
proof -
  obtain rA sA rB sB idA idB where A: "sessions A aB = Some rA" "sr_current_session rA = Some sA" "known_keys A aB = Some idB"
    and B: "sessions B aA = Some rB" "sr_current_session rB = Some sB" "known_keys B aA = Some idA"
    and i: "in_step E R idA idB sA sB" and p: "pending_ok sA" "same_base sA sB"
    using c unfolding in_conversation_def by blast
  obtain a b ca where h: "session_holds E sA a idA idB" "rs_sender_chain a = Some ca" "session_holds E sB b idB idA"
    using i by (auto simp: in_step_def can_receive_def)
  obtain ot s1 ot' sm la rA' where out: "OutgoingTripleRatchet_from_session_state E sA = (Inr ot, s1)"
    and sm: "OutgoingTripleRatchet_encrypt E ot pt la aB rng = (Inr sm, ot', rng1)" "la = None \<or> la = Some aA"
    and w: "wrapped sA idA sm cm" and A': "known_keys A' aB = Some idB" "sessions A' aB = Some rA'"
      "sr_current_session rA' = Some (OutgoingTripleRatchet_apply_to_session_state ot' s1)"
    by (rule message_sent [OF enc A(1,2) h(1,2) p(1)])
  have s1: "s1 = sA\<lparr>ss_pq_ratchet_state := []\<rparr>" and v: "sm_message_version sm = 4"
    using outgoing_from_session [OF h(1,2)] out sm(1) by (auto elim: outgoing_encrypt_InrD)
  obtain kb rngb where kb: "KeyPair_generate E rng2 = (kb, rngb)" by fastforce
  have key: "good_ratchet_key E sA kb" using fresh kb A by (simp add: fresh_ratchet_key_def)
  have "\<exists>s2' rng3. try_decrypt_with_state E sB aA aB sm t rng2 = (Inr pt, s2', rng3) \<and>
      in_step E R idA idB (OutgoingTripleRatchet_apply_to_session_state ot' s1) s2' \<and> used_up E idB idA s2' sm \<and>
      ss_pending_pre_key s2' = None \<and> ss_alice_base_key s2' = ss_alice_base_key sB" for t
    by (rule in_step_deliver [OF laws i out sm kb key]) blast
  then show ?thesis
    by (intro that [OF A'(2,3,1) _ _ B h(3) w p(2) v]) (simp_all add: s1 p)
qed

lemma conversation_step:
  assumes laws: "hash_lengths E" "cbc_laws E" "x25519_laws E" "rng_laws E" "spqr_laws E R"
    and c: "in_conversation E R aA aB A B" and enc: "inmem_encrypt E pt aB aA A now rng = (Inr cm, A', rng1)"
    and fresh: "fresh_ratchet_key E A aB rng2"
  obtains B' rng3 sm where "inmem_decrypt E cm aA aB B rng2 = (Inr pt, B', rng3)" "in_conversation E R aA aB A' B'"
    "inner_message cm = Some sm" "\<And>rng4. \<exists>a. inmem_decrypt E cm aA aB B' rng4 = (Inl (Err (DuplicatedMessage a (sm_counter sm))), B', rng4)"
proof -
  obtain sA rA' sA' rB sB b idA idB sm where A': "sessions A' aB = Some rA'" "sr_current_session rA' = Some sA'"
      "known_keys A' aB = Some idB" "ss_pending_pre_key sA' = ss_pending_pre_key sA" "pending_ok sA'"
    and B: "sessions B aA = Some rB" "sr_current_session rB = Some sB" "known_keys B aA = Some idA"
    and h: "session_holds E sB b idB idA" and w: "wrapped sA idA sm cm" "same_base sA sB" and v: "sm_message_version sm = 4"
    and D: "\<forall>t. \<exists>s2' rng3. try_decrypt_with_state E sB aA aB sm t rng2 = (Inr pt, s2', rng3) \<and> in_step E R idA idB sA' s2' \<and>
        used_up E idB idA s2' sm \<and> ss_pending_pre_key s2' = None \<and> ss_alice_base_key s2' = ss_alice_base_key sB"
    by (rule conversation_message [OF laws c enc fresh])
  obtain s2' rng3 where d: "try_decrypt_with_state E sB aA aB sm (CiphertextMessage_message_type cm) rng2 = (Inr pt, s2', rng3)"
    and i': "in_step E R idA idB sA' s2'" and u: "used_up E idB idA s2' sm"
    and f: "ss_pending_pre_key s2' = None" "ss_alice_base_key s2' = ss_alice_base_key sB" using D by blast
  let ?r' = "SessionRecord_set_session_state rB s2'"
  define B' where "B' = (saved_identity B aA idA)\<lparr>session_store := \<lparr>imss_sessions = (sessions B)(aA \<mapsto> ?r')\<rparr>\<rparr>"
  have t: "try_decrypt_from_record E rB aA aB sm (CiphertextMessage_message_type cm) rng2 = (Inr pt, ?r', rng3)"
    using B d v session_holds_identities [OF h] by (intro current_session_decrypts) simp_all
  have rid: "SessionState_remote_identity_key s2' = Inr (Some idA)"
    using i' session_holds_identities by (auto simp: in_step_def)
  have dec: "inmem_decrypt E cm aA aB B rng2 = (Inr pt, B', rng3)"
    unfolding B'_def by (rule decrypt_with_current(2) [OF w B(1,2) h B(3) t _ rid])
      (simp add: SessionRecord_set_session_state_def)
  have B': "sessions B' aA = Some ?r'" "sr_current_session ?r' = Some s2'" "known_keys B' aA = Some idA"
    by (simp_all add: B'_def SessionRecord_set_session_state_def)
  have sb: "same_base sA s2'" "same_base sA' s2'" using w(2) f A'(4) by (simp_all add: same_base_def)
  have "in_conversation E R aA aB A' B'" by (rule in_conversationI [OF A'(1-3) B' i' A'(5) sb(2) f(1)])
  moreover have "\<exists>a. inmem_decrypt E cm aA aB B' rng4 = (Inl (Err (DuplicatedMessage a (sm_counter sm))), B', rng4)" for rng4
    by (rule used_up_duplicate [OF u v w(1) sb(1) B'])
  ultimately show ?thesis using that dec wrapped_inner [OF w(1)] by blast
qed

text \<open>The Signal message inside is decrypted by \<open>message_decrypt_signal\<close> as well.\<close>

lemma inner_message_decrypts:
  assumes laws: "hash_lengths E" "cbc_laws E" "x25519_laws E" "rng_laws E" "spqr_laws E R"
    and c: "in_conversation E R aA aB A B" and enc: "inmem_encrypt E pt aB aA A now rng = (Inr cm, A', rng1)"
    and fresh: "fresh_ratchet_key E A aB rng2"
  obtains sm B' rng3 where "inner_message cm = Some sm" "inmem_decrypt_signal E sm aA aB B rng2 = (Inr pt, B', rng3)"
proof -
  obtain sA sA' rB sB b idA idB sm where B: "sessions B aA = Some rB" "sr_current_session rB = Some sB" "known_keys B aA = Some idA"
    and h: "session_holds E sB b idB idA" and w: "wrapped sA idA sm cm" and v: "sm_message_version sm = 4"
    and D: "\<forall>t. \<exists>s2' rng3. try_decrypt_with_state E sB aA aB sm t rng2 = (Inr pt, s2', rng3) \<and> in_step E R idA idB sA' s2' \<and>
        used_up E idB idA s2' sm \<and> ss_pending_pre_key s2' = None \<and> ss_alice_base_key s2' = ss_alice_base_key sB"
    by (rule conversation_message [OF laws c enc fresh])
  obtain s2' rng3 where d: "try_decrypt_with_state E sB aA aB sm WhisperType rng2 = (Inr pt, s2', rng3)"
    and i': "in_step E R idA idB sA' s2'" using D by blast
  let ?r' = "SessionRecord_set_session_state rB s2'"
  have t: "try_decrypt_from_record E rB aA aB sm WhisperType rng2 = (Inr pt, ?r', rng3)"
    using B d v session_holds_identities [OF h] by (intro current_session_decrypts) simp_all
  have rid: "SessionState_remote_identity_key s2' = Inr (Some idA)"
    using i' session_holds_identities by (auto simp: in_step_def)
  obtain x where "save_identity inmem_identities B aA idA = (Inr x, saved_identity B aA idA)" by (rule inmem_save_identity)
  with B t rid have "\<exists>B'. inmem_decrypt_signal E sm aA aB B rng2 = (Inr pt, B', rng3)"
    by (simp add: message_decrypt_signal_def expect_def SessionRecord_set_session_state_def)
  with that wrapped_inner [OF w] show ?thesis by blast
qed

lemma conversation_sends:
  assumes "hash_lengths E" "cbc_laws E" "in_conversation E R aA aB A B"
    and "sessions A aB = Some r" "sr_current_session r = Some s" "ready_to_send E s now rng"
  obtains cm A' rng1 where "inmem_encrypt E pt aB aA A now rng = (Inr cm, A', rng1)"
proof -
  obtain rs idA idB where "session_holds E s rs idA idB" "pending_ok s" "known_keys A aB = Some idB"
    using assms(3-5) by (auto simp: in_conversation_def in_step_def)
  with that show ?thesis using message_encrypt_ok [OF assms(1,2,4,5) _ _ assms(6)] by (metis insertCI)
qed

lemma conversation_step_result:
  assumes "hash_lengths E" "cbc_laws E" "x25519_laws E" "rng_laws E" "spqr_laws E R" "in_conversation E R aA aB A B"
    and "inmem_encrypt E pt aB aA A now rng = (Inr cm, A', rng1)" "fresh_ratchet_key E A aB rng2"
    and "inmem_decrypt E cm aA aB B rng2 = (res, B', rng3)"
  shows "res = Inr pt" "in_conversation E R aA aB A' B'"
  using assms(9) by (auto intro: conversation_step [OF assms(1-8)])

text \<open>The first message makes two stores that are in conversation.\<close>

lemma first_message_delivered:
  assumes laws: "hash_lengths E" "cbc_laws E" "kem_laws E" "x25519_laws E" "rng_laws E" "spqr_laws E R"
    and p: "published E bob b" and ik: "identity_pair_ok E (imi_key_pair (identity_store alice))"
    and pb: "process_prekey_bundle E inmem_sessions inmem_identities alice bob_address alice_address b now rng = (Inr (), alice1, rng1)"
    and enc: "inmem_encrypt E pt bob_address alice_address alice1 now' rng2 = (Inr cm, alice2, rng3)"
    and base: "KeyPair_generate E rng = (base, rngb)" "PublicKey_is_canonical E (kp_public_key base)"
    and trust: "known_keys bob alice_address \<in> {None, Some (ikp_identity_key (imi_key_pair (identity_store alice)))}"
    and nomatch: "\<And>r. r = record_or_fresh (sessions bob alice_address) \<Longrightarrow>
      SessionRecord_promote_matching_session E r 4 (PublicKey_serialize (kp_public_key base)) = (Inr False, r)"
    and unseen: "kp_public_key base \<notin> set (base_keys_seen bob (kpb_id (pkb_kyber_pre_key b)) (spb_id (pkb_ec_signed_pre_key b)))"
    and fresh: "fresh_ratchet_key E alice1 bob_address rng4"
  obtains m bob' rng5 where "cm = CPreKeySignalMessage m"
    "inmem_decrypt_prekey E m alice_address bob_address bob rng4 = (Inr pt, bob', rng5)"
    "in_conversation E R alice_address bob_address alice2 bob'"
    "known_keys bob' alice_address = Some (ikp_identity_key (imi_key_pair (identity_store alice)))"
    "\<And>i. pkb_pre_key_id b = Some i \<Longrightarrow> one_time_keys bob' i = None"
    "\<And>rng6. \<exists>a. inmem_decrypt_prekey E m alice_address bob_address bob' rng6 =
      (Inl (Err (DuplicatedMessage a (sm_counter (pk_message m)))), bob', rng6)"
proof -
  let ?ik = "imi_key_pair (identity_store alice)" and ?r0 = "record_or_fresh (sessions bob alice_address)"
  let ?idA = "ikp_identity_key ?ik" and ?idB = "pkb_identity_key b" and ?kid = "kpb_id (pkb_kyber_pre_key b)"
  obtain ct keys rngi r s rs where i: "Pqxdh_initiate E (initiator_parameters E ?ik base b bob_address alice_address) rngb =
        (Inr (ct, keys), rngi)"
    and r: "sessions alice1 bob_address = Some r" "sr_current_session r = Some s" and ini: "initiated E b ?ik base ct keys s rs"
    by (rule initiator_session_stored [OF laws(1,5,4) ik refl published_keys_ok [OF laws(4) p] pb]) (use base in simp)
  have okb: "key_pair_ok E base" "public_key_ok (kp_public_key base)"
    using KeyPair_generate_ok [OF laws(4) base(1)] key_pair_public_ok [OF laws(4)] by blast+
  note po = initiated_pending [OF ini okb(2)]
  obtain c where h: "session_holds E s rs ?idA ?idB" "rs_sender_chain rs = Some c" using ini unfolding initiated_def by blast
  obtain ot s1 ot' sm la ra2 where out: "OutgoingTripleRatchet_from_session_state E s = (Inr ot, s1)"
    and sm: "OutgoingTripleRatchet_encrypt E ot pt la bob_address rng2 = (Inr sm, ot', rng3)" "la = None \<or> la = Some alice_address"
    and w: "wrapped s ?idA sm cm" and k2: "known_keys alice2 bob_address = Some ?idB"
    and a2: "sessions alice2 bob_address = Some ra2"
      "sr_current_session ra2 = Some (OutgoingTripleRatchet_apply_to_session_state ot' s1)"
    by (rule message_sent [OF enc r h po])
  obtain m where m: "cm = CPreKeySignalMessage m" "pk_message m = sm"
    and mf: "pk_message_version m = 4" "pk_signed_pre_key_id m = spb_id (pkb_ec_signed_pre_key b)" "pk_pre_key_id m = pkb_pre_key_id b"
      "pk_kyber_payload m = Some \<lparr>kyp_pre_key_id = ?kid, kyp_ciphertext = ct\<rparr>"
      "pk_identity_key m = ?idA" "pk_base_key m = kp_public_key base"
    by (rule initiated_message [OF ini w])
  obtain s2 where pp: "process_prekey E inmem_identities inmem_pre_keys inmem_signed_pre_keys inmem_kyber_pre_keys
        bob m alice_address bob_address ?r0 = (Inr (Some \<lparr>pku_one_time_ec_pre_key_id = pkb_pre_key_id b,
            pku_signed_ec_pre_key_id = spb_id (pkb_ec_signed_pre_key b), pku_kyber_pre_key_id = Some ?kid\<rparr>,
          \<lparr>its_remote_address = alice_address, its_their_identity_key = ?idA\<rparr>), SessionRecord_promote_state E ?r0 s2)"
    and acc: "accepted E b ?ik base keys s2"
    by (rule recipient_session_made [OF laws(1,4,3,6) p i mf ik okb(1) base(2) trust nomatch [OF refl]])
  obtain rs2 where h2: "session_holds E s2 rs2 ?idB ?idA" and s2: "ss_alice_base_key s2 = PublicKey_serialize (kp_public_key base)"
    using acc unfolding accepted_def by blast
  obtain kb rngb where kb: "KeyPair_generate E rng4 = (kb, rngb)" by fastforce
  have key: "good_ratchet_key E s kb"
    using fresh kb r by (simp add: fresh_ratchet_key_def)
  obtain s' rng5 where d: "try_decrypt_with_state E s2 alice_address bob_address sm PreKeyType rng4 = (Inr pt, s', rng5)"
    and i': "in_step E R ?idA ?idB (OutgoingTripleRatchet_apply_to_session_state ot' s1) s'" and u: "used_up E ?idB ?idA s' sm"
    and f: "sm_message_version sm = 4" "ss_pending_pre_key s' = None" "ss_alice_base_key s' = ss_alice_base_key s2"
    by (rule in_step_deliver [OF laws(1,2,4-6) handshake_in_step [OF laws(6) ini acc] out sm kb key])
  let ?r1 = "SessionRecord_promote_state E ?r0 s2" and ?r2 = "SessionRecord_set_session_state (SessionRecord_promote_state E ?r0 s2) s'"
  have dec: "try_decrypt_from_record E ?r1 alice_address bob_address (pk_message m) PreKeyType rng4 = (Inr pt, ?r2, rng5)"
    using d session_holds_identities [OF h2] f m by (intro current_session_decrypts) (simp_all add: SessionRecord_promote_state_def)
  obtain bob' where bob': "inmem_decrypt_prekey E m alice_address bob_address bob rng4 = (Inr pt, bob', rng5)"
    "sessions bob' alice_address = Some ?r2" "known_keys bob' alice_address = Some (pk_identity_key m)"
    "\<forall>j. pkb_pre_key_id b = Some j \<longrightarrow> one_time_keys bob' j = None"
    by (rule prekey_decryption_ok [OF pp dec, of ?kid]) (use unseen mf in simp_all)
  have cur: "sr_current_session ?r2 = Some s'" by (simp add: SessionRecord_set_session_state_def)
  have s1: "s1 = s\<lparr>ss_pq_ratchet_state := []\<rparr>" using outgoing_from_session [OF h] out by simp
  have sb: "same_base s s'" using ini s2 f by (auto simp: same_base_def initiated_def)
  have "in_conversation E R alice_address bob_address alice2 bob'"
    by (rule in_conversationI [OF a2 k2 bob'(2) cur _ i']) (use bob' mf po sb f in \<open>simp_all add: s1\<close>)
  moreover have "\<exists>a. inmem_decrypt E cm alice_address bob_address bob' rng6 =
      (Inl (Err (DuplicatedMessage a (sm_counter sm))), bob', rng6)" for rng6
    by (rule used_up_duplicate [OF u f(1) w sb bob'(2) cur]) (use bob' mf in simp)
  ultimately show ?thesis using that [of m bob' rng5] m bob' mf by (simp add: message_decrypt_def)
qed


section \<open>Conversations\<close>

text \<open>A run of a conversation from the pair of stores \<open>S\<close>: one side sends, the other side decrypts what was sent,
  with any random source and at any time. The log keeps each plaintext with what the receiver got.\<close>

inductive talk :: "'r Ext \<Rightarrow> ProtocolAddress \<Rightarrow> ProtocolAddress \<Rightarrow> InMemSignalProtocolStore \<times> InMemSignalProtocolStore \<Rightarrow>
    (bytes \<times> bytes signal_result) list \<Rightarrow> InMemSignalProtocolStore \<times> InMemSignalProtocolStore \<Rightarrow> bool"
  for E :: "'r Ext" and aA aB :: ProtocolAddress and S :: "InMemSignalProtocolStore \<times> InMemSignalProtocolStore" where
  talk_start: "talk E aA aB S [] S"
| talk_there: "\<lbrakk>talk E aA aB S log (A, B); inmem_encrypt E pt aB aA A now rng = (Inr cm, A', rng1);
    fresh_ratchet_key E A aB rng2; inmem_decrypt E cm aA aB B rng2 = (res, B', rng3)\<rbrakk> \<Longrightarrow>
   talk E aA aB S (log @ [(pt, res)]) (A', B')"
| talk_reply: "\<lbrakk>talk E aA aB S log (A, B); inmem_encrypt E pt aA aB B now rng = (Inr cm, B', rng1);
    fresh_ratchet_key E B aA rng2; inmem_decrypt E cm aB aA A rng2 = (res, A', rng3)\<rbrakk> \<Longrightarrow>
   talk E aA aB S (log @ [(pt, res)]) (A', B')"

text \<open>C1: the first message arrives, once. Let a recipient publish a bundle whose private keys are in its store,
  and let an initiator process the bundle and encrypt a message, both successfully. Then the message is a
  pre-key message, and if the recipient trusts the initiator's identity, has no session for the base key
  and has not seen the base key with these pre-keys, it decrypts the message to the plaintext; the
  one-time pre-key of the bundle is removed, the initiator's identity is saved, the two stores are in
  conversation, and the same message again is reported as a duplicate and changes nothing. The hypotheses
  on the initiator's base key and on the recipient's fresh ratchet key exclude non-canonical,
  non-contributory and repeated keys.\<close>

theorem first_message_arrives_once:
  assumes "hash_lengths E" "cbc_laws E" "kem_laws E" "x25519_laws E" "rng_laws E" "spqr_laws E R"
    and "published E bob b" "identity_pair_ok E (imi_key_pair (identity_store alice))"
    and "process_prekey_bundle E inmem_sessions inmem_identities alice bob_address alice_address b now rng = (Inr (), alice1, rng1)"
    and "inmem_encrypt E pt bob_address alice_address alice1 now' rng2 = (Inr cm, alice2, rng3)"
    and "KeyPair_generate E rng = (base, rngb)" "PublicKey_is_canonical E (kp_public_key base)"
    and "known_keys bob alice_address \<in> {None, Some (ikp_identity_key (imi_key_pair (identity_store alice)))}"
    and "\<And>r. r = record_or_fresh (sessions bob alice_address) \<Longrightarrow>
      SessionRecord_promote_matching_session E r 4 (PublicKey_serialize (kp_public_key base)) = (Inr False, r)"
    and "kp_public_key base \<notin> set (base_keys_seen bob (kpb_id (pkb_kyber_pre_key b)) (spb_id (pkb_ec_signed_pre_key b)))"
    and "fresh_ratchet_key E alice1 bob_address rng4"
  shows "\<exists>m bob' rng5. cm = CPreKeySignalMessage m \<and>
    inmem_decrypt_prekey E m alice_address bob_address bob rng4 = (Inr pt, bob', rng5) \<and>
    in_conversation E R alice_address bob_address alice2 bob' \<and>
    known_keys bob' alice_address = Some (ikp_identity_key (imi_key_pair (identity_store alice))) \<and>
    (\<forall>i. pkb_pre_key_id b = Some i \<longrightarrow> one_time_keys bob' i = None) \<and>
    (\<forall>rng6. \<exists>a. inmem_decrypt_prekey E m alice_address bob_address bob' rng6 =
      (Inl (Err (DuplicatedMessage a (sm_counter (pk_message m)))), bob', rng6))"
  by (rule first_message_delivered [OF assms]) blast+

text \<open>C2: every message of a conversation arrives. From two stores in conversation, in every run in which the
  parties send in any order and each message is decrypted before the next is sent, every message is
  decrypted to its plaintext, and the stores stay in conversation.\<close>

theorem conversation_delivers:
  assumes "hash_lengths E" "cbc_laws E" "x25519_laws E" "rng_laws E" "spqr_laws E R"
    and "in_conversation E R aA aB A B" "talk E aA aB (A, B) log (A', B')"
  shows "(\<forall>(pt, res) \<in> set log. res = Inr pt) \<and> in_conversation E R aA aB A' B'"
proof -
  have "(\<forall>(pt, res) \<in> set log. res = Inr pt) \<and> in_conversation E R aA aB (fst S) (snd S)" if "talk E aA aB (A, B) log S" for log S
    using that
  proof (induction rule: talk.induct)
    case talk_start
    with assms(6) show ?case by simp
  next
    case (talk_there log A B pt now rng cm A' rng1 rng2 res B' rng3)
    then have "in_conversation E R aA aB A B" by simp
    from conversation_step_result [OF assms(1-5) this talk_there(2-4)] talk_there show ?case by auto
  next
    case (talk_reply log A B pt now rng cm B' rng1 rng2 res A' rng3)
    then have "in_conversation E R aB aA B A" using in_conversation_sym [OF assms(5)] by simp
    note r = conversation_step_result [OF assms(1-5) this talk_reply(2-4)]
    from r(1) in_conversation_sym [OF assms(5) r(2)] talk_reply show ?case by auto
  qed
  from this [OF assms(7)] show ?thesis by simp
qed

text \<open>C3: a conversation does not get stuck. As long as the current session of the sender is ready to send,
  \<open>message_encrypt\<close> returns a message; the receiver decrypts it to the plaintext and reports a second copy
  as a duplicate; and the stores are in conversation again.\<close>

theorem conversation_progress:
  assumes "hash_lengths E" "cbc_laws E" "x25519_laws E" "rng_laws E" "spqr_laws E R" "in_conversation E R aA aB A B"
    and "sessions A aB = Some r" "sr_current_session r = Some s" "ready_to_send E s now rng"
  shows "\<exists>cm A' rng1. inmem_encrypt E pt aB aA A now rng = (Inr cm, A', rng1) \<and>
    (\<forall>rng2. fresh_ratchet_key E A aB rng2 \<longrightarrow> (\<exists>B' rng3 sm. inmem_decrypt E cm aA aB B rng2 = (Inr pt, B', rng3) \<and>
       in_conversation E R aA aB A' B' \<and> inner_message cm = Some sm \<and>
       (\<forall>rng4. \<exists>a. inmem_decrypt E cm aA aB B' rng4 = (Inl (Err (DuplicatedMessage a (sm_counter sm))), B', rng4))))"
proof -
  obtain cm A' rng1 where e: "inmem_encrypt E pt aB aA A now rng = (Inr cm, A', rng1)"
    by (rule conversation_sends [OF assms(1,2,6-9)])
  from conversation_step [OF assms(1-6) this] e show ?thesis by metis
qed

end
