(* ===== verification/Sample_Conversation.thy ===== *)
theory Sample_Conversation
  imports Conversation
begin

text \<open>
  A conversation on the concrete externals: a recipient that publishes the sample bundle, the first message
  of the initiator, and what follows. The witnesses of the properties about sessions and stores run on it.
\<close>

section \<open>The sample stores\<close>

abbreviation any_states :: "bytes \<Rightarrow> bytes \<Rightarrow> bool" where
  "any_states a b \<equiv> True"

lemma concrete_spqr_laws: "spqr_laws concrete any_states"
  unfolding spqr_laws_def using sample_spqr by (auto simp: concrete_def)

lemma sample_spqr_send: "x_spqr_send concrete pq rng = (Inr (pq, None, [8]), rng)"
  by (simp add: concrete_def)

definition sample_recipient_store :: InMemSignalProtocolStore where
  "sample_recipient_store = (sample_store 4)
     \<lparr>pre_key_store := \<lparr>imp_pre_keys = [31 \<mapsto> PreKeyRecord_new 31 (sample_key 8)]\<rparr>,
      signed_pre_key_store := \<lparr>ims_signed_pre_keys =
        [32 \<mapsto> GenericSignedPreKey_new (KeyPair_serde concrete) 32 (Timestamp_from_epoch_millis 0) (sample_key 2) []]\<rparr>,
      kyber_pre_key_store := \<lparr>imq_kyber_pre_keys =
        [33 \<mapsto> GenericSignedPreKey_new (KemKeyPair_serde concrete) 33 (Timestamp_from_epoch_millis 0) sample_kem []],
        imq_base_keys_seen = Map.empty\<rparr>\<rparr>"

lemma sample_recipient_fields [simp]:
  "sessions sample_recipient_store a = None" "known_keys sample_recipient_store a = None"
  "identity_store sample_recipient_store = identity_store (sample_store 4)"
  "base_keys_seen sample_recipient_store i j = []"
  by (simp_all add: sample_recipient_store_def base_keys_seen_def)

lemma sample_published: "published concrete sample_recipient_store sample_bundle"
  unfolding published_def
  by (intro conjI exI [of _ "sample_key 2"] exI [of _ "sample_kem"] exI [of _ "Timestamp_from_epoch_millis 0"] exI [of _ "[]"])
     (simp_all add: sample_bundle_def sample_identity_ok sample_stored sample_kem_ok, simp_all add: sample_recipient_store_def,
      rule exI [of _ "sample_key 8"], simp add: sample_stored)

lemma sample_good_key:
  assumes "map ch_sender_ratchet_key (ss_receiver_chains s) = [PublicKey_serialize (kp_public_key (sample_key 2))]"
    and "SessionState_sender_ratchet_key s = Inr (kp_public_key (sample_key 7))" "b + 7 \<noteq> 0" "b \<noteq> 2"
  shows "good_ratchet_key concrete s (sample_key b)"
  using assms sample_dh [of b 7] by (auto simp: good_ratchet_key_def sample_public_ok map_eq_Cons_conv) (auto simp: sample_key_def)

lemma sample_first_message:
  obtains alice1 r s cm alice2 rng3 where "process_prekey_bundle concrete inmem_sessions inmem_identities (sample_store 3)
      sample_bob_address sample_alice_address sample_bundle 0 4 = (Inr (), alice1, 7)"
    and "inmem_encrypt concrete [1, 2, 3] sample_bob_address sample_alice_address alice1 0 7 = (Inr cm, alice2, rng3)"
    and "sessions alice1 sample_bob_address = Some r" "sr_current_session r = Some s"
    and "map ch_sender_ratchet_key (ss_receiver_chains s) = [PublicKey_serialize (kp_public_key (sample_key 2))]"
    and "SessionState_sender_ratchet_key s = Inr (kp_public_key (sample_key 7))"
    and "map_option ck_index (case SessionState_get_sender_chain_key s of Inl _ \<Rightarrow> None | Inr k \<Rightarrow> Some k) = Some 0"
    and "map_option ppk_timestamp (ss_pending_pre_key s) = Some 0"
proof -
  obtain alice1 r s c where pb: "process_prekey_bundle concrete inmem_sessions inmem_identities (sample_store 3) sample_bob_address
      sample_alice_address sample_bundle 0 4 = (Inr (), alice1, 7)"
    and r: "sessions alice1 sample_bob_address = Some r" "sr_current_session r = Some s"
      "known_keys alice1 sample_bob_address = Some (pkb_identity_key sample_bundle)"
    and f: "map ch_sender_ratchet_key (ss_receiver_chains s) = [PublicKey_serialize (kp_public_key (sample_key 2))]"
      "ss_sender_chain s = Some c" "ch_sender_ratchet_key c = PublicKey_serialize (kp_public_key (sample_key 7))"
      "map_option ckp_index (ch_chain_key c) = Some 0" "ss_pq_ratchet_state s = [7]"
      "map_option ppk_timestamp (ss_pending_pre_key s) = Some 0"
    by (rule sample_bundle_run)
  obtain base ct keys rs where ini: "initiated concrete sample_bundle (sample_identity 3) base ct keys s rs"
    and okb: "public_key_ok (kp_public_key base)"
    by (rule initiator_session_stored [OF concrete_hash_lengths concrete_rng_laws concrete_x25519_laws sample_identity_ok [of 3] _
          published_keys_ok [OF concrete_x25519_laws sample_published] pb])
       (use r sample_generate [of 4] sample_public_ok [of 5] in auto)
  have h: "session_holds concrete s rs (ikp_identity_key (sample_identity 3)) (pkb_identity_key sample_bundle)"
    using ini by (auto simp: initiated_def)
  have "ready_to_send concrete s 0 7"
    using f by (auto simp: ready_to_send_def sample_spqr_send MAX_UNACKNOWLEDGED_SESSION_AGE_def NANOS_def)
  then obtain cm alice2 rng3 where e: "inmem_encrypt concrete [1, 2, 3] sample_bob_address sample_alice_address alice1 0 7 = (Inr cm, alice2, rng3)"
    using message_encrypt_ok [OF concrete_hash_lengths concrete_cbc_laws r(1,2) h initiated_pending [OF ini okb]] r(3)
    by (metis insertCI)
  have "SessionState_sender_ratchet_key s = Inr (kp_public_key (sample_key 7))"
    using f sample_public_ok by (simp add: SessionState_sender_ratchet_key_def)
  moreover obtain sc where "rs_sender_chain rs = Some sc" "ck_index (sc_chain_key sc) = 0"
    using f h by (cases "rs_sender_chain rs") (auto simp: session_holds_def apply_ratchet_state_iff SenderChain_to_pb_def ChainKey_to_pb_def)
  ultimately show ?thesis using session_sender_key(3) [OF h] by (intro that [OF pb e r(1,2) f(1)]) (simp_all add: f)
qed

text \<open>The exchange of the first message; the recipient's generator state 10 gives the ratchet key
  \<open>sample_key 11\<close>.\<close>

lemma sample_exchange:
  obtains m alice2 bob' rng5 r s where
    "inmem_decrypt_prekey concrete m sample_alice_address sample_bob_address sample_recipient_store 10 = (Inr [1, 2, 3], bob', rng5)"
    and "in_conversation concrete any_states sample_alice_address sample_bob_address alice2 bob'"
    and "sessions alice2 sample_bob_address = Some r" "sr_current_session r = Some s" "ready_to_send concrete s 0 n"
    and "fresh_ratchet_key concrete alice2 sample_bob_address 20"
proof -
  obtain alice1 r s cm alice2 rng3 where pb: "process_prekey_bundle concrete inmem_sessions inmem_identities (sample_store 3)
      sample_bob_address sample_alice_address sample_bundle 0 4 = (Inr (), alice1, 7)"
    and e: "inmem_encrypt concrete [1, 2, 3] sample_bob_address sample_alice_address alice1 0 7 = (Inr cm, alice2, rng3)"
    and r: "sessions alice1 sample_bob_address = Some r" "sr_current_session r = Some s"
    and f: "map ch_sender_ratchet_key (ss_receiver_chains s) = [PublicKey_serialize (kp_public_key (sample_key 2))]"
      "SessionState_sender_ratchet_key s = Inr (kp_public_key (sample_key 7))"
      "map_option ck_index (case SessionState_get_sender_chain_key s of Inl _ \<Rightarrow> None | Inr k \<Rightarrow> Some k) = Some 0"
      "map_option ppk_timestamp (ss_pending_pre_key s) = Some 0"
    by (rule sample_first_message)
  have fresh: "fresh_ratchet_key concrete alice1 sample_bob_address 10"
    using r sample_good_key [OF f(1,2), of 11] sample_generate [of 10] by (simp add: fresh_ratchet_key_def)
  obtain m bob' rng5 where d: "inmem_decrypt_prekey concrete m sample_alice_address sample_bob_address sample_recipient_store 10 =
      (Inr [1, 2, 3], bob', rng5)"
    and c: "in_conversation concrete any_states sample_alice_address sample_bob_address alice2 bob'"
    by (rule first_message_delivered [OF concrete_hash_lengths concrete_cbc_laws concrete_kem_laws concrete_x25519_laws
          concrete_rng_laws concrete_spqr_laws sample_published _ pb e _ sample_canonical _ _ _ fresh])
       (use sample_generate [of 4] in \<open>simp_all add: sample_identity_ok SessionRecord_promote_matching_session_def
          SessionRecord_new_fresh_def SessionRecord_previous_session_states_def\<close>)
  obtain ck nk r' s' where eff: "SessionState_get_sender_chain_key s = Inr ck" "ChainKey_next_chain_key concrete ck = Inr nk"
    "sessions alice2 sample_bob_address = Some r'" "sr_current_session r' = Some s'"
    "SessionState_get_sender_chain_key s' = Inr nk" "ss_receiver_chains s' = ss_receiver_chains s"
    "SessionState_sender_ratchet_key s' = SessionState_sender_ratchet_key s" "ss_pending_pre_key s' = ss_pending_pre_key s"
    by (rule encryption_effect [OF concrete_hash_lengths e]) (use r in auto)
  have nk: "ck_index nk = 1" using eff(1,2) f(3) by (auto simp: ChainKey_next_chain_key_def res_simps add_one_u32_def split: if_splits)
  have "ready_to_send concrete s' 0 n"
    using eff(5,8) f(4) nk by (auto simp: ready_to_send_def sample_spqr_send MAX_UNACKNOWLEDGED_SESSION_AGE_def NANOS_def
        SessionState_get_sender_chain_key_def res_simps split: option.splits)
  moreover have "fresh_ratchet_key concrete alice2 sample_bob_address 20"
    using eff sample_good_key [of s' 21] f sample_generate [of 20] by (simp add: fresh_ratchet_key_def)
  ultimately show ?thesis using that [OF d c eff(3,4)] by blast
qed

lemma process_prekey_fresh_ok:
  assumes "process_prekey E IS PS SP KS st m ra la SessionRecord_new_fresh = (Inr x, r1)"
  shows "record_ok r1"
proof -
  have f: "SessionRecord_promote_matching_session E SessionRecord_new_fresh v b = (Inr False, SessionRecord_new_fresh)" for v b
    by (simp add: SessionRecord_promote_matching_session_def SessionRecord_new_fresh_def SessionRecord_previous_session_states_def)
  have "record_ok (SessionRecord_promote_state E SessionRecord_new_fresh s)" for s
    by (rule promote_state_ok) (simp add: record_ok_def SessionRecord_new_fresh_def)
  with assms show ?thesis
    by (auto simp: process_prekey_def process_prekey_impl_def f Let_def split: sum.splits prod.splits if_splits)
qed

lemmas concrete_session_laws = concrete_hash_lengths concrete_cbc_laws concrete_x25519_laws concrete_rng_laws concrete_spqr_laws

section \<open>The properties at work\<close>

theorem first_message_arrives_once_witness:
  "\<exists>alice1 cm alice2 rng3 m bob' rng5. process_prekey_bundle concrete inmem_sessions inmem_identities (sample_store 3)
      sample_bob_address sample_alice_address sample_bundle 0 4 = (Inr (), alice1, 7) \<and>
    inmem_encrypt concrete [1, 2, 3] sample_bob_address sample_alice_address alice1 0 7 = (Inr cm, alice2, rng3) \<and>
    cm = CPreKeySignalMessage m \<and>
    inmem_decrypt_prekey concrete m sample_alice_address sample_bob_address sample_recipient_store 10 = (Inr [1, 2, 3], bob', rng5) \<and>
    one_time_keys bob' 31 = None"
proof -
  obtain alice1 r s cm alice2 rng3 where pb: "process_prekey_bundle concrete inmem_sessions inmem_identities (sample_store 3)
      sample_bob_address sample_alice_address sample_bundle 0 4 = (Inr (), alice1, 7)"
    and e: "inmem_encrypt concrete [1, 2, 3] sample_bob_address sample_alice_address alice1 0 7 = (Inr cm, alice2, rng3)"
    and r: "sessions alice1 sample_bob_address = Some r" "sr_current_session r = Some s"
    and f: "map ch_sender_ratchet_key (ss_receiver_chains s) = [PublicKey_serialize (kp_public_key (sample_key 2))]"
      "SessionState_sender_ratchet_key s = Inr (kp_public_key (sample_key 7))"
    by (rule sample_first_message)
  have fresh: "fresh_ratchet_key concrete alice1 sample_bob_address 10"
    using r sample_good_key [OF f, of 11] sample_generate [of 10] by (simp add: fresh_ratchet_key_def)
  have g: "KeyPair_generate concrete 4 = (sample_key 5, 5)" using sample_generate [of 4] by simp
  have "\<exists>m bob' rng5. cm = CPreKeySignalMessage m \<and>
    inmem_decrypt_prekey concrete m sample_alice_address sample_bob_address sample_recipient_store 10 = (Inr [1, 2, 3], bob', rng5) \<and>
    in_conversation concrete any_states sample_alice_address sample_bob_address alice2 bob' \<and>
    known_keys bob' sample_alice_address = Some (ikp_identity_key (imi_key_pair (identity_store (sample_store 3)))) \<and>
    (\<forall>i. pkb_pre_key_id sample_bundle = Some i \<longrightarrow> one_time_keys bob' i = None) \<and>
    (\<forall>rng6. \<exists>a. inmem_decrypt_prekey concrete m sample_alice_address sample_bob_address bob' rng6 =
      (Inl (Err (DuplicatedMessage a (sm_counter (pk_message m)))), bob', rng6))"
    by (rule first_message_arrives_once [OF concrete_hash_lengths concrete_cbc_laws concrete_kem_laws concrete_x25519_laws
          concrete_rng_laws concrete_spqr_laws sample_published _ pb e g sample_canonical _ _ _ fresh])
       (simp_all add: sample_identity_ok SessionRecord_promote_matching_session_def SessionRecord_new_fresh_def
          SessionRecord_previous_session_states_def)
  moreover have "pkb_pre_key_id sample_bundle = Some 31" by (simp add: sample_bundle_def)
  ultimately show ?thesis using pb e by metis
qed

theorem conversation_progress_witness:
  "\<exists>A B cm A' rng1 B' rng3. in_conversation concrete any_states sample_alice_address sample_bob_address A B \<and>
    inmem_encrypt concrete [4] sample_bob_address sample_alice_address A 0 30 = (Inr cm, A', rng1) \<and>
    inmem_decrypt concrete cm sample_alice_address sample_bob_address B 20 = (Inr [4], B', rng3)"
proof -
  obtain A B r s where c: "in_conversation concrete any_states sample_alice_address sample_bob_address A B"
    and r: "sessions A sample_bob_address = Some r" "sr_current_session r = Some s" "ready_to_send concrete s 0 30"
    and f: "fresh_ratchet_key concrete A sample_bob_address 20" by (rule sample_exchange)
  from conversation_progress [OF concrete_session_laws c r, of "[4]"] f c show ?thesis by metis
qed

theorem conversation_delivers_witness:
  "\<exists>A B A' B' res. talk concrete sample_alice_address sample_bob_address (A, B) [([4], res)] (A', B') \<and> res = Inr [4]"
proof -
  obtain A B r s where c: "in_conversation concrete any_states sample_alice_address sample_bob_address A B"
    and r: "sessions A sample_bob_address = Some r" "sr_current_session r = Some s" "ready_to_send concrete s 0 30"
    and f: "fresh_ratchet_key concrete A sample_bob_address 20" by (rule sample_exchange)
  obtain cm A' rng1 where e: "inmem_encrypt concrete [4] sample_bob_address sample_alice_address A 0 30 = (Inr cm, A', rng1)"
    by (rule conversation_sends [OF concrete_session_laws(1,2) c r])
  obtain res B' rng3 where d: "inmem_decrypt concrete cm sample_alice_address sample_bob_address B 20 = (res, B', rng3)"
    by (metis prod_cases3)
  have t: "talk concrete sample_alice_address sample_bob_address (A, B) [([4], res)] (A', B')"
    using talk_there [OF talk_start e f d] by simp
  with conversation_delivers [OF concrete_session_laws c t] show ?thesis by auto
qed

theorem encryption_advances_witness:
  "\<exists>A s' cm A' rng1 nk. inmem_encrypt concrete [4] sample_bob_address sample_alice_address A 0 30 = (Inr cm, A', rng1) \<and>
    (\<exists>r'. sessions A' sample_bob_address = Some r' \<and> sr_current_session r' = Some s') \<and>
    SessionState_get_sender_chain_key s' = Inr nk"
proof -
  obtain A B r s where c: "in_conversation concrete any_states sample_alice_address sample_bob_address A B"
    and r: "sessions A sample_bob_address = Some r" "sr_current_session r = Some s" "ready_to_send concrete s 0 30"
    by (rule sample_exchange)
  obtain cm A' rng1 where e: "inmem_encrypt concrete [4] sample_bob_address sample_alice_address A 0 30 = (Inr cm, A', rng1)"
    by (rule conversation_sends [OF concrete_session_laws(1,2) c r])
  from encryption_advances [OF concrete_hash_lengths e] e show ?thesis by fastforce
qed

theorem prekey_decryption_atomic_witness:
  "\<exists>m st' rng'. inmem_decrypt_prekey concrete m sample_alice_address sample_bob_address sample_recipient_store 10 =
      (Inr [1, 2, 3], st', rng') \<and> known_keys st' sample_alice_address = Some (pk_identity_key m)"
proof -
  obtain m bob' rng5 where d: "inmem_decrypt_prekey concrete m sample_alice_address sample_bob_address sample_recipient_store 10 =
      (Inr [1, 2, 3], bob', rng5)" by (rule sample_exchange)
  from prekey_decryption_atomic [OF d] d show ?thesis by auto
qed

theorem signal_decryption_atomic_witness:
  "\<exists>m B B' rng3 k. inmem_decrypt_signal concrete m sample_alice_address sample_bob_address B 20 = (Inr [4], B', rng3) \<and>
    known_keys B sample_alice_address \<in> {None, Some k} \<and> known_keys B' sample_alice_address = Some k"
proof -
  obtain A B r s where c: "in_conversation concrete any_states sample_alice_address sample_bob_address A B"
    and r: "sessions A sample_bob_address = Some r" "sr_current_session r = Some s" "ready_to_send concrete s 0 30"
    and f: "fresh_ratchet_key concrete A sample_bob_address 20" by (rule sample_exchange)
  obtain cm A' rng1 where e: "inmem_encrypt concrete [4] sample_bob_address sample_alice_address A 0 30 = (Inr cm, A', rng1)"
    by (rule conversation_sends [OF concrete_session_laws(1,2) c r])
  obtain m B' rng3 where d: "inmem_decrypt_signal concrete m sample_alice_address sample_bob_address B 20 = (Inr [4], B', rng3)"
    by (rule inner_message_decrypts [OF concrete_session_laws c e f])
  from signal_decryption_atomic [OF d] d show ?thesis by fastforce
qed

theorem decrypt_from_record_spec_witness:
  "\<exists>r m r' rng' s'. try_decrypt_from_record concrete r sample_alice_address sample_bob_address m PreKeyType 10 =
      (Inr [1, 2, 3], r', rng') \<and> sr_current_session r' = Some s' \<and> record_ok r'"
proof -
  obtain m bob' rng5 where d: "inmem_decrypt_prekey concrete m sample_alice_address sample_bob_address sample_recipient_store 10 =
      (Inr [1, 2, 3], bob', rng5)" by (rule sample_exchange)
  obtain used its r1 r2 where p: "process_prekey concrete inmem_identities inmem_pre_keys inmem_signed_pre_keys inmem_kyber_pre_keys
      sample_recipient_store m sample_alice_address sample_bob_address SessionRecord_new_fresh = (Inr (used, its), r1)"
    and t: "try_decrypt_from_record concrete r1 sample_alice_address sample_bob_address (pk_message m) PreKeyType 10 =
      (Inr [1, 2, 3], r2, rng5)"
    by (cases rule: imps.message_decrypt_prekey_cases [OF d]) auto
  have "record_ok r1" by (rule process_prekey_fresh_ok [OF p])
  from decrypt_from_record_spec [OF concrete_prost_laws this t] t show ?thesis by auto
qed

end
