(* ===== verification/Incremental_Mac.thy ===== *)
theory Incremental_Mac
  imports Crypto
begin

text \<open>
  \<open>rust/protocol/src/incremental_mac.rs\<close>: MACs of the growing prefixes of a stream, one per chunk, and the
  validation of a stream against them. The type parameter \<open>M: Mac + Clone\<close> is a record of its operations;
  a \<open>usize\<close> is a natural number. \<open>update\<close> returns a lazy iterator in the source; the model is the iterator
  run to its end, as its callers do. The validator accepts a stream, cut into pieces in any way,
  exactly if the expected list is the list of MACs of the stream.
\<close>

section \<open>The code\<close>

record 'm MacOps =
  mac_update :: "'m \<Rightarrow> bytes \<Rightarrow> 'm"
  mac_finalize :: "'m \<Rightarrow> bytes"

record 'm Incremental =
  inc_mac :: 'm
  inc_chunk_size :: nat
  inc_unused_length :: nat

record 'm Validating =
  val_incremental :: "'m Incremental"
  val_expected :: "bytes list"

datatype MacError = MacError

type_synonym 'a mac_result = "(MacError, 'a) rresult"

definition MINIMUM_CHUNK_SIZE :: nat where "MINIMUM_CHUNK_SIZE = 64 * 1024"
definition MAXIMUM_CHUNK_SIZE :: nat where "MAXIMUM_CHUNK_SIZE = 2 * 1024 * 1024"
definition TARGET_TOTAL_DIGEST_SIZE :: nat where "TARGET_TOTAL_DIGEST_SIZE = 8 * 1024"

definition calculate_chunk_size :: "nat \<Rightarrow> nat \<Rightarrow> (unit, nat) rresult" where
  "calculate_chunk_size output_size data_size =
     (if output_size = 0 then Inl (Panic ''attempt to calculate the remainder with a divisor of zero'')
      else if TARGET_TOTAL_DIGEST_SIZE mod output_size \<noteq> 0
      then Inl (Panic ''Target digest size should be a multiple of digest size'')
      else let target_chunk_count = TARGET_TOTAL_DIGEST_SIZE div output_size in
        if data_size < target_chunk_count * MINIMUM_CHUNK_SIZE then Inr MINIMUM_CHUNK_SIZE
        else if data_size < target_chunk_count * MAXIMUM_CHUNK_SIZE
        then Inr ((data_size + target_chunk_count - 1) div target_chunk_count)
        else Inr MAXIMUM_CHUNK_SIZE)"

definition Incremental_new :: "'m \<Rightarrow> nat \<Rightarrow> 'm Incremental mac_result" where
  "Incremental_new mac chunk_size =
     (if chunk_size = 0 then Inl (Panic ''chunk size must be positive'')
      else Inr \<lparr>inc_mac = mac, inc_chunk_size = chunk_size, inc_unused_length = chunk_size\<rparr>)"

definition Incremental_validating :: "'m Incremental \<Rightarrow> bytes list \<Rightarrow> 'm Validating" where
  "Incremental_validating inc macs = \<lparr>val_incremental = inc, val_expected = rev macs\<rparr>"

definition Incremental_update_chunk ::
    "'m MacOps \<Rightarrow> 'm Incremental \<Rightarrow> bytes \<Rightarrow> bytes option mac_result \<times> 'm Incremental" where
  "Incremental_update_chunk M inc chunk =
     (if length chunk > inc_unused_length inc
      then (Inl (Panic ''assertion failed: bytes.len() <= self.unused_length''), inc)
      else let inc1 = inc\<lparr>inc_mac := mac_update M (inc_mac inc) chunk,
                          inc_unused_length := inc_unused_length inc - length chunk\<rparr>
           in if inc_unused_length inc1 = 0
              then (Inr (Some (mac_finalize M (inc_mac inc1))), inc1\<lparr>inc_unused_length := inc_chunk_size inc1\<rparr>)
              else (Inr None, inc1))"

fun update_chunks :: "'m MacOps \<Rightarrow> 'm Incremental \<Rightarrow> bytes list \<Rightarrow> bytes list mac_result \<times> 'm Incremental" where
  "update_chunks M inc [] = (Inr [], inc)"
| "update_chunks M inc (c # cs) =
     (case Incremental_update_chunk M inc c of
        (Inl e, inc1) \<Rightarrow> (Inl e, inc1)
      | (Inr out, inc1) \<Rightarrow>
         (case update_chunks M inc1 cs of
            (Inl e, inc2) \<Rightarrow> (Inl e, inc2)
          | (Inr outs, inc2) \<Rightarrow> (Inr ((case out of None \<Rightarrow> [] | Some mac \<Rightarrow> [mac]) @ outs), inc2)))"

definition Incremental_update :: "'m MacOps \<Rightarrow> 'm Incremental \<Rightarrow> bytes \<Rightarrow> bytes list mac_result \<times> 'm Incremental" where
  "Incremental_update M inc bs =
     (let split_point = min (length bs) (inc_unused_length inc)
      in update_chunks M inc (take split_point bs # chunks_of (inc_chunk_size inc) (drop split_point bs)))"

definition Incremental_finalize :: "'m MacOps \<Rightarrow> 'm Incremental \<Rightarrow> bytes" where
  "Incremental_finalize M inc = mac_finalize M (inc_mac inc)"

definition Incremental_pending_bytes_size :: "'m Incremental \<Rightarrow> nat" where
  "Incremental_pending_bytes_size inc = inc_chunk_size inc - inc_unused_length inc"

text \<open>The loop of \<open>Validating::update\<close>: the MACs found, against the end of the expected list; the state is
  the result so far, the count and the list.\<close>

fun match_macs :: "bytes list \<Rightarrow> bool \<times> nat \<times> bytes list \<Rightarrow> bool \<times> nat \<times> bytes list" where
  "match_macs [] st = st"
| "match_macs (mac # macs) (ok, whole_chunks, expected) =
     (if expected \<noteq> [] \<and> last expected = mac then match_macs macs (ok, Suc whole_chunks, butlast expected)
      else match_macs macs (False, whole_chunks, expected))"

definition Validating_update :: "'m MacOps \<Rightarrow> 'm Validating \<Rightarrow> bytes \<Rightarrow> nat mac_result \<times> 'm Validating" where
  "Validating_update M v bs =
     (case Incremental_update M (val_incremental v) bs of
        (Inl e, inc) \<Rightarrow> (Inl e, v\<lparr>val_incremental := inc\<rparr>)
      | (Inr macs, inc) \<Rightarrow>
         (case match_macs macs (True, 0, val_expected v) of
            (ok, whole_chunks, expected) \<Rightarrow>
              (if ok then Inr (whole_chunks * inc_chunk_size inc) else Inl (Err MacError),
               v\<lparr>val_incremental := inc, val_expected := expected\<rparr>)))"

definition Validating_finalize :: "'m MacOps \<Rightarrow> 'm Validating \<Rightarrow> nat mac_result" where
  "Validating_finalize M v =
     (let pending_bytes_size = Incremental_pending_bytes_size (val_incremental v);
          mac = Incremental_finalize M (val_incremental v)
      in case val_expected v of
           [expected] \<Rightarrow> if expected = mac then Inr pending_bytes_size else Inl (Err MacError)
         | _ \<Rightarrow> Inl (Err MacError))"

section \<open>Streams\<close>

text \<open>Feeding a stream piece by piece, as the callers do.\<close>

fun update_all :: "'m MacOps \<Rightarrow> 'm Incremental \<Rightarrow> bytes list \<Rightarrow> bytes list mac_result \<times> 'm Incremental" where
  "update_all M inc [] = (Inr [], inc)"
| "update_all M inc (p # ps) =
     (case Incremental_update M inc p of
        (Inl e, inc1) \<Rightarrow> (Inl e, inc1)
      | (Inr out, inc1) \<Rightarrow>
         (case update_all M inc1 ps of
            (Inl e, inc2) \<Rightarrow> (Inl e, inc2)
          | (Inr outs, inc2) \<Rightarrow> (Inr (out @ outs), inc2)))"

fun validate_all :: "'m MacOps \<Rightarrow> 'm Validating \<Rightarrow> bytes list \<Rightarrow> nat mac_result" where
  "validate_all M v [] = Validating_finalize M v"
| "validate_all M v (p # ps) =
     (case Validating_update M v p of
        (Inl e, v1) \<Rightarrow> Inl e
      | (Inr n, v1) \<Rightarrow> try_bind (validate_all M v1 ps) (\<lambda>m. Inr (n + m)))"

text \<open>The reference: the MAC of every prefix that ends at a chunk boundary.\<close>

definition prefix_macs :: "'m MacOps \<Rightarrow> 'm \<Rightarrow> nat \<Rightarrow> bytes \<Rightarrow> bytes list" where
  "prefix_macs M mac n bs = map (\<lambda>i. mac_finalize M (mac_update M mac (take (Suc i * n) bs))) [0..<length bs div n]"

text \<open>Pieces that do not cross a chunk boundary.\<close>

fun fits :: "nat \<Rightarrow> nat \<Rightarrow> bytes list \<Rightarrow> bool" where
  "fits n l [] = True"
| "fits n l (c # cs) \<longleftrightarrow> length c \<le> n - l mod n \<and> fits n (l + length c) cs"

lemma fits_chunks_of:
  assumes "0 < n" "l mod n = 0"
  shows "fits n l (chunks_of n xs)"
  using assms
proof (induction n xs arbitrary: l rule: chunks_of.induct)
  case (1 n xs)
  show ?case
  proof (cases "xs = [] \<or> length xs < n")
    case True
    with 1 show ?thesis by (subst chunks_of.simps) (auto simp: min_def)
  next
    case False
    then have "fits n (l + n) (chunks_of n (drop n xs))" using 1 by (intro "1.IH") auto
    with False 1 show ?thesis by (subst chunks_of.simps) (simp add: min_def)
  qed
qed

lemma match_macs_failed: "fst (match_macs macs (False, k, e)) = False"
  by (induction macs "(False, k, e)" arbitrary: k e rule: match_macs.induct) auto

lemma match_macs_spec:
  "match_macs macs (True, k, rev e) = (True, k + length macs, rev (drop (length macs) e)) \<and> take (length macs) e = macs \<or>
   fst (match_macs macs (True, k, rev e)) = False \<and> take (length macs) e \<noteq> macs"
proof (induction macs arbitrary: k e)
  case (Cons mac macs)
  show ?case
  proof (cases "e \<noteq> [] \<and> hd e = mac")
    case True
    then obtain e' where "e = mac # e'" by (cases e) auto
    with Cons.IH [of "Suc k" e'] show ?thesis by simp
  next
    case False
    then have "match_macs (mac # macs) (True, k, rev e) = match_macs macs (False, k, rev e)" by (auto simp: last_rev)
    moreover have "take (length (mac # macs)) e \<noteq> mac # macs" using False by (cases e) auto
    ultimately show ?thesis using match_macs_failed by simp
  qed
qed simp

text \<open>The state after the bytes \<open>bs\<close>, of a MAC that started at \<open>mac\<close>.\<close>

definition mac_reached :: "'m MacOps \<Rightarrow> 'm \<Rightarrow> nat \<Rightarrow> bytes \<Rightarrow> 'm Incremental \<Rightarrow> bool" where
  "mac_reached M mac n bs inc \<longleftrightarrow> 0 < n \<and> inc = \<lparr>inc_mac = mac_update M mac bs, inc_chunk_size = n,
     inc_unused_length = n - length bs mod n\<rparr>"

section \<open>The contract of a streaming MAC\<close>

locale streaming_mac =
  fixes M :: "'m MacOps"
  assumes update_update: "mac_update M (mac_update M m a) b = mac_update M m (a @ b)"
    and update_nothing: "mac_update M m [] = m"
begin

lemma update_chunk_reached:
  assumes r: "mac_reached M mac n bs inc" and c: "length c \<le> n - length bs mod n"
  shows "\<exists>inc'. Incremental_update_chunk M inc c =
      (Inr (if (length bs + length c) mod n = 0 \<and> c \<noteq> [] then Some (mac_finalize M (mac_update M mac (bs @ c))) else None), inc') \<and>
    mac_reached M mac n (bs @ c) inc'"
proof -
  have n: "0 < n" and inc: "inc = \<lparr>inc_mac = mac_update M mac bs, inc_chunk_size = n, inc_unused_length = n - length bs mod n\<rparr>"
    using r by (simp_all add: mac_reached_def)
  let ?l = "length bs mod n" and ?c = "length c"
  have l: "?l < n" using n by simp
  have m: "(length bs + ?c) mod n = (?l + ?c) mod n" by (simp add: mod_add_left_eq)
  show ?thesis
  proof (cases "?l + ?c = n")
    case True
    then have "(length bs + ?c) mod n = 0" "c \<noteq> []" "?c = n - ?l" using m l by auto
    then show ?thesis using n by (simp add: inc Incremental_update_chunk_def update_update mac_reached_def)
  next
    case False
    with c l have "?l + ?c < n" by linarith
    then have "(length bs + ?c) mod n = ?l + ?c" using m by simp
    moreover have "n - ?l - ?c = n - (?l + ?c)" "n - ?l - ?c \<noteq> 0" "\<not> n - ?l < ?c" using \<open>?l + ?c < n\<close> by simp_all
    ultimately show ?thesis using n by (auto simp: inc Incremental_update_chunk_def update_update mac_reached_def)
  qed
qed

lemma prefix_macs_chunk:
  assumes "0 < n" and c: "length c \<le> n - length bs mod n"
  shows "prefix_macs M mac n (bs @ c) = prefix_macs M mac n bs @
    (if (length bs + length c) mod n = 0 \<and> c \<noteq> [] then [mac_finalize M (mac_update M mac (bs @ c))] else [])"
proof -
  let ?q = "length bs div n" and ?l = "length bs mod n"
  have len: "length bs = ?q * n + ?l" by simp
  have old: "map (\<lambda>i. mac_finalize M (mac_update M mac (take (Suc i * n) (bs @ c)))) [0..<?q] = prefix_macs M mac n bs"
    unfolding prefix_macs_def
  proof (rule map_cong [OF refl])
    fix i assume "i \<in> set [0..<?q]"
    then have "Suc i * n \<le> ?q * n" by (intro mult_le_mono1) auto
    then have "Suc i * n \<le> length bs" using len by linarith
    then show "mac_finalize M (mac_update M mac (take (Suc i * n) (bs @ c))) = mac_finalize M (mac_update M mac (take (Suc i * n) bs))"
      by simp
  qed
  show ?thesis
  proof (cases "(length bs + length c) mod n = 0 \<and> c \<noteq> []")
    case True
    have "?l < n" using assms(1) by simp
    moreover have "(?l + length c) mod n = 0" using True by (simp add: mod_add_left_eq)
    ultimately have e: "?l + length c = n" using c True
      by (metis Nat.le_diff_conv2 add.commute add_eq_0_iff_both_eq_0 length_0_conv mod_less nat_less_le)
    then have "length bs + length c = Suc ?q * n" using len unfolding mult_Suc by linarith
    then have "length (bs @ c) div n = Suc ?q" "take (Suc ?q * n) (bs @ c) = bs @ c" using assms(1) by simp_all
    then have "prefix_macs M mac n (bs @ c) = map (\<lambda>i. mac_finalize M (mac_update M mac (take (Suc i * n) (bs @ c)))) [0..<?q] @
        [mac_finalize M (mac_update M mac (bs @ c))]" by (simp add: prefix_macs_def)
    then show ?thesis unfolding old using True by simp
  next
    case False
    have "?l + length c < n \<or> c = []"
    proof (rule ccontr)
      assume "\<not> ?thesis"
      then have "c \<noteq> []" "?l + length c = n" using c assms(1) mod_less_divisor [of n "length bs"] by linarith+
      then have "(length bs + length c) mod n = 0" by (metis mod_add_left_eq mod_self)
      with False \<open>c \<noteq> []\<close> show False by simp
    qed
    moreover have "?l < n" using assms(1) by simp
    ultimately have "?l + length c < n" by auto
    then have "?q * n \<le> length (bs @ c)" "length (bs @ c) < Suc ?q * n"
      using len unfolding length_append mult_Suc by linarith+
    then have "length (bs @ c) div n = ?q" by (intro div_nat_eqI) (simp_all only: mult.commute)
    then have "prefix_macs M mac n (bs @ c) = map (\<lambda>i. mac_finalize M (mac_update M mac (take (Suc i * n) (bs @ c)))) [0..<?q]"
      by (simp add: prefix_macs_def)
    then show ?thesis unfolding old using False by simp
  qed
qed

lemma update_chunks_reached:
  assumes "mac_reached M mac n bs inc" "fits n (length bs) cs"
  shows "\<exists>out inc'. update_chunks M inc cs = (Inr out, inc') \<and> mac_reached M mac n (bs @ concat cs) inc' \<and>
    prefix_macs M mac n (bs @ concat cs) = prefix_macs M mac n bs @ out"
  using assms
proof (induction cs arbitrary: bs inc)
  case (Cons c cs)
  have n: "0 < n" using Cons.prems by (simp add: mac_reached_def)
  have c: "length c \<le> n - length bs mod n" "fits n (length (bs @ c)) cs" using Cons.prems by simp_all
  obtain inc1 where i1: "Incremental_update_chunk M inc c =
      (Inr (if (length bs + length c) mod n = 0 \<and> c \<noteq> [] then Some (mac_finalize M (mac_update M mac (bs @ c))) else None), inc1)"
    "mac_reached M mac n (bs @ c) inc1" using update_chunk_reached [OF Cons.prems(1) c(1)] by blast
  obtain out inc' where i2: "update_chunks M inc1 cs = (Inr out, inc')" "mac_reached M mac n ((bs @ c) @ concat cs) inc'"
    "prefix_macs M mac n ((bs @ c) @ concat cs) = prefix_macs M mac n (bs @ c) @ out"
    using Cons.IH [OF i1(2) c(2)] by blast
  show ?case using i1 i2 prefix_macs_chunk [OF n c(1), of mac] by simp
qed simp

lemma update_reached:
  assumes r: "mac_reached M mac n bs inc"
  shows "\<exists>out inc'. Incremental_update M inc p = (Inr out, inc') \<and> mac_reached M mac n (bs @ p) inc' \<and>
    prefix_macs M mac n (bs @ p) = prefix_macs M mac n bs @ out"
proof -
  let ?k = "min (length p) (n - length bs mod n)"
  have n: "0 < n" and u: "inc_unused_length inc = n - length bs mod n" "inc_chunk_size inc = n"
    using r by (simp_all add: mac_reached_def)
  have "fits n (length bs + ?k) (chunks_of n (drop ?k p))"
  proof (cases "length p \<le> n - length bs mod n")
    case True
    then show ?thesis by (simp add: min_def)
  next
    case False
    have "(length bs + (n - length bs mod n)) mod n = 0"
      using n by (metis add.commute le_add_diff_inverse mod_add_left_eq mod_less_divisor mod_self nat_less_le)
    with False n show ?thesis by (intro fits_chunks_of) (simp_all add: min_def)
  qed
  then have "fits n (length bs) (take ?k p # chunks_of n (drop ?k p))" by simp
  from update_chunks_reached [OF r this] n show ?thesis
    by (simp add: Incremental_update_def u concat_chunks_of Let_def)
qed

lemma update_all_reached:
  assumes "mac_reached M mac n bs inc"
  shows "\<exists>out inc'. update_all M inc ps = (Inr out, inc') \<and> mac_reached M mac n (bs @ concat ps) inc' \<and>
    prefix_macs M mac n (bs @ concat ps) = prefix_macs M mac n bs @ out"
  using assms
proof (induction ps arbitrary: bs inc)
  case (Cons p ps)
  obtain o1 inc1 where 1: "Incremental_update M inc p = (Inr o1, inc1)" "mac_reached M mac n (bs @ p) inc1"
    "prefix_macs M mac n (bs @ p) = prefix_macs M mac n bs @ o1" using update_reached [OF Cons.prems] by blast
  from Cons.IH [OF 1(2)] 1 show ?case by auto
qed simp

lemma validate_all_spec:
  assumes "mac_reached M mac n bs inc"
  shows "validate_all M \<lparr>val_incremental = inc, val_expected = rev e\<rparr> ps =
    (if prefix_macs M mac n bs @ e = prefix_macs M mac n (bs @ concat ps) @ [mac_finalize M (mac_update M mac (bs @ concat ps))]
     then Inr (length (bs @ concat ps) - length bs div n * n) else Inl (Err MacError))"
  using assms
proof (induction ps arbitrary: bs inc e)
  case Nil
  then have inc: "inc = \<lparr>inc_mac = mac_update M mac bs, inc_chunk_size = n, inc_unused_length = n - length bs mod n\<rparr>" and n: "0 < n"
    by (simp_all add: mac_reached_def)
  have "n - (n - length bs mod n) = length bs - length bs div n * n"
    using n by (simp add: minus_div_mult_eq_mod less_imp_le)
  then show ?case
    by (cases e rule: rev_cases; cases "butlast e")
       (auto simp: inc Validating_finalize_def Incremental_finalize_def Incremental_pending_bytes_size_def Let_def
         split: list.splits)
next
  case (Cons p ps)
  obtain out inc1 where 1: "Incremental_update M inc p = (Inr out, inc1)" "mac_reached M mac n (bs @ p) inc1"
    "prefix_macs M mac n (bs @ p) = prefix_macs M mac n bs @ out" using update_reached [OF Cons.prems] by blast
  let ?bs = "bs @ p" and ?all = "bs @ p @ concat ps"
  let ?fin = "mac_finalize M (mac_update M mac ?all)"
  have ch: "inc_chunk_size inc1 = n" using 1(2) by (simp add: mac_reached_def)
  have div: "length ?bs div n = length bs div n + length out" using arg_cong [OF 1(3), of length] by (simp add: prefix_macs_def)
  have le: "length ?bs div n * n \<le> length ?all" using div_times_less_eq_dividend [of "length ?bs" n] unfolding length_append by linarith
  obtain rest where rest: "prefix_macs M mac n ?all = prefix_macs M mac n bs @ out @ rest"
    using update_all_reached [OF 1(2), of ps] 1(3) by auto
  consider (good) "match_macs out (True, 0, rev e) = (True, length out, rev (drop (length out) e))" "take (length out) e = out"
    | (bad) "fst (match_macs out (True, 0, rev e)) = False" "take (length out) e \<noteq> out"
    using match_macs_spec [of out 0 e] by auto
  then show ?case
  proof cases
    case good
    let ?e = "drop (length out) e"
    have e: "e = out @ ?e" using good(2) by (metis append_take_drop_id)
    have "prefix_macs M mac n ?bs @ ?e = prefix_macs M mac n bs @ e" using e 1(3) by simp
    moreover have "length out * n + (length ?all - length ?bs div n * n) = length ?all - length bs div n * n"
      using le unfolding div by (simp add: algebra_simps)
    ultimately show ?thesis using Cons.IH [OF 1(2), of ?e] 1(1) good(1) by (simp add: Validating_update_def ch)
  next
    case bad
    have "prefix_macs M mac n bs @ e \<noteq> prefix_macs M mac n ?all @ [?fin]" using bad(2) rest by auto
    moreover obtain k e' where "match_macs out (True, 0, rev e) = (False, k, e')" using bad(1) by (metis prod.collapse)
    ultimately show ?thesis using 1(1) by (simp add: Validating_update_def)
  qed
qed

end

section \<open>HMAC\<close>

text \<open>The MAC the callers use, \<open>Hmac<Sha256>\<close> of the \<open>hmac\<close> crate: key and the data so far.\<close>

record HmacSha256 =
  hm_key :: bytes
  hm_data :: bytes

definition hmac_ops :: "'r Ext \<Rightarrow> HmacSha256 MacOps" where
  "hmac_ops E = \<lparr>mac_update = (\<lambda>m bs. m\<lparr>hm_data := hm_data m @ bs\<rparr>),
     mac_finalize = (\<lambda>m. hmac_sha256 E (hm_key m) (hm_data m))\<rparr>"

definition hmac_new :: "bytes \<Rightarrow> HmacSha256" where
  "hmac_new key = \<lparr>hm_key = key, hm_data = []\<rparr>"

interpretation hm: streaming_mac "hmac_ops E" for E
  by unfold_locales (simp_all add: hmac_ops_def)

lemma hm_reached_new: "0 < n \<Longrightarrow> mac_reached (hmac_ops E) mac n [] \<lparr>inc_mac = mac, inc_chunk_size = n, inc_unused_length = n\<rparr>"
  by (simp add: mac_reached_def hmac_ops_def)

text \<open>C39: the incremental MACs are the MACs of the prefixes. However a stream is cut into pieces, the updates
  give the HMAC of every prefix that ends at a chunk boundary, in order, and \<open>finalize\<close> gives the HMAC of the
  whole stream; no assertion fails.\<close>

theorem incremental_mac_reference:
  assumes "Incremental_new (hmac_new key) n = Inr inc"
  shows "\<exists>inc'. update_all (hmac_ops E) inc ps =
      (Inr (map (\<lambda>i. hmac_sha256 E key (take (Suc i * n) (concat ps))) [0..<length (concat ps) div n]), inc') \<and>
    Incremental_finalize (hmac_ops E) inc' = hmac_sha256 E key (concat ps) \<and>
    Incremental_pending_bytes_size inc' = length (concat ps) mod n"
proof -
  have n: "0 < n" and inc: "inc = \<lparr>inc_mac = hmac_new key, inc_chunk_size = n, inc_unused_length = n\<rparr>"
    using assms by (auto simp: Incremental_new_def split: if_splits)
  obtain out inc' where u: "update_all (hmac_ops E) inc ps = (Inr out, inc')" "mac_reached (hmac_ops E) (hmac_new key) n ([] @ concat ps) inc'"
    "prefix_macs (hmac_ops E) (hmac_new key) n ([] @ concat ps) = prefix_macs (hmac_ops E) (hmac_new key) n [] @ out"
    using hm.update_all_reached [OF hm_reached_new [OF n]] unfolding inc by blast
  have "n - (n - length (concat ps) mod n) = length (concat ps) mod n" using n by (simp add: less_imp_le)
  with u show ?thesis
    by (simp add: prefix_macs_def hmac_ops_def hmac_new_def mac_reached_def Incremental_finalize_def Incremental_pending_bytes_size_def)
qed

text \<open>C40: the validator accepts exactly the stream the MACs were made for. With any list of expected MACs and
  any way to cut the stream into pieces, every update and \<open>finalize\<close> succeed if and only if the list is the
  list of incremental MACs followed by the MAC of the whole stream; the validated sizes add up to the
  length of the stream, and otherwise the error is a MAC error.\<close>

theorem validating_accepts_iff:
  assumes "Incremental_new (hmac_new key) n = Inr inc"
  shows "validate_all (hmac_ops E) (Incremental_validating inc macs) ps =
    (if macs = map (\<lambda>i. hmac_sha256 E key (take (Suc i * n) (concat ps))) [0..<length (concat ps) div n] @ [hmac_sha256 E key (concat ps)]
     then Inr (length (concat ps)) else Inl (Err MacError))"
proof -
  have n: "0 < n" and inc: "inc = \<lparr>inc_mac = hmac_new key, inc_chunk_size = n, inc_unused_length = n\<rparr>"
    using assms by (auto simp: Incremental_new_def split: if_splits)
  show ?thesis
    using hm.validate_all_spec [OF hm_reached_new [OF n], of E "hmac_new key" macs ps]
    by (simp add: inc Incremental_validating_def prefix_macs_def hmac_ops_def hmac_new_def)
qed

text \<open>The chunk size stays between its bounds, and the MACs of a stream up to the largest supported size fit in
  the digest budget.\<close>

lemma calculate_chunk_size_bounds:
  assumes "calculate_chunk_size output_size data_size = Inr n"
  shows "MINIMUM_CHUNK_SIZE \<le> n \<and> n \<le> MAXIMUM_CHUNK_SIZE \<and>
    (data_size < TARGET_TOTAL_DIGEST_SIZE div output_size * MAXIMUM_CHUNK_SIZE \<longrightarrow>
      data_size \<le> TARGET_TOTAL_DIGEST_SIZE div output_size * n)"
proof -
  let ?c = "TARGET_TOTAL_DIGEST_SIZE div output_size"
  have o: "output_size \<noteq> 0" "output_size dvd TARGET_TOTAL_DIGEST_SIZE"
    using assms by (auto simp: calculate_chunk_size_def split: if_splits)
  then have c: "0 < ?c" by (simp add: TARGET_TOTAL_DIGEST_SIZE_def div_greater_zero_iff dvd_imp_le)
  have bounds: "MINIMUM_CHUNK_SIZE \<le> MAXIMUM_CHUNK_SIZE" by (simp add: MINIMUM_CHUNK_SIZE_def MAXIMUM_CHUNK_SIZE_def)
  consider "data_size < ?c * MINIMUM_CHUNK_SIZE" "n = MINIMUM_CHUNK_SIZE"
    | "?c * MINIMUM_CHUNK_SIZE \<le> data_size" "data_size < ?c * MAXIMUM_CHUNK_SIZE" "n = (data_size + ?c - 1) div ?c"
    | "?c * MAXIMUM_CHUNK_SIZE \<le> data_size" "n = MAXIMUM_CHUNK_SIZE"
    using assms by (auto simp: calculate_chunk_size_def Let_def not_less split: if_splits)
  then show ?thesis
  proof cases
    case 2
    have "?c * MINIMUM_CHUNK_SIZE div ?c \<le> n" unfolding 2(3) using 2(1) c by (intro div_le_mono) linarith
    moreover have "n < Suc MAXIMUM_CHUNK_SIZE"
      unfolding 2(3) using 2(2) c by (intro less_mult_imp_div_less) (simp add: algebra_simps)
    moreover have "data_size \<le> ?c * n"
      unfolding 2(3) using c mult_div_mod_eq [of ?c "data_size + ?c - 1"] mod_less_divisor [OF c, of "data_size + ?c - 1"]
      by linarith
    ultimately show ?thesis using c by simp
  qed (use bounds in auto)
qed

theorem incremental_mac_reference_witness:
  "\<exists>inc inc'. Incremental_new (hmac_new [1]) 2 = Inr inc \<and>
    update_all (hmac_ops concrete) inc [[1], [2, 3, 4], []] =
      (Inr [hmac_sha256 concrete [1] [1, 2], hmac_sha256 concrete [1] [1, 2, 3, 4]], inc')"
proof -
  obtain inc where i: "Incremental_new (hmac_new [1]) 2 = Inr inc" by (simp add: Incremental_new_def)
  have upt: "[0..<length (concat [[1], [2, 3, 4], []] :: bytes) div 2] = [0, 1]" by (simp add: upt_conv_Cons)
  obtain inc' where "update_all (hmac_ops concrete) inc [[1], [2, 3, 4], []] =
      (Inr [hmac_sha256 concrete [1] [1, 2], hmac_sha256 concrete [1] [1, 2, 3, 4]], inc')"
    using incremental_mac_reference [OF i, of concrete "[[1], [2, 3, 4], []]", unfolded upt]
    by (elim exE conjE) (simp add: numeral_2_eq_2)
  with i show ?thesis by (intro exI conjI)
qed

theorem validating_accepts_iff_witness:
  "\<exists>inc. Incremental_new (hmac_new [1]) 2 = Inr inc \<and>
    validate_all (hmac_ops concrete) (Incremental_validating inc
      [hmac_sha256 concrete [1] [1, 2], hmac_sha256 concrete [1] [1, 2, 3]]) [[1], [2, 3]] = Inr 3"
proof -
  obtain inc where i: "Incremental_new (hmac_new [1]) 2 = Inr inc" by (simp add: Incremental_new_def)
  have upt: "[0..<length (concat [[1], [2, 3]] :: bytes) div 2] = [0]" by (simp add: upt_conv_Cons)
  have "validate_all (hmac_ops concrete) (Incremental_validating inc
      [hmac_sha256 concrete [1] [1, 2], hmac_sha256 concrete [1] [1, 2, 3]]) [[1], [2, 3]] = Inr 3"
    by (subst validating_accepts_iff [OF i], unfold upt) (simp add: numeral_2_eq_2)
  with i show ?thesis by (intro exI conjI)
qed

end
