(* ===== verification/Fingerprint.thy ===== *)
theory Fingerprint
  imports Crypto "HOL-Library.Char_ord"
begin

text \<open>
  \<open>rust/protocol/src/fingerprint.rs\<close>: the safety number of two identities, as digits to read out and as bytes to scan.
  Both parties compute the same digits, and each accepts the code of the other exactly if the two hashes in it are
  the ones it has computed itself. The protobuf codec of the scannable form is a parameter.
\<close>

section \<open>Types\<close>

record CombinedFingerprints =
  cf_version :: "u32 option"
  cf_local_fingerprint :: "bytes option option"
  cf_remote_fingerprint :: "bytes option option"

record FpCodec =
  fp_encode :: "CombinedFingerprints \<Rightarrow> bytes"
  fp_decode :: "bytes \<Rightarrow> CombinedFingerprints option"

datatype FingerprintError =
    VersionMismatch (theirs: u32) (ours: u32)
  | ParsingError string
  | InvalidIterationCount u32

type_synonym 'a fp_result = "(FingerprintError, 'a) rresult"

record DisplayableFingerprint =
  df_local :: string
  df_remote :: string

record ScannableFingerprint =
  sf_version :: u32
  sf_local_fingerprint :: bytes
  sf_remote_fingerprint :: bytes

record Fingerprint =
  fp_display :: DisplayableFingerprint
  fp_scannable :: ScannableFingerprint

section \<open>Digits\<close>

text \<open>Strings are ordered by their characters, as Rust orders them by their bytes.\<close>

definition DisplayableFingerprint_fmt :: "DisplayableFingerprint \<Rightarrow> string" where
  "DisplayableFingerprint_fmt d =
     (if df_local d < df_remote d then df_local d @ df_remote d else df_remote d @ df_local d)"

definition read5_mod_100k :: "bytes \<Rightarrow> u64 fp_result" where
  "read5_mod_100k fprint =
     (if length fprint \<noteq> 5 then Inl (Panic ''assertion failed'')
      else Inr (foldl (\<lambda>acc x. push_bit 8 acc OR ucast x) 0 fprint mod 100000))"

text \<open>\<open>slice::chunks_exact\<close>, and \<open>{n:05}\<close>.\<close>

definition chunks_exact :: "nat \<Rightarrow> 'a list \<Rightarrow> 'a list list" where
  "chunks_exact n xs = map (\<lambda>i. take n (drop (i * n) xs)) [0..<length xs div n]"

definition zero_padded :: "nat \<Rightarrow> nat \<Rightarrow> string" where
  "zero_padded w n = (let d = nat_to_string n in replicate (w - length d) CHR ''0'' @ d)"

fun write_chunks :: "bytes list \<Rightarrow> string \<Rightarrow> string fp_result" where
  "write_chunks [] s = Inr s"
| "write_chunks (c # cs) s = try_bind (read5_mod_100k c) (\<lambda>n. write_chunks cs (s @ zero_padded 5 (unat n)))"

definition get_encoded_string :: "bytes \<Rightarrow> string fp_result" where
  "get_encoded_string fprint =
     (if length fprint < 30 then Inl (Err (ParsingError ''DisplayableFingerprint created with short encoding''))
      else write_chunks (take 6 (chunks_exact 5 fprint)) [])"

definition DisplayableFingerprint_new :: "bytes \<Rightarrow> bytes \<Rightarrow> DisplayableFingerprint fp_result" where
  "DisplayableFingerprint_new local_fprint remote_fprint =
     try_bind (get_encoded_string local_fprint) (\<lambda>l.
     try_bind (get_encoded_string remote_fprint) (\<lambda>r.
     Inr \<lparr>df_local = l, df_remote = r\<rparr>))"

section \<open>Scannable codes\<close>

definition ScannableFingerprint_new :: "u32 \<Rightarrow> bytes \<Rightarrow> bytes \<Rightarrow> ScannableFingerprint fp_result" where
  "ScannableFingerprint_new version local_fprint remote_fprint =
     (if length local_fprint < 32 \<or> length remote_fprint < 32 then Inl (Panic ''range end index out of range'')
      else Inr \<lparr>sf_version = version, sf_local_fingerprint = take 32 local_fprint,
                sf_remote_fingerprint = take 32 remote_fprint\<rparr>)"

definition ScannableFingerprint_deserialize :: "FpCodec \<Rightarrow> bytes \<Rightarrow> ScannableFingerprint fp_result" where
  "ScannableFingerprint_deserialize C protobuf =
     try_bind (ok_or (ParsingError ''failed to decode protobuf'') (fp_decode C protobuf)) (\<lambda>fingerprint.
     try_bind (ok_or (ParsingError ''missing version'') (cf_version fingerprint)) (\<lambda>version.
     try_bind (ok_or (ParsingError ''missing local fingerprint'') (Option.bind (cf_local_fingerprint fingerprint) id)) (\<lambda>l.
     try_bind (ok_or (ParsingError ''missing remote fingerprint'') (Option.bind (cf_remote_fingerprint fingerprint) id)) (\<lambda>r.
     Inr \<lparr>sf_version = version, sf_local_fingerprint = l, sf_remote_fingerprint = r\<rparr>))))"

definition ScannableFingerprint_serialize :: "FpCodec \<Rightarrow> ScannableFingerprint \<Rightarrow> bytes" where
  "ScannableFingerprint_serialize C s = fp_encode C
     \<lparr>cf_version = Some (sf_version s), cf_local_fingerprint = Some (Some (sf_local_fingerprint s)),
      cf_remote_fingerprint = Some (Some (sf_remote_fingerprint s))\<rparr>"

definition ScannableFingerprint_compare :: "FpCodec \<Rightarrow> ScannableFingerprint \<Rightarrow> bytes \<Rightarrow> bool fp_result" where
  "ScannableFingerprint_compare C s combined_bytes =
     try_bind (ok_or (ParsingError ''failed to decode their protobuf'') (fp_decode C combined_bytes)) (\<lambda>combined.
     let their_version = (case cf_version combined of None \<Rightarrow> 0 | Some v \<Rightarrow> v) in
     if their_version \<noteq> sf_version s then Inl (Err (VersionMismatch their_version (sf_version s)))
     else
       try_bind (ok_or (ParsingError ''missing their local fingerprint'')
         (Option.bind (cf_local_fingerprint combined) id)) (\<lambda>l. let same1 = (l = sf_remote_fingerprint s) in
       try_bind (ok_or (ParsingError ''missing their remote fingerprint'')
         (Option.bind (cf_remote_fingerprint combined) id)) (\<lambda>r. let same2 = (r = sf_local_fingerprint s) in
       Inr (same1 \<and> same2))))"

section \<open>Fingerprints\<close>

definition get_fingerprint :: "'r Ext \<Rightarrow> u32 \<Rightarrow> bytes \<Rightarrow> IdentityKey \<Rightarrow> bytes fp_result" where
  "get_fingerprint E iterations local_id local_key =
     (if iterations \<le> 1 \<or> 1000000 < iterations then Inl (Err (InvalidIterationCount iterations))
      else let fingerprint_version = [0, 0]; key_bytes = IdentityKey_serialize local_key;
               buf = x_sha512 E (fingerprint_version @ key_bytes @ local_id @ key_bytes)
           in Inr (((\<lambda>buf. x_sha512 E (buf @ key_bytes)) ^^ (unat iterations - 1)) buf))"

definition Fingerprint_new ::
    "'r Ext \<Rightarrow> u32 \<Rightarrow> u32 \<Rightarrow> bytes \<Rightarrow> IdentityKey \<Rightarrow> bytes \<Rightarrow> IdentityKey \<Rightarrow> Fingerprint fp_result" where
  "Fingerprint_new E version iterations local_id local_key remote_id remote_key =
     try_bind (get_fingerprint E iterations local_id local_key) (\<lambda>local_fingerprint.
     try_bind (get_fingerprint E iterations remote_id remote_key) (\<lambda>remote_fingerprint.
     try_bind (DisplayableFingerprint_new local_fingerprint remote_fingerprint) (\<lambda>display.
     try_bind (ScannableFingerprint_new version local_fingerprint remote_fingerprint) (\<lambda>scannable.
     Inr \<lparr>fp_display = display, fp_scannable = scannable\<rparr>))))"

definition display_string :: "Fingerprint \<Rightarrow> string" where
  "display_string f = DisplayableFingerprint_fmt (fp_display f)"

section \<open>Both parties see the same number\<close>

lemma read5_mod_100k_ok: "length c = 5 \<Longrightarrow> \<exists>n. read5_mod_100k c = Inr n \<and> unat n < 100000"
  by (auto simp: read5_mod_100k_def unat_mod)

lemma zero_padded_digits: "set (zero_padded w n) \<subseteq> set ''0123456789''"
  using nat_to_string_digits [of n] by (auto simp: zero_padded_def Let_def)

lemma length_zero_padded: "n < 10 ^ Suc k \<Longrightarrow> length (zero_padded (Suc k) n) = Suc k"
  using length_nat_to_string [of n k] by (simp add: zero_padded_def Let_def)

lemma write_chunks_ok:
  assumes "\<forall>c \<in> set cs. length c = 5"
  shows "\<exists>t. write_chunks cs s = Inr (s @ t) \<and> length t = 5 * length cs \<and> set t \<subseteq> set ''0123456789''"
  using assms
proof (induction cs arbitrary: s)
  case (Cons c cs)
  then obtain n where n: "read5_mod_100k c = Inr n" "unat n < 100000" using read5_mod_100k_ok [of c] by auto
  from Cons obtain t where "write_chunks cs (s @ zero_padded 5 (unat n)) = Inr ((s @ zero_padded 5 (unat n)) @ t)"
    "length t = 5 * length cs" "set t \<subseteq> set ''0123456789''" by fastforce
  moreover have "length (zero_padded 5 (unat n)) = 5" using length_zero_padded [of "unat n" 4] n(2) by simp
  ultimately show ?case
    using n(1) zero_padded_digits [of 5 "unat n"] by (intro exI [of _ "zero_padded 5 (unat n) @ t"]) auto
qed simp

lemma length_chunks_exact: "length (chunks_exact n xs) = length xs div n"
  by (simp add: chunks_exact_def)

lemma chunk_exact_length:
  assumes "c \<in> set (chunks_exact n xs)"
  shows "length c = n"
proof -
  from assms obtain i where i: "i < length xs div n" "c = take n (drop (i * n) xs)" by (auto simp: chunks_exact_def)
  then have "Suc i * n \<le> length xs div n * n" by (intro mult_le_mono1) simp
  also have "\<dots> \<le> length xs" by (rule div_times_less_eq_dividend)
  finally show ?thesis using i(2) by simp
qed

lemma get_encoded_string_ok:
  assumes "length fprint = 64"
  shows "\<exists>t. get_encoded_string fprint = Inr t \<and> length t = 30 \<and> set t \<subseteq> set ''0123456789''"
proof -
  have "\<forall>c \<in> set (take 6 (chunks_exact 5 fprint)). length c = 5" by (auto dest!: in_set_takeD chunk_exact_length)
  from write_chunks_ok [OF this, of "[]"] assms show ?thesis
    by (simp add: get_encoded_string_def length_chunks_exact)
qed

lemma get_fingerprint_ok:
  assumes "\<And>x. length (x_sha512 E x) = 64" "1 < n" "n \<le> 1000000"
  shows "\<exists>h. get_fingerprint E n i k = Inr h \<and> length h = 64"
proof -
  have "length (((\<lambda>buf. x_sha512 E (buf @ b)) ^^ m) (x_sha512 E x)) = 64" for b m x
    by (cases m) (simp_all add: assms(1))
  then show ?thesis using assms(2,3) by (simp add: get_fingerprint_def Let_def not_le [symmetric])
qed

lemma Fingerprint_new_ok:
  assumes "length h = 64" "length h' = 64" "get_fingerprint E n i k = Inr h" "get_fingerprint E n i' k' = Inr h'"
  shows "\<exists>l r. get_encoded_string h = Inr l \<and> get_encoded_string h' = Inr r \<and> Fingerprint_new E v n i k i' k' = Inr
    \<lparr>fp_display = \<lparr>df_local = l, df_remote = r\<rparr>,
     fp_scannable = \<lparr>sf_version = v, sf_local_fingerprint = take 32 h, sf_remote_fingerprint = take 32 h'\<rparr>\<rparr>"
  using get_encoded_string_ok [OF assms(1)] get_encoded_string_ok [OF assms(2)] assms
  by (auto simp: Fingerprint_new_def DisplayableFingerprint_new_def ScannableFingerprint_new_def)

lemma compare_serialized:
  assumes "\<And>m. fp_decode C (fp_encode C m) = Some m"
  shows "ScannableFingerprint_compare C s (ScannableFingerprint_serialize C t) =
    (if sf_version t \<noteq> sf_version s then Inl (Err (VersionMismatch (sf_version t) (sf_version s)))
     else Inr (sf_local_fingerprint t = sf_remote_fingerprint s \<and> sf_remote_fingerprint t = sf_local_fingerprint s))"
  using assms by (simp add: ScannableFingerprint_compare_def ScannableFingerprint_serialize_def)

text \<open>C33: Two parties that have each other's identity keys see the same safety number of sixty digits, and each accepts
  the code the other one shows. The code of a party with any other view of the two identities is accepted exactly
  if the first 32 bytes of both its hashes are those of the accepting party. Nothing panics, for any iteration count
  from two to a million.\<close>

theorem fingerprints_agree:
  assumes "\<And>x. length (x_sha512 E x) = 64" "\<And>m. fp_decode C (fp_encode C m) = Some m" "1 < n" "n \<le> 1000000"
  shows "\<exists>f g h. Fingerprint_new E v n id1 k1 id2 k2 = Inr f \<and> Fingerprint_new E v n id2 k2 id1 k1 = Inr g
    \<and> Fingerprint_new E v n id2' k2' id1' k1' = Inr h
    \<and> display_string f = display_string g \<and> length (display_string f) = 60 \<and> set (display_string f) \<subseteq> set ''0123456789''
    \<and> ScannableFingerprint_compare C (fp_scannable f) (ScannableFingerprint_serialize C (fp_scannable g)) = Inr True
    \<and> ScannableFingerprint_compare C (fp_scannable f) (ScannableFingerprint_serialize C (fp_scannable h)) = Inr
        (map_sum id (take 32) (get_fingerprint E n id2' k2') = map_sum id (take 32) (get_fingerprint E n id2 k2)
         \<and> map_sum id (take 32) (get_fingerprint E n id1' k1') = map_sum id (take 32) (get_fingerprint E n id1 k1))"
proof -
  note ok = get_fingerprint_ok [OF assms(1,3,4)]
  obtain a where a: "get_fingerprint E n id1 k1 = Inr a" "length a = 64" using ok by blast
  obtain b where b: "get_fingerprint E n id2 k2 = Inr b" "length b = 64" using ok by blast
  obtain c where c: "get_fingerprint E n id1' k1' = Inr c" "length c = 64" using ok by blast
  obtain d where d: "get_fingerprint E n id2' k2' = Inr d" "length d = 64" using ok by blast
  obtain l where l: "get_encoded_string a = Inr l" "length l = 30" "set l \<subseteq> set ''0123456789''"
    using get_encoded_string_ok [OF a(2)] by blast
  obtain r where r: "get_encoded_string b = Inr r" "length r = 30" "set r \<subseteq> set ''0123456789''"
    using get_encoded_string_ok [OF b(2)] by blast
  let ?s = "\<lambda>x y. \<lparr>sf_version = v, sf_local_fingerprint = take 32 x, sf_remote_fingerprint = take 32 y\<rparr>"
  let ?f = "\<lparr>fp_display = \<lparr>df_local = l, df_remote = r\<rparr>, fp_scannable = ?s a b\<rparr>"
  let ?g = "\<lparr>fp_display = \<lparr>df_local = r, df_remote = l\<rparr>, fp_scannable = ?s b a\<rparr>"
  have f: "Fingerprint_new E v n id1 k1 id2 k2 = Inr ?f" and g: "Fingerprint_new E v n id2 k2 id1 k1 = Inr ?g"
    using Fingerprint_new_ok [OF a(2) b(2) a(1) b(1), of v] Fingerprint_new_ok [OF b(2) a(2) b(1) a(1), of v] l(1) r(1)
    by auto
  obtain h where h: "Fingerprint_new E v n id2' k2' id1' k1' = Inr h" "fp_scannable h = ?s d c"
    using Fingerprint_new_ok [OF d(2) c(2) d(1) c(1), of v] by auto
  have "display_string ?f = display_string ?g"
    using linorder_less_linear [of l r] by (auto simp: display_string_def DisplayableFingerprint_fmt_def)
  moreover have "length (display_string ?f) = 60" "set (display_string ?f) \<subseteq> set ''0123456789''"
    using l(2,3) r(2,3) by (auto simp: display_string_def DisplayableFingerprint_fmt_def)
  ultimately show ?thesis
    by (intro exI [of _ ?f] exI [of _ ?g] exI [of _ h]) (simp add: f g h compare_serialized [OF assms(2)] a(1) b(1) c(1) d(1))
qed

definition combined_fingerprints_codec :: "CombinedFingerprints codec" where
  "combined_fingerprints_codec = iso_codec (\<lambda>(a, b, c). CombinedFingerprints.make a b c)
     (\<lambda>m. (cf_version m, cf_local_fingerprint m, cf_remote_fingerprint m))
     (pair_codec (option_codec word_codec)
       (pair_codec (option_codec (option_codec bytes_codec)) (option_codec (option_codec bytes_codec))))"

definition concrete_fp_codec :: FpCodec where
  "concrete_fp_codec = \<lparr>fp_encode = enc combined_fingerprints_codec, fp_decode = dec combined_fingerprints_codec\<rparr>"

lemma concrete_fp_codec_ok: "fp_decode concrete_fp_codec (fp_encode concrete_fp_codec m) = Some m"
proof -
  have "codec_ok combined_fingerprints_codec"
    unfolding combined_fingerprints_codec_def
    by (intro codec_ok_intros) (simp add: CombinedFingerprints.make_def)
  then show ?thesis by (simp add: concrete_fp_codec_def dec_enc)
qed

theorem fingerprints_agree_witness:
  "\<exists>f g. Fingerprint_new concrete 2 5200 [1] (IdentityKey (DjbPublicKey (replicate 32 3))) [2]
        (IdentityKey (DjbPublicKey (replicate 32 4))) = Inr f
    \<and> Fingerprint_new concrete 2 5200 [2] (IdentityKey (DjbPublicKey (replicate 32 4))) [1]
        (IdentityKey (DjbPublicKey (replicate 32 3))) = Inr g
    \<and> display_string f = display_string g \<and> length (display_string f) = 60
    \<and> ScannableFingerprint_compare concrete_fp_codec (fp_scannable f)
        (ScannableFingerprint_serialize concrete_fp_codec (fp_scannable g)) = Inr True"
proof -
  have "length (x_sha512 concrete x) = 64" for x by (simp add: concrete_def)
  from fingerprints_agree [OF this concrete_fp_codec_ok, of 5200 2 "[1]" "IdentityKey (DjbPublicKey (replicate 32 3))"
      "[2]" "IdentityKey (DjbPublicKey (replicate 32 4))"]
  show ?thesis by (simp add: word_less_nat_alt word_le_nat_alt) blast
qed

end
