(* ===== verification/Left_Balanced.thy ===== *)
theory Left_Balanced
  imports Signal_Prelude
begin

unbundle bit_operations_syntax

text \<open>
  Node arithmetic of left-balanced trees, \<^verbatim>\<open>rust/keytrans/src/left_balanced.rs\<close>: the nodes
  of a tree are numbered in-order, so that a node's level is the number of trailing ones of its
  number and a step to a child or to the parent flips bits. Node numbers are \<open>u64\<close> values,
  natural numbers below \<open>2 ^ 64\<close> here; a shift by 64 or more and a step below a leaf panic.

  \<open>node q k\<close> is the number of the \<open>q\<close>-th node of level \<open>k\<close> and \<open>span q k\<close> the numbers of its
  subtree; the lemmas restate every step of the code over these.
\<close>

section \<open>The code\<close>

text \<open>These functions return no \<open>Result\<close>: \<open>Inl\<close> is a panic with its message.\<close>

type_synonym 'a or_panic = "string + 'a"

lemma try_bind_cong [fundef_cong]:
  "r = r' \<Longrightarrow> (\<And>a. r' = Inr a \<Longrightarrow> k a = k' a) \<Longrightarrow> try_bind r k = try_bind r' k'"
  by (cases r') simp_all

definition panicking :: "'a or_panic \<Rightarrow> ('e, 'a) rresult" where
  "panicking r = (case r of Inl m \<Rightarrow> Inl (Panic m) | Inr a \<Rightarrow> Inr a)"

text \<open>\<open>checked_ilog2().unwrap_or(0)\<close>.\<close>

fun log2 :: "nat \<Rightarrow> nat" where
  "log2 n = (if n < 2 then 0 else Suc (log2 (n div 2)))"

declare log2.simps [simp del]

lemma log2_small [simp]: "log2 0 = 0" "log2 (Suc 0) = 0"
  by (simp_all add: log2.simps)

definition is_leaf :: "nat \<Rightarrow> bool" where
  "is_leaf x \<longleftrightarrow> x AND 1 = 0"

text \<open>\<open>u64::trailing_ones\<close>.\<close>

function level :: "nat \<Rightarrow> nat" where
  "level x = (if odd x then Suc (level (x div 2)) else 0)"
  by pat_completeness auto
termination
  by (relation "measure id") (auto elim: oddE)

declare level.simps [simp del]

definition left_step :: "nat \<Rightarrow> nat or_panic" where
  "left_step x = (case level x of
     0 \<Rightarrow> Inl ''leaf node has no children''
   | Suc k \<Rightarrow> Inr (x XOR push_bit k 1))"

text \<open>The left shift of the literal 3 drops the bits above the 64th.\<close>

definition right_step :: "nat \<Rightarrow> nat or_panic" where
  "right_step x = (case level x of
     0 \<Rightarrow> Inl ''leaf node has no children''
   | Suc k \<Rightarrow> Inr (take_bit 64 (x XOR push_bit k 3)))"

definition parent_step :: "nat \<Rightarrow> nat or_panic" where
  "parent_step x = (let k = level x in
     if 64 \<le> k + 1 then Inl ''attempt to shift right with overflow''
     else let b = drop_bit (k + 1) x AND 1 in
       Inr ((x OR push_bit k 1) XOR push_bit (k + 1) b))"

section \<open>Nodes by level and index\<close>

definition node :: "nat \<Rightarrow> nat \<Rightarrow> nat" where
  "node q k = q * 2 ^ Suc k + 2 ^ k - 1"

definition span :: "nat \<Rightarrow> nat \<Rightarrow> nat set" where
  "span q k = {q * 2 ^ Suc k ..< (q + 1) * 2 ^ Suc k - 1}"

lemma Suc_node: "Suc (node q k) = 2 * (q * 2 ^ k) + 2 ^ k"
  by (simp add: node_def)

lemma span_iff: "x \<in> span q k \<longleftrightarrow> 2 * (q * 2 ^ k) \<le> x \<and> Suc x < 2 * (q * 2 ^ k) + 2 * 2 ^ k"
  by (auto simp: span_def algebra_simps)

lemma node_0 [simp]: "node q 0 = 2 * q"
  by (simp add: node_def)

lemma node_Suc: "node q (Suc k) = Suc (2 * node q k)"
  using Suc_node [of q k] Suc_node [of q "Suc k"] by simp

lemma level_node [simp]: "level (node q k) = k"
proof (induction k)
  case 0
  then show ?case by (simp add: level.simps)
next
  case (Suc k)
  then show ?case by (simp add: level.simps [of "node q (Suc k)"]) (simp add: node_Suc)
qed

lemma node_of: "\<exists>q. x = node q (level x)"
proof (induction x rule: level.induct)
  case (1 x)
  show ?case
  proof (cases "odd x")
    case True
    with 1 obtain q where "x div 2 = node q (level (x div 2))" by blast
    moreover have "x = Suc (2 * (x div 2))" using True by simp
    ultimately show ?thesis
      using True by (metis level.simps node_Suc)
  next
    case False
    then show ?thesis
      by (intro exI [of _ "x div 2"]) (simp add: level.simps [of x])
  qed
qed

lemma node_cases: obtains q k where "x = node q k"
  using node_of by blast

lemma is_leaf_node [simp]: "is_leaf (node q k) \<longleftrightarrow> k = 0"
  by (cases k) (simp_all add: is_leaf_def node_Suc and_one_eq)

section \<open>The steps\<close>

lemma xor_odd_even: "Suc (2 * a) XOR (2 * b) = Suc (2 * (a XOR b))" for a b :: nat
  by (subst xor_rec) simp

lemma xor_node_left: "node q (Suc k) XOR 2 ^ k = node (2 * q) k"
proof (induction k)
  case 0
  have "Suc (2 * (2 * q)) XOR 1 = 2 * (2 * q)"
    by (subst xor_rec) simp
  then show ?case by (simp add: node_Suc)
next
  case (Suc k)
  then show ?case
    by (simp only: node_Suc [of q "Suc k"] power_Suc xor_odd_even) (simp add: node_Suc)
qed

lemma xor_node_right: "node q (Suc k) XOR (3 * 2 ^ k) = node (Suc (2 * q)) k"
proof (induction k)
  case 0
  have "Suc (2 * (2 * q)) XOR 3 = 2 * (Suc (2 * q))"
    by (subst xor_rec) (simp add: xor_rec [of "2 * q" "Suc 0"])
  then show ?case by (simp add: node_Suc)
next
  case (Suc k)
  have "3 * 2 ^ Suc k = 2 * (3 * 2 ^ k :: nat)" by simp
  with Suc show ?case
    by (simp only: node_Suc [of q "Suc k"] xor_odd_even) (simp add: node_Suc)
qed

lemma left_step_node: "left_step (node q (Suc k)) = Inr (node (2 * q) k)"
  by (simp add: left_step_def push_bit_eq_mult xor_node_left)

lemma right_step_take: "right_step (node q (Suc k)) = Inr (take_bit 64 (node (Suc (2 * q)) k))"
  using xor_node_right [of q k] by (simp add: right_step_def push_bit_eq_mult mult.commute)

lemma right_step_node:
  "node (Suc (2 * q)) k < 2 ^ 64 \<Longrightarrow> right_step (node q (Suc k)) = Inr (node (Suc (2 * q)) k)"
  by (simp only: right_step_take take_bit_nat_eq_self)

lemma level_take_bit: "level (take_bit m x) \<le> level x"
proof (induction x arbitrary: m rule: level.induct)
  case (1 x)
  show ?case
  proof (cases m)
    case (Suc j)
    have "take_bit (Suc j) x = 2 * take_bit j (x div 2) + x mod 2"
      by (simp add: take_bit_Suc)
    with 1 [of j] Suc show ?thesis
      by (cases "odd x") (simp_all add: level.simps [of x] level.simps [of "2 * _"]
        level.simps [of "Suc (2 * _)"] odd_iff_mod_2_eq_one)
  qed (simp add: level.simps)
qed

lemma level_left_step: "left_step x = Inr y \<Longrightarrow> level y < level x"
proof -
  assume step: "left_step x = Inr y"
  obtain q k where x: "x = node q k" by (rule node_cases)
  show ?thesis
  proof (cases k)
    case 0
    with step x show ?thesis by (simp add: left_step_def level.simps [of "2 * q"])
  next
    case (Suc j)
    with step x have "y = node (2 * q) j" by (simp only: left_step_node sum.inject)
    with x Suc show ?thesis by simp
  qed
qed

lemma level_right_step: "right_step x = Inr y \<Longrightarrow> level y < level x"
proof -
  assume step: "right_step x = Inr y"
  obtain q k where x: "x = node q k" by (rule node_cases)
  show ?thesis
  proof (cases k)
    case 0
    with step x show ?thesis by (simp add: right_step_def level.simps [of "2 * q"])
  next
    case (Suc j)
    with step x have "y = take_bit 64 (node (Suc (2 * q)) j)"
      by (simp only: right_step_take sum.inject)
    with x Suc show ?thesis
      using level_take_bit [of 64 "node (Suc (2 * q)) j"] by (simp only: level_node less_Suc_eq_le)
  qed
qed

lemma steps_leaf [simp]:
  "left_step (2 * q) = Inl ''leaf node has no children''"
  "right_step (2 * q) = Inl ''leaf node has no children''"
  by (simp_all add: left_step_def right_step_def level.simps [of "2 * q"])

lemma node_div: "node q k div 2 ^ Suc k = q"
proof (induction k)
  case (Suc k)
  have "Suc (2 * node q k) div (2 * 2 ^ Suc k) = (Suc (2 * node q k) div 2) div 2 ^ Suc k"
    by (simp only: div_mult2_eq)
  also have "Suc (2 * node q k) div 2 = node q k" by simp
  finally show ?case using Suc by (simp only: node_Suc power_Suc)
qed simp

lemma node_eq_iff: "node q k = node p j \<longleftrightarrow> k = j \<and> q = p"
  using level_node node_div by metis

lemma parent_bits: "(node q k OR 2 ^ k) XOR (q mod 2 * 2 ^ Suc k) = node (q div 2) (Suc k)"
proof (induction k)
  case 0
  have "q XOR (q mod 2) = 2 * (q div 2)"
    by (subst xor_rec) (cases "even q"; simp add: odd_iff_mod_2_eq_one even_iff_mod_2_eq_zero)
  moreover have "2 * q OR 1 = Suc (2 * q)" by (subst or_rec) simp
  ultimately show ?case using xor_odd_even [of q "q mod 2"]
    by (simp add: node_Suc mult.commute)
next
  case (Suc k)
  have "node q (Suc k) OR 2 ^ Suc k = Suc (2 * (node q k OR 2 ^ k))"
    by (subst or_rec) (simp add: node_Suc)
  moreover have "q mod 2 * 2 ^ Suc (Suc k) = 2 * (q mod 2 * 2 ^ Suc k)" by simp
  ultimately show ?case
    using Suc by (simp only: xor_odd_even node_Suc [of "q div 2" "Suc k"])
qed

lemma parent_step_node:
  "parent_step (node q k)
   = (if k < 63 then Inr (node (q div 2) (Suc k))
      else Inl ''attempt to shift right with overflow'')"
proof -
  have b: "drop_bit (Suc k) (node q k) = q"
    by (simp only: drop_bit_eq_div node_div)
  show ?thesis
    using parent_bits [of q k]
    by (auto simp: parent_step_def Let_def b push_bit_eq_mult and_one_eq)
qed

lemma level_parent_step: "parent_step x = Inr p \<Longrightarrow> level p = Suc (level x) \<and> level x < 63"
proof -
  assume p: "parent_step x = Inr p"
  obtain q k where "x = node q k" by (rule node_cases)
  with p show ?thesis by (auto simp: parent_step_node split: if_splits)
qed

section \<open>Subtrees\<close>

lemma span_0 [simp]: "span q 0 = {2 * q}"
  by (auto simp: span_iff)

lemma two_power_pos: "1 \<le> (2 :: nat) ^ k"
  by simp

lemma node_in_span: "node q k \<in> span q k"
  using Suc_node [of q k] two_power_pos [of k] unfolding span_iff by linarith

text \<open>A subtree is the left subtree, the node and the right subtree.\<close>

lemma span_children:
  "x \<in> span (2 * q) k \<longleftrightarrow> x \<in> span q (Suc k) \<and> x < node q (Suc k)"
  "x \<in> span (Suc (2 * q)) k \<longleftrightarrow> x \<in> span q (Suc k) \<and> node q (Suc k) < x"
  using Suc_node [of q "Suc k"] two_power_pos [of k] by (auto simp: span_iff algebra_simps)

lemma span_child_next:
  "Suc (node q (Suc k)) \<in> span (Suc (2 * q)) k"
  "node q (Suc k) - 1 \<in> span (2 * q) k"
proof -
  define a p where "a = q * 2 ^ k" and "p = (2 :: nat) ^ k"
  have "Suc (node q (Suc k)) = 4 * a + 2 * p" "1 \<le> p"
    using Suc_node [of q "Suc k"] by (simp_all add: a_def p_def)
  moreover have "Suc (2 * q) * 2 ^ k = 2 * a + p" "2 * q * 2 ^ k = 2 * a"
    by (simp_all add: a_def p_def)
  ultimately show "Suc (node q (Suc k)) \<in> span (Suc (2 * q)) k"
    "node q (Suc k) - 1 \<in> span (2 * q) k"
    unfolding span_iff p_def [symmetric] by simp_all
qed

text \<open>The numbers of a subtree whose root is a \<open>u64\<close> other than the largest are \<open>u64\<close> values.\<close>

lemma span_u64:
  assumes "Suc (node q k) < 2 ^ 64"
  shows "2 * (q * 2 ^ k) + 2 * 2 ^ k \<le> 2 ^ 64"
proof -
  have "(2 :: nat) ^ k < 2 ^ 64" using assms Suc_node [of q k] by linarith
  then have "k < 64" by (rule power_less_imp_less_exp [rotated]) simp
  then obtain j where j: "64 = Suc k + j" using less_iff_Suc_add by auto
  have split: "(2 :: nat) ^ 64 = 2 * 2 ^ j * 2 ^ k" unfolding j by (simp add: power_add)
  have "(2 * q + 1) * 2 ^ k < 2 * 2 ^ j * 2 ^ k"
    using assms Suc_node [of q k] unfolding split by (simp add: algebra_simps)
  then have "2 * q + 1 < 2 * 2 ^ j" by (simp only: mult_less_cancel2)
  then have "q + 1 \<le> 2 ^ j" by linarith
  then have "(q + 1) * (2 * 2 ^ k) \<le> 2 ^ j * (2 * 2 ^ k)" by (rule mult_le_mono1)
  then show ?thesis unfolding split by (simp add: algebra_simps)
qed

text \<open>The numbers below a node, by the node's number.\<close>

definition subtree :: "nat \<Rightarrow> nat set" where
  "subtree x = span (x div 2 ^ Suc (level x)) (level x)"

lemma subtree_node [simp]: "subtree (node q k) = span q k"
  by (simp only: subtree_def level_node node_div)

lemma in_own_subtree [simp]: "x \<in> subtree x"
proof -
  obtain q k where "x = node q k" by (rule node_cases)
  then show ?thesis by (simp only: subtree_node node_in_span)
qed

lemma subtree_leaf: "level x = 0 \<Longrightarrow> subtree x = {x}"
proof -
  assume lev: "level x = 0"
  obtain q k where x: "x = node q k" by (rule node_cases)
  with lev subtree_node [of q 0] show ?thesis by simp
qed

lemma is_leaf_iff: "is_leaf x \<longleftrightarrow> level x = 0"
proof -
  obtain q k where "x = node q k" by (rule node_cases)
  then show ?thesis by simp
qed

lemma log2_bounds: "0 < n \<Longrightarrow> 2 ^ log2 n \<le> n \<and> n < 2 ^ Suc (log2 n)"
proof (induction n rule: log2.induct)
  case (1 n)
  then show ?case by (cases "n < 2") (auto simp: log2.simps [of n])
qed

lemma log2_eqI: "2 ^ k \<le> n \<Longrightarrow> n < 2 ^ Suc k \<Longrightarrow> log2 n = k"
proof (induction n arbitrary: k rule: log2.induct)
  case (1 n)
  show ?case
  proof (cases k)
    case 0
    with 1 show ?thesis by (simp add: log2.simps [of n])
  next
    case (Suc j)
    with 1(2) have "2 * 2 ^ j \<le> n" by simp
    with two_power_pos [of j] have "\<not> n < 2" by linarith
    moreover have "2 ^ j \<le> n div 2" "n div 2 < 2 ^ Suc j" using 1(2,3) Suc by simp_all
    ultimately have "log2 (n div 2) = j" using 1(1) by simp
    with \<open>\<not> n < 2\<close> Suc show ?thesis by (simp add: log2.simps [of n])
  qed
qed

end
