(* ===== verification/Implicit_Tree.thy ===== *)
theory Implicit_Tree
  imports Left_Balanced
begin

text \<open>
  The implicit binary search tree of the log, \<^verbatim>\<open>rust/keytrans/src/implicit.rs\<close>: the entries
  \<open>start \<le> x < n\<close> of the log are the nodes of a search tree whose shape only depends on
  \<open>start\<close> and \<open>n\<close>. The lemmas show that the loops end, that inside the range no step panics, and
  that each step keeps all entries of the range that can still be searched below it.
\<close>

section \<open>The code\<close>

function move_within :: "nat \<Rightarrow> nat \<Rightarrow> nat \<Rightarrow> nat or_panic" where
  "move_within x start n =
     (if start \<le> x \<and> x < n then Inr x
      else if x < start then try_bind (right_step x) (\<lambda>y. move_within y start n)
      else try_bind (left_step x) (\<lambda>y. move_within y start n))"
  by pat_completeness auto
termination
  by (relation "measure (\<lambda>(x, _). level x)") (auto dest: level_left_step level_right_step)

declare move_within.simps [simp del]

definition implicit_root :: "nat \<Rightarrow> nat \<Rightarrow> nat or_panic" where
  "implicit_root start n = move_within (push_bit (log2 n) 1 - 1) start n"

definition implicit_left :: "nat \<Rightarrow> nat \<Rightarrow> nat \<Rightarrow> nat or_panic" where
  "implicit_left x start n = try_bind (left_step x) (\<lambda>y. move_within y start n)"

definition implicit_right :: "nat \<Rightarrow> nat \<Rightarrow> nat \<Rightarrow> nat or_panic" where
  "implicit_right x start n = try_bind (right_step x) (\<lambda>y. move_within y start n)"

function implicit_parent :: "nat \<Rightarrow> nat \<Rightarrow> nat or_panic" where
  "implicit_parent x n =
     try_bind (parent_step x) (\<lambda>p. if n \<le> p then implicit_parent p n else Inr p)"
  by pat_completeness auto
termination
  by (relation "measure (\<lambda>(x, _). 64 - level x)") (auto dest: level_parent_step)

declare implicit_parent.simps [simp del]

text \<open>
  The path is a lazy iterator: the items it yields and the panic, if any, that asking for the
  next item after them raises.
\<close>

type_synonym lazy_path = "nat list \<times> string option"

lemma level_implicit_parent: "implicit_parent x n = Inr p \<Longrightarrow> level x < level p \<and> level x < 63"
proof (induction x rule: measure_induct_rule [where f = "\<lambda>x. 64 - level x"])
  case (less x)
  from less.prems obtain y where y: "parent_step x = Inr y"
    and p: "y = p \<or> implicit_parent y n = Inr p"
    by (auto simp: implicit_parent.simps [of x] res_simps split: if_splits)
  from level_parent_step [OF y] have lev: "level y = Suc (level x)" "level x < 63" by simp_all
  then have "64 - level y < 64 - level x" by simp
  from less.IH [OF this] p lev show ?case by auto
qed

function direct_path_from :: "nat \<Rightarrow> nat \<Rightarrow> nat \<Rightarrow> lazy_path" where
  "direct_path_from x r n =
     (if x = r then ([], None)
      else case implicit_parent x n of
        Inl m \<Rightarrow> ([], Some m)
      | Inr p \<Rightarrow> (let (ps, e) = direct_path_from p r n in (p # ps, e)))"
  by pat_completeness auto
termination
  by (relation "measure (\<lambda>(x, _). 64 - level x)") (auto dest: level_implicit_parent)

declare direct_path_from.simps [simp del]

definition direct_path :: "nat \<Rightarrow> nat \<Rightarrow> nat \<Rightarrow> lazy_path or_panic" where
  "direct_path x start n = try_bind (implicit_root start n) (\<lambda>r. Inr (direct_path_from x r n))"

definition monitoring_path :: "nat \<Rightarrow> nat \<Rightarrow> nat \<Rightarrow> lazy_path or_panic" where
  "monitoring_path x start n =
     try_bind (direct_path x start n) (\<lambda>(ps, e). Inr (filter (\<lambda>parent. x < parent) ps, e))"

lemma level_move_within: "move_within x start n = Inr y \<Longrightarrow> level y \<le> level x"
proof (induction x rule: measure_induct_rule [where f = level])
  case (less x)
  from less.prems have "x = y \<or> (\<exists>z. level z < level x \<and> move_within z start n = Inr y)"
    by (auto simp: move_within.simps [of x] res_simps split: if_splits
      dest: level_left_step level_right_step)
  with less.IH show ?case by fastforce
qed

lemma level_implicit_right: "implicit_right x start n = Inr y \<Longrightarrow> level y < level x"
  by (auto simp: implicit_right_def res_simps dest!: level_right_step level_move_within)

function frontier_from :: "nat \<Rightarrow> nat \<Rightarrow> nat \<Rightarrow> nat list or_panic" where
  "frontier_from cur start n =
     (if cur = n - 1 then Inr [cur]
      else try_bind (implicit_right cur start n) (\<lambda>r.
        try_bind (frontier_from r start n) (\<lambda>rest. Inr (cur # rest))))"
  by pat_completeness auto
termination
  by (relation "measure (\<lambda>(x, _). level x)") (auto dest: level_implicit_right)

declare frontier_from.simps [simp del]

text \<open>With \<open>n = 0\<close> the root already panics, so that \<open>n - 1\<close> does not underflow.\<close>

definition frontier :: "nat \<Rightarrow> nat \<Rightarrow> nat list or_panic" where
  "frontier start n = try_bind (implicit_root start n) (\<lambda>r. frontier_from r start n)"

text \<open>The search runs from the end; index \<open>i\<close> of the reversed frontier is \<open>length - 1 - i\<close>.\<close>

definition monitoring_frontier :: "nat list \<Rightarrow> nat set \<Rightarrow> nat list or_panic" where
  "monitoring_frontier fr entries =
     (case position (\<lambda>v. v \<in> entries) (rev fr) of
        None \<Rightarrow> Inl ''monitoring paths must always terminate at some frontier node''
      | Some i \<Rightarrow> Inr (drop (length fr - i) fr))"

fun dedup_path :: "nat list \<Rightarrow> nat set \<Rightarrow> nat list \<times> nat set" where
  "dedup_path [] dedup = ([], dedup)"
| "dedup_path (x # xs) dedup =
     (if x \<in> dedup then dedup_path xs dedup
      else let (path, d) = dedup_path xs (insert x dedup) in (x # path, d))"

definition full_monitoring_path :: "nat \<Rightarrow> nat \<Rightarrow> nat \<Rightarrow> nat list or_panic" where
  "full_monitoring_path entry start n =
     try_bind (monitoring_path entry start n) (\<lambda>(ps, e).
       case e of Some m \<Rightarrow> Inl m
       | None \<Rightarrow> let (path, dedup) = dedup_path ps {} in
           try_bind (frontier start n) (\<lambda>fr.
             try_bind (monitoring_frontier fr (insert entry dedup)) (\<lambda>rest. Inr (path @ rest))))"

function parent_to_the_right :: "nat \<Rightarrow> nat \<Rightarrow> nat or_panic" where
  "parent_to_the_right entry out =
     (if out \<le> entry then try_bind (parent_step out) (parent_to_the_right entry) else Inr out)"
  by pat_completeness auto
termination
  by (relation "measure (\<lambda>(_, x). 64 - level x)") (auto dest: level_parent_step)

declare parent_to_the_right.simps [simp del]

definition first_parent_to_the_right :: "nat \<Rightarrow> nat or_panic" where
  "first_parent_to_the_right entry =
     try_bind (parent_to_the_right entry entry) (\<lambda>out. Inr (out + 1))"

fun next_monitor :: "nat list \<Rightarrow> nat or_panic" where
  "next_monitor [] = Inl ''entries array should not be empty''"
| "next_monitor [x] = first_parent_to_the_right x"
| "next_monitor (x # xs) =
     try_bind (first_parent_to_the_right x) (\<lambda>a.
       try_bind (next_monitor xs) (\<lambda>b. Inr (min a b)))"

section \<open>Every step keeps the entries that can be searched below it\<close>

lemma move_within_node:
  assumes "2 * (q * 2 ^ k) + 2 * 2 ^ k \<le> 2 ^ 64" and "span q k \<inter> {start ..< n} \<noteq> {}"
  shows "\<exists>y. move_within (node q k) start n = Inr y \<and> start \<le> y \<and> y < n \<and> y \<in> span q k
    \<and> span q k \<inter> {start ..< n} \<subseteq> subtree y"
  using assms
proof (induction k arbitrary: q)
  case 0
  then show ?case using subtree_node [of q 0] by (auto simp: move_within.simps [of "2 * q"])
next
  case (Suc k)
  let ?x = "node q (Suc k)"
  consider "start \<le> ?x \<and> ?x < n" | "?x < start" | "start \<le> ?x" "n \<le> ?x" by linarith
  then show ?case
  proof cases
    case 1
    then show ?thesis using node_in_span [of q "Suc k"]
      by (intro exI [of _ ?x]) (simp add: move_within.simps [of ?x])
  next
    case 2
    have bound: "2 * ((Suc (2 * q)) * 2 ^ k) + 2 * 2 ^ k \<le> 2 ^ 64"
      using Suc.prems(1) by (simp add: algebra_simps)
    then have "node (Suc (2 * q)) k < 2 ^ 64"
      using Suc_node [of "Suc (2 * q)" k] two_power_pos [of k] by linarith
    then have step: "move_within ?x start n = move_within (node (Suc (2 * q)) k) start n"
      using 2 by (simp add: move_within.simps [of ?x] right_step_node)
    have same: "span q (Suc k) \<inter> {start ..< n} = span (Suc (2 * q)) k \<inter> {start ..< n}"
      using 2 by (auto simp: span_children)
    show ?thesis unfolding step same
      using Suc.IH [OF bound] Suc.prems(2) same by (auto simp: span_children)
  next
    case 3
    have bound: "2 * (2 * q * 2 ^ k) + 2 * 2 ^ k \<le> 2 ^ 64"
      using Suc.prems(1) by (simp add: algebra_simps)
    have step: "move_within ?x start n = move_within (node (2 * q) k) start n"
      using 3 by (simp add: move_within.simps [of ?x] left_step_node)
    have same: "span q (Suc k) \<inter> {start ..< n} = span (2 * q) k \<inter> {start ..< n}"
      using 3 by (auto simp: span_children)
    show ?thesis unfolding step same
      using Suc.IH [OF bound] Suc.prems(2) same by (auto simp: span_children)
  qed
qed

lemma implicit_root_ok:
  assumes "start < n" and "n < 2 ^ 64"
  obtains r where "implicit_root start n = Inr r" "start \<le> r" "r < n"
    "{start ..< n} \<subseteq> subtree r"
proof -
  let ?k = "log2 n"
  have n: "2 ^ ?k \<le> n" "n < 2 * 2 ^ ?k" using log2_bounds [of n] assms(1) by simp_all
  have sub: "{start ..< n} \<subseteq> span 0 ?k" using n by (auto simp: span_iff)
  have "(2 :: nat) ^ ?k < 2 ^ 64" using n assms(2) by linarith
  then have "?k < 64" by (rule power_less_imp_less_exp [rotated]) simp
  then have "(2 :: nat) ^ Suc ?k \<le> 2 ^ 64" by (intro power_increasing) simp_all
  moreover have "span 0 ?k \<inter> {start ..< n} \<noteq> {}" using sub assms(1) by fastforce
  moreover have "implicit_root start n = move_within (node 0 ?k) start n"
    by (simp add: implicit_root_def node_def push_bit_eq_mult)
  ultimately show ?thesis
    using move_within_node [of 0 ?k start n] sub that by (simp add: Int_absorb1) blast
qed

lemma implicit_right_ok:
  assumes "start \<le> x" "Suc x < n" "n < 2 ^ 64" and "level x \<noteq> 0"
  obtains y where "implicit_right x start n = Inr y" "x < y" "y < n"
    "subtree x \<inter> {x <..< n} \<subseteq> subtree y"
proof -
  obtain q k where x: "x = node q (Suc k)"
    using node_cases [of x] assms(4) by (metis level_node not0_implies_Suc)
  have "2 * (q * 2 ^ Suc k) + 2 * 2 ^ Suc k \<le> 2 ^ 64"
    using assms(2,3) x by (intro span_u64) simp
  then have bound: "2 * ((Suc (2 * q)) * 2 ^ k) + 2 * 2 ^ k \<le> 2 ^ 64" by (simp add: algebra_simps)
  then have "node (Suc (2 * q)) k < 2 ^ 64"
    using Suc_node [of "Suc (2 * q)" k] two_power_pos [of k] by linarith
  then have step: "implicit_right x start n = move_within (node (Suc (2 * q)) k) start n"
    unfolding x by (simp only: implicit_right_def right_step_node try_bind_simps)
  have "Suc x \<in> span (Suc (2 * q)) k \<inter> {start ..< n}"
    using assms(1,2) Suc_node [of q "Suc k"] node_in_span [of "Suc (2 * q)" k]
      span_child_next [of q k] unfolding x by simp
  with move_within_node [OF bound, of start n] step that show ?thesis
    unfolding x by (fastforce simp: span_children)
qed

lemma implicit_left_ok:
  assumes "start < x" "x < n" "n < 2 ^ 64" and "level x \<noteq> 0"
  obtains y where "implicit_left x start n = Inr y" "start \<le> y" "y < x"
    "subtree x \<inter> {start ..< x} \<subseteq> subtree y"
proof -
  obtain q k where x: "x = node q (Suc k)"
    using node_cases [of x] assms(4) by (metis level_node not0_implies_Suc)
  have "2 * (q * 2 ^ Suc k) + 2 * 2 ^ Suc k \<le> 2 ^ 64"
    using assms(2,3) x by (intro span_u64) simp
  then have bound: "2 * (2 * q * 2 ^ k) + 2 * 2 ^ k \<le> 2 ^ 64" by (simp add: algebra_simps)
  have step: "implicit_left x start n = move_within (node (2 * q) k) start n"
    unfolding x by (simp only: implicit_left_def left_step_node try_bind_simps)
  have "x - 1 \<in> span (2 * q) k \<inter> {start ..< n}"
    using assms(1,2) span_child_next [of q k] unfolding x by auto
  with move_within_node [OF bound, of start n] step that assms(2) show ?thesis
    unfolding x by (fastforce simp: span_children)
qed

text \<open>Outside an empty range every walk ends at a leaf, below which the next step panics.\<close>

lemma move_within_empty: "n \<le> start \<Longrightarrow> move_within x start n = Inl ''leaf node has no children''"
proof (induction x rule: measure_induct_rule [where f = level])
  case (less x)
  show ?case
  proof (cases "level x")
    case 0
    with less.prems show ?thesis
      by (simp add: move_within.simps [of x] left_step_def right_step_def)
  next
    case (Suc k)
    then obtain y z where "left_step x = Inr y" "right_step x = Inr z"
      by (simp add: left_step_def right_step_def)
    with less level_left_step level_right_step show ?thesis
      by (auto simp: move_within.simps [of x])
  qed
qed

section \<open>The frontier\<close>

text \<open>
  From the node that holds all entries \<open>lo ..< n\<close> to the last entry, every node holding what lies
  to the right of the one before.
\<close>

fun frontier_shape :: "nat \<Rightarrow> nat \<Rightarrow> nat list \<Rightarrow> bool" where
  "frontier_shape lo n [] \<longleftrightarrow> False"
| "frontier_shape lo n (x # xs) \<longleftrightarrow>
     lo \<le> x \<and> x < n \<and> {lo ..< n} \<subseteq> subtree x
     \<and> (if xs = [] then Suc x = n else frontier_shape (Suc x) n xs)"

lemma frontier_from_ok:
  assumes "start \<le> lo" "lo \<le> cur" "cur < n" "n < 2 ^ 64" "{lo ..< n} \<subseteq> subtree cur"
  shows "\<exists>fr. frontier_from cur start n = Inr fr \<and> frontier_shape lo n fr \<and> hd fr = cur"
  using assms
proof (induction cur arbitrary: lo rule: measure_induct_rule [where f = level])
  case (less cur)
  show ?case
  proof (cases "Suc cur = n")
    case True
    then have "cur = n - 1" by simp
    then have "frontier_from cur start n = Inr [cur]" by (subst frontier_from.simps) simp
    with less.prems True show ?thesis by auto
  next
    case False
    with less.prems have lt: "Suc cur < n" by simp
    with less.prems have "Suc cur \<in> subtree cur" by auto
    then have lev: "level cur \<noteq> 0" by (metis n_not_Suc_n singletonD subtree_leaf)
    with less.prems lt obtain y where y: "implicit_right cur start n = Inr y" "cur < y" "y < n"
      "subtree cur \<inter> {cur <..< n} \<subseteq> subtree y"
      by (auto intro: implicit_right_ok [of start cur n])
    have "{Suc cur ..< n} \<subseteq> subtree cur \<inter> {cur <..< n}" using less.prems(2,5) by fastforce
    with y(4) have "{Suc cur ..< n} \<subseteq> subtree y" by blast
    with less.IH [OF level_implicit_right [OF y(1)], of "Suc cur"] less.prems y obtain fr where
      "frontier_from y start n = Inr fr" "frontier_shape (Suc cur) n fr" by auto
    with y(1) lt less.prems show ?thesis
      by (auto simp: frontier_from.simps [of cur])
  qed
qed

lemma frontier_ok:
  assumes "start < n" and "n < 2 ^ 64"
  obtains fr where "frontier start n = Inr fr" "frontier_shape start n fr"
proof -
  from assms obtain r where r: "implicit_root start n = Inr r" "start \<le> r" "r < n"
    "{start ..< n} \<subseteq> subtree r" by (rule implicit_root_ok)
  with frontier_from_ok [of start start r n] assms(2) that show ?thesis
    by (auto simp: frontier_def)
qed

lemma frontier_shape_range: "frontier_shape lo n fr \<Longrightarrow> x \<in> set fr \<Longrightarrow> lo \<le> x \<and> x < n"
  by (induction lo n fr rule: frontier_shape.induct) (fastforce split: if_splits)+

lemma frontier_shape_sorted: "frontier_shape lo n fr \<Longrightarrow> sorted_wrt (<) fr"
  by (induction lo n fr rule: frontier_shape.induct)
    (auto split: if_splits dest: frontier_shape_range)

lemma frontier_shape_last: "frontier_shape lo n fr \<Longrightarrow> fr \<noteq> [] \<and> Suc (last fr) = n"
  by (induction lo n fr rule: frontier_shape.induct) (auto split: if_splits)

text \<open>The first frontier node at or after an entry has the entry in its subtree.\<close>

lemma frontier_shape_above:
  "frontier_shape lo n fr \<Longrightarrow> lo \<le> x \<Longrightarrow> x < n \<Longrightarrow> \<exists>f \<in> set fr. x \<le> f \<and> x \<in> subtree f"
proof (induction lo n fr rule: frontier_shape.induct)
  case (2 lo n y ys)
  then show ?case by (cases "x \<le> y") (auto split: if_splits)
qed simp

section \<open>The direct path\<close>

lemma node_in_span_iff: "node q k \<in> span p j \<longleftrightarrow> k \<le> j \<and> q div 2 ^ (j - k) = p"
proof (induction j arbitrary: p)
  case 0
  have "node q k = 2 * p \<longleftrightarrow> k = 0 \<and> q = p"
    using node_eq_iff [of q k p 0] by simp
  then show ?case by auto
next
  case (Suc j)
  have "node q k \<in> span p (Suc j) \<longleftrightarrow> node q k = node p (Suc j)
      \<or> node q k \<in> span (2 * p) j \<or> node q k \<in> span (Suc (2 * p)) j"
    using span_children [of "node q k" p j] node_in_span [of p "Suc j"] by auto
  moreover have "node q k = node p (Suc j) \<longleftrightarrow> k = Suc j \<and> q = p" by (rule node_eq_iff)
  moreover have "q div 2 ^ (Suc j - k) = p \<longleftrightarrow> q div 2 ^ (j - k) = 2 * p \<or> q div 2 ^ (j - k) = Suc (2 * p)"
    if "k \<le> j"
  proof -
    have "q div 2 ^ (Suc j - k) = q div 2 ^ (j - k) div 2"
      using that by (simp add: Suc_diff_le div_mult2_eq [symmetric] mult.commute)
    moreover have "a div 2 = p \<longleftrightarrow> a = 2 * p \<or> a = Suc (2 * p)" for a by presburger
    ultimately show ?thesis by simp
  qed
  ultimately show ?case using Suc by (cases "k \<le> j"; cases "k = Suc j") simp_all
qed

lemma subtree_antisym: "x \<in> subtree y \<Longrightarrow> level y \<le> level x \<Longrightarrow> x = y"
proof -
  assume a: "x \<in> subtree y" "level y \<le> level x"
  obtain q k p j where "x = node q k" "y = node p j" using node_cases by metis
  with a show ?thesis by (auto simp: node_in_span_iff)
qed

lemma level_subtree: "x \<in> subtree y \<Longrightarrow> level x \<le> level y"
proof -
  assume a: "x \<in> subtree y"
  obtain q k p j where "x = node q k" "y = node p j" using node_cases by metis
  with a show ?thesis by (simp add: node_in_span_iff)
qed

lemma subtree_trans: "x \<in> subtree y \<Longrightarrow> y \<in> subtree z \<Longrightarrow> x \<in> subtree z"
proof -
  assume a: "x \<in> subtree y" "y \<in> subtree z"
  obtain q k p j i l where n: "x = node q k" "y = node p j" "z = node i l"
    using node_cases by metis
  with a have "k \<le> j" "j \<le> l" "q div 2 ^ (j - k) = p" "p div 2 ^ (l - j) = i"
    by (simp_all add: node_in_span_iff)
  then have "q div (2 ^ (j - k) * 2 ^ (l - j)) = i" by (simp add: div_mult2_eq)
  with \<open>k \<le> j\<close> \<open>j \<le> l\<close> n show ?thesis
    by (simp add: node_in_span_iff power_add [symmetric])
qed

text \<open>The ancestors of a node are its parent and the parent's ancestors.\<close>

lemma ancestors_step:
  assumes "parent_step x = Inr p"
  shows "x \<in> subtree y \<longleftrightarrow> y = x \<or> p \<in> subtree y"
proof -
  obtain q k p' j where x: "x = node q k" and y: "y = node p' j" using node_cases by metis
  have p: "p = node (q div 2) (Suc k)" using assms x by (simp add: parent_step_node split: if_splits)
  have step: "q div 2 ^ (j - k) = q div 2 div 2 ^ (j - Suc k)" if "k < j"
  proof -
    have "j - k = Suc (j - Suc k)" using that by simp
    then show ?thesis by (simp add: div_mult2_eq)
  qed
  consider "k < j" | "k = j" | "j < k" by linarith
  then show ?thesis
    unfolding x y p subtree_node node_in_span_iff node_eq_iff by cases (auto simp: step)
qed

lemma parent_step_ok:
  assumes "x \<in> subtree r" "x \<noteq> r" "Suc r < 2 ^ 64"
  obtains p where "parent_step x = Inr p" "p \<in> subtree r"
proof -
  obtain q k p' j where x: "x = node q k" and r: "r = node p' j" using node_cases by metis
  have "(2 :: nat) ^ j < 2 ^ 64" using assms(3) r Suc_node [of p' j] by linarith
  then have "j < 64" by (rule power_less_imp_less_exp [rotated]) simp
  moreover have "level x < level r" using assms(1,2) subtree_antisym by (meson leI)
  ultimately have "k < 63" using x r by simp
  then have "parent_step x = Inr (node (q div 2) (Suc k))" by (simp add: x parent_step_node)
  with ancestors_step [OF this] assms(1,2) that show ?thesis by metis
qed

definition ancestors :: "nat \<Rightarrow> nat \<Rightarrow> nat set" where
  "ancestors x n = {y. y < n \<and> x \<in> subtree y \<and> y \<noteq> x}"

lemma implicit_parent_ok:
  assumes "x \<in> subtree r" "x \<noteq> r" "r < n" "n < 2 ^ 64"
  shows "\<exists>p. implicit_parent x n = Inr p \<and> p < n \<and> p \<in> subtree r
    \<and> ancestors x n = insert p (ancestors p n)"
  using assms(1,2)
proof (induction x rule: measure_induct_rule [where f = "\<lambda>x. 64 - level x"])
  case (less x)
  from less.prems assms(3,4) obtain p where p: "parent_step x = Inr p" "p \<in> subtree r"
    by (auto intro: parent_step_ok [of x r])
  from level_parent_step [OF p(1)] have lev: "64 - level p < 64 - level x" "level x < level p"
    by auto
  then have "p \<notin> subtree x" using level_subtree [of p x] by auto
  then have "x \<in> subtree y \<and> y \<noteq> x \<longleftrightarrow> p \<in> subtree y" for y
    using ancestors_step [OF p(1), of y] by auto
  then have anc: "ancestors x n = {y. y < n \<and> p \<in> subtree y}"
    by (simp add: ancestors_def)
  show ?case
  proof (cases "n \<le> p")
    case True
    then have "ancestors x n = ancestors p n"
      unfolding anc unfolding ancestors_def by auto
    moreover have "p \<noteq> r" using True assms(3) by auto
    ultimately show ?thesis using True less.IH [OF lev(1) p(2)] p(1)
      by (simp add: implicit_parent.simps [of x])
  next
    case False
    then have "ancestors x n = insert p (ancestors p n)"
      unfolding anc unfolding ancestors_def by auto
    with False p show ?thesis by (simp add: implicit_parent.simps [of x])
  qed
qed

text \<open>The path from an entry to the root is the chain of its ancestors inside the tree.\<close>

lemma direct_path_from_ok:
  assumes "x \<in> subtree r" "r < n" "n < 2 ^ 64"
  shows "\<exists>ps. direct_path_from x r n = (ps, None) \<and> set ps = ancestors x n \<inter> {y. y \<in> subtree r}"
  using assms(1)
proof (induction x rule: measure_induct_rule [where f = "\<lambda>x. 64 - level x"])
  case (less x)
  show ?case
  proof (cases "x = r")
    case True
    then show ?thesis
      using subtree_antisym [of r] level_subtree [of _ r]
      by (auto simp: direct_path_from.simps [of r] ancestors_def)
  next
    case False
    from implicit_parent_ok [OF less.prems False assms(2,3)] obtain p where
      p: "implicit_parent x n = Inr p" "p < n" "p \<in> subtree r"
        "ancestors x n = insert p (ancestors p n)" by blast
    from level_implicit_parent [OF p(1)] have "64 - level p < 64 - level x" by auto
    from less.IH [OF this p(3)] p False show ?thesis
      by (auto simp: direct_path_from.simps [of x])
  qed
qed

section \<open>Monitoring\<close>

lemma monitoring_path_ok:
  assumes "start \<le> x" "x < n" "n < 2 ^ 64"
  obtains ps where "monitoring_path x start n = Inr (ps, None)"
    "set ps = {y. x < y \<and> y < n \<and> x \<in> subtree y}"
proof -
  have "start < n" using assms by simp
  from this assms(3) obtain r where r: "implicit_root start n = Inr r" "start \<le> r" "r < n"
    "{start ..< n} \<subseteq> subtree r" by (rule implicit_root_ok)
  with assms have "x \<in> subtree r" by auto
  from direct_path_from_ok [OF this r(3) assms(3)] obtain ps where
    ps: "direct_path_from x r n = (ps, None)" "set ps = ancestors x n \<inter> {y. y \<in> subtree r}" by blast
  have "set (filter (\<lambda>y. x < y) ps) = {y. x < y \<and> y < n \<and> x \<in> subtree y}"
    using r(4) assms(1) unfolding set_filter ps(2) ancestors_def by fastforce
  with ps(1) r(1) that show ?thesis by (simp add: monitoring_path_def direct_path_def)
qed

lemma dedup_path_sets:
  "set (fst (dedup_path xs d)) = set xs - d \<and> snd (dedup_path xs d) = d \<union> set xs"
  by (induction xs arbitrary: d) (auto simp: split_beta Let_def)

lemma monitoring_frontier_ok:
  assumes "f \<in> set fr" "f \<in> entries"
  obtains pre g rest where "monitoring_frontier fr entries = Inr rest" "fr = pre @ g # rest"
    "g \<in> entries" "set rest \<inter> entries = {}"
proof -
  from assms obtain i where i: "position (\<lambda>v. v \<in> entries) (rev fr) = Some i"
    by (metis option.exhaust position_None_iff set_rev)
  from position_SomeD [OF i] have lt: "i < length fr" and g: "rev fr ! i \<in> entries"
    and before: "\<forall>j < i. rev fr ! j \<notin> entries" by simp_all
  have "set (drop (length fr - i) fr) \<inter> entries = {}"
  proof -
    have "drop (length fr - i) fr = rev (take i (rev fr))" by (simp add: rev_take)
    then show ?thesis using before lt by (auto simp: in_set_conv_nth)
  qed
  moreover have "fr = take (length fr - Suc i) fr @ rev fr ! i # drop (length fr - i) fr"
  proof -
    have "length fr - Suc i < length fr" "Suc (length fr - Suc i) = length fr - i" using lt by auto
    with id_take_nth_drop [of "length fr - Suc i" fr] rev_nth [of i fr] lt show ?thesis by simp
  qed
  moreover have "monitoring_frontier fr entries = Inr (drop (length fr - i) fr)"
    using i by (simp add: monitoring_frontier_def)
  ultimately show ?thesis using g by (intro that)
qed

lemma full_monitoring_path_covers:
  assumes "start \<le> entry" "entry < n" "n < 2 ^ 64"
  shows "\<exists>path. full_monitoring_path entry start n = Inr path
    \<and> set path \<subseteq> {entry <..< n}
    \<and> {y. entry < y \<and> y < n \<and> entry \<in> subtree y} \<subseteq> set path
    \<and> (Suc entry < n \<longrightarrow> n - 1 \<in> set path)"
proof -
  obtain ps where ps: "monitoring_path entry start n = Inr (ps, None)"
    "set ps = {y. entry < y \<and> y < n \<and> entry \<in> subtree y}"
    using assms by (rule monitoring_path_ok)
  obtain path d where d: "dedup_path ps {} = (path, d)" by fastforce
  have sets: "set path = set ps" "d = set ps" using dedup_path_sets [of ps "{}"] d by simp_all
  obtain fr where fr: "frontier start n = Inr fr" "frontier_shape start n fr"
    using assms by (auto intro: frontier_ok [of start n])
  from frontier_shape_above [OF fr(2) assms(1,2)] obtain f where
    f: "f \<in> set fr" "entry \<le> f" "entry \<in> subtree f" by blast
  have "f < n" using frontier_shape_range [OF fr(2) f(1)] by simp
  then have "f = entry \<or> f \<in> set ps" using f(2,3) unfolding ps(2) by auto
  then have "f \<in> insert entry d" unfolding sets(2) by blast
  with f(1) obtain pre g rest where rest: "monitoring_frontier fr (insert entry d) = Inr rest"
    "fr = pre @ g # rest" "g \<in> insert entry d" "set rest \<inter> insert entry d = {}"
    by (rule monitoring_frontier_ok)
  have after: "entry < y \<and> y < n" if "y \<in> set rest" for y
  proof -
    have "g < y" "y < n" using that frontier_shape_sorted [OF fr(2)] frontier_shape_range [OF fr(2)]
      by (auto simp: rest(2) sorted_wrt_append)
    moreover have "entry \<le> g" using rest(3) unfolding sets(2) ps(2) by auto
    ultimately show ?thesis by simp
  qed
  have newest: "n - 1 \<in> set ps \<union> set rest" if "Suc entry < n"
  proof -
    have "n - 1 = last fr" using frontier_shape_last [OF fr(2)] by auto
    then have "n - 1 = g \<or> n - 1 \<in> set rest" by (auto simp: rest(2))
    then show ?thesis using that rest(3) unfolding sets(2) by auto
  qed
  have "full_monitoring_path entry start n = Inr (path @ rest)"
    using ps d fr rest by (simp add: full_monitoring_path_def)
  moreover have "set (path @ rest) \<subseteq> {entry <..< n}"
    using after unfolding set_append sets(1) ps(2) by auto
  ultimately show ?thesis using newest ps(2) sets(1) by simp
qed

text \<open>C37: For an entry of the log, the positions to monitor are computed without a panic. They all
  lie after the entry, they include every ancestor of the entry in the search tree that lies to its
  right, and they include the newest entry of the log unless the entry is that one.\<close>

theorem full_monitoring_path_complete:
  assumes "start \<le> entry" "entry < n" "n < 2 ^ 64"
  shows "\<exists>path. full_monitoring_path entry start n = Inr path
    \<and> set path \<subseteq> {entry <..< n}
    \<and> {y. entry < y \<and> y < n \<and> entry \<in> subtree y} \<subseteq> set path
    \<and> (Suc entry < n \<longrightarrow> n - 1 \<in> set path)"
  using assms by (rule full_monitoring_path_covers)

theorem full_monitoring_path_complete_witness:
  "\<exists>path. full_monitoring_path 100 7 700 = Inr path \<and> 699 \<in> set path"
  using full_monitoring_path_complete [of 7 100 700] by auto

text \<open>A log that ends at or before the first entry of the key has no monitoring path: the code
  panics.\<close>

lemma full_monitoring_path_panics:
  "n \<le> start \<Longrightarrow> full_monitoring_path entry start n = Inl ''leaf node has no children''"
  by (simp add: full_monitoring_path_def monitoring_path_def direct_path_def implicit_root_def
    move_within_empty)

text \<open>The next position to monitor is one past an ancestor of the entry to its right.\<close>

lemma parent_to_the_right_ok:
  assumes "out \<in> subtree r" "entry \<in> subtree out" "entry < r" "Suc r < 2 ^ 64"
  shows "\<exists>p. parent_to_the_right entry out = Inr p \<and> entry < p \<and> entry \<in> subtree p"
  using assms(1,2)
proof (induction out rule: measure_induct_rule [where f = "\<lambda>x. 64 - level x"])
  case (less out)
  show ?case
  proof (cases "out \<le> entry")
    case True
    with assms(3) have "out \<noteq> r" by auto
    from parent_step_ok [OF less.prems(1) this assms(4)] obtain p where
      p: "parent_step out = Inr p" "p \<in> subtree r" by blast
    have "entry \<in> subtree p"
      using less.prems(2) ancestors_step [OF p(1), of p] subtree_trans [of entry out p] by simp
    moreover have "64 - level p < 64 - level out" using level_parent_step [OF p(1)] by auto
    ultimately show ?thesis
      using less.IH [of p] p True by (simp add: parent_to_the_right.simps [of entry out])
  next
    case False
    with less.prems show ?thesis by (simp add: parent_to_the_right.simps [of entry out])
  qed
qed

lemma first_parent_to_the_right_ok:
  assumes "entry < 2 ^ 62"
  shows "\<exists>p. first_parent_to_the_right entry = Inr (Suc p) \<and> entry < p \<and> entry \<in> subtree p"
proof -
  have "entry \<in> subtree (node 0 63)" "entry < node 0 63" "Suc (node 0 63) < 2 ^ 64"
    using assms unfolding subtree_node span_iff by (simp_all add: node_def)
  from parent_to_the_right_ok [OF this(1) _ this(2,3)] show ?thesis
    by (auto simp: first_parent_to_the_right_def)
qed

end
