(* ===== verification/Proof_Guide.thy ===== *)
theory Proof_Guide
  imports Implicit_Tree "HOL-Library.Multiset"
begin

text \<open>
  The search for a version of a key in the log, \<^verbatim>\<open>rust/keytrans/src/guide.rs\<close>. A
  \<open>ProofGuide\<close> names the log entries to look up, one after the other, and in the end the first
  entry with the wanted version. The locale \<open>log_search\<close> is what \<open>consume\<close> relies on: that the
  caller's closure records the version counter of the entry it is asked for. Its lemmas are about
  logs whose counters never decrease.
\<close>

section \<open>The code\<close>

datatype InvalidState = InvalidState

record VersionedId =
  vid_id :: nat
  vid_version :: u32

record ProofGuide =
  guide_pos :: nat
  guide_n :: nat
  guide_version :: u32
  guide_ids :: "nat list"
  guide_sorted :: "VersionedId list"
  guide_is_frontier :: bool

definition VersionedId_new :: "nat \<Rightarrow> u32 \<Rightarrow> VersionedId" where
  "VersionedId_new i v = \<lparr>vid_id = i, vid_version = v\<rparr>"

definition ProofGuide_for_version :: "u32 \<Rightarrow> nat \<Rightarrow> nat \<Rightarrow> ProofGuide or_panic" where
  "ProofGuide_for_version version pos n =
     try_bind (implicit_root pos n) (\<lambda>r. Inr
       \<lparr>guide_pos = pos, guide_n = n, guide_version = version, guide_ids = [r],
        guide_sorted = [], guide_is_frontier = False\<rparr>)"

definition ProofGuide_for_most_recent :: "nat \<Rightarrow> nat \<Rightarrow> ProofGuide or_panic" where
  "ProofGuide_for_most_recent pos n =
     try_bind (frontier pos n) (\<lambda>fr. Inr
       \<lparr>guide_pos = pos, guide_n = n, guide_version = 0, guide_ids = fr,
        guide_sorted = [], guide_is_frontier = True\<rparr>)"

definition ProofGuide_new :: "u32 option \<Rightarrow> nat \<Rightarrow> nat \<Rightarrow> ProofGuide or_panic" where
  "ProofGuide_new version pos n =
     (case version of
        None \<Rightarrow> ProofGuide_for_most_recent pos n
      | Some version \<Rightarrow> ProofGuide_for_version version pos n)"

text \<open>\<open>windows(2).all(...)\<close> in \<open>poll\<close>.\<close>

fun versions_ascending :: "VersionedId list \<Rightarrow> bool" where
  "versions_ascending (v # w # vs) \<longleftrightarrow> vid_version v \<le> vid_version w \<and> versions_ascending (w # vs)"
| "versions_ascending _ \<longleftrightarrow> True"

text \<open>The last id of \<open>poll\<close>; at the end of the frontier it fixes the version to search for.\<close>

definition poll_last :: "ProofGuide \<Rightarrow> nat or_panic \<times> ProofGuide" where
  "poll_last g =
     (if guide_is_frontier g then
        if guide_sorted g = [] then (Inl ''attempt to subtract with overflow'', g)
        else let g' = g\<lparr>guide_version := vid_version (last (guide_sorted g)), guide_is_frontier := False\<rparr> in
          (case find (\<lambda>v. vid_version v = guide_version g') (guide_sorted g') of
             None \<Rightarrow> (Inl ''last element of array must match, if no earlier one does'', g')
           | Some v \<Rightarrow> (Inr (vid_id v), g'))
      else if guide_ids g = [] then (Inl ''attempt to subtract with overflow'', g)
      else (Inr (last (guide_ids g)), g))"

text \<open>The id below the last one, or \<open>None\<close> when the search is over.\<close>

definition poll_next :: "ProofGuide \<Rightarrow> nat \<Rightarrow> nat option or_panic" where
  "poll_next g lst =
     (if is_leaf lst then Inr None
      else case find (\<lambda>v. vid_id v = lst) (guide_sorted g) of
        None \<Rightarrow> Inl ''last id looked up must have corresponding entry in sorted''
      | Some v \<Rightarrow>
          if vid_version v < guide_version g then
            if lst = guide_n g - 1 then Inr None
            else try_bind (implicit_right lst (guide_pos g) (guide_n g)) (\<lambda>i. Inr (Some i))
          else
            if lst = guide_pos g then Inr None
            else try_bind (implicit_left lst (guide_pos g) (guide_n g)) (\<lambda>i. Inr (Some i)))"

definition poll :: "ProofGuide \<Rightarrow> (InvalidState, bool) rresult \<times> ProofGuide" where
  "poll g =
     (if length (guide_sorted g) < length (guide_ids g) then (Inr False, g)
      else let g1 = g\<lparr>guide_sorted := sort_key vid_id (guide_sorted g)\<rparr> in
        if \<not> versions_ascending (guide_sorted g1) then (Inl (Err InvalidState), g1)
        else case poll_last g1 of
          (Inl m, g2) \<Rightarrow> (Inl (Panic m), g2)
        | (Inr lst, g2) \<Rightarrow>
            (case poll_next g2 lst of
               Inl m \<Rightarrow> (Inl (Panic m), g2)
             | Inr None \<Rightarrow> (Inr True, g2)
             | Inr (Some i) \<Rightarrow> (Inr False, g2\<lparr>guide_ids := guide_ids g2 @ [i]\<rparr>)))"

definition next_id :: "ProofGuide \<Rightarrow> nat or_panic" where
  "next_id g =
     (if length (guide_sorted g) < length (guide_ids g)
      then Inr (guide_ids g ! length (guide_sorted g)) else Inl ''index out of bounds'')"

definition guide_insert :: "nat \<Rightarrow> u32 \<Rightarrow> ProofGuide \<Rightarrow> ProofGuide" where
  "guide_insert i ctr g = g\<lparr>guide_sorted := guide_sorted g @ [VersionedId_new i ctr]\<rparr>"

definition guide_result :: "ProofGuide \<Rightarrow> (nat \<times> nat) option or_panic" where
  "guide_result g =
     (if guide_is_frontier g then Inl ''result() called unexpectedly''
      else Inr (case find (\<lambda>v. guide_version g \<le> vid_version v) (guide_sorted g) of
          None \<Rightarrow> None
        | Some v \<Rightarrow>
            if vid_version v = guide_version g
            then map_option (\<lambda>i. (i, vid_id v)) (position (\<lambda>i. i = vid_id v) (guide_ids g))
            else None))"

text \<open>
  The loop of \<open>consume\<close>. The closure's captured variables are the state \<open>s\<close>; a closure that does
  not insert the id it is asked for can keep the loop going forever, which is the value \<open>None\<close>.
\<close>

partial_function (option) consume ::
  "('s \<Rightarrow> ProofGuide \<Rightarrow> nat \<Rightarrow> ('e, unit) rresult \<times> ProofGuide \<times> 's) \<Rightarrow> (InvalidState \<Rightarrow> 'e)
   \<Rightarrow> ProofGuide \<Rightarrow> 's \<Rightarrow> (('e, (nat \<times> nat) option) rresult \<times> 's) option" where
  "consume step conv g s =
     (case poll g of
        (Inl f, g1) \<Rightarrow> Some (map_err conv (Inl f), s)
      | (Inr finished, g1) \<Rightarrow>
          if finished then Some (panicking (guide_result g1), s)
          else case next_id g1 of
             Inl m \<Rightarrow> Some (Inl (Panic m), s)
           | Inr i \<Rightarrow>
               (case step s g1 i of
                  (Inl f, g2, s2) \<Rightarrow> Some (Inl f, s2)
                | (Inr _, g2, s2) \<Rightarrow> consume step conv g2 s2))"

section \<open>Polling a filled guide\<close>

text \<open>Every id has been looked up: the entries are the ids with their counters.\<close>

definition filled :: "(nat \<Rightarrow> u32) \<Rightarrow> ProofGuide \<Rightarrow> bool" where
  "filled c g \<longleftrightarrow>
     mset (guide_sorted g) = mset (map (\<lambda>i. VersionedId_new i (c i)) (guide_ids g))"

text \<open>The counters of the entries \<open>pos ..< n\<close> of the log never decrease.\<close>

definition ascending_counters :: "(nat \<Rightarrow> u32) \<Rightarrow> nat \<Rightarrow> nat \<Rightarrow> bool" where
  "ascending_counters c pos n \<longleftrightarrow> (\<forall>i j. pos \<le> i \<longrightarrow> i \<le> j \<longrightarrow> j < n \<longrightarrow> c i \<le> c j)"

text \<open>The first entry with at least a version.\<close>

definition first_with :: "(nat \<Rightarrow> u32) \<Rightarrow> nat \<Rightarrow> nat \<Rightarrow> u32 \<Rightarrow> nat \<Rightarrow> bool" where
  "first_with c pos n v z \<longleftrightarrow>
     pos \<le> z \<and> z < n \<and> v \<le> c z \<and> (\<forall>y. pos \<le> y \<longrightarrow> y < z \<longrightarrow> c y < v)"

lemma find_min:
  "find P xs = Some x \<Longrightarrow> sorted (map f xs) \<Longrightarrow> y \<in> set xs \<Longrightarrow> P y \<Longrightarrow> f x \<le> f y"
  by (induction xs) (auto split: if_splits)

lemma find_memD: "find P xs = Some x \<Longrightarrow> x \<in> set xs \<and> P x"
  by (induction xs) (auto split: if_splits)

lemma position_of_member: "z \<in> set xs \<Longrightarrow> \<exists>i. position (\<lambda>i. i = z) xs = Some i \<and> i < length xs \<and> xs ! i = z"
  by (cases "position (\<lambda>i. i = z) xs") (auto simp: position_None_iff dest: position_SomeD)

lemma filled_set:
  "filled c g \<Longrightarrow> set (guide_sorted g) = (\<lambda>i. VersionedId_new i (c i)) ` set (guide_ids g)"
  by (metis filled_def list.set_map set_mset_mset)

lemma filled_length: "filled c g \<Longrightarrow> length (guide_sorted g) = length (guide_ids g)"
  by (metis filled_def length_map size_mset)

lemma VersionedId_new_simps [simp]:
  "vid_id (VersionedId_new i v) = i" "vid_version (VersionedId_new i v) = v"
  by (simp_all add: VersionedId_new_def)

lemma find_filled:
  assumes "filled c g" and "i \<in> set (guide_ids g)"
  shows "find (\<lambda>v. vid_id v = i) (guide_sorted g) = Some (VersionedId_new i (c i))"
proof -
  have "VersionedId_new i (c i) \<in> set (guide_sorted g)" using assms by (simp add: filled_set)
  then show ?thesis
  proof (cases "find (\<lambda>v. vid_id v = i) (guide_sorted g)")
    case (Some v)
    with find_memD [OF Some] filled_set [OF assms(1)] show ?thesis by auto
  qed (auto simp: find_None_iff)
qed

lemma ascending_versions:
  assumes "ascending_counters c pos n"
  shows "sorted (map vid_id vs) \<Longrightarrow>
    (\<forall>v \<in> set vs. vid_version v = c (vid_id v) \<and> pos \<le> vid_id v \<and> vid_id v < n) \<Longrightarrow>
    versions_ascending vs"
  using assms by (induction vs rule: versions_ascending.induct) (auto simp: ascending_counters_def)

text \<open>A search in progress below the entry \<open>cur\<close>: the first entry with the version is still there.\<close>

definition tree_guide :: "(nat \<Rightarrow> u32) \<Rightarrow> nat \<Rightarrow> nat \<Rightarrow> ProofGuide \<Rightarrow> bool" where
  "tree_guide c pos n g \<longleftrightarrow> guide_pos g = pos \<and> guide_n g = n \<and> filled c g
     \<and> set (guide_ids g) \<subseteq> {pos ..< n} \<and> guide_ids g \<noteq> []"

definition below :: "(nat \<Rightarrow> u32) \<Rightarrow> nat \<Rightarrow> nat \<Rightarrow> ProofGuide \<Rightarrow> nat set \<Rightarrow> bool" where
  "below c pos n g A \<longleftrightarrow>
     (\<forall>z. first_with c pos n (guide_version g) z \<longrightarrow> z \<in> set (guide_ids g) \<union> A)"

lemma tree_guide_sort:
  "tree_guide c pos n g \<Longrightarrow> tree_guide c pos n (g\<lparr>guide_sorted := sort_key vid_id (guide_sorted g)\<rparr>)"
  by (simp add: tree_guide_def filled_def)

lemma tree_guide_ascending:
  assumes "tree_guide c pos n g" and "ascending_counters c pos n"
  shows "versions_ascending (sort_key vid_id (guide_sorted g))"
proof (rule ascending_versions [OF assms(2)])
  have "filled c g" "set (guide_ids g) \<subseteq> {pos ..< n}" using assms(1) by (simp_all add: tree_guide_def)
  then show "\<forall>v \<in> set (sort_key vid_id (guide_sorted g)).
      vid_version v = c (vid_id v) \<and> pos \<le> vid_id v \<and> vid_id v < n"
    by (auto simp: filled_set)
qed simp

lemma level_implicit_left: "implicit_left x start n = Inr y \<Longrightarrow> level y < level x"
  by (auto simp: implicit_left_def res_simps dest!: level_left_step level_move_within)

text \<open>One step down: towards the right below the version, towards the left otherwise.\<close>

lemma poll_next_right:
  assumes tg: "tree_guide c pos n g" and asc: "ascending_counters c pos n" and n: "n < 2 ^ 64"
    and lst: "lst \<in> set (guide_ids g)" and here: "below c pos n g (subtree lst)"
    and lev: "level lst \<noteq> 0" and lt: "c lst < guide_version g"
  shows "(poll_next g lst = Inr None \<and> below c pos n g {})
    \<or> (\<exists>i. poll_next g lst = Inr (Some i) \<and> pos \<le> i \<and> i < n \<and> level i < level lst
          \<and> below c pos n g (subtree i))"
proof -
  have r: "pos \<le> lst" "lst < n" and flds: "guide_pos g = pos" "guide_n g = n"
    and fd: "find (\<lambda>v. vid_id v = lst) (guide_sorted g) = Some (VersionedId_new lst (c lst))"
    using tg lst find_filled [OF _ lst] by (auto simp: tree_guide_def)
  have after: "lst < z" if "first_with c pos n (guide_version g) z" for z
  proof (rule ccontr)
    assume "\<not> lst < z"
    then have "c z \<le> c lst" using asc r that by (simp add: ascending_counters_def first_with_def)
    moreover have "guide_version g \<le> c z" using that by (simp add: first_with_def)
    ultimately show False using lt by (meson leD order_trans)
  qed
  show ?thesis
  proof (cases "lst = n - 1")
    case True
    have "\<not> first_with c pos n (guide_version g) z" for z
    proof
      assume z: "first_with c pos n (guide_version g) z"
      then have "z < n" by (simp add: first_with_def)
      with after [OF z] True show False by linarith
    qed
    then have "below c pos n g {}" by (simp add: below_def)
    moreover have "poll_next g lst = Inr None"
      using fd lt lev True flds by (simp add: poll_next_def is_leaf_iff)
    ultimately show ?thesis by blast
  next
    case False
    with r have "Suc lst < n" by simp
    from implicit_right_ok [OF r(1) this n lev] obtain y where
      y: "implicit_right lst pos n = Inr y" "lst < y" "y < n"
        "subtree lst \<inter> {lst <..< n} \<subseteq> subtree y" by blast
    have "below c pos n g (subtree y)"
      unfolding below_def
    proof (intro allI impI)
      fix z
      assume z: "first_with c pos n (guide_version g) z"
      then have "z < n" by (simp add: first_with_def)
      with z here after [OF z] y(4) show "z \<in> set (guide_ids g) \<union> subtree y"
        by (auto simp: below_def)
    qed
    moreover have "poll_next g lst = Inr (Some y)"
      using fd lt lev False flds y(1) by (simp add: poll_next_def is_leaf_iff)
    ultimately show ?thesis using y r level_implicit_right [OF y(1)] by auto
  qed
qed

lemma poll_next_left:
  assumes tg: "tree_guide c pos n g" and asc: "ascending_counters c pos n" and n: "n < 2 ^ 64"
    and lst: "lst \<in> set (guide_ids g)" and here: "below c pos n g (subtree lst)"
    and lev: "level lst \<noteq> 0" and ge: "\<not> c lst < guide_version g"
  shows "(poll_next g lst = Inr None \<and> below c pos n g {})
    \<or> (\<exists>i. poll_next g lst = Inr (Some i) \<and> pos \<le> i \<and> i < n \<and> level i < level lst
          \<and> below c pos n g (subtree i))"
proof -
  have r: "pos \<le> lst" "lst < n" and flds: "guide_pos g = pos" "guide_n g = n"
    and fd: "find (\<lambda>v. vid_id v = lst) (guide_sorted g) = Some (VersionedId_new lst (c lst))"
    using tg lst find_filled [OF _ lst] by (auto simp: tree_guide_def)
  have before: "z \<le> lst" if "first_with c pos n (guide_version g) z" for z
    using that ge r by (meson first_with_def leI)
  show ?thesis
  proof (cases "lst = pos")
    case True
    have "below c pos n g {}"
      unfolding below_def
    proof (intro allI impI)
      fix z
      assume z: "first_with c pos n (guide_version g) z"
      with before [OF z] True have "z = lst" by (simp add: first_with_def)
      with lst show "z \<in> set (guide_ids g) \<union> {}" by simp
    qed
    moreover have "poll_next g lst = Inr None"
      using fd ge lev True flds by (simp add: poll_next_def is_leaf_iff)
    ultimately show ?thesis by blast
  next
    case False
    with r have "pos < lst" by simp
    from implicit_left_ok [OF this r(2) n lev] obtain y where
      y: "implicit_left lst pos n = Inr y" "pos \<le> y" "y < lst"
        "subtree lst \<inter> {pos ..< lst} \<subseteq> subtree y" by blast
    have "below c pos n g (subtree y)"
      unfolding below_def
    proof (intro allI impI)
      fix z
      assume z: "first_with c pos n (guide_version g) z"
      then have "pos \<le> z" by (simp add: first_with_def)
      with z here before [OF z] y(4) lst show "z \<in> set (guide_ids g) \<union> subtree y"
        by (cases "z = lst") (auto simp: below_def)
    qed
    moreover have "poll_next g lst = Inr (Some y)"
      using fd ge lev False flds y(1) by (simp add: poll_next_def is_leaf_iff)
    ultimately show ?thesis using y r level_implicit_left [OF y(1)] by auto
  qed
qed

lemma poll_next_step:
  assumes "tree_guide c pos n g" "ascending_counters c pos n" "n < 2 ^ 64"
    and "lst \<in> set (guide_ids g)" "below c pos n g (subtree lst)"
  obtains "poll_next g lst = Inr None" "below c pos n g {}"
  | i where "poll_next g lst = Inr (Some i)" "pos \<le> i" "i < n" "level i < level lst"
      "below c pos n g (subtree i)"
proof (cases "level lst = 0")
  case True
  with assms(4,5) have "below c pos n g {}" by (auto simp: below_def subtree_leaf)
  moreover have "poll_next g lst = Inr None" using True by (simp add: poll_next_def is_leaf_iff)
  ultimately show ?thesis using that by blast
next
  case False
  with poll_next_left [OF assms] poll_next_right [OF assms] that show ?thesis by blast
qed

section \<open>The outcome of a search\<close>

definition search_outcome ::
  "(nat \<Rightarrow> u32) \<Rightarrow> nat \<Rightarrow> nat \<Rightarrow> u32 \<Rightarrow> nat list \<Rightarrow> (nat \<times> nat) option \<Rightarrow> bool" where
  "search_outcome c pos n v ids res \<longleftrightarrow> (case res of
     Some (i, z) \<Rightarrow> first_with c pos n v z \<and> c z = v \<and> i < length ids \<and> ids ! i = z
   | None \<Rightarrow> (\<forall>z. pos \<le> z \<longrightarrow> z < n \<longrightarrow> c z \<noteq> v))"

lemma first_with_exists:
  assumes "pos \<le> z" "z < n" "v \<le> c z"
  obtains w where "first_with c pos n v w" "w \<le> z"
proof -
  let ?P = "\<lambda>w. pos \<le> w \<and> w < n \<and> v \<le> c w"
  have least: "?P (LEAST w. ?P w)" "(LEAST w. ?P w) \<le> z"
    using assms LeastI [of ?P z] Least_le [of ?P z] by blast+
  moreover have "c y < v" if "pos \<le> y" "y < (LEAST w. ?P w)" for y
  proof (rule ccontr)
    assume "\<not> c y < v"
    with that least(1) have "?P y" by auto
    with that(2) show False using not_less_Least by blast
  qed
  ultimately show ?thesis using that [of "LEAST w. ?P w"] by (simp add: first_with_def)
qed

lemma tree_guide_entries:
  "tree_guide c pos n g \<Longrightarrow> set (guide_sorted g) = (\<lambda>i. VersionedId_new i (c i)) ` set (guide_ids g)"
  "tree_guide c pos n g \<Longrightarrow> length (guide_sorted g) = length (guide_ids g)"
  by (auto simp: tree_guide_def dest: filled_set filled_length)

lemma guide_result_ok:
  assumes tg: "tree_guide c pos n g" and asc: "ascending_counters c pos n"
    and b: "below c pos n g {}" and fr: "\<not> guide_is_frontier g"
    and srt: "sorted (map vid_id (guide_sorted g))"
  shows "\<exists>res. guide_result g = Inr res
    \<and> search_outcome c pos n (guide_version g) (guide_ids g) res"
proof (cases "find (\<lambda>v. guide_version g \<le> vid_version v) (guide_sorted g)")
  case None
  have "c z \<noteq> guide_version g" if "pos \<le> z" "z < n" for z
  proof
    assume "c z = guide_version g"
    with that obtain w where w: "first_with c pos n (guide_version g) w"
      by (auto intro: first_with_exists [of pos z n "guide_version g" c])
    with b have "w \<in> set (guide_ids g)" by (simp add: below_def)
    then have "VersionedId_new w (c w) \<in> set (guide_sorted g)"
      by (simp add: tree_guide_entries [OF tg])
    with None w show False by (auto simp: find_None_iff first_with_def)
  qed
  with None fr show ?thesis by (simp add: guide_result_def search_outcome_def)
next
  case (Some x)
  from find_memD [OF Some] have x: "vid_id x \<in> set (guide_ids g)"
    "vid_version x = c (vid_id x)" "guide_version g \<le> c (vid_id x)"
    by (auto simp: tree_guide_entries [OF tg])
  then have "pos \<le> vid_id x" "vid_id x < n" using tg by (auto simp: tree_guide_def)
  from first_with_exists [of pos "vid_id x" n "guide_version g" c, OF this x(3)] obtain w where
    w: "first_with c pos n (guide_version g) w" "w \<le> vid_id x" by blast
  with b have wi: "w \<in> set (guide_ids g)" by (simp add: below_def)
  then have "VersionedId_new w (c w) \<in> set (guide_sorted g)"
    by (simp add: tree_guide_entries [OF tg])
  from find_min [OF Some srt this] w have "vid_id x \<le> w" by (simp add: first_with_def)
  with w(2) have eq: "vid_id x = w" by simp
  from position_of_member [OF wi] obtain i where
    i: "position (\<lambda>i. i = w) (guide_ids g) = Some i" "i < length (guide_ids g)" "guide_ids g ! i = w"
    by blast
  show ?thesis
  proof (cases "c w = guide_version g")
    case True
    with Some fr x eq i w(1) show ?thesis by (simp add: guide_result_def search_outcome_def)
  next
    case False
    have "c z \<noteq> guide_version g" if "pos \<le> z" "z < n" for z
    proof
      assume z: "c z = guide_version g"
      have "\<not> z < w" using w(1) that z by (auto simp: first_with_def)
      then have "c w \<le> c z" using asc that w(1) by (simp add: ascending_counters_def first_with_def)
      with False z w(1) show False by (simp add: first_with_def)
    qed
    with Some fr x eq False show ?thesis by (simp add: guide_result_def search_outcome_def)
  qed
qed

lemma frontier_find:
  "frontier_shape lo n fr \<Longrightarrow> find Q fr = Some f \<Longrightarrow> lo \<le> z \<Longrightarrow> z < n \<Longrightarrow>
    (\<forall>y \<in> set fr. \<not> Q y \<longrightarrow> y < z) \<Longrightarrow> z \<in> subtree f"
  by (induction lo n fr rule: frontier_shape.induct) (auto split: if_splits)

lemma find_map_entry:
  "find (\<lambda>v. Q (vid_version v)) (map (\<lambda>i. VersionedId_new i (c i)) fr)
   = map_option (\<lambda>i. VersionedId_new i (c i)) (find (\<lambda>i. Q (c i)) fr)"
  by (induction fr) simp_all

section \<open>The loop\<close>

text \<open>
  What the loop relies on: asked for the entry \<open>i\<close>, the closure inserts its counter \<open>c i\<close> and
  returns \<open>Ok\<close>; \<open>P ids s\<close> is what its captured variables hold after the entries \<open>ids\<close>.
\<close>

locale log_search =
  fixes step :: "'s \<Rightarrow> ProofGuide \<Rightarrow> nat \<Rightarrow> ('e, unit) rresult \<times> ProofGuide \<times> 's"
    and c :: "nat \<Rightarrow> u32" and pos n :: nat and P :: "nat list \<Rightarrow> 's \<Rightarrow> bool"
  assumes step_ok: "P ids s \<Longrightarrow> pos \<le> i \<Longrightarrow> i < n \<Longrightarrow>
      \<exists>s'. step s g i = (Inr (), guide_insert i (c i) g, s') \<and> P (ids @ [i]) s'"
begin

lemma consume_asks:
  assumes "poll g = (Inr False, g1)" "next_id g1 = Inr i" "P ids s" "pos \<le> i" "i < n"
  obtains s' where "consume step conv g s = consume step conv (guide_insert i (c i) g1) s'"
    "P (ids @ [i]) s'"
proof -
  from step_ok [OF assms(3-5)] obtain s' where
    "step s g1 i = (Inr (), guide_insert i (c i) g1, s')" "P (ids @ [i]) s'" by blast
  moreover from this(1) have "consume step conv g s = consume step conv (guide_insert i (c i) g1) s'"
    using assms(1,2) by (subst consume.simps) simp
  ultimately show ?thesis using that by blast
qed

lemma consume_below:
  assumes ascending: "ascending_counters c pos n" and range: "n < 2 ^ 64"
    and "tree_guide c pos n g" "P (guide_ids g) s" "poll_last (g\<lparr>guide_sorted := sort_key vid_id (guide_sorted g)\<rparr>) = (Inr lst, g2)"
    and "tree_guide c pos n g2" "guide_ids g2 = guide_ids g" "\<not> guide_is_frontier g2"
      "sorted (map vid_id (guide_sorted g2))"
    and "lst \<in> set (guide_ids g2)" "below c pos n g2 (subtree lst)"
  shows "\<exists>ids res s'. consume step conv g s = Some (Inr res, s') \<and> P ids s'
    \<and> set ids \<subseteq> {pos ..< n} \<and> search_outcome c pos n (guide_version g2) ids res"
  using assms(3-)
proof (induction lst arbitrary: g g2 s rule: measure_induct_rule [where f = level])
  case (less lst)
  have len: "length (guide_sorted g) = length (guide_ids g)"
    "length (guide_sorted g2) = length (guide_ids g2)"
    using less.prems(1,4) by (simp_all add: tree_guide_entries)
  have asc: "versions_ascending (sort_key vid_id (guide_sorted g))"
    using less.prems(1) ascending by (rule tree_guide_ascending)
  from less.prems(4) ascending range less.prems(8,9) show ?case
  proof (cases rule: poll_next_step)
    case 1
    from guide_result_ok [OF less.prems(4) ascending 1(2) less.prems(6,7)] obtain res where
      res: "guide_result g2 = Inr res"
        "search_outcome c pos n (guide_version g2) (guide_ids g2) res" by blast
    have "poll g = (Inr True, g2)"
      using less.prems(3) 1(1) len(1) asc by (simp add: poll_def)
    then have "consume step conv g s = Some (Inr res, s)"
      using res(1) by (subst consume.simps) (simp add: panicking_def)
    with res(2) less.prems(2,4,5) show ?thesis by (auto simp: tree_guide_def)
  next
    case (2 i)
    let ?g = "g2\<lparr>guide_ids := guide_ids g2 @ [i]\<rparr>"
    have "poll g = (Inr False, ?g)"
      using less.prems(3) 2(1) len(1) asc by (simp add: poll_def)
    moreover have "next_id ?g = Inr i" using len(2) by (simp add: next_id_def)
    ultimately obtain s' where s': "consume step conv g s = consume step conv (guide_insert i (c i) ?g) s'"
      "P (guide_ids g @ [i]) s'"
      using less.prems(2) 2(2,3) by (rule consume_asks)
    let ?h = "guide_insert i (c i) ?g" and ?s = "sort_key vid_id (guide_sorted (guide_insert i (c i) ?g))"
    have h: "tree_guide c pos n ?h"
      using less.prems(4) 2(2,3) by (auto simp: tree_guide_def guide_insert_def filled_def)
    then have h2: "tree_guide c pos n (?h\<lparr>guide_sorted := ?s\<rparr>)" by (rule tree_guide_sort)
    have flds: "guide_ids ?h = guide_ids g @ [i]" "\<not> guide_is_frontier ?h"
      "guide_version ?h = guide_version g2"
      using less.prems(5,6) by (simp_all add: guide_insert_def)
    have "poll_last (?h\<lparr>guide_sorted := ?s\<rparr>) = (Inr i, ?h\<lparr>guide_sorted := ?s\<rparr>)"
      using flds by (simp add: poll_last_def)
    moreover have "below c pos n (?h\<lparr>guide_sorted := ?s\<rparr>) (subtree i)"
      using 2(5) flds less.prems(5) by (auto simp: below_def)
    ultimately show ?thesis
      using less.IH [OF 2(4) h _ _ h2, of s'] s' flds by simp
  qed
qed

text \<open>The ids known from the start are looked up first, one per round.\<close>

lemma consume_fills:
  assumes "k \<le> length (guide_ids g)" "set (guide_ids g) \<subseteq> {pos ..< n}"
    and "guide_sorted g = map (\<lambda>i. VersionedId_new i (c i)) (take k (guide_ids g))"
    and "P (take k (guide_ids g)) s"
  shows "\<exists>s'. consume step conv g s
      = consume step conv (g\<lparr>guide_sorted := map (\<lambda>i. VersionedId_new i (c i)) (guide_ids g)\<rparr>) s'
    \<and> P (guide_ids g) s'"
  using assms
proof (induction "length (guide_ids g) - k" arbitrary: k g s)
  case 0
  then have all: "take k (guide_ids g) = guide_ids g" by simp
  with 0 have "g\<lparr>guide_sorted := map (\<lambda>i. VersionedId_new i (c i)) (guide_ids g)\<rparr> = g"
    by (cases g) simp
  with 0(5) all show ?case by (intro exI [of _ s]) simp
next
  case (Suc d)
  then have k: "k < length (guide_ids g)" by simp
  let ?i = "guide_ids g ! k"
  have i: "pos \<le> ?i" "?i < n" using Suc.prems(2) nth_mem [OF k] by auto
  have "poll g = (Inr False, g)" "next_id g = Inr ?i"
    using k Suc.prems(3) by (simp_all add: poll_def next_id_def min_def)
  then obtain s' where s': "consume step conv g s = consume step conv (guide_insert ?i (c ?i) g) s'"
    "P (take k (guide_ids g) @ [?i]) s'"
    using Suc.prems(4) i by (rule consume_asks)
  let ?h = "guide_insert ?i (c ?i) g"
  have h: "guide_ids ?h = guide_ids g"
    "guide_sorted ?h = map (\<lambda>i. VersionedId_new i (c i)) (take (Suc k) (guide_ids g))"
    "?h\<lparr>guide_sorted := x\<rparr> = g\<lparr>guide_sorted := x\<rparr>" for x
    using Suc.prems(3) k by (simp_all add: guide_insert_def take_Suc_conv_app_nth)
  have "P (take (Suc k) (guide_ids ?h)) s'" using s'(2) k by (simp add: h take_Suc_conv_app_nth)
  moreover have "d = length (guide_ids ?h) - Suc k" "Suc k \<le> length (guide_ids ?h)"
    using Suc.hyps(2) k by (simp_all add: h)
  ultimately show ?case
    using Suc.hyps(1) [of ?h "Suc k" s'] Suc.prems(2) s'(1) by (simp add: h)
qed

lemma search_version:
  assumes ascending: "ascending_counters c pos n" and range: "pos < n" "n < 2 ^ 64" and init: "P [] s"
  obtains g ids res s' where "ProofGuide_for_version v pos n = Inr g"
    "consume step conv g s = Some (Inr res, s')" "P ids s'" "set ids \<subseteq> {pos ..< n}"
    "search_outcome c pos n v ids res"
proof -
  from range obtain r where r: "implicit_root pos n = Inr r" "pos \<le> r" "r < n"
    "{pos ..< n} \<subseteq> subtree r" by (rule implicit_root_ok)
  let ?g = "\<lparr>guide_pos = pos, guide_n = n, guide_version = v, guide_ids = [r], guide_sorted = [],
    guide_is_frontier = False\<rparr>"
  let ?f = "?g\<lparr>guide_sorted := [VersionedId_new r (c r)]\<rparr>"
  obtain s1 where s1: "consume step conv ?g s = consume step conv ?f s1" "P [r] s1"
    using consume_fills [of 0 ?g s conv] init r by auto
  have "tree_guide c pos n ?f" "below c pos n ?f (subtree r)"
    using r by (auto simp: tree_guide_def filled_def below_def first_with_def)
  with consume_below [OF ascending range(2), of ?f s1 r ?f conv] s1 obtain ids res s' where
    "consume step conv ?f s1 = Some (Inr res, s')" "P ids s'" "set ids \<subseteq> {pos ..< n}"
    "search_outcome c pos n v ids res" by (auto simp: poll_last_def)
  moreover have "ProofGuide_for_version v pos n = Inr ?g"
    using r(1) by (simp add: ProofGuide_for_version_def)
  ultimately show ?thesis using that s1(1) by simp
qed

lemma search_most_recent:
  assumes ascending: "ascending_counters c pos n" and range: "pos < n" "n < 2 ^ 64" and init: "P [] s"
  obtains g ids res s' where "ProofGuide_for_most_recent pos n = Inr g"
    "consume step conv g s = Some (Inr res, s')" "P ids s'" "set ids \<subseteq> {pos ..< n}"
    "search_outcome c pos n (c (n - 1)) ids res"
proof -
  from range obtain fr where fr: "frontier pos n = Inr fr" "frontier_shape pos n fr"
    by (rule frontier_ok)
  let ?e = "\<lambda>i. VersionedId_new i (c i)"
  let ?g = "\<lparr>guide_pos = pos, guide_n = n, guide_version = 0, guide_ids = fr, guide_sorted = [],
    guide_is_frontier = True\<rparr>"
  let ?f = "?g\<lparr>guide_sorted := map ?e fr\<rparr>"
  let ?f2 = "?f\<lparr>guide_version := c (n - 1), guide_is_frontier := False\<rparr>"
  note shape = frontier_shape_range [OF fr(2)] frontier_shape_last [OF fr(2)]
  have ids: "set fr \<subseteq> {pos ..< n}" "fr \<noteq> []" "last fr = n - 1" using shape by auto
  obtain s1 where s1: "consume step conv ?g s = consume step conv ?f s1" "P fr s1"
    using consume_fills [of 0 ?g s conv] init ids(1) by auto
  have "sorted fr" using frontier_shape_sorted [OF fr(2)] by (simp add: strict_sorted_iff)
  then have srt: "sorted (map vid_id (map ?e fr))" "sort_key vid_id (map ?e fr) = map ?e fr"
    by (simp_all add: comp_def sort_key_id_if_sorted)
  obtain f where f: "find (\<lambda>i. c i = c (n - 1)) fr = Some f"
    using ids(2,3) by (metis (mono_tags, lifting) find_None_iff last_in_set option.exhaust)
  have pl: "poll_last ?f = (Inr f, ?f2)"
    using ids f find_map_entry [of "\<lambda>v. v = c (n - 1)" c fr]
    by (simp add: poll_last_def last_map)
  have tg: "tree_guide c pos n ?f" "tree_guide c pos n ?f2"
    using ids by (simp_all add: tree_guide_def filled_def)
  have "z \<in> subtree f" if z: "first_with c pos n (c (n - 1)) z" for z
  proof (rule frontier_find [OF fr(2) f])
    have "y < z" if "y \<in> set fr" "c y \<noteq> c (n - 1)" for y
    proof (rule ccontr)
      assume "\<not> y < z"
      moreover have "y \<le> n - 1" using shape(1) [OF that(1)] by linarith
      ultimately have "c z \<le> c y" "c y \<le> c (n - 1)"
        using ascending z range ids(1) that(1) by (auto simp: ascending_counters_def first_with_def)
      with z that(2) show False by (auto simp: first_with_def)
    qed
    then show "\<forall>y \<in> set fr. c y \<noteq> c (n - 1) \<longrightarrow> y < z" by blast
  qed (use z in \<open>simp_all add: first_with_def\<close>)
  then have "below c pos n ?f2 (subtree f)" by (simp add: below_def)
  moreover have "f \<in> set fr" using find_memD [OF f] by simp
  ultimately obtain ids res s' where
    "consume step conv ?f s1 = Some (Inr res, s')" "P ids s'" "set ids \<subseteq> {pos ..< n}"
    "search_outcome c pos n (c (n - 1)) ids res"
    using consume_below [OF ascending range(2), of ?f s1 f ?f2 conv] s1(2) pl tg srt by auto
  moreover have "ProofGuide_for_most_recent pos n = Inr ?g"
    using fr(1) by (simp add: ProofGuide_for_most_recent_def)
  ultimately show ?thesis using that s1(1) by simp
qed

lemma search_new:
  assumes "ascending_counters c pos n" "pos < n" "n < 2 ^ 64" "P [] s"
  shows "\<exists>g ids res s'. ProofGuide_new version pos n = Inr g
    \<and> consume step conv g s = Some (Inr res, s') \<and> P ids s' \<and> set ids \<subseteq> {pos ..< n}
    \<and> search_outcome c pos n (case version of None \<Rightarrow> c (n - 1) | Some v \<Rightarrow> v) ids res"
proof (cases version)
  case None
  from assms show ?thesis
    by (rule search_most_recent [where conv = conv]) (auto simp: None ProofGuide_new_def)
next
  case (Some v)
  from assms show ?thesis
    by (rule search_version [where conv = conv and v = v]) (auto simp: Some ProofGuide_new_def)
qed

end

text \<open>The closure of a client that only records the versions it is shown.\<close>

definition recording_step ::
  "(nat \<Rightarrow> u32) \<Rightarrow> nat list \<Rightarrow> ProofGuide \<Rightarrow> nat \<Rightarrow> ('e, unit) rresult \<times> ProofGuide \<times> nat list" where
  "recording_step c ids g i = (Inr (), guide_insert i (c i) g, ids @ [i])"

interpretation rec: log_search "recording_step c" c pos n "\<lambda>ids s. s = ids" for c pos n
  by unfold_locales (simp add: recording_step_def)

text \<open>C36: The guided search ends, for every log whose version counters never decrease and for every
  version asked for (the newest one when none is given). It names the first entry of the log with
  that version and its place among the entries looked up, or \<open>None\<close> exactly when no entry has the
  version; only entries of the log are looked up, and nothing panics.\<close>

theorem guide_finds_first_version:
  assumes "ascending_counters c pos n" "pos < n" "n < 2 ^ 64"
  shows "\<exists>g ids res. ProofGuide_new version pos n = Inr g
    \<and> consume (recording_step c) conv g [] = Some (Inr res, ids) \<and> set ids \<subseteq> {pos ..< n}
    \<and> search_outcome c pos n (case version of None \<Rightarrow> c (n - 1) | Some v \<Rightarrow> v) ids res"
  using rec.search_new [OF assms, of "[]" version conv] by auto

theorem guide_finds_first_version_witness:
  "\<exists>g ids i. ProofGuide_new (Some 1) 100 700 = Inr g
    \<and> consume (recording_step (\<lambda>i. if i < 399 then 0 else 1)) id g [] = Some (Inr (Some (i, 399)), ids)
    \<and> ids ! i = 399"
proof -
  let ?c = "\<lambda>i :: nat. if i < 399 then 0 else 1 :: u32"
  have "ascending_counters ?c 100 700" by (simp add: ascending_counters_def)
  from guide_finds_first_version [OF this, of "Some 1" id] obtain g ids res where
    g: "ProofGuide_new (Some 1) 100 700 = Inr g"
      "consume (recording_step ?c) id g [] = Some (Inr res, ids)"
      "search_outcome ?c 100 700 1 ids res" by auto
  have "res \<noteq> None"
  proof
    assume "res = None"
    with g(3) have "\<forall>z. 100 \<le> z \<longrightarrow> z < 700 \<longrightarrow> ?c z \<noteq> 1" by (simp add: search_outcome_def)
    then show False by (auto dest: spec [of _ 399])
  qed
  with g(3) obtain i z where "res = Some (i, z)" "first_with ?c 100 700 1 z" "ids ! i = z"
    by (auto simp: search_outcome_def split: option.splits)
  moreover from this(2) have "z = 399"
    by (auto simp: first_with_def split: if_splits dest: spec [of _ 399])
  ultimately show ?thesis
    using g by (intro exI [of _ g] exI [of _ ids] exI [of _ i]) simp
qed

end
