(* ===== verification/Guided_Search.thy ===== *)
theory Guided_Search
  imports Proof_Guide
begin

text \<open>
  The guided search against a server that may answer anything. The locale \<open>guided_lookup\<close> only asks
  of the closure that, for an entry of the log, it records some version for it or fails with an
  error. Then \<open>consume\<close> ends without a panic, looks up no entry twice, and a result it gives names a
  looked-up entry with the version searched for.
\<close>

section \<open>Steps down stay on their side\<close>

lemma left_step_subtree: "left_step x = Inr y \<Longrightarrow> subtree y \<subseteq> subtree x \<inter> {..< x}"
proof -
  assume y: "left_step x = Inr y"
  obtain q k where x: "x = node q k" by (rule node_cases)
  show ?thesis
  proof (cases k)
    case 0
    with x have "level x = 0" by (simp only: level_node)
    with level_left_step [OF y] show ?thesis by simp
  next
    case (Suc j)
    with x y show ?thesis by (auto simp: left_step_node span_children)
  qed
qed

lemma right_step_subtree:
  "right_step x = Inr y \<Longrightarrow> Suc x < 2 ^ 64 \<Longrightarrow> subtree y \<subseteq> subtree x \<inter> {x <..}"
proof -
  assume y: "right_step x = Inr y" and lt: "Suc x < 2 ^ 64"
  obtain q k where x: "x = node q k" by (rule node_cases)
  show ?thesis
  proof (cases k)
    case 0
    with x have "level x = 0" by (simp only: level_node)
    with level_right_step [OF y] show ?thesis by simp
  next
    case (Suc j)
    have "Suc (node q (Suc j)) = (2 * q + 1) * 2 ^ Suc j"
      using Suc_node [of q "Suc j"] by (simp add: algebra_simps)
    then have p: "(2 * q + 1) * 2 ^ Suc j < (2 :: nat) ^ 64" using lt x Suc by simp
    then have "(2 :: nat) ^ Suc j < 2 ^ 64"
      by (rule le_less_trans [rotated]) simp
    then have j: "Suc j < 64" by (rule power_less_imp_less_exp [rotated]) simp
    then have e: "(2 :: nat) ^ 64 = 2 ^ (63 - j) * 2 ^ Suc j" by (simp flip: power_add)
    from p [unfolded e] have "2 * q + 1 < 2 ^ (63 - j)" by (simp only: mult_less_cancel2)
    then have "2 * q + 2 \<le> 2 ^ (63 - j)" by simp
    then have "(2 * q + 2) * 2 ^ Suc j \<le> 2 ^ 64" unfolding e by (rule mult_le_mono1)
    then have "node (Suc (2 * q)) j < 2 ^ 64"
      using Suc_node [of "Suc (2 * q)" j] two_power_pos [of j] by (simp add: algebra_simps)
    with x y Suc show ?thesis by (auto simp: right_step_node span_children)
  qed
qed

lemma move_within_subtree:
  assumes "move_within x start n = Inr y" "start < 2 ^ 64"
  shows "subtree y \<subseteq> subtree x"
  using assms(1)
proof (induction x rule: measure_induct_rule [where f = level])
  case (less x)
  consider "x = y" | z where "x < start" "right_step x = Inr z" "move_within z start n = Inr y"
    | z where "left_step x = Inr z" "move_within z start n = Inr y"
    using less.prems by (auto simp: move_within.simps [of x] res_simps split: if_splits)
  then show ?case
  proof cases
    case 2
    with less.IH [OF level_right_step [OF 2(2)]] right_step_subtree [OF 2(2)] assms(2) show ?thesis by auto
  next
    case 3
    with less.IH [OF level_left_step [OF 3(1)]] left_step_subtree [OF 3(1)] show ?thesis by auto
  qed simp
qed

lemma implicit_left_subtree:
  "implicit_left x start n = Inr y \<Longrightarrow> start < 2 ^ 64 \<Longrightarrow> subtree y \<subseteq> subtree x \<inter> {..< x}"
  by (auto simp: implicit_left_def res_simps dest!: left_step_subtree move_within_subtree)

lemma implicit_right_subtree:
  "implicit_right x start n = Inr y \<Longrightarrow> Suc x < 2 ^ 64 \<Longrightarrow> start < 2 ^ 64 \<Longrightarrow>
    subtree y \<subseteq> subtree x \<inter> {x <..}"
  by (auto simp: implicit_right_def res_simps dest!: right_step_subtree move_within_subtree)

text \<open>No earlier node of the frontier lies below a later one.\<close>

lemma frontier_shape_apart:
  "frontier_shape lo n fr \<Longrightarrow> x \<in> set fr \<Longrightarrow> f \<in> set fr \<Longrightarrow> x < f \<Longrightarrow> x \<notin> subtree f"
proof (induction lo n fr rule: frontier_shape.induct)
  case (2 lo n y ys)
  show ?case
  proof (cases "x = y")
    case True
    with 2(4,5) have f: "f \<in> set ys" by auto
    with 2(2) have "ys \<noteq> []" "frontier_shape (Suc y) n ys" by (auto split: if_splits)
    with f frontier_shape_range [of "Suc y" n ys f] have "Suc y \<le> f" "f < n" by auto
    then have "f \<in> subtree y" using 2(2) by auto
    then show ?thesis using level_subtree [of f y] subtree_antisym [of y f] 2(5) True by auto
  next
    case False
    with 2(3) have x: "x \<in> set ys" by auto
    with 2(2) have fs: "ys \<noteq> []" "frontier_shape (Suc y) n ys" by (auto split: if_splits)
    with x frontier_shape_range [of "Suc y" n ys x] have "Suc y \<le> x" by auto
    with 2(4,5) have "f \<in> set ys" by auto
    with 2(1) [OF fs(1)] fs(2) x 2(5) show ?thesis by blast
  qed
qed simp

section \<open>What has been looked up\<close>

definition as_entries :: "(nat \<times> u32) list \<Rightarrow> VersionedId list" where
  "as_entries log = map (\<lambda>(i, v). VersionedId_new i v) log"

lemma as_entries_simps [simp]:
  "as_entries [] = []" "as_entries (p # log) = VersionedId_new (fst p) (snd p) # as_entries log"
  "as_entries (log @ log') = as_entries log @ as_entries log'" "length (as_entries log) = length log"
  "set (as_entries log) = (\<lambda>(i, v). VersionedId_new i v) ` set log"
  by (simp_all add: as_entries_def split_beta)

text \<open>\<open>log\<close> is the list of the entries looked up so far, with the versions they showed.\<close>

definition looked_up :: "nat \<Rightarrow> nat \<Rightarrow> (nat \<times> u32) list \<Rightarrow> ProofGuide \<Rightarrow> bool" where
  "looked_up pos n log g \<longleftrightarrow> guide_pos g = pos \<and> guide_n g = n \<and> guide_ids g = map fst log
     \<and> mset (guide_sorted g) = mset (as_entries log)
     \<and> distinct (map fst log) \<and> fst ` set log \<subseteq> {pos ..< n} \<and> log \<noteq> []"

lemma looked_up_set:
  "looked_up pos n log g \<Longrightarrow> set (guide_sorted g) = (\<lambda>(i, v). VersionedId_new i v) ` set log"
  unfolding looked_up_def by (metis as_entries_simps(5) set_mset_mset)

lemma looked_up_length: "looked_up pos n log g \<Longrightarrow> length (guide_sorted g) = length (guide_ids g)"
  unfolding looked_up_def by (metis as_entries_simps(4) length_map size_mset)

lemma looked_up_sort:
  "looked_up pos n log g \<Longrightarrow> looked_up pos n log (g\<lparr>guide_sorted := sort_key vid_id (guide_sorted g)\<rparr>)"
  by (simp add: looked_up_def)

lemma looked_up_find:
  assumes "looked_up pos n log g" "(i, v) \<in> set log"
  shows "find (\<lambda>e. vid_id e = i) (guide_sorted g) = Some (VersionedId_new i v)"
proof (cases "find (\<lambda>e. vid_id e = i) (guide_sorted g)")
  case None
  with assms looked_up_set [OF assms(1)] show ?thesis by (force simp: find_None_iff)
next
  case (Some e)
  from find_memD [OF Some] looked_up_set [OF assms(1)] obtain w where
    w: "e = VersionedId_new i w" "(i, w) \<in> set log" by auto
  have "distinct (map fst log)" using assms(1) by (simp add: looked_up_def)
  with w(2) assms(2) have "w = v" by (metis map_of_eq_Some_iff option.inject)
  with Some w(1) show ?thesis by simp
qed

text \<open>The next entry to look up is in the range, further down, and on the side the version tells.\<close>

lemma poll_next_cases:
  assumes lu: "looked_up pos n log g" and n: "n < 2 ^ 64" and lst: "(lst, v) \<in> set log"
  obtains "poll_next g lst = Inr None"
  | i where "poll_next g lst = Inr (Some i)" "pos \<le> i" "i < n" "level i < level lst"
      "subtree i \<subseteq> subtree lst \<inter> (if v < guide_version g then {lst <..} else {..< lst})"
proof (cases "level lst = 0")
  case True
  then show ?thesis using that(1) by (simp add: poll_next_def is_leaf_iff)
next
  case lev: False
  have r: "pos \<le> lst" "lst < n" and flds: "guide_pos g = pos" "guide_n g = n"
    using lu lst by (auto simp: looked_up_def)
  have pn: "poll_next g lst = (if v < guide_version g then
        if lst = n - 1 then Inr None else try_bind (implicit_right lst pos n) (\<lambda>i. Inr (Some i))
      else if lst = pos then Inr None else try_bind (implicit_left lst pos n) (\<lambda>i. Inr (Some i)))"
    using lev looked_up_find [OF lu lst] flds by (simp add: poll_next_def is_leaf_iff)
  consider "poll_next g lst = Inr None" | "v < guide_version g" "Suc lst < n"
    | "\<not> v < guide_version g" "pos < lst"
    using pn r by (cases "v < guide_version g"; cases "lst = n - 1"; cases "lst = pos") auto
  then show ?thesis
  proof cases
    case 2
    from implicit_right_ok [OF r(1) 2(2) n lev] obtain y where
      y: "implicit_right lst pos n = Inr y" "lst < y" "y < n" by blast
    have "subtree y \<subseteq> subtree lst \<inter> {lst <..}"
      using implicit_right_subtree [OF y(1)] 2(2) n r by linarith
    moreover have "lst \<noteq> n - 1" using 2(2) by simp
    ultimately show ?thesis
      using that(2) [of y] pn y r level_implicit_right [OF y(1)] 2(1) by simp
  next
    case 3
    from implicit_left_ok [OF 3(2) r(2) n lev] obtain y where
      y: "implicit_left lst pos n = Inr y" "pos \<le> y" "y < lst" by blast
    have "subtree y \<subseteq> subtree lst \<inter> {..< lst}"
      using implicit_left_subtree [OF y(1)] n r by linarith
    then show ?thesis
      using that(2) [of y] pn y r level_implicit_left [OF y(1)] 3 by simp
  qed (use that in blast)
qed

lemma guide_result_cases:
  assumes lu: "looked_up pos n log g" and fr: "\<not> guide_is_frontier g"
  shows "\<exists>res. guide_result g = Inr res \<and>
    (\<forall>k i. res = Some (k, i) \<longrightarrow> k < length log \<and> log ! k = (i, guide_version g))"
proof -
  have "k < length log \<and> log ! k = (vid_id e, guide_version g)"
    if e: "find (\<lambda>v. guide_version g \<le> vid_version v) (guide_sorted g) = Some e"
      "vid_version e = guide_version g" and k: "position (\<lambda>i. i = vid_id e) (guide_ids g) = Some k" for e k
  proof -
    have ids: "guide_ids g = map fst log" "distinct (map fst log)" using lu by (simp_all add: looked_up_def)
    from position_SomeD [OF k] ids(1) have k: "k < length log" "fst (log ! k) = vid_id e" by auto
    from find_memD [OF e(1)] looked_up_set [OF lu] have "(vid_id e, vid_version e) \<in> set log" by auto
    moreover have "(vid_id e, snd (log ! k)) \<in> set log" using k by (metis nth_mem prod.collapse)
    ultimately have "snd (log ! k) = vid_version e" using ids(2) by (metis map_of_eq_Some_iff option.inject)
    with k e(2) show ?thesis by (simp add: prod_eq_iff)
  qed
  with fr show ?thesis
    by (simp add: guide_result_def split: option.split)
qed

section \<open>The contract\<close>

definition lookup_outcome ::
  "((nat \<times> u32) list \<Rightarrow> 's \<Rightarrow> bool) \<Rightarrow> nat \<Rightarrow> nat \<Rightarrow> u32 option
   \<Rightarrow> (('e, (nat \<times> nat) option) rresult \<times> 's) option \<Rightarrow> bool" where
  "lookup_outcome P pos n version out \<longleftrightarrow> (\<exists>r s. out = Some (r, s) \<and> \<not> is_panic r \<and>
     (\<forall>res. r = Inr res \<longrightarrow> (\<exists>log. P log s \<and> log \<noteq> [] \<and> fst ` set log \<subseteq> {pos ..< n} \<and> distinct (map fst log) \<and>
       (\<forall>k i. res = Some (k, i) \<longrightarrow> k < length log \<and> fst (log ! k) = i
          \<and> (\<forall>v. version = Some v \<longrightarrow> snd (log ! k) = v)))))"

locale guided_lookup =
  fixes step :: "'s \<Rightarrow> ProofGuide \<Rightarrow> nat \<Rightarrow> ('e, unit) rresult \<times> ProofGuide \<times> 's"
    and pos n :: nat and P :: "(nat \<times> u32) list \<Rightarrow> 's \<Rightarrow> bool"
  assumes step_cases: "P log s \<Longrightarrow> pos \<le> i \<Longrightarrow> i < n \<Longrightarrow> i \<notin> fst ` set log \<Longrightarrow>
      (\<exists>v s'. step s g i = (Inr (), guide_insert i v g, s') \<and> P (log @ [(i, v)]) s')
      \<or> (\<exists>e g' s'. step s g i = (Inl (Err e), g', s'))"
begin

lemma consume_next:
  assumes "poll g = (Inr False, g1)" "next_id g1 = Inr i" "P log s" "pos \<le> i" "i < n" "i \<notin> fst ` set log"
  obtains v s' where "consume step conv g s = consume step conv (guide_insert i v g1) s'" "P (log @ [(i, v)]) s'"
  | e s' where "consume step conv g s = Some (Inl (Err e), s')"
proof -
  from step_cases [OF assms(3-6), of g1] consider
    (ok) v s' where "step s g1 i = (Inr (), guide_insert i v g1, s')" "P (log @ [(i, v)]) s'"
    | (err) e g' s' where "step s g1 i = (Inl (Err e), g', s')" by blast
  then show ?thesis
  proof cases
    case ok
    have "consume step conv g s = consume step conv (guide_insert i v g1) s'"
      using assms(1,2) ok(1) by (subst consume.simps) simp
    with ok(2) that(1) show ?thesis by blast
  next
    case err
    have "consume step conv g s = Some (Inl (Err e), s')"
      using assms(1,2) err by (subst consume.simps) simp
    with that(2) show ?thesis by blast
  qed
qed

lemma consume_descends:
  assumes n: "n < 2 ^ 64"
    and "looked_up pos n log g" "P log s"
    and "poll_last (g\<lparr>guide_sorted := sort_key vid_id (guide_sorted g)\<rparr>) = (Inr lst, g2)"
    and "looked_up pos n log g2" "\<not> guide_is_frontier g2" "(lst, v) \<in> set log"
    and "\<forall>i. poll_next g2 lst = Inr (Some i) \<longrightarrow> fst ` set log \<inter> subtree i = {}"
    and "\<forall>u. version = Some u \<longrightarrow> guide_version g2 = u"
  shows "lookup_outcome P pos n version (consume step conv g s)"
  using assms(2-)
proof (induction lst arbitrary: g g2 s log v rule: measure_induct_rule [where f = level])
  case (less lst)
  note len = looked_up_length [OF less.prems(1)] looked_up_length [OF less.prems(4)]
  show ?case
  proof (cases "versions_ascending (sort_key vid_id (guide_sorted g))")
    case False
    then have "consume step conv g s = Some (Inl (Err (conv InvalidState)), s)"
      using len by (subst consume.simps) (simp add: poll_def map_err_def)
    then show ?thesis by (simp add: lookup_outcome_def is_panic_def)
  next
    case asc: True
    from less.prems(4) n less.prems(6) show ?thesis
    proof (cases rule: poll_next_cases)
      case 1
      obtain res where res: "guide_result g2 = Inr res"
        "\<forall>k i. res = Some (k, i) \<longrightarrow> k < length log \<and> log ! k = (i, guide_version g2)"
        using guide_result_cases [OF less.prems(4,5)] by blast
      have "poll g = (Inr True, g2)" using less.prems(3) 1 len asc by (simp add: poll_def)
      then have "consume step conv g s = Some (Inr res, s)"
        using res(1) by (subst consume.simps) (simp add: panicking_def)
      with res(2) less.prems(1,2,8) show ?thesis
        by (auto simp: lookup_outcome_def is_panic_def looked_up_def)
    next
      case (2 i)
      let ?g = "g2\<lparr>guide_ids := guide_ids g2 @ [i]\<rparr>"
      have fresh: "fst ` set log \<inter> subtree i = {}" using less.prems(7) 2(1) by blast
      then have new: "i \<notin> fst ` set log" using in_own_subtree [of i] by blast
      have "poll g = (Inr False, ?g)" using less.prems(3) 2(1) len asc by (simp add: poll_def)
      moreover have "next_id ?g = Inr i" using len by (simp add: next_id_def)
      ultimately show ?thesis using less.prems(2) 2(2,3) new
      proof (cases rule: consume_next [where conv = conv])
        case (1 w s')
        let ?h = "guide_insert i w ?g" and ?log = "log @ [(i, w)]"
        from fresh have h: "looked_up pos n ?log ?h"
          using less.prems(4) 2(2,3) in_own_subtree [of i] by (auto simp: looked_up_def guide_insert_def)
        let ?h2 = "?h\<lparr>guide_sorted := sort_key vid_id (guide_sorted ?h)\<rparr>"
        have h2: "looked_up pos n ?log ?h2" using looked_up_sort [OF h] .
        have flds: "\<not> guide_is_frontier ?h2" "guide_version ?h2 = guide_version g2"
          using less.prems(5) by (simp_all add: guide_insert_def)
        have last: "poll_last ?h2 = (Inr i, ?h2)"
          using less.prems(5) by (simp add: poll_last_def guide_insert_def)
        have nxt: "fst ` set ?log \<inter> subtree j = {}" if "poll_next ?h2 i = Inr (Some j)" for j
        proof -
          have "(i, w) \<in> set ?log" by simp
          from h2 n this show ?thesis
          proof (cases rule: poll_next_cases)
            case (2 j')
            with that have "subtree j \<subseteq> subtree i - {i}" by (auto split: if_splits)
            with fresh show ?thesis by auto
          qed (use that in simp)
        qed
        from less.IH [OF 2(4) h 1(2) last h2 flds(1), of w] nxt less.prems(8) flds(2) 1(1)
        show ?thesis by simp
      next
        case (2 e s')
        then show ?thesis by (simp add: lookup_outcome_def is_panic_def)
      qed
    qed
  qed
qed

text \<open>The ids known from the start are looked up first.\<close>

lemma consume_looks_up:
  assumes "guide_ids g = map fst log @ rest" "guide_sorted g = as_entries log"
    and "P log s" "set rest \<subseteq> {pos ..< n}" "distinct (guide_ids g)"
  shows "(\<exists>log' s'. consume step conv g s
        = consume step conv (g\<lparr>guide_sorted := as_entries log'\<rparr>) s'
      \<and> P log' s' \<and> map fst log' = guide_ids g)
    \<or> (\<exists>e s'. consume step conv g s = Some (Inl (Err e), s'))"
  using assms
proof (induction rest arbitrary: g log s)
  case Nil
  then have eq: "g\<lparr>guide_sorted := as_entries log\<rparr> = g" by (cases g) simp
  show ?case unfolding eq using Nil by (intro disjI1 exI [of _ log] exI [of _ s]) (simp only: eq append_Nil2)
next
  case (Cons i rest)
  have i: "pos \<le> i" "i < n" "i \<notin> fst ` set log" using Cons.prems(1,4,5) by auto
  have "poll g = (Inr False, g)" "next_id g = Inr i"
    using Cons.prems(1,2) by (simp_all add: poll_def next_id_def nth_append)
  from this Cons.prems(3) i show ?case
  proof (cases rule: consume_next [where conv = conv, case_names ok err])
    case (ok w s')
    let ?h = "guide_insert i w g"
    have "guide_ids ?h = map fst (log @ [(i, w)]) @ rest"
      "guide_sorted ?h = as_entries (log @ [(i, w)])"
      "?h\<lparr>guide_sorted := x\<rparr> = g\<lparr>guide_sorted := x\<rparr>" "guide_ids ?h = guide_ids g" for x
      using Cons.prems(1,2) by (simp_all add: guide_insert_def)
    with Cons.IH [of ?h "log @ [(i, w)]" s'] ok Cons.prems(4,5) show ?thesis by simp
  qed blast
qed

lemma consume_fills_all:
  assumes "guide_sorted g = []" "P [] s" "set (guide_ids g) \<subseteq> {pos ..< n}" "distinct (guide_ids g)"
  obtains log' s' where "consume step conv g s = consume step conv (g\<lparr>guide_sorted := as_entries log'\<rparr>) s'"
    "P log' s'" "map fst log' = guide_ids g"
  | e s' where "consume step conv g s = Some (Inl (Err e), s')"
proof -
  have "guide_ids g = map fst [] @ guide_ids g" "guide_sorted g = as_entries []" using assms(1) by simp_all
  from consume_looks_up [OF this assms(2-4), of conv] that show ?thesis by blast
qed

lemma search_version_outcome:
  assumes range: "pos < n" "n < 2 ^ 64" and init: "P [] s"
  shows "\<exists>g. ProofGuide_for_version v pos n = Inr g \<and> lookup_outcome P pos n (Some v) (consume step conv g s)"
proof -
  from range obtain r where r: "implicit_root pos n = Inr r" "pos \<le> r" "r < n" by (rule implicit_root_ok)
  let ?g = "\<lparr>guide_pos = pos, guide_n = n, guide_version = v, guide_ids = [r], guide_sorted = [],
    guide_is_frontier = False\<rparr>"
  have "guide_sorted ?g = []" "set (guide_ids ?g) \<subseteq> {pos ..< n}" "distinct (guide_ids ?g)" using r by simp_all
  from this(1) init this(2,3) have "lookup_outcome P pos n (Some v) (consume step conv ?g s)"
  proof (cases rule: consume_fills_all [where conv = conv, case_names ok err])
    case (ok log' s')
    from ok(3) obtain w where w: "log' = [(r, w)]" by auto
    let ?h = "?g\<lparr>guide_sorted := [VersionedId_new r w]\<rparr>"
    have h: "looked_up pos n [(r, w)] ?h" using r by (simp add: looked_up_def)
    have "fst ` set [(r, w)] \<inter> subtree i = {}" if i: "poll_next ?h r = Inr (Some i)" for i
    proof -
      have "(r, w) \<in> set [(r, w)]" by simp
      from h range(2) this show ?thesis by (cases rule: poll_next_cases) (use i in \<open>auto split: if_splits\<close>)
    qed
    with consume_descends [OF range(2) h, of s' r ?h w "Some v" conv] ok w h show ?thesis
      by (simp add: poll_last_def)
  qed (simp add: lookup_outcome_def is_panic_def)
  moreover have "ProofGuide_for_version v pos n = Inr ?g" using r(1) by (simp add: ProofGuide_for_version_def)
  ultimately show ?thesis by blast
qed

lemma search_most_recent_outcome:
  assumes range: "pos < n" "n < 2 ^ 64" and init: "P [] s"
  shows "\<exists>g. ProofGuide_for_most_recent pos n = Inr g \<and> lookup_outcome P pos n None (consume step conv g s)"
proof -
  from range obtain fr where fr: "frontier pos n = Inr fr" "frontier_shape pos n fr" by (rule frontier_ok)
  let ?g = "\<lparr>guide_pos = pos, guide_n = n, guide_version = 0, guide_ids = fr, guide_sorted = [],
    guide_is_frontier = True\<rparr>"
  have ids: "set fr \<subseteq> {pos ..< n}" "fr \<noteq> []" "distinct fr" "sorted fr"
    using frontier_shape_range [OF fr(2)] frontier_shape_last [OF fr(2)] frontier_shape_sorted [OF fr(2)]
    by (auto simp: strict_sorted_iff)
  have "guide_sorted ?g = []" "set (guide_ids ?g) \<subseteq> {pos ..< n}" "distinct (guide_ids ?g)" using ids by simp_all
  from this(1) init this(2,3) have "lookup_outcome P pos n None (consume step conv ?g s)"
  proof (cases rule: consume_fills_all [where conv = conv, case_names ok err])
    case (ok log s')
    let ?h = "?g\<lparr>guide_sorted := as_entries log\<rparr>"
    have ne: "log \<noteq> []" using ok(3) ids(2) by auto
    have srt: "sort_key vid_id (as_entries log) = as_entries log"
    proof (rule sort_key_id_if_sorted)
      have "map vid_id (as_entries log) = map fst log" by (simp add: as_entries_def split_beta comp_def)
      then show "sorted (map vid_id (as_entries log))" using ok(3) ids(4) by simp
    qed
    obtain e where e: "find (\<lambda>v. vid_version v = vid_version (last (as_entries log))) (as_entries log) = Some e"
      using ne by (metis (mono_tags, lifting) as_entries_simps(4) find_None_iff last_in_set length_0_conv option.exhaust)
    let ?h2 = "?h\<lparr>guide_version := vid_version e, guide_is_frontier := False\<rparr>"
    have ev: "vid_version (last (as_entries log)) = vid_version e" "(vid_id e, vid_version e) \<in> set log"
      using find_memD [OF e] by auto
    have pl: "poll_last ?h = (Inr (vid_id e), ?h2)"
      using ne e ev by (simp add: poll_last_def as_entries_def)
    have h: "looked_up pos n log ?h" "looked_up pos n log ?h2"
      using ok(3) ids ne by (auto simp: looked_up_def simp flip: set_map)
    have "fst ` set log \<inter> subtree i = {}" if i: "poll_next ?h2 (vid_id e) = Inr (Some i)" for i
      using h(2) range(2) ev(2)
    proof (cases rule: poll_next_cases)
      case (2 j)
      then have "subtree i \<subseteq> subtree (vid_id e) \<inter> {..< vid_id e}" using i by simp
      moreover have "fst ` set log = set fr" using ok(3) by (metis list.set_map ProofGuide.select_convs(4))
      moreover have "vid_id e \<in> set fr" using ev(2) \<open>fst ` set log = set fr\<close> by force
      ultimately show ?thesis using frontier_shape_apart [OF fr(2)] by blast
    qed (use i in simp)
    with consume_descends [OF range(2) h(1) ok(2), of "vid_id e" ?h2 "vid_version e" None conv] pl h(2) ev(2) srt ok(1)
    show ?thesis by simp
  qed (simp add: lookup_outcome_def is_panic_def)
  moreover have "ProofGuide_for_most_recent pos n = Inr ?g"
    using fr(1) by (simp add: ProofGuide_for_most_recent_def)
  ultimately show ?thesis by blast
qed

lemma search_outcome_new:
  assumes "pos < n" "n < 2 ^ 64" "P [] s"
  obtains g where "ProofGuide_new version pos n = Inr g" "lookup_outcome P pos n version (consume step conv g s)"
  using search_version_outcome [OF assms] search_most_recent_outcome [OF assms] that
  by (cases version) (auto simp: ProofGuide_new_def)

end

end
