(* ===== verification/Merkle_Log.thy ===== *)
theory Merkle_Log
  imports Left_Balanced
begin

text \<open>
  The log tree, \<^verbatim>\<open>rust/keytrans/src/log.rs\<close>: the node arithmetic of a tree with \<open>n\<close> leaves
  (module \<open>math\<close>), the running root calculation, and the evaluation of batch inclusion proofs and
  of consistency proofs. SHA-256 is the parameter \<open>H\<close>. The theory that imports this one states the
  proofs against the Merkle tree hash of a list of leaves.
\<close>

section \<open>Node arithmetic\<close>

definition node_width :: "nat \<Rightarrow> nat or_panic" where
  "node_width n =
     (if n = 0 then Inr 0
      else if 2 ^ 63 < n then Inl ''attempt to multiply with overflow''
      else Inr (2 * (n - 1) + 1))"

definition log_root :: "nat \<Rightarrow> nat or_panic" where
  "log_root n = try_bind (node_width n) (\<lambda>w. Inr (push_bit (log2 w) 1 - 1))"

text \<open>The loop of \<open>right\<close>.\<close>

function left_below :: "nat \<Rightarrow> nat \<Rightarrow> nat or_panic" where
  "left_below r w = (if w \<le> r then try_bind (left_step r) (\<lambda>r. left_below r w) else Inr r)"
  by pat_completeness auto
termination
  by (relation "measure (\<lambda>(r, _). level r)") (auto dest: level_left_step)

declare left_below.simps [simp del]

definition log_right :: "nat \<Rightarrow> nat \<Rightarrow> nat or_panic" where
  "log_right x n =
     try_bind (right_step x) (\<lambda>r. try_bind (node_width n) (\<lambda>w. left_below r w))"

function parent_below :: "nat \<Rightarrow> nat \<Rightarrow> nat or_panic" where
  "parent_below p w = (if w \<le> p then try_bind (parent_step p) (\<lambda>p. parent_below p w) else Inr p)"
  by pat_completeness auto
termination
  by (relation "measure (\<lambda>(p, _). 64 - level p)") (auto dest: level_parent_step)

declare parent_below.simps [simp del]

definition log_parent :: "nat \<Rightarrow> nat \<Rightarrow> nat or_panic" where
  "log_parent x n =
     try_bind (log_root n) (\<lambda>r.
       if x = r then Inl ''root node has no parent''
       else try_bind (node_width n) (\<lambda>width.
         try_bind (parent_step x) (\<lambda>p. parent_below p width)))"

definition sibling :: "nat \<Rightarrow> nat \<Rightarrow> nat or_panic" where
  "sibling x n =
     try_bind (log_parent x n) (\<lambda>p. if x < p then log_right p n else left_step p)"

definition is_full_subtree :: "nat \<Rightarrow> nat \<Rightarrow> bool or_panic" where
  "is_full_subtree x n =
     (if n = 0 then Inl ''attempt to subtract with overflow''
      else if 2 ^ 63 < n then Inl ''attempt to multiply with overflow''
      else if 2 ^ 64 \<le> x + 2 ^ level x then Inl ''attempt to add with overflow''
      else Inr (x + push_bit (level x) 1 - 1 \<le> 2 * (n - 1)))"

lemma level_left_below: "left_below r w = Inr y \<Longrightarrow> level y \<le> level r"
proof (induction r rule: measure_induct_rule [where f = level])
  case (less r)
  show ?case
  proof (cases "w \<le> r")
    case True
    with less.prems obtain z where z: "left_step r = Inr z" "left_below z w = Inr y"
      by (auto simp: left_below.simps [of r] res_simps)
    with less.IH [OF level_left_step [OF z(1)] z(2)] level_left_step [OF z(1)] show ?thesis by simp
  next
    case False
    with less.prems show ?thesis by (simp add: left_below.simps [of r])
  qed
qed

lemma level_log_right: "log_right x n = Inr y \<Longrightarrow> level y < level x"
  by (auto simp: log_right_def res_simps dest!: level_right_step level_left_below)

text \<open>The items of the iterator; none of its steps panics for a node of the tree.\<close>

function full_subtrees :: "nat \<Rightarrow> nat \<Rightarrow> nat list or_panic" where
  "full_subtrees x n =
     try_bind (is_full_subtree x n) (\<lambda>full.
       if full then Inr [x]
       else try_bind (log_right x n) (\<lambda>r.
         try_bind (left_step x) (\<lambda>l.
           try_bind (full_subtrees r n) (\<lambda>rest. Inr (l # rest)))))"
  by pat_completeness auto
termination
  by (relation "measure (\<lambda>(x, _). level x)") (auto dest: level_log_right)

declare full_subtrees.simps [simp del]

text \<open>\<open>k\<close> in \<open>sub_proof_impl\<close>.\<close>

definition sub_proof_split :: "nat \<Rightarrow> nat" where
  "sub_proof_split n = (let k = push_bit (log2 n) 1 in if k = n then k div 2 else k)"

lemma sub_proof_split_less: "0 < n \<Longrightarrow> sub_proof_split n < n"
  using log2_bounds [of n] by (auto simp: sub_proof_split_def Let_def push_bit_eq_mult)

lemma sub_proof_split_pos: "1 < n \<Longrightarrow> 0 < sub_proof_split n"
  by (auto simp: sub_proof_split_def Let_def push_bit_eq_mult)

lemma log_root_1: "log_root 1 = Inr 0"
  by (simp add: log_root_def node_width_def)

function sub_proof_impl :: "nat \<Rightarrow> nat \<Rightarrow> bool \<Rightarrow> nat list or_panic" where
  "sub_proof_impl m n b =
     (if m = n then
        if b then Inr [] else try_bind (log_root m) (\<lambda>r. Inr [r])
      else let k = sub_proof_split n in
        if m \<le> k then
          try_bind (sub_proof_impl m k b) (\<lambda>output.
            try_bind (log_root n) (\<lambda>r. try_bind (log_right r n) (\<lambda>y. Inr (output @ [y]))))
        else
          try_bind (log_root n) (\<lambda>r. try_bind (left_step r) (\<lambda>y.
            if n < k then Inl ''attempt to subtract with overflow''
            else try_bind (sub_proof_impl (m - k) (n - k) False) (\<lambda>sub.
              Inr (y # map (\<lambda>x. x + 2 * k) sub)))))"
  by pat_completeness auto
termination
proof (relation "measure (\<lambda>(m, n, _). if m = n then 0 else Suc n)", goal_cases)
  case (2 m n b k)
  show ?case
  proof (cases "n = 0")
    case True
    with 2 have "k = 1" by (simp add: sub_proof_split_def)
    with 2 True show ?thesis by auto
  next
    case False
    with 2 sub_proof_split_less [of n] show ?thesis by auto
  qed
next
  case (3 m n b k r y)
  show ?case
  proof (cases "n = 1")
    case True
    with 3 steps_leaf(1) [of 0] show ?thesis by (simp add: log_root_1 [simplified])
  next
    case False
    show ?thesis
    proof (cases "n = 0")
      case True
      with 3 have "k = 1" by (simp add: sub_proof_split_def)
      with 3 True show ?thesis by simp
    next
      case False
      with \<open>n \<noteq> 1\<close> 3 sub_proof_split_pos [of n] sub_proof_split_less [of n] show ?thesis by auto
    qed
  qed
qed simp

declare sub_proof_impl.simps [simp del]

definition consistency_proof :: "nat \<Rightarrow> nat \<Rightarrow> nat list or_panic" where
  "consistency_proof m n = sub_proof_impl m n True"

text \<open>The inner loop of \<open>batch_copath\<close>: the nodes left, the copath so far, the next level.\<close>

fun copath_pairs ::
  "nat \<Rightarrow> nat list \<Rightarrow> nat list \<Rightarrow> nat list \<Rightarrow> (nat list \<times> nat list \<times> nat list) or_panic" where
  "copath_pairs n (a # b # nodes) out next_level =
     try_bind (log_parent a n) (\<lambda>p. try_bind (log_right p n) (\<lambda>r.
       if r = b then copath_pairs n nodes out (next_level @ [p])
       else try_bind (sibling a n) (\<lambda>s. copath_pairs n (b # nodes) (out @ [s]) (next_level @ [p]))))"
| "copath_pairs n nodes out next_level = Inr (nodes, out, next_level)"

text \<open>The node that stays alone moves up only once its parent is of the next level.\<close>

definition copath_lone ::
  "nat \<Rightarrow> nat \<Rightarrow> nat list \<Rightarrow> nat list \<Rightarrow> (nat list \<times> nat list) or_panic" where
  "copath_lone n a out next_level =
     try_bind (if next_level = [] then Inr False
               else try_bind (log_parent a n) (\<lambda>p. Inr (level (hd next_level) < level p)))
       (\<lambda>keep.
         if keep then Inr (out, next_level @ [a])
         else try_bind (sibling a n) (\<lambda>s. try_bind (log_parent a n) (\<lambda>p.
           Inr (out @ [s], next_level @ [p]))))"

definition copath_level :: "nat \<Rightarrow> nat list \<Rightarrow> nat list \<Rightarrow> (nat list \<times> nat list) or_panic" where
  "copath_level n nodes out =
     try_bind (copath_pairs n nodes out []) (\<lambda>(rest, out, next_level).
       case rest of
         [a] \<Rightarrow> copath_lone n a out next_level
       | _ \<Rightarrow> Inr (out, next_level))"

text \<open>The outer loop; with no node at all it would not end, which is the value \<open>None\<close>.\<close>

partial_function (option) copath_loop :: "nat \<Rightarrow> nat \<Rightarrow> nat list \<Rightarrow> nat list \<Rightarrow> nat list or_panic option" where
  "copath_loop n r nodes out =
     (if nodes = [r] then Some (Inr out)
      else case copath_level n nodes out of
        Inl m \<Rightarrow> Some (Inl m)
      | Inr (out', next_level) \<Rightarrow> copath_loop n r next_level out')"

definition batch_copath :: "nat list \<Rightarrow> nat \<Rightarrow> nat list or_panic option" where
  "batch_copath leaves n =
     (if \<exists>x \<in> set leaves. 2 ^ 63 \<le> x then Some (Inl ''attempt to multiply with overflow'')
      else case log_root n of
        Inl m \<Rightarrow> Some (Inl m)
      | Inr r \<Rightarrow> map_option (\<lambda>res. try_bind res (\<lambda>out. Inr (sort out)))
          (copath_loop n r (sort (map (\<lambda>x. 2 * x) leaves)) []))"

section \<open>The root calculator\<close>

datatype LogError =
    EmptyChain | MalformedChain | InvalidInput string | LogMalformedProof
  | ProofMismatch string | Unexpected string

record NodeData =
  nd_interior :: bool
  nd_value :: bytes

definition NodeData_marshal :: "NodeData \<Rightarrow> bytes" where
  "NodeData_marshal nd = (if nd_interior nd then 1 else 0) # nd_value nd"

definition tree_hash :: "(bytes \<Rightarrow> bytes) \<Rightarrow> NodeData \<Rightarrow> NodeData \<Rightarrow> NodeData" where
  "tree_hash H l r =
     \<lparr>nd_interior = True, nd_value = H (NodeData_marshal l @ NodeData_marshal r)\<rparr>"

type_synonym SimpleRootCalculator = "NodeData option list"

definition SimpleRootCalculator_new :: SimpleRootCalculator where
  "SimpleRootCalculator_new = []"

text \<open>The carry loop of \<open>insert\<close> and the store at the place it stops.\<close>

function calc_carry ::
  "(bytes \<Rightarrow> bytes) \<Rightarrow> nat \<Rightarrow> NodeData \<Rightarrow> SimpleRootCalculator \<Rightarrow> SimpleRootCalculator" where
  "calc_carry H i acc chain =
     (case (if i < length chain then chain ! i else None) of
        Some nd \<Rightarrow> calc_carry H (i + 1) (tree_hash H nd acc) (chain[i := None])
      | None \<Rightarrow> if i = length chain then chain @ [Some acc] else chain[i := Some acc])"
  by pat_completeness auto
termination
  by (relation "measure (\<lambda>(_, i, _, chain). length chain - i)") (auto split: if_splits)

declare calc_carry.simps [simp del]

definition calc_insert ::
  "(bytes \<Rightarrow> bytes) \<Rightarrow> nat \<Rightarrow> bytes \<Rightarrow> SimpleRootCalculator \<Rightarrow> SimpleRootCalculator" where
  "calc_insert H lev v chain =
     calc_carry H lev \<lparr>nd_interior = (lev \<noteq> 0), nd_value = v\<rparr>
       (chain @ replicate (lev + 1 - length chain) None)"

definition calc_fold :: "(bytes \<Rightarrow> bytes) \<Rightarrow> SimpleRootCalculator \<Rightarrow> NodeData \<Rightarrow> NodeData" where
  "calc_fold H chain acc =
     foldl (\<lambda>acc nd. case nd of Some nd \<Rightarrow> tree_hash H nd acc | None \<Rightarrow> acc) acc chain"

definition calc_root :: "(bytes \<Rightarrow> bytes) \<Rightarrow> SimpleRootCalculator \<Rightarrow> (LogError, bytes) rresult" where
  "calc_root H chain =
     (if chain = [] then Inl (Err EmptyChain)
      else case position (\<lambda>nd. nd \<noteq> None) chain of
        None \<Rightarrow> Inl (Err MalformedChain)
      | Some i \<Rightarrow> Inr (nd_value (calc_fold H (drop (i + 1) chain) (the (chain ! i)))))"

section \<open>Proofs\<close>

text \<open>The three insertion loops of \<open>evaluate_batch_proof\<close>, over pairs of index and hash.\<close>

fun insert_merged ::
  "(bytes \<Rightarrow> bytes) \<Rightarrow> (nat \<times> bytes) list \<Rightarrow> (nat \<times> bytes) list \<Rightarrow> SimpleRootCalculator
   \<Rightarrow> SimpleRootCalculator" where
  "insert_merged H ((x, v) # xs) ((y, h) # ys) chain =
     (if 2 * x < y then insert_merged H xs ((y, h) # ys) (calc_insert H 0 v chain)
      else insert_merged H ((x, v) # xs) ys (calc_insert H (level y) h chain))"
| "insert_merged H ((x, v) # xs) [] chain = insert_merged H xs [] (calc_insert H 0 v chain)"
| "insert_merged H [] ((y, h) # ys) chain = insert_merged H [] ys (calc_insert H (level y) h chain)"
| "insert_merged H [] [] chain = chain"

definition evaluate_batch_proof ::
  "(bytes \<Rightarrow> bytes) \<Rightarrow> nat list \<Rightarrow> nat \<Rightarrow> bytes list \<Rightarrow> bytes list \<Rightarrow> (LogError, bytes) rresult option" where
  "evaluate_batch_proof H x n vals pf =
     (if length x \<noteq> length vals
      then Some (Inl (Err (InvalidInput ''expected same number of indices and values'')))
      else if \<not> sorted_wrt (<) x
      then Some (Inl (Err (InvalidInput ''input entries must be in sorted order'')))
      else if x = []
      then Some (Inl (Err (InvalidInput ''can not evaluate empty batch inclusion proof'')))
      else if n \<le> last x
      then Some (Inl (Err (InvalidInput ''leaf ids can not be larger than tree size'')))
      else map_option (\<lambda>res. try_bind (panicking res) (\<lambda>copath.
          if length pf \<noteq> length copath then Inl (Err LogMalformedProof)
          else calc_root H (insert_merged H (zip x vals) (zip copath pf) SimpleRootCalculator_new)))
        (batch_copath x n))"

fun insert_path ::
  "(bytes \<Rightarrow> bytes) \<Rightarrow> nat list \<Rightarrow> nat list \<Rightarrow> bytes list \<Rightarrow> nat \<Rightarrow> SimpleRootCalculator
   \<Rightarrow> (LogError, nat \<times> SimpleRootCalculator) rresult" where
  "insert_path H [] ids pf i chain = Inr (i, chain)"
| "insert_path H (e # path) ids pf i chain =
     (if length ids \<le> i then Inl (Panic ''index out of bounds'')
      else if ids ! i \<noteq> e then Inl (Err (Unexpected ''id does not match path''))
      else insert_path H path ids pf (i + 1) (calc_insert H (level e) (pf ! i) chain))"

definition insert_all ::
  "(bytes \<Rightarrow> bytes) \<Rightarrow> (nat \<times> bytes) list \<Rightarrow> SimpleRootCalculator \<Rightarrow> SimpleRootCalculator" where
  "insert_all H ps chain = foldl (\<lambda>chain (y, h). calc_insert H (level y) h chain) chain ps"

definition verify_consistency_proof ::
  "(bytes \<Rightarrow> bytes) \<Rightarrow> nat \<Rightarrow> nat \<Rightarrow> bytes list \<Rightarrow> bytes \<Rightarrow> bytes \<Rightarrow> (LogError, unit) rresult" where
  "verify_consistency_proof H m n pf m_root n_root =
     (if m = 0 \<or> n \<le> m then Inl (Err (InvalidInput ''m must be within [0, n)''))
      else try_bind (panicking (consistency_proof m n)) (\<lambda>ids.
        if length pf \<noteq> length ids then Inl (Err LogMalformedProof)
        else try_bind (panicking (log_root m)) (\<lambda>r.
          try_bind (panicking (full_subtrees r m)) (\<lambda>path.
            try_bind
              (if length path = 1
               then Inr (0, calc_insert H (level r) m_root SimpleRootCalculator_new)
               else try_bind (insert_path H path ids pf 0 SimpleRootCalculator_new) (\<lambda>(i, chain).
                 try_bind (calc_root H chain) (\<lambda>root.
                   if m_root \<noteq> root
                   then Inl (Err (ProofMismatch ''first root does not match proof''))
                   else Inr (i, chain))))
              (\<lambda>(i, chain).
                try_bind (calc_root H (insert_all H (drop i (zip ids pf)) chain)) (\<lambda>root.
                  if n_root = root then Inr ()
                  else Inl (Err (ProofMismatch ''second root does not match proof''))))))))"

end
