(* ===== verification/Prefix_Tree.thy ===== *)
theory Prefix_Tree
  imports Signal_Prelude
begin

unbundle bit_operations_syntax

text \<open>
  What one log entry of the key transparency log commits to: \<^verbatim>\<open>rust/keytrans/src/prefix.rs\<close>, the
  proof that the prefix tree of the entry maps a key to a version counter and a first position, and
  \<^verbatim>\<open>rust/keytrans/src/commitments.rs\<close>, the commitment to the value. SHA-256 is the parameter \<open>H\<close>
  and HMAC-SHA256 the parameter \<open>HM\<close>; a \<open>[u8; 32]\<close> is a byte list of length 32. The lemmas show that a
  proof evaluates to the root of the prefix tree it was made from, and that roots and commitments
  bind what they stand for, up to collisions.
\<close>

section \<open>Big-endian integers\<close>

fun be_bytes :: "nat \<Rightarrow> nat \<Rightarrow> bytes" where
  "be_bytes 0 v = []"
| "be_bytes (Suc k) v = be_bytes k (v div 256) @ [word_of_nat (v mod 256)]"

lemma length_be_bytes [simp]: "length (be_bytes k v) = k"
  by (induction k arbitrary: v) simp_all

lemma byte_of_nat_inject: "x < 256 \<Longrightarrow> y < 256 \<Longrightarrow> (word_of_nat x :: byte) = word_of_nat y \<longleftrightarrow> x = y"
  by (simp add: word_of_nat_eq_iff take_bit_eq_mod)

lemma be_bytes_inject: "v < 256 ^ k \<Longrightarrow> w < 256 ^ k \<Longrightarrow> be_bytes k v = be_bytes k w \<longleftrightarrow> v = w"
proof (induction k arbitrary: v w)
  case (Suc k)
  have "v div 256 < 256 ^ k" "w div 256 < 256 ^ k" using Suc.prems by (simp_all add: less_mult_imp_div_less mult.commute)
  with Suc.IH have "be_bytes (Suc k) v = be_bytes (Suc k) w \<longleftrightarrow> v div 256 = w div 256 \<and> v mod 256 = w mod 256"
    by (simp add: byte_of_nat_inject)
  then show ?case by (metis div_mult_mod_eq)
qed simp

section \<open>The prefix tree\<close>

datatype MalformedProof = MalformedProof

record PrefixProof =
  pp_proof :: "bytes list"
  pp_counter :: u32

definition KEY_LENGTH :: nat where "KEY_LENGTH = 32"

definition prefix_leaf_hash :: "(bytes \<Rightarrow> bytes) \<Rightarrow> bytes \<Rightarrow> u32 \<Rightarrow> nat \<Rightarrow> bytes" where
  "prefix_leaf_hash H key ctr pos = H ([0] @ key @ be_bytes 4 (unat ctr) @ be_bytes 8 pos)"

definition prefix_parent_hash :: "(bytes \<Rightarrow> bytes) \<Rightarrow> bytes \<Rightarrow> bytes \<Rightarrow> bytes" where
  "prefix_parent_hash H l r = H ([1] @ l @ r)"

text \<open>The loop: \<open>i\<close> is the index of the first element of the rest of the proof.\<close>

fun prefix_fold :: "(bytes \<Rightarrow> bytes) \<Rightarrow> bytes \<Rightarrow> nat \<Rightarrow> nat \<Rightarrow> bytes \<Rightarrow> bytes list \<Rightarrow> (MalformedProof, bytes) rresult" where
  "prefix_fold H key len i v [] = Inr v"
| "prefix_fold H key len i v (s # rest) =
     (if length s \<noteq> 32 then Inl (Err MalformedProof)
      else let n = len - i - 1; b = (key ! (n div 8)) AND push_bit (7 - n mod 8) 1 in
        prefix_fold H key len (i + 1) (if b = 0 then prefix_parent_hash H v s else prefix_parent_hash H s v) rest)"

definition prefix_evaluate_proof ::
    "(bytes \<Rightarrow> bytes) \<Rightarrow> bytes \<Rightarrow> bytes \<Rightarrow> bytes list \<Rightarrow> (MalformedProof, bytes) rresult" where
  "prefix_evaluate_proof H key v pf =
     (if length pf \<noteq> 8 * KEY_LENGTH then Inl (Err MalformedProof) else prefix_fold H key (length pf) 0 v pf)"

definition prefix_evaluate :: "(bytes \<Rightarrow> bytes) \<Rightarrow> bytes \<Rightarrow> nat \<Rightarrow> PrefixProof \<Rightarrow> (MalformedProof, bytes) rresult" where
  "prefix_evaluate H key pos res =
     prefix_evaluate_proof H key (prefix_leaf_hash H key (pp_counter res) pos) (pp_proof res)"

section \<open>Commitments\<close>

definition FIXED_KEY :: bytes where
  "FIXED_KEY = [0xd8, 0x21, 0xf8, 0x79, 0xd, 0x97, 0x70, 0x97, 0x96, 0xb4, 0xd7, 0x90, 0x33, 0x57, 0xc3, 0xf5]"

definition commit :: "(bytes \<Rightarrow> bytes \<Rightarrow> bytes) \<Rightarrow> bytes \<Rightarrow> bytes \<Rightarrow> bytes \<Rightarrow> ('e, bytes) rresult" where
  "commit HM search_key d nonce =
     (if 2 ^ 16 \<le> length search_key then Inl (Panic ''search key too large'')
      else if 2 ^ 32 \<le> length d then Inl (Panic ''data too large'')
      else Inr (HM FIXED_KEY
        (nonce @ be_bytes 2 (length search_key) @ search_key @ be_bytes 4 (length d) @ d)))"

definition verify_commitment ::
    "(bytes \<Rightarrow> bytes \<Rightarrow> bytes) \<Rightarrow> bytes \<Rightarrow> bytes \<Rightarrow> bytes \<Rightarrow> bytes \<Rightarrow> ('e, bool) rresult" where
  "verify_commitment HM search_key commitment d nonce =
     try_bind (commit HM search_key d nonce) (\<lambda>c. Inr (c = commitment))"

section \<open>The tree a proof belongs to\<close>

text \<open>A perfect binary tree; a key is the path of its bits, most significant first.\<close>

datatype ptree = PLeaf bytes | PNode ptree ptree

fun ptree_root :: "(bytes \<Rightarrow> bytes) \<Rightarrow> ptree \<Rightarrow> bytes" where
  "ptree_root H (PLeaf v) = v"
| "ptree_root H (PNode l r) = prefix_parent_hash H (ptree_root H l) (ptree_root H r)"

fun ptree_depth :: "nat \<Rightarrow> ptree \<Rightarrow> bool" where
  "ptree_depth d (PLeaf v) \<longleftrightarrow> d = 0"
| "ptree_depth d (PNode l r) \<longleftrightarrow> (\<exists>d'. d = Suc d' \<and> ptree_depth d' l \<and> ptree_depth d' r)"

fun ptree_lookup :: "bool list \<Rightarrow> ptree \<Rightarrow> bytes" where
  "ptree_lookup (b # bs) (PNode l r) = ptree_lookup bs (if b then r else l)"
| "ptree_lookup bs (PLeaf v) = v"
| "ptree_lookup [] (PNode l r) = []"

text \<open>The siblings of a path, from the leaf up.\<close>

fun ptree_copath :: "(bytes \<Rightarrow> bytes) \<Rightarrow> bool list \<Rightarrow> ptree \<Rightarrow> bytes list" where
  "ptree_copath H (b # bs) (PNode l r) =
     ptree_copath H bs (if b then r else l) @ [ptree_root H (if b then l else r)]"
| "ptree_copath H _ _ = []"

definition key_bits :: "bytes \<Rightarrow> bool list" where
  "key_bits key = map (\<lambda>n. bit (key ! (n div 8)) (7 - n mod 8)) [0..<8 * KEY_LENGTH]"

lemma length_key_bits [simp]: "length (key_bits key) = 256"
  by (simp add: key_bits_def KEY_LENGTH_def)

lemma key_bits_nth:
  "n < 256 \<Longrightarrow> key_bits key ! n \<longleftrightarrow> (key ! (n div 8)) AND 2 ^ (7 - n mod 8) \<noteq> 0"
  by (simp add: key_bits_def KEY_LENGTH_def and_exp_eq_0_iff_not_bit)

text \<open>The loop from the leaf up is the recursion from the root down.\<close>

fun fold_bits :: "(bytes \<Rightarrow> bytes) \<Rightarrow> bool list \<Rightarrow> bytes \<Rightarrow> bytes list \<Rightarrow> bytes" where
  "fold_bits H (b # bs) v (s # rest) =
     fold_bits H bs (if b then prefix_parent_hash H s v else prefix_parent_hash H v s) rest"
| "fold_bits H _ v _ = v"

lemma prefix_fold_bits:
  assumes "i + length rest = 256"
  shows "prefix_fold H key 256 i v rest =
    (if \<forall>s \<in> set rest. length s = 32 then Inr (fold_bits H (drop i (rev (key_bits key))) v rest)
     else Inl (Err MalformedProof))"
  using assms
proof (induction rest arbitrary: i v)
  case (Cons s rest)
  have i: "i < 256" using Cons.prems by simp
  have d: "drop i (rev (key_bits key)) = key_bits key ! (255 - i) # drop (Suc i) (rev (key_bits key))"
    using i by (simp add: Cons_nth_drop_Suc [symmetric] rev_nth)
  have n: "255 - i < 256" using i by simp
  show ?case
    using Cons.IH [of "Suc i"] Cons.prems by (simp add: d key_bits_nth [OF n] Let_def)
qed simp

lemma prefix_evaluate_bits:
  "prefix_evaluate_proof H key v pf = Inr r \<longleftrightarrow> length pf = 256 \<and> (\<forall>s \<in> set pf. length s = 32)
    \<and> r = fold_bits H (rev (key_bits key)) v pf"
  using prefix_fold_bits [of 0 pf H key v] by (auto simp: prefix_evaluate_proof_def KEY_LENGTH_def)

lemma fold_bits_append:
  "length bs = length ss \<Longrightarrow> fold_bits H (bs @ bs') v (ss @ ss') = fold_bits H bs' (fold_bits H bs v ss) ss'"
  by (induction bs ss arbitrary: v rule: list_induct2) simp_all

lemma length_ptree_copath: "ptree_depth (length bs) t \<Longrightarrow> length (ptree_copath H bs t) = length bs"
  by (induction H bs t rule: ptree_copath.induct) auto

lemma fold_bits_copath:
  "ptree_depth (length bs) t \<Longrightarrow> fold_bits H (rev bs) (ptree_lookup bs t) (ptree_copath H bs t) = ptree_root H t"
proof (induction bs arbitrary: t)
  case Nil
  then show ?case by (cases t) simp_all
next
  case (Cons b bs)
  then obtain l r where t: "t = PNode l r" by (cases t) simp_all
  have "length (rev bs) = length (ptree_copath H bs (if b then r else l))"
    using Cons.prems t by (simp add: length_ptree_copath)
  from fold_bits_append [OF this] Cons t show ?case by simp
qed

section \<open>What roots and commitments bind\<close>

text \<open>The strings hashed on the way up, and when a whole proof is evaluated.\<close>

fun path_inputs :: "(bytes \<Rightarrow> bytes) \<Rightarrow> bool list \<Rightarrow> bytes \<Rightarrow> bytes list \<Rightarrow> bytes set" where
  "path_inputs H (b # bs) v (s # rest) =
     insert ([1] @ (if b then s @ v else v @ s))
       (path_inputs H bs (if b then prefix_parent_hash H s v else prefix_parent_hash H v s) rest)"
| "path_inputs H _ v _ = {}"

definition prefix_inputs :: "(bytes \<Rightarrow> bytes) \<Rightarrow> bytes \<Rightarrow> nat \<Rightarrow> PrefixProof \<Rightarrow> bytes set" where
  "prefix_inputs H key pos res =
     insert ([0] @ key @ be_bytes 4 (unat (pp_counter res)) @ be_bytes 8 pos)
       (path_inputs H (rev (key_bits key)) (prefix_leaf_hash H key (pp_counter res) pos) (pp_proof res))"

definition collision_in :: "('a \<Rightarrow> 'b) \<Rightarrow> 'a set \<Rightarrow> bool" where
  "collision_in h A \<longleftrightarrow> (\<exists>x \<in> A. \<exists>y \<in> A. x \<noteq> y \<and> h x = h y)"

lemma collision_inI: "h x = h y \<Longrightarrow> x \<in> A \<Longrightarrow> y \<in> A \<Longrightarrow> \<not> collision_in h A \<Longrightarrow> x = y"
  by (auto simp: collision_in_def)

lemma fold_bits_inject:
  assumes H: "\<And>x. length (H x) = 32"
    and "length ss = length bs" "length ss' = length bs"
    and "\<forall>s \<in> set ss. length s = 32" "\<forall>s \<in> set ss'. length s = 32" "length v = 32" "length v' = 32"
    and "fold_bits H bs v ss = fold_bits H bs v' ss'"
    and "path_inputs H bs v ss \<union> path_inputs H bs v' ss' \<subseteq> A" "\<not> collision_in H A"
  shows "v = v' \<and> ss = ss'"
  using assms(2-)
proof (induction bs arbitrary: v v' ss ss')
  case (Cons b bs)
  obtain s r s' r' where ss: "ss = s # r" "ss' = s' # r'" using Cons.prems(1,2) by (metis length_Suc_conv)
  let ?n = "\<lambda>v s. if b then prefix_parent_hash H s v else prefix_parent_hash H v s"
  have "?n v s = ?n v' s' \<and> r = r'"
    using Cons.prems by (intro Cons.IH) (simp_all add: ss prefix_parent_hash_def H)
  moreover from this have "H ([1] @ (if b then s @ v else v @ s)) = H ([1] @ (if b then s' @ v' else v' @ s'))"
    by (simp add: prefix_parent_hash_def split: if_splits)
  then have "[1] @ (if b then s @ v else v @ s) = [1] @ (if b then s' @ v' else v' @ s')"
    by (rule collision_inI [where A = A]) (use Cons.prems ss in simp_all)
  then have "v = v' \<and> s = s'" using Cons.prems by (simp add: ss split: if_splits)
  ultimately show ?case by (simp add: ss)
qed simp

lemma unat_be_bytes_inject: "be_bytes 4 (unat (v :: u32)) = be_bytes 4 (unat w) \<longleftrightarrow> v = w"
  using be_bytes_inject [of "unat v" 4 "unat w"] by (simp add: word_unat_eq_iff)

text \<open>C34: The root of a prefix tree binds a key to one version counter and one first position: two proofs
  for the same key that evaluate to the same root are the same proof of the same counter and position,
  unless two different strings hashed in evaluating them have the same SHA-256 hash.\<close>

theorem prefix_proof_binding:
  assumes H: "\<And>x. length (H x) = 32" and "length key = 32" "pos < 2 ^ 64" "pos' < 2 ^ 64"
    and "prefix_evaluate H key pos res = Inr r" "prefix_evaluate H key pos' res' = Inr r"
  shows "pos = pos' \<and> res = res' \<or> collision_in H (prefix_inputs H key pos res \<union> prefix_inputs H key pos' res')"
proof (rule disjCI)
  let ?A = "prefix_inputs H key pos res \<union> prefix_inputs H key pos' res'"
  let ?l = "\<lambda>res pos. prefix_leaf_hash H key (pp_counter res) pos" and ?bs = "rev (key_bits key)"
  assume nc: "\<not> collision_in H ?A"
  have pf: "length (pp_proof res) = 256" "\<forall>s \<in> set (pp_proof res). length s = 32" "r = fold_bits H ?bs (?l res pos) (pp_proof res)"
    "length (pp_proof res') = 256" "\<forall>s \<in> set (pp_proof res'). length s = 32" "r = fold_bits H ?bs (?l res' pos') (pp_proof res')"
    using assms(5,6) by (simp_all add: prefix_evaluate_def prefix_evaluate_bits)
  have l: "length (?l res pos) = 32" for res pos by (simp add: prefix_leaf_hash_def H)
  have n: "length (pp_proof res) = length ?bs" "length (pp_proof res') = length ?bs"
    using pf(1,4) by simp_all
  have sub: "path_inputs H ?bs (?l res pos) (pp_proof res) \<union> path_inputs H ?bs (?l res' pos') (pp_proof res') \<subseteq> ?A"
    by (auto simp: prefix_inputs_def)
  from fold_bits_inject [OF H n pf(2,5) l l trans [OF pf(3) [symmetric] pf(6)] sub nc]
  have eq: "?l res pos = ?l res' pos'" "pp_proof res = pp_proof res'" by simp_all
  let ?s = "\<lambda>res pos. [0] @ key @ be_bytes 4 (unat (pp_counter res)) @ be_bytes 8 pos"
  have "?s res pos \<in> ?A" "?s res' pos' \<in> ?A" by (simp_all only: prefix_inputs_def Un_insert_left insert_iff Un_iff simp_thms)
  from collision_inI [OF eq(1) [unfolded prefix_leaf_hash_def] this nc]
  have "pp_counter res = pp_counter res'" "pos = pos'"
    using assms(3,4) be_bytes_inject [of pos 8 pos'] by (simp_all add: unat_be_bytes_inject)
  with eq(2) show "pos = pos' \<and> res = res'" by (cases res, cases res') simp
qed

lemma fold_bits_const: "fold_bits (\<lambda>_. c) bs c ss = c"
  by (induction "\<lambda>_ :: bytes. c" bs c ss rule: fold_bits.induct) (simp_all add: prefix_parent_hash_def)

theorem prefix_proof_binding_witness:
  "\<exists>H r. prefix_evaluate H (replicate 32 7) 3 \<lparr>pp_proof = replicate 256 (replicate 32 0), pp_counter = 1\<rparr> = Inr r
    \<and> prefix_evaluate H (replicate 32 7) 3 \<lparr>pp_proof = replicate 256 (replicate 32 0), pp_counter = 2\<rparr> = Inr r
    \<and> collision_in H (prefix_inputs H (replicate 32 7) 3 \<lparr>pp_proof = replicate 256 (replicate 32 0), pp_counter = 1\<rparr>
        \<union> prefix_inputs H (replicate 32 7) 3 \<lparr>pp_proof = replicate 256 (replicate 32 0), pp_counter = 2\<rparr>)"
proof -
  let ?H = "\<lambda>_ :: bytes. replicate 32 0 :: bytes" and ?key = "replicate 32 7 :: bytes"
  let ?res = "\<lambda>c. \<lparr>pp_proof = replicate 256 (replicate 32 0), pp_counter = c\<rparr>"
  have ev: "prefix_evaluate ?H ?key 3 (?res c) = Inr (replicate 32 0)" for c
    unfolding prefix_evaluate_def prefix_evaluate_bits by (simp add: prefix_leaf_hash_def fold_bits_const)
  have sizes: "length (?H x) = 32" "length ?key = 32" "(3 :: nat) < 2 ^ 64" for x by simp_all
  have "?res 1 \<noteq> ?res 2" by simp
  with prefix_proof_binding [of ?H ?key 3 3, OF sizes sizes(3) ev ev, of 1 2]
  have "collision_in ?H (prefix_inputs ?H ?key 3 (?res 1) \<union> prefix_inputs ?H ?key 3 (?res 2))" by blast
  with ev [of 1] ev [of 2] show ?thesis by (intro exI conjI)
qed

lemma commit_Inr_iff:
  "commit HM k d n = Inr c \<longleftrightarrow> length k < 256 ^ 2 \<and> length d < 256 ^ 4 \<and>
    HM FIXED_KEY (n @ be_bytes 2 (length k) @ k @ be_bytes 4 (length d) @ d) = c"
  by (simp add: commit_def not_le)

text \<open>A commitment binds the search key, the value and the nonce: if two openings with nonces of 16 bytes
  give the same commitment they are the same, unless HMAC-SHA256 under the fixed key has a collision on
  the two strings.\<close>

theorem commit_binding:
  assumes "commit HM k d n = Inr c" "commit HM k' d' n' = Inr c" "length n = 16" "length n' = 16"
  shows "k = k' \<and> d = d' \<and> n = n' \<or> collision_in (HM FIXED_KEY)
    {n @ be_bytes 2 (length k) @ k @ be_bytes 4 (length d) @ d,
     n' @ be_bytes 2 (length k') @ k' @ be_bytes 4 (length d') @ d'}"
proof (rule disjCI)
  let ?s = "\<lambda>k d n. n @ be_bytes 2 (length k) @ k @ be_bytes 4 (length d) @ d"
  assume nc: "\<not> collision_in (HM FIXED_KEY) {?s k d n, ?s k' d' n'}"
  have len: "length k < 256 ^ 2" "length d < 256 ^ 4" "length k' < 256 ^ 2" "length d' < 256 ^ 4"
    and h: "HM FIXED_KEY (?s k d n) = c" "HM FIXED_KEY (?s k' d' n') = c"
    using assms(1,2) by (simp_all only: commit_Inr_iff)
  have eq: "?s k d n = ?s k' d' n'"
    by (rule collision_inI [OF trans [OF h(1) h(2) [symmetric]] _ _ nc]) simp_all
  then have n: "n = n'" "be_bytes 2 (length k) = be_bytes 2 (length k')" using assms(3,4) by simp_all
  then have "length k = length k'" using be_bytes_inject [OF len(1,3)] by simp
  with eq n(1) show "k = k' \<and> d = d' \<and> n = n'" by simp
qed

theorem commit_binding_witness:
  "\<exists>HM c :: bytes. commit HM [1] [2] (replicate 16 0) = (Inr c :: (unit, bytes) rresult)
    \<and> commit HM [1] [2, 3] (replicate 16 0) = (Inr c :: (unit, bytes) rresult)
    \<and> collision_in (HM FIXED_KEY)
        {replicate 16 0 @ be_bytes 2 1 @ [1] @ be_bytes 4 1 @ [2], replicate 16 0 @ be_bytes 2 1 @ [1] @ be_bytes 4 2 @ [2, 3]}"
proof -
  let ?HM = "\<lambda>_ _ :: bytes. [] :: bytes"
  have c: "commit ?HM [1] d (replicate 16 0) = (Inr [] :: (unit, bytes) rresult)" if "length d < 3" for d
    using that by (simp add: commit_def)
  have "commit ?HM [1] [2] (replicate 16 0) = (Inr [] :: (unit, bytes) rresult)"
    "commit ?HM [1] [2, 3] (replicate 16 0) = (Inr [] :: (unit, bytes) rresult)" by (rule c, simp)+
  moreover from commit_binding [OF this] have "collision_in (?HM FIXED_KEY)
        {replicate 16 0 @ be_bytes 2 1 @ [1] @ be_bytes 4 1 @ [2], replicate 16 0 @ be_bytes 2 1 @ [1] @ be_bytes 4 2 @ [2, 3]}"
    by (simp add: numeral_2_eq_2)
  ultimately show ?thesis by (intro exI conjI)
qed

end
