(* ===== verification/Vrf.thy ===== *)
theory Vrf
  imports Signal_Prelude
begin

text \<open>
  \<^verbatim>\<open>rust/keytrans/src/vrf.rs\<close>: checking a proof of the verifiable random function
  ECVRF-EDWARDS25519-SHA512-TAI and its output. Curve arithmetic and SHA-512 come from the
  \<open>curve25519_dalek\<close> and \<open>sha2\<close> crates and are the fields of a record: points are values of the type \<open>'p\<close>,
  scalars of the type \<open>'s\<close>.
\<close>

section \<open>The crates\<close>

record ('p, 's) EdOps =
  ed_sha512 :: "bytes \<Rightarrow> bytes"
  ed_decompress :: "bytes \<Rightarrow> 'p option"
  ed_compress :: "'p \<Rightarrow> bytes"
  ed_mul_by_cofactor :: "'p \<Rightarrow> 'p"
  ed_is_identity :: "'p \<Rightarrow> bool"
  ed_is_small_order :: "'p \<Rightarrow> bool"
  ed_from_canonical_bytes :: "bytes \<Rightarrow> 's option"
  ed_neg :: "'s \<Rightarrow> 's"
  ed_double_scalar_mul_basepoint :: "'s \<Rightarrow> 'p \<Rightarrow> 's \<Rightarrow> 'p"
  ed_multiscalar_mul :: "'s list \<Rightarrow> 'p list \<Rightarrow> 'p"

section \<open>The code\<close>

definition SUITE_ID :: byte where "SUITE_ID = 0x03"
definition DOMAIN_SEPARATOR_ENCODE :: byte where "DOMAIN_SEPARATOR_ENCODE = 0x01"
definition DOMAIN_SEPARATOR_CHALLENGE :: byte where "DOMAIN_SEPARATOR_CHALLENGE = 0x02"
definition DOMAIN_SEPARATOR_PROOF :: byte where "DOMAIN_SEPARATOR_PROOF = 0x03"
definition DOMAIN_SEPARATOR_BACK :: byte where "DOMAIN_SEPARATOR_BACK = 0x00"

datatype VrfError = InvalidCurvePoint | InvalidProof

record 'p VrfPublicKey =
  vrf_compressed :: bytes
  vrf_decompressed :: 'p

text \<open>\<open>first_chunk\<close> of a slice.\<close>

definition first_chunk :: "nat \<Rightarrow> bytes \<Rightarrow> bytes option" where
  "first_chunk n bs = (if n \<le> length bs then Some (take n bs) else None)"

text \<open>The loop over the counter byte; the list is the rest of the counters.\<close>

fun try_and_increment :: "('p, 's) EdOps \<Rightarrow> bytes \<Rightarrow> bytes \<Rightarrow> byte list \<Rightarrow> (VrfError, 'p) rresult" where
  "try_and_increment G salt d [] = Inl (Panic ''try and increment overflow'')"
| "try_and_increment G salt d (i # is) =
     try_bind (expect ''hash has enough bytes'' (first_chunk 32 (ed_sha512 G
         ([SUITE_ID, DOMAIN_SEPARATOR_ENCODE] @ salt @ d @ [i, DOMAIN_SEPARATOR_BACK])))) (\<lambda>r.
       case ed_decompress G r of
         None \<Rightarrow> try_and_increment G salt d is
       | Some pt \<Rightarrow> let maybe_res = ed_mul_by_cofactor G pt in
           if \<not> ed_is_identity G maybe_res then Inr maybe_res else try_and_increment G salt d is)"

definition encode_to_curve_try_and_increment :: "('p, 's) EdOps \<Rightarrow> bytes \<Rightarrow> bytes \<Rightarrow> (VrfError, 'p) rresult" where
  "encode_to_curve_try_and_increment G salt d = try_and_increment G salt d (map word_of_nat [0..<256])"

definition generate_challenge :: "('p, 's) EdOps \<Rightarrow> bytes list \<Rightarrow> (VrfError, bytes) rresult" where
  "generate_challenge G pts = expect ''hash has enough bytes'' (first_chunk 16 (ed_sha512 G
     ([SUITE_ID, DOMAIN_SEPARATOR_CHALLENGE] @ concat pts @ [DOMAIN_SEPARATOR_BACK])))"

definition gamma_to_hash :: "('p, 's) EdOps \<Rightarrow> 'p \<Rightarrow> (VrfError, bytes) rresult" where
  "gamma_to_hash G gamma = expect ''hash has enough bytes'' (first_chunk 32 (ed_sha512 G
     ([SUITE_ID, DOMAIN_SEPARATOR_PROOF] @ ed_compress G (ed_mul_by_cofactor G gamma) @ [DOMAIN_SEPARATOR_BACK])))"

definition VrfPublicKey_try_from :: "('p, 's) EdOps \<Rightarrow> bytes \<Rightarrow> (VrfError, 'p VrfPublicKey) rresult" where
  "VrfPublicKey_try_from G public_key =
     (case ed_decompress G public_key of
        None \<Rightarrow> Inl (Err InvalidCurvePoint)
      | Some pt \<Rightarrow> if ed_is_small_order G pt then Inl (Err InvalidCurvePoint)
          else Inr \<lparr>vrf_compressed = public_key, vrf_decompressed = pt\<rparr>)"

text \<open>The proof has 80 bytes: the point gamma, the lower half of the challenge and the scalar.\<close>

definition proof_to_hash :: "('p, 's) EdOps \<Rightarrow> 'p VrfPublicKey \<Rightarrow> bytes \<Rightarrow> bytes \<Rightarrow> (VrfError, bytes) rresult" where
  "proof_to_hash G pk m pf =
     (let gamma_bytes = take 32 pf; c_lower_bytes = take 16 (drop 32 pf); s_bytes = drop 48 pf in
      try_bind (ok_or InvalidProof (ed_decompress G gamma_bytes)) (\<lambda>gamma.
      try_bind (ok_or InvalidProof (ed_from_canonical_bytes G (c_lower_bytes @ replicate 16 0))) (\<lambda>c0. let c = ed_neg G c0 in
      try_bind (ok_or InvalidProof (ed_from_canonical_bytes G s_bytes)) (\<lambda>s.
      try_bind (encode_to_curve_try_and_increment G (vrf_compressed pk) m) (\<lambda>h.
      let u = ed_double_scalar_mul_basepoint G c (vrf_decompressed pk) s;
          v = ed_multiscalar_mul G [s, c] [h, gamma] in
      try_bind (generate_challenge G
          [vrf_compressed pk, ed_compress G h, gamma_bytes, ed_compress G u, ed_compress G v]) (\<lambda>c_prime.
        if c_lower_bytes \<noteq> c_prime then Inl (Err InvalidProof) else gamma_to_hash G gamma))))))"

section \<open>Where it can panic\<close>

text \<open>The hash function has its documented output size, and hashing to the curve finds a point.\<close>

definition vrf_sound :: "('p, 's) EdOps \<Rightarrow> bytes \<Rightarrow> bytes \<Rightarrow> bool" where
  "vrf_sound G salt d \<longleftrightarrow> (\<forall>x. length (ed_sha512 G x) = 64)
     \<and> (\<exists>i < 256. \<exists>pt. ed_decompress G (take 32 (ed_sha512 G
          ([SUITE_ID, DOMAIN_SEPARATOR_ENCODE] @ salt @ d @ [word_of_nat i, DOMAIN_SEPARATOR_BACK]))) = Some pt
        \<and> \<not> ed_is_identity G (ed_mul_by_cofactor G pt))"

lemma first_chunk_Some: "n \<le> length bs \<Longrightarrow> first_chunk n bs = Some (take n bs)"
  by (simp add: first_chunk_def)

lemma try_and_increment_finds:
  assumes "\<And>x. length (ed_sha512 G x) = 64" and "i \<in> set is"
    and "ed_decompress G (take 32 (ed_sha512 G
      ([SUITE_ID, DOMAIN_SEPARATOR_ENCODE] @ salt @ d @ [i, DOMAIN_SEPARATOR_BACK]))) = Some pt"
      "\<not> ed_is_identity G (ed_mul_by_cofactor G pt)"
  shows "\<exists>h. try_and_increment G salt d is = Inr h \<and> \<not> ed_is_identity G h"
  using assms(2)
proof (induction "is")
  case (Cons j js)
  with assms(1,3,4) show ?case
    by (auto simp: first_chunk_Some Let_def split: option.split)
qed simp

lemma encode_to_curve_ok:
  assumes "vrf_sound G salt d"
  shows "\<exists>h. encode_to_curve_try_and_increment G salt d = Inr h \<and> \<not> ed_is_identity G h"
proof -
  from assms obtain i pt where i: "i < 256" "ed_decompress G (take 32 (ed_sha512 G
      ([SUITE_ID, DOMAIN_SEPARATOR_ENCODE] @ salt @ d @ [word_of_nat i, DOMAIN_SEPARATOR_BACK]))) = Some pt"
    "\<not> ed_is_identity G (ed_mul_by_cofactor G pt)" and len: "\<And>x. length (ed_sha512 G x) = 64"
    unfolding vrf_sound_def by blast
  have "word_of_nat i \<in> set (map word_of_nat [0..<256] :: byte list)" using i(1) by auto
  from try_and_increment_finds [OF len this i(2,3)] show ?thesis
    by (simp only: encode_to_curve_try_and_increment_def)
qed

lemma proof_to_hash_no_panic:
  assumes "vrf_sound G (vrf_compressed pk) m"
  shows "\<not> is_panic (proof_to_hash G pk m pf)"
proof -
  have len: "\<And>x. length (ed_sha512 G x) = 64" using assms by (simp add: vrf_sound_def)
  from encode_to_curve_ok [OF assms] obtain h where
    "encode_to_curve_try_and_increment G (vrf_compressed pk) m = Inr h" by blast
  then show ?thesis
    by (simp add: proof_to_hash_def Let_def is_panic_try_bind generate_challenge_def gamma_to_hash_def first_chunk_Some len)
qed

lemma proof_to_hash_length:
  "proof_to_hash G pk m pf = Inr index \<Longrightarrow> length index = 32"
  by (auto simp: proof_to_hash_def Let_def res_simps gamma_to_hash_def first_chunk_def split: if_splits)

end
