(* ===== verification/Kt_Types.thy ===== *)
theory Kt_Types
  imports Guided_Search Merkle_Log Prefix_Tree Vrf "HOL-Library.AList"
begin

text \<open>
  The client side of key transparency: the types of \<^verbatim>\<open>rust/keytrans/src/lib.rs\<close>, with the tree
  heads and their signatures. The messages of \<^verbatim>\<open>wire.proto\<close> and
  \<^verbatim>\<open>store.proto\<close> are records with their fields. A \<open>u64\<close> is a natural number, a \<open>HashMap\<close> is the
  association list of its entries in the order its iteration yields them, and the system time is
  the number of milliseconds since the epoch, negative before it. The checks of \<open>debug_assert\<close> are
  left out, as in a release build. SHA-256, HMAC, Ed25519 and the curve are the fields of a record.
\<close>

section \<open>Parameters\<close>

record ('p, 's) KtExt =
  kt_sha256 :: "bytes \<Rightarrow> bytes"
  kt_hmac_sha256 :: "bytes \<Rightarrow> bytes \<Rightarrow> bytes"
  kt_signature_from_slice :: "bytes \<Rightarrow> bytes option"
  kt_ed25519_verify :: "bytes \<Rightarrow> bytes \<Rightarrow> bytes \<Rightarrow> bool"
  kt_ed :: "('p, 's) EdOps"

section \<open>Messages\<close>

record AuditorTreeHead =
  ath_tree_size :: nat
  ath_timestamp :: int
  ath_signature :: bytes

record KtSignature =
  sig_auditor_public_key :: bytes
  sig_signature :: bytes

record TreeHead =
  th_tree_size :: nat
  th_timestamp :: int
  th_signatures :: "KtSignature list"

record FullAuditorTreeHead =
  fath_tree_head :: "AuditorTreeHead option"
  fath_root_value :: "bytes option"
  fath_consistency :: "bytes list"
  fath_public_key :: bytes

record FullTreeHead =
  fth_tree_head :: "TreeHead option"
  fth_last :: "bytes list"
  fth_distinguished :: "bytes list"
  fth_full_auditor_tree_heads :: "FullAuditorTreeHead list"

record ProofStep =
  ps_prefix :: "PrefixProof option"
  ps_commitment :: bytes

record SearchProof =
  sp_pos :: nat
  sp_steps :: "ProofStep list"
  sp_inclusion :: "bytes list"

record CondensedTreeSearchResponse =
  ctsr_vrf_proof :: bytes
  ctsr_search :: "SearchProof option"
  ctsr_opening :: bytes
  ctsr_value :: "bytes option"

record Consistency =
  con_last :: "nat option"
  con_distinguished :: "nat option"

record MonitorKey =
  mk_search_key :: bytes
  mk_entry_position :: nat
  mk_commitment_index :: bytes

record MonitorRequest =
  mreq_keys :: "MonitorKey list"
  mreq_consistency :: "Consistency option"

record MonitorProof =
  mp_steps :: "ProofStep list"

record MonitorResponse =
  mres_tree_head :: "FullTreeHead option"
  mres_proofs :: "MonitorProof list"
  mres_inclusion :: "bytes list"

record StoredTreeHead =
  sth_tree_head :: "TreeHead option"
  sth_root :: bytes
  sth_stored_at_ms :: nat

record StoredMonitoringData =
  smd_index :: bytes
  smd_pos :: nat
  smd_ptrs :: "(nat \<times> u32) list"
  smd_owned :: bool
  smd_search_key :: bytes
  smd_max_observed_version :: u32

record StoredAccountData =
  sad_aci :: "StoredMonitoringData option"
  sad_e164 :: "StoredMonitoringData option"
  sad_username_hash :: "StoredMonitoringData option"
  sad_last_tree_head :: "StoredTreeHead option"

section \<open>The types of the library\<close>

datatype DeploymentMode =
    ContactMonitoring
  | ThirdPartyManagement "bytes list"
  | ThirdPartyAuditing "bytes list"

definition DeploymentMode_byte :: "DeploymentMode \<Rightarrow> byte" where
  "DeploymentMode_byte m = (case m of ContactMonitoring \<Rightarrow> 1 | ThirdPartyManagement _ \<Rightarrow> 2 | ThirdPartyAuditing _ \<Rightarrow> 3)"

definition has_associated_keys :: "DeploymentMode \<Rightarrow> bool" where
  "has_associated_keys m = (case m of ContactMonitoring \<Rightarrow> False | ThirdPartyManagement _ \<Rightarrow> True | ThirdPartyAuditing _ \<Rightarrow> True)"

definition get_associated_keys :: "DeploymentMode \<Rightarrow> bytes list" where
  "get_associated_keys m = (case m of ContactMonitoring \<Rightarrow> [] | ThirdPartyManagement keys \<Rightarrow> keys | ThirdPartyAuditing keys \<Rightarrow> keys)"

datatype LastTreeHead = LastTreeHead (lth_head: TreeHead) (lth_root: bytes)

record MonitoringData =
  md_index :: bytes
  md_pos :: nat
  md_ptrs :: "(nat \<times> u32) list"
  md_owned :: bool
  md_search_key :: bytes
  md_max_observed_version :: u32

record SearchContext =
  sc_last_tree_head :: "LastTreeHead option"
  sc_last_distinguished_tree_head :: "LastTreeHead option"
  sc_data :: "MonitoringData option"

record MonitorContext =
  mc_last_tree_head :: "LastTreeHead option"
  mc_last_distinguished_tree_head :: LastTreeHead
  mc_data :: "(bytes \<times> MonitoringData) list"

record 't LocalStateUpdate =
  lsu_tree_head :: TreeHead
  lsu_tree_root :: bytes
  lsu_monitoring_data :: 't

type_synonym SearchStateUpdate = "MonitoringData option LocalStateUpdate"
type_synonym MonitorStateUpdate = "(bytes \<times> MonitoringData) list LocalStateUpdate"

record VerifiedSearchResult =
  vsr_value :: bytes
  vsr_state_update :: SearchStateUpdate

record 'p PublicConfig =
  pc_mode :: DeploymentMode
  pc_signature_key :: bytes
  pc_vrf_key :: "'p VrfPublicKey"

record SlimSearchRequest =
  ssr_search_key :: bytes
  ssr_version :: "u32 option"

definition SlimSearchRequest_new :: "bytes \<Rightarrow> SlimSearchRequest" where
  "SlimSearchRequest_new search_key = \<lparr>ssr_search_key = search_key, ssr_version = None\<rparr>"

record FullSearchResponse =
  fsr_condensed :: CondensedTreeSearchResponse
  fsr_tree_head :: FullTreeHead

definition are_all_roots_equal :: "VerifiedSearchResult \<Rightarrow> VerifiedSearchResult option list \<Rightarrow> bool" where
  "are_all_roots_equal r tail =
     foldl (\<lambda>acc other. case other of None \<Rightarrow> acc
       | Some v \<Rightarrow> acc \<and> lsu_tree_root (vsr_state_update r) = lsu_tree_root (vsr_state_update v)) True tail"

section \<open>Errors\<close>

datatype KtError = RequiredFieldMissing string | BadData string | VerificationFailed string

type_synonym 'a kt_result = "(KtError, 'a) rresult"

definition LogError_to_string :: "LogError \<Rightarrow> string" where
  "LogError_to_string e = (case e of
      EmptyChain \<Rightarrow> ''Empty chain''
    | MalformedChain \<Rightarrow> ''Malformed chain''
    | InvalidInput m \<Rightarrow> ''Invalid input: '' @ m
    | LogMalformedProof \<Rightarrow> ''Malformed proof''
    | ProofMismatch m \<Rightarrow> ''Proof mismatch: '' @ m
    | Unexpected m \<Rightarrow> ''Unexpected error: '' @ m)"

definition VrfError_to_string :: "VrfError \<Rightarrow> string" where
  "VrfError_to_string e = (case e of InvalidCurvePoint \<Rightarrow> ''Invalid point on curve'' | InvalidProof \<Rightarrow> ''Invalid VRF proof'')"

definition KtError_from_log :: "LogError \<Rightarrow> KtError" where
  "KtError_from_log err = VerificationFailed (LogError_to_string err)"

definition KtError_from_vrf :: "VrfError \<Rightarrow> KtError" where
  "KtError_from_vrf err = VerificationFailed (VrfError_to_string err)"

definition KtError_from_guide :: "InvalidState \<Rightarrow> KtError" where
  "KtError_from_guide err = VerificationFailed ''Set of counters is not monotonic''"

definition KtError_from_prefix :: "MalformedProof \<Rightarrow> KtError" where
  "KtError_from_prefix err = VerificationFailed ''Malformed proof''"

definition get_proto_field :: "'a option \<Rightarrow> string \<Rightarrow> 'a kt_result" where
  "get_proto_field field nm = ok_or (RequiredFieldMissing nm) field"

definition get_hash_proof :: "bytes list \<Rightarrow> bytes list kt_result" where
  "get_hash_proof pf =
     (if \<forall>e \<in> set pf. length e = 32 then Inr pf else Inl (Err (BadData ''proof element is wrong size'')))"

definition marshal_update_value :: "bytes \<Rightarrow> bytes kt_result" where
  "marshal_update_value v =
     (if 2 ^ 32 \<le> length v then Inl (Err (BadData ''value too long to be encoded''))
      else Inr (be_bytes 4 (length v) @ v))"

definition leaf_hash :: "(bytes \<Rightarrow> bytes) \<Rightarrow> bytes \<Rightarrow> bytes \<Rightarrow> bytes" where
  "leaf_hash H prefix_root commitment = H (prefix_root @ commitment)"

section \<open>Tree heads\<close>

text \<open>\<open>i64::to_be_bytes\<close>: two's complement.\<close>

definition i64_be_bytes :: "int \<Rightarrow> bytes" where
  "i64_be_bytes i = be_bytes 8 (nat (i mod 2 ^ 64))"

definition serialize_key :: "bytes \<Rightarrow> string \<Rightarrow> bytes kt_result" where
  "serialize_key key_material key_kind =
     (if 2 ^ 16 \<le> length key_material then Inl (Panic (key_kind @ '' key is too long to be encoded''))
      else Inr (be_bytes 2 (length key_material) @ key_material))"

text \<open>The two implementations of \<open>VerifiableTreeHead\<close> give the size, the timestamp and the signature.\<close>

definition to_signable_header :: "nat \<Rightarrow> int \<Rightarrow> bytes \<Rightarrow> 'p PublicConfig \<Rightarrow> bytes option \<Rightarrow> bytes kt_result" where
  "to_signable_header tree_size timestamp root config maybe_auditor_key =
     try_bind (serialize_key (pc_signature_key config) ''signature'') (\<lambda>sk.
     try_bind (serialize_key (vrf_compressed (pc_vrf_key config)) ''VRF'') (\<lambda>vk.
     try_bind (case maybe_auditor_key of None \<Rightarrow> Inr [] | Some key \<Rightarrow> serialize_key key ''third party signature'') (\<lambda>ak.
       Inr ([0, 0] @ [DeploymentMode_byte (pc_mode config)] @ sk @ vk @ ak
         @ be_bytes 8 tree_size @ i64_be_bytes timestamp @ root))))"

fun find_matching :: "'a list \<Rightarrow> 'b list \<Rightarrow> ('a \<Rightarrow> 'b \<Rightarrow> bool) \<Rightarrow> ('a \<Rightarrow> 'b \<Rightarrow> 'c) \<Rightarrow> 'c list option" where
  "find_matching [] ys eq project = Some []"
| "find_matching (x # xs) ys eq project =
     (case find (\<lambda>y. eq x y) ys of
        None \<Rightarrow> None
      | Some y \<Rightarrow> map_option (\<lambda>rest. project x y # rest) (find_matching xs ys eq project))"

definition to_single_signature_tree_heads :: "TreeHead \<Rightarrow> 'p PublicConfig \<Rightarrow> (bytes \<times> TreeHead) list option" where
  "to_single_signature_tree_heads th config =
     find_matching (get_associated_keys (pc_mode config)) (th_signatures th)
       (\<lambda>key sig. key = sig_auditor_public_key sig)
       (\<lambda>key sig. (key, \<lparr>th_tree_size = th_tree_size th, th_timestamp = th_timestamp th, th_signatures = [sig]\<rparr>))"

definition select_auditor_tree_head :: "FullTreeHead \<Rightarrow> bytes \<Rightarrow> FullAuditorTreeHead option" where
  "select_auditor_tree_head fth public_key =
     find (\<lambda>full_head. fath_public_key full_head = public_key) (fth_full_auditor_tree_heads fth)"

definition auditor_tree_heads :: "FullTreeHead \<Rightarrow> bytes list \<Rightarrow> (bytes \<times> FullAuditorTreeHead) list option" where
  "auditor_tree_heads fth keys =
     find_matching keys (fth_full_auditor_tree_heads fth) (\<lambda>key head. fath_public_key head = key) Pair"

definition single_signature_bytes :: "TreeHead \<Rightarrow> bytes kt_result" where
  "single_signature_bytes th =
     (case th_signatures th of [] \<Rightarrow> Inl (Panic ''guaranteed by construction'') | sig # _ \<Rightarrow> Inr (sig_signature sig))"

definition verify_tree_head_signature ::
    "('p, 's) KtExt \<Rightarrow> 'p PublicConfig \<Rightarrow> nat \<Rightarrow> int \<Rightarrow> bytes kt_result \<Rightarrow> bytes \<Rightarrow> bytes \<Rightarrow> bytes option \<Rightarrow> unit kt_result" where
  "verify_tree_head_signature E config tree_size timestamp signature_bytes root verifying_key maybe_auditor_key =
     try_bind (to_signable_header tree_size timestamp root config maybe_auditor_key) (\<lambda>to_be_signed.
     try_bind signature_bytes (\<lambda>sb.
     try_bind (ok_or (BadData ''signature has wrong size'') (kt_signature_from_slice E sb)) (\<lambda>signature.
       if kt_ed25519_verify E verifying_key to_be_signed signature then Inr ()
       else Inl (Err (VerificationFailed ''failed to verify tree head signature'')))))"

end
