(* ===== verification/Kt_Verify.thy ===== *)
theory Kt_Verify
  imports Kt_Types
begin

text \<open>
  The verification of the answers of a key transparency server, \<^verbatim>\<open>rust/keytrans/src/verify.rs\<close>,
  and the entry points and stored forms of \<^verbatim>\<open>rust/keytrans/src/lib.rs\<close>. A function with a loop that
  might not end returns an option, \<open>None\<close> when it does not return.
\<close>

definition MAX_TREE_SIZE :: nat where "MAX_TREE_SIZE = 2 ^ 62"
definition ENTRIES_MAX_BEHIND :: nat where "ENTRIES_MAX_BEHIND = 10000000"

section \<open>Tree heads\<close>

text \<open>The closure of \<open>check_consistency_metadata\<close> is a value of the function type.\<close>

definition check_consistency_metadata ::
    "(bytes \<Rightarrow> bytes) \<Rightarrow> TreeHead \<times> bytes \<Rightarrow> bytes list \<Rightarrow> LastTreeHead option \<Rightarrow> (unit \<Rightarrow> unit kt_result) option kt_result" where
  "check_consistency_metadata H current pf baseline = (let (current_head, current_root) = current in
     case baseline of
       None \<Rightarrow>
         if pf \<noteq> [] then Inl (Err (BadData ''consistency proof provided when not expected'')) else Inr None
     | Some (LastTreeHead last_head last_root) \<Rightarrow>
         if th_tree_size last_head = th_tree_size current_head then
           if current_root \<noteq> last_root then Inl (Err (BadData ''root is different but tree size is same''))
           else if th_timestamp current_head \<noteq> th_timestamp last_head
           then Inl (Err (BadData ''tree size is the same but timestamps differ''))
           else if pf \<noteq> [] then Inl (Err (BadData ''consistency proof provided when not expected''))
           else Inr None
         else if th_tree_size current_head < th_tree_size last_head
         then Inl (Err (BadData ''current tree size is less than previous tree size''))
         else if th_timestamp current_head < th_timestamp last_head
         then Inl (Err (BadData ''current timestamp is less than previous timestamp''))
         else Inr (Some (\<lambda>_. map_err KtError_from_log (verify_consistency_proof H
           (th_tree_size last_head) (th_tree_size current_head) pf last_root current_root))))"

record TimestampRange =
  max_behind_ms :: int
  max_ahead_ms :: int

definition ALLOWED_TIMESTAMP_RANGE :: TimestampRange where
  "ALLOWED_TIMESTAMP_RANGE = \<lparr>max_behind_ms = 24 * 60 * 60 * 1000, max_ahead_ms = 24 * 60 * 60 * 1000\<rparr>"

definition ALLOWED_AUDITOR_TIMESTAMP_RANGE :: TimestampRange where
  "ALLOWED_AUDITOR_TIMESTAMP_RANGE = \<lparr>max_behind_ms = 7 * 24 * 60 * 60 * 1000, max_ahead_ms = 24 * 60 * 60 * 1000\<rparr>"

datatype Qualifier = Server | Validator

definition Qualifier_to_string :: "Qualifier \<Rightarrow> string" where
  "Qualifier_to_string q = (case q of Server \<Rightarrow> ''Server'' | Validator \<Rightarrow> ''Validator'')"

definition int_to_string :: "int \<Rightarrow> string" where
  "int_to_string i = (if i < 0 then ''-'' @ nat_to_string (nat (- i)) else nat_to_string (nat i))"

definition verify_timestamp :: "Qualifier \<Rightarrow> int \<Rightarrow> TimestampRange \<Rightarrow> int \<Rightarrow> unit kt_result" where
  "verify_timestamp qualifier timestamp allowed_range now =
     (if now < 0 then Inl (Panic ''valid system time'')
      else let delta = now - timestamp in
        if max_behind_ms allowed_range < delta
        then Inl (Err (BadData (Qualifier_to_string qualifier @
          '' timestamp is too far behind current time (delta: '' @ int_to_string delta @ '' ms)'')))
        else if max_ahead_ms allowed_range < - delta
        then Inl (Err (BadData (Qualifier_to_string qualifier @
          '' timestamp is too far ahead of current time (delta: '' @ int_to_string delta @ '' ms)'')))
        else Inr ())"

text \<open>One round of the loop over the auditors' tree heads.\<close>

definition verify_auditor_tree_head ::
    "('p, 's) KtExt \<Rightarrow> 'p PublicConfig \<Rightarrow> TreeHead \<Rightarrow> bytes \<Rightarrow> int \<Rightarrow> bytes \<Rightarrow> FullAuditorTreeHead \<Rightarrow> unit kt_result" where
  "verify_auditor_tree_head E config tree_head root now verifying_key auditor_tree_head =
     try_bind (get_proto_field (fath_tree_head auditor_tree_head) ''tree_head'') (\<lambda>auditor_head.
     try_bind (verify_timestamp Validator (ath_timestamp auditor_head) ALLOWED_AUDITOR_TIMESTAMP_RANGE now) (\<lambda>_.
     if th_tree_size tree_head < ath_tree_size auditor_head
     then Inl (Err (BadData ''auditor tree head may not be further along than service tree head''))
     else if ENTRIES_MAX_BEHIND < th_tree_size tree_head - ath_tree_size auditor_head
     then Inl (Err (BadData ''auditor tree head is too far behind service tree head''))
     else if ath_tree_size auditor_head < th_tree_size tree_head then
       try_bind (get_proto_field (fath_root_value auditor_tree_head) ''root_value'') (\<lambda>auditor_root.
       if length auditor_root \<noteq> 32 then Inl (Err (BadData ''auditor tree head is malformed''))
       else try_bind (get_hash_proof (fath_consistency auditor_tree_head)) (\<lambda>pf.
       try_bind (map_err KtError_from_log (verify_consistency_proof (kt_sha256 E)
           (ath_tree_size auditor_head) (th_tree_size tree_head) pf auditor_root root)) (\<lambda>_.
         verify_tree_head_signature E config (ath_tree_size auditor_head) (ath_timestamp auditor_head)
           (Inr (ath_signature auditor_head)) auditor_root verifying_key (Some verifying_key))))
     else if fath_consistency auditor_tree_head \<noteq> []
     then Inl (Err (BadData ''consistency proof provided when not expected''))
     else if fath_root_value auditor_tree_head \<noteq> None
     then Inl (Err (BadData ''explicit root value provided when not expected''))
     else verify_tree_head_signature E config (ath_tree_size auditor_head) (ath_timestamp auditor_head)
           (Inr (ath_signature auditor_head)) root verifying_key (Some verifying_key)))"

text \<open>A \<open>for\<close> loop whose body ends in \<open>?\<close>.\<close>

fun for_each :: "('a \<Rightarrow> unit kt_result) \<Rightarrow> 'a list \<Rightarrow> unit kt_result" where
  "for_each body [] = Inr ()"
| "for_each body (x # xs) = try_bind (body x) (\<lambda>_. for_each body xs)"

definition run_consistency_check ::
    "(bytes \<Rightarrow> bytes) \<Rightarrow> TreeHead \<times> bytes \<Rightarrow> bytes list \<Rightarrow> LastTreeHead option \<Rightarrow> unit kt_result" where
  "run_consistency_check H current pf baseline =
     try_bind (get_hash_proof pf) (\<lambda>hs.
     try_bind (check_consistency_metadata H current hs baseline) (\<lambda>check.
       case check of None \<Rightarrow> Inr () | Some verify \<Rightarrow> verify ()))"

definition verify_full_tree_head ::
    "('p, 's) KtExt \<Rightarrow> 'p PublicConfig \<Rightarrow> FullTreeHead \<Rightarrow> bytes \<Rightarrow> LastTreeHead option \<Rightarrow> LastTreeHead option
     \<Rightarrow> int \<Rightarrow> LastTreeHead kt_result" where
  "verify_full_tree_head E config fth root last_tree_head last_distinguished_tree_head now =
     try_bind (get_proto_field (fth_tree_head fth) ''tree_head'') (\<lambda>tree_head.
     try_bind (run_consistency_check (kt_sha256 E) (tree_head, root) (fth_last fth) last_tree_head) (\<lambda>_.
     try_bind (run_consistency_check (kt_sha256 E) (tree_head, root) (fth_distinguished fth) last_distinguished_tree_head) (\<lambda>_.
     try_bind (ok_or (BadData ''server signatures are either missing or not available for all auditors'')
         (to_single_signature_tree_heads tree_head config)) (\<lambda>heads.
     try_bind (for_each (\<lambda>(key, head). verify_tree_head_signature E config (th_tree_size head) (th_timestamp head)
         (single_signature_bytes head) root (pc_signature_key config) (Some key)) heads) (\<lambda>_.
     try_bind (verify_timestamp Server (th_timestamp tree_head) ALLOWED_TIMESTAMP_RANGE now) (\<lambda>_.
     try_bind
       (case pc_mode config of
          ThirdPartyAuditing auditor_keys \<Rightarrow>
            try_bind (ok_or (BadData ''auditor tree heads are either missing or not available for all auditors'')
              (auditor_tree_heads fth auditor_keys))
              (for_each (\<lambda>(key, head). verify_auditor_tree_head E config tree_head root now key head))
        | _ \<Rightarrow> Inr ()) (\<lambda>_.
       Inr (LastTreeHead tree_head root))))))))"

definition verify_distinguished ::
    "('p, 's) KtExt \<Rightarrow> FullTreeHead \<Rightarrow> LastTreeHead option \<Rightarrow> LastTreeHead \<Rightarrow> unit kt_result" where
  "verify_distinguished E fth last_tree_head last_distinguished_tree_head =
     try_bind (get_proto_field (fth_tree_head fth) ''tree_head'') (\<lambda>th. let tree_size = th_tree_size th in
     case last_tree_head of
       None \<Rightarrow> Inr ()
     | Some (LastTreeHead tree_head root) \<Rightarrow>
         if th_tree_size tree_head \<noteq> tree_size then Inl (Err (BadData ''expected tree head not found in storage''))
         else case last_distinguished_tree_head of LastTreeHead distinguished distinguished_root \<Rightarrow>
           if tree_size = th_tree_size distinguished then
             if root = distinguished_root then Inr ()
             else Inl (Err (BadData ''root hash does not match expected value''))
           else try_bind (get_hash_proof (fth_distinguished fth)) (\<lambda>pf.
             map_err KtError_from_log (verify_consistency_proof (kt_sha256 E)
               (th_tree_size distinguished) tree_size pf distinguished_root root)))"

definition evaluate_vrf_proof :: "('p, 's) KtExt \<Rightarrow> bytes \<Rightarrow> 'p VrfPublicKey \<Rightarrow> bytes \<Rightarrow> bytes kt_result" where
  "evaluate_vrf_proof E pf vrf_key search_key =
     (if length pf \<noteq> 80 then Inl (Err (KtError_from_prefix MalformedProof))
      else map_err KtError_from_vrf (proof_to_hash (kt_ed E) vrf_key search_key pf))"

section \<open>Monitoring data\<close>

definition start_monitoring :: "MonitoringData option \<Rightarrow> bytes \<Rightarrow> nat \<Rightarrow> nat \<Rightarrow> u32 \<Rightarrow> bool \<Rightarrow> MonitoringData option" where
  "start_monitoring inner index zero_pos ver_pos version owned =
     (case inner of
        None \<Rightarrow> Some \<lparr>md_index = index, md_pos = zero_pos, md_ptrs = [(ver_pos, version)], md_owned = owned,
          md_search_key = [], md_max_observed_version = version\<rparr>
      | Some d \<Rightarrow> Some d)"

text \<open>\<open>find_map\<close> over the lazy path: the panic of the path is raised when its end is reached.\<close>

fun find_ptr :: "(nat \<times> u32) list \<Rightarrow> nat list \<Rightarrow> string option \<Rightarrow> u32 option or_panic" where
  "find_ptr ptrs [] e = (case e of None \<Rightarrow> Inr None | Some m \<Rightarrow> Inl m)"
| "find_ptr ptrs (x # xs) e = (case map_of ptrs x of Some v \<Rightarrow> Inr (Some v) | None \<Rightarrow> find_ptr ptrs xs e)"

definition checked_ptrs :: "(nat \<times> u32) list \<Rightarrow> nat \<Rightarrow> nat \<Rightarrow> nat \<Rightarrow> u32 \<Rightarrow> (nat \<times> u32) list kt_result" where
  "checked_ptrs ptrs tree_size zero_pos ver_pos version =
     (case map_of ptrs ver_pos of
        Some ver \<Rightarrow> if ver \<noteq> version
          then Inl (Err (VerificationFailed ''different versions of key recorded at same position'')) else Inr ptrs
      | None \<Rightarrow>
          try_bind (panicking (try_bind (monitoring_path ver_pos zero_pos tree_size) (\<lambda>(ps, e). find_ptr ptrs ps e))) (\<lambda>found.
            case found of
              Some ver \<Rightarrow> if ver < version
                then Inl (Err (VerificationFailed ''prefix tree has unexpectedly low version counter'')) else Inr ptrs
            | None \<Rightarrow> Inr (AList.update ver_pos version ptrs)))"

definition check_search_consistency ::
    "MonitoringData option \<Rightarrow> nat \<Rightarrow> bytes \<Rightarrow> nat \<Rightarrow> nat \<Rightarrow> u32 \<Rightarrow> bool \<Rightarrow> MonitoringData option kt_result" where
  "check_search_consistency inner tree_size index zero_pos ver_pos version owned =
     (case inner of
        None \<Rightarrow> Inr None
      | Some d \<Rightarrow>
          if index \<noteq> md_index d
          then Inl (Err (VerificationFailed ''given search key index does not match database''))
          else if zero_pos \<noteq> md_pos d
          then Inl (Err (VerificationFailed ''given search start position does not match database''))
          else try_bind (checked_ptrs (md_ptrs d) tree_size zero_pos ver_pos version) (\<lambda>ptrs.
            let d1 = d\<lparr>md_ptrs := ptrs\<rparr>;
                d2 = if md_max_observed_version d1 < version then d1\<lparr>md_max_observed_version := version\<rparr> else d1;
                d3 = if \<not> md_owned d2 \<and> owned then d2\<lparr>md_owned := True\<rparr> else d2
            in Inr (Some d3)))"

text \<open>\<open>VersionExtractor\<close>.\<close>

definition version_get :: "(nat \<times> ProofStep) list \<Rightarrow> nat \<Rightarrow> u32 option kt_result" where
  "version_get entries key =
     (case map_of entries key of
        None \<Rightarrow> Inr None
      | Some step \<Rightarrow> try_bind (get_proto_field (ps_prefix step) ''prefix'') (\<lambda>pp. Inr (Some (pp_counter pp))))"

definition versions :: "(nat \<times> ProofStep) list \<Rightarrow> u32 option list" where
  "versions entries = map (\<lambda>(_, step). map_option pp_counter (ps_prefix step)) entries"

text \<open>The loop of \<open>find_updated_mapping\<close> over the monitoring path.\<close>

fun climb :: "(nat \<Rightarrow> u32 option kt_result) \<Rightarrow> u32 \<Rightarrow> nat list \<Rightarrow> string option \<Rightarrow> (nat \<times> u32) option
    \<Rightarrow> (nat \<times> u32) option kt_result" where
  "climb get stored_ver [] e updated = (case e of None \<Rightarrow> Inr updated | Some m \<Rightarrow> Inl (Panic m))"
| "climb get stored_ver (x # xs) e updated =
     try_bind (get x) (\<lambda>r. case r of
       None \<Rightarrow> Inr updated
     | Some new_version \<Rightarrow>
         if new_version < stored_ver
         then Inl (Err (VerificationFailed ''prefix tree has unexpectedly low version counter''))
         else climb get stored_ver xs e (Some (x, new_version)))"

definition find_updated_mapping ::
    "nat \<times> u32 \<Rightarrow> nat \<Rightarrow> nat \<Rightarrow> (nat \<Rightarrow> u32 option kt_result) \<Rightarrow> (nat \<times> u32) option kt_result" where
  "find_updated_mapping stored_mapping first_pos tree_size get =
     (let (stored_pos, stored_ver) = stored_mapping in
      try_bind (panicking (monitoring_path stored_pos first_pos tree_size)) (\<lambda>(ps, e). climb get stored_ver ps e None))"

text \<open>One round of \<open>collect_ensuring_consistency\<close>, and the rounds of \<open>update\<close>: each pulls one updated
  pair from the iterator.\<close>

definition collect_one :: "(nat \<times> u32) list \<Rightarrow> nat \<times> u32 \<Rightarrow> (nat \<times> u32) list kt_result" where
  "collect_one out mapping = (let (pos, ver) = mapping in
     case map_of out pos of
       Some existing_ver \<Rightarrow> if ver \<noteq> existing_ver
         then Inl (Err (VerificationFailed ''inconsistent versions found'')) else Inr out
     | None \<Rightarrow> Inr (AList.update pos ver out))"

fun update_ptrs :: "(nat \<Rightarrow> u32 option kt_result) \<Rightarrow> nat \<Rightarrow> nat \<Rightarrow> (nat \<times> u32) list \<Rightarrow> (nat \<times> u32) list
    \<Rightarrow> (nat \<times> u32) list kt_result" where
  "update_ptrs get first_pos tree_size [] out = Inr out"
| "update_ptrs get first_pos tree_size (p # ptrs) out =
     try_bind (find_updated_mapping p first_pos tree_size get) (\<lambda>maybe_updated.
     try_bind (collect_one out (case maybe_updated of None \<Rightarrow> p | Some q \<Rightarrow> q)) (\<lambda>out1.
       update_ptrs get first_pos tree_size ptrs out1))"

definition monitoring_update ::
    "MonitoringData option \<Rightarrow> nat \<Rightarrow> (nat \<times> ProofStep) list \<Rightarrow> MonitoringData option kt_result" where
  "monitoring_update inner tree_size entries =
     (case inner of
        None \<Rightarrow> Inr None
      | Some d \<Rightarrow>
          try_bind (update_ptrs (version_get entries) (md_pos d) tree_size (md_ptrs d) []) (\<lambda>ptrs.
            let d1 = d\<lparr>md_ptrs := ptrs\<rparr>; vs = List.map_filter id (versions entries)
            in Inr (Some (if vs \<noteq> [] \<and> md_max_observed_version d1 < Max (set vs)
                 then d1\<lparr>md_max_observed_version := Max (set vs)\<rparr> else d1))))"

section \<open>Search\<close>

definition bytes_of_string :: "string \<Rightarrow> bytes" where
  "bytes_of_string s = map (\<lambda>c. word_of_nat (of_char c)) s"

definition into_sorted_pairs :: "(nat \<times> 'v) list \<Rightarrow> nat list \<times> 'v list" where
  "into_sorted_pairs m = (let pairs = sort_key fst m in (map fst pairs, map snd pairs))"

text \<open>The leaf of the log that a proof step shows, in both loops.\<close>

definition step_leaf :: "(bytes \<Rightarrow> bytes) \<Rightarrow> bytes \<Rightarrow> nat \<Rightarrow> PrefixProof \<Rightarrow> bytes \<Rightarrow> bytes kt_result" where
  "step_leaf H index pos prefix_proof commitment =
     try_bind (map_err KtError_from_prefix (prefix_evaluate H index pos prefix_proof)) (\<lambda>prefix_root.
       if length commitment \<noteq> 32 then Inl (Err (KtError_from_prefix MalformedProof))
       else Inr (leaf_hash H prefix_root commitment))"

text \<open>The closure passed to \<open>consume\<close>, with the variables it captures.\<close>

type_synonym search_vars = "nat \<times> (nat \<times> bytes) list \<times> (nat \<times> ProofStep) list"

definition search_step ::
    "(bytes \<Rightarrow> bytes) \<Rightarrow> bytes \<Rightarrow> SearchProof \<Rightarrow> search_vars \<Rightarrow> ProofGuide \<Rightarrow> nat
     \<Rightarrow> unit kt_result \<times> ProofGuide \<times> search_vars" where
  "search_step H index sp vars guide entry_id = (let (i, leaves, steps) = vars in
     if length (sp_steps sp) \<le> i
     then (Inl (Err (VerificationFailed ''unexpected number of steps in search proof'')), guide, vars)
     else let step = sp_steps sp ! i in
       case get_proto_field (ps_prefix step) ''prefix'' of
         Inl f \<Rightarrow> (Inl f, guide, vars)
       | Inr prefix_proof \<Rightarrow> let guide1 = guide_insert entry_id (pp_counter prefix_proof) guide in
           case step_leaf H index (sp_pos sp) prefix_proof (ps_commitment step) of
             Inl f \<Rightarrow> (Inl f, guide1, vars)
           | Inr leaf \<Rightarrow> (Inr (), guide1,
               (i + 1, AList.update entry_id leaf leaves, AList.update entry_id step steps)))"

text \<open>Sequencing of functions that might not return.\<close>

definition then_run :: "'a kt_result option \<Rightarrow> ('a \<Rightarrow> 'b kt_result option) \<Rightarrow> 'b kt_result option" where
  "then_run r k = (case r of None \<Rightarrow> None | Some (Inl f) \<Rightarrow> Some (Inl f) | Some (Inr a) \<Rightarrow> k a)"

text \<open>The parts of \<open>verify_search_internal\<close>: up to the guide, the candidate root, and what follows it.\<close>

definition search_inputs ::
    "('p, 's) KtExt \<Rightarrow> 'p PublicConfig \<Rightarrow> SlimSearchRequest \<Rightarrow> FullSearchResponse
     \<Rightarrow> (bytes \<times> nat \<times> SearchProof \<times> ProofGuide) kt_result" where
  "search_inputs E config req res =
     try_bind (evaluate_vrf_proof E (ctsr_vrf_proof (fsr_condensed res)) (pc_vrf_key config) (ssr_search_key req)) (\<lambda>index.
     try_bind (get_proto_field (fth_tree_head (fsr_tree_head res)) ''tree_head'') (\<lambda>tree_head.
     let tree_size = th_tree_size tree_head in
     try_bind (get_proto_field (ctsr_search (fsr_condensed res)) ''search'') (\<lambda>sp.
     if tree_size = 0 \<or> MAX_TREE_SIZE < tree_size then Inl (Err (VerificationFailed ''tree_size out of range''))
     else if tree_size \<le> sp_pos sp then Inl (Err (VerificationFailed ''search proof pos must be less than tree_size''))
     else try_bind (panicking (ProofGuide_new (ssr_version req) (sp_pos sp) tree_size)) (\<lambda>guide.
       Inr (index, tree_size, sp, guide)))))"

definition search_root ::
    "(bytes \<Rightarrow> bytes) \<Rightarrow> bytes \<Rightarrow> nat \<Rightarrow> SearchProof \<Rightarrow> ProofGuide
     \<Rightarrow> (bytes \<times> (nat \<times> nat) option \<times> (nat \<times> ProofStep) list) kt_result option" where
  "search_root H index tree_size sp guide =
     (case consume (search_step H index sp) KtError_from_guide guide (0, [], []) of
        None \<Rightarrow> None
      | Some (Inl f, _) \<Rightarrow> Some (Inl f)
      | Some (Inr result, (i, leaves, steps)) \<Rightarrow>
          if i \<noteq> length (sp_steps sp)
          then Some (Inl (Err (VerificationFailed ''unexpected number of steps in search proof'')))
          else then_run (Some (get_hash_proof (sp_inclusion sp))) (\<lambda>inclusion_proof.
            let (ids, values) = into_sorted_pairs leaves in
            then_run (map_option (map_err KtError_from_log) (evaluate_batch_proof H ids tree_size values inclusion_proof))
              (\<lambda>root. Some (Inr (root, result, steps)))))"

definition update_search_data ::
    "'p PublicConfig \<Rightarrow> SlimSearchRequest \<Rightarrow> nat \<Rightarrow> bytes \<Rightarrow> nat \<Rightarrow> nat \<Rightarrow> u32 \<Rightarrow> (nat \<times> ProofStep) list
     \<Rightarrow> bool \<Rightarrow> MonitoringData option \<Rightarrow> MonitoringData option kt_result" where
  "update_search_data config req tree_size index pos result_id ver steps monitor d =
     (let size = if ssr_search_key req = bytes_of_string ''distinguished'' then result_id + 1 else tree_size;
          d1 = if monitor \<or> pc_mode config = ContactMonitoring
               then start_monitoring d index pos result_id ver monitor else d
      in try_bind (check_search_consistency d1 size index pos result_id ver monitor) (\<lambda>d2.
           monitoring_update d2 size steps))"

definition search_finish ::
    "('p, 's) KtExt \<Rightarrow> 'p PublicConfig \<Rightarrow> SlimSearchRequest \<Rightarrow> FullSearchResponse \<Rightarrow> SearchContext \<Rightarrow> bool \<Rightarrow> int
     \<Rightarrow> bytes \<Rightarrow> nat \<Rightarrow> SearchProof \<Rightarrow> bytes \<Rightarrow> (nat \<times> nat) option \<Rightarrow> (nat \<times> ProofStep) list \<Rightarrow> SearchStateUpdate kt_result" where
  "search_finish E config req res context monitor now index tree_size sp root result steps =
     try_bind (ok_or (VerificationFailed ''failed to find expected version of key'') result) (\<lambda>(result_i, result_id).
     if length (sp_steps sp) \<le> result_i then Inl (Panic ''index out of bounds'')
     else let result_step = sp_steps sp ! result_i in
     try_bind (get_proto_field (ctsr_value (fsr_condensed res)) ''value'') (\<lambda>uv.
     try_bind (marshal_update_value uv) (\<lambda>v.
     let opening = ctsr_opening (fsr_condensed res) in
     if length opening \<noteq> 16 then Inl (Err (VerificationFailed ''malformed opening''))
     else try_bind (verify_commitment (kt_hmac_sha256 E) (ssr_search_key req) (ps_commitment result_step) v opening) (\<lambda>ok.
     if \<not> ok then Inl (Err (VerificationFailed ''failed to verify commitment opening''))
     else try_bind (verify_full_tree_head E config (fsr_tree_head res) root
         (sc_last_tree_head context) (sc_last_distinguished_tree_head context) now) (\<lambda>updated.
     try_bind (get_proto_field (ps_prefix result_step) ''prefix'') (\<lambda>pp.
     try_bind (update_search_data config req tree_size index (sp_pos sp) result_id (pp_counter pp) steps monitor (sc_data context)) (\<lambda>d.
       Inr \<lparr>lsu_tree_head = lth_head updated, lsu_tree_root = lth_root updated, lsu_monitoring_data = d\<rparr>)))))))"

definition verify_search_internal ::
    "('p, 's) KtExt \<Rightarrow> 'p PublicConfig \<Rightarrow> SlimSearchRequest \<Rightarrow> FullSearchResponse \<Rightarrow> SearchContext \<Rightarrow> bool \<Rightarrow> int
     \<Rightarrow> SearchStateUpdate kt_result option" where
  "verify_search_internal E config req res context monitor now =
     then_run (Some (search_inputs E config req res)) (\<lambda>(index, tree_size, sp, guide).
     then_run (search_root (kt_sha256 E) index tree_size sp guide) (\<lambda>(root, result, steps).
       Some (search_finish E config req res context monitor now index tree_size sp root result steps)))"

definition verify_search ::
    "('p, 's) KtExt \<Rightarrow> 'p PublicConfig \<Rightarrow> SlimSearchRequest \<Rightarrow> FullSearchResponse \<Rightarrow> SearchContext \<Rightarrow> bool \<Rightarrow> int
     \<Rightarrow> SearchStateUpdate kt_result option" where
  "verify_search E config req res context force_monitor now =
     verify_search_internal E config req res context force_monitor now"

definition KeyTransparency_verify_search ::
    "('p, 's) KtExt \<Rightarrow> 'p PublicConfig \<Rightarrow> SlimSearchRequest \<Rightarrow> FullSearchResponse \<Rightarrow> SearchContext \<Rightarrow> bool \<Rightarrow> int
     \<Rightarrow> VerifiedSearchResult kt_result option" where
  "KeyTransparency_verify_search E config request response context force_monitor now =
     then_run (verify_search E config request response context force_monitor now) (\<lambda>state_update.
       Some (try_bind (ok_or (RequiredFieldMissing ''update value'') (ctsr_value (fsr_condensed response))) (\<lambda>v.
         Inr \<lparr>vsr_value = v, vsr_state_update = state_update\<rparr>)))"

section \<open>Monitor\<close>

record MonitorProofAcc =
  mpa_tree_size :: nat
  mpa_leaves :: "(nat \<times> bytes) list"
  mpa_entries :: "(nat \<times> ProofStep) list list"

definition MonitorProofAcc_new :: "nat \<Rightarrow> MonitorProofAcc" where
  "MonitorProofAcc_new tree_size = \<lparr>mpa_tree_size = tree_size, mpa_leaves = [], mpa_entries = []\<rparr>"

text \<open>The loop of \<open>process\<close>; its variables are the leaves and the steps.\<close>

fun process_steps ::
    "(bytes \<Rightarrow> bytes) \<Rightarrow> MonitoringData \<Rightarrow> (nat \<times> ProofStep) list \<Rightarrow> (nat \<times> bytes) list \<Rightarrow> (nat \<times> ProofStep) list
     \<Rightarrow> ((nat \<times> bytes) list \<times> (nat \<times> ProofStep) list) kt_result" where
  "process_steps H d [] leaves steps = Inr (leaves, steps)"
| "process_steps H d ((entry, step) # rest) leaves steps =
     try_bind (get_proto_field (ps_prefix step) ''prefix'') (\<lambda>prefix_proof.
     try_bind (step_leaf H (md_index d) (md_pos d) prefix_proof (ps_commitment step)) (\<lambda>leaf.
     try_bind (case map_of leaves entry of
         Some other \<Rightarrow> if leaf \<noteq> other
           then Inl (Err (VerificationFailed ''monitoring response is malformed: multiple values for same leaf''))
           else Inr leaves
       | None \<Rightarrow> Inr (AList.update entry leaf leaves)) (\<lambda>leaves1.
       process_steps H d rest leaves1 (AList.update entry step steps))))"

definition MonitorProofAcc_process ::
    "(bytes \<Rightarrow> bytes) \<Rightarrow> MonitorProofAcc \<Rightarrow> (bytes \<times> MonitoringData) list \<Rightarrow> MonitorKey \<Rightarrow> MonitorProof
     \<Rightarrow> MonitorProofAcc kt_result" where
  "MonitorProofAcc_process H mpa monitoring_data key pf =
     try_bind (ok_or (BadData ''unable to process monitoring response for unknown search key'')
       (map_of monitoring_data (mk_search_key key))) (\<lambda>d.
     try_bind (panicking (full_monitoring_path (mk_entry_position key) (md_pos d) (mpa_tree_size mpa))) (\<lambda>entries.
     if length entries \<noteq> length (mp_steps pf)
     then Inl (Err (VerificationFailed ''monitoring response is malformed: wrong number of proof steps''))
     else try_bind (process_steps H d (zip entries (mp_steps pf)) (mpa_leaves mpa) []) (\<lambda>(leaves, steps).
       Inr (mpa\<lparr>mpa_leaves := leaves, mpa_entries := mpa_entries mpa @ [steps]\<rparr>))))"

fun process_all ::
    "(bytes \<Rightarrow> bytes) \<Rightarrow> (bytes \<times> MonitoringData) list \<Rightarrow> (MonitorKey \<times> MonitorProof) list \<Rightarrow> MonitorProofAcc
     \<Rightarrow> MonitorProofAcc kt_result" where
  "process_all H d [] mpa = Inr mpa"
| "process_all H d ((key, pf) # rest) mpa =
     try_bind (MonitorProofAcc_process H mpa d key pf) (\<lambda>mpa1. process_all H d rest mpa1)"

definition monitor_root :: "(bytes \<Rightarrow> bytes) \<Rightarrow> nat \<Rightarrow> (nat \<times> bytes) list \<Rightarrow> bytes list \<Rightarrow> bytes kt_result option" where
  "monitor_root H tree_size leaves inclusion_proof =
     (if leaves = [] then
        Some (case inclusion_proof of
            [root] \<Rightarrow> Inr root
          | _ \<Rightarrow> Inl (Err (VerificationFailed ''monitoring response is malformed: inclusion proof should be root'')))
      else let (ids, values) = into_sorted_pairs leaves in
        map_option (map_err KtError_from_log) (evaluate_batch_proof H ids tree_size values inclusion_proof))"

fun update_monitored ::
    "MonitorRequest \<Rightarrow> nat \<Rightarrow> (bytes \<times> MonitoringData) list \<Rightarrow> (MonitorKey \<times> (nat \<times> ProofStep) list) list
     \<Rightarrow> (bytes \<times> MonitoringData) list \<Rightarrow> (bytes \<times> MonitoringData) list kt_result" where
  "update_monitored req tree_size d [] updates = Inr updates"
| "update_monitored req tree_size d ((key, entry) # rest) updates =
     try_bind (if mk_search_key key = bytes_of_string ''distinguished''
       then ok_or (RequiredFieldMissing ''consistency field when monitoring distinguished key'')
         (case mreq_consistency req of None \<Rightarrow> None | Some c \<Rightarrow> con_last c)
       else Inr tree_size) (\<lambda>size.
     try_bind (monitoring_update (map_of d (mk_search_key key)) size entry) (\<lambda>updated.
       update_monitored req tree_size d rest
         (case updated of None \<Rightarrow> updates | Some u \<Rightarrow> AList.update (mk_search_key key) u updates)))"

definition verify_monitor ::
    "('p, 's) KtExt \<Rightarrow> 'p PublicConfig \<Rightarrow> MonitorRequest \<Rightarrow> MonitorResponse \<Rightarrow> MonitorContext \<Rightarrow> int
     \<Rightarrow> MonitorStateUpdate kt_result option" where
  "verify_monitor E config req res context now =
     (if length (mreq_keys req) \<noteq> length (mres_proofs res)
      then Some (Inl (Err (BadData ''monitoring response is malformed: wrong number of key proofs'')))
      else then_run (Some (get_proto_field (mres_tree_head res) ''tree_head'')) (\<lambda>full_tree_head.
      then_run (Some (get_proto_field (fth_tree_head full_tree_head) ''tree_head'')) (\<lambda>tree_head.
      let tree_size = th_tree_size tree_head in
      if tree_size = 0 \<or> MAX_TREE_SIZE < tree_size
      then Some (Inl (Err (VerificationFailed ''tree_size out of range'')))
      else then_run (Some (process_all (kt_sha256 E) (mc_data context) (zip (mreq_keys req) (mres_proofs res))
             (MonitorProofAcc_new tree_size))) (\<lambda>mpa.
      then_run (Some (get_hash_proof (mres_inclusion res))) (\<lambda>inclusion_proof.
      then_run (monitor_root (kt_sha256 E) tree_size (mpa_leaves mpa) inclusion_proof) (\<lambda>root.
      Some (try_bind (verify_full_tree_head E config full_tree_head root (mc_last_tree_head context)
            (Some (mc_last_distinguished_tree_head context)) now) (\<lambda>updated.
        try_bind (update_monitored req tree_size (mc_data context) (zip (mreq_keys req) (mpa_entries mpa)) []) (\<lambda>updates.
          Inr \<lparr>lsu_tree_head = lth_head updated, lsu_tree_root = lth_root updated,
            lsu_monitoring_data = updates\<rparr>)))))))))"

section \<open>Stored forms\<close>

definition into_last_tree_head :: "StoredTreeHead \<Rightarrow> LastTreeHead option" where
  "into_last_tree_head s =
     (case sth_tree_head s of None \<Rightarrow> None
      | Some head \<Rightarrow> if length (sth_root s) = 32 then Some (LastTreeHead head (sth_root s)) else None)"

definition LastTreeHead_into_stored :: "LastTreeHead \<Rightarrow> int \<Rightarrow> StoredTreeHead kt_result" where
  "LastTreeHead_into_stored l stored_at =
     (if stored_at < 0 then Inl (Panic ''valid SystemTime'')
      else if 2 ^ 64 \<le> stored_at then Inl (Panic ''enough millis since UNIX_EPOCH'')
      else Inr \<lparr>sth_tree_head = Some (lth_head l), sth_root = lth_root l, sth_stored_at_ms = nat stored_at\<rparr>)"

definition MonitoringData_entries :: "MonitoringData \<Rightarrow> nat list" where
  "MonitoringData_entries d = sort (map fst (md_ptrs d))"

definition MonitoringData_next_monitor :: "MonitoringData \<Rightarrow> nat or_panic" where
  "MonitoringData_next_monitor d = next_monitor (MonitoringData_entries d)"

definition latest_log_position :: "MonitoringData \<Rightarrow> nat or_panic" where
  "latest_log_position d =
     (if md_ptrs d = [] then Inl ''at least one version must be present'' else Inr (Max (fst ` set (md_ptrs d))))"

definition greatest_version :: "MonitoringData \<Rightarrow> u32" where
  "greatest_version d = Max (insert (md_max_observed_version d) (snd ` set (md_ptrs d)))"

definition MonitoringData_into_stored :: "MonitoringData \<Rightarrow> bytes \<Rightarrow> StoredMonitoringData" where
  "MonitoringData_into_stored d search_key =
     \<lparr>smd_index = md_index d, smd_pos = md_pos d, smd_ptrs = md_ptrs d, smd_owned = md_owned d,
      smd_search_key = search_key, smd_max_observed_version = md_max_observed_version d\<rparr>"

definition MonitoringData_from :: "StoredMonitoringData \<Rightarrow> MonitoringData kt_result" where
  "MonitoringData_from s =
     (if length (smd_index s) \<noteq> 32 then Inl (Panic ''must be the right size'')
      else Inr \<lparr>md_index = smd_index s, md_pos = smd_pos s, md_ptrs = smd_ptrs s, md_owned = smd_owned s,
        md_search_key = smd_search_key s, md_max_observed_version = smd_max_observed_version s\<rparr>)"

record AccountData =
  ad_aci :: MonitoringData
  ad_e164 :: "MonitoringData option"
  ad_username_hash :: "MonitoringData option"
  ad_last_tree_head :: LastTreeHead

definition map_stored :: "StoredMonitoringData option \<Rightarrow> MonitoringData option kt_result" where
  "map_stored s = (case s of None \<Rightarrow> Inr None | Some s \<Rightarrow> try_bind (MonitoringData_from s) (\<lambda>d. Inr (Some d)))"

definition AccountData_try_from :: "StoredAccountData \<Rightarrow> AccountData kt_result" where
  "AccountData_try_from stored =
     try_bind (ok_or (RequiredFieldMissing ''last_tree_head'') (sad_last_tree_head stored)) (\<lambda>sth.
     try_bind (map_stored (sad_aci stored)) (\<lambda>maybe_aci.
     try_bind (ok_or (RequiredFieldMissing ''aci'') maybe_aci) (\<lambda>aci.
     try_bind (map_stored (sad_e164 stored)) (\<lambda>e164.
     try_bind (map_stored (sad_username_hash stored)) (\<lambda>username_hash.
     try_bind (expect ''valid tree head'' (into_last_tree_head sth)) (\<lambda>lth.
       Inr \<lparr>ad_aci = aci, ad_e164 = e164, ad_username_hash = username_hash, ad_last_tree_head = lth\<rparr>))))))"

definition zip_stored :: "MonitoringData option \<Rightarrow> bytes option \<Rightarrow> StoredMonitoringData option" where
  "zip_stored d key = (case (d, key) of (Some d, Some k) \<Rightarrow> Some (MonitoringData_into_stored d k) | _ \<Rightarrow> None)"

definition AccountData_into_stored ::
    "AccountData \<Rightarrow> bytes \<Rightarrow> bytes option \<Rightarrow> bytes option \<Rightarrow> int \<Rightarrow> StoredAccountData kt_result" where
  "AccountData_into_stored a aci_search_key e164_search_key username_hash_search_key stored_at =
     try_bind (LastTreeHead_into_stored (ad_last_tree_head a) stored_at) (\<lambda>lth.
       Inr \<lparr>sad_aci = Some (MonitoringData_into_stored (ad_aci a) aci_search_key),
         sad_e164 = zip_stored (ad_e164 a) e164_search_key,
         sad_username_hash = zip_stored (ad_username_hash a) username_hash_search_key,
         sad_last_tree_head = Some lth\<rparr>)"

end
