(* ===== verification/Kt_Monitoring.thy ===== *)
theory Kt_Monitoring
  imports Kt_Verify
begin

text \<open>
  The monitoring data a client keeps for a search key: its invariant, that every operation of
  \<open>MonitoringDataWrapper\<close> keeps it, and that no operation ever lowers a version or moves a stored
  position back. The stored form of an account reads back as it was.
\<close>

section \<open>The invariant\<close>

text \<open>Positions are distinct and not before the first entry of the key; the versions observed are bounded by
  the recorded maximum.\<close>

definition md_ok :: "MonitoringData \<Rightarrow> bool" where
  "md_ok d \<longleftrightarrow> distinct (map fst (md_ptrs d)) \<and>
     (\<forall>(p, v) \<in> set (md_ptrs d). md_pos d \<le> p \<and> v \<le> md_max_observed_version d)"

text \<open>Every stored pair is still there or replaced by a later position with no lower version.\<close>

definition ptrs_advance :: "(nat \<times> u32) list \<Rightarrow> (nat \<times> u32) list \<Rightarrow> bool" where
  "ptrs_advance old new \<longleftrightarrow> (\<forall>q \<in> set old. \<exists>q' \<in> set new. fst q \<le> fst q' \<and> snd q \<le> snd q')"

definition md_advance :: "MonitoringData \<Rightarrow> MonitoringData \<Rightarrow> bool" where
  "md_advance d d' \<longleftrightarrow> md_index d' = md_index d \<and> md_pos d' = md_pos d \<and> md_search_key d' = md_search_key d \<and>
     (md_owned d \<longrightarrow> md_owned d') \<and> md_max_observed_version d \<le> md_max_observed_version d' \<and>
     ptrs_advance (md_ptrs d) (md_ptrs d')"

lemma ptrs_advance_refl: "set ptrs \<subseteq> set ptrs' \<Longrightarrow> ptrs_advance ptrs ptrs'"
  unfolding ptrs_advance_def by blast

lemma ptrs_advance_trans: "ptrs_advance a b \<Longrightarrow> ptrs_advance b c \<Longrightarrow> ptrs_advance a c"
  unfolding ptrs_advance_def by (meson order_trans)

lemma md_advance_trans: "md_advance a b \<Longrightarrow> md_advance b c \<Longrightarrow> md_advance a c"
  unfolding md_advance_def using ptrs_advance_trans [of "md_ptrs a" "md_ptrs b" "md_ptrs c"] by auto

lemma greatest_version_ok: "md_ok d \<Longrightarrow> greatest_version d = md_max_observed_version d"
  unfolding greatest_version_def by (rule Max_eqI) (auto simp: md_ok_def)

section \<open>Updating\<close>

lemma climb_cases:
  assumes "climb get v ps e u = Inr r"
  shows "r = u \<or> (\<exists>x w. r = Some (x, w) \<and> x \<in> set ps \<and> get x = Inr (Some w) \<and> v \<le> w)"
  using assms
proof (induction ps arbitrary: u)
  case (Cons x xs)
  then show ?case by (fastforce simp: res_simps split: option.splits if_splits)
qed (auto split: option.splits)

lemma monitoring_path_after: "monitoring_path x start n = Inr (ps, e) \<Longrightarrow> y \<in> set ps \<Longrightarrow> x < y"
  by (auto simp: monitoring_path_def res_simps)

lemma find_updated_mapping_Some:
  assumes "find_updated_mapping (p, v) first_pos n get = Inr (Some (x, w))"
  shows "p < x \<and> v \<le> w \<and> get x = Inr (Some w)"
proof -
  from assms obtain ps e where "monitoring_path p first_pos n = Inr (ps, e)" "climb get v ps e None = Inr (Some (x, w))"
    by (auto simp: find_updated_mapping_def panicking_def res_simps split: sum.splits)
  with climb_cases [OF this(2)] monitoring_path_after [OF this(1)] show ?thesis by auto
qed

lemma update_new: "map_of m k = None \<Longrightarrow> AList.update k v m = m @ [(k, v)]"
  by (induction m) (auto split: if_splits)

lemma collect_one_set:
  assumes "collect_one out q = Inr out'"
  shows "set out' = insert q (set out) \<and> (distinct (map fst out) \<longrightarrow> distinct (map fst out'))"
proof -
  obtain p v where q: "q = (p, v)" by (cases q)
  show ?thesis
  proof (cases "map_of out p")
    case None
    with assms have "out' = out @ [(p, v)]" by (simp add: collect_one_def q update_new)
    with None show ?thesis by (auto simp: q map_of_eq_None_iff)
  next
    case (Some w)
    with assms have "out' = out" "w = v" by (auto simp: collect_one_def q split: if_splits)
    with map_of_SomeD [OF Some] show ?thesis by (auto simp: q)
  qed
qed

text \<open>What \<open>update\<close> makes of one stored pair.\<close>

definition updated_pair :: "(nat \<Rightarrow> u32 option kt_result) \<Rightarrow> nat \<times> u32 \<Rightarrow> nat \<times> u32 \<Rightarrow> bool" where
  "updated_pair get old new \<longleftrightarrow> new = old \<or>
     fst old < fst new \<and> snd old \<le> snd new \<and> get (fst new) = Inr (Some (snd new))"

lemma update_ptrs_set:
  assumes "update_ptrs get first_pos n ptrs out = Inr out'"
  shows "set out \<subseteq> set out' \<and> (distinct (map fst out) \<longrightarrow> distinct (map fst out')) \<and>
    (\<forall>p \<in> set ptrs. \<exists>q \<in> set out'. updated_pair get p q) \<and>
    (\<forall>q \<in> set out'. q \<in> set out \<or> (\<exists>p \<in> set ptrs. updated_pair get p q))"
  using assms
proof (induction ptrs arbitrary: out)
  case (Cons p ptrs)
  from Cons.prems obtain m out1 where m: "find_updated_mapping p first_pos n get = Inr m"
    and o1: "collect_one out (case m of None \<Rightarrow> p | Some q \<Rightarrow> q) = Inr out1"
    and rest: "update_ptrs get first_pos n ptrs out1 = Inr out'" by (auto simp: res_simps)
  let ?q = "case m of None \<Rightarrow> p | Some q \<Rightarrow> q"
  have "updated_pair get p ?q"
    using m find_updated_mapping_Some [of "fst p" "snd p" first_pos n get]
    by (auto simp: updated_pair_def split: option.split)
  with collect_one_set [OF o1] Cons.IH [OF rest] show ?case by auto
qed simp

lemma version_get_versions:
  "version_get entries x = Inr (Some w) \<Longrightarrow> w \<in> set (List.map_filter id (versions entries))"
  by (force simp: version_get_def versions_def get_proto_field_def res_simps map_filter_def
    split: option.splits dest!: map_of_SomeD)

lemma monitoring_update_parts:
  assumes "monitoring_update (Some d) n entries = Inr d'"
  obtains ptrs e where "update_ptrs (version_get entries) (md_pos d) n (md_ptrs d) [] = Inr ptrs"
    "d' = Some e" "md_ptrs e = ptrs" "md_pos e = md_pos d" "md_index e = md_index d" "md_owned e = md_owned d"
    "md_search_key e = md_search_key d" "md_max_observed_version d \<le> md_max_observed_version e"
    "\<forall>v \<in> set (List.map_filter id (versions entries)). v \<le> md_max_observed_version e"
proof -
  let ?vs = "List.map_filter id (versions entries)"
  from assms obtain ptrs where ptrs: "update_ptrs (version_get entries) (md_pos d) n (md_ptrs d) [] = Inr ptrs"
    and d': "d' = Some (if ?vs \<noteq> [] \<and> md_max_observed_version d < Max (set ?vs)
      then d\<lparr>md_ptrs := ptrs, md_max_observed_version := Max (set ?vs)\<rparr> else d\<lparr>md_ptrs := ptrs\<rparr>)"
    by (auto simp: monitoring_update_def res_simps Let_def)
  have "v \<le> Max (set ?vs)" if "v \<in> set ?vs" for v using that by simp
  moreover have "v \<le> md_max_observed_version d" if "v \<in> set ?vs" "\<not> md_max_observed_version d < Max (set ?vs)" for v
    using that by (meson List.finite_set Max.coboundedI leI order_trans)
  ultimately show ?thesis
    using that [OF ptrs] d' by (cases "?vs \<noteq> [] \<and> md_max_observed_version d < Max (set ?vs)") auto
qed

lemma monitoring_update_keeps:
  assumes "monitoring_update (Some d) n entries = Inr d'" "md_ok d"
  shows "\<exists>e. d' = Some e \<and> md_ok e \<and> md_advance d e"
  using assms(1)
proof (rule monitoring_update_parts)
  fix ptrs e
  assume u: "update_ptrs (version_get entries) (md_pos d) n (md_ptrs d) [] = Inr ptrs"
    and e: "d' = Some e" "md_ptrs e = ptrs" "md_pos e = md_pos d" "md_index e = md_index d" "md_owned e = md_owned d"
    "md_search_key e = md_search_key d" "md_max_observed_version d \<le> md_max_observed_version e"
    "\<forall>v \<in> set (List.map_filter id (versions entries)). v \<le> md_max_observed_version e"
  note s = update_ptrs_set [OF u]
  have ok: "md_pos e \<le> fst q \<and> snd q \<le> md_max_observed_version e" if "q \<in> set ptrs" for q
  proof -
    from s that obtain p where p: "p \<in> set (md_ptrs d)" "updated_pair (version_get entries) p q" by auto
    with assms(2) have "md_pos d \<le> fst p" "snd p \<le> md_max_observed_version d" by (auto simp: md_ok_def)
    with p(2) e(3,7,8) version_get_versions show ?thesis
      by (auto simp: updated_pair_def intro: order_trans)
  qed
  have "distinct (map fst ptrs)" using s by simp
  then have "md_ok e" unfolding md_ok_def e(2) using ok by auto
  moreover have "\<exists>q' \<in> set ptrs. fst q \<le> fst q' \<and> snd q \<le> snd q'" if "q \<in> set (md_ptrs d)" for q
  proof -
    from s that obtain q' where "q' \<in> set ptrs" "updated_pair (version_get entries) q q'" by blast
    then show ?thesis by (intro bexI [of _ q']) (auto simp: updated_pair_def)
  qed
  then have "ptrs_advance (md_ptrs d) ptrs" by (simp add: ptrs_advance_def)
  ultimately show ?thesis using e by (simp add: md_advance_def)
qed

lemma check_search_consistency_keeps:
  assumes "check_search_consistency (Some d) n index zero_pos ver_pos version owned = Inr d'" "md_ok d" "zero_pos \<le> ver_pos"
  shows "\<exists>e. d' = Some e \<and> md_ok e \<and> md_advance d e \<and> version \<le> md_max_observed_version e
    \<and> md_index d = index \<and> md_pos d = zero_pos \<and> set (md_ptrs e) \<subseteq> insert (ver_pos, version) (set (md_ptrs d))"
proof -
  from assms(1) obtain ptrs where "index = md_index d" "zero_pos = md_pos d"
    and ptrs: "checked_ptrs (md_ptrs d) n zero_pos ver_pos version = Inr ptrs"
    and d': "d' = Some (let d1 = d\<lparr>md_ptrs := ptrs\<rparr>;
                d2 = if md_max_observed_version d1 < version then d1\<lparr>md_max_observed_version := version\<rparr> else d1
      in if \<not> md_owned d2 \<and> owned then d2\<lparr>md_owned := True\<rparr> else d2)"
    by (auto simp: check_search_consistency_def res_simps Let_def split: if_splits)
  from ptrs have p: "ptrs = md_ptrs d \<or> ptrs = md_ptrs d @ [(ver_pos, version)] \<and> ver_pos \<notin> fst ` set (md_ptrs d)"
  proof (cases "map_of (md_ptrs d) ver_pos")
    case None
    then have "ver_pos \<notin> fst ` set (md_ptrs d)" by (simp add: map_of_eq_None_iff)
    with None ptrs show ?thesis
      by (auto simp: checked_ptrs_def update_new res_simps split: option.splits if_splits)
  qed (use ptrs in \<open>auto simp: checked_ptrs_def split: if_splits\<close>)
  define e where "e = the d'"
  have e: "d' = Some e" "md_ptrs e = ptrs" "md_pos e = md_pos d" "md_index e = md_index d"
    "md_search_key e = md_search_key d" "md_owned d \<longrightarrow> md_owned e"
    "md_max_observed_version e = max (md_max_observed_version d) version"
    by (auto simp: e_def d' Let_def max_def)
  have max: "md_max_observed_version d \<le> md_max_observed_version e" "version \<le> md_max_observed_version e"
    by (simp_all add: e(7))
  have old: "md_pos d \<le> fst q \<and> snd q \<le> md_max_observed_version e" if "q \<in> set (md_ptrs d)" for q
    using assms(2) that max(1) by (force simp: md_ok_def)
  have "distinct (map fst ptrs)" "\<forall>q \<in> set ptrs. md_pos d \<le> fst q \<and> snd q \<le> md_max_observed_version e"
    "set (md_ptrs d) \<subseteq> set ptrs" "set ptrs \<subseteq> insert (ver_pos, version) (set (md_ptrs d))"
    using p assms(2,3) \<open>zero_pos = md_pos d\<close> old max(2) by (auto simp: md_ok_def)
  then have "md_ok e" "ptrs_advance (md_ptrs d) (md_ptrs e)" "set (md_ptrs e) \<subseteq> insert (ver_pos, version) (set (md_ptrs d))"
    unfolding md_ok_def e(2,3) by (auto intro: ptrs_advance_refl)
  with e max \<open>zero_pos = md_pos d\<close> \<open>index = md_index d\<close> show ?thesis by (simp add: md_advance_def)
qed

end
