(* ===== verification/Merkle_Proofs.thy ===== *)
theory Merkle_Proofs
  imports Merkle_Log
begin

text \<open>
  What the log tree's code computes. \<open>merkle H xs\<close> is the Merkle tree hash of a list of leaves; the
  root calculator refines it: its chain holds the hashes of the perfect subtrees of the leaves
  inserted so far. On top of that, a genuine consistency proof is accepted, and an accepted proof is
  genuine as long as no two of the strings that are hashed collide.
\<close>

section \<open>The Merkle tree hash\<close>

function merkle :: "(bytes \<Rightarrow> bytes) \<Rightarrow> bytes list \<Rightarrow> NodeData" where
  "merkle H xs =
     (if length xs \<le> 1 then \<lparr>nd_interior = False, nd_value = (case xs of [] \<Rightarrow> [] | x # _ \<Rightarrow> x)\<rparr>
      else let k = 2 ^ log2 (length xs - 1) in
        tree_hash H (merkle H (take k xs)) (merkle H (drop k xs)))"
  by pat_completeness auto
termination
proof (relation "measure (\<lambda>(_, xs). length xs)", goal_cases)
  case (2 H xs k)
  have "2 ^ log2 (length xs - 1) \<le> length xs - 1" using log2_bounds [of "length xs - 1"] 2 by auto
  with 2 show ?case by auto
next
  case (3 H xs k)
  then have "0 < length xs" "0 < k" by auto
  then show ?case by simp
qed auto

declare merkle.simps [simp del]

lemma merkle_single [simp]: "merkle H [x] = \<lparr>nd_interior = False, nd_value = x\<rparr>"
  by (simp add: merkle.simps)

lemma merkle_append:
  assumes "length xs = 2 ^ k" "0 < length ys" "length ys \<le> 2 ^ k"
  shows "merkle H (xs @ ys) = tree_hash H (merkle H xs) (merkle H ys)"
proof -
  have "log2 (length (xs @ ys) - 1) = k"
  proof (rule log2_eqI)
    show "2 ^ k \<le> length (xs @ ys) - 1" "length (xs @ ys) - 1 < 2 ^ Suc k"
      using assms two_power_pos [of k] unfolding length_append power_Suc by linarith+
  qed
  moreover have "1 < length (xs @ ys)"
    using assms two_power_pos [of k] unfolding length_append by linarith
  ultimately show ?thesis
    using assms(1) by (subst merkle.simps) simp
qed

lemma merkle_interior: "nd_interior (merkle H xs) \<longleftrightarrow> 1 < length xs"
  by (subst merkle.simps) (auto simp: tree_hash_def Let_def)

section \<open>The calculator's chain\<close>

text \<open>
  Level \<open>i\<close> and above of a chain hold the leaves \<open>xs\<close>: every entry is the hash of a perfect
  subtree, the leaves of lower levels come later.
\<close>

fun chain_holds :: "(bytes \<Rightarrow> bytes) \<Rightarrow> nat \<Rightarrow> SimpleRootCalculator \<Rightarrow> bytes list \<Rightarrow> bool" where
  "chain_holds H i [] xs \<longleftrightarrow> xs = []"
| "chain_holds H i (None # c) xs \<longleftrightarrow> chain_holds H (Suc i) c xs"
| "chain_holds H i (Some nd # c) xs \<longleftrightarrow>
     (\<exists>ys zs. xs = ys @ zs \<and> length zs = 2 ^ i \<and> nd = merkle H zs \<and> chain_holds H (Suc i) c ys)"

text \<open>The lowest entry may be a subtree that is not perfect: nothing can be inserted after it.\<close>

fun chain_ends :: "(bytes \<Rightarrow> bytes) \<Rightarrow> nat \<Rightarrow> SimpleRootCalculator \<Rightarrow> bytes list \<Rightarrow> bool" where
  "chain_ends H i [] xs \<longleftrightarrow> False"
| "chain_ends H i (None # c) xs \<longleftrightarrow> chain_ends H (Suc i) c xs"
| "chain_ends H i (Some nd # c) xs \<longleftrightarrow>
     (\<exists>ys zs. xs = ys @ zs \<and> 0 < length zs \<and> length zs \<le> 2 ^ i \<and> nd = merkle H zs
        \<and> chain_holds H (Suc i) c ys)"

lemma chain_holds_ends: "chain_holds H i c xs \<Longrightarrow> xs \<noteq> [] \<Longrightarrow> chain_ends H i c xs"
  by (induction H i c xs rule: chain_holds.induct) fastforce+

lemma chain_holds_dvd: "chain_holds H i c xs \<Longrightarrow> 2 ^ i dvd length xs"
proof (induction H i c xs rule: chain_holds.induct)
  case (2 H i c xs)
  then have "2 ^ Suc i dvd length xs" by simp
  then show ?case by (rule dvd_trans [rotated]) simp
next
  case (3 H i nd c xs)
  then obtain ys zs where "xs = ys @ zs" "length zs = 2 ^ i" "2 ^ Suc i dvd length ys" by auto
  moreover from this(3) have "2 ^ i dvd length ys" by (rule dvd_trans [rotated]) simp
  ultimately show ?case by simp
qed simp

text \<open>When the leaves fill whole subtrees of level \<open>l\<close>, the levels below are free.\<close>

lemma chain_free_below:
  "chain_holds H i c xs \<Longrightarrow> 2 ^ (i + l) dvd length xs \<Longrightarrow> take l c = replicate (min l (length c)) None
     \<and> chain_holds H (i + l) (drop l c) xs"
proof (induction l arbitrary: i c)
  case (Suc l)
  show ?case
  proof (cases c)
    case Nil
    with Suc.prems show ?thesis by simp
  next
    case (Cons e c')
    show ?thesis
    proof (cases e)
      case None
      with Suc.IH [of "Suc i" c'] Suc.prems Cons show ?thesis by simp
    next
      case (Some nd)
      with Suc.prems(1) Cons obtain ys zs where
        xs: "xs = ys @ zs" "length zs = 2 ^ i" "chain_holds H (Suc i) c' ys" by auto
      have "2 ^ Suc i dvd length ys" using xs(3) by (rule chain_holds_dvd)
      moreover have "2 ^ Suc i dvd length xs" using Suc.prems(2)
        by (rule dvd_trans [rotated]) (simp add: power_add)
      ultimately have "2 ^ Suc i dvd length zs" using xs(1) by (simp add: dvd_add_right_iff)
      with xs(2) show ?thesis by (auto dest: dvd_imp_le)
    qed
  qed
qed simp

text \<open>Insertion at the front of the levels from \<open>i\<close> on.\<close>

fun carry_in :: "(bytes \<Rightarrow> bytes) \<Rightarrow> NodeData \<Rightarrow> SimpleRootCalculator \<Rightarrow> SimpleRootCalculator" where
  "carry_in H acc [] = [Some acc]"
| "carry_in H acc (None # c) = Some acc # c"
| "carry_in H acc (Some nd # c) = None # carry_in H (tree_hash H nd acc) c"

lemma calc_carry_eq: "calc_carry H (length pre) acc (pre @ c) = pre @ carry_in H acc c"
proof (induction H acc c arbitrary: pre rule: carry_in.induct)
  case (3 H acc nd c)
  from "3.IH" [of "pre @ [None]"] show ?case
    by (subst calc_carry.simps) simp
qed (subst calc_carry.simps; simp)+

lemma carry_in_holds:
  assumes "chain_holds H i c xs" "length zs = 2 ^ i"
  shows "chain_holds H i (carry_in H (merkle H zs) c) (xs @ zs)"
  using assms
proof (induction H i c xs arbitrary: zs rule: chain_holds.induct)
  case (3 H i nd c xs)
  then obtain ys us where xs: "xs = ys @ us" "length us = 2 ^ i" "nd = merkle H us"
    "chain_holds H (Suc i) c ys" by auto
  have "tree_hash H nd (merkle H zs) = merkle H (us @ zs)"
    using xs 3 by (simp add: merkle_append [of us i])
  with "3.IH" [OF xs(4), of "us @ zs"] xs 3 show ?case by simp
qed auto

lemma carry_in_ends:
  assumes "chain_holds H i c xs" "0 < length zs" "length zs \<le> 2 ^ i"
  shows "chain_ends H i (carry_in H (merkle H zs) c) (xs @ zs)"
  using assms
proof (induction H i c xs arbitrary: zs rule: chain_holds.induct)
  case (3 H i nd c xs)
  then obtain ys us where xs: "xs = ys @ us" "length us = 2 ^ i" "nd = merkle H us"
    "chain_holds H (Suc i) c ys" by auto
  have "tree_hash H nd (merkle H zs) = merkle H (us @ zs)"
    using xs 3 by (simp add: merkle_append [of us i])
  with "3.IH" [OF xs(4), of "us @ zs"] xs 3 show ?case by simp
qed auto

lemma chain_holds_pad: "chain_holds H i (c @ replicate k None) xs = chain_holds H i c xs"
proof -
  have "chain_holds H i (replicate k None) xs = (xs = [])" for i xs
    by (induction k arbitrary: i) simp_all
  then show ?thesis by (induction H i c xs rule: chain_holds.induct) simp_all
qed

text \<open>A subtree of level \<open>l\<close> that is not necessarily perfect, but not of a lower level.\<close>

definition fits_level :: "nat \<Rightarrow> nat \<Rightarrow> bool" where
  "fits_level l s \<longleftrightarrow> s \<le> 2 ^ l \<and> 2 ^ l < 2 * s"

lemma fits_level_pos: "fits_level l s \<Longrightarrow> 0 < s"
  by (rule ccontr) (simp add: fits_level_def)

lemma fits_level_full [simp]: "fits_level l (2 ^ l)"
  by (simp add: fits_level_def)

lemma fits_level_node:
  "fits_level l (length zs) \<Longrightarrow> \<lparr>nd_interior = (l \<noteq> 0), nd_value = nd_value (merkle H zs)\<rparr> = merkle H zs"
proof -
  assume f: "fits_level l (length zs)"
  have "l \<noteq> 0 \<longleftrightarrow> 1 < length zs"
  proof (cases l)
    case (Suc k)
    then have "2 * 2 ^ k < 2 * length zs" using f by (simp add: fits_level_def)
    then show ?thesis using two_power_pos [of k] Suc by linarith
  qed (use f in \<open>simp add: fits_level_def\<close>)
  then have "nd_interior (merkle H zs) = (l \<noteq> 0)" by (simp add: merkle_interior)
  then show ?thesis by (cases "merkle H zs") simp
qed

lemma calc_insert_eq:
  assumes "chain_holds H 0 c xs" "2 ^ l dvd length xs" "fits_level l (length zs)"
  obtains c' where "calc_insert H l (nd_value (merkle H zs)) c
      = replicate l None @ carry_in H (merkle H zs) c'" "chain_holds H l c' xs"
proof -
  let ?c = "c @ replicate (l + 1 - length c) None"
  have "chain_holds H 0 ?c xs" using assms(1) by (simp add: chain_holds_pad)
  from chain_free_below [OF this, of l] assms(2) have
    free: "take l ?c = replicate l None" "chain_holds H l (drop l ?c) xs"
    by (simp_all add: min_def)
  have "?c = replicate l None @ drop l ?c" using free(1) by (metis append_take_drop_id)
  then have "calc_insert H l (nd_value (merkle H zs)) c
      = calc_carry H l (merkle H zs) (replicate l None @ drop l ?c)"
    by (simp only: calc_insert_def fits_level_node [OF assms(3)])
  also have "\<dots> = replicate l None @ carry_in H (merkle H zs) (drop l ?c)"
    using calc_carry_eq [of H "replicate l None"] by simp
  finally show ?thesis using free(2) that by blast
qed

lemma chain_free_front:
  "chain_holds H i (replicate l None @ c) xs = chain_holds H (i + l) c xs"
  "chain_ends H i (replicate l None @ c) xs = chain_ends H (i + l) c xs"
  by (induction l arbitrary: i) simp_all

text \<open>A perfect subtree leaves the chain ready for the next insertion, any other one ends it.\<close>

lemma calc_insert_holds:
  assumes "chain_holds H 0 c xs" "2 ^ l dvd length xs" "length zs = 2 ^ l"
  shows "chain_holds H 0 (calc_insert H l (nd_value (merkle H zs)) c) (xs @ zs)"
proof -
  have "fits_level l (length zs)" using assms(3) by simp
  with assms(1,2) obtain c' where "calc_insert H l (nd_value (merkle H zs)) c
      = replicate l None @ carry_in H (merkle H zs) c'" "chain_holds H l c' xs"
    by (rule calc_insert_eq)
  with carry_in_holds [OF this(2) assms(3)] show ?thesis by (simp add: chain_free_front)
qed

lemma calc_insert_ends:
  assumes "chain_holds H 0 c xs" "2 ^ l dvd length xs" "fits_level l (length zs)"
  shows "chain_ends H 0 (calc_insert H l (nd_value (merkle H zs)) c) (xs @ zs)"
proof -
  from assms obtain c' where "calc_insert H l (nd_value (merkle H zs)) c
      = replicate l None @ carry_in H (merkle H zs) c'" "chain_holds H l c' xs"
    by (rule calc_insert_eq)
  with carry_in_ends [OF this(2), of zs] assms(3) fits_level_pos [OF assms(3)] show ?thesis
    by (simp add: chain_free_front fits_level_def)
qed

lemma calc_fold_simps [simp]:
  "calc_fold H [] acc = acc"
  "calc_fold H (None # c) acc = calc_fold H c acc"
  "calc_fold H (Some nd # c) acc = calc_fold H c (tree_hash H nd acc)"
  by (simp_all add: calc_fold_def)

lemma calc_fold_merkle:
  "chain_holds H i c xs \<Longrightarrow> 0 < length zs \<Longrightarrow> length zs \<le> 2 ^ i \<Longrightarrow>
    calc_fold H c (merkle H zs) = merkle H (xs @ zs)"
proof (induction H i c xs arbitrary: zs rule: chain_holds.induct)
  case (3 H i nd c xs)
  then obtain ys us where xs: "xs = ys @ us" "length us = 2 ^ i" "nd = merkle H us"
    "chain_holds H (Suc i) c ys" by auto
  with "3.IH" [OF xs(4), of "us @ zs"] 3 show ?case
    by (simp add: merkle_append [of us i, symmetric])
qed simp_all

lemma calc_root_None: "c \<noteq> [] \<Longrightarrow> calc_root H (None # c) = calc_root H c"
  by (cases "position (\<lambda>nd. nd \<noteq> None) c") (simp_all add: calc_root_def)

lemma calc_root_ends: "chain_ends H i c xs \<Longrightarrow> calc_root H c = Inr (nd_value (merkle H xs))"
proof (induction H i c xs rule: chain_ends.induct)
  case (2 H i c xs)
  then show ?case by (cases c) (simp_all only: calc_root_None chain_ends.simps list.distinct simp_thms)
next
  case (3 H i nd c xs)
  then obtain ys zs where "xs = ys @ zs" "0 < length zs" "length zs \<le> 2 ^ Suc i"
    "nd = merkle H zs" "chain_holds H (Suc i) c ys" by auto
  with calc_fold_merkle [of H "Suc i" c ys zs] show ?case by (simp add: calc_root_def)
qed simp

text \<open>The chain read level by level: an entry for each one of the binary representation of the number of leaves,
  with the perfect subtree over the leaves that this one stands for.\<close>

definition chain_entry :: "SimpleRootCalculator \<Rightarrow> nat \<Rightarrow> NodeData option" where
  "chain_entry c k = (if k < length c then c ! k else None)"

definition level_leaves :: "nat \<Rightarrow> bytes list \<Rightarrow> bytes list" where
  "level_leaves k xs = take (2 ^ k) (drop (length xs div 2 ^ Suc k * 2 ^ Suc k) xs)"

lemma chain_entry_Cons [simp]:
  "chain_entry [] k = None" "chain_entry (e # c) 0 = e" "chain_entry (e # c) (Suc k) = chain_entry c k"
  by (simp_all add: chain_entry_def)

lemma level_leaves_append:
  assumes "2 ^ Suc i dvd length ys" "length zs = 2 ^ i"
  shows "odd (length (ys @ zs) div 2 ^ i)" "level_leaves i (ys @ zs) = zs"
    "length (ys @ zs) div 2 ^ (Suc i + k) = length ys div 2 ^ (Suc i + k)"
    "odd (length ys div 2 ^ (Suc i + k)) \<Longrightarrow> level_leaves (Suc i + k) (ys @ zs) = level_leaves (Suc i + k) ys"
proof -
  from assms(1) obtain m where m: "length ys = 2 ^ Suc i * m" by (rule dvdE)
  have above: "(2 ^ Suc i * m + 2 ^ i) div 2 ^ (Suc i + j) = m div 2 ^ j" for j
  proof -
    have "(2 ^ Suc i * m + 2 ^ i) div 2 ^ Suc i = m"
      using div_mult_self4 [of "2 ^ Suc i :: nat" m "2 ^ i"] by simp
    then show ?thesis by (simp add: power_add div_mult2_eq)
  qed
  have same: "length (ys @ zs) div 2 ^ (Suc i + j) = length ys div 2 ^ (Suc i + j)" for j
    using above [of j] by (simp add: m assms(2) power_add div_mult2_eq)
  show "length (ys @ zs) div 2 ^ (Suc i + k) = length ys div 2 ^ (Suc i + k)" by (rule same)
  have "length (ys @ zs) div 2 ^ i = 2 * m + 1" by (simp add: m assms(2))
  then show "odd (length (ys @ zs) div 2 ^ i)" by simp
  show "level_leaves i (ys @ zs) = zs"
    using same [of 0] assms by (simp add: level_leaves_def)
  assume o: "odd (length ys div 2 ^ (Suc i + k))"
  let ?j = "Suc i + k" and ?s = "length ys div 2 ^ Suc (Suc i + k) * 2 ^ Suc (Suc i + k)"
  have "length ys div 2 ^ ?j = Suc (2 * (length ys div 2 ^ Suc ?j))"
    using o by (metis Suc_eq_plus1 div_mult2_eq odd_two_times_div_two_succ power_Suc2)
  then have "?s + 2 ^ ?j = length ys div 2 ^ ?j * 2 ^ ?j" by (simp add: algebra_simps)
  also have "\<dots> \<le> length ys" by simp
  finally show "level_leaves ?j (ys @ zs) = level_leaves ?j ys"
    using same [of "Suc k"] by (simp add: level_leaves_def)
qed

lemma chain_holds_entry:
  "chain_holds H i c xs \<Longrightarrow> chain_entry c k =
    (if odd (length xs div 2 ^ (i + k)) then Some (merkle H (level_leaves (i + k) xs)) else None)"
proof (induction H i c xs arbitrary: k rule: chain_holds.induct)
  case (2 H i c xs)
  then have h: "chain_holds H (Suc i) c xs" by simp
  from chain_holds_dvd [OF h] have "even (length xs div 2 ^ i)" by (auto elim!: dvdE)
  with "2.IH" [OF h, of "k - 1"] show ?case by (cases k) simp_all
next
  case (3 H i nd c xs)
  then obtain ys zs where xs: "xs = ys @ zs" "length zs = 2 ^ i" "nd = merkle H zs"
    and h: "chain_holds H (Suc i) c ys" by auto
  note l = level_leaves_append [OF chain_holds_dvd [OF h] xs(2)]
  show ?case
  proof (cases k)
    case 0
    with l(1,2) xs show ?thesis by simp
  next
    case (Suc k')
    from "3.IH" [OF h] have "chain_entry c k' = (if odd (length ys div 2 ^ (Suc i + k'))
        then Some (merkle H (level_leaves (Suc i + k') ys)) else None)" .
    with Suc xs(1) l(3,4) show ?thesis by simp
  qed
qed simp

text \<open>C35: The root calculator refines the Merkle tree hash. After the leaves have been inserted one by one, the chain
  is the list of full subtrees: it has an entry at a level exactly if the number of leaves has a one at this place
  of its binary representation, and the entry is the hash of the perfect tree over the leaves this one stands for,
  after those of the higher levels. The root that the code computes from the chain is the hash of the tree over all
  leaves, for any number of them; without a leaf it is the error for an empty chain.\<close>

theorem calculator_refines_merkle:
  "let chain = foldl (\<lambda>c v. calc_insert H 0 v c) SimpleRootCalculator_new xs
   in (\<forall>k. chain_entry chain k = (if odd (length xs div 2 ^ k) then Some (merkle H (level_leaves k xs)) else None)) \<and>
      calc_root H chain = (if xs = [] then Inl (Err EmptyChain) else Inr (nd_value (merkle H xs)))"
proof -
  let ?chain = "foldl (\<lambda>c v. calc_insert H 0 v c) SimpleRootCalculator_new xs"
  have holds: "chain_holds H 0 ?chain xs"
  proof (induction xs rule: rev_induct)
    case Nil
    then show ?case by (simp add: SimpleRootCalculator_new_def)
  next
    case (snoc x xs)
    with calc_insert_holds [of H _ xs 0 "[x]"] show ?case by simp
  qed
  have "calc_root H ?chain = (if xs = [] then Inl (Err EmptyChain) else Inr (nd_value (merkle H xs)))"
  proof (cases "xs = []")
    case False
    with calc_root_ends [OF chain_holds_ends [OF holds]] show ?thesis by simp
  qed (simp add: SimpleRootCalculator_new_def calc_root_def)
  with chain_holds_entry [OF holds] show ?thesis by (simp add: Let_def)
qed

section \<open>Runs of subtrees\<close>

text \<open>The leaves below a node, and the hash that a genuine proof gives for it.\<close>

definition first_leaf :: "nat \<Rightarrow> nat" where
  "first_leaf y = y div 2 ^ Suc (level y) * 2 ^ level y"

definition genuine :: "(bytes \<Rightarrow> bytes) \<Rightarrow> bytes list \<Rightarrow> nat \<Rightarrow> bytes" where
  "genuine H hs y = nd_value (merkle H (take (2 ^ level y) (drop (first_leaf y) hs)))"

lemma first_leaf_node [simp]: "first_leaf (node q l) = q * 2 ^ l"
  unfolding first_leaf_def by (simp only: level_node node_div)

lemma first_leaf_dvd: "2 ^ level y dvd first_leaf y"
  by (simp add: first_leaf_def)

text \<open>Perfect subtrees side by side from leaf \<open>lo\<close> to leaf \<open>hi\<close>.\<close>

fun tiles :: "nat \<Rightarrow> nat \<Rightarrow> nat list \<Rightarrow> bool" where
  "tiles lo hi [] \<longleftrightarrow> lo = hi"
| "tiles lo hi (y # ys) \<longleftrightarrow>
     first_leaf y = lo \<and> lo + 2 ^ level y \<le> hi \<and> tiles (lo + 2 ^ level y) hi ys"

text \<open>The same up to the end of a tree with \<open>n\<close> leaves, whose last subtree need not be perfect.\<close>

definition tiles_to_end :: "nat \<Rightarrow> nat \<Rightarrow> nat list \<Rightarrow> bool" where
  "tiles_to_end lo n ys \<longleftrightarrow>
     (ys = [] \<and> lo = n)
   \<or> (\<exists>us y. ys = us @ [y] \<and> tiles lo (first_leaf y) us \<and> first_leaf y < n
        \<and> fits_level (level y) (n - first_leaf y))"

lemma tiles_le: "tiles lo hi ys \<Longrightarrow> lo \<le> hi"
  by (cases ys) auto

lemma tiles_append: "tiles lo hi (us @ vs) \<longleftrightarrow> (\<exists>mid \<le> hi. tiles lo mid us \<and> tiles mid hi vs)"
proof (induction us arbitrary: lo)
  case Nil
  have "tiles lo hi vs \<Longrightarrow> lo \<le> hi" by (cases vs) auto
  then show ?case by auto
next
  case (Cons y us)
  show ?case
  proof
    assume "tiles lo hi ((y # us) @ vs)"
    with Cons show "\<exists>mid \<le> hi. tiles lo mid (y # us) \<and> tiles mid hi vs"
      using tiles_le by fastforce
  next
    assume "\<exists>mid \<le> hi. tiles lo mid (y # us) \<and> tiles mid hi vs"
    with Cons show "tiles lo hi ((y # us) @ vs)" by fastforce
  qed
qed

lemma tiles_insert:
  assumes "tiles lo hi ys" "hi \<le> length hs" "chain_holds H 0 c (take lo hs)"
  shows "chain_holds H 0 (insert_all H (map (\<lambda>y. (y, genuine H hs y)) ys) c) (take hi hs)"
  using assms
proof (induction ys arbitrary: lo c)
  case Nil
  then show ?case by (simp add: insert_all_def)
next
  case (Cons y ys)
  let ?zs = "take (2 ^ level y) (drop lo hs)"
  have y: "first_leaf y = lo" "lo + 2 ^ level y \<le> hi" "tiles (lo + 2 ^ level y) hi ys"
    using Cons.prems(1) by simp_all
  with Cons.prems have len: "length (take lo hs) = lo" "length ?zs = 2 ^ level y" by auto
  have "2 ^ level y dvd lo" using first_leaf_dvd [of y] y(1) by simp
  with calc_insert_holds [OF Cons.prems(3), of "level y" ?zs] len
  have "chain_holds H 0 (calc_insert H (level y) (genuine H hs y) c) (take (lo + 2 ^ level y) hs)"
    using y(1) by (simp add: genuine_def take_add)
  from Cons.IH [OF y(3) Cons.prems(2) this] show ?case by (simp add: insert_all_def)
qed

lemma tiles_to_end_insert:
  assumes "tiles_to_end lo (length hs) ys" "chain_holds H 0 c (take lo hs)" "hs \<noteq> []"
  shows "chain_ends H 0 (insert_all H (map (\<lambda>y. (y, genuine H hs y)) ys) c) hs"
proof (cases "ys = []")
  case True
  with assms show ?thesis by (simp add: tiles_to_end_def insert_all_def chain_holds_ends)
next
  case False
  with assms(1) obtain us y where ys: "ys = us @ [y]" "tiles lo (first_leaf y) us"
    "first_leaf y < length hs" "fits_level (level y) (length hs - first_leaf y)"
    by (auto simp: tiles_to_end_def)
  let ?zs = "drop (first_leaf y) hs" and ?c = "insert_all H (map (\<lambda>y. (y, genuine H hs y)) us) c"
  have "chain_holds H 0 ?c (take (first_leaf y) hs)"
    using tiles_insert [OF ys(2) _ assms(2)] ys(3) by simp
  from calc_insert_ends [OF this, of "level y" ?zs] first_leaf_dvd [of y] ys(3,4)
  have "chain_ends H 0 (calc_insert H (level y) (nd_value (merkle H ?zs)) ?c) hs" by simp
  moreover have "genuine H hs y = nd_value (merkle H ?zs)"
    using ys(4) by (simp add: genuine_def fits_level_def)
  ultimately show ?thesis using ys(1) by (simp add: insert_all_def)
qed

section \<open>The nodes of a tree with \<open>n\<close> leaves\<close>

lemma log_root_fits:
  assumes "0 < n" "n \<le> 2 ^ 62"
  obtains l where "log_root n = Inr (node 0 l)" "fits_level l n"
proof -
  let ?w = "2 * (n - 1) + 1"
  have "log_root n = Inr (node 0 (log2 ?w))"
    using assms by (simp add: log_root_def node_width_def node_def push_bit_eq_mult)
  moreover have "fits_level (log2 ?w) n"
    using log2_bounds [of ?w] assms(1) by (auto simp: fits_level_def)
  ultimately show ?thesis using that by blast
qed

lemma left_below_fits:
  assumes "q * 2 ^ l < n" "n - q * 2 ^ l \<le> 2 ^ l"
  shows "\<exists>p j. left_below (node q l) (2 * (n - 1) + 1) = Inr (node p j) \<and> p * 2 ^ j = q * 2 ^ l
    \<and> fits_level j (n - q * 2 ^ l)"
  using assms
proof (induction l arbitrary: q)
  case 0
  then have "fits_level 0 (n - q * 2 ^ 0)" by (auto simp: fits_level_def)
  with 0 show ?case
    by (intro exI [of _ q] exI [of _ 0]) (auto simp: left_below.simps [of "2 * q"])
next
  case (Suc l)
  define a where "a = q * 2 ^ l"
  have node: "Suc (node q (Suc l)) = 4 * a + 2 * 2 ^ l"
    using Suc_node [of q "Suc l"] by (simp add: a_def)
  have start: "q * 2 ^ Suc l = 2 * a" "2 * q * 2 ^ l = 2 * a" by (simp_all add: a_def)
  show ?case
  proof (cases "n - 2 * a \<le> 2 ^ l")
    case True
    have "2 * (n - 1) + 1 \<le> node q (Suc l)" using True node Suc.prems(1) unfolding start by linarith
    then have "left_below (node q (Suc l)) (2 * (n - 1) + 1) = left_below (node (2 * q) l) (2 * (n - 1) + 1)"
      by (simp add: left_below.simps [of "node q (Suc l)"] left_step_node)
    with Suc.IH [of "2 * q"] Suc.prems(1) True show ?thesis unfolding start by simp
  next
    case False
    then have "\<not> 2 * (n - 1) + 1 \<le> node q (Suc l)" using node Suc.prems(1) unfolding start by linarith
    moreover have "fits_level (Suc l) (n - 2 * a)"
      using False Suc.prems(2) unfolding start by (simp add: fits_level_def)
    ultimately show ?thesis
      unfolding start
      by - (rule exI [of _ q], rule exI [of _ "Suc l"],
        simp add: left_below.simps [of "node q (Suc l)"] start [simplified])
  qed
qed

text \<open>The right child of a node whose right half is not empty.\<close>

lemma log_right_fits:
  assumes "Suc (2 * q) * 2 ^ l < n" "n - Suc (2 * q) * 2 ^ l \<le> 2 ^ l" "n \<le> 2 ^ 62"
  obtains p j where "log_right (node q (Suc l)) n = Inr (node p j)" "p * 2 ^ j = Suc (2 * q) * 2 ^ l"
    "fits_level j (n - Suc (2 * q) * 2 ^ l)"
proof -
  define a where "a = Suc (2 * q) * 2 ^ l"
  have "2 ^ l \<le> a" "a < 2 ^ 62" using assms(1,3) by (simp_all add: a_def)
  moreover have "Suc (node (Suc (2 * q)) l) = 2 * a + 2 ^ l"
    using Suc_node [of "Suc (2 * q)" l] by (simp add: a_def)
  ultimately have "node (Suc (2 * q)) l < 2 ^ 64" by simp
  then have "log_right (node q (Suc l)) n = left_below (node (Suc (2 * q)) l) (2 * (n - 1) + 1)"
    using assms by (simp add: log_right_def right_step_node node_width_def)
  with left_below_fits [OF assms(1,2)] that show ?thesis by auto
qed

text \<open>The perfect subtrees of \<open>m\<close> leaves from leaf \<open>lo\<close> on, the largest first.\<close>

function peaks :: "nat \<Rightarrow> nat \<Rightarrow> nat list" where
  "peaks lo m =
     (if m = 0 then []
      else node (lo div 2 ^ log2 m) (log2 m) # peaks (lo + 2 ^ log2 m) (m - 2 ^ log2 m))"
  by pat_completeness auto
termination
  by (relation "measure snd") (use log2_bounds in auto)

declare peaks.simps [simp del]

lemma log2_power [simp]: "log2 (2 ^ l) = l"
  by (rule log2_eqI) simp_all

lemma log2_rest: "log2 m = l \<Longrightarrow> 2 ^ l < m \<Longrightarrow> log2 (m - 2 ^ l) < l"
proof -
  assume l: "log2 m = l" "2 ^ l < m"
  then have "m - 2 ^ l < 2 ^ l" using log2_bounds [of m] by auto
  moreover have "2 ^ log2 (m - 2 ^ l) \<le> m - 2 ^ l" using log2_bounds [of "m - 2 ^ l"] l by simp
  ultimately have "(2 :: nat) ^ log2 (m - 2 ^ l) < 2 ^ l" by (rule le_less_trans [rotated])
  then show ?thesis by (rule power_less_imp_less_exp [rotated]) simp
qed

lemma peaks_power: "2 ^ l dvd lo \<Longrightarrow> peaks lo (2 ^ l) = [node (lo div 2 ^ l) l]"
  by (simp add: peaks.simps [of lo "2 ^ l"] peaks.simps [of _ 0])

lemma peaks_tiles: "2 ^ log2 m dvd lo \<Longrightarrow> tiles lo (lo + m) (peaks lo m)"
proof (induction m arbitrary: lo rule: less_induct)
  case (less m)
  show ?case
  proof (cases "m = 0")
    case False
    let ?l = "log2 m"
    have b: "2 ^ ?l \<le> m" using log2_bounds [of m] False by simp
    have "2 ^ log2 (m - 2 ^ ?l) dvd lo + 2 ^ ?l"
    proof (cases "m = 2 ^ ?l")
      case False
      with b log2_rest [of m ?l] have "log2 (m - 2 ^ ?l) \<le> ?l" by simp
      then have "(2 :: nat) ^ log2 (m - 2 ^ ?l) dvd 2 ^ ?l" by (rule le_imp_power_dvd)
      with less.prems show ?thesis by (meson dvd_add dvd_trans)
    qed (simp add: less.prems)
    with less.IH [of "m - 2 ^ ?l" "lo + 2 ^ ?l"] b False less.prems show ?thesis
      by (simp add: peaks.simps [of lo m])
  qed (simp add: peaks.simps)
qed

lemma full_subtrees_peaks:
  assumes "fits_level l (m - q * 2 ^ l)" "q * 2 ^ l < m" "m \<le> 2 ^ 62"
  shows "full_subtrees (node q l) m = Inr (peaks (q * 2 ^ l) (m - q * 2 ^ l))"
  using assms(1,2)
proof (induction l arbitrary: q rule: less_induct)
  case (less l)
  define a where "a = q * 2 ^ l"
  have nd: "Suc (node q l) = 2 * a + 2 ^ l" using Suc_node [of q l] by (simp add: a_def)
  have fit: "m - a \<le> 2 ^ l" "2 ^ l < 2 * (m - a)" "a < m"
    using less.prems by (simp_all add: fits_level_def a_def)
  have "node q l + 2 ^ l < 2 ^ 64" using nd fit assms(3) by simp
  then have full: "is_full_subtree (node q l) m = Inr (a + 2 ^ l \<le> m)"
    using nd fit assms(3) by (auto simp: is_full_subtree_def push_bit_eq_mult)
  show ?case
  proof (cases "a + 2 ^ l \<le> m")
    case True
    then have "m - a = 2 ^ l" using fit by simp
    moreover have "peaks a (2 ^ l) = [node q l]"
      using peaks_power [of l a] by (simp add: a_def)
    ultimately show ?thesis
      using full True unfolding a_def [symmetric] by (simp add: full_subtrees.simps [of "node q l"])
  next
    case False
    then obtain k where l: "l = Suc k" using fit by (cases l) auto
    have half: "Suc (2 * q) * 2 ^ k = a + 2 ^ k" "2 * q * 2 ^ k = a" by (simp_all add: a_def l)
    have log: "log2 (m - a) = k" by (rule log2_eqI) (use False fit l in auto)
    have "a + 2 ^ k < m" "m - (a + 2 ^ k) \<le> 2 ^ k" using fit l by auto
    with log_right_fits [of q k m] assms(3) obtain p j where
      r: "log_right (node q l) m = Inr (node p j)" "p * 2 ^ j = a + 2 ^ k" "fits_level j (m - (a + 2 ^ k))"
      unfolding half l by blast
    have "j < l" using level_log_right [OF r(1)] by simp
    from less.IH [OF this, of p] r \<open>a + 2 ^ k < m\<close> have
      "full_subtrees (node p j) m = Inr (peaks (a + 2 ^ k) (m - (a + 2 ^ k)))" by simp
    moreover have "peaks a (m - a) = node (2 * q) k # peaks (a + 2 ^ k) (m - (a + 2 ^ k))"
      using fit(3) log by (subst peaks.simps) (simp add: half(2) [symmetric])
    ultimately show ?thesis
      using full False r(1) unfolding a_def [symmetric]
      by (simp add: full_subtrees.simps [of "node q (Suc k)"] l left_step_node)
  qed
qed

section \<open>The nodes of a consistency proof\<close>

lemma node_shift: "2 ^ l dvd k \<Longrightarrow> node q l + 2 * k = node (q + k div 2 ^ l) l"
proof -
  assume "2 ^ l dvd k"
  then obtain j where k: "k = 2 ^ l * j" by blast
  have "Suc (node q l) + 2 * k = Suc (node (q + j) l)"
    unfolding Suc_node k by (simp add: algebra_simps)
  then show ?thesis by (simp add: k)
qed

lemma shift_node:
  assumes "2 ^ level y dvd k"
  shows "level (y + 2 * k) = level y" "first_leaf (y + 2 * k) = first_leaf y + k"
proof -
  obtain q l where y: "y = node q l" by (rule node_cases)
  with assms have "y + 2 * k = node (q + k div 2 ^ l) l" by (simp add: node_shift)
  with y assms show "level (y + 2 * k) = level y" "first_leaf (y + 2 * k) = first_leaf y + k"
    by (simp_all add: add_mult_distrib)
qed

lemma tiles_shift:
  "tiles lo hi ys \<Longrightarrow> (\<forall>y \<in> set ys. 2 ^ level y dvd k) \<Longrightarrow>
    tiles (lo + k) (hi + k) (map (\<lambda>y. y + 2 * k) ys)"
  by (induction lo hi ys rule: tiles.induct) (auto simp: shift_node add.commute add.left_commute)

lemma tiles_level: "tiles lo hi ys \<Longrightarrow> y \<in> set ys \<Longrightarrow> 2 ^ level y \<le> hi"
  by (induction lo hi ys rule: tiles.induct) auto

lemma tiles_to_end_level:
  assumes "tiles_to_end lo n ys" "y \<in> set ys" "n \<le> 2 ^ j"
  shows "2 ^ level y dvd (2 :: nat) ^ j"
proof -
  from assms(1,2) obtain us z where ys: "ys = us @ [z]" "tiles lo (first_leaf z) us" "first_leaf z < n"
    "fits_level (level z) (n - first_leaf z)" by (auto simp: tiles_to_end_def)
  have "(2 :: nat) ^ level y < 2 * n"
  proof (cases "y = z")
    case True
    with ys(4) show ?thesis by (auto simp: fits_level_def)
  next
    case False
    with assms(2) ys(1) have "2 ^ level y \<le> first_leaf z" by (auto intro: tiles_level [OF ys(2)])
    with ys(3) show ?thesis by simp
  qed
  then have "(2 :: nat) ^ level y < 2 ^ Suc j" using assms(3) by simp
  then have "level y < Suc j" by (rule power_less_imp_less_exp [rotated]) simp
  then show ?thesis by (simp add: le_imp_power_dvd)
qed

lemma tiles_to_end_shift:
  assumes "tiles_to_end lo n ys" "n \<le> 2 ^ j"
  shows "tiles_to_end (lo + 2 ^ j) (n + 2 ^ j) (map (\<lambda>y. y + 2 * 2 ^ j) ys)"
proof (cases "ys = []")
  case True
  with assms(1) show ?thesis by (simp add: tiles_to_end_def)
next
  case False
  with assms(1) obtain us z where ys: "ys = us @ [z]" "tiles lo (first_leaf z) us" "first_leaf z < n"
    "fits_level (level z) (n - first_leaf z)" by (auto simp: tiles_to_end_def)
  have lev: "\<forall>y \<in> set ys. 2 ^ level y dvd (2 :: nat) ^ j"
    using tiles_to_end_level [OF assms(1) _ assms(2)] by blast
  then have z: "level (z + 2 * 2 ^ j) = level z" "first_leaf (z + 2 * 2 ^ j) = first_leaf z + 2 ^ j"
    using shift_node [of z "2 ^ j"] ys(1) by simp_all
  have "tiles (lo + 2 ^ j) (first_leaf z + 2 ^ j) (map (\<lambda>y. y + 2 * 2 ^ j) us)"
    using tiles_shift [OF ys(2)] lev ys(1) by simp
  with z ys(3,4) show ?thesis unfolding tiles_to_end_def ys(1) by auto
qed

lemma tiles_tiles_to_end:
  assumes "tiles lo n ys"
  shows "tiles_to_end lo n ys"
proof (cases ys rule: rev_cases)
  case Nil
  with assms show ?thesis by (simp add: tiles_to_end_def)
next
  case (snoc us y)
  with assms have "tiles lo (first_leaf y) us" "first_leaf y + 2 ^ level y = n"
    by (auto simp: tiles_append)
  with snoc show ?thesis by (auto simp: tiles_to_end_def)
qed

lemma peaks_shift: "2 ^ log2 m dvd k \<Longrightarrow> map (\<lambda>y. y + 2 * k) (peaks lo m) = peaks (lo + k) m"
proof (induction m arbitrary: lo rule: less_induct)
  case (less m)
  show ?case
  proof (cases "m = 0")
    case False
    let ?l = "log2 m"
    have b: "2 ^ ?l \<le> m" using log2_bounds [of m] False by simp
    have "2 ^ log2 (m - 2 ^ ?l) dvd k"
    proof (cases "m = 2 ^ ?l")
      case False
      with b log2_rest [of m ?l] have "log2 (m - 2 ^ ?l) \<le> ?l" by simp
      with less.prems show ?thesis by (meson dvd_trans le_imp_power_dvd)
    qed simp
    moreover have "(lo + k) div 2 ^ ?l = lo div 2 ^ ?l + k div 2 ^ ?l"
      using less.prems by (rule div_plus_div_distrib_dvd_right)
    moreover have "lo + k + 2 ^ ?l = lo + 2 ^ ?l + k" by simp
    ultimately show ?thesis
      using less.IH [of "m - 2 ^ ?l" "lo + 2 ^ ?l"] less.prems b False
      by (simp only: peaks.simps [of lo m] peaks.simps [of "lo + k" m]) (simp add: node_shift)
  qed (simp add: peaks.simps)
qed

lemma fits_level_unique: "fits_level l s \<Longrightarrow> fits_level k s \<Longrightarrow> l = k"
proof -
  assume f: "fits_level l s" "fits_level k s"
  then have "(2 :: nat) ^ l < 2 ^ Suc k" "(2 :: nat) ^ k < 2 ^ Suc l" by (auto simp: fits_level_def)
  then have "l < Suc k" "k < Suc l" by (auto intro: power_less_imp_less_exp [of "2 :: nat"])
  then show ?thesis by simp
qed

text \<open>The root and its two children in a tree with more than \<open>2 ^ j\<close> and at most \<open>2 ^ (j + 1)\<close> leaves.\<close>

lemma log_children:
  assumes "2 ^ j < n" "n \<le> 2 ^ Suc j" "n \<le> 2 ^ 62"
  obtains y where "log_root n = Inr (node 0 (Suc j))" "left_step (node 0 (Suc j)) = Inr (node 0 j)"
    "log_right (node 0 (Suc j)) n = Inr y" "first_leaf y = 2 ^ j" "fits_level (level y) (n - 2 ^ j)"
proof -
  have "fits_level (Suc j) n" using assms by (simp add: fits_level_def)
  moreover obtain l where "log_root n = Inr (node 0 l)" "fits_level l n"
    using assms by (auto intro: log_root_fits [of n])
  ultimately have "log_root n = Inr (node 0 (Suc j))" using fits_level_unique by blast
  moreover obtain p i where "log_right (node 0 (Suc j)) n = Inr (node p i)" "p * 2 ^ i = 2 ^ j"
    "fits_level i (n - 2 ^ j)"
    by (rule log_right_fits [of 0 j n]) (use assms in auto)
  ultimately show ?thesis using that [of "node p i"] left_step_node [of 0 j] by simp
qed

lemma sub_proof_split_eq: "2 ^ j < n \<Longrightarrow> n \<le> 2 ^ Suc j \<Longrightarrow> sub_proof_split n = 2 ^ j"
proof -
  assume n: "2 ^ j < n" "n \<le> 2 ^ Suc j"
  show ?thesis
  proof (cases "n = 2 ^ Suc j")
    case True
    then show ?thesis by (simp only: sub_proof_split_def log2_power) (simp add: push_bit_eq_mult)
  next
    case False
    with n have "log2 n = j" by (intro log2_eqI) simp_all
    with n show ?thesis by (simp add: sub_proof_split_def push_bit_eq_mult)
  qed
qed

definition is_power :: "nat \<Rightarrow> bool" where
  "is_power m \<longleftrightarrow> (\<exists>l. m = 2 ^ l)"

lemma not_is_power: "2 ^ j < m \<Longrightarrow> m < 2 ^ Suc j \<Longrightarrow> \<not> is_power m"
  using log2_eqI [of j m] by (auto simp: is_power_def)

lemma peaks_split:
  assumes "2 ^ j < m" "m < 2 ^ Suc j"
  shows "peaks 0 m = node 0 j # map (\<lambda>y. y + 2 * 2 ^ j) (peaks 0 (m - 2 ^ j))"
proof -
  have log: "log2 m = j" using assms by (intro log2_eqI) simp_all
  have "log2 (m - 2 ^ j) < j" using log assms(1) by (rule log2_rest)
  then have "2 ^ log2 (m - 2 ^ j) dvd (2 :: nat) ^ j" by (simp add: le_imp_power_dvd)
  from peaks_shift [OF this, of 0] log assms(1) show ?thesis by (simp add: peaks.simps [of 0 m])
qed

lemma sub_proof_same:
  "sub_proof_impl m m b = (if b then Inr [] else try_bind (log_root m) (\<lambda>r. Inr [r]))"
  by (subst sub_proof_impl.simps) simp

text \<open>In a perfect tree.\<close>

lemma sub_proof_power:
  assumes "0 < m" "m \<le> 2 ^ j" "j \<le> 62"
  shows "\<exists>rest. sub_proof_impl m (2 ^ j) b = Inr ((if b \<and> is_power m then [] else peaks 0 m) @ rest)
    \<and> tiles m (2 ^ j) rest"
  using assms
proof (induction j arbitrary: m b)
  case 0
  then have "m = 1" by simp
  moreover have "is_power 1" unfolding is_power_def by (rule exI [of _ 0]) simp
  moreover have "peaks 0 1 = [0]" using peaks_power [of 0 0] by simp
  ultimately show ?case
    by (cases b) (simp_all add: sub_proof_same log_root_1 [simplified])
next
  case (Suc j)
  have le: "(2 :: nat) ^ Suc j \<le> 2 ^ 62" using Suc.prems(3) by (intro power_increasing) simp_all
  have lt: "(2 :: nat) ^ j < 2 ^ Suc j" by simp
  from lt le obtain y where y: "log_root (2 ^ Suc j) = Inr (node 0 (Suc j))"
    "left_step (node 0 (Suc j)) = Inr (node 0 j)"
    "log_right (node 0 (Suc j)) (2 ^ Suc j) = Inr y" "first_leaf y = 2 ^ j"
    "fits_level (level y) (2 ^ Suc j - 2 ^ j)" by (rule log_children [OF _ order_refl])
  have split: "sub_proof_split (2 ^ Suc j) = 2 ^ j" by (rule sub_proof_split_eq) simp_all
  consider "m = 2 ^ Suc j" | "m \<le> 2 ^ j" | "2 ^ j < m" "m < 2 ^ Suc j" using Suc.prems(2) by linarith
  then show ?case
  proof cases
    case 1
    with y(1) peaks_power [of "Suc j" 0] show ?thesis
      by (auto simp: sub_proof_same is_power_def simp del: power_Suc)
  next
    case 2
    with Suc.IH [of m b] Suc.prems obtain rest where rest:
      "sub_proof_impl m (2 ^ j) b = Inr ((if b \<and> is_power m then [] else peaks 0 m) @ rest)"
      "tiles m (2 ^ j) rest" by auto
    define N where "N = (2 :: nat) ^ Suc j"
    have "level y = j" using y(5) fits_level_unique [of "level y" "2 ^ j" j] by simp
    with y(4) lt rest(2) have "tiles m N (rest @ [y])"
      unfolding tiles_append N_def by (intro exI [of _ "2 ^ j"]) simp
    moreover have "m \<noteq> N" using 2 lt unfolding N_def by linarith
    ultimately show ?thesis
      using 2 y(1,3) rest(1) split unfolding N_def [symmetric]
      by (intro exI [of _ "rest @ [y]"]) (simp add: sub_proof_impl.simps [of m N])
  next
    case 3
    then have np: "\<not> is_power m" by (rule not_is_power)
    have "0 < m - 2 ^ j" "m - 2 ^ j \<le> 2 ^ j" "j \<le> 62" using 3 Suc.prems(3) by auto
    from Suc.IH [OF this, of False] obtain rest where rest:
      "sub_proof_impl (m - 2 ^ j) (2 ^ j) False = Inr (peaks 0 (m - 2 ^ j) @ rest)"
      "tiles (m - 2 ^ j) (2 ^ j) rest" by auto
    have sub: "(2 :: nat) ^ Suc j - 2 ^ j = 2 ^ j" by simp
    have "\<forall>y \<in> set rest. 2 ^ level y dvd (2 :: nat) ^ j"
      using tiles_to_end_level [OF tiles_tiles_to_end [OF rest(2)]] by blast
    from tiles_shift [OF rest(2) this] 3 have
      "tiles m (2 ^ Suc j) (map (\<lambda>y. y + 2 * 2 ^ j) rest)" by (simp add: mult_2)
    with np rest(1) y(1,2) 3 show ?thesis
      by (intro exI [of _ "map (\<lambda>y. y + 2 * 2 ^ j) rest"])
        (simp add: sub_proof_impl.simps [of m "2 ^ Suc j"] split sub peaks_split Let_def del: power_Suc)
  qed
qed

text \<open>In any tree.\<close>

lemma sub_proof_ok:
  assumes "0 < m" "m < n" "n \<le> 2 ^ 62"
  shows "\<exists>rest. sub_proof_impl m n b = Inr ((if b \<and> is_power m then [] else peaks 0 m) @ rest)
    \<and> tiles_to_end m n rest"
  using assms
proof (induction n arbitrary: m b rule: less_induct)
  case (less n)
  define j where "j = log2 (n - 1)"
  have j: "2 ^ j < n" "n \<le> 2 ^ Suc j" using log2_bounds [of "n - 1"] less.prems by (auto simp: j_def)
  from j less.prems(3) obtain y where y: "log_root n = Inr (node 0 (Suc j))"
    "left_step (node 0 (Suc j)) = Inr (node 0 j)"
    "log_right (node 0 (Suc j)) n = Inr y" "first_leaf y = 2 ^ j"
    "fits_level (level y) (n - 2 ^ j)" by (rule log_children)
  have split: "sub_proof_split n = 2 ^ j" using j by (rule sub_proof_split_eq)
  show ?case
  proof (cases "m \<le> 2 ^ j")
    case True
    have "(2 :: nat) ^ j < 2 ^ 62" using j(1) less.prems(3) by linarith
    then have "j < 62" by (rule power_less_imp_less_exp [rotated]) simp
    with True sub_proof_power [of m j b] less.prems(1) obtain rest where
      "sub_proof_impl m (2 ^ j) b = Inr ((if b \<and> is_power m then [] else peaks 0 m) @ rest)"
      "tiles m (2 ^ j) rest" by auto
    moreover from this(2) y(4,5) j(1) have "tiles_to_end m n (rest @ [y])"
      by (simp add: tiles_to_end_def)
    ultimately show ?thesis
      using True y(1,3) less.prems(2)
      by (intro exI [of _ "rest @ [y]"]) (simp add: sub_proof_impl.simps [of m n] split)
  next
    case False
    with less.prems(2) j(2) have np: "\<not> is_power m" by (intro not_is_power [of j]) simp_all
    have "n - 2 ^ j < n" "0 < m - 2 ^ j" "m - 2 ^ j < n - 2 ^ j" "n - 2 ^ j \<le> 2 ^ 62"
      using False less.prems by auto
    from less.IH [OF this, of False] obtain rest where rest:
      "sub_proof_impl (m - 2 ^ j) (n - 2 ^ j) False = Inr (peaks 0 (m - 2 ^ j) @ rest)"
      "tiles_to_end (m - 2 ^ j) (n - 2 ^ j) rest" by auto
    have "n - 2 ^ j \<le> 2 ^ j" using j(2) by simp
    from tiles_to_end_shift [OF rest(2) this] False j(1) have
      "tiles_to_end m n (map (\<lambda>y. y + 2 * 2 ^ j) rest)" by simp
    moreover have "m < 2 ^ Suc j" using j(2) less.prems(2) by linarith
    ultimately show ?thesis
      using np rest(1) y(1,2) False j(1) less.prems(2)
      by (intro exI [of _ "map (\<lambda>y. y + 2 * 2 ^ j) rest"])
        (simp add: sub_proof_impl.simps [of m n] split peaks_split [of j m] Let_def)
  qed
qed

end
