(* ===== verification/Log_Proofs.thy ===== *)
theory Log_Proofs
  imports Merkle_Proofs
begin

text \<open>
  The two kinds of proof that clients of the log check. A genuine proof is accepted, and what is
  accepted is genuine as long as the strings hashed on the way contain no collision; the strings are
  made explicit by \<open>run_inputs\<close> and \<open>root_inputs\<close>.
\<close>

section \<open>A genuine consistency proof is accepted\<close>

definition genuine_consistency :: "(bytes \<Rightarrow> bytes) \<Rightarrow> bytes list \<Rightarrow> nat \<Rightarrow> bytes list or_panic" where
  "genuine_consistency H hs m =
     try_bind (consistency_proof m (length hs)) (\<lambda>ids. Inr (map (genuine H hs) ids))"

lemma insert_all_append: "insert_all H (xs @ ys) c = insert_all H ys (insert_all H xs c)"
  by (simp add: insert_all_def)

lemma insert_all_Nil [simp]: "insert_all H [] c = c"
  by (simp add: insert_all_def)

lemma zip_genuine: "zip ids (map (genuine H hs) ids) = map (\<lambda>y. (y, genuine H hs y)) ids"
  by (simp add: zip_map2 zip_same_conv_map)

lemma insert_path_prefix:
  "length vs = length path \<Longrightarrow> length as = i \<Longrightarrow> length ws = i \<Longrightarrow>
   insert_path H path (as @ path @ ids) (ws @ vs @ pf) i c
   = Inr (i + length path, insert_all H (zip path vs) c)"
proof (induction path arbitrary: i c as vs ws)
  case Nil
  then show ?case by (simp add: insert_all_def)
next
  case (Cons e path)
  then obtain v vs' where vs: "vs = v # vs'" by (cases vs) auto
  with Cons.IH [of vs' "as @ [e]" "Suc i" "ws @ [v]" "calc_insert H (level e) v c"] Cons.prems
  show ?case by (simp add: insert_all_def nth_append)
qed

lemma peaks_length: "0 < m \<Longrightarrow> length (peaks 0 m) = 1 \<longleftrightarrow> is_power m"
proof -
  assume m: "0 < m"
  have "peaks 0 m = node 0 (log2 m) # peaks (2 ^ log2 m) (m - 2 ^ log2 m)"
    using m by (simp add: peaks.simps [of 0 m])
  moreover have "peaks lo k = [] \<longleftrightarrow> k = 0" for lo k by (simp add: peaks.simps [of lo k])
  moreover have "m - 2 ^ log2 m = 0 \<longleftrightarrow> is_power m"
  proof
    assume "m - 2 ^ log2 m = 0"
    with log2_bounds [of m] m have "m = 2 ^ log2 m" by simp
    then show "is_power m" unfolding is_power_def ..
  qed (auto simp: is_power_def)
  ultimately show ?thesis by simp
qed

text \<open>
  What the code checks, whatever hashes the proof holds: it starts from the earlier tree, which is
  its root alone when it is perfect and else the first hashes of the proof, and adds the rest.
\<close>

definition head_length :: "nat \<Rightarrow> nat" where
  "head_length m = (if is_power m then 0 else length (peaks 0 m))"

definition start_chain :: "(bytes \<Rightarrow> bytes) \<Rightarrow> nat \<Rightarrow> bytes list \<Rightarrow> bytes \<Rightarrow> SimpleRootCalculator" where
  "start_chain H m pf m_root =
     (if is_power m then calc_insert H (log2 m) m_root []
      else insert_all H (zip (peaks 0 m) (take (head_length m) pf)) [])"

lemma verify_consistency_iff:
  assumes "0 < m" "m < n" "n \<le> 2 ^ 62"
  shows "\<exists>rest. consistency_proof m n = Inr ((if is_power m then [] else peaks 0 m) @ rest)
    \<and> tiles_to_end m n rest
    \<and> (\<forall>pf m_root n_root. verify_consistency_proof H m n pf m_root n_root = Inr () \<longleftrightarrow>
        length pf = head_length m + length rest
        \<and> (is_power m \<or> calc_root H (start_chain H m pf m_root) = Inr m_root)
        \<and> calc_root H (insert_all H (zip rest (drop (head_length m) pf)) (start_chain H m pf m_root))
          = Inr n_root)"
proof -
  from sub_proof_ok [OF assms, of True] obtain rest where
    ids: "consistency_proof m n = Inr ((if is_power m then [] else peaks 0 m) @ rest)"
    and tiles: "tiles_to_end m n rest" by (auto simp: consistency_proof_def)
  have "m \<le> 2 ^ 62" using assms by simp
  with assms(1) obtain l where l: "log_root m = Inr (node 0 l)" "fits_level l m"
    by (rule log_root_fits)
  have fs: "full_subtrees (node 0 l) m = Inr (peaks 0 m)"
    using full_subtrees_peaks [of l m 0] l(2) assms by simp
  have "verify_consistency_proof H m n pf m_root n_root = Inr () \<longleftrightarrow>
        length pf = head_length m + length rest
        \<and> (is_power m \<or> calc_root H (start_chain H m pf m_root) = Inr m_root)
        \<and> calc_root H (insert_all H (zip rest (drop (head_length m) pf)) (start_chain H m pf m_root))
          = Inr n_root" for pf m_root n_root
  proof (cases "is_power m")
    case True
    then have "l = log2 m" using l(2) fits_level_unique by (auto simp: is_power_def)
    with True assms ids l(1) fs peaks_length [OF assms(1)] show ?thesis
      by (auto simp: verify_consistency_proof_def panicking_def SimpleRootCalculator_new_def
        head_length_def start_chain_def res_simps split: if_splits)
  next
    case False
    show ?thesis
    proof (cases "length pf = head_length m + length rest")
      case True
      let ?ps = "take (head_length m) pf" and ?qs = "drop (head_length m) pf"
      have "insert_path H (peaks 0 m) (peaks 0 m @ rest) (?ps @ ?qs) 0 []
          = Inr (length (peaks 0 m), insert_all H (zip (peaks 0 m) ?ps) [])"
        using insert_path_prefix [of ?ps "peaks 0 m" "[]" 0 "[]" H rest ?qs "[]"] True False
        by (simp add: head_length_def)
      moreover have "drop (length (peaks 0 m)) (zip (peaks 0 m @ rest) pf) = zip rest ?qs"
        using False by (simp add: head_length_def drop_zip)
      ultimately show ?thesis
        using True False assms ids l(1) fs peaks_length [OF assms(1)]
        by (auto simp: verify_consistency_proof_def panicking_def SimpleRootCalculator_new_def
          head_length_def start_chain_def res_simps split: if_splits)
    qed (use False assms ids in \<open>simp add: verify_consistency_proof_def panicking_def head_length_def\<close>)
  qed
  with ids tiles show ?thesis by blast
qed

lemma genuine_run:
  assumes "0 < m" "m < length hs" "length hs \<le> 2 ^ 62" "tiles_to_end m (length hs) rest"
    "chain_holds H 0 c (take m hs)"
  shows "calc_root H (insert_all H (zip rest (map (genuine H hs) rest)) c)
    = Inr (nd_value (merkle H hs))"
proof -
  have "hs \<noteq> []" using assms(2) by auto
  from calc_root_ends [OF tiles_to_end_insert [OF assms(4,5) this]] show ?thesis
    by (simp add: zip_genuine)
qed

lemma genuine_peaks:
  assumes "0 < m" "m \<le> length hs"
  shows "chain_holds H 0 (insert_all H (zip (peaks 0 m) (map (genuine H hs) (peaks 0 m))) []) (take m hs)"
proof -
  have "tiles 0 m (peaks 0 m)" using peaks_tiles [of m 0] by simp
  from tiles_insert [OF this assms(2), of H "[]"] show ?thesis by (simp add: zip_genuine)
qed

lemma genuine_power:
  assumes "is_power m" "m \<le> length hs"
  shows "chain_holds H 0 (calc_insert H (log2 m) (nd_value (merkle H (take m hs))) []) (take m hs)"
proof -
  from assms(1) obtain l where "m = 2 ^ l" by (auto simp: is_power_def)
  with calc_insert_holds [of H "[]" "[]" l "take m hs"] assms(2) show ?thesis by simp
qed

lemma genuine_start:
  assumes "0 < m" "m \<le> length hs"
  shows "chain_holds H 0 (start_chain H m (map (genuine H hs) ((if is_power m then [] else peaks 0 m) @ rest))
      (nd_value (merkle H (take m hs)))) (take m hs)"
    "calc_root H (start_chain H m (map (genuine H hs) ((if is_power m then [] else peaks 0 m) @ rest))
      (nd_value (merkle H (take m hs)))) = Inr (nd_value (merkle H (take m hs)))"
proof -
  show holds: "chain_holds H 0 (start_chain H m (map (genuine H hs) ((if is_power m then [] else peaks 0 m) @ rest))
      (nd_value (merkle H (take m hs)))) (take m hs)"
    using genuine_power [of m hs H] genuine_peaks [OF assms, of H] assms
    by (simp add: start_chain_def head_length_def)
  have "take m hs \<noteq> []" using assms by auto
  from calc_root_ends [OF chain_holds_ends [OF holds this]] show
    "calc_root H (start_chain H m (map (genuine H hs) ((if is_power m then [] else peaks 0 m) @ rest))
      (nd_value (merkle H (take m hs)))) = Inr (nd_value (merkle H (take m hs)))" .
qed

lemma genuine_accepted:
  assumes "0 < m" "m < length hs" "length hs \<le> 2 ^ 62"
  shows "\<exists>pf. genuine_consistency H hs m = Inr pf
    \<and> verify_consistency_proof H m (length hs) pf (nd_value (merkle H (take m hs)))
        (nd_value (merkle H hs)) = Inr ()"
proof -
  from verify_consistency_iff [OF assms, of H] obtain rest where
    rest: "consistency_proof m (length hs) = Inr ((if is_power m then [] else peaks 0 m) @ rest)"
      "tiles_to_end m (length hs) rest"
    and acc: "verify_consistency_proof H m (length hs) pf m_root n_root = Inr () \<longleftrightarrow>
        length pf = head_length m + length rest
        \<and> (is_power m \<or> calc_root H (start_chain H m pf m_root) = Inr m_root)
        \<and> calc_root H (insert_all H (zip rest (drop (head_length m) pf)) (start_chain H m pf m_root))
          = Inr n_root" for pf m_root n_root
    by blast
  let ?head = "if is_power m then [] else peaks 0 m"
  have pf: "genuine_consistency H hs m = Inr (map (genuine H hs) (?head @ rest))"
    using rest(1) by (simp add: genuine_consistency_def)
  have len: "length (map (genuine H hs) ?head) = head_length m" by (simp add: head_length_def)
  note start = genuine_start [OF assms(1) less_imp_le [OF assms(2)], of H rest]
  have "verify_consistency_proof H m (length hs) (map (genuine H hs) (?head @ rest))
      (nd_value (merkle H (take m hs))) (nd_value (merkle H hs)) = Inr ()"
    unfolding acc using start genuine_run [OF assms rest(2) start(1)] len
    by (simp add: drop_map head_length_def)
  with pf show ?thesis by blast
qed

text \<open>Consistency proofs are complete: for every log of up to \<open>2 ^ 62\<close> entries and every earlier
  size of it, the hashes of the nodes that the code names prove to the code that the earlier log is a
  prefix of the later one.\<close>

theorem consistency_proof_complete:
  assumes "0 < m" "m < length hs" "length hs \<le> 2 ^ 62"
  shows "\<exists>pf. genuine_consistency H hs m = Inr pf
    \<and> verify_consistency_proof H m (length hs) pf (nd_value (merkle H (take m hs)))
        (nd_value (merkle H hs)) = Inr ()"
  using assms by (rule genuine_accepted)

theorem consistency_proof_complete_witness:
  "\<exists>pf. genuine_consistency (\<lambda>x. x) [[1], [2], [3], [4], [5]] 3 = Inr pf
    \<and> verify_consistency_proof (\<lambda>x. x) 3 5 pf (nd_value (merkle (\<lambda>x. x) [[1], [2], [3]]))
        (nd_value (merkle (\<lambda>x. x) [[1], [2], [3], [4], [5]])) = Inr ()"
proof -
  have "length [[1], [2], [3], [4], [5] :: bytes] = 5" by simp
  with consistency_proof_complete [of 3 "[[1], [2], [3], [4], [5]]" "\<lambda>x. x"]
  show ?thesis by (simp only:) simp
qed

lemma merkle_value_length:
  assumes "\<And>x. length (H x) = 32" "xs \<noteq> []" "\<forall>h \<in> set xs. length h = 32"
  shows "length (nd_value (merkle H xs)) = 32"
  using assms by (subst merkle.simps) (auto simp: tree_hash_def Let_def split: list.splits)

section \<open>The strings that are hashed\<close>

fun carry_inputs :: "(bytes \<Rightarrow> bytes) \<Rightarrow> NodeData \<Rightarrow> SimpleRootCalculator \<Rightarrow> bytes set" where
  "carry_inputs H acc (Some nd # c) =
     insert (NodeData_marshal nd @ NodeData_marshal acc) (carry_inputs H (tree_hash H nd acc) c)"
| "carry_inputs H acc c = {}"

definition pad_chain :: "nat \<Rightarrow> SimpleRootCalculator \<Rightarrow> SimpleRootCalculator" where
  "pad_chain lev c = c @ replicate (lev + 1 - length c) None"

definition insert_inputs :: "(bytes \<Rightarrow> bytes) \<Rightarrow> nat \<Rightarrow> bytes \<Rightarrow> SimpleRootCalculator \<Rightarrow> bytes set" where
  "insert_inputs H lev v c =
     carry_inputs H \<lparr>nd_interior = (lev \<noteq> 0), nd_value = v\<rparr> (drop lev (pad_chain lev c))"

fun run_inputs :: "(bytes \<Rightarrow> bytes) \<Rightarrow> (nat \<times> bytes) list \<Rightarrow> SimpleRootCalculator \<Rightarrow> bytes set" where
  "run_inputs H [] c = {}"
| "run_inputs H ((y, h) # ps) c =
     insert_inputs H (level y) h c \<union> run_inputs H ps (calc_insert H (level y) h c)"

fun fold_inputs :: "(bytes \<Rightarrow> bytes) \<Rightarrow> SimpleRootCalculator \<Rightarrow> NodeData \<Rightarrow> bytes set" where
  "fold_inputs H [] acc = {}"
| "fold_inputs H (None # c) acc = fold_inputs H c acc"
| "fold_inputs H (Some nd # c) acc =
     insert (NodeData_marshal nd @ NodeData_marshal acc) (fold_inputs H c (tree_hash H nd acc))"

fun root_inputs :: "(bytes \<Rightarrow> bytes) \<Rightarrow> SimpleRootCalculator \<Rightarrow> bytes set" where
  "root_inputs H [] = {}"
| "root_inputs H (None # c) = root_inputs H c"
| "root_inputs H (Some nd # c) = fold_inputs H c nd"

section \<open>Equal roots come from equal hashes\<close>

text \<open>Two chains with the same shape and hashes of 32 bytes.\<close>

definition alike :: "NodeData \<Rightarrow> NodeData \<Rightarrow> bool" where
  "alike a b \<longleftrightarrow> nd_interior a = nd_interior b \<and> length (nd_value a) = 32 \<and> length (nd_value b) = 32"

abbreviation alike_chains :: "SimpleRootCalculator \<Rightarrow> SimpleRootCalculator \<Rightarrow> bool" where
  "alike_chains \<equiv> list_all2 (rel_option alike)"

lemma marshal_inject:
  assumes "alike a c" "alike b d"
    "NodeData_marshal a @ NodeData_marshal b = NodeData_marshal c @ NodeData_marshal d"
  shows "a = c \<and> b = d"
  using assms by (cases a; cases b; cases c; cases d) (auto simp: NodeData_marshal_def alike_def split: if_splits)

lemma tree_hash_inject:
  assumes "alike a c" "alike b d" "tree_hash H a b = tree_hash H c d" "inj_on H S"
    "NodeData_marshal a @ NodeData_marshal b \<in> S" "NodeData_marshal c @ NodeData_marshal d \<in> S"
  shows "a = c \<and> b = d"
proof -
  from assms(3) have "H (NodeData_marshal a @ NodeData_marshal b) = H (NodeData_marshal c @ NodeData_marshal d)"
    by (simp add: tree_hash_def)
  with assms(4-6) have "NodeData_marshal a @ NodeData_marshal b = NodeData_marshal c @ NodeData_marshal d"
    by (meson inj_onD)
  with assms(1,2) show ?thesis by (rule marshal_inject)
qed

lemma alike_tree_hash: "(\<And>x. length (H x) = 32) \<Longrightarrow> alike (tree_hash H a b) (tree_hash H c d)"
  by (simp add: alike_def tree_hash_def)

lemma carry_in_alike:
  assumes len: "\<And>x. length (H x) = 32"
  shows "alike_chains c d \<Longrightarrow> alike a b \<Longrightarrow> alike_chains (carry_in H a c) (carry_in H b d)"
proof (induction c arbitrary: a b d)
  case (Cons e c)
  then obtain f d' where d: "d = f # d'" "rel_option alike e f" "alike_chains c d'"
    by (auto simp: list_all2_Cons1)
  with Cons show ?case
    by (cases e; cases f) (auto simp: alike_tree_hash [OF len])
qed simp

lemma carry_in_inject:
  assumes len: "\<And>x. length (H x) = 32"
  shows "alike_chains c d \<Longrightarrow> alike a b \<Longrightarrow> carry_in H a c = carry_in H b d \<Longrightarrow> inj_on H S \<Longrightarrow>
    carry_inputs H a c \<subseteq> S \<Longrightarrow> carry_inputs H b d \<subseteq> S \<Longrightarrow> a = b \<and> c = d"
proof (induction c arbitrary: a b d)
  case (Cons e c)
  then obtain f d' where d: "d = f # d'" "rel_option alike e f" "alike_chains c d'"
    by (auto simp: list_all2_Cons1)
  show ?case
  proof (cases e)
    case None
    with Cons d show ?thesis by (cases f) auto
  next
    case (Some x)
    with d(2) obtain y where f: "f = Some y" "alike x y" by (cases f) auto
    have "tree_hash H x a = tree_hash H y b \<and> c = d'"
      by (rule Cons.IH [OF d(3) alike_tree_hash [OF len]])
        (use Cons.prems Some f d(1) in auto)
    moreover from this have "x = y \<and> a = b"
      using Cons.prems Some f d(1) by (intro tree_hash_inject [of x y a b H S]) auto
    ultimately show ?thesis using Some f d(1) by simp
  qed
qed auto

lemma calc_insert_split:
  "calc_insert H lev v c = take lev (pad_chain lev c)
     @ carry_in H \<lparr>nd_interior = (lev \<noteq> 0), nd_value = v\<rparr> (drop lev (pad_chain lev c))"
proof -
  have "length (take lev (pad_chain lev c)) = lev" by (simp add: pad_chain_def)
  with calc_carry_eq [of H "take lev (pad_chain lev c)" _ "drop lev (pad_chain lev c)"]
  show ?thesis unfolding calc_insert_def pad_chain_def [symmetric] by simp
qed

lemma calc_insert_Nil:
  "calc_insert H l v [] = replicate l None @ [Some \<lparr>nd_interior = (l \<noteq> 0), nd_value = v\<rparr>]"
  by (simp add: calc_insert_split pad_chain_def del: replicate_Suc) simp

lemma pad_chain_alike: "alike_chains c d \<Longrightarrow> alike_chains (pad_chain l c) (pad_chain l d)"
proof -
  have "alike_chains (replicate k None) (replicate k None)" for k by (induction k) auto
  moreover assume "alike_chains c d"
  ultimately show ?thesis by (simp add: pad_chain_def list_all2_lengthD list_all2_appendI)
qed

lemma calc_insert_alike:
  assumes "\<And>x. length (H x) = 32" "alike_chains c d" "length v = 32" "length w = 32"
  shows "alike_chains (calc_insert H l v c) (calc_insert H l w d)"
proof -
  have pad: "alike_chains (pad_chain l c) (pad_chain l d)" using assms(2) by (rule pad_chain_alike)
  have "alike \<lparr>nd_interior = (l \<noteq> 0), nd_value = v\<rparr> \<lparr>nd_interior = (l \<noteq> 0), nd_value = w\<rparr>"
    using assms(3,4) by (simp add: alike_def)
  from carry_in_alike [OF assms(1) list_all2_dropI [OF pad] this] show ?thesis
    unfolding calc_insert_split using pad by (intro list_all2_appendI list_all2_takeI)
qed

lemma calc_insert_inject:
  assumes "\<And>x. length (H x) = 32" "alike_chains c d" "length v = 32" "length w = 32"
    "calc_insert H l v c = calc_insert H l w d" "inj_on H S"
    "insert_inputs H l v c \<subseteq> S" "insert_inputs H l w d \<subseteq> S"
  shows "v = w \<and> c = d"
proof -
  let ?v = "\<lparr>nd_interior = (l \<noteq> 0), nd_value = v\<rparr>" and ?w = "\<lparr>nd_interior = (l \<noteq> 0), nd_value = w\<rparr>"
  have pad: "alike_chains (pad_chain l c) (pad_chain l d)" using assms(2) by (rule pad_chain_alike)
  have len: "length c = length d" using assms(2) by (rule list_all2_lengthD)
  have "length (take l (pad_chain l c)) = length (take l (pad_chain l d))"
    using len by (simp add: pad_chain_def)
  from iffD1 [OF append_eq_append_conv [OF disjI1 [OF this]] assms(5) [unfolded calc_insert_split]]
  have eq: "take l (pad_chain l c) = take l (pad_chain l d)"
    "carry_in H ?v (drop l (pad_chain l c)) = carry_in H ?w (drop l (pad_chain l d))" by simp_all
  have "?v = ?w \<and> drop l (pad_chain l c) = drop l (pad_chain l d)"
    by (rule carry_in_inject [OF assms(1) list_all2_dropI [OF pad] _ eq(2) assms(6)])
      (use assms(3,4,7,8) in \<open>simp_all add: alike_def insert_inputs_def\<close>)
  moreover from this eq(1) have "pad_chain l c = pad_chain l d" by (metis append_take_drop_id)
  ultimately show ?thesis using len by (simp add: pad_chain_def)
qed

lemma insert_all_alike:
  assumes "\<And>x. length (H x) = 32" "alike_chains c d" "length vs = length ys" "length ws = length ys"
    "\<forall>v \<in> set vs. length v = 32" "\<forall>w \<in> set ws. length w = 32"
  shows "alike_chains (insert_all H (zip ys vs) c) (insert_all H (zip ys ws) d)"
  using assms(2-)
proof (induction ys arbitrary: vs ws c d)
  case (Cons y ys)
  then obtain v vs' w ws' where "vs = v # vs'" "ws = w # ws'" by (metis Suc_length_conv length_Cons)
  with Cons calc_insert_alike [OF assms(1) Cons.prems(1), of v w] show ?case
    by (simp add: insert_all_def)
qed (simp add: insert_all_def)

lemma insert_all_inject:
  assumes "\<And>x. length (H x) = 32" "alike_chains c d" "length vs = length ys" "length ws = length ys"
    "\<forall>v \<in> set vs. length v = 32" "\<forall>w \<in> set ws. length w = 32"
    "insert_all H (zip ys vs) c = insert_all H (zip ys ws) d" "inj_on H S"
    "run_inputs H (zip ys vs) c \<subseteq> S" "run_inputs H (zip ys ws) d \<subseteq> S"
  shows "vs = ws \<and> c = d"
  using assms(2-7,9-)
proof (induction ys arbitrary: vs ws c d)
  case Nil
  then show ?case by (simp add: insert_all_def)
next
  case (Cons y ys)
  then obtain v vs' w ws' where vs: "vs = v # vs'" "ws = w # ws'" by (metis Suc_length_conv length_Cons)
  have "vs' = ws' \<and> calc_insert H (level y) v c = calc_insert H (level y) w d"
    by (rule Cons.IH [OF calc_insert_alike [OF assms(1) Cons.prems(1)]])
      (use Cons.prems vs in \<open>auto simp: insert_all_def\<close>)
  moreover from this have "v = w \<and> c = d"
    by (intro calc_insert_inject [OF assms(1) Cons.prems(1) _ _ _ assms(8)])
      (use Cons.prems vs in auto)
  ultimately show ?case using vs by simp
qed

lemma calc_fold_alike:
  assumes "\<And>x. length (H x) = 32"
  shows "alike_chains c d \<Longrightarrow> alike a b \<Longrightarrow> alike (calc_fold H c a) (calc_fold H d b)"
proof (induction c arbitrary: a b d)
  case (Cons e c)
  then obtain f d' where d: "d = f # d'" "rel_option alike e f" "alike_chains c d'"
    by (auto simp: list_all2_Cons1)
  with Cons show ?case by (cases e; cases f) (auto simp: alike_tree_hash [OF assms])
qed simp

lemma calc_fold_inject:
  assumes "\<And>x. length (H x) = 32"
  shows "alike_chains c d \<Longrightarrow> alike a b \<Longrightarrow> calc_fold H c a = calc_fold H d b \<Longrightarrow> inj_on H S \<Longrightarrow>
    fold_inputs H c a \<subseteq> S \<Longrightarrow> fold_inputs H d b \<subseteq> S \<Longrightarrow> a = b \<and> c = d"
proof (induction c arbitrary: a b d)
  case (Cons e c)
  then obtain f d' where d: "d = f # d'" "rel_option alike e f" "alike_chains c d'"
    by (auto simp: list_all2_Cons1)
  show ?case
  proof (cases e)
    case None
    with Cons d show ?thesis by (cases f) auto
  next
    case (Some x)
    with d(2) obtain y where f: "f = Some y" "alike x y" by (cases f) auto
    have "tree_hash H x a = tree_hash H y b \<and> c = d'"
      by (rule Cons.IH [OF d(3) alike_tree_hash [OF assms]])
        (use Cons.prems Some f d(1) in auto)
    moreover from this have "x = y \<and> a = b"
      using Cons.prems Some f d(1) by (intro tree_hash_inject [of x y a b H S]) auto
    ultimately show ?thesis using Some f d(1) by simp
  qed
qed simp

lemma alike_eqI: "alike a b \<Longrightarrow> nd_value a = nd_value b \<Longrightarrow> a = b"
  by (cases a; cases b) (simp add: alike_def)

lemma calc_root_Some: "calc_root H (Some nd # c) = Inr (nd_value (calc_fold H c nd))"
  by (simp add: calc_root_def)

lemma calc_root_inject:
  assumes "\<And>x. length (H x) = 32"
  shows "alike_chains c d \<Longrightarrow> calc_root H c = Inr r \<Longrightarrow> calc_root H d = Inr r \<Longrightarrow> inj_on H S \<Longrightarrow>
    root_inputs H c \<subseteq> S \<Longrightarrow> root_inputs H d \<subseteq> S \<Longrightarrow> c = d"
proof (induction c arbitrary: d)
  case (Cons e c)
  then obtain f d' where d: "d = f # d'" "rel_option alike e f" "alike_chains c d'"
    by (auto simp: list_all2_Cons1)
  show ?case
  proof (cases e)
    case None
    then have f: "f = None" using d(2) by (cases f) auto
    have "c \<noteq> []" using Cons.prems(2) None by (auto simp: calc_root_def)
    moreover from this have "d' \<noteq> []" using d(3) by auto
    ultimately show ?thesis
      using Cons.IH [OF d(3)] Cons.prems None f d(1) by (simp add: calc_root_None)
  next
    case (Some x)
    with d(2) obtain y where f: "f = Some y" "alike x y" by (cases f) auto
    have "nd_value (calc_fold H c x) = nd_value (calc_fold H d' y)"
      using Cons.prems(2,3) Some f(1) d(1) by (simp add: calc_root_Some)
    then have "calc_fold H c x = calc_fold H d' y"
      by (rule alike_eqI [OF calc_fold_alike [OF assms d(3) f(2)]])
    from calc_fold_inject [OF assms d(3) f(2) this Cons.prems(4)] Cons.prems(5,6) Some f(1) d(1)
    show ?thesis by simp
  qed
qed simp

section \<open>An accepted consistency proof is genuine\<close>

text \<open>The strings hashed when the later root is computed from a proof.\<close>

definition consistency_inputs :: "(bytes \<Rightarrow> bytes) \<Rightarrow> nat \<Rightarrow> nat \<Rightarrow> bytes list \<Rightarrow> bytes \<Rightarrow> bytes set" where
  "consistency_inputs H m n pf m_root =
     (case consistency_proof m n of
        Inl _ \<Rightarrow> {}
      | Inr ids \<Rightarrow>
          let c = (if is_power m then calc_insert H (log2 m) m_root [] else []) in
          run_inputs H (zip ids pf) c \<union> root_inputs H (insert_all H (zip ids pf) c))"

lemma genuine_length:
  "(\<And>x. length (H x) = 32) \<Longrightarrow> (\<forall>h \<in> set hs. length h = 32) \<Longrightarrow> first_leaf y < length hs \<Longrightarrow>
    length (genuine H hs y) = 32"
proof -
  assume a: "\<And>x. length (H x) = 32" "\<forall>h \<in> set hs. length h = 32" "first_leaf y < length hs"
  let ?zs = "take (2 ^ level y) (drop (first_leaf y) hs)"
  have "?zs \<noteq> []" "set ?zs \<subseteq> set hs" using a(3) by (auto dest: in_set_takeD in_set_dropD)
  with merkle_value_length [of H ?zs, OF a(1)] a(2) show ?thesis by (auto simp: genuine_def)
qed

lemma tiles_first: "tiles lo hi ys \<Longrightarrow> y \<in> set ys \<Longrightarrow> first_leaf y < hi"
proof (induction lo hi ys rule: tiles.induct)
  case (2 lo hi z ys)
  then have "first_leaf z + 2 ^ level z \<le> hi" by auto
  with two_power_pos [of "level z"] have "first_leaf z < hi" by linarith
  with 2 show ?case by auto
qed simp

lemma tiles_to_end_first: "tiles_to_end lo n ys \<Longrightarrow> y \<in> set ys \<Longrightarrow> first_leaf y < n"
  by (auto simp: tiles_to_end_def dest: tiles_first)

text \<open>The accepted computation and the genuine one, side by side.\<close>

lemma consistency_runs:
  assumes "0 < m" "m < length hs" "length hs \<le> 2 ^ 62"
    and "verify_consistency_proof H m (length hs) pf m_root n_root = Inr ()"
  obtains ids where "consistency_proof m (length hs) = Inr ids" "length pf = length ids"
    "\<forall>y \<in> set ids. first_leaf y < length hs"
    "calc_root H (insert_all H (zip ids pf) (if is_power m then calc_insert H (log2 m) m_root [] else []))
      = Inr n_root"
    "is_power m \<or> calc_root H (insert_all H (zip (peaks 0 m) (take (length (peaks 0 m)) pf)) []) = Inr m_root"
proof -
  from verify_consistency_iff [OF assms(1-3), of H] obtain rest where
    rest: "consistency_proof m (length hs) = Inr ((if is_power m then [] else peaks 0 m) @ rest)"
      "tiles_to_end m (length hs) rest"
    and acc: "length pf = head_length m + length rest"
      "is_power m \<or> calc_root H (start_chain H m pf m_root) = Inr m_root"
      "calc_root H (insert_all H (zip rest (drop (head_length m) pf)) (start_chain H m pf m_root))
        = Inr n_root"
    using assms(4) by blast
  let ?head = "if is_power m then [] else peaks 0 m"
  have "tiles 0 m (peaks 0 m)" using peaks_tiles [of m 0] by simp
  then have "\<forall>y \<in> set (?head @ rest). first_leaf y < length hs"
    using tiles_to_end_first [OF rest(2)] tiles_first [of 0 m "peaks 0 m"] assms(2)
    by (auto intro: less_trans split: if_splits)
  moreover have "insert_all H (zip rest (drop (head_length m) pf)) (start_chain H m pf m_root)
      = insert_all H (zip (?head @ rest) pf) (if is_power m then calc_insert H (log2 m) m_root [] else [])"
    by (auto simp: start_chain_def head_length_def zip_append1 insert_all_append)
  ultimately show ?thesis
    using that [OF rest(1)] acc by (simp add: start_chain_def head_length_def split: if_splits)
qed

text \<open>C11: Consistency proofs are sound: if the code accepts a proof that the log with root \<open>m_root\<close>
  and \<open>m\<close> entries is a prefix of a given log, then \<open>m_root\<close> is the root of the first \<open>m\<close> entries of
  that log and the proof is the genuine one, unless two different strings hashed in evaluating the
  proof and in evaluating the genuine proof have the same SHA-256 hash.\<close>

theorem consistency_proof_sound:
  assumes "0 < m" "m < length hs" "length hs \<le> 2 ^ 62"
    and "\<And>x. length (H x) = 32" "\<forall>h \<in> set hs. length h = 32"
    and "\<forall>p \<in> set pf. length p = 32" "length m_root = 32"
    and "verify_consistency_proof H m (length hs) pf m_root (nd_value (merkle H hs)) = Inr ()"
    and "genuine_consistency H hs m = Inr gf"
    and "inj_on H (consistency_inputs H m (length hs) pf m_root
      \<union> consistency_inputs H m (length hs) gf (nd_value (merkle H (take m hs))))"
  shows "m_root = nd_value (merkle H (take m hs)) \<and> pf = gf"
proof -
  let ?g = "nd_value (merkle H (take m hs))" and ?n = "nd_value (merkle H hs)"
  let ?c = "\<lambda>r. if is_power m then calc_insert H (log2 m) r [] else []"
  from assms(1-3,8) obtain ids where ids: "consistency_proof m (length hs) = Inr ids"
    "length pf = length ids" "\<forall>y \<in> set ids. first_leaf y < length hs"
    "calc_root H (insert_all H (zip ids pf) (?c m_root)) = Inr ?n"
    "is_power m \<or> calc_root H (insert_all H (zip (peaks 0 m) (take (length (peaks 0 m)) pf)) []) = Inr m_root"
    by (rule consistency_runs)
  have gf: "gf = map (genuine H hs) ids" using assms(9) ids(1) by (simp add: genuine_consistency_def)
  have "verify_consistency_proof H m (length hs) gf ?g ?n = Inr ()"
    using genuine_accepted [OF assms(1-3), of H] assms(9) by auto
  with assms(1-3) obtain ids' where ids': "consistency_proof m (length hs) = Inr ids'"
    "calc_root H (insert_all H (zip ids' gf) (?c ?g)) = Inr ?n"
    "is_power m \<or> calc_root H (insert_all H (zip (peaks 0 m) (take (length (peaks 0 m)) gf)) []) = Inr ?g"
    by (rule consistency_runs)
  have same: "ids' = ids" using ids(1) ids'(1) by simp
  have len: "\<forall>p \<in> set gf. length p = 32" "length ?g = 32"
  proof -
    show "\<forall>p \<in> set gf. length p = 32"
      using gf ids(3) genuine_length [of H hs, OF assms(4,5)] by auto
    have "take m hs \<noteq> []" "\<forall>h \<in> set (take m hs). length h = 32"
      using assms(1,2,5) by (auto dest: in_set_takeD)
    then show "length ?g = 32" by (rule merkle_value_length [OF assms(4)])
  qed
  have start: "alike_chains (?c m_root) (?c ?g)"
    using calc_insert_alike [OF assms(4), of "[]" "[]" m_root ?g] assms(7) len(2) by simp
  let ?S = "consistency_inputs H m (length hs) pf m_root \<union> consistency_inputs H m (length hs) gf ?g"
  have inputs: "run_inputs H (zip ids pf) (?c m_root) \<subseteq> ?S"
      "root_inputs H (insert_all H (zip ids pf) (?c m_root)) \<subseteq> ?S"
      "run_inputs H (zip ids gf) (?c ?g) \<subseteq> ?S"
      "root_inputs H (insert_all H (zip ids gf) (?c ?g)) \<subseteq> ?S"
    using ids(1) by (simp_all add: consistency_inputs_def Let_def) blast+
  have lens: "length pf = length ids" "length gf = length ids" using ids(2) gf by simp_all
  have "insert_all H (zip ids pf) (?c m_root) = insert_all H (zip ids gf) (?c ?g)"
    by (rule calc_root_inject [OF assms(4) insert_all_alike [OF assms(4) start lens assms(6) len(1)]
      ids(4) _ assms(10) inputs(2,4)]) (use ids'(2) same in simp)
  from insert_all_inject [OF assms(4) start lens assms(6) len(1) this assms(10) inputs(1,3)]
  have "pf = gf" "?c m_root = ?c ?g" by simp_all
  moreover have "m_root = ?g"
  proof (cases "is_power m")
    case True
    with calculation(2) have "calc_insert H (log2 m) m_root [] = calc_insert H (log2 m) ?g []" by simp
    then show ?thesis by (simp add: calc_insert_Nil)
  next
    case False
    with ids(5) ids'(3) calculation(1) show ?thesis by simp
  qed
  ultimately show ?thesis by simp
qed

lemma consistency_proof_1_2: "consistency_proof 1 2 = Inr [2]"
proof -
  have "log_root 2 = Inr 1" by (simp add: log_root_def node_width_def log2.simps [of 3])
  moreover have "log_right 1 2 = Inr 2"
    using right_step_node [of 0 0] by (simp add: log_right_def node_width_def left_below.simps node_def)
  moreover have "sub_proof_split 2 = 1" using sub_proof_split_eq [of 0 2] by simp
  ultimately show ?thesis
    by (simp add: consistency_proof_def sub_proof_impl.simps [of "Suc 0" 2] sub_proof_same)
qed

theorem consistency_proof_sound_witness:
  "\<exists>H hs pf m_root. verify_consistency_proof H 1 2 pf m_root (nd_value (merkle H hs)) = Inr ()
    \<and> length hs = 2 \<and> m_root = nd_value (merkle H (take 1 hs))"
proof -
  let ?a = "replicate 32 1 :: bytes" and ?b = "replicate 32 2 :: bytes"
  let ?H = "\<lambda>_ :: bytes. replicate 32 7 :: bytes" and ?hs = "[replicate 32 1, replicate 32 2] :: bytes list"
  have len: "length ?hs = 2" by simp
  have lev: "level 2 = 0" "first_leaf 2 = 1" by (simp_all add: level.simps first_leaf_def)
  have pow: "is_power 1" unfolding is_power_def by (rule exI [of _ 0]) simp
  have gf: "genuine_consistency ?H ?hs 1 = Inr [?b]"
    unfolding genuine_consistency_def len consistency_proof_1_2 by (simp add: genuine_def lev)
  have inputs: "consistency_inputs ?H 1 2 [?b] ?a
      = {NodeData_marshal \<lparr>nd_interior = False, nd_value = ?a\<rparr>
          @ NodeData_marshal \<lparr>nd_interior = False, nd_value = ?b\<rparr>}"
    unfolding consistency_inputs_def consistency_proof_1_2 using pow
    by (simp add: lev insert_inputs_def calc_insert_Nil pad_chain_def insert_all_def calc_insert_split)
  have ver: "verify_consistency_proof ?H 1 2 [?b] ?a (nd_value (merkle ?H ?hs)) = Inr ()"
    using genuine_accepted [of 1 ?hs ?H, unfolded len] gf by simp
  have "?a = nd_value (merkle ?H (take 1 ?hs)) \<and> [?b] = [?b]"
    by (rule consistency_proof_sound [where pf = "[?b]" and gf = "[?b]" and m = 1 and hs = ?hs and H = ?H,
        unfolded len]) (use ver gf inputs in simp_all)
  with ver len show ?thesis by blast
qed

end
