(* ===== verification/Batch_Copath.thy ===== *)
theory Batch_Copath
  imports Log_Proofs Implicit_Tree "HOL-Library.Multiset"
begin

text \<open>
  The copath of a batch inclusion proof: \<open>batch_copath\<close> ends for every non-empty set of leaves of a
  tree, without a panic, and the leaves together with the nodes it names are subtrees that lie side
  by side from the first leaf of the tree to the last one. So a genuine batch proof evaluates to the
  root of the log, and a batch proof that does has the log's leaves.
\<close>

section \<open>Parents and siblings in a tree with \<open>n\<close> leaves\<close>

abbreviation width :: "nat \<Rightarrow> nat" where
  "width n \<equiv> 2 * (n - 1) + 1"

lemma node_width_ok: "0 < n \<Longrightarrow> n \<le> 2 ^ 62 \<Longrightarrow> node_width n = Inr (width n)"
  by (simp add: node_width_def)

lemma parent_below_implicit:
  "try_bind (parent_step x) (\<lambda>p. parent_below p w) = implicit_parent x w"
proof (induction x rule: measure_induct_rule [where f = "\<lambda>x. 64 - level x"])
  case (less x)
  show ?case
  proof (cases "parent_step x")
    case (Inr p)
    then have "64 - level p < 64 - level x" using level_parent_step [OF Inr] by auto
    from less.IH [OF this] Inr show ?thesis
      by (simp add: implicit_parent.simps [of x] parent_below.simps [of p])
  qed (simp add: implicit_parent.simps [of x])
qed

lemma inner_node: "0 < level y \<Longrightarrow> \<exists>q k. y = node q (Suc k)"
  by (metis level_node node_of not0_implies_Suc not_less_zero)

text \<open>A number below the width is the number of a node of the tree, whose first leaf exists.\<close>

lemma below_width:
  assumes "node q l < width n" "0 < n"
  shows "q * 2 ^ l < n" "2 ^ l < 2 * (n - q * 2 ^ l)"
proof -
  have le: "2 * (q * 2 ^ l) + 2 ^ l \<le> 2 * (n - 1) + 1" using assms Suc_node [of q l] by simp
  show "q * 2 ^ l < n" using le two_power_pos [of l] assms(2) by linarith
  then show "2 ^ l < 2 * (n - q * 2 ^ l)" using le assms(2) by linarith
qed

lemma below_widthI:
  assumes "q * 2 ^ l < n" "2 ^ l < 2 * (n - q * 2 ^ l)"
  shows "node q l < width n"
  using assms Suc_node [of q l] by simp

lemma log_root_covers:
  assumes "0 < n" "n \<le> 2 ^ 62" "log_root n = Inr r"
  shows "r < width n" "x < width n \<Longrightarrow> x \<in> subtree r" "first_leaf r = 0" "n \<le> 2 ^ level r"
proof -
  from assms(1,2) obtain l where "log_root n = Inr (node 0 l)" and fit: "fits_level l n"
    by (rule log_root_fits)
  with assms(3) have r: "r = node 0 l" by simp
  show "r < width n" unfolding r using below_widthI [of 0 l n] fit assms(1) by (simp add: fits_level_def)
  show "x \<in> subtree r" if "x < width n"
    using that fit assms(1) unfolding r subtree_node span_iff by (auto simp: fits_level_def)
  show "first_leaf r = 0" "n \<le> 2 ^ level r" unfolding r using fit by (simp_all add: fits_level_def)
qed

lemma left_below_subtree:
  "left_below c w = Inr r \<Longrightarrow> x \<in> subtree c \<Longrightarrow> x < w \<Longrightarrow> x \<in> subtree r \<and> r < w"
proof (induction c rule: measure_induct_rule [where f = level])
  case (less c)
  show ?case
  proof (cases "w \<le> c")
    case True
    with less.prems obtain d where d: "left_step c = Inr d" "left_below d w = Inr r"
      by (auto simp: left_below.simps [of c] res_simps)
    obtain q k where c: "c = node q (Suc k)"
      using inner_node [of c] level_left_step [OF d(1)] by auto
    with d(1) have "d = node (2 * q) k" by (simp add: left_step_node)
    with less.prems(2,3) True c have "x \<in> subtree d" by (simp add: span_children)
    with less.IH [OF level_left_step [OF d(1)] d(2) _ less.prems(3)] show ?thesis by simp
  next
    case False
    with less.prems show ?thesis by (simp add: left_below.simps [of c])
  qed
qed

text \<open>The right half of an inner node.\<close>

lemma right_child:
  assumes "node a (Suc j) < width n" "n \<le> 2 ^ 62" and n0: "0 < n"
  obtains r where "log_right (node a (Suc j)) n = Inr r" "r < width n"
    "first_leaf r = Suc (2 * a) * 2 ^ j" "n - first_leaf r \<le> 2 ^ level r \<or> r = node (Suc (2 * a)) j"
    "level r \<le> j" "\<And>x. x \<in> span (Suc (2 * a)) j \<Longrightarrow> x < width n \<Longrightarrow> x \<in> subtree r"
proof -
  have lt: "Suc (2 * a) * 2 ^ j < n"
    using below_width [OF assms(1) n0] by (simp add: algebra_simps)
  have "2 ^ j \<le> Suc (2 * a) * 2 ^ j" by simp
  then have "node (Suc (2 * a)) j < 2 ^ 64"
    using Suc_node [of "Suc (2 * a)" j] lt assms(2) by simp
  then have step: "log_right (node a (Suc j)) n = left_below (node (Suc (2 * a)) j) (width n)"
    using node_width_ok [OF n0 assms(2)] by (simp add: log_right_def right_step_node)
  show ?thesis
  proof (cases "node (Suc (2 * a)) j < width n")
    case True
    then have "log_right (node a (Suc j)) n = Inr (node (Suc (2 * a)) j)"
      unfolding step by (simp add: left_below.simps [of "node (Suc (2 * a)) j"])
    with True that show ?thesis by simp
  next
    case False
    then have "n - Suc (2 * a) * 2 ^ j \<le> 2 ^ j"
      using below_widthI [OF lt] two_power_pos [of j] by linarith
    from log_right_fits [OF lt this assms(2)] obtain p i where
      r: "log_right (node a (Suc j)) n = Inr (node p i)" "p * 2 ^ i = Suc (2 * a) * 2 ^ j"
      and fit: "fits_level i (n - Suc (2 * a) * 2 ^ j)" by blast
    have "node p i < width n" using below_widthI [of p i n] r(2) fit lt by (simp add: fits_level_def)
    moreover have "level (node p i) \<le> j" using level_log_right [OF r(1)] by simp
    moreover have "x \<in> subtree (node p i)" if "x \<in> span (Suc (2 * a)) j" "x < width n" for x
      using left_below_subtree [of "node (Suc (2 * a)) j" "width n" "node p i" x] step r(1) that by simp
    ultimately show ?thesis using that [OF r(1)] r(2) fit by (simp add: fits_level_def)
  qed
qed

text \<open>The parent of a node is its lowest ancestor in the tree, and the node is one of its children.\<close>

lemma log_parent_child:
  assumes "0 < n" "n \<le> 2 ^ 62" "log_root n = Inr r" "x < width n" "x \<noteq> r"
  obtains p where "log_parent x n = Inr p" "p < width n" "x \<in> subtree p" "level x < level p"
    "left_step p = Inr x \<and> x < p \<or> log_right p n = Inr x \<and> p < x"
    "\<And>y. y < width n \<Longrightarrow> x \<in> subtree y \<Longrightarrow> y \<noteq> x \<Longrightarrow> p \<in> subtree y"
proof -
  let ?w = "width n"
  have w: "?w < 2 ^ 64" using assms(2) by simp
  note root = log_root_covers [OF assms(1-3)]
  from implicit_parent_ok [OF root(2) [OF assms(4)] assms(5) root(1) w] obtain p where
    p: "implicit_parent x ?w = Inr p" "p < ?w" "ancestors x ?w = insert p (ancestors p ?w)" by blast
  have xp: "x \<in> subtree p" using p(3) by (auto simp: ancestors_def)
  have lowest: "p \<in> subtree y" if "y < ?w" "x \<in> subtree y" "y \<noteq> x" for y
  proof -
    have "y \<in> ancestors x ?w" using that by (simp add: ancestors_def)
    then show ?thesis unfolding p(3) by (auto simp: ancestors_def)
  qed
  have lev: "level x < level p" using level_implicit_parent [OF p(1)] by simp
  then obtain a j where pn: "p = node a (Suc j)" using inner_node [of p] by auto
  have lp: "log_parent x n = Inr p"
    using p(1) assms(3,5) node_width_ok [OF assms(1,2)] parent_below_implicit [of x ?w]
    by (simp add: log_parent_def)
  have "x \<noteq> p" using lev by auto
  then consider "x < p" | "p < x" by linarith
  then have "left_step p = Inr x \<and> x < p \<or> log_right p n = Inr x \<and> p < x"
  proof cases
    case 1
    let ?c = "node (2 * a) j"
    have xc: "x \<in> subtree ?c" using xp 1 pn by (simp add: span_children)
    have "?c < ?w" using node_in_span [of "2 * a" j] p(2) pn by (simp add: span_children)
    with lowest xc have "?c = x" using level_subtree [of p ?c] pn by fastforce
    with 1 show ?thesis using pn by (simp add: left_step_node)
  next
    case 2
    have "node a (Suc j) < ?w" using p(2) pn by simp
    from right_child [OF this assms(2,1)] obtain c where
      c: "log_right p n = Inr c" "c < ?w" "level c \<le> j"
        "x \<in> span (Suc (2 * a)) j \<Longrightarrow> x < ?w \<Longrightarrow> x \<in> subtree c" unfolding pn by blast
    have xc: "x \<in> subtree c" using c(4) xp 2 pn assms(4) by (simp add: span_children)
    with lowest c(2,3) have "c = x" using level_subtree [of p c] pn by fastforce
    with c(1) 2 show ?thesis by simp
  qed
  with lp p(2) xp lev lowest show ?thesis by (intro that)
qed

section \<open>The leaves below a node\<close>

definition leaf_end :: "nat \<Rightarrow> nat \<Rightarrow> nat" where
  "leaf_end n y = min n (first_leaf y + 2 ^ level y)"

lemma children_leaves:
  assumes "0 < n" "n \<le> 2 ^ 62" "p < width n" "left_step p = Inr a" "log_right p n = Inr b"
  shows "a < width n" "b < width n" "first_leaf a = first_leaf p" "leaf_end n a = first_leaf b"
    "leaf_end n b = leaf_end n p"
proof -
  obtain q j where p: "p = node q (Suc j)"
    using inner_node [of p] level_left_step [OF assms(4)] by auto
  with assms(4) have a: "a = node (2 * q) j" by (simp add: left_step_node)
  have "node q (Suc j) < width n" using assms(3) p by simp
  from right_child [OF this assms(2,1)] obtain c where
    c: "log_right p n = Inr c" "c < width n" "first_leaf c = Suc (2 * q) * 2 ^ j"
      "n - first_leaf c \<le> 2 ^ level c \<or> c = node (Suc (2 * q)) j" "level c \<le> j"
    unfolding p by blast
  then have b: "b < width n" "first_leaf b = Suc (2 * q) * 2 ^ j" "level b \<le> j"
      "n - first_leaf b \<le> 2 ^ level b \<or> b = node (Suc (2 * q)) j" using assms(5) by simp_all
  show "b < width n" by (rule b(1))
  show "a < width n" using node_in_span [of "2 * q" j] assms(3) p a by (simp add: span_children)
  show "first_leaf a = first_leaf p" unfolding a p by simp
  have "first_leaf b < n"
    using below_width [OF _ assms(1)] b(1) first_leaf_node node_cases [of b] by metis
  then show "leaf_end n a = first_leaf b" unfolding leaf_end_def a using b(2) by simp
  show "leaf_end n b = leaf_end n p"
  proof (cases "b = node (Suc (2 * q)) j")
    case True
    then show ?thesis unfolding leaf_end_def p by (simp add: algebra_simps)
  next
    case False
    with b(4) have le: "n \<le> first_leaf b + 2 ^ level b" by simp
    have "(2 :: nat) ^ level b \<le> 2 ^ j" using b(3) by (rule power_increasing) simp
    with le have "n \<le> first_leaf b + 2 ^ j" by linarith
    then have "n \<le> first_leaf p + 2 ^ level p" using b(2) unfolding p by (simp add: algebra_simps)
    with le show ?thesis unfolding leaf_end_def by simp
  qed
qed

text \<open>Nodes of the tree whose leaves lie side by side.\<close>

fun run :: "nat \<Rightarrow> nat \<Rightarrow> nat \<Rightarrow> nat list \<Rightarrow> bool" where
  "run n lo hi [] \<longleftrightarrow> lo = hi"
| "run n lo hi (b # bs) \<longleftrightarrow> b < width n \<and> first_leaf b = lo \<and> run n (leaf_end n b) hi bs"

lemma run_append: "run n lo mid as \<Longrightarrow> run n mid hi bs \<Longrightarrow> run n lo hi (as @ bs)"
  by (induction n lo mid as rule: run.induct) auto

lemma first_leaf_less: "0 < n \<Longrightarrow> y < width n \<Longrightarrow> first_leaf y < n"
  by (metis below_width(1) first_leaf_node node_cases)

lemma first_leaf_end: "0 < n \<Longrightarrow> y < width n \<Longrightarrow> first_leaf y < leaf_end n y"
  using first_leaf_less [of n y] by (simp add: leaf_end_def)

lemma run_le: "0 < n \<Longrightarrow> run n lo hi bs \<Longrightarrow> lo \<le> hi"
proof (induction n lo hi bs rule: run.induct)
  case (2 n lo hi b bs)
  then show ?case using first_leaf_end [of n b] by auto
qed simp

lemma run_tiles_to_end:
  assumes "0 < n"
  shows "run n lo n bs \<Longrightarrow> tiles_to_end lo n bs"
proof (induction bs arbitrary: lo)
  case Nil
  then show ?case by (simp add: tiles_to_end_def)
next
  case (Cons b bs)
  then have b: "b < width n" "first_leaf b = lo" "run n (leaf_end n b) n bs" by simp_all
  obtain q l where q: "b = node q l" by (rule node_cases)
  note bw = below_width [OF b(1) [unfolded q] assms]
  show ?case
  proof (cases "leaf_end n b = n")
    case True
    have "bs = []"
    proof (cases bs)
      case (Cons c cs)
      with b(3) True have "c < width n" "first_leaf c = n" by simp_all
      with first_leaf_less [OF assms] show ?thesis by auto
    qed
    moreover have "fits_level (level b) (n - first_leaf b)"
      using bw True q by (simp add: fits_level_def leaf_end_def)
    ultimately show ?thesis using b(2) bw(1) q by (auto simp: tiles_to_end_def)
  next
    case False
    then have le: "leaf_end n b = lo + 2 ^ level b" "lo + 2 ^ level b < n"
      using b(2) by (auto simp: leaf_end_def)
    from Cons.IH [OF b(3)] le obtain us y where
      us: "bs = us @ [y]" "tiles (lo + 2 ^ level b) (first_leaf y) us" "first_leaf y < n"
        "fits_level (level y) (n - first_leaf y)" by (auto simp: tiles_to_end_def)
    have "tiles lo (first_leaf y) (b # us)" using b(2) us(2) tiles_le [OF us(2)] by simp
    with us show ?thesis unfolding tiles_to_end_def by (metis append_Cons)
  qed
qed

section \<open>What a level of the loop keeps\<close>

text \<open>The leaves asked for, \<open>X\<close>, and the copath so far are the leaves below the current nodes.\<close>

definition accounts :: "nat \<Rightarrow> nat multiset \<Rightarrow> nat list \<Rightarrow> nat list \<Rightarrow> bool" where
  "accounts n X nodes out \<longleftrightarrow>
     (\<exists>bss. list_all2 (\<lambda>y. run n (first_leaf y) (leaf_end n y)) nodes bss
        \<and> mset (concat bss) = X + mset out)"

lemma accounts_merge:
  assumes "0 < n" "n \<le> 2 ^ 62" "p < width n" "left_step p = Inr a" "log_right p n = Inr b"
    and "accounts n X (us @ a # b # vs) out"
  shows "accounts n X (us @ p # vs) out"
proof -
  note ch = children_leaves [OF assms(1-5)]
  from assms(6) obtain xs as bs ys where
    "list_all2 (\<lambda>y. run n (first_leaf y) (leaf_end n y)) us xs"
    "run n (first_leaf a) (leaf_end n a) as" "run n (first_leaf b) (leaf_end n b) bs"
    "list_all2 (\<lambda>y. run n (first_leaf y) (leaf_end n y)) vs ys"
    "mset (concat (xs @ as # bs # ys)) = X + mset out"
    unfolding accounts_def by (auto simp: list_all2_append1 list_all2_Cons1)
  moreover from this(2,3) have "run n (first_leaf p) (leaf_end n p) (as @ bs)"
    unfolding ch(3) [symmetric] ch(5) [symmetric] ch(4) by (rule run_append)
  ultimately show ?thesis
    unfolding accounts_def
    by (intro exI [of _ "xs @ (as @ bs) # ys"]) (simp add: list_all2_appendI)
qed

lemma accounts_up:
  assumes "0 < n" "n \<le> 2 ^ 62" "p < width n"
    and "left_step p = Inr y \<and> log_right p n = Inr s \<or> left_step p = Inr s \<and> log_right p n = Inr y"
    and "accounts n X (us @ y # vs) out"
  shows "accounts n X (us @ p # vs) (out @ [s])"
proof -
  from assms(5) obtain xs bs ys where
    l: "list_all2 (\<lambda>y. run n (first_leaf y) (leaf_end n y)) us xs"
      "run n (first_leaf y) (leaf_end n y) bs"
      "list_all2 (\<lambda>y. run n (first_leaf y) (leaf_end n y)) vs ys"
      "mset (concat (xs @ bs # ys)) = X + mset out"
    unfolding accounts_def by (auto simp: list_all2_append1 list_all2_Cons1)
  from assms(4) obtain cs where cs: "run n (first_leaf p) (leaf_end n p) cs" "mset cs = add_mset s (mset bs)"
  proof
    assume c: "left_step p = Inr y \<and> log_right p n = Inr s"
    note ch = children_leaves [OF assms(1-3) conjunct1 [OF c] conjunct2 [OF c]]
    have "run n (first_leaf s) (leaf_end n s) [s]" using ch(2) by simp
    with l(2) have "run n (first_leaf p) (leaf_end n p) (bs @ [s])"
      unfolding ch(3) [symmetric] ch(5) [symmetric] ch(4) by (rule run_append)
    then show ?thesis using that [of "bs @ [s]"] by simp
  next
    assume c: "left_step p = Inr s \<and> log_right p n = Inr y"
    note ch = children_leaves [OF assms(1-3) conjunct1 [OF c] conjunct2 [OF c]]
    have "run n (first_leaf p) (leaf_end n p) (s # bs)" using ch l(2) by simp
    then show ?thesis using that [of "s # bs"] by simp
  qed
  with l show ?thesis
    unfolding accounts_def by (intro exI [of _ "xs @ cs # ys"]) (simp add: list_all2_appendI)
qed

text \<open>
  The nodes of a level, by their index, and a node that waits for its parent's level; the rows end
  before the waiting node.
\<close>

definition level_row :: "nat \<Rightarrow> nat \<Rightarrow> nat list \<Rightarrow> bool" where
  "level_row n l qs \<longleftrightarrow> sorted_wrt (<) qs \<and> (\<forall>q \<in> set qs. node q l < width n)"

definition waits :: "nat \<Rightarrow> nat \<Rightarrow> nat \<Rightarrow> bool" where
  "waits n l z \<longleftrightarrow> z < width n \<and> level z \<le> l \<and> (\<exists>p. log_parent z n = Inr p \<and> l < level p)"

definition row_before :: "nat \<Rightarrow> nat list \<Rightarrow> nat list \<Rightarrow> bool" where
  "row_before l qs zs \<longleftrightarrow> (\<forall>q \<in> set qs. \<forall>z \<in> set zs. (q + 1) * 2 ^ l \<le> first_leaf z)"

lemma empty_rows [simp]: "level_row n l []" "row_before l [] zs" "row_before l qs []"
  by (simp_all add: level_row_def row_before_def)

lemma subtree_leaves:
  assumes "x \<in> subtree y"
  shows "first_leaf y \<le> first_leaf x" "first_leaf x < first_leaf y + 2 ^ level y"
proof -
  obtain q k p j where n: "x = node q k" "y = node p j" using node_cases by metis
  with assms have d: "k \<le> j" "q div 2 ^ (j - k) = p" by (simp_all add: node_in_span_iff)
  then have pow: "(2 :: nat) ^ j = 2 ^ (j - k) * 2 ^ k" by (simp add: power_add [symmetric])
  have "p * 2 ^ (j - k) \<le> q" "q < (p + 1) * 2 ^ (j - k)"
    using d(2) dividend_less_div_times [of "2 ^ (j - k)" q] by (auto simp: algebra_simps)
  then have "p * 2 ^ (j - k) * 2 ^ k \<le> q * 2 ^ k" "q * 2 ^ k < (p + 1) * 2 ^ (j - k) * 2 ^ k"
    by simp_all
  then show "first_leaf y \<le> first_leaf x" "first_leaf x < first_leaf y + 2 ^ level y"
    unfolding n first_leaf_node level_node pow by (simp_all add: algebra_simps)
qed

section \<open>One node and the next\<close>

lemma next_parent:
  assumes tree: "0 < n" "n \<le> 2 ^ 62" "log_root n = Inr r"
    and q: "node q l < width n" "(q + 1) * 2 ^ l < n"
  shows "log_parent (node q l) n = Inr (node (q div 2) (Suc l))" "node (q div 2) (Suc l) < width n"
    "even q \<Longrightarrow> left_step (node (q div 2) (Suc l)) = Inr (node q l) \<and> node q l < node (q div 2) (Suc l)"
    "odd q \<Longrightarrow> log_right (node (q div 2) (Suc l)) n = Inr (node q l) \<and> node (q div 2) (Suc l) < node q l"
proof -
  let ?x = "node q l" and ?P = "node (q div 2) (Suc l)"
  have in_P: "?x \<in> subtree ?P" by (simp add: node_in_span_iff)
  have half: "q div 2 * 2 ^ Suc l + 2 ^ l < n"
  proof (cases "even q")
    case True
    then obtain m where "q = 2 * m" by blast
    with q(2) show ?thesis by (simp add: algebra_simps)
  next
    case False
    then obtain m where "q = 2 * m + 1" by (blast elim: oddE)
    with q(2) show ?thesis by (simp add: algebra_simps)
  qed
  have "q div 2 * 2 ^ Suc l < n" "2 ^ Suc l < 2 * (n - q div 2 * 2 ^ Suc l)"
    using half unfolding power_Suc [of 2 l] by linarith+
  then show P: "?P < width n" by (rule below_widthI)
  have "?x \<noteq> r"
  proof
    assume "?x = r"
    with log_root_covers(4) [OF tree] level_node [of q l] have "n \<le> 2 ^ l" by metis
    with q(2) show False by simp
  qed
  from log_parent_child [OF tree q(1) this] obtain p where p: "log_parent ?x n = Inr p" "level ?x < level p"
    "left_step p = Inr ?x \<and> ?x < p \<or> log_right p n = Inr ?x \<and> p < ?x"
    "p \<in> subtree ?P" using P in_P node_eq_iff [of "q div 2" "Suc l" q l] by (metis n_not_Suc_n)
  have eq: "p = ?P" using subtree_antisym [OF p(4)] p(2) by simp
  with p(1) show "log_parent ?x n = Inr ?P" by simp
  show "left_step ?P = Inr ?x \<and> ?x < ?P" if "even q"
    using that left_step_node [of "q div 2" l] node_in_span [of "2 * (q div 2)" l] span_children(1) [of ?x "q div 2" l]
    by auto
  have "?P < ?x" if "odd q"
  proof -
    have "q = Suc (2 * (q div 2))" using that by presburger
    then show ?thesis using node_in_span [of q l] span_children(2) [of ?x "q div 2" l] by simp
  qed
  with p(3) eq show "log_right ?P n = Inr ?x \<and> ?P < ?x" if "odd q" using that by auto
qed

text \<open>A node below \<open>P\<close> that waits for the level of \<open>P\<close> and is not the left child is the right one.\<close>

lemma waiting_right_child:
  assumes tree: "0 < n" "n \<le> 2 ^ 62" "log_root n = Inr r"
    and b: "waits n l b" "b \<in> subtree P" and P: "P < width n" "level P = Suc l"
    and a: "left_step P = Inr a" "a \<noteq> b"
  shows "log_right P n = Inr b"
proof -
  have lt: "b < width n" "level b \<le> l" using b(1) by (simp_all add: waits_def)
  have "b \<noteq> r"
    using log_root_covers(2) [OF tree P(1)] level_subtree [of P b] lt(2) P(2) by auto
  from log_parent_child [OF tree lt(1) this] obtain p where p: "log_parent b n = Inr p"
    "left_step p = Inr b \<and> b < p \<or> log_right p n = Inr b \<and> p < b"
    "b \<noteq> P \<Longrightarrow> p \<in> subtree P" using P(1) b(2) by metis
  have "b \<noteq> P" using lt(2) P(2) by auto
  moreover have "l < level p" using b(1) p(1) by (auto simp: waits_def)
  ultimately have "p = P" using p(3) subtree_antisym [of p P] P(2) by simp
  with p(2) a show ?thesis by auto
qed

lemma aligned_below:
  assumes "first_leaf b < (k + 1) * 2 ^ l" "k * 2 ^ l \<le> first_leaf b" "level b \<le> l"
  shows "b \<in> span k l"
proof -
  obtain q j where b: "b = node q j" by (rule node_cases)
  have pow: "(2 :: nat) ^ l = 2 ^ (l - j) * 2 ^ j" using assms(3) b by (simp add: power_add [symmetric])
  have "q < (k + 1) * 2 ^ (l - j)" "k * 2 ^ (l - j) \<le> q"
    using assms(1,2) unfolding b first_leaf_node pow by (simp_all only: mult.assoc [symmetric]) simp_all
  then have "q div 2 ^ (l - j) = k"
    by (intro div_nat_eqI) (simp_all add: algebra_simps)
  with assms(3) b show ?thesis by (simp add: node_in_span_iff)
qed

lemma pair_step:
  assumes tree: "0 < n" "n \<le> 2 ^ 62" "log_root n = Inr r"
    and a: "node q l < width n" and b: "waits n l b" "(q + 1) * 2 ^ l \<le> first_leaf b"
  obtains
    "even q" "log_right (node (q div 2) (Suc l)) n = Inr b" "first_leaf b = (q + 1) * 2 ^ l"
  | c s where "log_right (node (q div 2) (Suc l)) n = Inr c" "c \<noteq> b" "sibling (node q l) n = Inr s"
      "left_step (node (q div 2) (Suc l)) = Inr (node q l) \<and> log_right (node (q div 2) (Suc l)) n = Inr s
       \<or> left_step (node (q div 2) (Suc l)) = Inr s \<and> log_right (node (q div 2) (Suc l)) n = Inr (node q l)"
      "(q div 2 + 1) * 2 ^ Suc l \<le> first_leaf b"
proof -
  let ?x = "node q l" and ?P = "node (q div 2) (Suc l)"
  have bw: "b < width n" "level b \<le> l" using b(1) by (simp_all add: waits_def)
  have "(q + 1) * 2 ^ l < n" using b(2) first_leaf_less [OF tree(1) bw(1)] by linarith
  note np = next_parent [OF tree a this]
  from right_child [OF np(2) tree(2,1)] obtain c where
    c: "log_right ?P n = Inr c" "first_leaf c = Suc (2 * (q div 2)) * 2 ^ l" by blast
  show ?thesis
  proof (cases "even q")
    case True
    then have qq: "2 * (q div 2) = q" by simp
    have l: "left_step ?P = Inr ?x" "?x < ?P" using np(3) True by simp_all
    then have sib: "sibling ?x n = Inr c" using np(1) c(1) by (simp add: sibling_def)
    show ?thesis
    proof (cases "c = b")
      case True
      with c qq \<open>even q\<close> that(1) show ?thesis by simp
    next
      case False
      have "(q div 2 + 1) * 2 ^ Suc l \<le> first_leaf b"
      proof (rule ccontr)
        assume "\<not> ?thesis"
        then have "first_leaf b < (Suc (2 * (q div 2)) + 1) * 2 ^ l" by (simp add: algebra_simps)
        moreover have "Suc (2 * (q div 2)) * 2 ^ l \<le> first_leaf b" using b(2) qq by simp
        ultimately have "b \<in> span (Suc (2 * (q div 2))) l" using bw(2) by (rule aligned_below)
        then have "b \<in> subtree ?P" by (simp add: span_children)
        moreover have "?x \<noteq> b" using b(2) by auto
        ultimately have "log_right ?P n = Inr b"
          using waiting_right_child [OF tree b(1) _ np(2) _ l(1)] by simp
        with c(1) False show False by simp
      qed
      with False c(1) sib l(1) show ?thesis using that(2) by blast
    qed
  next
    case False
    then have rt: "log_right ?P n = Inr ?x" "?P < ?x" using np(4) by simp_all
    have "left_step ?P = Inr (node (2 * (q div 2)) l)" by (rule left_step_node)
    moreover from this have "sibling ?x n = Inr (node (2 * (q div 2)) l)"
      using np(1) rt(2) by (simp add: sibling_def)
    moreover have "?x \<noteq> b" using b(2) by auto
    moreover have "(q div 2 + 1) * 2 ^ Suc l = (q + 1) * 2 ^ l"
    proof -
      obtain m where "q = Suc (2 * m)" using False by (auto elim: oddE)
      then show ?thesis by (simp add: algebra_simps)
    qed
    ultimately show ?thesis using that(2) rt(1) b(2) by metis
  qed
qed

section \<open>A level of the loop\<close>

abbreviation row :: "nat \<Rightarrow> nat list \<Rightarrow> nat list" where
  "row l qs \<equiv> map (\<lambda>q. node q l) qs"

text \<open>In the middle of a level: \<open>ps\<close> already moved up, \<open>qs\<close> and the waiting node still to do.\<close>

definition pairing ::
  "nat \<Rightarrow> nat multiset \<Rightarrow> nat \<Rightarrow> nat list \<Rightarrow> nat list \<Rightarrow> nat list \<Rightarrow> nat list \<Rightarrow> bool" where
  "pairing n X l ps qs zs out \<longleftrightarrow>
     level_row n l qs \<and> (zs = [] \<or> (\<exists>z. zs = [z] \<and> waits n l z)) \<and> row_before l qs zs
   \<and> level_row n (Suc l) ps \<and> (\<forall>p \<in> set ps. \<forall>q \<in> set qs. p < q div 2) \<and> row_before (Suc l) ps zs
   \<and> accounts n X (row (Suc l) ps @ row l qs @ zs) out"

lemma row_waits:
  assumes tree: "0 < n" "n \<le> 2 ^ 62" "log_root n = Inr r" and "node q l < width n" "0 < q"
  shows "waits n l (node q l)"
proof -
  have "node q l \<noteq> r"
    using log_root_covers(3) [OF tree] first_leaf_node [of q l] assms(5) by (metis mult_eq_0_iff less_numeral_extra(3) power_not_zero zero_neq_numeral)
  from log_parent_child [OF tree assms(4) this] obtain p where
    "log_parent (node q l) n = Inr p" "level (node q l) < level p" by blast
  with assms(4) show ?thesis by (simp add: waits_def)
qed

lemma pairing_moved:
  assumes pr: "pairing n X l ps (q # qs) zs out" and P: "node (q div 2) (Suc l) < width n"
    and acc: "accounts n X (row (Suc l) (ps @ [q div 2]) @ row l qs' @ zs') out'"
    and sub: "set qs' \<subseteq> set qs" "sorted_wrt (<) qs'" "zs' = zs \<or> zs' = []"
    and after: "\<forall>y \<in> set (row l qs' @ zs'). (q div 2 + 1) * 2 ^ Suc l \<le> first_leaf y"
  shows "pairing n X l (ps @ [q div 2]) qs' zs' out'"
proof -
  have "q div 2 < q' div 2" if "q' \<in> set qs'" for q'
  proof -
    have "node q' l \<in> set (row l qs' @ zs')" using that by simp
    with after have "(q div 2 + 1) * 2 ^ Suc l \<le> first_leaf (node q' l)" by blast
    then have "(q div 2 + 1) * 2 * 2 ^ l \<le> q' * 2 ^ l" by (simp add: algebra_simps)
    then have "(q div 2 + 1) * 2 \<le> q'" by (simp only: mult_le_cancel2) simp
    then have "(q div 2 + 1) * 2 div 2 \<le> q' div 2" by (rule div_le_mono)
    then show ?thesis by simp
  qed
  with sub show ?thesis
    using pr P acc after unfolding pairing_def level_row_def row_before_def
    by (auto simp: sorted_wrt_append)
qed

lemma copath_pairs_base:
  assumes "pairing n X l ps qs zs out" "length (row l qs @ zs) \<le> 1"
  shows "copath_pairs n (row l qs @ zs) out nxt = Inr (row l qs @ zs, out, nxt)"
proof (cases "row l qs @ zs")
  case (Cons y ys)
  with assms(2) show ?thesis by (cases ys) simp_all
qed simp

lemma row_after:
  assumes "sorted_wrt (<) (q # qs)" "row_before l (q # qs) zs" "y \<in> set (row l qs @ zs)"
  shows "(q + 1) * 2 ^ l \<le> first_leaf y"
proof (cases "y \<in> set zs")
  case True
  with assms(2) show ?thesis by (auto simp: row_before_def)
next
  case False
  with assms(3) obtain q' where q': "q' \<in> set qs" "y = node q' l" by auto
  then have "q + 1 \<le> q'" using assms(1) by auto
  then have "(q + 1) * 2 ^ l \<le> q' * 2 ^ l" by (rule mult_le_mono1)
  with q'(2) show ?thesis by simp
qed

text \<open>Two nodes of the level, or a node and the waiting one.\<close>

lemma pairing_pair:
  assumes tree: "0 < n" "n \<le> 2 ^ 62" "log_root n = Inr r"
    and pr: "pairing n X l ps (q # qs) zs out" and nodes: "row l qs @ zs = b # bs"
  obtains
    ps' qs' zs' out' where "pairing n X l ps' qs' zs' out'" "ps' \<noteq> []" "length qs' \<le> length qs"
      "copath_pairs n (node q l # b # bs) out (row (Suc l) ps)
       = copath_pairs n (row l qs' @ zs') out' (row (Suc l) ps')"
proof -
  let ?P = "node (q div 2) (Suc l)"
  have a: "node q l < width n" and srt: "sorted_wrt (<) (q # qs)" and rb: "row_before l (q # qs) zs"
    and acc: "accounts n X (row (Suc l) ps @ node q l # b # bs) out"
    using pr nodes by (auto simp: pairing_def level_row_def)
  have fb: "(q + 1) * 2 ^ l \<le> first_leaf b" using row_after [OF srt rb, of b] nodes by simp
  have wt: "waits n l b"
  proof (cases qs)
    case Nil
    with pr nodes show ?thesis by (auto simp: pairing_def)
  next
    case (Cons q' qs')
    with nodes srt pr have "b = node q' l" "0 < q'" "node q' l < width n"
      by (auto simp: pairing_def level_row_def)
    with row_waits [OF tree] show ?thesis by simp
  qed
  have "(q + 1) * 2 ^ l < n"
    using fb first_leaf_less [OF tree(1), of b] wt by (auto simp: waits_def)
  note np = next_parent [OF tree a this]
  from tree a wt fb show ?thesis
  proof (cases rule: pair_step)
    case 1
    have left: "left_step ?P = Inr (node q l)" using np(3) 1(1) by simp
    have acc': "accounts n X (row (Suc l) (ps @ [q div 2]) @ bs) out"
      using accounts_merge [OF tree(1,2) np(2) left 1(2) acc] by simp
    have step: "copath_pairs n (node q l # b # bs) out (row (Suc l) ps)
        = copath_pairs n bs out (row (Suc l) (ps @ [q div 2]))"
      using np(1) 1(2) by simp
    have fin: "(q div 2 + 1) * 2 ^ Suc l = (q + 2) * 2 ^ l"
      using 1(1) by (auto elim!: evenE simp: algebra_simps)
    show ?thesis
    proof (cases qs)
      case Nil
      then have "zs = [b]" "bs = []" using nodes pr by (auto simp: pairing_def)
      with acc' have "pairing n X l (ps @ [q div 2]) [] [] out"
        by (intro pairing_moved [OF pr np(2)]) simp_all
      with step \<open>bs = []\<close> show ?thesis using that [of "ps @ [q div 2]" "[]" "[]"] by simp
    next
      case (Cons q' qs')
      with nodes have b: "b = node q' l" "bs = row l qs' @ zs" by simp_all
      have "q' * 2 ^ l = (q + 1) * 2 ^ l" using 1(3) b(1) by simp
      then have "q' = q + 1" by (simp only: mult_cancel2) simp
      moreover have "\<forall>y \<in> set bs. (q' + 1) * 2 ^ l \<le> first_leaf y"
        using row_after [of q' qs' l zs] srt rb Cons b(2) by (auto simp: row_before_def)
      ultimately have "\<forall>y \<in> set (row l qs' @ zs). (q div 2 + 1) * 2 ^ Suc l \<le> first_leaf y"
        unfolding fin b(2) by simp
      with acc' b(2) Cons srt have "pairing n X l (ps @ [q div 2]) qs' zs out"
        by (intro pairing_moved [OF pr np(2)]) auto
      with step b(2) Cons show ?thesis using that [of "ps @ [q div 2]" qs' zs] by simp
    qed
  next
    case (2 c s)
    have acc': "accounts n X (row (Suc l) (ps @ [q div 2]) @ b # bs) (out @ [s])"
      using accounts_up [OF tree(1,2) np(2) 2(4) acc] by simp
    have step: "copath_pairs n (node q l # b # bs) out (row (Suc l) ps)
        = copath_pairs n (row l qs @ zs) (out @ [s]) (row (Suc l) (ps @ [q div 2]))"
      using np(1) 2(1-3) nodes by simp
    have "first_leaf b \<le> first_leaf y" if "y \<in> set (b # bs)" for y
    proof (cases qs)
      case Nil
      then show ?thesis using that nodes pr by (auto simp: pairing_def)
    next
      case (Cons q' qs')
      with nodes have b: "b = node q' l" "bs = row l qs' @ zs" by simp_all
      have "y = b \<or> (q' + 1) * 2 ^ l \<le> first_leaf y"
        using that row_after [of q' qs' l zs y] srt rb Cons b(2) by (auto simp: row_before_def)
      with b(1) show ?thesis by auto
    qed
    then have "\<forall>y \<in> set (row l qs @ zs). (q div 2 + 1) * 2 ^ Suc l \<le> first_leaf y"
      using 2(5) nodes by (metis order_trans)
    with acc' nodes srt have "pairing n X l (ps @ [q div 2]) qs zs (out @ [s])"
      by (intro pairing_moved [OF pr np(2)]) auto
    with step show ?thesis using that [of "ps @ [q div 2]" qs zs] by simp
  qed
qed

lemma copath_pairs_ok:
  assumes tree: "0 < n" "n \<le> 2 ^ 62" "log_root n = Inr r"
  shows "pairing n X l ps qs zs out \<Longrightarrow>
    \<exists>ps' qs' zs' out'. copath_pairs n (row l qs @ zs) out (row (Suc l) ps)
        = Inr (row l qs' @ zs', out', row (Suc l) ps')
      \<and> pairing n X l ps' qs' zs' out' \<and> length (row l qs' @ zs') \<le> 1
      \<and> (ps' = [] \<longrightarrow> ps = [] \<and> qs' = qs \<and> zs' = zs)"
proof (induction qs arbitrary: ps zs out rule: measure_induct_rule [where f = length])
  case (less qs)
  show ?case
  proof (cases "length (row l qs @ zs) \<le> 1")
    case True
    from copath_pairs_base [OF less.prems this] less.prems True show ?thesis by blast
  next
    case False
    have "length zs \<le> 1" using less.prems by (auto simp: pairing_def)
    with False obtain q qs1 where qs: "qs = q # qs1" by (cases qs) auto
    with False obtain b bs where nodes: "row l qs1 @ zs = b # bs" by (cases "row l qs1 @ zs") auto
    from less.prems have pr: "pairing n X l ps (q # qs1) zs out" unfolding qs .
    from pairing_pair [OF tree pr nodes] obtain ps2 qs2 zs2 out2 where
      st: "pairing n X l ps2 qs2 zs2 out2" "ps2 \<noteq> []" "length qs2 \<le> length qs1"
        "copath_pairs n (node q l # b # bs) out (row (Suc l) ps)
         = copath_pairs n (row l qs2 @ zs2) out2 (row (Suc l) ps2)" by blast
    have "length qs2 < length qs" using st(3) qs by simp
    from less.IH [OF this st(1)] obtain ps' qs' zs' out' where
      "copath_pairs n (row l qs2 @ zs2) out2 (row (Suc l) ps2)
        = Inr (row l qs' @ zs', out', row (Suc l) ps')"
      "pairing n X l ps' qs' zs' out'" "length (row l qs' @ zs') \<le> 1"
      "ps' = [] \<longrightarrow> ps2 = []" by blast
    with st(2,4) qs nodes show ?thesis by auto
  qed
qed

lemma pairing_lone:
  assumes tree: "0 < n" "n \<le> 2 ^ 62" "log_root n = Inr r"
    and pr: "pairing n X l ps qs zs out" and nodes: "row l qs @ zs = [a]" and "ps \<noteq> []"
  shows "a < width n" "level a \<le> l" "row_before (Suc l) ps [a]"
    "accounts n X (row (Suc l) ps @ [a]) out" "a \<noteq> r" "log_parent a n = Inr p \<Longrightarrow> l < level p"
proof -
  have "(\<exists>q. qs = [q] \<and> zs = [] \<and> a = node q l) \<or> qs = [] \<and> zs = [a]"
    using nodes by (cases qs) auto
  then have *: "a < width n \<and> level a \<le> l \<and> row_before (Suc l) ps [a]
    \<and> (log_parent a n = Inr p \<longrightarrow> a \<noteq> r \<longrightarrow> l < level p)"
  proof (elim disjE exE conjE)
    fix q
    assume q: "qs = [q]" "zs = []" "a = node q l"
    have "(p + 1) * 2 ^ Suc l \<le> q * 2 ^ l" if "p \<in> set ps" for p
    proof -
      have "p + 1 \<le> q div 2" using pr q that by (auto simp: pairing_def)
      then have "(p + 1) * 2 \<le> q" by presburger
      then have "(p + 1) * 2 * 2 ^ l \<le> q * 2 ^ l" by (rule mult_le_mono1)
      then show ?thesis by (simp add: algebra_simps)
    qed
    moreover have "l < level p" if "log_parent a n = Inr p" "a \<noteq> r" "a < width n"
      using log_parent_child [OF tree that(3,2)] that(1) q(3) by (metis Inr_inject level_node)
    ultimately show ?thesis using pr q by (auto simp: pairing_def level_row_def row_before_def)
  next
    assume "qs = []" "zs = [a]"
    with pr show ?thesis by (auto simp: pairing_def waits_def)
  qed
  then show "a < width n" "level a \<le> l" and rb: "row_before (Suc l) ps [a]" by simp_all
  show "accounts n X (row (Suc l) ps @ [a]) out" using pr nodes by (simp add: pairing_def)
  show "a \<noteq> r"
  proof
    assume "a = r"
    then have "first_leaf a = 0" using log_root_covers(3) [OF tree] by simp
    moreover from rb \<open>ps \<noteq> []\<close> have "(hd ps + 1) * 2 ^ Suc l \<le> first_leaf a"
      by (simp add: row_before_def)
    ultimately show False by simp
  qed
  with * show "log_parent a n = Inr p \<Longrightarrow> l < level p" by blast
qed

lemma copath_lone_ok:
  assumes tree: "0 < n" "n \<le> 2 ^ 62" "log_root n = Inr r"
    and ps: "level_row n (Suc l) ps" "ps \<noteq> []"
    and a: "a < width n" "level a \<le> l" "row_before (Suc l) ps [a]" "a \<noteq> r"
      "\<And>p. log_parent a n = Inr p \<Longrightarrow> l < level p" "accounts n X (row (Suc l) ps @ [a]) out"
  obtains qs zs out' where "copath_lone n a out (row (Suc l) ps) = Inr (out', row (Suc l) qs @ zs)"
    "pairing n X (Suc l) [] qs zs out'" "qs \<noteq> []"
proof -
  from log_parent_child [OF tree a(1,4)] obtain p where p: "log_parent a n = Inr p" "p < width n"
    "a \<in> subtree p" "left_step p = Inr a \<and> a < p \<or> log_right p n = Inr a \<and> p < a" by blast
  have hd: "level (hd (row (Suc l) ps)) = Suc l" "row (Suc l) ps \<noteq> []" using ps(2) by (simp_all add: hd_map)
  show ?thesis
  proof (cases "Suc l < level p")
    case True
    have "copath_lone n a out (row (Suc l) ps) = Inr (out, row (Suc l) ps @ [a])"
      using p(1) hd True by (simp add: copath_lone_def)
    moreover have "pairing n X (Suc l) [] ps [a] out"
      using ps a p(1) True by (auto simp: pairing_def waits_def level_row_def row_before_def)
    ultimately show ?thesis using that ps(2) by blast
  next
    case False
    with a(5) [OF p(1)] have lev: "level p = Suc l" by simp
    obtain t where t: "p = node t (Suc l)" using node_of [of p] lev by auto
    obtain c where c: "log_right p n = Inr c"
      using right_child [of t l n] p(2) tree(1,2) t by metis
    obtain s where s: "sibling a n = Inr s"
      "left_step p = Inr a \<and> log_right p n = Inr s \<or> left_step p = Inr s \<and> log_right p n = Inr a"
      using p(1,4) c left_step_node [of t l] t by (auto simp: sibling_def)
    have acc: "accounts n X (row (Suc l) (ps @ [t])) (out @ [s])"
      using accounts_up [OF tree(1,2) p(2) s(2), of X "row (Suc l) ps" "[]" out] a(6) t by simp
    have "q < t" if "q \<in> set ps" for q
    proof -
      have "(q + 1) * 2 ^ Suc l \<le> first_leaf a" using a(3) that by (simp add: row_before_def)
      also have "\<dots> < (t + 1) * 2 ^ Suc l" using subtree_leaves(2) [OF p(3)] t by simp
      finally show ?thesis by (simp only: mult_less_cancel2) simp
    qed
    then have "pairing n X (Suc l) [] (ps @ [t]) [] (out @ [s])"
      using ps acc p(2) t by (auto simp: pairing_def level_row_def row_before_def sorted_wrt_append)
    moreover have "copath_lone n a out (row (Suc l) ps) = Inr (out @ [s], row (Suc l) (ps @ [t]) @ [])"
      using p(1) hd lev s(1) t by (simp add: copath_lone_def)
    ultimately show ?thesis using that by blast
  qed
qed

lemma copath_level_ok:
  assumes tree: "0 < n" "n \<le> 2 ^ 62" "log_root n = Inr r"
    and pr: "pairing n X l [] qs zs out" "qs \<noteq> []" and more: "row l qs @ zs \<noteq> [r]"
  obtains l' qs' zs' out' where "copath_level n (row l qs @ zs) out = Inr (out', row l' qs' @ zs')"
    "pairing n X l' [] qs' zs' out'" "qs' \<noteq> []" "l < l'"
proof (cases "length (row l qs @ zs) \<le> 1")
  case True
  with pr obtain q where q: "qs = [q]" "zs = []" by (cases qs) (auto simp: Suc_le_eq)
  let ?x = "node q l"
  have x: "?x < width n" "?x \<noteq> r" using pr more q by (auto simp: pairing_def level_row_def)
  from log_parent_child [OF tree x] obtain p where p: "log_parent ?x n = Inr p" "p < width n"
    "level ?x < level p" "left_step p = Inr ?x \<and> ?x < p \<or> log_right p n = Inr ?x \<and> p < ?x" by blast
  obtain t j where t: "p = node t (Suc j)" using inner_node [of p] p(3) by auto
  obtain c where c: "log_right p n = Inr c"
    using right_child [of t j n] p(2) tree(1,2) t by metis
  obtain s where s: "sibling ?x n = Inr s"
    "left_step p = Inr ?x \<and> log_right p n = Inr s \<or> left_step p = Inr s \<and> log_right p n = Inr ?x"
    using p(1,4) c left_step_node [of t j] t by (auto simp: sibling_def)
  have "accounts n X ([] @ ?x # []) out" using pr q by (simp add: pairing_def)
  from accounts_up [OF tree(1,2) p(2) s(2) this] p(2) t
  have up: "pairing n X (Suc j) [] [t] [] (out @ [s])"
    by (simp add: pairing_def level_row_def row_before_def)
  have "copath_level n (row l qs @ zs) out = Inr (out @ [s], row (Suc j) [t] @ [])"
    using p(1) s(1) q t by (simp add: copath_level_def copath_lone_def)
  then show ?thesis using up by (rule that) (use p(3) t in simp_all)
next
  case False
  from copath_pairs_ok [OF tree pr(1)] obtain ps' qs' zs' out' where
    st: "copath_pairs n (row l qs @ zs) out [] = Inr (row l qs' @ zs', out', row (Suc l) ps')"
      "pairing n X l ps' qs' zs' out'" "length (row l qs' @ zs') \<le> 1" "ps' \<noteq> []"
    using False by fastforce
  have ps': "level_row n (Suc l) ps'" using st(2) by (simp add: pairing_def)
  show ?thesis
  proof (cases "row l qs' @ zs'")
    case Nil
    then have "pairing n X (Suc l) [] ps' [] out'"
      using st(2) by (auto simp: pairing_def row_before_def)
    moreover have "copath_level n (row l qs @ zs) out = Inr (out', row (Suc l) ps' @ [])"
      using st(1) Nil by (simp add: copath_level_def)
    ultimately show ?thesis using that st(4) by blast
  next
    case (Cons a as)
    with st(3) have one: "row l qs' @ zs' = [a]" by (cases as) auto
    note lone = pairing_lone [OF tree st(2) one st(4)]
    from copath_lone_ok [OF tree ps' st(4) lone(1,2,3,5,6,4)] obtain qs2 zs2 out2 where
      "copath_lone n a out' (row (Suc l) ps') = Inr (out2, row (Suc l) qs2 @ zs2)"
      "pairing n X (Suc l) [] qs2 zs2 out2" "qs2 \<noteq> []" by blast
    moreover from this(1) have "copath_level n (row l qs @ zs) out = Inr (out2, row (Suc l) qs2 @ zs2)"
      using st(1) one by (simp add: copath_level_def)
    ultimately show ?thesis using that by blast
  qed
qed

section \<open>The whole loop\<close>

lemma width_level: "n \<le> 2 ^ 62 \<Longrightarrow> node q l < width n \<Longrightarrow> l < 64"
proof -
  assume a: "n \<le> 2 ^ 62" "node q l < width n"
  have "(2 :: nat) ^ l < 2 ^ 64" using a Suc_node [of q l] by simp
  then show ?thesis by (rule power_less_imp_less_exp [rotated]) simp
qed

lemma copath_loop_ok:
  assumes tree: "0 < n" "n \<le> 2 ^ 62" "log_root n = Inr r"
    and "pairing n X l [] qs zs out" "qs \<noteq> []"
  shows "\<exists>out'. copath_loop n r (row l qs @ zs) out = Some (Inr out') \<and> accounts n X [r] out'"
  using assms(4,5)
proof (induction l arbitrary: qs zs out rule: measure_induct_rule [where f = "\<lambda>l. 64 - l"])
  case (less l)
  show ?case
  proof (cases "row l qs @ zs = [r]")
    case True
    then have acc: "accounts n X [r] out" using less.prems by (simp add: pairing_def)
    have "copath_loop n r [r] out = Some (Inr out)" by (subst copath_loop.simps) simp
    then show ?thesis unfolding True using acc by (intro exI conjI)
  next
    case False
    with tree less.prems obtain l' qs' zs' out' where
      st: "copath_level n (row l qs @ zs) out = Inr (out', row l' qs' @ zs')"
        "pairing n X l' [] qs' zs' out'" "qs' \<noteq> []" "l < l'" by (rule copath_level_ok)
    have "node (hd qs) l < width n"
      using less.prems by (auto simp: pairing_def level_row_def)
    then have "l < 64" by (rule width_level [OF tree(2)])
    then have "64 - l' < 64 - l" using st(4) by simp
    moreover have "copath_loop n r (row l qs @ zs) out = copath_loop n r (row l' qs' @ zs') out'"
      using False st(1) by (subst copath_loop.simps) (simp only: if_False sum.case prod.case)
    ultimately show ?thesis using less.IH [OF _ st(2,3)] by simp
  qed
qed

lemma leaf_node [simp]: "level (2 * i) = 0" "first_leaf (2 * i) = i"
  using level_node [of i 0] first_leaf_node [of i 0] by simp_all

lemma sorted_last: "sorted_wrt (<) xs \<Longrightarrow> i \<in> set xs \<Longrightarrow> i \<le> last xs" for i :: nat
  by (induction xs) (auto intro: less_imp_le)

lemma batch_copath_ok:
  assumes "sorted_wrt (<) x" "x \<noteq> []" "last x < n" "n \<le> 2 ^ 62"
  obtains copath bs where "batch_copath x n = Some (Inr copath)" "sorted copath" "run n 0 n bs"
    "mset bs = mset (map (\<lambda>i. 2 * i) x) + mset copath"
proof -
  have n0: "0 < n" using assms(3) by simp
  obtain l where l: "log_root n = Inr (node 0 l)" "fits_level l n" using n0 assms(4) by (rule log_root_fits)
  note tree = n0 assms(4) l(1)
  have mem: "i < n" "2 * i < width n" if "i \<in> set x" for i
    using sorted_last [OF assms(1) that] assms(3) by linarith+
  have "accounts n (mset (map (\<lambda>i. 2 * i) x)) (row 0 x) []"
    unfolding accounts_def
  proof (intro exI conjI)
    show "list_all2 (\<lambda>y. run n (first_leaf y) (leaf_end n y)) (row 0 x) (map (\<lambda>i. [2 * i]) x)"
      using mem by (simp add: list_all2_conv_all_nth)
    show "mset (concat (map (\<lambda>i. [2 * i]) x)) = mset (map (\<lambda>i. 2 * i) x) + mset []"
      by (induction x) simp_all
  qed
  then have "pairing n (mset (map (\<lambda>i. 2 * i) x)) 0 [] x [] []"
    using assms(1) mem by (auto simp: pairing_def level_row_def row_before_def)
  from copath_loop_ok [OF tree this assms(2)] obtain out where
    out: "copath_loop n (node 0 l) (row 0 x @ []) [] = Some (Inr out)"
      "accounts n (mset (map (\<lambda>i. 2 * i) x)) [node 0 l] out" by blast
  have "sorted (map (\<lambda>i. 2 * i) x)"
    unfolding sorted_map using assms(1) by (rule sorted_wrt_mono_rel [rotated]) simp
  then have "sort (map (\<lambda>i. 2 * i) x) = row 0 x" by (simp add: sorted_sort_id)
  moreover have "\<not> (\<exists>i \<in> set x. 2 ^ 63 \<le> i)" using mem assms(4) by fastforce
  ultimately have "batch_copath x n = Some (Inr (sort out))"
    using l(1) out(1) by (simp add: batch_copath_def)
  moreover obtain bs where "run n (first_leaf (node 0 l)) (leaf_end n (node 0 l)) bs"
    "mset bs = mset (map (\<lambda>i. 2 * i) x) + mset out"
    using out(2) by (auto simp: accounts_def list_all2_Cons1)
  moreover have "first_leaf (node 0 l) = 0" "leaf_end n (node 0 l) = n"
    using l(2) by (simp_all add: leaf_end_def fits_level_def)
  ultimately show ?thesis using that [of "sort out" bs] by simp
qed

end
