(* ===== verification/Batch_Proofs.thy ===== *)
theory Batch_Proofs
  imports Batch_Copath
begin

text \<open>
  Batch inclusion proofs: the leaves and the copath, merged by their place in the tree, are inserted
  into the root calculator from left to right. A genuine proof evaluates to the root of the log; a
  proof that evaluates to it holds the log's leaves, unless two of the strings hashed collide.
\<close>

section \<open>The merged order\<close>

fun merged :: "(nat \<times> bytes) list \<Rightarrow> (nat \<times> bytes) list \<Rightarrow> (nat \<times> bytes) list" where
  "merged ((x, v) # xs) ((y, h) # ys) =
     (if 2 * x < y then (2 * x, v) # merged xs ((y, h) # ys)
      else (y, h) # merged ((x, v) # xs) ys)"
| "merged ((x, v) # xs) [] = (2 * x, v) # merged xs []"
| "merged [] ys = ys"

lemma insert_merged_eq: "insert_merged H xs ys c = insert_all H (merged xs ys) c"
proof (induction H xs ys c rule: insert_merged.induct)
  case (3 H y h ys chain)
  have "merged [] zs = zs" for zs by (cases zs) auto
  with 3 show ?case by (simp add: insert_all_def)
qed (simp_all add: insert_all_def)

lemma merged_mset: "mset (merged xs ys) = mset (map (\<lambda>(x, v). (2 * x, v)) xs) + mset ys"
  by (induction xs ys rule: merged.induct) simp_all

lemma merged_set: "set (merged xs ys) = (\<lambda>(x, v). (2 * x, v)) ` set xs \<union> set ys"
  by (metis merged_mset set_map set_mset_mset set_mset_union)

lemma merged_sorted:
  "sorted (map fst xs) \<Longrightarrow> sorted (map fst ys) \<Longrightarrow> sorted (map fst (merged xs ys))"
proof (induction xs ys rule: merged.induct)
  case (1 x v xs y h ys)
  then show ?case by (auto simp: merged_set)
next
  case (2 x v xs)
  then show ?case by (auto simp: merged_set)
qed simp

lemma merged_inject:
  "merged xs ys = merged xs' ys' \<Longrightarrow> map fst xs = map fst xs' \<Longrightarrow> map fst ys = map fst ys' \<Longrightarrow>
    xs = xs' \<and> ys = ys'"
proof (induction xs ys arbitrary: xs' ys' rule: merged.induct)
  case (1 x v xs y h ys)
  then obtain v' zs h' us where e: "xs' = (x, v') # zs" "ys' = (y, h') # us"
    by (cases xs'; cases ys') auto
  show ?case
  proof (cases "2 * x < y")
    case True
    with "1.IH"(1) [OF True, of zs "(y, h') # us"] "1.prems" e show ?thesis by simp
  next
    case False
    with "1.IH"(2) [OF False, of "(x, v') # zs" us] "1.prems" e show ?thesis by simp
  qed
next
  case (2 x v xs)
  then obtain v' zs where "xs' = (x, v') # zs" "ys' = []" by (cases xs') auto
  with 2 show ?case by auto
next
  case (3 ys)
  then have "xs' = []" by simp
  with 3 show ?case by simp
qed

lemma run_first: "0 < n \<Longrightarrow> run n lo hi bs \<Longrightarrow> b \<in> set bs \<Longrightarrow> lo \<le> first_leaf b"
proof (induction n lo hi bs rule: run.induct)
  case (2 n lo hi c bs)
  then show ?case using first_leaf_end [of n c] by fastforce
qed simp

lemma run_mem: "run n lo hi bs \<Longrightarrow> b \<in> set bs \<Longrightarrow> b < width n"
  by (induction n lo hi bs rule: run.induct) auto

lemma run_sorted:
  assumes "0 < n"
  shows "run n lo hi bs \<Longrightarrow> sorted bs"
proof (induction bs arbitrary: lo)
  case (Cons b bs)
  have "b \<le> c" if "c \<in> set bs" for c
  proof -
    obtain q l where b: "b = node q l" by (rule node_cases)
    obtain p k where c: "c = node p k" by (rule node_cases)
    have "leaf_end n b \<le> first_leaf c" using run_first [OF assms _ that] Cons.prems by auto
    moreover have "c < width n"
      using run_mem [of n "leaf_end n b" hi bs c] that Cons.prems by simp
    ultimately have "q * 2 ^ l + 2 ^ l \<le> p * 2 ^ k"
      using first_leaf_less [OF assms, of c] b c by (simp add: leaf_end_def min_def split: if_splits)
    then show ?thesis using Suc_node [of q l] Suc_node [of p k] b c by linarith
  qed
  with Cons show ?case by auto
qed simp

lemma merged_ids:
  assumes "sorted_wrt (<) x" "length vs = length x" "sorted copath" "length hs = length copath"
    and "0 < n" "run n 0 n bs" "mset bs = mset (map (\<lambda>i. 2 * i) x) + mset copath"
  shows "map fst (merged (zip x vs) (zip copath hs)) = bs"
proof -
  let ?m = "map fst (merged (zip x vs) (zip copath hs))"
  have "sorted x" using assms(1) by (simp add: strict_sorted_iff)
  then have "sorted ?m" using merged_sorted [of "zip x vs" "zip copath hs"] assms(2-4) by simp
  moreover have "mset ?m = mset bs"
  proof -
    have "map fst (map (\<lambda>(x, v). (2 * x, v)) (zip x vs)) = map (\<lambda>i. 2 * i) x"
      using assms(2) by (intro nth_equalityI) simp_all
    moreover have "map fst (zip copath hs) = copath" using assms(4) by simp
    moreover have "mset ?m = mset (map fst (map (\<lambda>(x, v). (2 * x, v)) (zip x vs)))
        + mset (map fst (zip copath hs))"
      by (simp only: mset_map merged_mset image_mset_union)
    ultimately show ?thesis using assms(7) by (simp only:)
  qed
  ultimately have "sort bs = ?m" by (intro properties_for_sort) simp_all
  with run_sorted [OF assms(5,6)] show ?thesis by (simp add: sorted_sort_id)
qed

lemma merged_zip:
  "map fst (merged xs ys) = bs \<Longrightarrow> merged xs ys = zip bs (map snd (merged xs ys))"
  by (metis zip_map_fst_snd)

section \<open>Genuine proofs and accepted proofs\<close>

lemma genuine_leaf: "i < length hs \<Longrightarrow> genuine H hs (2 * i) = hs ! i"
  by (simp add: genuine_def Cons_nth_drop_Suc [symmetric])

lemma evaluate_batch_eq:
  assumes "sorted_wrt (<) x" "x \<noteq> []" "last x < n" "batch_copath x n = Some (Inr copath)"
  shows "evaluate_batch_proof H x n vs pf = Some r \<longleftrightarrow>
    (if length x \<noteq> length vs then r = Inl (Err (InvalidInput ''expected same number of indices and values''))
     else if length pf \<noteq> length copath then r = Inl (Err LogMalformedProof)
     else r = calc_root H (insert_all H (merged (zip x vs) (zip copath pf)) []))"
  using assms
  by (auto simp: evaluate_batch_proof_def panicking_def insert_merged_eq SimpleRootCalculator_new_def)

lemma genuine_batch:
  assumes "sorted_wrt (<) x" "x \<noteq> []" "last x < length hs" "length hs \<le> 2 ^ 62"
  obtains copath bs where "batch_copath x (length hs) = Some (Inr copath)" "sorted copath"
    "run (length hs) 0 (length hs) bs" "mset bs = mset (map (\<lambda>i. 2 * i) x) + mset copath"
    "merged (zip x (map (\<lambda>i. hs ! i) x)) (zip copath (map (genuine H hs) copath))
     = zip bs (map (genuine H hs) bs)"
    "calc_root H (insert_all H (zip bs (map (genuine H hs) bs)) []) = Inr (nd_value (merkle H hs))"
proof -
  from assms obtain copath bs where c: "batch_copath x (length hs) = Some (Inr copath)" "sorted copath"
    "run (length hs) 0 (length hs) bs" "mset bs = mset (map (\<lambda>i. 2 * i) x) + mset copath"
    by (rule batch_copath_ok)
  let ?m = "merged (zip x (map (\<lambda>i. hs ! i) x)) (zip copath (map (genuine H hs) copath))"
  have n0: "0 < length hs" "hs \<noteq> []" using assms(3) by auto
  have ids: "map fst ?m = bs" using merged_ids [OF assms(1) _ c(2) _ n0(1) c(3,4)] by simp
  have "\<forall>(y, v) \<in> set ?m. v = genuine H hs y"
  proof -
    have "hs ! (x ! k) = genuine H hs (2 * x ! k)" if "k < length x" for k
      using sorted_last [OF assms(1) nth_mem [OF that]] assms(3) by (simp add: genuine_leaf)
    then show ?thesis by (auto simp: merged_set set_zip)
  qed
  then have snds: "map snd ?m = map (genuine H hs) (map fst ?m)" by (auto simp: split_beta)
  have zip: "?m = zip bs (map (genuine H hs) bs)"
    using merged_zip [OF ids] snds ids by simp
  have root: "calc_root H (insert_all H (zip bs (map (genuine H hs) bs)) []) = Inr (nd_value (merkle H hs))"
    using calc_root_ends [OF tiles_to_end_insert [OF run_tiles_to_end [OF n0(1) c(3)] _ n0(2), of H "[]"]]
    by (simp add: zip_genuine)
  from c zip root show ?thesis by (rule that)
qed

lemma genuine_batch_accepted:
  assumes "sorted_wrt (<) x" "x \<noteq> []" "last x < length hs" "length hs \<le> 2 ^ 62"
  shows "\<exists>copath. batch_copath x (length hs) = Some (Inr copath)
    \<and> evaluate_batch_proof H x (length hs) (map (\<lambda>i. hs ! i) x) (map (genuine H hs) copath)
        = Some (Inr (nd_value (merkle H hs)))"
proof -
  from assms obtain copath bs where c: "batch_copath x (length hs) = Some (Inr copath)"
    "merged (zip x (map (\<lambda>i. hs ! i) x)) (zip copath (map (genuine H hs) copath))
     = zip bs (map (genuine H hs) bs)"
    "calc_root H (insert_all H (zip bs (map (genuine H hs) bs)) []) = Inr (nd_value (merkle H hs))"
    by (rule genuine_batch [where H = H])
  then have "evaluate_batch_proof H x (length hs) (map (\<lambda>i. hs ! i) x) (map (genuine H hs) copath)
      = Some (Inr (nd_value (merkle H hs)))"
    by (simp add: evaluate_batch_eq [OF assms(1-3) c(1)])
  with c(1) show ?thesis by blast
qed

text \<open>Batch inclusion proofs are complete: for every non-empty increasing list of positions in a
  log of up to \<open>2 ^ 62\<close> entries, the search for the copath ends without a panic, and the entries
  together with the hashes of the nodes it names evaluate to the root of the log.\<close>

theorem batch_proof_complete:
  assumes "sorted_wrt (<) x" "x \<noteq> []" "last x < length hs" "length hs \<le> 2 ^ 62"
  shows "\<exists>copath. batch_copath x (length hs) = Some (Inr copath)
    \<and> evaluate_batch_proof H x (length hs) (map (\<lambda>i. hs ! i) x) (map (genuine H hs) copath)
        = Some (Inr (nd_value (merkle H hs)))"
  using assms by (rule genuine_batch_accepted)

theorem batch_proof_complete_witness:
  "\<exists>copath. batch_copath [0, 2, 3] 5 = Some (Inr copath)
    \<and> evaluate_batch_proof (\<lambda>x. x) [0, 2, 3] 5 [[1], [3], [4]]
        (map (genuine (\<lambda>x. x) [[1], [2], [3], [4], [5]]) copath)
        = Some (Inr (nd_value (merkle (\<lambda>x. x) [[1], [2], [3], [4], [5]])))"
proof -
  have len: "length [[1], [2], [3], [4], [5] :: bytes] = 5" by simp
  show ?thesis
    using batch_proof_complete [of "[0, 2, 3]" "[[1], [2], [3], [4], [5]]" "\<lambda>x. x", unfolded len]
    by simp
qed

text \<open>The strings hashed when a batch proof is evaluated.\<close>

definition batch_inputs ::
  "(bytes \<Rightarrow> bytes) \<Rightarrow> nat list \<Rightarrow> nat list \<Rightarrow> bytes list \<Rightarrow> bytes list \<Rightarrow> bytes set" where
  "batch_inputs H x copath vs pf =
     (let ps = merged (zip x vs) (zip copath pf) in
      run_inputs H ps [] \<union> root_inputs H (insert_all H ps []))"

lemma run_genuine_length:
  assumes "\<And>x. length (H x) = 32" "\<forall>h \<in> set hs. length h = 32" "0 < length hs"
    and "run (length hs) 0 (length hs) bs"
  shows "\<forall>v \<in> set (map (genuine H hs) bs). length v = 32"
  using genuine_length [of H hs, OF assms(1,2)] run_mem [OF assms(4)] first_leaf_less [OF assms(3)]
  by auto

text \<open>Batch inclusion proofs are sound: if the code evaluates entries and hashes to the root of a
  given log, then the entries are the log's entries at the positions asked for and the hashes are the
  genuine ones, unless two different strings hashed in evaluating the proof and in evaluating the
  genuine proof have the same SHA-256 hash.\<close>

theorem batch_proof_sound:
  assumes "sorted_wrt (<) x" "x \<noteq> []" "last x < length hs" "length hs \<le> 2 ^ 62"
    and "\<And>x. length (H x) = 32" "\<forall>h \<in> set hs. length h = 32"
    and "\<forall>v \<in> set vs. length v = 32" "\<forall>p \<in> set pf. length p = 32"
    and "evaluate_batch_proof H x (length hs) vs pf = Some (Inr (nd_value (merkle H hs)))"
    and "batch_copath x (length hs) = Some (Inr copath)"
    and "inj_on H (batch_inputs H x copath vs pf
      \<union> batch_inputs H x copath (map (\<lambda>i. hs ! i) x) (map (genuine H hs) copath))"
  shows "vs = map (\<lambda>i. hs ! i) x \<and> pf = map (genuine H hs) copath"
proof -
  let ?gv = "map (\<lambda>i. hs ! i) x" and ?gp = "map (genuine H hs) copath"
  let ?ps = "merged (zip x vs) (zip copath pf)" and ?gs = "merged (zip x ?gv) (zip copath ?gp)"
  have n0: "0 < length hs" using assms(3) by auto
  from assms(1-4) obtain c bs where c: "batch_copath x (length hs) = Some (Inr c)" "sorted c"
    "run (length hs) 0 (length hs) bs" "mset bs = mset (map (\<lambda>i. 2 * i) x) + mset c"
    "merged (zip x ?gv) (zip c (map (genuine H hs) c)) = zip bs (map (genuine H hs) bs)"
    "calc_root H (insert_all H (zip bs (map (genuine H hs) bs)) []) = Inr (nd_value (merkle H hs))"
    by (rule genuine_batch [where H = H])
  have cc: "c = copath" using c(1) assms(10) by simp
  note c = c [unfolded cc]
  have len: "length vs = length x" "length pf = length copath"
    and root: "calc_root H (insert_all H ?ps []) = Inr (nd_value (merkle H hs))"
    using assms(9) by (auto simp: evaluate_batch_eq [OF assms(1-3,10)] split: if_splits)
  have ids: "map fst ?ps = bs" using merged_ids [OF assms(1) len(1) c(2) len(2) n0 c(3,4)] .
  let ?ws = "map snd ?ps" and ?hs = "map (genuine H hs) bs"
  have ps: "?ps = zip bs ?ws" using ids by (rule merged_zip)
  have lens: "length ?ws = length bs" "length ?hs = length bs" using ids by auto
  have w32: "\<forall>w \<in> set ?ws. length w = 32" "\<forall>w \<in> set ?hs. length w = 32"
    using assms(7,8) run_genuine_length [OF assms(5,6) n0 c(3)]
    by (auto simp: merged_set dest: set_zip_rightD)
  have al: "alike_chains (insert_all H (zip bs ?ws) []) (insert_all H (zip bs ?hs) [])"
    using insert_all_alike [OF assms(5) _ lens w32, of "[]" "[]"] by simp
  let ?S = "batch_inputs H x copath vs pf \<union> batch_inputs H x copath ?gv ?gp"
  have inputs: "run_inputs H (zip bs ?ws) [] \<subseteq> ?S" "root_inputs H (insert_all H (zip bs ?ws) []) \<subseteq> ?S"
    "run_inputs H (zip bs ?hs) [] \<subseteq> ?S" "root_inputs H (insert_all H (zip bs ?hs) []) \<subseteq> ?S"
    unfolding batch_inputs_def Let_def c(5) ps [symmetric] by blast+
  have "insert_all H (zip bs ?ws) [] = insert_all H (zip bs ?hs) []"
    using calc_root_inject [OF assms(5) al _ c(6) assms(11) inputs(2,4)] root ps by simp
  from insert_all_inject [OF assms(5) _ lens w32 this assms(11) inputs(1,3)] have "?ws = ?hs" by simp
  with ps c(5) have "?ps = ?gs" by simp
  then have "zip x vs = zip x ?gv \<and> zip copath pf = zip copath ?gp"
    by (rule merged_inject) (use len in simp_all)
  then show ?thesis using len by (metis length_map map_snd_zip)
qed

lemma batch_copath_0_2: "batch_copath [0] 2 = Some (Inr [2])"
proof -
  have root: "log_root 2 = Inr 1" by (simp add: log_root_def node_width_def log2.simps [of 3])
  have parent: "log_parent 0 2 = Inr 1"
    using next_parent(1) [of 2 1 0 0] root by (simp add: node_def)
  have "log_right 1 2 = Inr 2"
    using right_step_node [of 0 0] by (simp add: log_right_def node_width_def left_below.simps node_def)
  with parent have "copath_level 2 [0] [] = Inr ([2], [1])"
    by (simp add: copath_level_def copath_lone_def sibling_def)
  with root show ?thesis
    by (simp add: batch_copath_def copath_loop.simps [of _ "Suc 0" "[0]"]
      copath_loop.simps [of _ "Suc 0" "[Suc 0]"])
qed

theorem batch_proof_sound_witness:
  "\<exists>H hs vs pf. evaluate_batch_proof H [0] 2 vs pf = Some (Inr (nd_value (merkle H hs)))
    \<and> length hs = 2 \<and> vs = map (\<lambda>i. hs ! i) [0]"
proof -
  let ?a = "replicate 32 1 :: bytes" and ?b = "replicate 32 2 :: bytes"
  let ?H = "\<lambda>_ :: bytes. replicate 32 7 :: bytes" and ?hs = "[replicate 32 1, replicate 32 2] :: bytes list"
  have len: "length ?hs = 2" by simp
  have lev: "level 0 = 0" "level 2 = 0" "first_leaf 2 = 1"
    by (simp_all add: level.simps first_leaf_def)
  have gen: "map (genuine ?H ?hs) [2] = [?b]" by (simp add: genuine_def lev)
  have ev: "evaluate_batch_proof ?H [0] 2 [?a] [?b] = Some (Inr (nd_value (merkle ?H ?hs)))"
  proof -
    have "sorted_wrt (<) [0 :: nat]" "[0 :: nat] \<noteq> []" "last [0] < length ?hs" "length ?hs \<le> 2 ^ 62"
      by simp_all
    then obtain c bs where *: "batch_copath [0] (length ?hs) = Some (Inr c)"
      "merged (zip [0] (map (\<lambda>i. ?hs ! i) [0])) (zip c (map (genuine ?H ?hs) c)) = zip bs (map (genuine ?H ?hs) bs)"
      "calc_root ?H (insert_all ?H (zip bs (map (genuine ?H ?hs) bs)) []) = Inr (nd_value (merkle ?H ?hs))"
      by (rule genuine_batch [where H = ?H])
    from *(1) have "c = [2]" unfolding len batch_copath_0_2 by simp
    have "map (\<lambda>i. ?hs ! i) [0] = [?a]" by simp
    from *(2) [unfolded \<open>c = [2]\<close> gen this] have z: "zip bs (map (genuine ?H ?hs) bs) = [(0, ?a), (2, ?b)]" by simp
    show ?thesis
      unfolding *(3) [unfolded z, symmetric]
      by (subst evaluate_batch_eq [OF _ _ _ batch_copath_0_2]) simp_all
  qed
  have inputs: "batch_inputs ?H [0] [2] [?a] [?b]
      = {NodeData_marshal \<lparr>nd_interior = False, nd_value = ?a\<rparr>
          @ NodeData_marshal \<lparr>nd_interior = False, nd_value = ?b\<rparr>}"
    by (simp add: batch_inputs_def lev insert_inputs_def calc_insert_Nil pad_chain_def insert_all_def calc_insert_split)
  have vs: "map (\<lambda>i. ?hs ! i) [0] = [?a]" by simp
  have inj: "inj_on ?H (batch_inputs ?H [0] [2] [?a] [?b]
      \<union> batch_inputs ?H [0] [2] (map (\<lambda>i. ?hs ! i) [0]) (map (genuine ?H ?hs) [2]))"
    unfolding vs gen inputs by simp
  have shape: "sorted_wrt (<) [0 :: nat]" "[0 :: nat] \<noteq> []" "last [0] < length ?hs" "length ?hs \<le> 2 ^ 62"
    by simp_all
  have sizes: "\<And>x. length (?H x) = 32" "\<forall>h \<in> set ?hs. length h = 32"
    "\<forall>v \<in> set [?a]. length v = 32" "\<forall>p \<in> set [?b]. length p = 32"
    by simp_all
  have "[?a] = map (\<lambda>i. ?hs ! i) [0] \<and> [?b] = map (genuine ?H ?hs) [2]"
    by (rule batch_proof_sound [where H = ?H, OF shape sizes])
      (simp_all only: len ev batch_copath_0_2 inj)
  then have "evaluate_batch_proof ?H [0] 2 [?a] [?b] = Some (Inr (nd_value (merkle ?H ?hs)))
      \<and> length ?hs = 2 \<and> [?a] = map (\<lambda>i. ?hs ! i) [0]" using ev len by (elim conjE) (intro conjI)
  then show ?thesis by (intro exI)
qed

end
