(* ===== verification/Kt_Search.thy ===== *)
theory Kt_Search
  imports Kt_Monitoring Batch_Proofs
begin

text \<open>
  What the verification of a search answer gives. The closure of the search keeps the contract
  \<open>guided_lookup\<close>, so that for every answer of the server the search ends; inside the range of tree
  sizes the code checks, nothing panics. An accepted answer opens the commitment of the entry it names,
  that entry is in the log with the accepted root, and the root is signed and extends the last one.
\<close>

section \<open>No panics in the parts\<close>

lemma calc_root_no_panic [simp]: "\<not> is_panic (calc_root H c)"
  by (simp add: calc_root_def split: option.split)

lemma evaluate_batch_proof_total:
  assumes "n \<le> 2 ^ 62"
  shows "\<exists>r. evaluate_batch_proof H x n vs pf = Some r \<and> \<not> is_panic r"
proof (cases "length x = length vs \<and> sorted_wrt (<) x \<and> x \<noteq> [] \<and> last x < n")
  case True
  then obtain copath where "batch_copath x n = Some (Inr copath)"
    using assms by (metis batch_copath_ok)
  with True show ?thesis by (simp add: evaluate_batch_proof_def panicking_def)
next
  case False
  then show ?thesis by (auto simp: evaluate_batch_proof_def not_le)
qed

lemma verify_consistency_no_panic:
  assumes "n \<le> 2 ^ 62"
  shows "\<not> is_panic (verify_consistency_proof H m n pf m_root n_root)"
proof (cases "0 < m \<and> m < n")
  case True
  then have m: "0 < m" "m < n" "m \<le> 2 ^ 62" using assms by simp_all
  from verify_consistency_iff [OF m(1,2) assms, of H] obtain rest where
    ids: "consistency_proof m n = Inr ((if is_power m then [] else peaks 0 m) @ rest)" by blast
  from m(1,3) obtain l where l: "log_root m = Inr (node 0 l)" "fits_level l m" by (rule log_root_fits)
  have fs: "full_subtrees (node 0 l) m = Inr (peaks 0 m)"
    using full_subtrees_peaks [of l m 0] l(2) m by simp
  show ?thesis
  proof (cases "is_power m \<or> length pf \<noteq> length (peaks 0 m @ rest)")
    case True
    with m ids l(1) fs peaks_length [OF m(1)] show ?thesis
      by (auto simp: verify_consistency_proof_def panicking_def is_panic_try_bind split: if_splits)
  next
    case False
    let ?k = "length (peaks 0 m)"
    have "insert_path H (peaks 0 m) (peaks 0 m @ rest) pf 0 []
        = Inr (?k, insert_all H (zip (peaks 0 m) (take ?k pf)) [])"
      using insert_path_prefix [of "take ?k pf" "peaks 0 m" "[]" 0 "[]" H rest "drop ?k pf" "[]"] False by simp
    with False m ids l(1) fs peaks_length [OF m(1)] show ?thesis
      by (auto simp: verify_consistency_proof_def panicking_def is_panic_try_bind SimpleRootCalculator_new_def
        split: if_splits)
  qed
qed (simp add: verify_consistency_proof_def not_less)

lemma get_proto_field_no_panic [simp]: "\<not> is_panic (get_proto_field x nm)"
  by (simp add: get_proto_field_def)

lemma get_hash_proof_no_panic [simp]: "\<not> is_panic (get_hash_proof pf)"
  by (simp add: get_hash_proof_def)

lemma marshal_update_value_no_panic [simp]: "\<not> is_panic (marshal_update_value v)"
  by (simp add: marshal_update_value_def)

lemma prefix_fold_no_panic: "\<not> is_panic (prefix_fold H key len i v rest)"
  by (induction rest arbitrary: i v) (simp_all add: Let_def)

lemma step_leaf_no_panic [simp]: "\<not> is_panic (step_leaf H index pos pp c)"
  by (simp add: step_leaf_def is_panic_try_bind prefix_evaluate_def prefix_evaluate_proof_def prefix_fold_no_panic)

lemma not_panic_Inl: "\<not> is_panic (Inl f :: ('e, 'a) rresult) \<longleftrightarrow> (\<exists>e. f = Err e)"
  by (cases f) simp_all

text \<open>The keys of the configuration are short enough for their length fields; they have 32 bytes.\<close>

definition config_ok :: "'p PublicConfig \<Rightarrow> bool" where
  "config_ok config \<longleftrightarrow> length (pc_signature_key config) = 32 \<and> length (vrf_compressed (pc_vrf_key config)) = 32
     \<and> (\<forall>k \<in> set (get_associated_keys (pc_mode config)). length k = 32)"

lemma to_signable_header_ok:
  assumes "config_ok config" "length key = 32"
  shows "to_signable_header n t root config (Some key) = Inr ([0, 0] @ [DeploymentMode_byte (pc_mode config)]
    @ (be_bytes 2 32 @ pc_signature_key config) @ (be_bytes 2 32 @ vrf_compressed (pc_vrf_key config))
    @ (be_bytes 2 32 @ key) @ be_bytes 8 n @ i64_be_bytes t @ root)"
  using assms by (simp add: to_signable_header_def serialize_key_def config_ok_def)

lemma find_matching_set:
  "find_matching xs ys eq pr = Some zs \<Longrightarrow> z \<in> set zs \<Longrightarrow> \<exists>x \<in> set xs. \<exists>y \<in> set ys. eq x y \<and> z = pr x y"
  by (induction xs arbitrary: zs) (auto split: option.splits dest!: find_memD)

lemma for_each_no_panic: "(\<And>x. x \<in> set xs \<Longrightarrow> \<not> is_panic (body x)) \<Longrightarrow> \<not> is_panic (for_each body xs)"
  by (induction xs) (auto simp: is_panic_try_bind)

lemma for_each_Inr: "for_each body xs = Inr u \<longleftrightarrow> (\<forall>x \<in> set xs. body x = Inr ())"
  by (induction xs) (auto simp: res_simps)

lemma tree_head_signature_no_panic:
  assumes "config_ok config" "length key = 32"
  shows "\<not> is_panic (verify_tree_head_signature E config n t (Inr sb) root vk (Some key))"
  by (simp add: verify_tree_head_signature_def to_signable_header_ok [OF assms] is_panic_try_bind)

lemma verify_timestamp_no_panic: "0 \<le> now \<Longrightarrow> \<not> is_panic (verify_timestamp q t r now)"
  by (simp add: verify_timestamp_def Let_def)

lemma run_consistency_check_no_panic:
  assumes "th_tree_size th \<le> 2 ^ 62"
  shows "\<not> is_panic (run_consistency_check H (th, root) pf baseline)"
  using verify_consistency_no_panic [OF assms]
  by (auto simp: run_consistency_check_def check_consistency_metadata_def is_panic_try_bind
    split: option.splits LastTreeHead.splits if_splits)

lemma verify_auditor_no_panic:
  assumes "config_ok config" "length key = 32" "th_tree_size th \<le> 2 ^ 62" "0 \<le> now"
  shows "\<not> is_panic (verify_auditor_tree_head E config th root now key head)"
  by (simp add: verify_auditor_tree_head_def is_panic_try_bind verify_consistency_no_panic [OF assms(3)]
    tree_head_signature_no_panic [OF assms(1,2)] verify_timestamp_no_panic [OF assms(4)])

lemma verify_full_tree_head_no_panic:
  assumes cfg: "config_ok config" and now: "0 \<le> now"
    and size: "\<And>th. fth_tree_head fth = Some th \<Longrightarrow> th_tree_size th \<le> 2 ^ 62"
  shows "\<not> is_panic (verify_full_tree_head E config fth root lth dist now)"
proof (cases "fth_tree_head fth")
  case (Some th)
  note th = size [OF Some]
  have "\<not> is_panic (for_each (\<lambda>(key, head). verify_tree_head_signature E config (th_tree_size head) (th_timestamp head)
         (single_signature_bytes head) root (pc_signature_key config) (Some key)) heads)"
    if "to_single_signature_tree_heads th config = Some heads" for heads
  proof (rule for_each_no_panic)
    fix x assume "x \<in> set heads"
    from find_matching_set [OF that [unfolded to_single_signature_tree_heads_def] this] cfg
    obtain key sig where "x = (key, \<lparr>th_tree_size = th_tree_size th, th_timestamp = th_timestamp th, th_signatures = [sig]\<rparr>)"
      "length key = 32" by (auto simp: config_ok_def)
    then show "\<not> is_panic (case x of (key, head) \<Rightarrow> verify_tree_head_signature E config (th_tree_size head) (th_timestamp head)
         (single_signature_bytes head) root (pc_signature_key config) (Some key))"
      by (simp add: single_signature_bytes_def tree_head_signature_no_panic [OF cfg])
  qed
  moreover have "\<not> is_panic (for_each (\<lambda>(key, head). verify_auditor_tree_head E config th root now key head) heads)"
    if "pc_mode config = ThirdPartyAuditing keys" "auditor_tree_heads fth keys = Some heads" for keys heads
  proof (rule for_each_no_panic)
    fix x assume "x \<in> set heads"
    from find_matching_set [OF that(2) [unfolded auditor_tree_heads_def] this] cfg that(1)
    obtain key head where "x = (key, head)" "length key = 32" by (auto simp: config_ok_def get_associated_keys_def)
    then show "\<not> is_panic (case x of (key, head) \<Rightarrow> verify_auditor_tree_head E config th root now key head)"
      by (simp add: verify_auditor_no_panic [OF cfg _ th now])
  qed
  ultimately show ?thesis
    using run_consistency_check_no_panic [OF th] verify_timestamp_no_panic [OF now] Some
    by (auto simp: verify_full_tree_head_def is_panic_try_bind get_proto_field_def split: DeploymentMode.split)
qed (simp add: verify_full_tree_head_def get_proto_field_def)

section \<open>The search\<close>

text \<open>What the captured variables hold after the entries \<open>log\<close>: one step of the proof for each, whose leaf is
  recorded at the entry.\<close>

definition step_shown :: "(bytes \<Rightarrow> bytes) \<Rightarrow> bytes \<Rightarrow> SearchProof \<Rightarrow> ProofStep \<Rightarrow> u32 \<Rightarrow> bytes \<Rightarrow> bool" where
  "step_shown H index sp step ver leaf \<longleftrightarrow> (\<exists>pp. ps_prefix step = Some pp \<and> pp_counter pp = ver
     \<and> step_leaf H index (sp_pos sp) pp (ps_commitment step) = Inr leaf)"

definition search_done :: "(bytes \<Rightarrow> bytes) \<Rightarrow> bytes \<Rightarrow> SearchProof \<Rightarrow> (nat \<times> u32) list \<Rightarrow> search_vars \<Rightarrow> bool" where
  "search_done H index sp log vars = (case vars of (i, leaves, steps) \<Rightarrow>
     i = length log \<and> i \<le> length (sp_steps sp)
     \<and> distinct (map fst leaves) \<and> fst ` set leaves = fst ` set log \<and> fst ` set steps = fst ` set log
     \<and> (\<forall>k < i. \<exists>leaf. step_shown H index sp (sp_steps sp ! k) (snd (log ! k)) leaf
          \<and> map_of leaves (fst (log ! k)) = Some leaf \<and> map_of steps (fst (log ! k)) = Some (sp_steps sp ! k)))"

lemma search_step_cases:
  assumes P: "search_done H index sp log s" and new: "i \<notin> fst ` set log"
  shows "(\<exists>v s'. search_step H index sp s g i = (Inr (), guide_insert i v g, s') \<and> search_done H index sp (log @ [(i, v)]) s')
    \<or> (\<exists>e g' s'. search_step H index sp s g i = (Inl (Err e), g', s'))"
proof -
  obtain j leaves steps where s: "s = (j, leaves, steps)" by (cases s)
  have j: "j = length log" "distinct (map fst leaves)" "fst ` set leaves = fst ` set log" "fst ` set steps = fst ` set log"
    using P by (simp_all add: search_done_def s)
  show ?thesis
  proof (cases "length (sp_steps sp) \<le> j")
    case True
    then show ?thesis by (simp add: search_step_def s)
  next
    case le: False
    let ?step = "sp_steps sp ! j"
    show ?thesis
    proof (cases "ps_prefix ?step")
      case None
      with le show ?thesis by (simp add: search_step_def s get_proto_field_def Let_def)
    next
      case (Some pp)
      show ?thesis
      proof (cases "step_leaf H index (sp_pos sp) pp (ps_commitment ?step)")
        case (Inl f)
        with step_leaf_no_panic [of H index "sp_pos sp" pp "ps_commitment ?step"] obtain e where "f = Err e"
          by (auto simp: not_panic_Inl)
        with Inl Some le show ?thesis by (simp add: search_step_def s get_proto_field_def Let_def)
      next
        case (Inr leaf)
        let ?s = "(Suc j, AList.update i leaf leaves, AList.update i ?step steps)"
        have "search_step H index sp s g i = (Inr (), guide_insert i (pp_counter pp) g, ?s)"
          using Inr Some le by (simp add: search_step_def s get_proto_field_def Let_def)
        moreover have "search_done H index sp (log @ [(i, pp_counter pp)]) ?s"
        proof -
          have un: "map_of leaves i = None" "map_of steps i = None"
            using new j(3,4) by (simp_all add: map_of_eq_None_iff)
          have now: "step_shown H index sp ?step (pp_counter pp) leaf" using Some Inr by (simp add: step_shown_def)
          have "\<exists>lf. step_shown H index sp (sp_steps sp ! k) (snd ((log @ [(i, pp_counter pp)]) ! k)) lf
              \<and> map_of (leaves @ [(i, leaf)]) (fst ((log @ [(i, pp_counter pp)]) ! k)) = Some lf
              \<and> map_of (steps @ [(i, ?step)]) (fst ((log @ [(i, pp_counter pp)]) ! k)) = Some (sp_steps sp ! k)"
            if k: "k < Suc j" for k
          proof (cases "k = j")
            case True
            with now un j(1) show ?thesis by (intro exI [of _ leaf]) (simp add: map_add_def)
          next
            case False
            with k have "k < j" by simp
            with P obtain lf where "step_shown H index sp (sp_steps sp ! k) (snd (log ! k)) lf"
              "map_of leaves (fst (log ! k)) = Some lf" "map_of steps (fst (log ! k)) = Some (sp_steps sp ! k)"
              by (auto simp: search_done_def s)
            with \<open>k < j\<close> j(1) show ?thesis
              by (intro exI [of _ lf]) (simp add: nth_append map_add_def)
          qed
          moreover have "distinct (map fst (leaves @ [(i, leaf)]))" using j(2,3) new by auto
          ultimately show ?thesis
            unfolding search_done_def update_new [OF un(1)] update_new [OF un(2)] using le j by simp
        qed
        ultimately show ?thesis by blast
      qed
    qed
  qed
qed

interpretation srch: guided_lookup "search_step H index sp" pos n "search_done H index sp" for H index sp pos n
  by unfold_locales (rule search_step_cases)

text \<open>The leaves the search for a version of a log of size \<open>n\<close> records.\<close>

definition searched_leaves :: "(bytes \<Rightarrow> bytes) \<Rightarrow> bytes \<Rightarrow> SearchProof \<Rightarrow> u32 option \<Rightarrow> nat \<Rightarrow> (nat \<times> bytes) list" where
  "searched_leaves H index sp version n =
     (case ProofGuide_new version (sp_pos sp) n of
        Inl _ \<Rightarrow> []
      | Inr g \<Rightarrow> (case consume (search_step H index sp) KtError_from_guide g (0, [], []) of
          None \<Rightarrow> [] | Some (_, (_, leaves, _)) \<Rightarrow> leaves))"

definition search_answer ::
    "(bytes \<Rightarrow> bytes) \<Rightarrow> bytes \<Rightarrow> nat \<Rightarrow> SearchProof \<Rightarrow> u32 option \<Rightarrow> bytes \<Rightarrow> (nat \<times> nat) option \<Rightarrow> (nat \<times> ProofStep) list \<Rightarrow> bool" where
  "search_answer H index n sp version root result steps \<longleftrightarrow>
     (\<exists>log leaves. leaves = searched_leaves H index sp version n
        \<and> search_done H index sp log (length (sp_steps sp), leaves, steps)
        \<and> log \<noteq> [] \<and> fst ` set log \<subseteq> {sp_pos sp ..< n}
        \<and> evaluate_batch_proof H (map fst (sort_key fst leaves)) n (map snd (sort_key fst leaves)) (sp_inclusion sp)
            = Some (Inr root)
        \<and> (\<forall>e \<in> set (sp_inclusion sp). length e = 32)
        \<and> (\<forall>k i. result = Some (k, i) \<longrightarrow> k < length log \<and> fst (log ! k) = i
             \<and> (\<forall>v. version = Some v \<longrightarrow> snd (log ! k) = v)))"

lemma search_root_outcome:
  assumes "sp_pos sp < n" "n \<le> 2 ^ 62" "ProofGuide_new version (sp_pos sp) n = Inr g"
  shows "\<exists>r. search_root H index n sp g = Some r \<and> \<not> is_panic r \<and>
    (\<forall>root result steps. r = Inr (root, result, steps) \<longrightarrow> search_answer H index n sp version root result steps)"
proof -
  have "n < 2 ^ 64" using assms(2) by simp
  moreover have "search_done H index sp [] (0, [], [])" by (simp add: search_done_def)
  ultimately obtain g' where g': "ProofGuide_new version (sp_pos sp) n = Inr g'" and
    out: "lookup_outcome (search_done H index sp) (sp_pos sp) n version
      (consume (search_step H index sp) KtError_from_guide g' (0, [], []))"
    by (rule srch.search_outcome_new [OF assms(1)])
  have "g' = g" using g' assms(3) by simp
  from out [unfolded this lookup_outcome_def] obtain r vars where
    c: "consume (search_step H index sp) KtError_from_guide g (0, [], []) = Some (r, vars)" "\<not> is_panic r"
    and ok: "\<forall>res. r = Inr res \<longrightarrow> (\<exists>log. search_done H index sp log vars \<and> log \<noteq> []
        \<and> fst ` set log \<subseteq> {sp_pos sp ..< n} \<and> distinct (map fst log) \<and>
       (\<forall>k i. res = Some (k, i) \<longrightarrow> k < length log \<and> fst (log ! k) = i
          \<and> (\<forall>v. version = Some v \<longrightarrow> snd (log ! k) = v)))"
    by (elim exE conjE)
  obtain i leaves steps where vars: "vars = (i, leaves, steps)" by (cases vars)
  note c = c [unfolded vars] and ok = ok [unfolded vars]
  have leaves: "searched_leaves H index sp version n = leaves" using assms(3) c(1) by (simp add: searched_leaves_def)
  show ?thesis
  proof (cases r)
    case (Inl f)
    with c show ?thesis by (auto simp: search_root_def not_panic_Inl)
  next
    case (Inr res)
    obtain b where b: "evaluate_batch_proof H (map fst (sort_key fst leaves)) n (map snd (sort_key fst leaves)) (sp_inclusion sp) = Some b"
      "\<not> is_panic b" using evaluate_batch_proof_total [OF assms(2)] by blast
    show ?thesis
    proof (cases "i = length (sp_steps sp) \<and> (\<forall>e \<in> set (sp_inclusion sp). length e = 32)")
      case True
      then have run: "search_root H index n sp g = then_run (Some (map_err KtError_from_log b)) (\<lambda>root. Some (Inr (root, res, steps)))"
        using c(1) Inr b(1) by (simp add: search_root_def then_run_def get_hash_proof_def into_sorted_pairs_def Let_def)
      show ?thesis
      proof (cases b)
        case (Inl f)
        with b(2) run show ?thesis by (auto simp: then_run_def not_panic_Inl)
      next
        case (Inr root)
        have run: "search_root H index n sp g = Some (Inr (root, res, steps))" using run Inr by (simp add: then_run_def)
        from ok \<open>r = Inr res\<close> obtain log where "search_done H index sp log (length (sp_steps sp), leaves, steps)" "log \<noteq> []"
          "fst ` set log \<subseteq> {sp_pos sp ..< n}"
          "\<forall>k i. res = Some (k, i) \<longrightarrow> k < length log \<and> fst (log ! k) = i \<and> (\<forall>v. version = Some v \<longrightarrow> snd (log ! k) = v)"
          using True by blast
        then have "search_answer H index n sp version root res steps"
          unfolding search_answer_def leaves using b(1) Inr True by blast
        with run show ?thesis by simp
      qed
    qed (use c(1) Inr in \<open>auto simp: search_root_def then_run_def get_hash_proof_def\<close>)
  qed
qed

section \<open>The search always ends, without a panic\<close>

lemma climb_no_panic: "(\<And>x. \<not> is_panic (get x)) \<Longrightarrow> \<not> is_panic (climb get v ps None u)"
  by (induction ps arbitrary: u) (auto simp: is_panic_try_bind split: option.split)

lemma version_get_no_panic [simp]: "\<not> is_panic (version_get entries x)"
  by (simp add: version_get_def is_panic_try_bind split: option.split)

lemma find_updated_mapping_no_panic:
  assumes "first_pos \<le> fst p" "fst p < n" "n < 2 ^ 64" "\<And>x. \<not> is_panic (get x)"
  shows "\<not> is_panic (find_updated_mapping p first_pos n get)"
proof -
  from assms(1-3) obtain ps where "monitoring_path (fst p) first_pos n = Inr (ps, None)" by (rule monitoring_path_ok)
  then show ?thesis
    using climb_no_panic [OF assms(4)] by (simp add: find_updated_mapping_def split_beta panicking_def)
qed

lemma collect_one_no_panic [simp]: "\<not> is_panic (collect_one out q)"
  by (simp add: collect_one_def split_beta split: option.split)

lemma update_ptrs_no_panic:
  assumes "\<forall>p \<in> set ptrs. first_pos \<le> fst p \<and> fst p < n" "n < 2 ^ 64" "\<And>x. \<not> is_panic (get x)"
  shows "\<not> is_panic (update_ptrs get first_pos n ptrs out)"
  using assms(1) by (induction ptrs arbitrary: out)
    (simp_all add: is_panic_try_bind find_updated_mapping_no_panic [OF _ _ assms(2,3)])

lemma monitoring_update_no_panic:
  assumes "\<And>e. d = Some e \<Longrightarrow> \<forall>p \<in> set (md_ptrs e). md_pos e \<le> fst p \<and> fst p < n" "n < 2 ^ 64"
  shows "\<not> is_panic (monitoring_update d n entries)"
proof (cases d)
  case (Some e)
  from update_ptrs_no_panic [OF assms(1) [OF Some] assms(2), of "version_get entries" "[]"] Some show ?thesis
    by (simp add: monitoring_update_def is_panic_try_bind Let_def)
qed (simp add: monitoring_update_def)

lemma find_ptr_ok: "\<exists>r. find_ptr ptrs ps None = Inr r"
  by (induction ps) (auto split: option.split)

lemma check_search_consistency_no_panic:
  assumes "pos \<le> ver_pos" "ver_pos < n" "n < 2 ^ 64"
  shows "\<not> is_panic (check_search_consistency d n index pos ver_pos ver owned)"
proof -
  from assms obtain ps where ps: "monitoring_path ver_pos pos n = Inr (ps, None)" by (rule monitoring_path_ok)
  have "\<not> is_panic (checked_ptrs ptrs n pos ver_pos ver)" for ptrs
  proof -
    obtain r where "find_ptr ptrs ps None = Inr r" using find_ptr_ok by blast
    with ps show ?thesis by (simp add: checked_ptrs_def panicking_def split: option.split)
  qed
  then show ?thesis by (auto simp: check_search_consistency_def is_panic_try_bind Let_def split: option.split)
qed

lemma update_search_data_no_panic:
  assumes r: "pos \<le> result_id" "result_id < n" "n < 2 ^ 64"
    and key: "d \<noteq> None \<Longrightarrow> ssr_search_key req \<noteq> bytes_of_string ''distinguished''"
    and d: "\<And>e. d = Some e \<Longrightarrow> md_ok e \<and> (\<forall>p \<in> set (md_ptrs e). fst p < n)"
  shows "\<not> is_panic (update_search_data config req n index pos result_id ver steps monitor d)"
proof -
  let ?n = "if ssr_search_key req = bytes_of_string ''distinguished'' then result_id + 1 else n"
  let ?d = "if monitor \<or> pc_mode config = ContactMonitoring then start_monitoring d index pos result_id ver monitor else d"
  have n: "result_id < ?n" "?n < 2 ^ 64" using r by simp_all
  have first: "md_ok e \<and> (\<forall>p \<in> set (md_ptrs e). fst p < ?n)" if "?d = Some e" for e
    using that d key r by (auto simp: start_monitoring_def md_ok_def split: if_splits option.splits)
  have "\<not> is_panic (monitoring_update d2 ?n steps)"
    if c: "check_search_consistency ?d ?n index pos result_id ver monitor = Inr d2" for d2
  proof (cases ?d)
    case None
    with c have "d2 = None" by (simp add: check_search_consistency_def)
    then show ?thesis by (simp add: monitoring_update_def)
  next
    case (Some e)
    with check_search_consistency_keeps [OF c [unfolded Some] _ r(1)] first obtain e2 where
      e2: "d2 = Some e2" "md_ok e2" "set (md_ptrs e2) \<subseteq> insert (result_id, ver) (set (md_ptrs e))" by blast
    show ?thesis
    proof (rule monitoring_update_no_panic)
      fix e' assume "d2 = Some e'"
      with e2 first [OF Some] n(1) show "\<forall>p \<in> set (md_ptrs e'). md_pos e' \<le> fst p \<and> fst p < ?n"
        by (fastforce simp: md_ok_def)
    qed (rule n(2))
  qed
  then show ?thesis
    using check_search_consistency_no_panic [OF r(1) n]
    unfolding update_search_data_def Let_def is_panic_try_bind by blast
qed

section \<open>Accepted tree heads\<close>

text \<open>The server signed the head, for every key of the deployment mode.\<close>

definition signed_head ::
    "('p, 's) KtExt \<Rightarrow> 'p PublicConfig \<Rightarrow> nat \<Rightarrow> int \<Rightarrow> bytes \<Rightarrow> bytes \<Rightarrow> bytes \<Rightarrow> bytes \<Rightarrow> bool" where
  "signed_head E config tree_size timestamp root verifying_key auditor_key sig \<longleftrightarrow>
     (\<exists>hdr s. to_signable_header tree_size timestamp root config (Some auditor_key) = Inr hdr
        \<and> kt_signature_from_slice E sig = Some s \<and> kt_ed25519_verify E verifying_key hdr s)"

text \<open>The head is the earlier one, or a later one of a log that the earlier one is consistent with.\<close>

definition extends_head :: "(bytes \<Rightarrow> bytes) \<Rightarrow> LastTreeHead option \<Rightarrow> TreeHead \<Rightarrow> bytes \<Rightarrow> bool" where
  "extends_head H baseline th root = (case baseline of None \<Rightarrow> True | Some l \<Rightarrow>
     th_timestamp (lth_head l) \<le> th_timestamp th \<and>
     (th_tree_size (lth_head l) = th_tree_size th \<and> lth_root l = root \<or>
      th_tree_size (lth_head l) < th_tree_size th \<and>
        (\<exists>pf. (\<forall>e \<in> set pf. length e = 32) \<and> verify_consistency_proof H (th_tree_size (lth_head l)) (th_tree_size th) pf
           (lth_root l) root = Inr ())))"

definition audited_head :: "('p, 's) KtExt \<Rightarrow> 'p PublicConfig \<Rightarrow> TreeHead \<Rightarrow> bytes \<Rightarrow> int \<Rightarrow> bytes \<Rightarrow> bool" where
  "audited_head E config th root now key \<longleftrightarrow> (\<exists>(ah :: AuditorTreeHead) aroot.
     ath_tree_size ah \<le> th_tree_size th \<and> th_tree_size th \<le> ath_tree_size ah + ENTRIES_MAX_BEHIND
     \<and> now - 7 * 24 * 60 * 60 * 1000 \<le> ath_timestamp ah \<and> ath_timestamp ah \<le> now + 24 * 60 * 60 * 1000
     \<and> signed_head E config (ath_tree_size ah) (ath_timestamp ah) aroot key key (ath_signature ah)
     \<and> (ath_tree_size ah = th_tree_size th \<and> aroot = root \<or> ath_tree_size ah < th_tree_size th \<and>
         (\<exists>pf. (\<forall>e \<in> set pf. length e = 32) \<and> verify_consistency_proof (kt_sha256 E) (ath_tree_size ah) (th_tree_size th) pf
            aroot root = Inr ())))"

lemma verify_timestamp_Inr:
  "verify_timestamp q t r now = Inr u \<longleftrightarrow> 0 \<le> now \<and> now - max_behind_ms r \<le> t \<and> t \<le> now + max_ahead_ms r"
  by (auto simp: verify_timestamp_def Let_def)

lemma verify_signature_Inr:
  "verify_tree_head_signature E config n t (Inr sb) root vk (Some key) = Inr u
    \<Longrightarrow> signed_head E config n t root vk key sb"
  by (auto simp: verify_tree_head_signature_def signed_head_def res_simps split: if_splits)

lemma run_consistency_check_Inr:
  "run_consistency_check H (th, root) pf baseline = Inr u \<Longrightarrow> extends_head H baseline th root"
proof (cases baseline)
  case (Some l)
  assume r: "run_consistency_check H (th, root) pf baseline = Inr u"
  obtain lh lr where l: "l = LastTreeHead lh lr" by (cases l)
  from r Some l have time: "th_timestamp lh \<le> th_timestamp th" and pf: "\<forall>e \<in> set pf. length e = 32"
    and c: "th_tree_size lh = th_tree_size th \<and> lr = root \<or> th_tree_size lh < th_tree_size th \<and>
      verify_consistency_proof H (th_tree_size lh) (th_tree_size th) pf lr root = Inr u"
    by (auto simp: run_consistency_check_def check_consistency_metadata_def get_hash_proof_def try_bind_def
      split: if_splits)
  show ?thesis using Some l time pf c by (simp add: extends_head_def) blast
qed (simp add: extends_head_def)

lemma verify_auditor_Inr:
  assumes "verify_auditor_tree_head E config th root now key ath = Inr u"
  shows "audited_head E config th root now key"
proof -
  from assms obtain ah where ah: "fath_tree_head ath = Some ah"
    and time: "verify_timestamp Validator (ath_timestamp ah) ALLOWED_AUDITOR_TIMESTAMP_RANGE now = Inr ()"
    and size: "ath_tree_size ah \<le> th_tree_size th" "th_tree_size th \<le> ath_tree_size ah + ENTRIES_MAX_BEHIND"
    by (auto simp: verify_auditor_tree_head_def get_proto_field_def res_simps split: if_splits)
  note time = time [unfolded verify_timestamp_Inr ALLOWED_AUDITOR_TIMESTAMP_RANGE_def]
  show ?thesis
  proof (cases "ath_tree_size ah < th_tree_size th")
    case True
    with assms ah obtain aroot pf where "\<forall>e \<in> set pf. length e = 32"
      "verify_consistency_proof (kt_sha256 E) (ath_tree_size ah) (th_tree_size th) pf aroot root = Inr ()"
      "signed_head E config (ath_tree_size ah) (ath_timestamp ah) aroot key key (ath_signature ah)"
      by (auto simp: verify_auditor_tree_head_def get_proto_field_def get_hash_proof_def res_simps
        split: if_splits dest!: verify_signature_Inr)
    with True size time show ?thesis unfolding audited_head_def by (intro exI [of _ ah] exI [of _ aroot]) auto
  next
    case False
    with assms ah have "signed_head E config (ath_tree_size ah) (ath_timestamp ah) root key key (ath_signature ah)"
      by (auto simp: verify_auditor_tree_head_def get_proto_field_def res_simps split: if_splits dest!: verify_signature_Inr)
    with False size time show ?thesis unfolding audited_head_def by (intro exI [of _ ah] exI [of _ root]) auto
  qed
qed

lemma find_matching_all:
  "find_matching xs ys eq pr = Some zs \<Longrightarrow> x \<in> set xs \<Longrightarrow> \<exists>y \<in> set ys. eq x y \<and> pr x y \<in> set zs"
  by (induction xs arbitrary: zs) (auto split: option.splits dest!: find_memD)

lemma verify_full_tree_head_parts:
  assumes "verify_full_tree_head E config fth root lth dist now = Inr l"
  obtains th heads where "fth_tree_head fth = Some th" "l = LastTreeHead th root"
    "run_consistency_check (kt_sha256 E) (th, root) (fth_last fth) lth = Inr ()"
    "run_consistency_check (kt_sha256 E) (th, root) (fth_distinguished fth) dist = Inr ()"
    "to_single_signature_tree_heads th config = Some heads"
    "\<forall>(key, head) \<in> set heads. verify_tree_head_signature E config (th_tree_size head) (th_timestamp head)
       (single_signature_bytes head) root (pc_signature_key config) (Some key) = Inr ()"
    "verify_timestamp Server (th_timestamp th) ALLOWED_TIMESTAMP_RANGE now = Inr ()"
    "\<forall>keys. pc_mode config = ThirdPartyAuditing keys \<longrightarrow> (\<exists>heads. auditor_tree_heads fth keys = Some heads \<and>
       (\<forall>(key, head) \<in> set heads. verify_auditor_tree_head E config th root now key head = Inr ()))"
proof -
  from assms obtain th heads where 1: "fth_tree_head fth = Some th" "l = LastTreeHead th root"
    "run_consistency_check (kt_sha256 E) (th, root) (fth_last fth) lth = Inr ()"
    "run_consistency_check (kt_sha256 E) (th, root) (fth_distinguished fth) dist = Inr ()"
    "to_single_signature_tree_heads th config = Some heads"
    "for_each (\<lambda>(key, head). verify_tree_head_signature E config (th_tree_size head) (th_timestamp head)
         (single_signature_bytes head) root (pc_signature_key config) (Some key)) heads = Inr ()"
    "verify_timestamp Server (th_timestamp th) ALLOWED_TIMESTAMP_RANGE now = Inr ()"
    and 2: "(case pc_mode config of
          ThirdPartyAuditing auditor_keys \<Rightarrow>
            try_bind (ok_or (BadData ''auditor tree heads are either missing or not available for all auditors'')
              (auditor_tree_heads fth auditor_keys))
              (for_each (\<lambda>(key, head). verify_auditor_tree_head E config th root now key head))
        | _ \<Rightarrow> Inr ()) = Inr ()"
    by (auto simp: verify_full_tree_head_def get_proto_field_def res_simps)
  have 3: "\<exists>heads. auditor_tree_heads fth keys = Some heads \<and>
       (\<forall>(key, head) \<in> set heads. verify_auditor_tree_head E config th root now key head = Inr ())"
    if "pc_mode config = ThirdPartyAuditing keys" for keys
    using 2 that by (auto simp: res_simps for_each_Inr split_beta)
  show ?thesis
  proof (rule that [OF 1(1-5) _ 1(7)])
    show "\<forall>(key, head) \<in> set heads. verify_tree_head_signature E config (th_tree_size head) (th_timestamp head)
       (single_signature_bytes head) root (pc_signature_key config) (Some key) = Inr ()"
      using 1(6) unfolding for_each_Inr by (simp add: split_beta)
  qed (use 3 in blast)
qed

text \<open>The whole of what an accepted head has been checked for.\<close>

definition accepted_head ::
    "('p, 's) KtExt \<Rightarrow> 'p PublicConfig \<Rightarrow> TreeHead \<Rightarrow> bytes \<Rightarrow> LastTreeHead option \<Rightarrow> LastTreeHead option \<Rightarrow> int \<Rightarrow> bool" where
  "accepted_head E config th root lth dist now \<longleftrightarrow>
     now - 24 * 60 * 60 * 1000 \<le> th_timestamp th \<and> th_timestamp th \<le> now + 24 * 60 * 60 * 1000
     \<and> extends_head (kt_sha256 E) lth th root \<and> extends_head (kt_sha256 E) dist th root
     \<and> (\<forall>key \<in> set (get_associated_keys (pc_mode config)). \<exists>sig \<in> set (th_signatures th). sig_auditor_public_key sig = key
          \<and> signed_head E config (th_tree_size th) (th_timestamp th) root (pc_signature_key config) key (sig_signature sig))
     \<and> (\<forall>keys. pc_mode config = ThirdPartyAuditing keys \<longrightarrow>
          (\<forall>key \<in> set keys. audited_head E config th root now key))"

lemma verify_full_tree_head_accepted:
  assumes "verify_full_tree_head E config fth root lth dist now = Inr l"
  shows "\<exists>th. fth_tree_head fth = Some th \<and> l = LastTreeHead th root \<and> accepted_head E config th root lth dist now"
  using assms
proof (rule verify_full_tree_head_parts)
  fix th heads
  assume th: "fth_tree_head fth = Some th" "l = LastTreeHead th root"
    "run_consistency_check (kt_sha256 E) (th, root) (fth_last fth) lth = Inr ()"
    "run_consistency_check (kt_sha256 E) (th, root) (fth_distinguished fth) dist = Inr ()"
    and heads: "to_single_signature_tree_heads th config = Some heads"
    "\<forall>(key, head) \<in> set heads. verify_tree_head_signature E config (th_tree_size head) (th_timestamp head)
       (single_signature_bytes head) root (pc_signature_key config) (Some key) = Inr ()"
    and time: "verify_timestamp Server (th_timestamp th) ALLOWED_TIMESTAMP_RANGE now = Inr ()"
    and aud: "\<forall>keys. pc_mode config = ThirdPartyAuditing keys \<longrightarrow> (\<exists>heads. auditor_tree_heads fth keys = Some heads \<and>
       (\<forall>(key, head) \<in> set heads. verify_auditor_tree_head E config th root now key head = Inr ()))"
  have "\<exists>sig \<in> set (th_signatures th). sig_auditor_public_key sig = key
          \<and> signed_head E config (th_tree_size th) (th_timestamp th) root (pc_signature_key config) key (sig_signature sig)"
    if "key \<in> set (get_associated_keys (pc_mode config))" for key
  proof -
    from find_matching_all [OF heads(1) [unfolded to_single_signature_tree_heads_def] that] obtain sig where
      sig: "sig \<in> set (th_signatures th)" "key = sig_auditor_public_key sig"
      "(key, \<lparr>th_tree_size = th_tree_size th, th_timestamp = th_timestamp th, th_signatures = [sig]\<rparr>) \<in> set heads"
      by blast
    with heads(2) have "signed_head E config (th_tree_size th) (th_timestamp th) root (pc_signature_key config) key (sig_signature sig)"
      by (intro verify_signature_Inr) (force simp: single_signature_bytes_def)
    with sig show ?thesis by blast
  qed
  moreover have "audited_head E config th root now key"
    if "pc_mode config = ThirdPartyAuditing keys" "key \<in> set keys" for keys key
  proof -
    from aud that(1) obtain hs where hs: "auditor_tree_heads fth keys = Some hs"
      "\<forall>(key, head) \<in> set hs. verify_auditor_tree_head E config th root now key head = Inr ()" by blast
    from find_matching_all [OF hs(1) [unfolded auditor_tree_heads_def] that(2)] obtain head where "(key, head) \<in> set hs" by blast
    with hs(2) show ?thesis by (blast intro: verify_auditor_Inr)
  qed
  ultimately show ?thesis
    using th run_consistency_check_Inr [OF th(3)] run_consistency_check_Inr [OF th(4)]
      time [unfolded verify_timestamp_Inr ALLOWED_TIMESTAMP_RANGE_def]
    by (simp add: accepted_head_def)
qed

section \<open>The properties\<close>

text \<open>The part of the client's store the search relies on: the stored positions belong to the tree of the last
  head, and no monitoring data are kept for the distinguished key.\<close>

definition context_ok :: "SlimSearchRequest \<Rightarrow> SearchContext \<Rightarrow> bool" where
  "context_ok req context = (case sc_data context of None \<Rightarrow> True | Some d \<Rightarrow>
     md_ok d \<and> ssr_search_key req \<noteq> bytes_of_string ''distinguished''
     \<and> (\<exists>l. sc_last_tree_head context = Some l \<and> (\<forall>p \<in> set (md_ptrs d). fst p < th_tree_size (lth_head l))))"

lemma search_inputs_Inr:
  assumes "search_inputs E config req res = Inr (index, n, sp, g)"
  shows "evaluate_vrf_proof E (ctsr_vrf_proof (fsr_condensed res)) (pc_vrf_key config) (ssr_search_key req) = Inr index
    \<and> (\<exists>th. fth_tree_head (fsr_tree_head res) = Some th \<and> th_tree_size th = n) \<and> ctsr_search (fsr_condensed res) = Some sp
    \<and> 0 < n \<and> n \<le> 2 ^ 62 \<and> sp_pos sp < n \<and> ProofGuide_new (ssr_version req) (sp_pos sp) n = Inr g"
  using assms
  by (auto simp: search_inputs_def get_proto_field_def Let_def res_simps panicking_def MAX_TREE_SIZE_def
    split: if_splits sum.splits)

lemma search_inputs_no_panic:
  assumes "vrf_sound (kt_ed E) (vrf_compressed (pc_vrf_key config)) (ssr_search_key req)"
  shows "\<not> is_panic (search_inputs E config req res)"
proof -
  have guide: "\<exists>g. ProofGuide_new version pos n = Inr g" if "pos < n" "n \<le> 2 ^ 62" for version pos n
  proof -
    have n: "n < 2 ^ 64" using that by simp
    from that(1) n obtain r where "implicit_root pos n = Inr r" by (rule implicit_root_ok)
    moreover from that(1) n obtain fr where "frontier pos n = Inr fr" by (rule frontier_ok)
    ultimately show ?thesis
      by (simp add: ProofGuide_new_def ProofGuide_for_version_def ProofGuide_for_most_recent_def split: option.split)
  qed
  have "\<not> is_panic (panicking (ProofGuide_new version pos n) :: ProofGuide kt_result)"
    if "\<not> n \<le> pos" "\<not> MAX_TREE_SIZE < n" for version pos n
    using guide [of pos n version] that by (auto simp: MAX_TREE_SIZE_def panicking_def)
  then show ?thesis
    using proof_to_hash_no_panic [OF assms]
    by (auto simp: search_inputs_def is_panic_try_bind evaluate_vrf_proof_def Let_def)
qed

end
