(* ===== verification/Kt_Properties.thy ===== *)
theory Kt_Properties
  imports Kt_Search
begin

text \<open>
  The properties of key transparency that span its components: verifying a search answer always ends
  without a panic, an accepted answer is in the accepted log and an accepted tree head is signed, fresh
  and extends the ones seen before; the monitoring data only ever advance; accounts read back as stored.
\<close>

section \<open>Totality of the search\<close>

lemma extends_head_size:
  "extends_head H (Some l) th root \<Longrightarrow> th_tree_size (lth_head l) \<le> th_tree_size th"
  by (auto simp: extends_head_def)

lemma verify_commitment_no_panic:
  "length k < 2 ^ 16 \<Longrightarrow> length d < 2 ^ 32 \<Longrightarrow> \<not> is_panic (verify_commitment HM k c d nonce)"
  by (simp add: verify_commitment_def commit_def)

lemma search_finish_no_panic:
  assumes cfg: "config_ok config" and key: "length (ssr_search_key req) < 2 ^ 16" and now: "0 \<le> now"
    and ctx: "context_ok req context"
    and val: "\<forall>v. ctsr_value (fsr_condensed res) = Some v \<longrightarrow> length v + 4 < 2 ^ 32"
    and th: "fth_tree_head (fsr_tree_head res) = Some th" "th_tree_size th = n" "n \<le> 2 ^ 62"
    and ans: "search_answer H index n sp version root result steps"
  shows "\<not> is_panic (search_finish E config req res context monitor now index n sp root result steps)"
proof (cases result)
  case None
  then show ?thesis by (simp add: search_finish_def)
next
  case (Some r)
  obtain k i where r: "r = (k, i)" by (cases r)
  from ans Some r have ki: "k < length (sp_steps sp)" "sp_pos sp \<le> i" "i < n"
    by (fastforce simp: search_answer_def search_done_def)+
  have "\<not> is_panic (update_search_data config req n index (sp_pos sp) i ver steps monitor (sc_data context))"
    if "verify_full_tree_head E config (fsr_tree_head res) root (sc_last_tree_head context)
      (sc_last_distinguished_tree_head context) now = Inr l" for l ver
  proof (rule update_search_data_no_panic [OF ki(2,3)])
    from verify_full_tree_head_accepted [OF that] th have
      ext: "extends_head (kt_sha256 E) (sc_last_tree_head context) th root" by (auto simp: accepted_head_def)
    fix e assume e: "sc_data context = Some e"
    with ctx obtain l where "sc_last_tree_head context = Some l" "\<forall>p \<in> set (md_ptrs e). fst p < th_tree_size (lth_head l)"
      "md_ok e" by (auto simp: context_ok_def)
    with ext extends_head_size [of "kt_sha256 E" l th root] th(2) show "md_ok e \<and> (\<forall>p \<in> set (md_ptrs e). fst p < n)"
      by fastforce
  qed (use ctx th(3) in \<open>auto simp: context_ok_def split: option.splits\<close>)
  moreover have "\<not> is_panic (verify_full_tree_head E config (fsr_tree_head res) root (sc_last_tree_head context)
      (sc_last_distinguished_tree_head context) now)"
    by (rule verify_full_tree_head_no_panic [OF cfg now]) (use th in auto)
  moreover have "\<not> is_panic (verify_commitment (kt_hmac_sha256 E) (ssr_search_key req) c v nonce :: bool kt_result)"
    if "ctsr_value (fsr_condensed res) = Some uv" "marshal_update_value uv = Inr v" for uv v c nonce
    using that val key by (intro verify_commitment_no_panic) (auto simp: marshal_update_value_def split: if_splits)
  ultimately show ?thesis
    using ki(1) Some r
    by (auto simp: search_finish_def is_panic_try_bind Let_def get_proto_field_def res_simps split: if_splits)
qed

lemma verify_search_outcome:
  assumes "config_ok config" "length (ssr_search_key req) < 2 ^ 16" "0 \<le> now" "context_ok req context"
    and "vrf_sound (kt_ed E) (vrf_compressed (pc_vrf_key config)) (ssr_search_key req)"
    and "\<forall>v. ctsr_value (fsr_condensed res) = Some v \<longrightarrow> length v + 4 < 2 ^ 32"
  shows "\<exists>r. verify_search E config req res context force_monitor now = Some r \<and> \<not> is_panic r"
proof (cases "search_inputs E config req res")
  case (Inl f)
  with search_inputs_no_panic [OF assms(5), of res] show ?thesis
    by (auto simp: verify_search_def verify_search_internal_def then_run_def not_panic_Inl)
next
  case (Inr x)
  obtain index n sp g where x: "x = (index, n, sp, g)" by (cases x)
  from search_inputs_Inr [OF Inr [unfolded x]] obtain th where
    th: "fth_tree_head (fsr_tree_head res) = Some th" "th_tree_size th = n" "n \<le> 2 ^ 62" "sp_pos sp < n"
    "ProofGuide_new (ssr_version req) (sp_pos sp) n = Inr g" by blast
  from search_root_outcome [OF th(4,3,5), of "kt_sha256 E" index] obtain r where
    r: "search_root (kt_sha256 E) index n sp g = Some r" "\<not> is_panic r"
    and ans: "\<And>root result steps. r = Inr (root, result, steps) \<Longrightarrow>
      search_answer (kt_sha256 E) index n sp (ssr_version req) root result steps" by blast
  show ?thesis
  proof (cases r)
    case (Inl f)
    with r Inr x show ?thesis by (auto simp: verify_search_def verify_search_internal_def then_run_def not_panic_Inl)
  next
    case R: (Inr y)
    obtain root result steps where y: "y = (root, result, steps)" by (cases y)
    from search_finish_no_panic [OF assms(1-4,6) th(1-3) ans [OF R [unfolded y]]] r(1) R y Inr x show ?thesis
      by (simp add: verify_search_def verify_search_internal_def then_run_def)
  qed
qed

text \<open>C8: Verifying a search answer always ends, and never panics, whatever the server answers: any tree size, any
  proof of any length, any counters. This holds for configurations with keys of 32 bytes, search keys shorter
  than 2^16 bytes, a system time after the epoch, values whose encoding is shorter than 2^32 bytes and stored
  monitoring data that belong to the last tree head, if hashing to the curve finds a point.\<close>

theorem verify_search_total:
  assumes "config_ok config" "length (ssr_search_key req) < 2 ^ 16" "0 \<le> now" "context_ok req context"
    and "vrf_sound (kt_ed E) (vrf_compressed (pc_vrf_key config)) (ssr_search_key req)"
    and "\<forall>v. ctsr_value (fsr_condensed res) = Some v \<longrightarrow> length v + 4 < 2 ^ 32"
  shows "\<exists>r. verify_search E config req res context force_monitor now = Some r \<and> \<not> is_panic r"
  using assms by (rule verify_search_outcome)

section \<open>Soundness of the search\<close>

text \<open>The strings hashed when the inclusion proof of a search is evaluated, and when the genuine inclusion proof for
  the same entries of the log \<open>hs\<close> is.\<close>

definition search_hash_inputs ::
    "(bytes \<Rightarrow> bytes) \<Rightarrow> bytes \<Rightarrow> SearchProof \<Rightarrow> u32 option \<Rightarrow> bytes list \<Rightarrow> bytes set" where
  "search_hash_inputs H index sp version hs =
     (let leaves = sort_key fst (searched_leaves H index sp version (length hs)); ids = map fst leaves in
      case batch_copath ids (length hs) of
        Some (Inr copath) \<Rightarrow> batch_inputs H ids copath (map snd leaves) (sp_inclusion sp)
          \<union> batch_inputs H ids copath (map (\<lambda>i. hs ! i) ids) (map (genuine H hs) copath)
      | _ \<Rightarrow> {})"

lemma evaluate_batch_proof_Inr:
  "evaluate_batch_proof H x n vs pf = Some (Inr root) \<Longrightarrow>
    length x = length vs \<and> sorted_wrt (<) x \<and> x \<noteq> [] \<and> last x < n \<and> (\<exists>copath. batch_copath x n = Some (Inr copath))"
  by (auto simp: evaluate_batch_proof_def panicking_def res_simps split: if_splits sum.splits)

lemma step_leaf_length:
  "step_leaf H index pos pp c = Inr leaf \<Longrightarrow> (\<And>x. length (H x) = 32) \<Longrightarrow> length leaf = 32"
  by (auto simp: step_leaf_def leaf_hash_def res_simps split: if_splits)

lemma search_done_leaves:
  assumes "search_done H index sp log (m, leaves, steps)" "(i, leaf) \<in> set leaves"
  shows "\<exists>k < length log. fst (log ! k) = i \<and> step_shown H index sp (sp_steps sp ! k) (snd (log ! k)) leaf"
proof -
  have d: "distinct (map fst leaves)" "fst ` set leaves = fst ` set log" "m = length log"
    using assms(1) by (simp_all add: search_done_def)
  have "i \<in> fst ` set leaves" by (rule image_eqI [OF _ assms(2)]) simp
  then have "i \<in> fst ` set log" unfolding d(2) .
  then obtain p where p: "p \<in> set log" "fst p = i" by blast
  from p(1) obtain k where k: "k < length log" "log ! k = p" unfolding in_set_conv_nth by blast
  note k = k(1) p(2) [folded k(2)]
  with assms(1) d(3) obtain lf where lf: "step_shown H index sp (sp_steps sp ! k) (snd (log ! k)) lf" "map_of leaves i = Some lf"
    by (auto simp: search_done_def)
  have "map_of leaves i = Some leaf" using assms(2) d(1) by simp
  with k lf show ?thesis by auto
qed

lemma search_answer_included:
  assumes ans: "search_answer H index (length hs) sp version (nd_value (merkle H hs)) result steps"
    and H: "\<And>x. length (H x) = 32" and hs: "\<forall>h \<in> set hs. length h = 32" "length hs \<le> 2 ^ 62"
    and leaf: "(i, leaf) \<in> set (searched_leaves H index sp version (length hs))"
  shows "hs ! i = leaf \<or> collision_in H (search_hash_inputs H index sp version hs)"
proof (rule disjCI)
  let ?leaves = "sort_key fst (searched_leaves H index sp version (length hs))"
  let ?ids = "map fst ?leaves" and ?vs = "map snd ?leaves"
  assume nc: "\<not> collision_in H (search_hash_inputs H index sp version hs)"
  from ans obtain log where log: "search_done H index sp log
      (length (sp_steps sp), searched_leaves H index sp version (length hs), steps)"
    and ev: "evaluate_batch_proof H ?ids (length hs) ?vs (sp_inclusion sp) = Some (Inr (nd_value (merkle H hs)))"
    and pf: "\<forall>e \<in> set (sp_inclusion sp). length e = 32"
    unfolding search_answer_def by blast
  from evaluate_batch_proof_Inr [OF ev] obtain copath where
    c: "sorted_wrt (<) ?ids" "?ids \<noteq> []" "last ?ids < length hs" "batch_copath ?ids (length hs) = Some (Inr copath)" by blast
  have "\<forall>v \<in> set ?vs. length v = 32"
  proof
    fix v assume "v \<in> set ?vs"
    then obtain j where "(j, v) \<in> set (searched_leaves H index sp version (length hs))" by auto
    from search_done_leaves [OF log this] obtain pp ct where "step_leaf H index (sp_pos sp) pp ct = Inr v"
      by (auto simp: step_shown_def)
    then show "length v = 32" using H by (rule step_leaf_length)
  qed
  moreover have "inj_on H (batch_inputs H ?ids copath ?vs (sp_inclusion sp)
      \<union> batch_inputs H ?ids copath (map (\<lambda>i. hs ! i) ?ids) (map (genuine H hs) copath))"
    using nc c(4) by (auto simp: search_hash_inputs_def collision_in_def inj_on_def Let_def)
  ultimately have "?vs = map (\<lambda>i. hs ! i) ?ids"
    using batch_proof_sound [OF c(1-3) hs(2) H hs(1) _ pf ev c(4)] by blast
  then have "\<forall>p \<in> set ?leaves. snd p = hs ! fst p" unfolding map_map map_eq_conv comp_def .
  moreover have "(i, leaf) \<in> set ?leaves" using leaf by (simp only: set_sort)
  ultimately show "hs ! i = leaf" by (metis fst_conv snd_conv)
qed

lemma search_finish_Inr:
  assumes "search_finish E config req res context monitor now index n sp root result steps = Inr upd"
  obtains k i v pp l where "result = Some (k, i)" "k < length (sp_steps sp)"
    "ctsr_value (fsr_condensed res) = Some v"
    "commit (kt_hmac_sha256 E) (ssr_search_key req) (be_bytes 4 (length v) @ v) (ctsr_opening (fsr_condensed res))
      = (Inr (ps_commitment (sp_steps sp ! k)) :: bytes kt_result)"
    "length (ctsr_opening (fsr_condensed res)) = 16"
    "verify_full_tree_head E config (fsr_tree_head res) root (sc_last_tree_head context)
      (sc_last_distinguished_tree_head context) now = Inr l"
    "ps_prefix (sp_steps sp ! k) = Some pp"
    "update_search_data config req n index (sp_pos sp) i (pp_counter pp) steps monitor (sc_data context)
      = Inr (lsu_monitoring_data upd)"
    "lsu_tree_head upd = lth_head l" "lsu_tree_root upd = lth_root l"
proof -
  from assms obtain k i where ki: "result = Some (k, i)" by (auto simp: search_finish_def res_simps)
  with assms that show ?thesis
    by (auto simp: search_finish_def Let_def get_proto_field_def marshal_update_value_def verify_commitment_def res_simps
      split: if_splits)
qed

lemma verify_search_Inr:
  assumes "verify_search E config req res context monitor now = Some (Inr upd)"
  obtains index n sp g root result steps where "search_inputs E config req res = Inr (index, n, sp, g)"
    "search_answer (kt_sha256 E) index n sp (ssr_version req) root result steps"
    "search_finish E config req res context monitor now index n sp root result steps = Inr upd"
proof -
  from assms obtain index n sp g where 1: "search_inputs E config req res = Inr (index, n, sp, g)"
    and 2: "then_run (search_root (kt_sha256 E) index n sp g) (\<lambda>(root, result, steps).
       Some (search_finish E config req res context monitor now index n sp root result steps)) = Some (Inr upd)"
    by (auto simp: verify_search_def verify_search_internal_def then_run_def split: sum.splits)
  from search_inputs_Inr [OF 1] have n: "sp_pos sp < n" "n \<le> 2 ^ 62" "ProofGuide_new (ssr_version req) (sp_pos sp) n = Inr g"
    by simp_all
  from 2 obtain root result steps where 3: "search_root (kt_sha256 E) index n sp g = Some (Inr (root, result, steps))"
    "search_finish E config req res context monitor now index n sp root result steps = Inr upd"
    by (auto simp: then_run_def split: option.splits sum.splits)
  from search_root_outcome [OF n, of "kt_sha256 E" index] 3(1)
  have "search_answer (kt_sha256 E) index n sp (ssr_version req) root result steps" by simp
  with that 1 3(2) show ?thesis by blast
qed

text \<open>C7: An accepted search answer is backed by the log. If \<open>verify_search\<close> accepts, the answer names a position of the
  log and a proof step whose commitment opens, for the search key, to the returned value; the step carries the
  version asked for, if one was; the tree head passed every check; and in every log with the accepted size and root
  the entry at that position is the hash of exactly this prefix proof and commitment, unless two different strings
  hashed in evaluating the inclusion proof or the genuine one collide.\<close>

theorem verify_search_sound:
  assumes "verify_search E config req res context force_monitor now = Some (Inr upd)"
    and "\<And>x. length (kt_sha256 E x) = 32"
  shows "\<exists>index sp k i pp v leaf. ctsr_search (fsr_condensed res) = Some sp \<and> ctsr_value (fsr_condensed res) = Some v
    \<and> evaluate_vrf_proof E (ctsr_vrf_proof (fsr_condensed res)) (pc_vrf_key config) (ssr_search_key req) = Inr index
    \<and> k < length (sp_steps sp) \<and> sp_pos sp \<le> i \<and> i < th_tree_size (lsu_tree_head upd)
    \<and> ps_prefix (sp_steps sp ! k) = Some pp \<and> (\<forall>ver. ssr_version req = Some ver \<longrightarrow> pp_counter pp = ver)
    \<and> step_leaf (kt_sha256 E) index (sp_pos sp) pp (ps_commitment (sp_steps sp ! k)) = Inr leaf
    \<and> commit (kt_hmac_sha256 E) (ssr_search_key req) (be_bytes 4 (length v) @ v) (ctsr_opening (fsr_condensed res))
        = (Inr (ps_commitment (sp_steps sp ! k)) :: bytes kt_result)
    \<and> fth_tree_head (fsr_tree_head res) = Some (lsu_tree_head upd)
    \<and> accepted_head E config (lsu_tree_head upd) (lsu_tree_root upd) (sc_last_tree_head context)
        (sc_last_distinguished_tree_head context) now
    \<and> (\<forall>hs. length hs = th_tree_size (lsu_tree_head upd) \<and> (\<forall>h \<in> set hs. length h = 32)
          \<and> lsu_tree_root upd = nd_value (merkle (kt_sha256 E) hs) \<longrightarrow>
        hs ! i = leaf \<or> collision_in (kt_sha256 E) (search_hash_inputs (kt_sha256 E) index sp (ssr_version req) hs))"
  using assms(1)
proof (rule verify_search_Inr)
  fix index n sp g root result steps
  assume inp: "search_inputs E config req res = Inr (index, n, sp, g)"
    and ans: "search_answer (kt_sha256 E) index n sp (ssr_version req) root result steps"
    and fin: "search_finish E config req res context force_monitor now index n sp root result steps = Inr upd"
  note inp = search_inputs_Inr [OF inp]
  from fin obtain k i v pp l where f: "result = Some (k, i)" "k < length (sp_steps sp)"
    "ctsr_value (fsr_condensed res) = Some v"
    "commit (kt_hmac_sha256 E) (ssr_search_key req) (be_bytes 4 (length v) @ v) (ctsr_opening (fsr_condensed res))
      = (Inr (ps_commitment (sp_steps sp ! k)) :: bytes kt_result)"
    "verify_full_tree_head E config (fsr_tree_head res) root (sc_last_tree_head context)
      (sc_last_distinguished_tree_head context) now = Inr l" "ps_prefix (sp_steps sp ! k) = Some pp"
    "lsu_tree_head upd = lth_head l" "lsu_tree_root upd = lth_root l"
    by (rule search_finish_Inr)
  from verify_full_tree_head_accepted [OF f(5)] inp f(7,8) have head: "fth_tree_head (fsr_tree_head res) = Some (lsu_tree_head upd)"
    "th_tree_size (lsu_tree_head upd) = n" "lsu_tree_root upd = root"
    "accepted_head E config (lsu_tree_head upd) (lsu_tree_root upd) (sc_last_tree_head context)
        (sc_last_distinguished_tree_head context) now" by auto
  from ans f(1) obtain log where log: "search_done (kt_sha256 E) index sp log
      (length (sp_steps sp), searched_leaves (kt_sha256 E) index sp (ssr_version req) n, steps)"
    "fst ` set log \<subseteq> {sp_pos sp ..< n}" "k < length log" "fst (log ! k) = i"
    "\<forall>v. ssr_version req = Some v \<longrightarrow> snd (log ! k) = v"
    unfolding search_answer_def by blast
  have "i \<in> fst ` set log" unfolding log(4) [symmetric] using nth_mem [OF log(3)] by (rule imageI)
  with log(2) have i: "sp_pos sp \<le> i" "i < n" by auto
  from log(1,3,4) obtain leaf where leaf: "step_shown (kt_sha256 E) index sp (sp_steps sp ! k) (snd (log ! k)) leaf"
    "map_of (searched_leaves (kt_sha256 E) index sp (ssr_version req) n) i = Some leaf"
    by (auto simp: search_done_def)
  have "hs ! i = leaf \<or> collision_in (kt_sha256 E) (search_hash_inputs (kt_sha256 E) index sp (ssr_version req) hs)"
    if "length hs = n" "\<forall>h \<in> set hs. length h = 32" "root = nd_value (merkle (kt_sha256 E) hs)" for hs
  proof (rule search_answer_included)
    show "search_answer (kt_sha256 E) index (length hs) sp (ssr_version req) (nd_value (merkle (kt_sha256 E) hs)) result steps"
      using ans that by simp
    show "(i, leaf) \<in> set (searched_leaves (kt_sha256 E) index sp (ssr_version req) (length hs))"
      using map_of_SomeD [OF leaf(2)] that(1) by simp
  qed (use assms(2) that inp in auto)
  with inp f head i leaf(1) log(5) show ?thesis
    by (intro exI [of _ index] exI [of _ sp] exI [of _ k] exI [of _ i] exI [of _ pp] exI [of _ v] exI [of _ leaf])
      (simp add: step_shown_def)
qed

section \<open>Monitoring data\<close>

lemma update_search_data_keeps:
  assumes u: "update_search_data config req n index pos i ver steps monitor d = Inr d'" and i: "pos \<le> i"
    and ok: "\<And>e. d = Some e \<Longrightarrow> md_ok e"
  shows "case d' of None \<Rightarrow> d = None | Some e' \<Rightarrow> md_ok e' \<and> ver \<le> md_max_observed_version e' \<and> md_index e' = index
    \<and> md_pos e' = pos \<and> (\<forall>e. d = Some e \<longrightarrow> md_advance e e')"
proof -
  let ?d = "if monitor \<or> pc_mode config = ContactMonitoring then start_monitoring d index pos i ver monitor else d"
  from u obtain m d2 where c: "check_search_consistency ?d m index pos i ver monitor = Inr d2"
    and u2: "monitoring_update d2 m steps = Inr d'" by (auto simp: update_search_data_def Let_def res_simps)
  show ?thesis
  proof (cases ?d)
    case None
    then have "d = None" by (auto simp: start_monitoring_def split: if_splits option.splits)
    moreover from None c u2 have "d' = None" by (simp add: check_search_consistency_def monitoring_update_def)
    ultimately show ?thesis by simp
  next
    case (Some e1)
    then have e1: "md_ok e1" "d = Some e \<Longrightarrow> e = e1" for e
      using ok i by (auto simp: start_monitoring_def md_ok_def split: if_splits option.splits)
    from check_search_consistency_keeps [OF c [unfolded Some] e1(1) i] obtain e2 where
      e2: "d2 = Some e2" "md_ok e2" "md_advance e1 e2" "ver \<le> md_max_observed_version e2" "md_index e1 = index" "md_pos e1 = pos"
      by blast
    from monitoring_update_keeps [OF u2 [unfolded e2(1)] e2(2)] obtain e3 where
      e3: "d' = Some e3" "md_ok e3" "md_advance e2 e3" by blast
    have adv: "md_advance e1 e3" using e2(3) e3(3) by (rule md_advance_trans)
    have "ver \<le> md_max_observed_version e3" using e2(4) e3(3) by (auto simp: md_advance_def)
    with e3(1,2) adv e1(2) e2(5,6) show ?thesis by (auto simp: md_advance_def)
  qed
qed

lemma search_keeps_monitoring_data:
  assumes "verify_search E config req res context monitor now = Some (Inr upd)"
    and "\<And>d. sc_data context = Some d \<Longrightarrow> md_ok d"
  shows "case lsu_monitoring_data upd of None \<Rightarrow> sc_data context = None
    | Some e \<Rightarrow> md_ok e \<and> (\<forall>d. sc_data context = Some d \<longrightarrow> md_advance d e)"
  using assms(1)
proof (rule verify_search_Inr)
  fix index n sp g root result steps
  assume ans: "search_answer (kt_sha256 E) index n sp (ssr_version req) root result steps"
    and fin: "search_finish E config req res context monitor now index n sp root result steps = Inr upd"
  from fin obtain k i and pp :: PrefixProof where r: "result = Some (k, i)" and u: "update_search_data config req n index (sp_pos sp) i
    (pp_counter pp) steps monitor (sc_data context) = Inr (lsu_monitoring_data upd)" by (rule search_finish_Inr)
  from ans r obtain log :: "(nat \<times> u32) list" where
    log: "fst ` set log \<subseteq> {sp_pos sp ..< n}" "k < length log" "fst (log ! k) = i"
    unfolding search_answer_def by blast
  have "i \<in> fst ` set log" unfolding log(3) [symmetric] using nth_mem [OF log(2)] by (rule imageI)
  with log(1) have "sp_pos sp \<le> i" by auto
  from update_search_data_keeps [OF u this assms(2)] show ?thesis by (auto split: option.splits)
qed

lemma update_monitored_keeps:
  assumes "update_monitored req n d ks updates = Inr updates'"
    and "\<forall>(k, e) \<in> set updates. \<exists>m. map_of d k = Some m \<and> (md_ok m \<longrightarrow> md_ok e \<and> md_advance m e)"
  shows "\<forall>(k, e) \<in> set updates'. \<exists>m. map_of d k = Some m \<and> (md_ok m \<longrightarrow> md_ok e \<and> md_advance m e)"
  using assms
proof (induction req n d ks updates rule: update_monitored.induct)
  case (2 req n d key entry rest updates)
  from "2.prems"(1) obtain size u where u: "monitoring_update (map_of d (mk_search_key key)) size entry = Inr u"
    and rest: "update_monitored req n d rest
      (case u of None \<Rightarrow> updates | Some u \<Rightarrow> AList.update (mk_search_key key) u updates) = Inr updates'"
    and size: "(if mk_search_key key = bytes_of_string ''distinguished''
       then ok_or (RequiredFieldMissing ''consistency field when monitoring distinguished key'')
         (case mreq_consistency req of None \<Rightarrow> None | Some c \<Rightarrow> con_last c)
       else Inr n) = Inr size"
    by (auto simp: res_simps)
  show ?case
  proof (cases u)
    case None
    with "2.IH" [OF size u] rest "2.prems"(2) show ?thesis by simp
  next
    case (Some e)
    then obtain m where m: "map_of d (mk_search_key key) = Some m"
      using u by (cases "map_of d (mk_search_key key)") (auto simp: monitoring_update_def)
    have "md_ok m \<longrightarrow> md_ok e \<and> md_advance m e" using monitoring_update_keeps [OF u [unfolded m]] Some by auto
    moreover have "set (AList.update (mk_search_key key) e updates) \<subseteq> insert (mk_search_key key, e) (set updates)"
      by (induction updates) auto
    ultimately have "\<forall>(k, e) \<in> set (AList.update (mk_search_key key) e updates).
        \<exists>m. map_of d k = Some m \<and> (md_ok m \<longrightarrow> md_ok e \<and> md_advance m e)"
      using "2.prems"(2) m by fastforce
    with "2.IH" [OF size u] rest Some show ?thesis by simp
  qed
qed simp

lemma then_run_Inr: "then_run r k = Some (Inr b) \<longleftrightarrow> (\<exists>a. r = Some (Inr a) \<and> k a = Some (Inr b))"
  by (auto simp: then_run_def split: option.splits sum.splits)

lemma monitor_keeps_monitoring_data:
  assumes "verify_monitor E config req res context now = Some (Inr upd)"
  shows "\<forall>(k, e) \<in> set (lsu_monitoring_data upd).
    \<exists>d. map_of (mc_data context) k = Some d \<and> (md_ok d \<longrightarrow> md_ok e \<and> md_advance d e)"
proof -
  from assms obtain n and mpa :: MonitorProofAcc where "update_monitored req n (mc_data context) (zip (mreq_keys req) (mpa_entries mpa)) []
      = Inr (lsu_monitoring_data upd)"
    by (auto simp: verify_monitor_def then_run_Inr Let_def res_simps split: if_splits)
  then show ?thesis by (rule update_monitored_keeps) simp
qed

text \<open>C9: Monitoring data only ever advance. After an accepted search, and for every key after an accepted monitor
  answer, the monitoring data keep their invariant (distinct positions not before the first one of the key, no version
  above the recorded maximum); the index, first position and ownership stay, the maximum does not drop, and every
  stored position is kept or replaced by a later one with no lower version.\<close>

theorem monitoring_data_advance:
  assumes "\<And>d. sc_data context = Some d \<Longrightarrow> md_ok d"
  shows "(verify_search E config req res context force_monitor now = Some (Inr upd) \<longrightarrow>
      (case lsu_monitoring_data upd of None \<Rightarrow> sc_data context = None
       | Some e \<Rightarrow> md_ok e \<and> (\<forall>d. sc_data context = Some d \<longrightarrow> md_advance d e)))
    \<and> (verify_monitor E config mreq mres mcontext now = Some (Inr mupd) \<longrightarrow>
      (\<forall>(k, e) \<in> set (lsu_monitoring_data mupd).
        \<exists>d. map_of (mc_data mcontext) k = Some d \<and> (md_ok d \<longrightarrow> md_ok e \<and> md_advance d e)))"
  by (intro conjI impI search_keeps_monitoring_data [OF _ assms] monitor_keeps_monitoring_data)

section \<open>Tree heads\<close>

text \<open>C10: An accepted tree head is signed, fresh and consistent. If \<open>verify_full_tree_head\<close> accepts, it returns the head of
  the answer with the candidate root; the head is at most a day away from the system time; it has a valid
  signature of the server for every auditor key of the configuration; it is the last head and the distinguished head
  seen before or extends them by a checked consistency proof; and with third-party auditing every auditor has signed
  a head of the same log, at most a week old and ten million entries behind.\<close>

theorem accepted_tree_head:
  assumes "verify_full_tree_head E config fth root last_tree_head last_distinguished_tree_head now = Inr l"
  shows "\<exists>th. fth_tree_head fth = Some th \<and> l = LastTreeHead th root
    \<and> accepted_head E config th root last_tree_head last_distinguished_tree_head now"
  using assms by (rule verify_full_tree_head_accepted)

text \<open>In the contact monitoring mode there are no auditor keys, so that no signature of the tree head is looked at: the
  result does not depend on the signature checks at all.\<close>

lemma contact_monitoring_unsigned:
  assumes "pc_mode config = ContactMonitoring"
  shows "verify_full_tree_head (E\<lparr>kt_ed25519_verify := v, kt_signature_from_slice := s\<rparr>) config fth root lth dist now
    = verify_full_tree_head E config fth root lth dist now"
  using assms
  by (simp add: verify_full_tree_head_def to_single_signature_tree_heads_def get_associated_keys_def)

section \<open>Monitor answers\<close>

text \<open>C32: A server that answers a monitor request with a tree that ends at or before the first position of the first
  key makes the client panic, although the range of the tree size is checked; the signatures and the last tree
  head, which has a larger tree, are not looked at before.\<close>

theorem verify_monitor_panics:
  assumes "length (mreq_keys req) = length (mres_proofs res)" "mreq_keys req = key # ks"
    and "mres_tree_head res = Some fth" "fth_tree_head fth = Some th"
    and "0 < th_tree_size th" "th_tree_size th \<le> MAX_TREE_SIZE"
    and "map_of (mc_data context) (mk_search_key key) = Some d" "th_tree_size th \<le> md_pos d"
  shows "verify_monitor E config req res context now = Some (Inl (Panic ''leaf node has no children''))"
proof -
  obtain pf pfs where "mres_proofs res = pf # pfs" using assms(1,2) by (cases "mres_proofs res") auto
  with assms show ?thesis
    by (simp add: verify_monitor_def then_run_def get_proto_field_def MonitorProofAcc_process_def MonitorProofAcc_new_def
      full_monitoring_path_panics panicking_def)
qed

text \<open>What the code relies on instead. The size of the tree up to which the data of a key are updated: that of the answer,
  or, for the key named distinguished, the last size in the request (without one the update is an error).\<close>

definition update_size :: "MonitorRequest \<Rightarrow> MonitorKey \<Rightarrow> nat \<Rightarrow> nat option" where
  "update_size req key n = (if mk_search_key key = bytes_of_string ''distinguished''
     then (case mreq_consistency req of None \<Rightarrow> None | Some c \<Rightarrow> con_last c) else Some n)"

text \<open>For every requested key with monitoring data, the data are well formed, the requested entry lies between the first
  position of the key and the end of the tree of the answer, and every stored position lies in the tree up to which it
  is updated, whose size fits in \<open>u64\<close>.\<close>

definition monitor_in_range :: "MonitorRequest \<Rightarrow> (bytes \<times> MonitoringData) list \<Rightarrow> nat \<Rightarrow> bool" where
  "monitor_in_range req ds n \<longleftrightarrow> (\<forall>key \<in> set (mreq_keys req). \<forall>d. map_of ds (mk_search_key key) = Some d \<longrightarrow>
     md_ok d \<and> md_pos d \<le> mk_entry_position key \<and> mk_entry_position key < n
     \<and> (\<forall>size. update_size req key n = Some size \<longrightarrow> size < 2 ^ 64 \<and> (\<forall>p \<in> set (md_ptrs d). fst p < size)))"

lemma process_steps_no_panic: "\<not> is_panic (process_steps H d es leaves steps)"
  by (induction H d es leaves steps rule: process_steps.induct)
    (auto simp: is_panic_try_bind split: option.splits)

lemma full_monitoring_path_ok:
  assumes "start \<le> entry" "entry < n" "n < 2 ^ 64"
  shows "\<exists>path. full_monitoring_path entry start n = Inr path"
  using full_monitoring_path_covers [OF assms] by blast

lemma process_no_panic:
  assumes "\<And>d. map_of ds (mk_search_key key) = Some d \<Longrightarrow> md_pos d \<le> mk_entry_position key \<and> mk_entry_position key < n"
    and "n < 2 ^ 64" "mpa_tree_size mpa = n"
  shows "\<not> is_panic (MonitorProofAcc_process H mpa ds key pf)"
proof (cases "map_of ds (mk_search_key key)")
  case (Some d)
  with assms full_monitoring_path_ok [of "md_pos d" "mk_entry_position key" n] obtain path where
    "full_monitoring_path (mk_entry_position key) (md_pos d) (mpa_tree_size mpa) = Inr path" by auto
  with Some show ?thesis
    by (auto simp: MonitorProofAcc_process_def is_panic_try_bind panicking_def process_steps_no_panic)
qed (simp add: MonitorProofAcc_process_def)

lemma process_all_no_panic:
  assumes "\<forall>(key, pf) \<in> set kps. \<forall>d. map_of ds (mk_search_key key) = Some d \<longrightarrow>
      md_pos d \<le> mk_entry_position key \<and> mk_entry_position key < n"
    and "n < 2 ^ 64" "mpa_tree_size mpa = n"
  shows "\<not> is_panic (process_all H ds kps mpa)"
  using assms(1,3)
proof (induction kps arbitrary: mpa)
  case (Cons kp kps)
  obtain key pf where kp: "kp = (key, pf)" by (cases kp)
  have "mpa_tree_size mpa' = n" if "MonitorProofAcc_process H mpa ds key pf = Inr mpa'" for mpa'
    using that Cons.prems(2) by (auto simp: MonitorProofAcc_process_def res_simps split: if_splits)
  moreover have "\<not> is_panic (MonitorProofAcc_process H mpa ds key pf)"
    using Cons.prems kp assms(2) by (intro process_no_panic) auto
  ultimately show ?case using Cons.IH Cons.prems(1) kp by (auto simp: is_panic_try_bind)
qed simp

lemma update_monitored_Cons:
  "update_monitored req n ds ((key, es) # kes) updates =
     try_bind (ok_or (RequiredFieldMissing ''consistency field when monitoring distinguished key'') (update_size req key n)) (\<lambda>size.
     try_bind (monitoring_update (map_of ds (mk_search_key key)) size es) (\<lambda>updated.
       update_monitored req n ds kes (case updated of None \<Rightarrow> updates | Some u \<Rightarrow> AList.update (mk_search_key key) u updates)))"
  by (simp add: update_size_def)

lemma update_monitored_no_panic:
  assumes "\<forall>(key, es) \<in> set kes. \<forall>d size. map_of ds (mk_search_key key) = Some d \<longrightarrow> update_size req key n = Some size \<longrightarrow>
      size < 2 ^ 64 \<and> (\<forall>p \<in> set (md_ptrs d). md_pos d \<le> fst p \<and> fst p < size)"
  shows "\<not> is_panic (update_monitored req n ds kes updates)"
  using assms
proof (induction kes arbitrary: updates)
  case (Cons ke kes)
  obtain key es where ke: "ke = (key, es)" by (cases ke)
  have "\<not> is_panic (monitoring_update (map_of ds (mk_search_key key)) size es)" if "update_size req key n = Some size" for size
  proof (cases "map_of ds (mk_search_key key)")
    case (Some d)
    with Cons.prems ke that show ?thesis by (intro monitoring_update_no_panic) simp_all
  qed (simp add: monitoring_update_def)
  moreover have "\<not> is_panic (update_monitored req n ds kes updates')" for updates'
    using Cons.IH Cons.prems by simp
  ultimately show ?case by (simp add: ke update_monitored_Cons is_panic_try_bind del: update_monitored.simps)
qed simp

lemma monitor_root_total:
  assumes "n \<le> 2 ^ 62"
  shows "\<exists>r. monitor_root H n leaves pf = Some r \<and> \<not> is_panic r"
proof (cases "leaves = []")
  case True
  then show ?thesis by (simp add: monitor_root_def split: list.split)
next
  case False
  obtain r where "evaluate_batch_proof H (map fst (sort_key fst leaves)) n (map snd (sort_key fst leaves)) pf = Some r"
    "\<not> is_panic r" using evaluate_batch_proof_total [OF assms] by blast
  with False show ?thesis by (simp add: monitor_root_def into_sorted_pairs_def Let_def)
qed

definition ends_well :: "'a kt_result option \<Rightarrow> bool" where
  "ends_well x \<longleftrightarrow> (\<exists>r. x = Some r \<and> \<not> is_panic r)"

lemma ends_well_then_run:
  "ends_well x \<Longrightarrow> (\<And>a. x = Some (Inr a) \<Longrightarrow> ends_well (k a)) \<Longrightarrow> ends_well (then_run x k)"
  by (auto simp: ends_well_def then_run_def not_panic_Inl split: sum.splits)

lemma ends_well_Some [simp]: "ends_well (Some r) \<longleftrightarrow> \<not> is_panic r"
  by (simp add: ends_well_def)

text \<open>C12: Verifying a monitor answer ends without a panic, for all proofs, counters, signatures and inclusion hashes a
  server can send, if the configuration is well formed, the clock is after the epoch, and for every requested key with
  monitoring data, the one named distinguished included, the data are well formed, the requested entry lies in the tree
  of the answer at or after the first position of the key, and the stored positions lie in the tree up to which they
  are updated: that of the answer, or for the key named distinguished the last one of the request. The code does
  not check these ranges; \<open>verify_monitor_panics\<close> shows what happens without the first.\<close>

theorem verify_monitor_total:
  assumes cfg: "config_ok config" and now: "0 \<le> now"
    and range: "\<forall>fth th. mres_tree_head res = Some fth \<and> fth_tree_head fth = Some th \<longrightarrow>
      monitor_in_range req (mc_data context) (th_tree_size th)"
  shows "\<exists>r. verify_monitor E config req res context now = Some r \<and> \<not> is_panic r"
proof -
  have step: "ends_well (then_run (Some (process_all (kt_sha256 E) (mc_data context) (zip (mreq_keys req) (mres_proofs res))
             (MonitorProofAcc_new (th_tree_size th)))) (\<lambda>mpa.
      then_run (Some (get_hash_proof (mres_inclusion res))) (\<lambda>inclusion_proof.
      then_run (monitor_root (kt_sha256 E) (th_tree_size th) (mpa_leaves mpa) inclusion_proof) (\<lambda>root.
      Some (try_bind (verify_full_tree_head E config fth root (mc_last_tree_head context)
            (Some (mc_last_distinguished_tree_head context)) now) (\<lambda>updated.
        try_bind (update_monitored req (th_tree_size th) (mc_data context) (zip (mreq_keys req) (mpa_entries mpa)) []) (\<lambda>updates.
          Inr \<lparr>lsu_tree_head = lth_head updated, lsu_tree_root = lth_root updated,
            lsu_monitoring_data = updates\<rparr>)))))))"
    if th: "mres_tree_head res = Some fth" "fth_tree_head fth = Some th" "th_tree_size th \<le> 2 ^ 62" for fth th
  proof -
    let ?n = "th_tree_size th"
    have n: "?n < 2 ^ 64" using th(3) by simp
    from range th have r: "monitor_in_range req (mc_data context) ?n" by blast
    have 1: "\<not> is_panic (process_all (kt_sha256 E) (mc_data context) (zip (mreq_keys req) (mres_proofs res)) (MonitorProofAcc_new ?n))"
      using r n by (intro process_all_no_panic) (auto simp: monitor_in_range_def MonitorProofAcc_new_def dest!: set_zip_leftD)
    have 2: "\<not> is_panic (update_monitored req ?n (mc_data context) (zip (mreq_keys req) es) [])" for es
      using r n by (intro update_monitored_no_panic)
        (fastforce simp: monitor_in_range_def md_ok_def dest!: set_zip_leftD)+
    have 3: "\<not> is_panic (verify_full_tree_head E config fth root l d now)" for root l d
      by (rule verify_full_tree_head_no_panic [OF cfg now]) (use th in auto)
    show ?thesis
      by (intro ends_well_then_run) (use 1 2 3 monitor_root_total [OF th(3)] in \<open>auto simp: ends_well_def is_panic_try_bind\<close>)
  qed
  have "ends_well (verify_monitor E config req res context now)"
    unfolding verify_monitor_def Let_def
    using step by (auto simp: get_proto_field_def MAX_TREE_SIZE_def not_less intro!: ends_well_then_run)
  then show ?thesis by (simp add: ends_well_def)
qed

section \<open>Stored accounts\<close>

lemma map_stored_zip:
  assumes "\<And>d. x = Some d \<Longrightarrow> length (md_index d) = 32"
  shows "map_stored (zip_stored x k) = Inr (case (x, k) of (Some d, Some s) \<Rightarrow> Some (d\<lparr>md_search_key := s\<rparr>) | _ \<Rightarrow> None)"
  using assms
  by (auto simp: map_stored_def zip_stored_def MonitoringData_into_stored_def MonitoringData_from_def split: option.split)

text \<open>C38: A stored account reads back as it was written: for the search keys it was stored with, an account with
  hashes of 32 bytes converts to its stored form and back to the same account, in which each part carries its
  search key; a part without a search key is dropped.\<close>

theorem account_data_roundtrip:
  assumes "length (md_index (ad_aci a)) = 32" "length (lth_root (ad_last_tree_head a)) = 32"
    and "\<And>d. ad_e164 a = Some d \<Longrightarrow> length (md_index d) = 32"
    and "\<And>d. ad_username_hash a = Some d \<Longrightarrow> length (md_index d) = 32"
    and "0 \<le> stored_at" "stored_at < 2 ^ 64"
  shows "\<exists>s. AccountData_into_stored a aci_key e164_key username_key stored_at = Inr s
    \<and> AccountData_try_from s = Inr (a\<lparr>ad_aci := (ad_aci a)\<lparr>md_search_key := aci_key\<rparr>,
        ad_e164 := (case (ad_e164 a, e164_key) of (Some d, Some k) \<Rightarrow> Some (d\<lparr>md_search_key := k\<rparr>) | _ \<Rightarrow> None),
        ad_username_hash := (case (ad_username_hash a, username_key) of
          (Some d, Some k) \<Rightarrow> Some (d\<lparr>md_search_key := k\<rparr>) | _ \<Rightarrow> None)\<rparr>)"
proof -
  have "map_stored (Some (MonitoringData_into_stored (ad_aci a) aci_key)) = Inr (Some ((ad_aci a)\<lparr>md_search_key := aci_key\<rparr>))"
    using assms(1) by (simp add: map_stored_def MonitoringData_into_stored_def MonitoringData_from_def)
  moreover have "LastTreeHead_into_stored (ad_last_tree_head a) stored_at = Inr
      \<lparr>sth_tree_head = Some (lth_head (ad_last_tree_head a)), sth_root = lth_root (ad_last_tree_head a),
       sth_stored_at_ms = nat stored_at\<rparr>"
    using assms(5,6) by (simp add: LastTreeHead_into_stored_def)
  ultimately show ?thesis
    using map_stored_zip [of "ad_e164 a" e164_key] map_stored_zip [of "ad_username_hash a" username_key] assms(2-4)
    by (simp add: AccountData_into_stored_def AccountData_try_from_def into_last_tree_head_def)
qed

end
