(* ===== verification/Kt_Sample.thy ===== *)
theory Kt_Sample
  imports Kt_Properties "HOL-Library.Code_Target_Nat"
begin

text \<open>
  A key transparency answer on concrete inputs. The log has two entries, both for the same search key, and the client
  has seen the first of them; the hash functions are constant and every signature is valid, which is all the
  hypotheses of the properties ask for. The properties of the client are applied to this answer.
\<close>

declare consume.simps [code]

section \<open>The externals\<close>

definition zeros :: bytes where
  "zeros = replicate 32 0"

definition sample_ed :: "(unit, unit) EdOps" where
  "sample_ed = \<lparr>ed_sha512 = (\<lambda>_. replicate 64 0), ed_decompress = (\<lambda>_. Some ()), ed_compress = (\<lambda>_. zeros),
     ed_mul_by_cofactor = id, ed_is_identity = (\<lambda>_. False), ed_is_small_order = (\<lambda>_. False),
     ed_from_canonical_bytes = (\<lambda>_. Some ()), ed_neg = id, ed_double_scalar_mul_basepoint = (\<lambda>_ _ _. ()),
     ed_multiscalar_mul = (\<lambda>_ _. ())\<rparr>"

definition sample_ext :: "(unit, unit) KtExt" where
  "sample_ext = \<lparr>kt_sha256 = (\<lambda>_. zeros), kt_hmac_sha256 = (\<lambda>_ _. zeros), kt_signature_from_slice = Some,
     kt_ed25519_verify = (\<lambda>_ _ _. True), kt_ed = sample_ed\<rparr>"

section \<open>The answer\<close>

definition auditor_key :: bytes where
  "auditor_key = replicate 32 7"

definition sample_config :: "unit PublicConfig" where
  "sample_config = \<lparr>pc_mode = ThirdPartyAuditing [auditor_key], pc_signature_key = zeros,
     pc_vrf_key = \<lparr>vrf_compressed = zeros, vrf_decompressed = ()\<rparr>\<rparr>"

definition sample_head :: "nat \<Rightarrow> TreeHead" where
  "sample_head n = \<lparr>th_tree_size = n, th_timestamp = 1000 * int n,
     th_signatures = [\<lparr>sig_auditor_public_key = auditor_key, sig_signature = []\<rparr>]\<rparr>"

definition sample_full_head :: FullTreeHead where
  "sample_full_head = \<lparr>fth_tree_head = Some (sample_head 2), fth_last = [zeros], fth_distinguished = [zeros],
     fth_full_auditor_tree_heads = [\<lparr>
       fath_tree_head = Some \<lparr>ath_tree_size = 1, ath_timestamp = 1000, ath_signature = []\<rparr>,
       fath_root_value = Some zeros, fath_consistency = [zeros], fath_public_key = auditor_key\<rparr>]\<rparr>"

definition sample_step :: "u32 \<Rightarrow> ProofStep" where
  "sample_step ver = \<lparr>ps_prefix = Some \<lparr>pp_proof = replicate 256 zeros, pp_counter = ver\<rparr>, ps_commitment = zeros\<rparr>"

definition sample_proof :: SearchProof where
  "sample_proof = \<lparr>sp_pos = 0, sp_steps = [sample_step 1, sample_step 0], sp_inclusion = []\<rparr>"

definition sample_response :: FullSearchResponse where
  "sample_response = \<lparr>fsr_condensed = \<lparr>ctsr_vrf_proof = replicate 80 0,
       ctsr_search = Some sample_proof,
       ctsr_opening = replicate 16 0, ctsr_value = Some [42]\<rparr>,
     fsr_tree_head = sample_full_head\<rparr>"

definition sample_request :: SlimSearchRequest where
  "sample_request = SlimSearchRequest_new [97]"

definition sample_data :: MonitoringData where
  "sample_data = \<lparr>md_index = zeros, md_pos = 0, md_ptrs = [(0, 0)], md_owned = True, md_search_key = [97],
     md_max_observed_version = 0\<rparr>"

definition sample_context :: SearchContext where
  "sample_context = \<lparr>sc_last_tree_head = Some (LastTreeHead (sample_head 1) zeros),
     sc_last_distinguished_tree_head = Some (LastTreeHead (sample_head 1) zeros), sc_data = Some sample_data\<rparr>"

definition sample_monitor_request :: MonitorRequest where
  "sample_monitor_request = \<lparr>mreq_keys = [\<lparr>mk_search_key = [97], mk_entry_position = 0, mk_commitment_index = zeros\<rparr>],
     mreq_consistency = Some \<lparr>con_last = Some 1, con_distinguished = Some 1\<rparr>\<rparr>"

definition sample_monitor_response :: MonitorResponse where
  "sample_monitor_response = \<lparr>mres_tree_head = Some sample_full_head, mres_proofs = [\<lparr>mp_steps = [sample_step 1]\<rparr>],
     mres_inclusion = [zeros]\<rparr>"

definition sample_monitor_context :: MonitorContext where
  "sample_monitor_context = \<lparr>mc_last_tree_head = Some (LastTreeHead (sample_head 1) zeros),
     mc_last_distinguished_tree_head = LastTreeHead (sample_head 1) zeros, mc_data = [([97], sample_data)]\<rparr>"

section \<open>Evaluating it\<close>

lemma zeros_length [simp]: "length zeros = 32"
  by (simp add: zeros_def)

lemma sample_fields [simp]:
  "kt_sha256 sample_ext = (\<lambda>_. zeros)" "kt_hmac_sha256 sample_ext = (\<lambda>_ _. zeros)" "kt_ed sample_ext = sample_ed"
  "kt_ed25519_verify sample_ext a b c" "kt_signature_from_slice sample_ext d = Some d"
  "pc_mode sample_config = ThirdPartyAuditing [auditor_key]" "pc_signature_key sample_config = zeros"
  by (simp_all add: sample_ext_def sample_config_def)

lemma sample_vrf [simp]: "vrf_sound sample_ed salt d"
  by (auto simp: vrf_sound_def sample_ed_def intro: exI [of _ "0 :: nat"])

lemma config_ok_sample [simp]: "config_ok sample_config"
  by (simp add: config_ok_def sample_config_def get_associated_keys_def auditor_key_def)

lemma prefix_fold_zeros:
  "\<forall>s \<in> set pf. length s = 32 \<Longrightarrow> prefix_fold (\<lambda>_. zeros) key len i zeros pf = Inr zeros"
  by (induction pf arbitrary: i) (auto simp: prefix_parent_hash_def Let_def)

lemma sample_step_leaf [simp]:
  "ps_prefix (sample_step ver) = Some pp \<Longrightarrow> step_leaf (\<lambda>_. zeros) index pos pp (ps_commitment (sample_step ver)) = Inr zeros"
  by (auto simp: step_leaf_def sample_step_def prefix_evaluate_def prefix_evaluate_proof_def KEY_LENGTH_def
    prefix_leaf_hash_def prefix_fold_zeros leaf_hash_def)

lemma sample_evaluate_vrf [simp]:
  "evaluate_vrf_proof sample_ext (replicate 80 0) (pc_vrf_key sample_config) key = Inr zeros"
proof -
  have "encode_to_curve_try_and_increment sample_ed salt key = Inr ()" for salt key
    using encode_to_curve_ok [of sample_ed salt key] by simp
  then show ?thesis
    by (simp add: evaluate_vrf_proof_def proof_to_hash_def Let_def sample_ed_def generate_challenge_def gamma_to_hash_def
      first_chunk_def zeros_def sample_config_def)
qed

lemma sample_merkle: "nd_value (merkle (\<lambda>_. zeros) [zeros, zeros]) = zeros" "nd_value (merkle (\<lambda>_. zeros) [zeros]) = zeros"
proof -
  show "nd_value (merkle (\<lambda>_. zeros) [zeros]) = zeros" by (simp add: merkle.simps)
  show "nd_value (merkle (\<lambda>_. zeros) [zeros, zeros]) = zeros"
    using merkle.simps [of "\<lambda>_. zeros" "[zeros, zeros]"] by (simp add: tree_hash_def Let_def del: merkle.simps)
qed

lemma sample_consistency [simp]: "verify_consistency_proof (\<lambda>_. zeros) (Suc 0) 2 [zeros] zeros zeros = Inr ()"
proof -
  have lev: "level 2 = 0" "first_leaf 2 = 1" by (simp_all add: level.simps first_leaf_def)
  have len: "length [zeros, zeros] = 2" by simp
  have "genuine_consistency (\<lambda>_. zeros) [zeros, zeros] 1 = Inr [zeros]"
    unfolding genuine_consistency_def len consistency_proof_1_2 by (simp add: genuine_def lev)
  then show ?thesis
    using genuine_accepted [of 1 "[zeros, zeros]" "\<lambda>_. zeros"] by (simp add: sample_merkle numeral_2_eq_2 [symmetric])
qed

lemma sample_signature [simp]:
  "length root = 32 \<Longrightarrow> verify_tree_head_signature sample_ext sample_config n t (Inr sb) root vk (Some auditor_key) = Inr ()"
  by (simp add: verify_tree_head_signature_def to_signable_header_ok auditor_key_def)

lemma sample_head_verified:
  "verify_full_tree_head sample_ext sample_config sample_full_head zeros
     (Some (LastTreeHead (sample_head 1) zeros)) (Some (LastTreeHead (sample_head 1) zeros)) 2000
   = Inr (LastTreeHead (sample_head 2) zeros)"
  by (simp add: verify_full_tree_head_def sample_full_head_def get_proto_field_def run_consistency_check_def
    get_hash_proof_def check_consistency_metadata_def sample_head_def to_single_signature_tree_heads_def
    get_associated_keys_def single_signature_bytes_def verify_timestamp_def ALLOWED_TIMESTAMP_RANGE_def
    auditor_tree_heads_def verify_auditor_tree_head_def ALLOWED_AUDITOR_TIMESTAMP_RANGE_def ENTRIES_MAX_BEHIND_def)

lemma sample_monitor_path [simp]: "full_monitoring_path 0 0 2 = Inr [Suc 0]"
  by code_simp

lemma copath_2: "batch_copath [Suc 0] 2 = Some (Inr [0])" "batch_copath [0, Suc 0] 2 = Some (Inr [])"
proof -
  have root: "log_root 2 = Inr 1" by code_simp
  have "copath_level 2 [2] [] = Inr ([0], [1])" "copath_level 2 [0, 2] [] = Inr ([], [1])" by code_simp+
  with root show "batch_copath [Suc 0] 2 = Some (Inr [0])" "batch_copath [0, Suc 0] 2 = Some (Inr [])"
    by (simp_all add: batch_copath_def copath_loop.simps)
qed

lemma sample_batch [simp]:
  "evaluate_batch_proof (\<lambda>_. zeros) [Suc 0] 2 [zeros] [zeros] = Some (Inr zeros)"
  "evaluate_batch_proof (\<lambda>_. zeros) [0, Suc 0] 2 [zeros, zeros] [] = Some (Inr zeros)"
proof -
  have "genuine (\<lambda>_. zeros) [zeros, zeros] 0 = zeros" using genuine_leaf [of 0 "[zeros, zeros]"] by simp
  then show "evaluate_batch_proof (\<lambda>_. zeros) [Suc 0] 2 [zeros] [zeros] = Some (Inr zeros)"
    using genuine_batch_accepted [of "[Suc 0]" "[zeros, zeros]" "\<lambda>_. zeros"] by (simp add: sample_merkle copath_2 numeral_2_eq_2 [symmetric])
  show "evaluate_batch_proof (\<lambda>_. zeros) [0, Suc 0] 2 [zeros, zeros] [] = Some (Inr zeros)"
    using genuine_batch_accepted [of "[0, Suc 0]" "[zeros, zeros]" "\<lambda>_. zeros"] by (simp add: sample_merkle copath_2 numeral_2_eq_2 [symmetric])
qed

definition updated_data :: MonitoringData where
  "updated_data = sample_data\<lparr>md_ptrs := [(1, 1)], md_max_observed_version := 1\<rparr>"

lemma sample_monitoring_update [simp]:
  "monitoring_update (Some sample_data) 2 [(Suc 0, sample_step 1)] = Inr (Some updated_data)"
  by code_simp

lemma sample_monitor_verified:
  "verify_monitor sample_ext sample_config sample_monitor_request sample_monitor_response sample_monitor_context 2000
   = Some (Inr \<lparr>lsu_tree_head = sample_head 2, lsu_tree_root = zeros, lsu_monitoring_data = [([97], updated_data)]\<rparr>)"
proof -
  have step: "ps_prefix (sample_step 1) = Some \<lparr>pp_proof = replicate 256 zeros, pp_counter = 1\<rparr>"
    by (simp add: sample_step_def)
  have "process_all (\<lambda>_. zeros) [([97], sample_data)] (zip (mreq_keys sample_monitor_request) (mres_proofs sample_monitor_response))
      (MonitorProofAcc_new 2) = Inr \<lparr>mpa_tree_size = 2, mpa_leaves = [(1, zeros)], mpa_entries = [[(1, sample_step 1)]]\<rparr>"
    using step by (simp add: sample_monitor_request_def sample_monitor_response_def MonitorProofAcc_process_def
      MonitorProofAcc_new_def sample_data_def get_proto_field_def panicking_def)
  then show ?thesis
    using sample_head_verified
    by (simp add: verify_monitor_def sample_monitor_request_def sample_monitor_response_def sample_monitor_context_def
      then_run_def get_proto_field_def sample_full_head_def MAX_TREE_SIZE_def monitor_root_def into_sorted_pairs_def
      get_hash_proof_def sample_head_def bytes_of_string_def)
qed

definition sample_guide :: "u32 \<Rightarrow> nat list \<Rightarrow> (nat \<times> u32) list \<Rightarrow> bool \<Rightarrow> ProofGuide" where
  "sample_guide ver ids vs fr = \<lparr>guide_pos = 0, guide_n = 2, guide_version = ver, guide_ids = ids,
     guide_sorted = map (\<lambda>(i, v). VersionedId_new i v) vs, guide_is_frontier = fr\<rparr>"

lemma sample_guide_polls:
  "ProofGuide_new None 0 2 = Inr (sample_guide 0 [1] [] True)"
  "poll (sample_guide 0 [1] [] True) = (Inr False, sample_guide 0 [1] [] True)"
  "next_id (sample_guide 0 [1] [] True) = Inr 1"
  "poll (sample_guide 0 [1] [(1, 1)] True) = (Inr False, sample_guide 1 [1, 0] [(1, 1)] False)"
  "next_id (sample_guide 1 [1, 0] [(1, 1)] False) = Inr 0"
  "poll (sample_guide 1 [1, 0] [(1, 1), (0, 0)] False) = (Inr True, sample_guide 1 [1, 0] [(0, 0), (1, 1)] False)"
  "guide_result (sample_guide 1 [1, 0] [(0, 0), (1, 1)] False) = Inr (Some (0, 1))"
  by code_simp+

lemma sample_guide_insert: "guide_insert i v (sample_guide ver ids vs f) = sample_guide ver ids (vs @ [(i, v)]) f"
  by (simp add: guide_insert_def sample_guide_def)

lemma sample_prefix: "ps_prefix (sample_step ver) = Some \<lparr>pp_proof = replicate 256 zeros, pp_counter = ver\<rparr>"
  by (simp add: sample_step_def)

lemma sample_search_steps:
  "search_step (\<lambda>_. zeros) zeros sample_proof (0, [], []) g 1
   = (Inr (), guide_insert 1 1 g, (1, [(1, zeros)], [(1, sample_step 1)]))"
  "search_step (\<lambda>_. zeros) zeros sample_proof (1, [(1, zeros)], [(1, sample_step 1)]) g 0
   = (Inr (), guide_insert 0 0 g, (2, [(1, zeros), (0, zeros)], [(1, sample_step 1), (0, sample_step 0)]))"
  using sample_step_leaf [OF sample_prefix]
  by (simp_all add: search_step_def sample_proof_def get_proto_field_def sample_prefix Let_def)

lemma sample_consumed:
  "consume (search_step (\<lambda>_. zeros) zeros sample_proof) KtError_from_guide (sample_guide 0 [1] [] True) (0, [], [])
   = Some (Inr (Some (0, 1)), (2, [(1, zeros), (0, zeros)], [(1, sample_step 1), (0, sample_step 0)]))"
proof -
  let ?step = "search_step (\<lambda>_. zeros) zeros sample_proof" and ?s1 = "(1, [(1, zeros)], [(1, sample_step 1)])"
    and ?s2 = "(2, [(1, zeros), (0, zeros)], [(1, sample_step 1), (0, sample_step 0)])"
  have "consume ?step KtError_from_guide (sample_guide 1 [1, 0] [(1, 1), (0, 0)] False) ?s2 = Some (Inr (Some (0, 1)), ?s2)"
    unfolding consume.simps [of _ _ "sample_guide 1 _ _ _" ?s2] sample_guide_polls
    by (simp only: prod.case sum.case if_True sample_guide_polls panicking_def)
  then have "consume ?step KtError_from_guide (sample_guide 0 [1] [(1, 1)] True) ?s1 = Some (Inr (Some (0, 1)), ?s2)"
    unfolding consume.simps [of _ _ "sample_guide 0 _ _ _" ?s1] sample_guide_polls
    by (simp only: prod.case sum.case if_False simp_thms sample_guide_polls sample_search_steps sample_guide_insert append.simps)
  then show ?thesis
    unfolding consume.simps [of _ _ "sample_guide 0 _ [] _"] sample_guide_polls
    by (simp only: prod.case sum.case if_False simp_thms sample_guide_polls sample_search_steps sample_guide_insert append.simps)
qed

lemma sample_search_root:
  "search_root (\<lambda>_. zeros) zeros 2 sample_proof (sample_guide 0 [1] [] True)
   = Some (Inr (zeros, Some (0, 1), [(1, sample_step 1), (0, sample_step 0)]))"
  unfolding search_root_def sample_consumed
  by (simp add: sample_proof_def then_run_def get_hash_proof_def into_sorted_pairs_def insort_key.simps)

lemma sample_search_data:
  "update_search_data sample_config sample_request 2 zeros 0 1 1 [(1, sample_step 1), (0, sample_step 0)] True (Some sample_data)
   = Inr (Some updated_data)"
  by code_simp

lemma sample_search_verified:
  "verify_search sample_ext sample_config sample_request sample_response sample_context True 2000
   = Some (Inr \<lparr>lsu_tree_head = sample_head 2, lsu_tree_root = zeros, lsu_monitoring_data = Some updated_data\<rparr>)"
proof -
  have "search_inputs sample_ext sample_config sample_request sample_response = Inr (zeros, 2, sample_proof, sample_guide 0 [1] [] True)"
    using sample_guide_polls(1)
    by (simp add: search_inputs_def sample_response_def get_proto_field_def sample_full_head_def sample_head_def
      MAX_TREE_SIZE_def sample_request_def SlimSearchRequest_new_def panicking_def sample_proof_def)
  moreover have "search_finish sample_ext sample_config sample_request sample_response sample_context True 2000 zeros 2 sample_proof
      zeros (Some (0, 1)) [(1, sample_step 1), (0, sample_step 0)]
    = Inr \<lparr>lsu_tree_head = sample_head 2, lsu_tree_root = zeros, lsu_monitoring_data = Some updated_data\<rparr>"
    using sample_head_verified sample_search_data sample_prefix [of 1]
    by (simp add: search_finish_def sample_proof_def sample_response_def get_proto_field_def marshal_update_value_def
      verify_commitment_def commit_def sample_request_def SlimSearchRequest_new_def sample_context_def sample_step_def)
  ultimately show ?thesis
    by (simp add: verify_search_def verify_search_internal_def then_run_def sample_search_root [unfolded One_nat_def])
qed

section \<open>The properties on it\<close>

lemma md_ok_sample [simp]: "md_ok sample_data"
  by (simp add: md_ok_def sample_data_def)

lemma context_ok_sample: "context_ok sample_request sample_context"
  by (simp add: context_ok_def sample_context_def sample_request_def SlimSearchRequest_new_def bytes_of_string_def
    sample_head_def) (simp add: sample_data_def)

theorem verify_search_total_witness:
  "\<exists>r. verify_search sample_ext sample_config sample_request sample_response sample_context True 2000 = Some r \<and> \<not> is_panic r"
  by (rule verify_search_total)
    (simp_all add: context_ok_sample, simp_all add: sample_request_def SlimSearchRequest_new_def sample_response_def)

theorem verify_search_sound_witness:
  "\<exists>k leaf. k < (2 :: nat) \<and> step_leaf (\<lambda>_. zeros) zeros 0 \<lparr>pp_proof = replicate 256 zeros, pp_counter = (if k = 0 then 1 else 0)\<rparr> zeros = Inr leaf
    \<and> accepted_head sample_ext sample_config (sample_head 2) zeros (Some (LastTreeHead (sample_head 1) zeros))
        (Some (LastTreeHead (sample_head 1) zeros)) 2000"
proof -
  from verify_search_sound [OF sample_search_verified] obtain k pp leaf where
    "k < length (sp_steps sample_proof)" "ps_prefix (sp_steps sample_proof ! k) = Some pp"
    "step_leaf (\<lambda>_. zeros) zeros (sp_pos sample_proof) pp (ps_commitment (sp_steps sample_proof ! k)) = Inr leaf"
    "accepted_head sample_ext sample_config (sample_head 2) zeros (sc_last_tree_head sample_context)
        (sc_last_distinguished_tree_head sample_context) 2000"
    by (auto simp: sample_response_def)
  then show ?thesis
    by (intro exI [of _ k] exI [of _ leaf])
      (auto simp: sample_proof_def sample_context_def less_Suc_eq sample_step_def numeral_2_eq_2)
qed

theorem monitoring_data_advance_witness:
  "md_ok updated_data \<and> md_advance sample_data updated_data"
proof -
  have "md_ok d" if "sc_data sample_context = Some d" for d using that by (simp add: sample_context_def)
  from monitoring_data_advance [OF this] sample_search_verified show ?thesis
    by (fastforce simp: sample_context_def)
qed

theorem accepted_tree_head_witness:
  "\<exists>th. fth_tree_head sample_full_head = Some th \<and> accepted_head sample_ext sample_config th zeros
    (Some (LastTreeHead (sample_head 1) zeros)) (Some (LastTreeHead (sample_head 1) zeros)) 2000"
  using accepted_tree_head [OF sample_head_verified] by blast

text \<open>With a second key, the one named distinguished, which is updated up to the size 1 of the request.\<close>

definition two_keys_request :: MonitorRequest where
  "two_keys_request = sample_monitor_request\<lparr>mreq_keys := mreq_keys sample_monitor_request @
     [\<lparr>mk_search_key = bytes_of_string ''distinguished'', mk_entry_position = 0, mk_commitment_index = zeros\<rparr>]\<rparr>"

definition two_keys_context :: MonitorContext where
  "two_keys_context = sample_monitor_context\<lparr>mc_data :=
     [([97], sample_data), (bytes_of_string ''distinguished'', sample_data)]\<rparr>"

lemma two_keys_in_range: "monitor_in_range two_keys_request (mc_data two_keys_context) 2"
  by (auto simp: monitor_in_range_def update_size_def two_keys_request_def two_keys_context_def sample_monitor_request_def
      sample_data_def md_ok_sample [unfolded sample_data_def] bytes_of_string_def)

theorem verify_monitor_total_witness:
  "\<exists>r. verify_monitor sample_ext sample_config two_keys_request
      (sample_monitor_response\<lparr>mres_proofs := replicate 2 \<lparr>mp_steps = [sample_step 1]\<rparr>\<rparr>) two_keys_context 2000 = Some r
    \<and> \<not> is_panic r"
  by (rule verify_monitor_total)
    (simp_all add: sample_monitor_response_def sample_full_head_def sample_head_def two_keys_in_range)

theorem account_data_roundtrip_witness:
  "\<exists>s. AccountData_into_stored \<lparr>ad_aci = sample_data, ad_e164 = Some sample_data, ad_username_hash = None,
      ad_last_tree_head = LastTreeHead (sample_head 2) zeros\<rparr> [97] (Some [98]) None 2000 = Inr s
    \<and> AccountData_try_from s = Inr \<lparr>ad_aci = sample_data, ad_e164 = Some (sample_data\<lparr>md_search_key := [98]\<rparr>),
      ad_username_hash = None, ad_last_tree_head = LastTreeHead (sample_head 2) zeros\<rparr>"
  using account_data_roundtrip [of "\<lparr>ad_aci = sample_data, ad_e164 = Some sample_data, ad_username_hash = None,
      ad_last_tree_head = LastTreeHead (sample_head 2) zeros\<rparr>" 2000 "[97]" "Some [98]" None]
  by (simp add: sample_data_def)

text \<open>The client monitors a key whose first entry is at position 5, and the server answers with a tree of size 2.\<close>

theorem verify_monitor_panics_witness:
  "verify_monitor sample_ext sample_config sample_monitor_request sample_monitor_response
     (sample_monitor_context\<lparr>mc_data := [([97], sample_data\<lparr>md_pos := 5\<rparr>)]\<rparr>) 2000
   = Some (Inl (Panic ''leaf node has no children''))"
  by (rule verify_monitor_panics)
    (auto simp: sample_monitor_request_def sample_monitor_response_def sample_monitor_context_def sample_full_head_def
      sample_head_def MAX_TREE_SIZE_def)

end
