(* ===== verification/Spec2Isabelle.thy ===== *)
theory Spec2Isabelle
  imports Sample_Conversation Incremental_Mac Fingerprint Kt_Sample
begin

text \<open>
  Verification library for the messaging core and the key transparency client of libsignal.

  \<^bold>\<open>The program.\<close> Two parties exchange messages through an untrusted server. The initiator fetches the
  recipient's pre-key bundle, checks its signatures and runs the PQXDH handshake
  (\<^verbatim>\<open>rust/protocol/src/session.rs\<close>, \<^verbatim>\<open>pqxdh.rs\<close>); the result is a session, which both sides
  keep in a record with its archived predecessors (\<^verbatim>\<open>state/session.rs\<close>). Every message is encrypted
  with a key of the Triple Ratchet: a Double Ratchet (\<^verbatim>\<open>double_ratchet.rs\<close>, \<^verbatim>\<open>ratchet/keys.rs\<close>)
  whose keys are mixed with those of a post-quantum ratchet (\<^verbatim>\<open>triple_ratchet.rs\<close>), and travels as
  one of the wire formats of \<^verbatim>\<open>protocol.rs\<close>. \<^verbatim>\<open>session_management.rs\<close> does this on the
  stores of \<^verbatim>\<open>storage/\<close>. Groups use sender keys (\<^verbatim>\<open>sender_keys.rs\<close>,
  \<^verbatim>\<open>group_cipher.rs\<close>); attachments use incremental MACs (\<^verbatim>\<open>incremental_mac.rs\<close>), and
  safety numbers let two people compare identity keys (\<^verbatim>\<open>fingerprint.rs\<close>). To find out
  which identity key belongs to an account the client asks a key transparency server and checks its answers
  (\<^verbatim>\<open>rust/keytrans/src\<close>): the answer to a search is a path of log entries, each with a proof in a
  prefix tree and all of them included in the log by one batch proof; the log's root is signed and extends the
  roots seen before.

  \<^bold>\<open>Conventions.\<close> Each theory opens with the source files it models; definitions keep the names of the code, with
  the type in front for methods. A function that can fail returns \<open>Inl (Err e)\<close>, one that can panic \<open>Inl (Panic
  message)\<close>: every \<open>?\<close>, early return, \<open>expect\<close>, \<open>unwrap\<close>, failed assertion, index or range outside a slice and checked
  arithmetic overflow is a branch, except for indices into arrays of a fixed length and those found by \<open>position\<close> (overflow checks are on in the release profile; \<open>debug_assert\<close> is not, and what is evaluated only to be logged is left out
  with the logging). Mutation is state passing, with the state
  returned also on the error paths where the caller can see it. \<open>u8\<close> and \<open>u32\<close> are words; a \<open>u64\<close> of the tree code is a
  natural number with the overflow written out. Structs are records, enums datatypes, a \<open>HashMap\<close> is a map, or, where
  it is iterated over, an association list in its iteration order, the clock and the random generator are arguments. Loops that are not structural are
  functions with a measure, or, where the code might loop forever, partial functions with the value \<open>None\<close> for not
  returning; the properties then prove that a value is returned. No fuel is used.

  \<^bold>\<open>Parameters.\<close> Third-party code is a record of functions (\<open>Ext\<close> in \<open>Externals\<close>, \<open>KtExt\<close> in \<open>Kt_Types\<close>, \<open>EdOps\<close> in \<open>Vrf\<close>,
  \<open>MacOps\<close> in \<open>Incremental_Mac\<close>, \<open>FpCodec\<close> in \<open>Fingerprint\<close>): ciphers, hashes, curve and KEM operations, the SPQR ratchet, the protobuf encoder.
  What the proofs use of it is a named hypothesis such as decryption inverting encryption, agreement being
  symmetric, a hash having 32 bytes. \<open>Concrete_Externals\<close>, \<open>Sample_Conversation\<close> and \<open>Kt_Sample\<close> give concrete
  functions that meet all of them and apply the properties to a whole conversation and to a whole answer of a key
  transparency server.

  \<^bold>\<open>Shared theories.\<close> \<open>Signal_Prelude\<close> has the result types, the rules of \<open>?\<close> and of panics, and lemmas on lists and
  words. \<open>Protobuf\<close> has the records of the protobuf messages. \<open>Key_Chain\<close> has the interfaces of chains of message
  keys as locales: what a chain and a bounded cache of skipped keys promise, from which follow the delivery in any
  order and the absence of replays. They are interpreted for the Double Ratchet and for sender keys.

  \<^bold>\<open>Sessions.\<close> \<open>Address\<close> (\<^verbatim>\<open>rust/core/src/address.rs\<close>), \<open>Curve\<close> (\<^verbatim>\<open>rust/core/src/curve.rs\<close>),
  \<open>Kem\<close>, \<open>Signal_Error\<close>, \<open>Crypto\<close> (with identity keys) and \<open>Pre_Keys\<close> model the keys and their encodings, with round
  trips and canonicity. \<open>Ratchet_Keys\<close>, \<open>Double_Ratchet\<close> and \<open>Triple_Ratchet\<close> model the ratchets: keys are delivered in
  any order and once, a step keeps the parties in step, the state stays bounded, what was encrypted decrypts, and
  exactly one counter value makes the code panic. \<open>Wire_Messages\<close> shows that messages parse back, that parsers never
  panic, with the length checks in front of every index and slice, and what the MAC authenticates. \<open>Session_State\<close> is the record of sessions and its promotion, \<open>Pqxdh\<close> the
  handshake, with the initial states of both sides in step. \<open>Stores\<close> has the store traits as records of operations and
  the in-memory stores, with trust on first use after any sequence of saves, \<open>Session_Builder\<close> the processing of
  bundles with all it leaves in the stores, \<open>Session_Management\<close> encryption and decryption on the
  stores: failures leave sessions and pre-keys unchanged, one-time pre-keys are removed exactly when used.
  \<open>Sessions_In_Step\<close> is the invariant of two stores in conversation, \<open>Conversation\<close> its consequences: a first message
  arrives once, every run of sends and receives delivers, encryption never reuses a key.

  \<^bold>\<open>Groups, streams and safety numbers.\<close> \<open>Sender_Keys\<close> and \<open>Group_Cipher\<close>: a distribution message puts sender and receiver on one chain,
  group messages decrypt in any order and once. \<open>Incremental_Mac\<close>: however a stream is split, the MACs are those of
  its prefixes, and the validator accepts exactly these. \<open>Fingerprint\<close>: both parties see the same digits, and a scanned
  code is accepted exactly if it holds the hashes the scanning party has computed.

  \<^bold>\<open>Key transparency.\<close> \<open>Left_Balanced\<close> and \<open>Implicit_Tree\<close> are the arithmetic of the search tree (\<^verbatim>\<open>left_balanced.rs\<close>,
  \<^verbatim>\<open>implicit.rs\<close>): the monitoring path of an entry contains every later entry whose subtree holds it. \<open>Proof_Guide\<close> and
  \<open>Guided_Search\<close> are \<^verbatim>\<open>guide.rs\<close>: the search ends and finds the first entry with a version; the locales \<open>log_search\<close> and
  \<open>guided_lookup\<close> are what it relies on of its caller's closure, interpreted for the closure of \<open>verify_search_internal\<close>.
  \<open>Merkle_Log\<close> is \<^verbatim>\<open>log.rs\<close>; \<open>Merkle_Proofs\<close> shows that its root calculator refines the recursive Merkle tree, with the chain as the
  binary counter of perfect subtrees,
  \<open>Log_Proofs\<close> that consistency proofs are complete and sound, \<open>Batch_Copath\<close> and \<open>Batch_Proofs\<close> the same of batch inclusion
  proofs. \<open>Prefix_Tree\<close> (\<^verbatim>\<open>prefix.rs\<close>, \<^verbatim>\<open>commitments.rs\<close>) shows what roots and commitments bind, \<open>Vrf\<close> is
  \<^verbatim>\<open>vrf.rs\<close>. \<open>Kt_Types\<close> and \<open>Kt_Verify\<close> are \<^verbatim>\<open>lib.rs\<close> and \<^verbatim>\<open>verify.rs\<close>; \<open>Kt_Monitoring\<close>,
  \<open>Kt_Search\<close> and \<open>Kt_Properties\<close> prove that verification ends without a panic, that an accepted answer shows an entry of
  any log with the accepted root, and that monitoring data only advances. Soundness is stated without assuming
  that hashes are injective: either the conclusion holds or two of the strings hashed in the verification collide.

  \<^bold>\<open>Bounds.\<close> The tree code bounds sizes by \<open>2 ^ 62\<close>, and the lemmas on it assume only that. Panics that remain are stated as
  properties or hypotheses: the counter \<open>2 ^ 32 - 1\<close> of a chain, a monitor answer with a tree that is too small, a
  system time before the epoch.

  \<^bold>\<open>Not modelled.\<close> Log output and Debug formatting; sealed sender, account keys and usernames; the
  test-only legacy session cipher; the feature-gated KEM types; the zero-knowledge credentials and proofs, SVR and
  attestation (algebra of ristretto and vendor formats in third-party libraries); message backup; the network stack
  and the language bridges (asynchronous I/O and foreign-function glue).
\<close>

end
